(* ===== verification/Prelude.thy ===== *)
theory Prelude
  imports Main "HOL-Library.Word" "HOL-Library.Sublist" "HOL-Library.Signed_Division"
begin

text \<open>
  Shared vocabulary of the development: the C integer types as words, the kernel's error
  numbers, integer helpers of the kernel headers (\<^verbatim>\<open>DIV_ROUND_UP\<close>, \<^verbatim>\<open>roundup\<close>,
  \<^verbatim>\<open>ALIGN\<close>), bounded array access, and the list lemmas the components share.

  Conventions used throughout:
  \<^item> a C function with an \<^verbatim>\<open>int\<close> return code and an updated structure is a HOL function
    returning the pair of the code and the new structure (codes are \<open>int\<close>, errors negative);
  \<^item> an access outside an array, undefined behaviour in C, is the value \<open>None\<close> of an
    \<open>option\<close> result wherever the source does not exclude it by a check of its own;
  \<^item> debug prints, trace points and locks have no counterpart in the state.
\<close>

unbundle bit_operations_syntax

section \<open>Machine integers\<close>

type_synonym u8 = "8 word"
type_synonym u16 = "16 word"
type_synonym u32 = "32 word"
type_synonym u64 = "64 word"

text \<open>Conversion of an unsigned 32-bit value to the C type \<^verbatim>\<open>int\<close> (two's complement).\<close>

definition c_int :: "u32 \<Rightarrow> int" where
  "c_int w = sint w"

text \<open>A 32-bit \<^verbatim>\<open>int\<close> stored into an unsigned 32-bit variable.\<close>

definition c_u32 :: "int \<Rightarrow> u32" where
  "c_u32 i = word_of_int i"

text \<open>The mask \<^verbatim>\<open>BIT(n)\<close> of the kernel.\<close>

definition BIT32 :: "nat \<Rightarrow> u32" where
  "BIT32 n = push_bit n 1"

lemma unat_minus_1_u32 [simp]: "unat (- 1 :: u32) = 4294967295"
  by (simp add: unsigned_minus_1_eq_mask mask_eq_exp_minus_1)

lemma unat_u32_less: "unat (w :: u32) < 4294967296"
  using unsigned_less [of w, where ?'a = nat] by simp

lemma unat_add_1_u32: "unat (w + 1 :: u32) = (if unat w = 4294967295 then 0 else Suc (unat w))"
  using unat_u32_less [of w] by (simp add: unat_word_ariths)

lemma unat_inc_mod_u32:
  fixes i sz :: u32
  assumes "unat i < unat sz"
  shows "unat ((i + 1) mod sz) = Suc (unat i) mod unat sz"
  using assms unat_u32_less [of sz] by (simp add: unat_mod_distrib unat_add_1_u32)

lemma mod_4_u32: "(i :: u32) mod 4 = 0 \<longleftrightarrow> unat i mod 4 = 0"
proof -
  have "unat (i mod 4) = unat i mod 4" by (simp add: unat_mod_distrib)
  then show ?thesis by (metis unat_eq_zero unat_0)
qed

section \<open>Error numbers\<close>

abbreviation (input) EPERM :: int where "EPERM \<equiv> 1"
abbreviation (input) ENOENT :: int where "ENOENT \<equiv> 2"
abbreviation (input) EIO :: int where "EIO \<equiv> 5"
abbreviation (input) ENOMEM :: int where "ENOMEM \<equiv> 12"
abbreviation (input) EFAULT :: int where "EFAULT \<equiv> 14"
abbreviation (input) EBUSY :: int where "EBUSY \<equiv> 16"
abbreviation (input) ENODEV :: int where "ENODEV \<equiv> 19"
abbreviation (input) EINVAL :: int where "EINVAL \<equiv> 22"
abbreviation (input) ENOSPC :: int where "ENOSPC \<equiv> 28"
abbreviation (input) ERANGE :: int where "ERANGE \<equiv> 34"
abbreviation (input) ENAVAIL :: int where "ENAVAIL \<equiv> 119"
abbreviation (input) ETIMEDOUT :: int where "ETIMEDOUT \<equiv> 110"
abbreviation (input) ESRCH :: int where "ESRCH \<equiv> 3"
abbreviation (input) ECANCELED :: int where "ECANCELED \<equiv> 125"

section \<open>Lists\<close>

lemma find_SomeD: "find P xs = Some x \<Longrightarrow> x \<in> set xs \<and> P x"
  by (induction xs) (auto split: if_splits)

section \<open>Integer helpers of the kernel headers\<close>

definition DIV_ROUND_UP_int :: "int \<Rightarrow> int \<Rightarrow> int" where
  "DIV_ROUND_UP_int n d = (n + d - 1) sdiv d"

lemma DIV_ROUND_UP_int:
  assumes "0 \<le> n" "0 < d"
  shows "DIV_ROUND_UP_int n d = (n + d - 1) div d" "n \<le> d * DIV_ROUND_UP_int n d" "d * DIV_ROUND_UP_int n d < n + d"
    "0 \<le> DIV_ROUND_UP_int n d"
proof -
  show e: "DIV_ROUND_UP_int n d = (n + d - 1) div d"
    using assms by (cases "n + d - 1 = 0") (simp_all add: DIV_ROUND_UP_int_def signed_divide_int_def sgn_if)
  have "d * ((n + d - 1) div d) + (n + d - 1) mod d = n + d - 1" by simp
  moreover have "0 \<le> (n + d - 1) mod d" "(n + d - 1) mod d < d" using assms(2) by simp_all
  ultimately show "n \<le> d * DIV_ROUND_UP_int n d" "d * DIV_ROUND_UP_int n d < n + d" unfolding e by linarith+
  show "0 \<le> DIV_ROUND_UP_int n d" unfolding e using assms by (simp add: pos_imp_zdiv_nonneg_iff)
qed

definition DIV_ROUND_UP :: "nat \<Rightarrow> nat \<Rightarrow> nat" where
  "DIV_ROUND_UP n d = (n + d - 1) div d"

lemma DIV_ROUND_UP_ge: "0 < d \<Longrightarrow> n \<le> DIV_ROUND_UP n d * d"
proof -
  assume d: "0 < d"
  have "n + d - 1 = (n + d - 1) div d * d + (n + d - 1) mod d" by simp
  moreover have "(n + d - 1) mod d < d" using d by simp
  ultimately show ?thesis unfolding DIV_ROUND_UP_def by linarith
qed

lemma DIV_ROUND_UP_less: "0 < d \<Longrightarrow> DIV_ROUND_UP n d * d < n + d"
proof -
  assume d: "0 < d"
  have "(n + d - 1) div d * d \<le> n + d - 1" by simp
  then show ?thesis using d unfolding DIV_ROUND_UP_def by linarith
qed

section \<open>Arrays\<close>

text \<open>A read of a C array, \<open>None\<close> out of range.\<close>

definition arr_get :: "'a list \<Rightarrow> nat \<Rightarrow> 'a option" where
  "arr_get xs i = (if i < length xs then Some (xs ! i) else None)"

text \<open>A write to a C array, \<open>None\<close> out of range.\<close>

definition arr_set :: "'a list \<Rightarrow> nat \<Rightarrow> 'a \<Rightarrow> 'a list option" where
  "arr_set xs i v = (if i < length xs then Some (xs[i := v]) else None)"

lemma arr_get_Some [simp]: "arr_get xs i = Some x \<longleftrightarrow> i < length xs \<and> xs ! i = x"
  by (auto simp: arr_get_def)

lemma arr_set_Some [simp]: "arr_set xs i v = Some ys \<longleftrightarrow> i < length xs \<and> ys = xs[i := v]"
  by (auto simp: arr_set_def)

section \<open>Ownership tables\<close>

text \<open>
  An ownership table lists, per hardware block, the identifier of the client that holds it
  (0 for none).  The first contract is what releasing does to such a table; the second adds
  what a reservation may change of it: only slots that were free or the client's own, and
  only to the client's identifier.
\<close>

definition release_owner :: "u32 \<Rightarrow> u32 list \<Rightarrow> u32 list" where
  "release_owner e xs = map (\<lambda>x. if x = e then 0 else x) xs"

definition granted_only :: "u32 \<Rightarrow> u32 list \<Rightarrow> u32 list \<Rightarrow> bool" where
  "granted_only e xs ys \<longleftrightarrow> length ys = length xs \<and>
     (\<forall>i<length xs. ys ! i = xs ! i \<or> ((xs ! i = 0 \<or> xs ! i = e) \<and> ys ! i = e))"

lemma granted_only_refl [simp]: "granted_only e xs xs"
  by (simp add: granted_only_def)

lemma granted_only_trans: "granted_only e xs ys \<Longrightarrow> granted_only e ys zs \<Longrightarrow> granted_only e xs zs"
  unfolding granted_only_def by metis

lemma granted_only_update:
  "(i < length xs \<Longrightarrow> xs ! i = 0 \<or> xs ! i = e) \<Longrightarrow> granted_only e xs (xs[i := e])"
  unfolding granted_only_def by (metis length_list_update nth_list_update_eq nth_list_update_neq)

lemma granted_only_other:
  "granted_only e xs ys \<Longrightarrow> i < length xs \<Longrightarrow> xs ! i \<noteq> 0 \<Longrightarrow> xs ! i \<noteq> e \<Longrightarrow> ys ! i = xs ! i"
  unfolding granted_only_def by metis

text \<open>Writing one value to several slots, and the slots a client owns in ascending order.\<close>

definition set_all :: "'a \<Rightarrow> nat list \<Rightarrow> 'a list \<Rightarrow> 'a list" where
  "set_all e is xs = fold (\<lambda>i t. t[i := e]) is xs"

lemma set_all_Nil [simp]: "set_all e [] xs = xs"
  by (simp add: set_all_def)

lemma set_all_Cons [simp]: "set_all e (i # is) xs = set_all e is (xs[i := e])"
  by (simp add: set_all_def)

lemma length_set_all [simp]: "length (set_all e is xs) = length xs"
  by (induction "is" arbitrary: xs) auto

lemma nth_set_all:
  "i < length xs \<Longrightarrow> set_all e is xs ! i = (if i \<in> set is then e else xs ! i)"
  by (induction "is" arbitrary: xs) (auto simp: nth_list_update)

lemma granted_only_set_all:
  assumes "\<And>i. i \<in> set is \<Longrightarrow> i < length xs \<Longrightarrow> xs ! i = 0 \<or> xs ! i = e"
  shows "granted_only e xs (set_all e is xs)"
  unfolding granted_only_def using assms by (auto simp: nth_set_all)

primrec owned :: "u32 \<Rightarrow> nat \<Rightarrow> u32 list \<Rightarrow> nat list" where
  "owned e i [] = []"
| "owned e i (x # xs) = (if x = e then [i] else []) @ owned e (Suc i) xs"

lemma set_owned: "set (owned e i xs) = {j. i \<le> j \<and> j < i + length xs \<and> xs ! (j - i) = e}"
proof (induction xs arbitrary: i)
  case Nil
  then show ?case by auto
next
  case (Cons x xs)
  have "(i \<le> j \<and> j < i + length (x # xs) \<and> (x # xs) ! (j - i) = e) \<longleftrightarrow>
    (j = i \<and> x = e) \<or> (Suc i \<le> j \<and> j < Suc i + length xs \<and> xs ! (j - Suc i) = e)" for j
    by (cases "j = i") (auto simp: nth_Cons' dest!: le_neq_implies_less)
  then show ?case using Cons.IH [of "Suc i"] by auto
qed

lemma sorted_owned: "sorted_wrt (<) (owned e i xs)"
  by (induction xs arbitrary: i) (auto simp: set_owned)

lemma length_owned: "length (owned e i xs) \<le> length xs"
  by (induction xs arbitrary: i) (auto intro: le_SucI)

lemma owned_set_all:
  assumes "e \<notin> set xs" and "sorted_wrt (<) is" and "\<And>i. i \<in> set is \<Longrightarrow> i < length xs"
  shows "owned e 0 (set_all e is xs) = is"
proof (rule sorted_distinct_set_unique)
  show "set (owned e 0 (set_all e is xs)) = set is"
    using assms(1,3) by (auto simp: set_owned nth_set_all split: if_splits)
qed (use assms(2) sorted_owned [of e 0 "set_all e is xs"] in \<open>auto simp: strict_sorted_iff\<close>)

locale owner_table =
  fixes tab :: "'s \<Rightarrow> u32 list"
    and release :: "u32 \<Rightarrow> 's \<Rightarrow> 's"
  assumes tab_release: "tab (release e s) = release_owner e (tab s)"
begin

lemma release_length: "length (tab (release e s)) = length (tab s)"
  by (simp add: tab_release release_owner_def)

lemma release_gone: "e \<noteq> 0 \<Longrightarrow> e \<notin> set (tab (release e s))"
  by (auto simp: tab_release release_owner_def)

lemma release_other:
  "i < length (tab s) \<Longrightarrow> tab s ! i \<noteq> e \<Longrightarrow> tab (release e s) ! i = tab s ! i"
  by (simp add: tab_release release_owner_def)

lemma release_absent: "e \<notin> set (tab s) \<Longrightarrow> tab (release e s) = tab s"
  by (auto simp: tab_release release_owner_def intro: map_idI)

lemma release_twice: "tab (release e (release e s)) = tab (release e s)"
  by (simp add: tab_release release_owner_def)

end

locale owner_reservation = owner_table tab release
  for tab :: "'s \<Rightarrow> u32 list" and release :: "u32 \<Rightarrow> 's \<Rightarrow> 's" +
  fixes reserve :: "'r \<Rightarrow> u32 \<Rightarrow> 's \<Rightarrow> 's option"
  assumes reserve_grants: "reserve r e s = Some s' \<Longrightarrow> granted_only e (tab s) (tab s')"
begin

lemma reserve_isolated:
  "reserve r e s = Some s' \<Longrightarrow> i < length (tab s) \<Longrightarrow> tab s ! i \<noteq> 0 \<Longrightarrow> tab s ! i \<noteq> e \<Longrightarrow>
   tab s' ! i = tab s ! i"
  by (blast intro: granted_only_other reserve_grants)

lemma reserve_length: "reserve r e s = Some s' \<Longrightarrow> length (tab s') = length (tab s)"
  by (drule reserve_grants) (simp add: granted_only_def)

text \<open>
  Releasing after a reservation leaves the table that releasing without it leaves: what the client
  took is returned.  For a client that held nothing that is the table before.
\<close>

lemma reserve_release_same:
  assumes "reserve r e s = Some s'"
  shows "tab (release e s') = tab (release e s)"
proof (rule nth_equalityI)
  show "length (tab (release e s')) = length (tab (release e s))"
    using assms by (simp add: release_length reserve_length)
next
  fix i assume "i < length (tab (release e s'))"
  then have "i < length (tab s)" "i < length (tab s')"
    using assms by (simp_all add: release_length reserve_length)
  then show "tab (release e s') ! i = tab (release e s) ! i"
    using reserve_grants [OF assms]
    by (auto simp: tab_release release_owner_def granted_only_def)
qed

lemma reserve_release:
  assumes "reserve r e s = Some s'" and "e \<notin> set (tab s)"
  shows "tab (release e s') = tab s"
  using reserve_release_same [OF assms(1)] release_absent [OF assms(2)] by simp

end

section \<open>Bounded queues\<close>

text \<open>
  The contract of a queue of messages: \<open>holds\<close> relates an implementation to the list of
  messages in it, oldest first.  A message for which there is \<open>room\<close> is appended, one for which
  the queue is \<open>full\<close> is refused without an effect on the messages.  Where neither holds the queue
  is one that loses messages: the write is reported as done, and the queue is empty after it.
\<close>

datatype 'm queue_op = Put 'm | Get

datatype 'm queue_result = Accepted | Rejected | Got "'m option"

fun spec_run :: "('m list \<Rightarrow> 'm \<Rightarrow> bool) \<Rightarrow> ('m list \<Rightarrow> 'm \<Rightarrow> bool) \<Rightarrow> 'm queue_op list \<Rightarrow> 'm list \<Rightarrow>
    'm queue_result list \<times> 'm list" where
  "spec_run room full [] ms = ([], ms)"
| "spec_run room full (Put m # ops) ms =
     (if room ms m then apfst (Cons Accepted) (spec_run room full ops (ms @ [m]))
      else if full ms m then apfst (Cons Rejected) (spec_run room full ops ms)
      else apfst (Cons Accepted) (spec_run room full ops []))"
| "spec_run room full (Get # ops) ms = (case ms of
     [] \<Rightarrow> apfst (Cons (Got None)) (spec_run room full ops [])
   | m # ms' \<Rightarrow> apfst (Cons (Got (Some m))) (spec_run room full ops ms'))"

fun impl_run :: "('m \<Rightarrow> 'q \<Rightarrow> (bool \<times> 'q) option) \<Rightarrow> ('q \<Rightarrow> ('m option \<times> 'q) option) \<Rightarrow> 'm queue_op list \<Rightarrow> 'q \<Rightarrow>
    ('m queue_result list \<times> 'q) option" where
  "impl_run enq deq [] q = Some ([], q)"
| "impl_run enq deq (Put m # ops) q = (case enq m q of
     None \<Rightarrow> None
   | Some (ok, q') \<Rightarrow> map_option (apfst (Cons (if ok then Accepted else Rejected))) (impl_run enq deq ops q'))"
| "impl_run enq deq (Get # ops) q = (case deq q of
     None \<Rightarrow> None
   | Some (r, q') \<Rightarrow> map_option (apfst (Cons (Got r))) (impl_run enq deq ops q'))"

locale bounded_queue =
  fixes holds :: "'q \<Rightarrow> 'm list \<Rightarrow> bool"
    and enq :: "'m \<Rightarrow> 'q \<Rightarrow> (bool \<times> 'q) option"
    and deq :: "'q \<Rightarrow> ('m option \<times> 'q) option"
    and valid :: "'m \<Rightarrow> bool"
    and room :: "'m list \<Rightarrow> 'm \<Rightarrow> bool"
    and full :: "'m list \<Rightarrow> 'm \<Rightarrow> bool"
  assumes enq_room: "holds q ms \<Longrightarrow> valid m \<Longrightarrow> room ms m \<Longrightarrow> \<exists>q'. enq m q = Some (True, q') \<and> holds q' (ms @ [m])"
    and enq_full: "holds q ms \<Longrightarrow> valid m \<Longrightarrow> full ms m \<Longrightarrow> \<not> room ms m \<Longrightarrow> \<exists>q'. enq m q = Some (False, q') \<and> holds q' ms"
    and enq_loses: "holds q ms \<Longrightarrow> valid m \<Longrightarrow> \<not> full ms m \<Longrightarrow> \<not> room ms m \<Longrightarrow> \<exists>q'. enq m q = Some (True, q') \<and> holds q' []"
    and deq_empty: "holds q [] \<Longrightarrow> \<exists>q'. deq q = Some (None, q') \<and> holds q' []"
    and deq_first: "holds q (m # ms) \<Longrightarrow> \<exists>q'. deq q = Some (Some m, q') \<and> holds q' ms"
begin

lemma run_refines:
  assumes "holds q ms" and "\<forall>m. Put m \<in> set ops \<longrightarrow> valid m"
  shows "\<exists>q'. impl_run enq deq ops q = Some (fst (spec_run room full ops ms), q')
    \<and> holds q' (snd (spec_run room full ops ms))"
  using assms
proof (induction ops arbitrary: ms q)
  case (Cons op ops)
  have v: "\<forall>m. Put m \<in> set ops \<longrightarrow> valid m" using Cons.prems(2) by simp
  show ?case
  proof (cases op)
    case (Put m)
    with Cons.prems(2) have m: "valid m" by simp
    consider "room ms m" | "\<not> room ms m" "full ms m" | "\<not> room ms m" "\<not> full ms m" by blast
    then show ?thesis
    proof cases
      case 1
      obtain q1 where q: "enq m q = Some (True, q1)" "holds q1 (ms @ [m])"
        using enq_room [OF Cons.prems(1) m 1] by blast
      from Cons.IH [OF q(2) v] q(1) 1 Put show ?thesis by auto
    next
      case 2
      obtain q1 where q: "enq m q = Some (False, q1)" "holds q1 ms"
        using enq_full [OF Cons.prems(1) m 2(2,1)] by blast
      from Cons.IH [OF q(2) v] q(1) 2 Put show ?thesis by auto
    next
      case 3
      obtain q1 where q: "enq m q = Some (True, q1)" "holds q1 []"
        using enq_loses [OF Cons.prems(1) m 3(2,1)] by blast
      from Cons.IH [OF q(2) v] q(1) 3 Put show ?thesis by auto
    qed
  next
    case Get
    show ?thesis
    proof (cases ms)
      case Nil
      obtain q1 where q: "deq q = Some (None, q1)" "holds q1 []" using deq_empty Cons.prems(1) Nil by blast
      from Cons.IH [OF q(2) v] q(1) Nil Get show ?thesis by auto
    next
      case (Cons m ms1)
      obtain q1 where q: "deq q = Some (Some m, q1)" "holds q1 ms1" using deq_first Cons.prems(1) Cons by blast
      from Cons.IH [OF q(2) v] q(1) Cons Get show ?thesis by auto
    qed
  qed
qed auto

end

section \<open>Simulation of operations\<close>

text \<open>Running operations that may be refused.\<close>

fun opt_run :: "('o \<Rightarrow> 'a \<Rightarrow> 'a option) \<Rightarrow> 'o list \<Rightarrow> 'a \<Rightarrow> 'a option" where
  "opt_run f [] a = Some a"
| "opt_run f (x # xs) a = Option.bind (f x a) (opt_run f xs)"

text \<open>
  An abstract machine, whose operations have preconditions, and a concrete one that follows it
  along a relation.
\<close>

locale op_simulation =
  fixes astep :: "'o \<Rightarrow> 'a \<Rightarrow> 'a option" and cstep :: "'o \<Rightarrow> 'c \<Rightarrow> 'c" and R :: "'a \<Rightarrow> 'c \<Rightarrow> bool"
  assumes sim: "R a c \<Longrightarrow> astep x a = Some a' \<Longrightarrow> R a' (cstep x c)"
begin

lemma run_sim: "R a c \<Longrightarrow> opt_run astep xs a = Some a' \<Longrightarrow> R a' (fold cstep xs c)"
  by (induction xs arbitrary: a c) (auto split: bind_splits intro: sim)

end

end
