(* ===== verification/DPU_RM.thy ===== *)
theory DPU_RM
  imports Prelude
begin

text \<open>
  The DPU hardware resource manager (\<^verbatim>\<open>msm/disp/dpu1/dpu_rm.c\<close>): the catalogue lookups and
  constructors of the hardware blocks (\<^verbatim>\<open>dpu_hw_lm.c\<close>, \<^verbatim>\<open>dpu_hw_ctl.c\<close>, \<dots>), the
  construction of the resource tables by \<^verbatim>\<open>dpu_rm_init\<close> with its clean-up path, and the
  reservation of mixers, ping-pongs, DSPPs, controls and DSC encoders for an encoder.

  A table \<^verbatim>\<open>xxx_to_enc_id\<close> is a list of 32-bit owners, 0 for a free block; a block array
  \<^verbatim>\<open>xxx_blks\<close> is a list of optional blocks (\<open>None\<close> for the null pointer).  The success
  of each \<^verbatim>\<open>kzalloc\<close> is a parameter \<open>kz\<close> of the definitions, by block type and catalogue
  position.
\<close>

section \<open>Data\<close>

subsection \<open>Identifiers (dpu_hw_mdss.h)\<close>

abbreviation (input) LM_0 :: u32 where "LM_0 \<equiv> 1"
abbreviation (input) LM_MAX :: u32 where "LM_MAX \<equiv> 8"
abbreviation (input) DSPP_0 :: u32 where "DSPP_0 \<equiv> 1"
abbreviation (input) DSPP_MAX :: u32 where "DSPP_MAX \<equiv> 5"
abbreviation (input) CTL_0 :: u32 where "CTL_0 \<equiv> 1"
abbreviation (input) CTL_MAX :: u32 where "CTL_MAX \<equiv> 7"
abbreviation (input) DSC_0 :: u32 where "DSC_0 \<equiv> 1"
abbreviation (input) DSC_MAX :: u32 where "DSC_MAX \<equiv> 7"
abbreviation (input) PINGPONG_0 :: u32 where "PINGPONG_0 \<equiv> 1"
abbreviation (input) PINGPONG_MAX :: u32 where "PINGPONG_MAX \<equiv> 8"
abbreviation (input) MERGE_3D_0 :: u32 where "MERGE_3D_0 \<equiv> 1"
abbreviation (input) MERGE_3D_MAX :: u32 where "MERGE_3D_MAX \<equiv> 4"
abbreviation (input) INTF_0 :: u32 where "INTF_0 \<equiv> 1"
abbreviation (input) INTF_MAX :: u32 where "INTF_MAX \<equiv> 8"
abbreviation (input) WB_0 :: u32 where "WB_0 \<equiv> 1"
abbreviation (input) WB_MAX :: u32 where "WB_MAX \<equiv> 5"
abbreviation (input) INTF_NONE :: u32 where "INTF_NONE \<equiv> 0"

datatype dpu_hw_blk_type =
    DPU_HW_BLK_TOP | DPU_HW_BLK_SSPP | DPU_HW_BLK_LM | DPU_HW_BLK_CTL
  | DPU_HW_BLK_PINGPONG | DPU_HW_BLK_INTF | DPU_HW_BLK_WB | DPU_HW_BLK_DSPP
  | DPU_HW_BLK_MERGE_3D | DPU_HW_BLK_DSC | DPU_HW_BLK_MAX

subsection \<open>Catalogue entries (dpu_hw_catalog.h)\<close>

text \<open>The fields of \<^verbatim>\<open>DPU_HW_BLK_INFO\<close> (the debug name aside), extended per block.\<close>

record dpu_blk_cfg =
  blk_id :: u32
  blk_base :: u32
  blk_len :: u32
  blk_features :: u64

record dpu_lm_cfg = dpu_blk_cfg +
  lm_pingpong :: u32
  lm_dspp :: u32
  lm_pair_mask :: u64

record dpu_pingpong_cfg = dpu_blk_cfg +
  pp_merge_3d :: u32

record dpu_intf_cfg = dpu_blk_cfg +
  intf_type :: u32

record dpu_mdss_cfg =
  hwversion :: u32
  cat_ctl :: "dpu_blk_cfg list"
  cat_mixer :: "dpu_lm_cfg list"
  cat_pingpong :: "dpu_pingpong_cfg list"
  cat_merge_3d :: "dpu_blk_cfg list"
  cat_dsc :: "dpu_blk_cfg list"
  cat_intf :: "dpu_intf_cfg list"
  cat_wb :: "dpu_blk_cfg list"
  cat_dspp :: "dpu_blk_cfg list"

text \<open>The register window of a block (\<^verbatim>\<open>struct dpu_hw_blk_reg_map\<close>).\<close>

record dpu_hw_blk_reg_map =
  base_off :: u64
  blk_off :: u32
  map_length :: u32
  map_hwversion :: u32

text \<open>
  A hardware block object: its index, its register window and its catalogue entry.  The
  operation tables the constructors fill in are not part of it.
\<close>

record 'c dpu_hw =
  hw_idx :: u32
  hw_map :: dpu_hw_blk_reg_map
  hw_cap :: 'c

record dpu_hw_pingpong = "dpu_pingpong_cfg dpu_hw" +
  hw_merge_3d :: "dpu_blk_cfg dpu_hw option"

record dpu_rm =
  pingpong_blks :: "dpu_hw_pingpong option list"
  mixer_blks :: "dpu_lm_cfg dpu_hw option list"
  ctl_blks :: "dpu_blk_cfg dpu_hw option list"
  hw_intf :: "dpu_intf_cfg dpu_hw option list"
  hw_wb :: "dpu_blk_cfg dpu_hw option list"
  dspp_blks :: "dpu_blk_cfg dpu_hw option list"
  merge_3d_blks :: "dpu_blk_cfg dpu_hw option list"
  dsc_blks :: "dpu_blk_cfg dpu_hw option list"

record dpu_global_state =
  pingpong_to_enc_id :: "u32 list"
  mixer_to_enc_id :: "u32 list"
  ctl_to_enc_id :: "u32 list"
  dspp_to_enc_id :: "u32 list"
  dsc_to_enc_id :: "u32 list"

record msm_display_topology =
  num_lm :: u32
  num_enc :: u32
  num_intf :: u32
  num_dspp :: u32
  num_dsc :: u32

text \<open>The sizes the arrays are declared with.\<close>

definition rm_shape :: "dpu_rm \<Rightarrow> bool" where
  "rm_shape rm \<longleftrightarrow> length (pingpong_blks rm) = 7 \<and> length (mixer_blks rm) = 7 \<and>
     length (ctl_blks rm) = 6 \<and> length (hw_intf rm) = 7 \<and> length (hw_wb rm) = 4 \<and>
     length (dspp_blks rm) = 4 \<and> length (merge_3d_blks rm) = 3 \<and> length (dsc_blks rm) = 6"

definition gs_shape :: "dpu_global_state \<Rightarrow> bool" where
  "gs_shape gs \<longleftrightarrow> length (pingpong_to_enc_id gs) = 7 \<and> length (mixer_to_enc_id gs) = 7 \<and>
     length (ctl_to_enc_id gs) = 6 \<and> length (dspp_to_enc_id gs) = 4 \<and>
     length (dsc_to_enc_id gs) = 6"

section \<open>Catalogue lookups and block constructors\<close>

text \<open>The register window every \<^verbatim>\<open>_xxx_offset\<close> lookup fills in for the entry it found.\<close>

definition reg_map_of :: "u64 \<Rightarrow> dpu_mdss_cfg \<Rightarrow> 'a dpu_blk_cfg_scheme \<Rightarrow> dpu_hw_blk_reg_map" where
  "reg_map_of addr m c = \<lparr>base_off = addr, blk_off = blk_base c, map_length = blk_len c,
     map_hwversion = hwversion m\<rparr>"

definition lm_offset :: "u32 \<Rightarrow> dpu_mdss_cfg \<Rightarrow> u64 \<Rightarrow> int + (dpu_lm_cfg \<times> dpu_hw_blk_reg_map)" where
  "lm_offset mixer m addr = (case find (\<lambda>c. mixer = blk_id c) (cat_mixer m) of
     Some c \<Rightarrow> Inr (c, reg_map_of addr m c) | None \<Rightarrow> Inl (- ENOMEM))"

definition merge_3d_offset :: "u32 \<Rightarrow> dpu_mdss_cfg \<Rightarrow> u64 \<Rightarrow> int + (dpu_blk_cfg \<times> dpu_hw_blk_reg_map)" where
  "merge_3d_offset idx m addr = (case find (\<lambda>c. idx = blk_id c) (cat_merge_3d m) of
     Some c \<Rightarrow> Inr (c, reg_map_of addr m c) | None \<Rightarrow> Inl (- EINVAL))"

definition pingpong_offset :: "u32 \<Rightarrow> dpu_mdss_cfg \<Rightarrow> u64 \<Rightarrow> int + (dpu_pingpong_cfg \<times> dpu_hw_blk_reg_map)" where
  "pingpong_offset pp m addr = (case find (\<lambda>c. pp = blk_id c) (cat_pingpong m) of
     Some c \<Rightarrow> Inr (c, reg_map_of addr m c) | None \<Rightarrow> Inl (- EINVAL))"

definition intf_offset :: "u32 \<Rightarrow> dpu_mdss_cfg \<Rightarrow> u64 \<Rightarrow> int + (dpu_intf_cfg \<times> dpu_hw_blk_reg_map)" where
  "intf_offset intf m addr =
     (case find (\<lambda>c. intf = blk_id c \<and> intf_type c \<noteq> INTF_NONE) (cat_intf m) of
        Some c \<Rightarrow> Inr (c, reg_map_of addr m c) | None \<Rightarrow> Inl (- EINVAL))"

definition wb_offset :: "u32 \<Rightarrow> dpu_mdss_cfg \<Rightarrow> u64 \<Rightarrow> int + (dpu_blk_cfg \<times> dpu_hw_blk_reg_map)" where
  "wb_offset wb m addr = (case find (\<lambda>c. wb = blk_id c) (cat_wb m) of
     Some c \<Rightarrow> Inr (c, reg_map_of addr m c) | None \<Rightarrow> Inl (- EINVAL))"

definition ctl_offset :: "u32 \<Rightarrow> dpu_mdss_cfg \<Rightarrow> u64 \<Rightarrow> int + (dpu_blk_cfg \<times> dpu_hw_blk_reg_map)" where
  "ctl_offset ctl m addr = (case find (\<lambda>c. ctl = blk_id c) (cat_ctl m) of
     Some c \<Rightarrow> Inr (c, reg_map_of addr m c) | None \<Rightarrow> Inl (- ENOMEM))"

definition dspp_offset :: "u32 \<Rightarrow> dpu_mdss_cfg \<Rightarrow> u64 \<Rightarrow> int + (dpu_blk_cfg \<times> dpu_hw_blk_reg_map)" where
  "dspp_offset dspp m addr = (if addr = 0 then Inl (- EINVAL) else
     (case find (\<lambda>c. dspp = blk_id c) (cat_dspp m) of
        Some c \<Rightarrow> Inr (c, reg_map_of addr m c) | None \<Rightarrow> Inl (- EINVAL)))"

text \<open>\<^verbatim>\<open>_dsc_offset\<close> returns the null pointer, not an error pointer, when it finds nothing.\<close>

definition dsc_offset :: "u32 \<Rightarrow> dpu_mdss_cfg \<Rightarrow> u64 \<Rightarrow> (dpu_blk_cfg \<times> dpu_hw_blk_reg_map) option" where
  "dsc_offset dsc m addr = map_option (\<lambda>c. (c, reg_map_of addr m c))
     (find (\<lambda>c. dsc = blk_id c) (cat_dsc m))"

text \<open>
  The constructors: allocate (\<open>kz\<close> tells whether \<^verbatim>\<open>kzalloc\<close> succeeds), look the entry up,
  and free the object again with \<^verbatim>\<open>-EINVAL\<close> when there is none, whatever code the lookup gave.
\<close>

definition dpu_hw_lm_init :: "bool \<Rightarrow> u32 \<Rightarrow> u64 \<Rightarrow> dpu_mdss_cfg \<Rightarrow> int + dpu_lm_cfg dpu_hw" where
  "dpu_hw_lm_init kz idx addr m = (if \<not> kz then Inl (- ENOMEM) else
     (case lm_offset idx m addr of Inl _ \<Rightarrow> Inl (- EINVAL)
      | Inr (cfg, b) \<Rightarrow> Inr \<lparr>hw_idx = idx, hw_map = b, hw_cap = cfg\<rparr>))"

definition dpu_hw_merge_3d_init :: "bool \<Rightarrow> u32 \<Rightarrow> u64 \<Rightarrow> dpu_mdss_cfg \<Rightarrow> int + dpu_blk_cfg dpu_hw" where
  "dpu_hw_merge_3d_init kz idx addr m = (if \<not> kz then Inl (- ENOMEM) else
     (case merge_3d_offset idx m addr of Inl _ \<Rightarrow> Inl (- EINVAL)
      | Inr (cfg, b) \<Rightarrow> Inr \<lparr>hw_idx = idx, hw_map = b, hw_cap = cfg\<rparr>))"

definition dpu_hw_pingpong_init :: "bool \<Rightarrow> u32 \<Rightarrow> u64 \<Rightarrow> dpu_mdss_cfg \<Rightarrow> int + dpu_hw_pingpong" where
  "dpu_hw_pingpong_init kz idx addr m = (if \<not> kz then Inl (- ENOMEM) else
     (case pingpong_offset idx m addr of Inl _ \<Rightarrow> Inl (- EINVAL)
      | Inr (cfg, b) \<Rightarrow>
          Inr \<lparr>hw_idx = idx, hw_map = b, hw_cap = cfg, hw_merge_3d = None\<rparr>))"

definition dpu_hw_intf_init :: "bool \<Rightarrow> u32 \<Rightarrow> u64 \<Rightarrow> dpu_mdss_cfg \<Rightarrow> int + dpu_intf_cfg dpu_hw" where
  "dpu_hw_intf_init kz idx addr m = (if \<not> kz then Inl (- ENOMEM) else
     (case intf_offset idx m addr of Inl _ \<Rightarrow> Inl (- EINVAL)
      | Inr (cfg, b) \<Rightarrow> Inr \<lparr>hw_idx = idx, hw_map = b, hw_cap = cfg\<rparr>))"

definition dpu_hw_wb_init :: "bool \<Rightarrow> u32 \<Rightarrow> u64 \<Rightarrow> dpu_mdss_cfg \<Rightarrow> int + dpu_blk_cfg dpu_hw" where
  "dpu_hw_wb_init kz idx addr m = (if addr = 0 then Inl (- EINVAL)
     else if \<not> kz then Inl (- ENOMEM) else
     (case wb_offset idx m addr of Inl _ \<Rightarrow> Inl (- EINVAL)
      | Inr (cfg, b) \<Rightarrow> Inr \<lparr>hw_idx = idx, hw_map = b, hw_cap = cfg\<rparr>))"

definition dpu_hw_ctl_init :: "bool \<Rightarrow> u32 \<Rightarrow> u64 \<Rightarrow> dpu_mdss_cfg \<Rightarrow> int + dpu_blk_cfg dpu_hw" where
  "dpu_hw_ctl_init kz idx addr m = (if \<not> kz then Inl (- ENOMEM) else
     (case ctl_offset idx m addr of Inl _ \<Rightarrow> Inl (- EINVAL)
      | Inr (cfg, b) \<Rightarrow> Inr \<lparr>hw_idx = idx, hw_map = b, hw_cap = cfg\<rparr>))"

definition dpu_hw_dspp_init :: "bool \<Rightarrow> u32 \<Rightarrow> u64 \<Rightarrow> dpu_mdss_cfg \<Rightarrow> int + dpu_blk_cfg dpu_hw" where
  "dpu_hw_dspp_init kz idx addr m = (if addr = 0 then Inl (- EINVAL)
     else if \<not> kz then Inl (- ENOMEM) else
     (case dspp_offset idx m addr of Inl _ \<Rightarrow> Inl (- EINVAL)
      | Inr (cfg, b) \<Rightarrow> Inr \<lparr>hw_idx = idx, hw_map = b, hw_cap = cfg\<rparr>))"

definition dpu_hw_dsc_init :: "bool \<Rightarrow> u32 \<Rightarrow> u64 \<Rightarrow> dpu_mdss_cfg \<Rightarrow> int + dpu_blk_cfg dpu_hw" where
  "dpu_hw_dsc_init kz idx addr m = (if \<not> kz then Inl (- ENOMEM) else
     (case dsc_offset idx m addr of None \<Rightarrow> Inl (- EINVAL)
      | Some (cfg, b) \<Rightarrow> Inr \<lparr>hw_idx = idx, hw_map = b, hw_cap = cfg\<rparr>))"

section \<open>Construction and destruction of the tables\<close>

text \<open>The cleared structure (\<^verbatim>\<open>memset(rm, 0, sizeof(*rm))\<close>).\<close>

definition rm_zero :: dpu_rm where
  "rm_zero = \<lparr>pingpong_blks = replicate 7 None, mixer_blks = replicate 7 None,
     ctl_blks = replicate 6 None, hw_intf = replicate 7 None, hw_wb = replicate 4 None,
     dspp_blks = replicate 4 None, merge_3d_blks = replicate 3 None,
     dsc_blks = replicate 6 None\<rparr>"

text \<open>
  One loop of \<^verbatim>\<open>dpu_rm_init\<close> per block type.  Each takes the position \<open>i\<close> in the catalogue
  array and the rest of that array; \<open>Some rc\<close> is a jump to the label \<^verbatim>\<open>fail\<close> with code \<open>rc\<close>.
\<close>

type_synonym kz = "dpu_hw_blk_type \<Rightarrow> nat \<Rightarrow> bool"

fun init_mixers :: "kz \<Rightarrow> dpu_mdss_cfg \<Rightarrow> u64 \<Rightarrow> nat \<Rightarrow> dpu_lm_cfg list \<Rightarrow> dpu_rm \<Rightarrow> int option \<times> dpu_rm" where
  "init_mixers kz m mmio i [] rm = (None, rm)"
| "init_mixers kz m mmio i (lm # lms) rm =
     (if lm_pingpong lm = PINGPONG_MAX then init_mixers kz m mmio (Suc i) lms rm
      else if blk_id lm < LM_0 \<or> blk_id lm \<ge> LM_MAX then init_mixers kz m mmio (Suc i) lms rm
      else (case dpu_hw_lm_init (kz DPU_HW_BLK_LM i) (blk_id lm) mmio m of
              Inl rc \<Rightarrow> (Some rc, rm)
            | Inr hw \<Rightarrow> init_mixers kz m mmio (Suc i) lms
                (rm\<lparr>mixer_blks := (mixer_blks rm)[unat (blk_id lm - LM_0) := Some hw]\<rparr>)))"

fun init_merge_3ds :: "kz \<Rightarrow> dpu_mdss_cfg \<Rightarrow> u64 \<Rightarrow> nat \<Rightarrow> dpu_blk_cfg list \<Rightarrow> dpu_rm \<Rightarrow> int option \<times> dpu_rm" where
  "init_merge_3ds kz m mmio i [] rm = (None, rm)"
| "init_merge_3ds kz m mmio i (c # cs) rm =
     (if blk_id c < MERGE_3D_0 \<or> blk_id c \<ge> MERGE_3D_MAX then init_merge_3ds kz m mmio (Suc i) cs rm
      else (case dpu_hw_merge_3d_init (kz DPU_HW_BLK_MERGE_3D i) (blk_id c) mmio m of
              Inl rc \<Rightarrow> (Some rc, rm)
            | Inr hw \<Rightarrow> init_merge_3ds kz m mmio (Suc i) cs
                (rm\<lparr>merge_3d_blks := (merge_3d_blks rm)[unat (blk_id c - MERGE_3D_0) := Some hw]\<rparr>)))"

fun init_pingpongs :: "kz \<Rightarrow> dpu_mdss_cfg \<Rightarrow> u64 \<Rightarrow> nat \<Rightarrow> dpu_pingpong_cfg list \<Rightarrow> dpu_rm \<Rightarrow> int option \<times> dpu_rm" where
  "init_pingpongs kz m mmio i [] rm = (None, rm)"
| "init_pingpongs kz m mmio i (pp # pps) rm =
     (if blk_id pp < PINGPONG_0 \<or> blk_id pp \<ge> PINGPONG_MAX then init_pingpongs kz m mmio (Suc i) pps rm
      else (case dpu_hw_pingpong_init (kz DPU_HW_BLK_PINGPONG i) (blk_id pp) mmio m of
              Inl rc \<Rightarrow> (Some rc, rm)
            | Inr hw \<Rightarrow>
                let hw' = (if pp_merge_3d pp \<noteq> 0 \<and> pp_merge_3d pp < MERGE_3D_MAX
                           then hw\<lparr>hw_merge_3d := merge_3d_blks rm ! unat (pp_merge_3d pp - MERGE_3D_0)\<rparr>
                           else hw)
                in init_pingpongs kz m mmio (Suc i) pps
                     (rm\<lparr>pingpong_blks := (pingpong_blks rm)[unat (blk_id pp - PINGPONG_0) := Some hw']\<rparr>)))"

fun init_intfs :: "kz \<Rightarrow> dpu_mdss_cfg \<Rightarrow> u64 \<Rightarrow> nat \<Rightarrow> dpu_intf_cfg list \<Rightarrow> dpu_rm \<Rightarrow> int option \<times> dpu_rm" where
  "init_intfs kz m mmio i [] rm = (None, rm)"
| "init_intfs kz m mmio i (c # cs) rm =
     (if intf_type c = INTF_NONE then init_intfs kz m mmio (Suc i) cs rm
      else if blk_id c < INTF_0 \<or> blk_id c \<ge> INTF_MAX then init_intfs kz m mmio (Suc i) cs rm
      else (case dpu_hw_intf_init (kz DPU_HW_BLK_INTF i) (blk_id c) mmio m of
              Inl rc \<Rightarrow> (Some rc, rm)
            | Inr hw \<Rightarrow> init_intfs kz m mmio (Suc i) cs
                (rm\<lparr>hw_intf := (hw_intf rm)[unat (blk_id c - INTF_0) := Some hw]\<rparr>)))"

fun init_wbs :: "kz \<Rightarrow> dpu_mdss_cfg \<Rightarrow> u64 \<Rightarrow> nat \<Rightarrow> dpu_blk_cfg list \<Rightarrow> dpu_rm \<Rightarrow> int option \<times> dpu_rm" where
  "init_wbs kz m mmio i [] rm = (None, rm)"
| "init_wbs kz m mmio i (c # cs) rm =
     (if blk_id c < WB_0 \<or> blk_id c \<ge> WB_MAX then init_wbs kz m mmio (Suc i) cs rm
      else (case dpu_hw_wb_init (kz DPU_HW_BLK_WB i) (blk_id c) mmio m of
              Inl rc \<Rightarrow> (Some rc, rm)
            | Inr hw \<Rightarrow> init_wbs kz m mmio (Suc i) cs
                (rm\<lparr>hw_wb := (hw_wb rm)[unat (blk_id c - WB_0) := Some hw]\<rparr>)))"

fun init_ctls :: "kz \<Rightarrow> dpu_mdss_cfg \<Rightarrow> u64 \<Rightarrow> nat \<Rightarrow> dpu_blk_cfg list \<Rightarrow> dpu_rm \<Rightarrow> int option \<times> dpu_rm" where
  "init_ctls kz m mmio i [] rm = (None, rm)"
| "init_ctls kz m mmio i (c # cs) rm =
     (if blk_id c < CTL_0 \<or> blk_id c \<ge> CTL_MAX then init_ctls kz m mmio (Suc i) cs rm
      else (case dpu_hw_ctl_init (kz DPU_HW_BLK_CTL i) (blk_id c) mmio m of
              Inl rc \<Rightarrow> (Some rc, rm)
            | Inr hw \<Rightarrow> init_ctls kz m mmio (Suc i) cs
                (rm\<lparr>ctl_blks := (ctl_blks rm)[unat (blk_id c - CTL_0) := Some hw]\<rparr>)))"

fun init_dspps :: "kz \<Rightarrow> dpu_mdss_cfg \<Rightarrow> u64 \<Rightarrow> nat \<Rightarrow> dpu_blk_cfg list \<Rightarrow> dpu_rm \<Rightarrow> int option \<times> dpu_rm" where
  "init_dspps kz m mmio i [] rm = (None, rm)"
| "init_dspps kz m mmio i (c # cs) rm =
     (if blk_id c < DSPP_0 \<or> blk_id c \<ge> DSPP_MAX then init_dspps kz m mmio (Suc i) cs rm
      else (case dpu_hw_dspp_init (kz DPU_HW_BLK_DSPP i) (blk_id c) mmio m of
              Inl rc \<Rightarrow> (Some rc, rm)
            | Inr hw \<Rightarrow> init_dspps kz m mmio (Suc i) cs
                (rm\<lparr>dspp_blks := (dspp_blks rm)[unat (blk_id c - DSPP_0) := Some hw]\<rparr>)))"

text \<open>The DSC loop has no range check on the identifier: an index out of range is \<open>None\<close>.\<close>

fun init_dscs :: "kz \<Rightarrow> dpu_mdss_cfg \<Rightarrow> u64 \<Rightarrow> nat \<Rightarrow> dpu_blk_cfg list \<Rightarrow> dpu_rm \<Rightarrow> (int option \<times> dpu_rm) option" where
  "init_dscs kz m mmio i [] rm = Some (None, rm)"
| "init_dscs kz m mmio i (c # cs) rm =
     (case dpu_hw_dsc_init (kz DPU_HW_BLK_DSC i) (blk_id c) mmio m of
        Inl rc \<Rightarrow> Some (Some rc, rm)
      | Inr hw \<Rightarrow>
          (case arr_set (dsc_blks rm) (unat (blk_id c - DSC_0)) (Some hw) of
             None \<Rightarrow> None
           | Some bs \<Rightarrow> init_dscs kz m mmio (Suc i) cs (rm\<lparr>dsc_blks := bs\<rparr>)))"

text \<open>\<^verbatim>\<open>dpu_rm_destroy\<close> frees every block it finds; the model lists what it frees, in order.\<close>

definition blks_of :: "dpu_hw_blk_type \<Rightarrow> ('c, 'z) dpu_hw_scheme option list \<Rightarrow> (dpu_hw_blk_type \<times> u32) list" where
  "blks_of t bs = concat (map (\<lambda>b. case b of None \<Rightarrow> [] | Some hw \<Rightarrow> [(t, hw_idx hw)]) bs)"

definition dpu_rm_destroy :: "dpu_rm \<Rightarrow> (dpu_hw_blk_type \<times> u32) list" where
  "dpu_rm_destroy rm =
     blks_of DPU_HW_BLK_DSPP (dspp_blks rm) @ blks_of DPU_HW_BLK_PINGPONG (pingpong_blks rm) @
     blks_of DPU_HW_BLK_MERGE_3D (merge_3d_blks rm) @ blks_of DPU_HW_BLK_LM (mixer_blks rm) @
     blks_of DPU_HW_BLK_CTL (ctl_blks rm) @ blks_of DPU_HW_BLK_INTF (hw_intf rm) @
     blks_of DPU_HW_BLK_DSC (dsc_blks rm) @ blks_of DPU_HW_BLK_WB (hw_wb rm)"

text \<open>Sequencing of the loops: a pending \<^verbatim>\<open>goto fail\<close> skips the rest.\<close>

fun and_then :: "int option \<times> dpu_rm \<Rightarrow> (dpu_rm \<Rightarrow> int option \<times> dpu_rm) \<Rightarrow> int option \<times> dpu_rm" where
  "and_then (Some rc, rm) f = (Some rc, rm)"
| "and_then (None, rm) f = f rm"

definition init_blocks :: "kz \<Rightarrow> dpu_mdss_cfg \<Rightarrow> u64 \<Rightarrow> int option \<times> dpu_rm" where
  "init_blocks kz m mmio =
     and_then (and_then (and_then (and_then (and_then (and_then
       (init_mixers kz m mmio 0 (cat_mixer m) rm_zero)
       (init_merge_3ds kz m mmio 0 (cat_merge_3d m)))
       (init_pingpongs kz m mmio 0 (cat_pingpong m)))
       (init_intfs kz m mmio 0 (cat_intf m)))
       (init_wbs kz m mmio 0 (cat_wb m)))
       (init_ctls kz m mmio 0 (cat_ctl m)))
       (init_dspps kz m mmio 0 (cat_dspp m))"

text \<open>
  The result of \<^verbatim>\<open>dpu_rm_init\<close>: the return code, the structure (whose pointers are left in
  place by a failure) and the blocks the failure path freed.
\<close>

definition rm_fail :: "int \<Rightarrow> dpu_rm \<Rightarrow> int \<times> dpu_rm \<times> (dpu_hw_blk_type \<times> u32) list" where
  "rm_fail rc rm = (if rc \<noteq> 0 then rc else - EFAULT, rm, dpu_rm_destroy rm)"

definition dpu_rm_init :: "kz \<Rightarrow> dpu_rm \<Rightarrow> dpu_mdss_cfg option \<Rightarrow> u64 \<Rightarrow>
    (int \<times> dpu_rm \<times> (dpu_hw_blk_type \<times> u32) list) option" where
  "dpu_rm_init kz rm cat mmio = (case cat of
     None \<Rightarrow> Some (- EINVAL, rm, [])
   | Some m \<Rightarrow>
      (if mmio = 0 then Some (- EINVAL, rm, [])
       else (case init_blocks kz m mmio of
               (Some rc, rm') \<Rightarrow> Some (rm_fail rc rm')
             | (None, rm') \<Rightarrow>
                 (case init_dscs kz m mmio 0 (cat_dsc m) rm' of
                    None \<Rightarrow> None
                  | Some (Some rc, rm'') \<Rightarrow> Some (rm_fail rc rm'')
                  | Some (None, rm'') \<Rightarrow> Some (0, rm'', [])))))"

section \<open>Reservation\<close>

definition reserved_by_other :: "u32 list \<Rightarrow> nat \<Rightarrow> u32 \<Rightarrow> bool" where
  "reserved_by_other res_map idx enc_id \<longleftrightarrow> res_map ! idx \<noteq> 0 \<and> res_map ! idx \<noteq> enc_id"

definition dpu_rm_needs_split_display :: "msm_display_topology \<Rightarrow> bool" where
  "dpu_rm_needs_split_display topo \<longleftrightarrow> num_intf topo > 1"

text \<open>
  Both indices are those of existing mixers (the callers skip null entries); the model takes
  the two catalogue entries.
\<close>

definition dpu_rm_check_lm_peer :: "dpu_lm_cfg \<Rightarrow> dpu_lm_cfg \<Rightarrow> bool" where
  "dpu_rm_check_lm_peer prim peer \<longleftrightarrow> bit (lm_pair_mask prim) (unat (blk_id peer))"

text \<open>
  \<open>Some (pp, d)\<close> for the return value \<^verbatim>\<open>true\<close>: \<open>pp\<close> is what was stored to \<^verbatim>\<open>*pp_idx\<close>, and
  \<open>d\<close> what was stored to \<^verbatim>\<open>*dspp_idx\<close>, if anything was.
\<close>

definition dpu_rm_check_lm_and_get_connected_blks ::
    "dpu_global_state \<Rightarrow> u32 \<Rightarrow> nat \<Rightarrow> dpu_lm_cfg \<Rightarrow> msm_display_topology \<Rightarrow> (nat \<times> nat option) option" where
  "dpu_rm_check_lm_and_get_connected_blks gs enc_id lm_idx lm_cfg reqs =
     (if reserved_by_other (mixer_to_enc_id gs) lm_idx enc_id then None
      else let idx = c_int (lm_pingpong lm_cfg - PINGPONG_0) in
        if idx < 0 \<or> idx \<ge> 7 then None
        else if reserved_by_other (pingpong_to_enc_id gs) (nat idx) enc_id then None
        else if num_dspp reqs = 0 then Some (nat idx, None)
        else let didx = c_int (lm_dspp lm_cfg - DSPP_0) in
          if didx < 0 \<or> didx \<ge> 4 then None
          else if reserved_by_other (dspp_to_enc_id gs) (nat didx) enc_id then None
          else Some (nat idx, Some (nat didx)))"

text \<open>
  The loops of \<^verbatim>\<open>_dpu_rm_reserve_lms\<close>.  The local arrays \<^verbatim>\<open>lm_idx\<close>, \<^verbatim>\<open>pp_idx\<close> and
  \<^verbatim>\<open>dspp_idx\<close> up to \<^verbatim>\<open>lm_count\<close> are one list of triples, in order; \<^verbatim>\<open>dspp_idx\<close> is
  initialised to zero, which is what an entry holds when the check stored nothing there.
\<close>

type_synonym lm_pick = "nat \<times> nat \<times> nat"

definition pick_of :: "nat \<Rightarrow> nat \<times> nat option \<Rightarrow> lm_pick" where
  "pick_of i r = (i, fst r, case snd r of None \<Rightarrow> 0 | Some d \<Rightarrow> d)"

fun find_peers :: "dpu_global_state \<Rightarrow> u32 \<Rightarrow> msm_display_topology \<Rightarrow> dpu_lm_cfg \<Rightarrow> nat \<Rightarrow>
    dpu_lm_cfg dpu_hw option list \<Rightarrow> lm_pick list \<Rightarrow> lm_pick list" where
  "find_peers gs enc_id reqs prim j [] acc = acc"
| "find_peers gs enc_id reqs prim j (b # bs) acc =
     (if \<not> length acc < unat (num_lm reqs) then acc
      else (case b of
        None \<Rightarrow> find_peers gs enc_id reqs prim (Suc j) bs acc
      | Some hw \<Rightarrow>
          if \<not> dpu_rm_check_lm_peer prim (hw_cap hw) then find_peers gs enc_id reqs prim (Suc j) bs acc
          else (case dpu_rm_check_lm_and_get_connected_blks gs enc_id j (hw_cap hw) reqs of
                  None \<Rightarrow> find_peers gs enc_id reqs prim (Suc j) bs acc
                | Some r \<Rightarrow> find_peers gs enc_id reqs prim (Suc j) bs (acc @ [pick_of j r]))))"

fun find_lms :: "dpu_global_state \<Rightarrow> u32 \<Rightarrow> msm_display_topology \<Rightarrow> nat \<Rightarrow>
    dpu_lm_cfg dpu_hw option list \<Rightarrow> lm_pick list \<Rightarrow> lm_pick list" where
  "find_lms gs enc_id reqs i [] acc = acc"
| "find_lms gs enc_id reqs i (b # bs) acc =
     (if \<not> length acc < unat (num_lm reqs) then acc
      else (case b of
        None \<Rightarrow> find_lms gs enc_id reqs (Suc i) bs acc
      | Some hw \<Rightarrow>
          (case dpu_rm_check_lm_and_get_connected_blks gs enc_id i (hw_cap hw) reqs of
             None \<Rightarrow> find_lms gs enc_id reqs (Suc i) bs []
           | Some r \<Rightarrow> find_lms gs enc_id reqs (Suc i) bs
               (find_peers gs enc_id reqs (hw_cap hw) (Suc i) bs [pick_of i r]))))"

fun assign_lms :: "u32 \<Rightarrow> msm_display_topology \<Rightarrow> lm_pick list \<Rightarrow> dpu_global_state \<Rightarrow> dpu_global_state" where
  "assign_lms enc_id reqs [] gs = gs"
| "assign_lms enc_id reqs ((l, p, d) # ps) gs = assign_lms enc_id reqs ps
     (gs\<lparr>mixer_to_enc_id := (mixer_to_enc_id gs)[l := enc_id],
         pingpong_to_enc_id := (pingpong_to_enc_id gs)[p := enc_id],
         dspp_to_enc_id := (dspp_to_enc_id gs)[d := (if num_dspp reqs \<noteq> 0 then enc_id else 0)]\<rparr>)"

definition dpu_rm_reserve_lms :: "dpu_rm \<Rightarrow> dpu_global_state \<Rightarrow> u32 \<Rightarrow> msm_display_topology \<Rightarrow> int \<times> dpu_global_state" where
  "dpu_rm_reserve_lms rm gs enc_id reqs =
     (if num_lm reqs = 0 then (- EINVAL, gs)
      else let picks = find_lms gs enc_id reqs 0 (mixer_blks rm) []
        in if length picks \<noteq> unat (num_lm reqs) then (- ENAVAIL, gs)
           else (0, assign_lms enc_id reqs picks gs))"

text \<open>
  \<^verbatim>\<open>_dpu_rm_reserve_ctls\<close>: \<open>ctl_idx\<close> is the list of the matching controls found so far, and
  \<open>num_ctls\<close> the number of interfaces as an \<^verbatim>\<open>int\<close>.
\<close>

definition DPU_CTL_SPLIT_DISPLAY :: nat where
  "DPU_CTL_SPLIT_DISPLAY = 1"

fun find_ctls :: "dpu_global_state \<Rightarrow> u32 \<Rightarrow> bool \<Rightarrow> int \<Rightarrow> nat \<Rightarrow> dpu_blk_cfg dpu_hw option list \<Rightarrow> nat list \<Rightarrow> nat list" where
  "find_ctls gs enc_id needs_split num_ctls j [] ctl_idx = ctl_idx"
| "find_ctls gs enc_id needs_split num_ctls j (b # bs) ctl_idx =
     (case b of
        None \<Rightarrow> find_ctls gs enc_id needs_split num_ctls (Suc j) bs ctl_idx
      | Some ctl \<Rightarrow>
         (if reserved_by_other (ctl_to_enc_id gs) j enc_id
          then find_ctls gs enc_id needs_split num_ctls (Suc j) bs ctl_idx
          else if needs_split \<noteq> bit (blk_features (hw_cap ctl)) DPU_CTL_SPLIT_DISPLAY
          then find_ctls gs enc_id needs_split num_ctls (Suc j) bs ctl_idx
          else if int (Suc (length ctl_idx)) = num_ctls then ctl_idx @ [j]
          else find_ctls gs enc_id needs_split num_ctls (Suc j) bs (ctl_idx @ [j])))"

fun assign_ctls :: "u32 \<Rightarrow> nat list \<Rightarrow> dpu_global_state \<Rightarrow> dpu_global_state" where
  "assign_ctls enc_id [] gs = gs"
| "assign_ctls enc_id (c # cs) gs =
     assign_ctls enc_id cs (gs\<lparr>ctl_to_enc_id := (ctl_to_enc_id gs)[c := enc_id]\<rparr>)"

definition dpu_rm_reserve_ctls :: "dpu_rm \<Rightarrow> dpu_global_state \<Rightarrow> u32 \<Rightarrow> msm_display_topology \<Rightarrow> int \<times> dpu_global_state" where
  "dpu_rm_reserve_ctls rm gs enc_id topo =
     (let num_ctls = c_int (num_intf topo);
          ctl_idx = find_ctls gs enc_id (dpu_rm_needs_split_display topo) num_ctls 0 (ctl_blks rm) []
      in if int (length ctl_idx) \<noteq> num_ctls then (- ENAVAIL, gs)
         else (0, assign_ctls enc_id ctl_idx gs))"

text \<open>
  \<^verbatim>\<open>_dpu_rm_reserve_dsc\<close> indexes the table up to the requested number without comparing it
  with the table's size; \<open>None\<close> is a read or write past its end.
\<close>

fun dsc_busy :: "u32 list \<Rightarrow> nat \<Rightarrow> nat \<Rightarrow> bool option" where
  "dsc_busy tab i 0 = Some False"
| "dsc_busy tab i (Suc n) = (case arr_get tab i of
     None \<Rightarrow> None | Some o' \<Rightarrow> if o' \<noteq> 0 then Some True else dsc_busy tab (Suc i) n)"

fun dsc_fill :: "u32 list \<Rightarrow> u32 \<Rightarrow> nat \<Rightarrow> nat \<Rightarrow> u32 list option" where
  "dsc_fill tab e i 0 = Some tab"
| "dsc_fill tab e i (Suc n) = (case arr_set tab i e of
     None \<Rightarrow> None | Some tab' \<Rightarrow> dsc_fill tab' e (Suc i) n)"

definition dpu_rm_reserve_dsc :: "dpu_global_state \<Rightarrow> u32 \<Rightarrow> msm_display_topology \<Rightarrow> (int \<times> dpu_global_state) option" where
  "dpu_rm_reserve_dsc gs enc_id topo =
     (let n = nat (c_int (num_dsc topo)) in
      case dsc_busy (dsc_to_enc_id gs) 0 n of
        None \<Rightarrow> None
      | Some True \<Rightarrow> Some (- EIO, gs)
      | Some False \<Rightarrow> map_option (\<lambda>t. (0, gs\<lparr>dsc_to_enc_id := t\<rparr>)) (dsc_fill (dsc_to_enc_id gs) enc_id 0 n))"

definition dpu_rm_make_reservation :: "dpu_rm \<Rightarrow> dpu_global_state \<Rightarrow> u32 \<Rightarrow> msm_display_topology \<Rightarrow> (int \<times> dpu_global_state) option" where
  "dpu_rm_make_reservation rm gs enc_id reqs =
     (let (ret, gs1) = dpu_rm_reserve_lms rm gs enc_id reqs in
      if ret \<noteq> 0 then Some (ret, gs1)
      else let (ret2, gs2) = dpu_rm_reserve_ctls rm gs1 enc_id reqs in
        if ret2 \<noteq> 0 then Some (ret2, gs2)
        else dpu_rm_reserve_dsc gs2 enc_id reqs)"

definition dpu_rm_populate_requirements :: "msm_display_topology \<Rightarrow> int \<times> msm_display_topology" where
  "dpu_rm_populate_requirements req_topology = (0, req_topology)"

text \<open>
  \<^verbatim>\<open>dpu_rm_reserve\<close>: \<open>needs_modeset\<close> is the answer of the DRM core's
  \<^verbatim>\<open>drm_atomic_crtc_needs_modeset\<close>; the global state may be an error pointer (\<open>Inl\<close>).
\<close>

definition dpu_rm_reserve :: "dpu_rm \<Rightarrow> int + dpu_global_state \<Rightarrow> u32 \<Rightarrow> bool \<Rightarrow> msm_display_topology \<Rightarrow>
    (int \<times> (int + dpu_global_state)) option" where
  "dpu_rm_reserve rm gst enc_id needs_modeset topology =
     (if \<not> needs_modeset then Some (0, gst)
      else (case gst of
        Inl err \<Rightarrow> Some (err, gst)
      | Inr gs \<Rightarrow>
          (let (ret, reqs) = dpu_rm_populate_requirements topology in
           if ret \<noteq> 0 then Some (ret, gst)
           else map_option (\<lambda>(r, gs'). (r, Inr gs')) (dpu_rm_make_reservation rm gs enc_id reqs))))"

fun dpu_rm_clear_mapping :: "u32 list \<Rightarrow> u32 \<Rightarrow> u32 list" where
  "dpu_rm_clear_mapping [] enc_id = []"
| "dpu_rm_clear_mapping (x # xs) enc_id = (if x = enc_id then 0 else x) # dpu_rm_clear_mapping xs enc_id"

definition dpu_rm_release :: "u32 \<Rightarrow> dpu_global_state \<Rightarrow> dpu_global_state" where
  "dpu_rm_release enc_id gs = gs\<lparr>
     pingpong_to_enc_id := dpu_rm_clear_mapping (pingpong_to_enc_id gs) enc_id,
     mixer_to_enc_id := dpu_rm_clear_mapping (mixer_to_enc_id gs) enc_id,
     ctl_to_enc_id := dpu_rm_clear_mapping (ctl_to_enc_id gs) enc_id,
     dsc_to_enc_id := dpu_rm_clear_mapping (dsc_to_enc_id gs) enc_id\<rparr>"

text \<open>
  \<^verbatim>\<open>dpu_rm_get_assigned_resources\<close> copies block pointers of the type asked for; the model
  returns the positions of the blocks copied, so that one list serves every block type.
\<close>

fun collect_assigned :: "u32 \<Rightarrow> nat \<Rightarrow> nat \<Rightarrow> u32 list \<Rightarrow> nat list \<Rightarrow> nat list" where
  "collect_assigned enc_id blks_size i [] blks = blks"
| "collect_assigned enc_id blks_size i (x # xs) blks =
     (if x \<noteq> enc_id then collect_assigned enc_id blks_size (Suc i) xs blks
      else if length blks = blks_size then blks
      else collect_assigned enc_id blks_size (Suc i) xs (blks @ [i]))"

definition assigned_table :: "dpu_hw_blk_type \<Rightarrow> dpu_global_state \<Rightarrow> u32 list option" where
  "assigned_table t gs = (case t of
     DPU_HW_BLK_PINGPONG \<Rightarrow> Some (pingpong_to_enc_id gs)
   | DPU_HW_BLK_LM \<Rightarrow> Some (mixer_to_enc_id gs)
   | DPU_HW_BLK_CTL \<Rightarrow> Some (ctl_to_enc_id gs)
   | DPU_HW_BLK_DSPP \<Rightarrow> Some (dspp_to_enc_id gs)
   | DPU_HW_BLK_DSC \<Rightarrow> Some (dsc_to_enc_id gs)
   | _ \<Rightarrow> None)"

definition dpu_rm_get_assigned_resources :: "dpu_global_state \<Rightarrow> u32 \<Rightarrow> dpu_hw_blk_type \<Rightarrow> nat \<Rightarrow> nat list" where
  "dpu_rm_get_assigned_resources gs enc_id t blks_size = (case assigned_table t gs of
     None \<Rightarrow> [] | Some tab \<Rightarrow> collect_assigned enc_id blks_size 0 tab [])"

definition dpu_rm_get_intf :: "dpu_rm \<Rightarrow> u32 \<Rightarrow> dpu_intf_cfg dpu_hw option option" where
  "dpu_rm_get_intf rm intf_idx = arr_get (hw_intf rm) (unat (intf_idx - INTF_0))"

definition dpu_rm_get_wb :: "dpu_rm \<Rightarrow> u32 \<Rightarrow> dpu_blk_cfg dpu_hw option option" where
  "dpu_rm_get_wb rm wb_idx = arr_get (hw_wb rm) (unat (wb_idx - WB_0))"

section \<open>Releasing\<close>

lemma clear_mapping_eq: "dpu_rm_clear_mapping xs e = release_owner e xs"
  by (induction xs) (auto simp: release_owner_def)

section \<open>The mixers found\<close>

definition peer_cands where
  "peer_cands gs e reqs prim j bs = List.map_filter (\<lambda>(j, b). case b of None \<Rightarrow> None
     | Some hw \<Rightarrow> (if dpu_rm_check_lm_peer prim (hw_cap hw)
         then map_option (pick_of j) (dpu_rm_check_lm_and_get_connected_blks gs e j (hw_cap hw) reqs)
         else None)) (List.enumerate j bs)"

lemma peer_cands_Nil [simp]: "peer_cands gs e reqs prim j [] = []"
  by (simp add: peer_cands_def)

lemma peer_cands_Cons [simp]:
  "peer_cands gs e reqs prim j (b # bs) = (case b of None \<Rightarrow> peer_cands gs e reqs prim (Suc j) bs
     | Some hw \<Rightarrow> (if dpu_rm_check_lm_peer prim (hw_cap hw)
        then (case dpu_rm_check_lm_and_get_connected_blks gs e j (hw_cap hw) reqs of
          None \<Rightarrow> peer_cands gs e reqs prim (Suc j) bs
          | Some r \<Rightarrow> pick_of j r # peer_cands gs e reqs prim (Suc j) bs)
        else peer_cands gs e reqs prim (Suc j) bs))"
  by (auto simp: peer_cands_def split: option.splits)

lemma find_peers_eq:
  "length acc \<le> unat (num_lm reqs) \<Longrightarrow>
   find_peers gs e reqs prim j bs acc =
     acc @ take (unat (num_lm reqs) - length acc) (peer_cands gs e reqs prim j bs)"
proof (induction gs e reqs prim j bs acc rule: find_peers.induct)
  case (1 gs enc_id reqs prim j acc)
  then show ?case by simp
next
  case (2 gs enc_id reqs prim j b bs acc)
  show ?case
  proof (cases "length acc < unat (num_lm reqs)")
    case False
    then show ?thesis by simp
  next
    case True
    then obtain k where k: "unat (num_lm reqs) - length acc = Suc k"
      by (metis Suc_diff_Suc)
    then have k': "k = unat (num_lm reqs) - Suc (length acc)" by simp
    show ?thesis using 2 True
      by (auto simp: k' k split: option.splits)
  qed
qed

text \<open>What the search returns: a primary mixer and the first candidates after it.\<close>

abbreviation (input) check where "check \<equiv> dpu_rm_check_lm_and_get_connected_blks"

lemma find_lms_done: "\<not> length acc < unat (num_lm reqs) \<Longrightarrow> find_lms gs e reqs i bs acc = acc"
  by (cases bs) auto

lemma find_peers_primary:
  "0 < unat (num_lm reqs) \<Longrightarrow> find_peers gs e reqs prim j bs [x] =
     x # take (unat (num_lm reqs) - 1) (peer_cands gs e reqs prim j bs)"
  by (subst find_peers_eq) auto

definition lm_choice where
  "lm_choice gs e reqs i bs k hw r \<longleftrightarrow>
     k < length bs \<and> bs ! k = Some hw \<and> check gs e (i + k) (hw_cap hw) reqs = Some r"

lemma lm_choice_Cons:
  "lm_choice gs e reqs i (b # bs) (Suc k) hw r \<longleftrightarrow> lm_choice gs e reqs (Suc i) bs k hw r"
  by (simp add: lm_choice_def)

definition choice_picks where
  "choice_picks gs e reqs i bs k hw r = pick_of (i + k) r #
     peer_cands gs e reqs (hw_cap hw) (Suc (i + k)) (drop (Suc k) bs)"

lemma choice_picks_Cons [simp]:
  "choice_picks gs e reqs i (b # bs) (Suc k) hw r = choice_picks gs e reqs (Suc i) bs k hw r"
  by (simp add: choice_picks_def)

lemma find_lms_full:
  assumes "length acc < unat (num_lm reqs)"
    and "length (find_lms gs e reqs i bs acc) = unat (num_lm reqs)"
  shows "\<exists>k hw r. lm_choice gs e reqs i bs k hw r \<and>
    find_lms gs e reqs i bs acc = take (unat (num_lm reqs)) (choice_picks gs e reqs i bs k hw r)"
  using assms
proof (induction bs arbitrary: i acc)
  case Nil
  then show ?case by simp
next
  case (Cons b bs)
  have later: ?case if "find_lms gs e reqs i (b # bs) acc = find_lms gs e reqs (Suc i) bs acc'"
    and "length acc' < unat (num_lm reqs)" for acc'
  proof -
    from Cons.IH [of acc' "Suc i"] that Cons.prems obtain k hw r where
      "lm_choice gs e reqs (Suc i) bs k hw r"
      "find_lms gs e reqs (Suc i) bs acc' = take (unat (num_lm reqs)) (choice_picks gs e reqs (Suc i) bs k hw r)"
      by auto
    then show ?thesis using that(1)
      by (metis choice_picks_Cons lm_choice_Cons)
  qed
  show ?case
  proof (cases "\<exists>hw r. b = Some hw \<and> check gs e i (hw_cap hw) reqs = Some r")
    case False
    then show ?thesis using later [of acc] later [of "[]"] Cons.prems(1)
      by (auto split: option.splits)
  next
    case True
    then obtain hw r where c: "b = Some hw" "check gs e i (hw_cap hw) reqs = Some r" by blast
    let ?ps = "find_peers gs e reqs (hw_cap hw) (Suc i) bs [pick_of i r]"
    have step: "find_lms gs e reqs i (b # bs) acc = find_lms gs e reqs (Suc i) bs ?ps"
      using c Cons.prems(1) by simp
    show ?thesis
    proof (cases "length ?ps < unat (num_lm reqs)")
      case True
      then show ?thesis using later [OF step] by simp
    next
      case False
      have "unat (num_lm reqs) = Suc (unat (num_lm reqs) - 1)" using Cons.prems(1) by simp
      then have "?ps = take (unat (num_lm reqs)) (choice_picks gs e reqs i (b # bs) 0 hw r)"
        unfolding choice_picks_def using Cons.prems(1)
        by (metis (no_types, lifting) add_0_right drop0 drop_Suc_Cons find_peers_primary
            gr_implies_not0 not_gr_zero take_Suc_Cons)
      moreover have "lm_choice gs e reqs i (b # bs) 0 hw r"
        using c by (simp add: lm_choice_def)
      ultimately show ?thesis using step find_lms_done [OF False] by metis
    qed
  qed
qed

lemma find_lms_short:
  assumes "length acc < unat (num_lm reqs)"
    and "length (find_lms gs e reqs i bs acc) \<noteq> unat (num_lm reqs)"
    and "lm_choice gs e reqs i bs k hw r"
  shows "length (choice_picks gs e reqs i bs k hw r) < unat (num_lm reqs)"
  using assms
proof (induction bs arbitrary: i acc k)
  case Nil
  then show ?case by (simp add: lm_choice_def)
next
  case (Cons b bs)
  have pos: "0 < unat (num_lm reqs)" using Cons.prems(1) by simp
  let ?ps = "\<lambda>hw r. find_peers gs e reqs (hw_cap hw) (Suc i) bs [pick_of i r]"
  have short: "length (?ps hw' r') < unat (num_lm reqs)"
    if "b = Some hw'" "check gs e i (hw_cap hw') reqs = Some r'" for hw' r'
  proof (rule ccontr)
    assume n: "\<not> ?thesis"
    have "length (?ps hw' r') \<le> unat (num_lm reqs)"
      using pos by (simp add: find_peers_primary)
    moreover have "find_lms gs e reqs i (b # bs) acc = ?ps hw' r'"
      using that Cons.prems(1) find_lms_done [OF n] by simp
    ultimately show False using n Cons.prems(2) by simp
  qed
  show ?case
  proof (cases k)
    case 0
    then show ?thesis using short [of hw r] Cons.prems(3) pos
      by (auto simp: lm_choice_def choice_picks_def find_peers_primary)
  next
    case (Suc k')
    from Cons.prems(3) Suc have c: "lm_choice gs e reqs (Suc i) bs k' hw r"
      by (simp add: lm_choice_Cons)
    have "\<exists>acc'. length acc' < unat (num_lm reqs) \<and>
       find_lms gs e reqs i (b # bs) acc = find_lms gs e reqs (Suc i) bs acc'"
      using Cons.prems(1) short by (auto split: option.splits intro: exI [of _ "[]"])
    then show ?thesis using Cons.IH [OF _ _ c] Cons.prems(2) Suc by auto
  qed
qed


section \<open>What is granted\<close>

lemma peer_cands_order:
  "sorted_wrt (<) (map fst (peer_cands gs e reqs prim j bs)) \<and>
   (\<forall>l \<in> set (map fst (peer_cands gs e reqs prim j bs)). j \<le> l \<and> l < j + length bs)"
proof (induction bs arbitrary: j)
  case Nil
  then show ?case by simp
next
  case (Cons b bs)
  let ?T = "map fst (peer_cands gs e reqs prim (Suc j) bs)"
  have "map fst (peer_cands gs e reqs prim j (b # bs)) \<in> {?T, j # ?T}"
    by (simp add: pick_of_def split: option.splits)
  moreover have "\<forall>l\<in>set ?T. Suc j \<le> l \<and> l < Suc j + length bs" "sorted_wrt (<) ?T"
    using Cons.IH [of "Suc j"] by blast+
  ultimately show ?case
    by (metis (no_types, lifting) Suc_le_eq add_Suc add_Suc_right insertE le_add1 le_refl length_Cons
        less_add_Suc1 less_imp_le list.simps(15) set_ConsD singletonD sorted_wrt.simps(2))
qed

lemma choice_picks_order:
  assumes "lm_choice gs e reqs i bs k hw r"
  shows "sorted_wrt (<) (map fst (choice_picks gs e reqs i bs k hw r))"
    and "l \<in> set (map fst (choice_picks gs e reqs i bs k hw r)) \<Longrightarrow> i \<le> l \<and> l < i + length bs"
proof -
  let ?P = "map fst (peer_cands gs e reqs (hw_cap hw) (Suc (i + k)) (drop (Suc k) bs))"
  have P: "sorted_wrt (<) ?P" "\<And>l. l \<in> set ?P \<Longrightarrow> i + k < l \<and> l < Suc (i + k) + (length bs - Suc k)"
    using peer_cands_order [of gs e reqs "hw_cap hw" "Suc (i + k)" "drop (Suc k) bs"] by auto
  have eq: "map fst (choice_picks gs e reqs i bs k hw r) = (i + k) # ?P"
    by (simp add: choice_picks_def pick_of_def)
  show "sorted_wrt (<) (map fst (choice_picks gs e reqs i bs k hw r))"
    unfolding eq using P by simp
  have "k < length bs" using assms by (simp add: lm_choice_def)
  moreover assume "l \<in> set (map fst (choice_picks gs e reqs i bs k hw r))"
  ultimately consider "l = i + k" "k < length bs" | "l \<in> set ?P" "k < length bs"
    unfolding eq by auto
  then show "i \<le> l \<and> l < i + length bs"
    using P(2) [of l] by cases auto
qed

definition pick_ok :: "dpu_global_state \<Rightarrow> u32 \<Rightarrow> msm_display_topology \<Rightarrow> lm_pick \<Rightarrow> bool" where
  "pick_ok gs e reqs = (\<lambda>(l, p, d). \<not> reserved_by_other (mixer_to_enc_id gs) l e \<and>
     \<not> reserved_by_other (pingpong_to_enc_id gs) p e \<and>
     (num_dspp reqs \<noteq> 0 \<longrightarrow> \<not> reserved_by_other (dspp_to_enc_id gs) d e))"

lemma check_pick_ok: "check gs e i c reqs = Some r \<Longrightarrow> pick_ok gs e reqs (pick_of i r)"
  by (auto simp: dpu_rm_check_lm_and_get_connected_blks_def pick_ok_def pick_of_def Let_def
      split: if_splits)

lemma peer_cands_ok: "x \<in> set (peer_cands gs e reqs prim j bs) \<Longrightarrow> pick_ok gs e reqs x"
  by (induction bs arbitrary: j) (auto simp: check_pick_ok split: option.splits if_splits)

lemma find_lms_ok:
  assumes "length acc < unat (num_lm reqs)"
    and "length (find_lms gs e reqs i bs acc) = unat (num_lm reqs)"
    and "x \<in> set (find_lms gs e reqs i bs acc)"
  shows "pick_ok gs e reqs x"
proof -
  from find_lms_full [OF assms(1,2)] obtain k hw r where
    c: "lm_choice gs e reqs i bs k hw r" and
    f: "find_lms gs e reqs i bs acc = take (unat (num_lm reqs)) (choice_picks gs e reqs i bs k hw r)"
    by blast
  from f assms(3) have "x \<in> set (choice_picks gs e reqs i bs k hw r)"
    by (metis in_set_takeD)
  then show ?thesis using c
    by (auto simp: choice_picks_def lm_choice_def peer_cands_ok check_pick_ok)
qed

lemma find_lms_order:
  assumes "length acc < unat (num_lm reqs)"
    and "length (find_lms gs e reqs i bs acc) = unat (num_lm reqs)"
  shows "sorted_wrt (<) (map fst (find_lms gs e reqs i bs acc))"
    and "l \<in> set (map fst (find_lms gs e reqs i bs acc)) \<Longrightarrow> i \<le> l \<and> l < i + length bs"
proof -
  from find_lms_full [OF assms] obtain k hw r where
    c: "lm_choice gs e reqs i bs k hw r" and
    f: "find_lms gs e reqs i bs acc = take (unat (num_lm reqs)) (choice_picks gs e reqs i bs k hw r)"
    by blast
  show "sorted_wrt (<) (map fst (find_lms gs e reqs i bs acc))"
    unfolding f take_map [symmetric]
    using choice_picks_order(1) [OF c] by (rule sorted_wrt_take)
  assume "l \<in> set (map fst (find_lms gs e reqs i bs acc))"
  then have "l \<in> set (map fst (choice_picks gs e reqs i bs k hw r))"
    unfolding f take_map [symmetric] by (rule in_set_takeD)
  then show "i \<le> l \<and> l < i + length bs" by (rule choice_picks_order(2) [OF c])
qed

lemma assign_lms_tables [simp]:
  "mixer_to_enc_id (assign_lms e reqs ps gs) = set_all e (map fst ps) (mixer_to_enc_id gs)"
  "pingpong_to_enc_id (assign_lms e reqs ps gs) = set_all e (map (fst \<circ> snd) ps) (pingpong_to_enc_id gs)"
  "dspp_to_enc_id (assign_lms e reqs ps gs) =
     set_all (if num_dspp reqs \<noteq> 0 then e else 0) (map (snd \<circ> snd) ps) (dspp_to_enc_id gs)"
  "ctl_to_enc_id (assign_lms e reqs ps gs) = ctl_to_enc_id gs"
  "dsc_to_enc_id (assign_lms e reqs ps gs) = dsc_to_enc_id gs"
  by (induction ps arbitrary: gs) auto

lemma assign_ctls_eq [simp]:
  "assign_ctls e cs gs = gs\<lparr>ctl_to_enc_id := set_all e cs (ctl_to_enc_id gs)\<rparr>"
  by (induction cs arbitrary: gs) auto

lemma not_reserved_iff [simp]: "\<not> reserved_by_other xs i e \<longleftrightarrow> xs ! i = 0 \<or> xs ! i = e"
  by (auto simp: reserved_by_other_def)

lemma reserve_lms_cases:
  assumes "dpu_rm_reserve_lms rm gs e reqs = (ret, gs')"
  obtains (err) "ret < 0" "gs' = gs"
    | (ok) ps where "ret = 0" "gs' = assign_lms e reqs ps gs" "length ps = unat (num_lm reqs)"
        "ps = find_lms gs e reqs 0 (mixer_blks rm) []" "0 < unat (num_lm reqs)"
  using assms by (auto simp: dpu_rm_reserve_lms_def Let_def unat_gt_0 split: if_splits)

lemma reserve_lms_picks_ok:
  assumes "ps = find_lms gs e reqs 0 (mixer_blks rm) []" "length ps = unat (num_lm reqs)"
    "0 < unat (num_lm reqs)" "x \<in> set ps"
  shows "pick_ok gs e reqs x"
  using assms find_lms_ok [of "[]" reqs gs e 0 "mixer_blks rm" x] by simp

lemma reserve_lms_grants:
  assumes "dpu_rm_reserve_lms rm gs e reqs = (ret, gs')"
  shows "granted_only e (mixer_to_enc_id gs) (mixer_to_enc_id gs') \<and>
    granted_only e (pingpong_to_enc_id gs) (pingpong_to_enc_id gs') \<and>
    (num_dspp reqs \<noteq> 0 \<longrightarrow> granted_only e (dspp_to_enc_id gs) (dspp_to_enc_id gs'))"
  using assms
proof (cases rule: reserve_lms_cases)
  case (ok ps)
  note ps = reserve_lms_picks_ok [OF ok(4,3,5)]
  show ?thesis
    using ok(2) by (auto intro!: granted_only_set_all dest!: ps simp: pick_ok_def)
qed simp

section \<open>Controls and DSC encoders\<close>

lemma find_ctls_free:
  assumes "c \<in> set (find_ctls gs e ns n j bs cs)" and "\<forall>c\<in>set cs. \<not> reserved_by_other (ctl_to_enc_id gs) c e"
  shows "\<not> reserved_by_other (ctl_to_enc_id gs) c e"
  using assms
  by (induction gs e ns n j bs cs rule: find_ctls.induct)
    (auto split: option.splits if_splits simp del: not_reserved_iff)

lemma find_ctls_order:
  assumes "sorted_wrt (<) cs" and "\<forall>c\<in>set cs. c < j"
  shows "sorted_wrt (<) (find_ctls gs e ns n j bs cs) \<and>
    (\<forall>c\<in>set (find_ctls gs e ns n j bs cs). c < j + length bs)"
  using assms
  by (induction gs e ns n j bs cs rule: find_ctls.induct)
    (auto split: option.splits simp: sorted_wrt_append less_Suc_eq trans_less_add1)

lemma reserve_ctls_cases:
  assumes "dpu_rm_reserve_ctls rm gs e topo = (ret, gs')"
  obtains (err) "ret < 0" "gs' = gs"
    | (ok) cs where "ret = 0" "gs' = gs\<lparr>ctl_to_enc_id := set_all e cs (ctl_to_enc_id gs)\<rparr>"
        "int (length cs) = c_int (num_intf topo)" "sorted_wrt (<) cs"
        "\<And>c. c \<in> set cs \<Longrightarrow> c < length (ctl_blks rm)"
        "\<And>c. c \<in> set cs \<Longrightarrow> \<not> reserved_by_other (ctl_to_enc_id gs) c e"
proof (cases "ret = 0")
  case True
  let ?cs = "find_ctls gs e (dpu_rm_needs_split_display topo) (c_int (num_intf topo)) 0 (ctl_blks rm) []"
  show ?thesis
    using assms True find_ctls_order [of "[]" 0 gs e "dpu_rm_needs_split_display topo" "c_int (num_intf topo)" "ctl_blks rm"]
      find_ctls_free [of _ gs e "dpu_rm_needs_split_display topo" "c_int (num_intf topo)" 0 "ctl_blks rm" "[]"]
    by (intro ok [of ?cs]) (auto simp: dpu_rm_reserve_ctls_def Let_def simp del: not_reserved_iff split: if_splits)
next
  case False
  then show ?thesis using assms err by (auto simp: dpu_rm_reserve_ctls_def Let_def split: if_splits)
qed

lemma reserve_ctls_grants:
  assumes "dpu_rm_reserve_ctls rm gs e topo = (ret, gs')"
  shows "granted_only e (ctl_to_enc_id gs) (ctl_to_enc_id gs')"
  using assms by (cases rule: reserve_ctls_cases) (auto intro!: granted_only_set_all)

lemma dsc_fill_eq: "dsc_fill tab e i n = (if i + n \<le> length tab \<or> n = 0 then Some (set_all e [i..<i + n] tab) else None)"
proof (induction n arbitrary: i tab)
  case 0
  then show ?case by simp
next
  case (Suc n)
  have "[i..<i + Suc n] = i # [Suc i..<Suc i + n]" by (simp add: upt_rec)
  then show ?case using Suc.IH [of "tab[i := e]" "Suc i"]
    by (auto simp: arr_set_def simp del: upt_Suc split: option.splits)
qed

lemma dsc_busy_False: "dsc_busy tab i n = Some False \<longleftrightarrow>
    (n = 0 \<or> i + n \<le> length tab) \<and> (\<forall>j. i \<le> j \<and> j < i + n \<longrightarrow> tab ! j = 0)"
proof (induction n arbitrary: i)
  case 0
  then show ?case by auto
next
  case (Suc n)
  have "(\<forall>j. i \<le> j \<and> j < i + Suc n \<longrightarrow> tab ! j = 0) \<longleftrightarrow>
    tab ! i = 0 \<and> (\<forall>j. Suc i \<le> j \<and> j < Suc i + n \<longrightarrow> tab ! j = 0)"
    by (metis Suc_le_eq add_Suc add_Suc_right le_eq_less_or_eq less_add_Suc1)
  then show ?case using Suc.IH [of "Suc i"] by (auto simp: arr_get_def split: if_splits)
qed

lemma reserve_dsc_cases:
  assumes "dpu_rm_reserve_dsc gs e topo = Some (ret, gs')"
  obtains (err) "ret < 0" "gs' = gs"
    | (ok) n where "ret = 0" "n = nat (c_int (num_dsc topo))"
        "gs' = gs\<lparr>dsc_to_enc_id := set_all e [0..<n] (dsc_to_enc_id gs)\<rparr>"
        "n \<le> length (dsc_to_enc_id gs)" "\<And>j. j < n \<Longrightarrow> dsc_to_enc_id gs ! j = 0"
  using assms
  by (auto simp: dpu_rm_reserve_dsc_def Let_def dsc_busy_False dsc_fill_eq
      split: option.splits bool.splits if_splits)

lemma reserve_dsc_grants:
  assumes "dpu_rm_reserve_dsc gs e topo = Some (ret, gs')"
  shows "granted_only e (dsc_to_enc_id gs) (dsc_to_enc_id gs')"
  using assms by (cases rule: reserve_dsc_cases) (auto intro!: granted_only_set_all)


section \<open>The whole reservation\<close>

lemma make_reservation_cases:
  assumes "dpu_rm_make_reservation rm gs e reqs = Some (ret, gs')"
  obtains (lms) "dpu_rm_reserve_lms rm gs e reqs = (ret, gs')" "ret < 0"
    | (ctls) gs1 where "dpu_rm_reserve_lms rm gs e reqs = (0, gs1)"
        "dpu_rm_reserve_ctls rm gs1 e reqs = (ret, gs')" "ret < 0"
    | (dsc) gs1 gs2 where "dpu_rm_reserve_lms rm gs e reqs = (0, gs1)"
        "dpu_rm_reserve_ctls rm gs1 e reqs = (0, gs2)" "dpu_rm_reserve_dsc gs2 e reqs = Some (ret, gs')"
proof -
  obtain r1 gs1 where l: "dpu_rm_reserve_lms rm gs e reqs = (r1, gs1)" by fastforce
  obtain r2 gs2 where c: "dpu_rm_reserve_ctls rm gs1 e reqs = (r2, gs2)" by fastforce
  have "r1 \<le> 0" using l by (cases rule: reserve_lms_cases) auto
  moreover have "r2 \<le> 0" using c by (cases rule: reserve_ctls_cases) auto
  ultimately show ?thesis using assms that l c
    by (auto simp: dpu_rm_make_reservation_def split: if_splits)
qed

lemma reserve_lms_frame:
  assumes "dpu_rm_reserve_lms rm gs e reqs = (ret, gs')"
  shows "ctl_to_enc_id gs' = ctl_to_enc_id gs \<and> dsc_to_enc_id gs' = dsc_to_enc_id gs"
  using assms by (cases rule: reserve_lms_cases) auto

lemma reserve_ctls_frame:
  assumes "dpu_rm_reserve_ctls rm gs e reqs = (ret, gs')"
  shows "mixer_to_enc_id gs' = mixer_to_enc_id gs \<and> pingpong_to_enc_id gs' = pingpong_to_enc_id gs \<and>
    dsc_to_enc_id gs' = dsc_to_enc_id gs \<and> dspp_to_enc_id gs' = dspp_to_enc_id gs"
  using assms by (cases rule: reserve_ctls_cases) auto

lemma reserve_dsc_frame:
  assumes "dpu_rm_reserve_dsc gs e reqs = Some (ret, gs')"
  shows "mixer_to_enc_id gs' = mixer_to_enc_id gs \<and> pingpong_to_enc_id gs' = pingpong_to_enc_id gs \<and>
    ctl_to_enc_id gs' = ctl_to_enc_id gs \<and> dspp_to_enc_id gs' = dspp_to_enc_id gs"
  using assms by (cases rule: reserve_dsc_cases) auto

lemmas reserve_frames = reserve_lms_frame reserve_ctls_frame reserve_dsc_frame
lemmas reserve_grants_all = reserve_lms_grants reserve_ctls_grants reserve_dsc_grants

lemma make_reservation_grants:
  assumes "dpu_rm_make_reservation rm gs e reqs = Some (ret, gs')"
  shows "granted_only e (mixer_to_enc_id gs) (mixer_to_enc_id gs') \<and>
    granted_only e (pingpong_to_enc_id gs) (pingpong_to_enc_id gs') \<and>
    granted_only e (ctl_to_enc_id gs) (ctl_to_enc_id gs') \<and>
    granted_only e (dsc_to_enc_id gs) (dsc_to_enc_id gs') \<and>
    (num_dspp reqs \<noteq> 0 \<longrightarrow> granted_only e (dspp_to_enc_id gs) (dspp_to_enc_id gs'))"
  using assms
proof (cases rule: make_reservation_cases)
  case lms
  then show ?thesis using reserve_lms_grants [OF lms(1)] reserve_lms_frame [OF lms(1)] by simp
next
  case (ctls gs1)
  then show ?thesis
    using reserve_lms_grants [OF ctls(1)] reserve_lms_frame [OF ctls(1)]
      reserve_ctls_grants [OF ctls(2)] reserve_ctls_frame [OF ctls(2)] by simp
next
  case (dsc gs1 gs2)
  then show ?thesis
    using reserve_lms_grants [OF dsc(1)] reserve_lms_frame [OF dsc(1)]
      reserve_ctls_grants [OF dsc(2)] reserve_ctls_frame [OF dsc(2)]
      reserve_dsc_grants [OF dsc(3)] reserve_dsc_frame [OF dsc(3)] by simp
qed

text \<open>The reservation as an operation of the ownership contract: defined where it returns.\<close>

definition reserve_op :: "dpu_rm \<times> msm_display_topology \<Rightarrow> u32 \<Rightarrow> dpu_global_state \<Rightarrow> dpu_global_state option" where
  "reserve_op r e gs = map_option snd (dpu_rm_make_reservation (fst r) gs e (snd r))"

interpretation mixer_tab: owner_reservation mixer_to_enc_id dpu_rm_release reserve_op
  by unfold_locales
    (auto simp: dpu_rm_release_def clear_mapping_eq reserve_op_def dest: make_reservation_grants)

interpretation pingpong_tab: owner_reservation pingpong_to_enc_id dpu_rm_release reserve_op
  by unfold_locales
    (auto simp: dpu_rm_release_def clear_mapping_eq reserve_op_def dest: make_reservation_grants)

interpretation ctl_tab: owner_reservation ctl_to_enc_id dpu_rm_release reserve_op
  by unfold_locales
    (auto simp: dpu_rm_release_def clear_mapping_eq reserve_op_def dest: make_reservation_grants)

interpretation dsc_tab: owner_reservation dsc_to_enc_id dpu_rm_release reserve_op
  by unfold_locales
    (auto simp: dpu_rm_release_def clear_mapping_eq reserve_op_def dest: make_reservation_grants)

lemma collect_assigned_eq:
  "length blks \<le> n \<Longrightarrow> collect_assigned e n i xs blks = blks @ take (n - length blks) (owned e i xs)"
proof (induction xs arbitrary: i blks)
  case Nil
  then show ?case by simp
next
  case (Cons x xs)
  show ?case
  proof (cases "x = e \<and> length blks < n")
    case True
    then have "n - length blks = Suc (n - Suc (length blks))" by (simp add: Suc_diff_Suc)
    then have "take (n - length blks) (i # owned e (Suc i) xs) =
      i # take (n - Suc (length blks)) (owned e (Suc i) xs)" by (metis take_Suc_Cons)
    then show ?thesis using True Cons.IH [of "blks @ [i]" "Suc i"] by simp
  next
    case False
    then show ?thesis using Cons by auto
  qed
qed


lemma get_assigned_eq:
  "dpu_rm_get_assigned_resources gs e t n =
     (case assigned_table t gs of None \<Rightarrow> [] | Some tab \<Rightarrow> take n (owned e 0 tab))"
  by (simp add: dpu_rm_get_assigned_resources_def collect_assigned_eq split: option.splits)

lemma reserve_Inr:
  "dpu_rm_reserve rm (Inr gs) e True topo = Some (ret, Inr gs') \<longleftrightarrow>
     dpu_rm_make_reservation rm gs e topo = Some (ret, gs')"
  by (auto simp: dpu_rm_reserve_def dpu_rm_populate_requirements_def)

text \<open>A successful reservation, spelled out: the mixers, controls and DSC encoders written.\<close>

lemma make_reservation_ok:
  assumes "dpu_rm_make_reservation rm gs e reqs = Some (0, gs')"
  obtains ps cs n where
    "ps = find_lms gs e reqs 0 (mixer_blks rm) []" "length ps = unat (num_lm reqs)" "0 < unat (num_lm reqs)"
    "int (length cs) = c_int (num_intf reqs)" "sorted_wrt (<) cs" "\<And>c. c \<in> set cs \<Longrightarrow> c < length (ctl_blks rm)"
    "n = nat (c_int (num_dsc reqs))" "n \<le> length (dsc_to_enc_id gs)"
    "mixer_to_enc_id gs' = set_all e (map fst ps) (mixer_to_enc_id gs)"
    "pingpong_to_enc_id gs' = set_all e (map (fst \<circ> snd) ps) (pingpong_to_enc_id gs)"
    "dspp_to_enc_id gs' = set_all (if num_dspp reqs \<noteq> 0 then e else 0) (map (snd \<circ> snd) ps) (dspp_to_enc_id gs)"
    "ctl_to_enc_id gs' = set_all e cs (ctl_to_enc_id gs)"
    "dsc_to_enc_id gs' = set_all e [0..<n] (dsc_to_enc_id gs)"
  using assms
proof (cases rule: make_reservation_cases)
  case (dsc gs1 gs2)
  from dsc(1) show ?thesis
  proof (cases rule: reserve_lms_cases)
    case (ok ps)
    note l = ok
    from dsc(2) show ?thesis
    proof (cases rule: reserve_ctls_cases)
      case (ok cs)
      note c = ok
      from dsc(3) show ?thesis
      proof (cases rule: reserve_dsc_cases)
        case (ok n)
        show ?thesis by (rule that [of ps cs n]) (use l c ok in simp_all)
      qed simp
    qed simp
  qed simp
qed simp_all

section \<open>A small configuration\<close>

text \<open>Two peer mixers and two controls, used to instantiate the properties.\<close>

definition ex_map :: dpu_hw_blk_reg_map where
  "ex_map = \<lparr>base_off = 4096, blk_off = 0, map_length = 768, map_hwversion = 0\<rparr>"

definition ex_lm :: "u32 \<Rightarrow> dpu_lm_cfg" where
  "ex_lm n = \<lparr>blk_id = n, blk_base = 0, blk_len = 768, blk_features = 0,
     lm_pingpong = n, lm_dspp = n, lm_pair_mask = 6\<rparr>"

definition ex_blk :: "u32 \<Rightarrow> dpu_blk_cfg" where
  "ex_blk n = \<lparr>blk_id = n, blk_base = 0, blk_len = 768, blk_features = 0\<rparr>"

definition ex_cat :: dpu_mdss_cfg where
  "ex_cat = \<lparr>hwversion = 0, cat_ctl = [ex_blk 1, ex_blk 2], cat_mixer = [ex_lm 1, ex_lm 2],
     cat_pingpong = [], cat_merge_3d = [], cat_dsc = [ex_blk 1], cat_intf = [], cat_wb = [], cat_dspp = []\<rparr>"

definition ex_rm :: dpu_rm where
  "ex_rm = rm_zero\<lparr>
     mixer_blks := [Some \<lparr>hw_idx = 1, hw_map = ex_map, hw_cap = ex_lm 1\<rparr>,
       Some \<lparr>hw_idx = 2, hw_map = ex_map, hw_cap = ex_lm 2\<rparr>, None, None, None, None, None],
     ctl_blks := [Some \<lparr>hw_idx = 1, hw_map = ex_map, hw_cap = ex_blk 1\<rparr>,
       Some \<lparr>hw_idx = 2, hw_map = ex_map, hw_cap = ex_blk 2\<rparr>, None, None, None, None]\<rparr>"

text \<open>Mixer, ping-pong and control 0 belong to encoder 9, everything else is free.\<close>

definition ex_gs :: dpu_global_state where
  "ex_gs = \<lparr>pingpong_to_enc_id = [9, 0, 0, 0, 0, 0, 0], mixer_to_enc_id = [9, 0, 0, 0, 0, 0, 0],
     ctl_to_enc_id = [9, 0, 0, 0, 0, 0], dspp_to_enc_id = [9, 0, 0, 0], dsc_to_enc_id = [0, 0, 0, 0, 0, 0]\<rparr>"

definition ex_topo :: "u32 \<Rightarrow> msm_display_topology" where
  "ex_topo d = \<lparr>num_lm = 1, num_enc = 0, num_intf = 1, num_dspp = d, num_dsc = 1\<rparr>"

definition ex_gs' :: "u32 \<Rightarrow> dpu_global_state" where
  "ex_gs' d = \<lparr>pingpong_to_enc_id = [9, 5, 0, 0, 0, 0, 0], mixer_to_enc_id = [9, 5, 0, 0, 0, 0, 0],
     ctl_to_enc_id = [9, 5, 0, 0, 0, 0],
     dspp_to_enc_id = (if d = 0 then [0, 0, 0, 0] else [9, 5, 0, 0]), dsc_to_enc_id = [5, 0, 0, 0, 0, 0]\<rparr>"

lemmas ex_defs = ex_map_def ex_lm_def ex_blk_def ex_rm_def ex_gs_def ex_topo_def ex_gs'_def rm_zero_def

lemma ex_replicate:
  "replicate 7 x = [x, x, x, x, x, x, x]" "replicate 6 x = [x, x, x, x, x, x]"
  "replicate 4 x = [x, x, x, x]" "replicate 3 x = [x, x, x]"
  by (simp_all add: numeral_eq_Suc)

lemmas reserve_defs = dpu_rm_reserve_def dpu_rm_populate_requirements_def dpu_rm_make_reservation_def
  dpu_rm_reserve_lms_def dpu_rm_reserve_ctls_def dpu_rm_reserve_dsc_def dpu_rm_needs_split_display_def
  dpu_rm_check_lm_and_get_connected_blks_def pick_of_def reserved_by_other_def
  DPU_CTL_SPLIT_DISPLAY_def c_int_def arr_get_def arr_set_def Let_def

lemma ex_reserve:
  "dpu_rm_reserve ex_rm (Inr ex_gs) 5 True (ex_topo 1) = Some (0, Inr (ex_gs' 1))"
  "dpu_rm_reserve ex_rm (Inr ex_gs) 5 True (ex_topo 0) = Some (0, Inr (ex_gs' 0))"
  by (simp_all add: reserve_defs ex_defs del: not_reserved_iff assign_lms_tables)

section \<open>Properties of the reservation\<close>

text \<open>
  C1: reserving hardware for an encoder never takes a mixer, ping-pong, control or DSC encoder
  that another encoder holds, whatever the return code.
\<close>

theorem dpu_rm_reserve_isolated:
  assumes "dpu_rm_reserve rm (Inr gs) enc_id True topology = Some (ret, Inr gs')"
    and "T \<in> {mixer_to_enc_id, pingpong_to_enc_id, ctl_to_enc_id, dsc_to_enc_id}"
    and "i < length (T gs)" and "T gs ! i \<noteq> 0" and "T gs ! i \<noteq> enc_id"
  shows "T gs' ! i = T gs ! i"
proof -
  from assms(1) have "reserve_op (rm, topology) enc_id gs = Some gs'"
    by (simp add: reserve_Inr reserve_op_def)
  then show ?thesis using assms(2-5)
    by (auto dest: mixer_tab.reserve_isolated pingpong_tab.reserve_isolated
        ctl_tab.reserve_isolated dsc_tab.reserve_isolated)
qed

theorem dpu_rm_reserve_isolated_witness:
  "dpu_rm_reserve ex_rm (Inr ex_gs) 5 True (ex_topo 1) = Some (0, Inr (ex_gs' 1)) \<and>
   mixer_to_enc_id (ex_gs' 1) ! 0 = mixer_to_enc_id ex_gs ! 0 \<and> mixer_to_enc_id ex_gs ! 0 = 9"
  using dpu_rm_reserve_isolated [OF ex_reserve(1), of mixer_to_enc_id 0] ex_reserve(1)
  by (simp add: ex_gs_def)

text \<open>
  C4: a release undoes a reservation attempt, successful or not: every table is left as a release
  without the attempt leaves it, so that whatever the attempt took is returned and nothing else
  changes.  When the encoder held no block of the table before, that is the table before the attempt.
\<close>

theorem dpu_rm_reserve_release:
  assumes "dpu_rm_reserve rm (Inr gs) enc_id True topology = Some (ret, Inr gs')"
    and "T \<in> {mixer_to_enc_id, pingpong_to_enc_id, ctl_to_enc_id, dsc_to_enc_id}"
  shows "T (dpu_rm_release enc_id gs') = T (dpu_rm_release enc_id gs)
    \<and> (enc_id \<notin> set (T gs) \<longrightarrow> T (dpu_rm_release enc_id gs') = T gs)"
proof -
  from assms(1) have "reserve_op (rm, topology) enc_id gs = Some gs'"
    by (simp add: reserve_Inr reserve_op_def)
  then show ?thesis using assms(2)
    by (auto dest: mixer_tab.reserve_release_same pingpong_tab.reserve_release_same
        ctl_tab.reserve_release_same dsc_tab.reserve_release_same
        mixer_tab.reserve_release pingpong_tab.reserve_release
        ctl_tab.reserve_release dsc_tab.reserve_release)
qed

theorem dpu_rm_reserve_release_witness:
  "mixer_to_enc_id (dpu_rm_release 5 (ex_gs' 1)) = [9, 0, 0, 0, 0, 0, 0]"
  using conjunct2 [OF dpu_rm_reserve_release [OF ex_reserve(1), of mixer_to_enc_id]]
  by (simp add: ex_gs_def)

text \<open>
  C2: a successful reservation by an encoder that held nothing grants exactly the requested
  topology: as many mixers, controls and DSC encoders are then reported by
  \<^verbatim>\<open>dpu_rm_get_assigned_resources\<close> as the topology asks for.
\<close>

theorem dpu_rm_reserve_grants_topology:
  assumes "rm_shape rm" and "gs_shape gs"
    and "enc_id \<notin> set (mixer_to_enc_id gs) \<union> set (ctl_to_enc_id gs) \<union> set (dsc_to_enc_id gs)"
    and "dpu_rm_reserve rm (Inr gs) enc_id True topology = Some (0, Inr gs')"
    and "7 \<le> blks_size"
  shows "length (dpu_rm_get_assigned_resources gs' enc_id DPU_HW_BLK_LM blks_size) = unat (num_lm topology) \<and>
    int (length (dpu_rm_get_assigned_resources gs' enc_id DPU_HW_BLK_CTL blks_size)) = c_int (num_intf topology) \<and>
    dpu_rm_get_assigned_resources gs' enc_id DPU_HW_BLK_DSC blks_size = [0..<nat (c_int (num_dsc topology))]"
proof -
  note sh = assms(1,2) [unfolded rm_shape_def gs_shape_def]
  from assms(4) have "dpu_rm_make_reservation rm gs enc_id topology = Some (0, gs')"
    by (simp add: reserve_Inr)
  then show ?thesis
  proof (cases rule: make_reservation_ok)
    case (1 ps cs n)
    have ord: "sorted_wrt (<) (map fst ps)" "\<And>l. l \<in> set (map fst ps) \<Longrightarrow> l < 7"
      using find_lms_order [of "[]" topology gs enc_id 0 "mixer_blks rm"] 1(1-3) sh by auto
    have m: "owned enc_id 0 (mixer_to_enc_id gs') = map fst ps"
      unfolding 1(9) by (rule owned_set_all) (use assms(3) sh ord in auto)
    have c: "owned enc_id 0 (ctl_to_enc_id gs') = cs"
      unfolding 1(12) by (rule owned_set_all) (use assms(3) sh 1(5,6) in auto)
    have d: "owned enc_id 0 (dsc_to_enc_id gs') = [0..<n]"
      unfolding 1(13) by (rule owned_set_all) (use assms(3) sh 1(8) in auto)
    from length_owned [of enc_id 0 "mixer_to_enc_id gs'"] length_owned [of enc_id 0 "ctl_to_enc_id gs'"]
      length_owned [of enc_id 0 "dsc_to_enc_id gs'"]
    show ?thesis using assms(5) m c d 1 sh
      by (simp add: get_assigned_eq assigned_table_def)
  qed
qed


theorem dpu_rm_reserve_grants_topology_witness:
  "length (dpu_rm_get_assigned_resources (ex_gs' 1) 5 DPU_HW_BLK_LM 7) = 1 \<and>
   dpu_rm_get_assigned_resources (ex_gs' 1) 5 DPU_HW_BLK_DSC 7 = [0]"
  using dpu_rm_reserve_grants_topology [OF _ _ _ ex_reserve(1), of 7]
  by (simp add: rm_shape_def gs_shape_def ex_defs c_int_def)

text \<open>
  C3: the mixer search fails only when it must: \<^verbatim>\<open>-ENAVAIL\<close> is returned, and nothing is
  changed, exactly when no available primary mixer has enough available peers after it.
\<close>

theorem dpu_rm_reserve_lms_complete:
  assumes "num_lm reqs \<noteq> 0"
  shows "dpu_rm_reserve_lms rm gs enc_id reqs = (- ENAVAIL, gs) \<longleftrightarrow>
    (\<forall>k hw r. lm_choice gs enc_id reqs 0 (mixer_blks rm) k hw r \<longrightarrow>
       length (choice_picks gs enc_id reqs 0 (mixer_blks rm) k hw r) < unat (num_lm reqs))"
proof -
  let ?ps = "find_lms gs enc_id reqs 0 (mixer_blks rm) []"
  have pos: "length ([] :: lm_pick list) < unat (num_lm reqs)" using assms by (simp add: unat_gt_0)
  have "dpu_rm_reserve_lms rm gs enc_id reqs = (- ENAVAIL, gs) \<longleftrightarrow> length ?ps \<noteq> unat (num_lm reqs)"
    using assms by (simp add: dpu_rm_reserve_lms_def Let_def)
  also have "\<dots> \<longleftrightarrow> (\<forall>k hw r. lm_choice gs enc_id reqs 0 (mixer_blks rm) k hw r \<longrightarrow>
       length (choice_picks gs enc_id reqs 0 (mixer_blks rm) k hw r) < unat (num_lm reqs))"
  proof
    assume "length ?ps \<noteq> unat (num_lm reqs)"
    then show "\<forall>k hw r. lm_choice gs enc_id reqs 0 (mixer_blks rm) k hw r \<longrightarrow>
       length (choice_picks gs enc_id reqs 0 (mixer_blks rm) k hw r) < unat (num_lm reqs)"
      using find_lms_short [OF pos] by blast
  next
    assume short: "\<forall>k hw r. lm_choice gs enc_id reqs 0 (mixer_blks rm) k hw r \<longrightarrow>
       length (choice_picks gs enc_id reqs 0 (mixer_blks rm) k hw r) < unat (num_lm reqs)"
    show "length ?ps \<noteq> unat (num_lm reqs)"
    proof
      assume len: "length ?ps = unat (num_lm reqs)"
      with find_lms_full [OF pos] short show False by fastforce
    qed
  qed
  finally show ?thesis .
qed

theorem dpu_rm_reserve_lms_complete_witness:
  "length (choice_picks ex_gs 5 (ex_topo 1\<lparr>num_lm := 2\<rparr>) 0 (mixer_blks ex_rm) 1
     \<lparr>hw_idx = 2, hw_map = ex_map, hw_cap = ex_lm 2\<rparr> (1, Some 1)) < 2"
proof -
  have "dpu_rm_reserve_lms ex_rm ex_gs 5 (ex_topo 1\<lparr>num_lm := 2\<rparr>) = (- ENAVAIL, ex_gs)"
    by (simp add: reserve_defs ex_defs dpu_rm_check_lm_peer_def del: not_reserved_iff assign_lms_tables)
  moreover have "lm_choice ex_gs 5 (ex_topo 1\<lparr>num_lm := 2\<rparr>) 0 (mixer_blks ex_rm) 1
     \<lparr>hw_idx = 2, hw_map = ex_map, hw_cap = ex_lm 2\<rparr> (1, Some 1)"
    by (simp add: lm_choice_def reserve_defs ex_defs del: not_reserved_iff)
  ultimately show ?thesis
    using dpu_rm_reserve_lms_complete [of "ex_topo 1\<lparr>num_lm := 2\<rparr>" ex_rm ex_gs 5]
    by (auto simp: ex_topo_def)
qed

text \<open>Where a pick comes from: its mixer, and the blocks wired to that mixer.\<close>

definition wired_pick :: "dpu_rm \<Rightarrow> msm_display_topology \<Rightarrow> lm_pick \<Rightarrow> bool" where
  "wired_pick rm reqs = (\<lambda>(l, p, d). \<exists>hw. l < length (mixer_blks rm) \<and> mixer_blks rm ! l = Some hw \<and>
     int p = c_int (lm_pingpong (hw_cap hw) - PINGPONG_0) \<and> p < 7 \<and>
     (num_dspp reqs \<noteq> 0 \<longrightarrow> int d = c_int (lm_dspp (hw_cap hw) - DSPP_0) \<and> d < 4))"

lemma check_wired:
  "check gs e l (hw_cap hw) reqs = Some r \<Longrightarrow> l < length (mixer_blks rm) \<Longrightarrow> mixer_blks rm ! l = Some hw \<Longrightarrow>
   wired_pick rm reqs (pick_of l r)"
  by (auto simp: dpu_rm_check_lm_and_get_connected_blks_def wired_pick_def pick_of_def Let_def
      split: if_splits)

lemma peer_cands_wired:
  assumes "x \<in> set (peer_cands gs e reqs prim j bs)" and "mixer_blks rm = as @ bs" and "j = length as"
  shows "wired_pick rm reqs x"
  using assms
proof (induction bs arbitrary: j as)
  case Nil
  then show ?case by simp
next
  case (Cons b bs)
  have "x \<in> set (peer_cands gs e reqs prim (Suc j) bs) \<Longrightarrow> wired_pick rm reqs x"
    by (rule Cons.IH [of _ "as @ [b]"]) (use Cons.prems in auto)
  moreover have "wired_pick rm reqs (pick_of j r)" if "b = Some hw" "check gs e j (hw_cap hw) reqs = Some r" for hw r
    using that Cons.prems by (intro check_wired) (auto simp: nth_append)
  ultimately show ?case using Cons.prems(1) by (auto split: option.splits if_splits)
qed

lemma find_lms_wired:
  assumes "ps = find_lms gs e reqs 0 (mixer_blks rm) []" "length ps = unat (num_lm reqs)"
    "0 < unat (num_lm reqs)" "x \<in> set ps"
  shows "wired_pick rm reqs x"
proof -
  from find_lms_full [of "[]" reqs gs e 0 "mixer_blks rm"] assms obtain k hw r where
    c: "lm_choice gs e reqs 0 (mixer_blks rm) k hw r" and
    f: "ps = take (unat (num_lm reqs)) (choice_picks gs e reqs 0 (mixer_blks rm) k hw r)"
    by auto
  from f assms(4) have "x \<in> set (choice_picks gs e reqs 0 (mixer_blks rm) k hw r)"
    by (metis in_set_takeD)
  moreover have "mixer_blks rm = take (Suc k) (mixer_blks rm) @ drop (Suc k) (mixer_blks rm)" by simp
  ultimately show ?thesis using c
    by (auto simp: choice_picks_def lm_choice_def check_wired min_def
        intro: peer_cands_wired [where as = "take (Suc k) (mixer_blks rm)"])
qed

lemma reserve_wires:
  assumes "gs_shape gs" and "dpu_rm_reserve rm (Inr gs) enc_id True topology = Some (0, Inr gs')"
    and "mixer_to_enc_id gs' ! l \<noteq> mixer_to_enc_id gs ! l" and "l < 7"
  shows "\<exists>hw. mixer_blks rm ! l = Some hw \<and> mixer_to_enc_id gs' ! l = enc_id \<and>
    pingpong_to_enc_id gs' ! nat (c_int (lm_pingpong (hw_cap hw) - PINGPONG_0)) = enc_id \<and>
    (num_dspp topology \<noteq> 0 \<longrightarrow>
      dspp_to_enc_id gs' ! nat (c_int (lm_dspp (hw_cap hw) - DSPP_0)) = enc_id)"
proof -
  note sh = assms(1) [unfolded gs_shape_def]
  from assms(2) have "dpu_rm_make_reservation rm gs enc_id topology = Some (0, gs')"
    by (simp add: reserve_Inr)
  then show ?thesis
  proof (cases rule: make_reservation_ok)
    case (1 ps cs n)
    from assms(3,4) sh 1(9) have "l \<in> set (map fst ps)" by (simp add: nth_set_all split: if_splits)
    then obtain p d where x: "(l, p, d) \<in> set ps" by auto
    then have "wired_pick rm topology (l, p, d)" by (rule find_lms_wired [OF 1(1-3)])
    then obtain hw where hw: "mixer_blks rm ! l = Some hw" and
      p: "nat (c_int (lm_pingpong (hw_cap hw) - PINGPONG_0)) = p" "p < 7" and
      d: "num_dspp topology \<noteq> 0 \<Longrightarrow> nat (c_int (lm_dspp (hw_cap hw) - DSPP_0)) = d \<and> d < 4"
      unfolding wired_pick_def by (auto simp: int_eq_iff)
    have "p \<in> set (map (fst \<circ> snd) ps)" "d \<in> set (map (snd \<circ> snd) ps)" using x by force+
    then show ?thesis using hw p d sh assms(4) 1(9,10,11) \<open>l \<in> set (map fst ps)\<close>
      by (auto simp: nth_set_all)
  qed
qed


text \<open>
  Every mixer newly granted by a successful reservation comes with the ping-pong it is
  wired to, and with its DSPP when DSPPs were requested.
\<close>

theorem dpu_rm_reserve_wires_pingpong:
  assumes "gs_shape gs" and "dpu_rm_reserve rm (Inr gs) enc_id True topology = Some (0, Inr gs')"
    and "mixer_to_enc_id gs' ! l \<noteq> mixer_to_enc_id gs ! l" and "l < 7"
  shows "\<exists>hw. mixer_blks rm ! l = Some hw \<and> mixer_to_enc_id gs' ! l = enc_id \<and>
    pingpong_to_enc_id gs' ! nat (c_int (lm_pingpong (hw_cap hw) - PINGPONG_0)) = enc_id \<and>
    (num_dspp topology \<noteq> 0 \<longrightarrow>
      dspp_to_enc_id gs' ! nat (c_int (lm_dspp (hw_cap hw) - DSPP_0)) = enc_id)"
  using assms by (rule reserve_wires)

theorem dpu_rm_reserve_wires_pingpong_witness:
  "pingpong_to_enc_id (ex_gs' 1) ! 1 = 5 \<and> dspp_to_enc_id (ex_gs' 1) ! 1 = 5"
  using dpu_rm_reserve_wires_pingpong [OF _ ex_reserve(1), of 1]
  by (simp add: gs_shape_def ex_defs c_int_def)

text \<open>
  \<^verbatim>\<open>dpu_rm_release\<close> does not give DSPPs back: after an encoder reserved with DSPPs and
  released everything, any other encoder that needs DSPPs is refused each of those mixers.
\<close>

theorem dpu_rm_release_leaks_dspp:
  assumes "gs_shape gs" and "enc_id \<noteq> 0" and "other \<noteq> enc_id"
    and "dpu_rm_reserve rm (Inr gs) enc_id True topology = Some (0, Inr gs')"
    and "num_dspp topology \<noteq> 0" and "num_dspp topology2 \<noteq> 0"
    and "mixer_to_enc_id gs' ! l \<noteq> mixer_to_enc_id gs ! l" and "l < 7" and "mixer_blks rm ! l = Some hw"
  shows "dpu_rm_check_lm_and_get_connected_blks (dpu_rm_release enc_id gs') other l (hw_cap hw) topology2 = None"
proof -
  have "dspp_to_enc_id gs' ! nat (c_int (lm_dspp (hw_cap hw) - DSPP_0)) = enc_id"
    using reserve_wires [OF assms(1,4,7,8)] assms(5,9) by auto
  then show ?thesis using assms(2,3,6)
    by (auto simp: dpu_rm_check_lm_and_get_connected_blks_def Let_def dpu_rm_release_def
        reserved_by_other_def simp del: not_reserved_iff)
qed

theorem dpu_rm_release_leaks_dspp_witness:
  "dpu_rm_check_lm_and_get_connected_blks (dpu_rm_release 5 (ex_gs' 1)) 6 1 (ex_lm 2) (ex_topo 1) = None"
proof -
  have "mixer_blks ex_rm ! 1 = Some \<lparr>hw_idx = 2, hw_map = ex_map, hw_cap = ex_lm 2\<rparr>"
    by (simp add: ex_rm_def)
  from dpu_rm_release_leaks_dspp [OF _ _ _ ex_reserve(1) _ _ _ _ this, of 6 "ex_topo 1"]
  show ?thesis by (simp add: gs_shape_def ex_gs_def ex_gs'_def ex_topo_def)
qed

text \<open>
  A successful reservation that asks for no DSPP marks DSPP 0 as free, whoever held it.
\<close>

theorem dpu_rm_reserve_clobbers_dspp:
  assumes "gs_shape gs" and "dpu_rm_reserve rm (Inr gs) enc_id True topology = Some (0, Inr gs')"
    and "num_dspp topology = 0"
  shows "dspp_to_enc_id gs' ! 0 = 0"
proof -
  from assms(2) have "dpu_rm_make_reservation rm gs enc_id topology = Some (0, gs')"
    by (simp add: reserve_Inr)
  then show ?thesis
  proof (cases rule: make_reservation_ok)
    case (1 ps cs n)
    from find_lms_full [of "[]" topology gs enc_id 0 "mixer_blks rm"] 1(1-3) obtain k hw r where
      c: "lm_choice gs enc_id topology 0 (mixer_blks rm) k hw r" and
      f: "ps = take (unat (num_lm topology)) (choice_picks gs enc_id topology 0 (mixer_blks rm) k hw r)"
      by auto
    have "snd (snd (pick_of k r)) = 0"
      using c assms(3) by (auto simp: lm_choice_def pick_of_def Let_def
          dpu_rm_check_lm_and_get_connected_blks_def split: if_splits)
    moreover have "pick_of k r \<in> set ps"
      using f 1(3) by (cases "unat (num_lm topology)") (auto simp: choice_picks_def)
    ultimately have "0 \<in> set (map (snd \<circ> snd) ps)" by force
    then show ?thesis using 1(11) assms(1,3) by (simp add: nth_set_all gs_shape_def)
  qed
qed

theorem dpu_rm_reserve_clobbers_dspp_witness:
  "dspp_to_enc_id ex_gs ! 0 = 9 \<and> dspp_to_enc_id (ex_gs' 0) ! 0 = 0"
  using dpu_rm_reserve_clobbers_dspp [OF _ ex_reserve(2)]
  by (simp add: gs_shape_def ex_gs_def ex_topo_def)

section \<open>Well-formed tables\<close>

text \<open>Every block sits at the position of its identifier and describes a catalogue entry.\<close>

definition blks_wf :: "'a dpu_blk_cfg_scheme list \<Rightarrow> ('a dpu_blk_cfg_scheme, 'z) dpu_hw_scheme option list \<Rightarrow> bool" where
  "blks_wf cfgs bs \<longleftrightarrow> (\<forall>i hw. i < length bs \<longrightarrow> bs ! i = Some hw \<longrightarrow>
     unat (hw_idx hw) = Suc i \<and> blk_id (hw_cap hw) = hw_idx hw \<and> hw_cap hw \<in> set cfgs)"

lemma blks_wf_replicate [simp]: "blks_wf cfgs (replicate n None)"
  by (simp add: blks_wf_def)

lemma blks_wf_update:
  assumes "blks_wf cfgs bs" and "hw_idx hw \<noteq> 0" and "blk_id (hw_cap hw) = hw_idx hw" and "hw_cap hw \<in> set cfgs"
  shows "blks_wf cfgs (bs[unat (hw_idx hw - 1) := Some hw])"
  unfolding blks_wf_def
proof (intro allI impI)
  fix i hw' assume i: "i < length (bs[unat (hw_idx hw - 1) := Some hw])"
    and e: "bs[unat (hw_idx hw - 1) := Some hw] ! i = Some hw'"
  have u: "unat (hw_idx hw) = Suc (unat (hw_idx hw - 1))"
    using assms(2) by (simp add: unat_minus_one unat_gt_0)
  show "unat (hw_idx hw') = Suc i \<and> blk_id (hw_cap hw') = hw_idx hw' \<and> hw_cap hw' \<in> set cfgs"
    by (cases "i = unat (hw_idx hw - 1)") (use i e u assms in \<open>auto simp: blks_wf_def\<close>)
qed

text \<open>What a constructor returns.\<close>

definition built_from :: "'a dpu_blk_cfg_scheme list \<Rightarrow> u32 \<Rightarrow> ('a dpu_blk_cfg_scheme, 'z) dpu_hw_scheme \<Rightarrow> bool" where
  "built_from cfgs idx hw \<longleftrightarrow> hw_idx hw = idx \<and> blk_id (hw_cap hw) = idx \<and> hw_cap hw \<in> set cfgs"

lemmas init_defs =
  dpu_hw_lm_init_def dpu_hw_merge_3d_init_def dpu_hw_pingpong_init_def dpu_hw_intf_init_def
  dpu_hw_wb_init_def dpu_hw_ctl_init_def dpu_hw_dspp_init_def dpu_hw_dsc_init_def
  lm_offset_def merge_3d_offset_def pingpong_offset_def intf_offset_def
  wb_offset_def ctl_offset_def dspp_offset_def dsc_offset_def

lemma built:
  "dpu_hw_lm_init b idx mmio m = Inr hw1 \<Longrightarrow> built_from (cat_mixer m) idx hw1"
  "dpu_hw_merge_3d_init b idx mmio m = Inr hw2 \<Longrightarrow> built_from (cat_merge_3d m) idx hw2"
  "dpu_hw_pingpong_init b idx mmio m = Inr hw3 \<Longrightarrow> built_from (cat_pingpong m) idx hw3"
  "dpu_hw_intf_init b idx mmio m = Inr hw4 \<Longrightarrow> built_from (cat_intf m) idx hw4"
  "dpu_hw_wb_init b idx mmio m = Inr hw5 \<Longrightarrow> built_from (cat_wb m) idx hw5"
  "dpu_hw_ctl_init b idx mmio m = Inr hw6 \<Longrightarrow> built_from (cat_ctl m) idx hw6"
  "dpu_hw_dspp_init b idx mmio m = Inr hw7 \<Longrightarrow> built_from (cat_dspp m) idx hw7"
  "dpu_hw_dsc_init b idx mmio m = Inr hw8 \<Longrightarrow> built_from (cat_dsc m) idx hw8"
  by (auto simp: init_defs built_from_def dest!: find_SomeD split: option.splits if_splits)

lemma blks_wf_built:
  "blks_wf cfgs bs \<Longrightarrow> built_from cfgs idx hw \<Longrightarrow> idx \<noteq> 0 \<Longrightarrow> blks_wf cfgs (bs[unat (idx - 1) := Some hw])"
  using blks_wf_update [of cfgs bs hw] by (fastforce simp: built_from_def)

definition rm_wf :: "dpu_mdss_cfg \<Rightarrow> dpu_rm \<Rightarrow> bool" where
  "rm_wf m rm \<longleftrightarrow> rm_shape rm \<and> blks_wf (cat_mixer m) (mixer_blks rm) \<and>
     blks_wf (cat_merge_3d m) (merge_3d_blks rm) \<and> blks_wf (cat_pingpong m) (pingpong_blks rm) \<and>
     blks_wf (cat_intf m) (hw_intf rm) \<and> blks_wf (cat_wb m) (hw_wb rm) \<and>
     blks_wf (cat_ctl m) (ctl_blks rm) \<and> blks_wf (cat_dspp m) (dspp_blks rm) \<and>
     blks_wf (cat_dsc m) (dsc_blks rm)"

lemma rm_wf_zero: "rm_wf m rm_zero"
  by (simp add: rm_wf_def rm_shape_def rm_zero_def)

lemma rm_wf_set:
  "rm_wf m rm \<Longrightarrow> built_from (cat_mixer m) idx hw1 \<Longrightarrow> idx \<noteq> 0 \<Longrightarrow>
     rm_wf m (rm\<lparr>mixer_blks := (mixer_blks rm)[unat (idx - 1) := Some hw1]\<rparr>)"
  "rm_wf m rm \<Longrightarrow> built_from (cat_merge_3d m) idx hw2 \<Longrightarrow> idx \<noteq> 0 \<Longrightarrow>
     rm_wf m (rm\<lparr>merge_3d_blks := (merge_3d_blks rm)[unat (idx - 1) := Some hw2]\<rparr>)"
  "rm_wf m rm \<Longrightarrow> built_from (cat_pingpong m) idx hw3 \<Longrightarrow> idx \<noteq> 0 \<Longrightarrow>
     rm_wf m (rm\<lparr>pingpong_blks := (pingpong_blks rm)[unat (idx - 1) := Some hw3]\<rparr>)"
  "rm_wf m rm \<Longrightarrow> built_from (cat_intf m) idx hw4 \<Longrightarrow> idx \<noteq> 0 \<Longrightarrow>
     rm_wf m (rm\<lparr>hw_intf := (hw_intf rm)[unat (idx - 1) := Some hw4]\<rparr>)"
  "rm_wf m rm \<Longrightarrow> built_from (cat_wb m) idx hw5 \<Longrightarrow> idx \<noteq> 0 \<Longrightarrow>
     rm_wf m (rm\<lparr>hw_wb := (hw_wb rm)[unat (idx - 1) := Some hw5]\<rparr>)"
  "rm_wf m rm \<Longrightarrow> built_from (cat_ctl m) idx hw6 \<Longrightarrow> idx \<noteq> 0 \<Longrightarrow>
     rm_wf m (rm\<lparr>ctl_blks := (ctl_blks rm)[unat (idx - 1) := Some hw6]\<rparr>)"
  "rm_wf m rm \<Longrightarrow> built_from (cat_dspp m) idx hw7 \<Longrightarrow> idx \<noteq> 0 \<Longrightarrow>
     rm_wf m (rm\<lparr>dspp_blks := (dspp_blks rm)[unat (idx - 1) := Some hw7]\<rparr>)"
  "rm_wf m rm \<Longrightarrow> built_from (cat_dsc m) idx hw8 \<Longrightarrow> idx \<noteq> 0 \<Longrightarrow>
     rm_wf m (rm\<lparr>dsc_blks := (dsc_blks rm)[unat (idx - 1) := Some hw8]\<rparr>)"
  by (simp_all add: rm_wf_def rm_shape_def blks_wf_built)

lemma built_from_merge [simp]: "built_from cfgs idx (hw\<lparr>hw_merge_3d := x\<rparr>) = built_from cfgs idx hw"
  by (simp add: built_from_def)

lemma init_mixers_wf: "rm_wf m rm \<Longrightarrow> rm_wf m (snd (init_mixers kz m mmio i cs rm))"
  by (induction cs arbitrary: i rm)
    (auto simp: Let_def rm_wf_set dest!: built split: sum.splits)

lemma init_merge_3ds_wf: "rm_wf m rm \<Longrightarrow> rm_wf m (snd (init_merge_3ds kz m mmio i cs rm))"
  by (induction cs arbitrary: i rm)
    (auto simp: Let_def rm_wf_set dest!: built split: sum.splits)

lemma init_pingpongs_wf: "rm_wf m rm \<Longrightarrow> rm_wf m (snd (init_pingpongs kz m mmio i cs rm))"
  by (induction cs arbitrary: i rm)
    (auto simp: Let_def rm_wf_set dest!: built split: sum.splits)

lemma init_intfs_wf: "rm_wf m rm \<Longrightarrow> rm_wf m (snd (init_intfs kz m mmio i cs rm))"
  by (induction cs arbitrary: i rm)
    (auto simp: Let_def rm_wf_set dest!: built split: sum.splits)

lemma init_wbs_wf: "rm_wf m rm \<Longrightarrow> rm_wf m (snd (init_wbs kz m mmio i cs rm))"
  by (induction cs arbitrary: i rm)
    (auto simp: Let_def rm_wf_set dest!: built split: sum.splits)

lemma init_ctls_wf: "rm_wf m rm \<Longrightarrow> rm_wf m (snd (init_ctls kz m mmio i cs rm))"
  by (induction cs arbitrary: i rm)
    (auto simp: Let_def rm_wf_set dest!: built split: sum.splits)

lemma init_dspps_wf: "rm_wf m rm \<Longrightarrow> rm_wf m (snd (init_dspps kz m mmio i cs rm))"
  by (induction cs arbitrary: i rm)
    (auto simp: Let_def rm_wf_set dest!: built split: sum.splits)

lemma init_dscs_wf:
  assumes "rm_wf m rm" and "init_dscs kz m mmio i cs rm = Some (rc, rm')"
  shows "rm_wf m rm'"
  using assms
proof (induction kz m mmio i cs rm rule: init_dscs.induct)
  case (2 kz m mmio i c cs rm)
  show ?case
  proof (cases "dpu_hw_dsc_init (kz DPU_HW_BLK_DSC i) (blk_id c) mmio m")
    case (Inr hw)
    have "blk_id c \<noteq> 0"
      using 2 Inr by (auto simp: arr_set_def rm_wf_def rm_shape_def split: if_splits)
    then show ?thesis using 2 Inr built(8) [OF Inr]
      by (auto simp: rm_wf_set arr_set_def split: if_splits)
  qed (use 2 in auto)
qed auto

lemma and_then_wf: "rm_wf m (snd r) \<Longrightarrow> (\<And>rm. rm_wf m rm \<Longrightarrow> rm_wf m (snd (f rm))) \<Longrightarrow> rm_wf m (snd (and_then r f))"
  by (cases "(r, f)" rule: and_then.cases) auto

lemma init_blocks_wf: "rm_wf m (snd (init_blocks kz m mmio))"
  unfolding init_blocks_def
  by (intro and_then_wf init_mixers_wf init_merge_3ds_wf init_pingpongs_wf init_intfs_wf
      init_wbs_wf init_ctls_wf init_dspps_wf rm_wf_zero)

lemma rm_init_wf:
  assumes "dpu_rm_init kz rm0 (Some m) mmio = Some (rc, rm, freed)" and "mmio \<noteq> 0"
  shows "rm_wf m rm"
  using assms init_blocks_wf [of m kz mmio]
  by (auto simp: dpu_rm_init_def rm_fail_def dest: init_dscs_wf
      split: option.splits prod.splits if_splits)

text \<open>
  C5: after a successful \<^verbatim>\<open>dpu_rm_init\<close> nothing was freed, the tables have their declared
  sizes, and every block sits at the position of its identifier and describes an entry of
  the catalogue with that identifier.
\<close>

theorem dpu_rm_init_well_formed:
  assumes "dpu_rm_init kz rm0 (Some m) mmio = Some (0, rm, freed)"
  shows "freed = [] \<and> rm_wf m rm"
proof -
  have "mmio \<noteq> 0" using assms by (auto simp: dpu_rm_init_def)
  with assms have "rm_wf m rm" by (rule rm_init_wf)
  moreover have "freed = []"
    using assms by (auto simp: dpu_rm_init_def rm_fail_def split: option.splits prod.splits if_splits)
  ultimately show ?thesis by simp
qed

theorem dpu_rm_init_well_formed_witness:
  "\<exists>rm. dpu_rm_init (\<lambda>_ _. True) rm_zero (Some ex_cat) 4096 = Some (0, rm, []) \<and> rm_wf ex_cat rm"
proof -
  have "\<exists>rm. dpu_rm_init (\<lambda>_ _. True) rm_zero (Some ex_cat) 4096 = Some (0, rm, [])"
    by (simp add: dpu_rm_init_def init_blocks_def ex_cat_def ex_defs init_defs arr_set_def)
  then show ?thesis using dpu_rm_init_well_formed by blast
qed

text \<open>The blocks a table holds, by identifier.\<close>

lemma set_blks_of: "(t', x) \<in> set (blks_of t bs) \<longleftrightarrow> t' = t \<and> (\<exists>hw. Some hw \<in> set bs \<and> hw_idx hw = x)"
  by (auto simp: blks_of_def split: option.splits)

lemma distinct_blks_of:
  assumes "blks_wf cfgs bs"
  shows "distinct (blks_of t bs)"
proof -
  have "sorted_wrt (<) (map (unat \<circ> snd) (blks_of t bs)) \<and> (\<forall>y\<in>set (map (unat \<circ> snd) (blks_of t bs)). n < y)"
    if "\<forall>i hw. i < length bs \<longrightarrow> bs ! i = Some hw \<longrightarrow> unat (hw_idx hw) = Suc (n + i)" for n
    using that
  proof (induction bs arbitrary: n)
    case Nil
    then show ?case by (simp add: blks_of_def)
  next
    case (Cons b bs)
    have "\<forall>i hw. i < length bs \<longrightarrow> bs ! i = Some hw \<longrightarrow> unat (hw_idx hw) = Suc (Suc n + i)"
      using Cons.prems by fastforce
    from Cons.IH [OF this] show ?case
      using Cons.prems [rule_format, of 0] by (fastforce simp: blks_of_def split: option.splits)
  qed
  from this [of 0] assms have "sorted_wrt (<) (map (unat \<circ> snd) (blks_of t bs))"
    by (auto simp: blks_wf_def)
  then have "distinct (map (unat \<circ> snd) (blks_of t bs))" by (simp add: strict_sorted_iff)
  then show ?thesis by (simp add: distinct_map)
qed

fun holds_block :: "dpu_rm \<Rightarrow> dpu_hw_blk_type \<Rightarrow> u32 \<Rightarrow> bool" where
  "holds_block rm DPU_HW_BLK_LM x = (\<exists>hw. Some hw \<in> set (mixer_blks rm) \<and> hw_idx hw = x)"
| "holds_block rm DPU_HW_BLK_CTL x = (\<exists>hw. Some hw \<in> set (ctl_blks rm) \<and> hw_idx hw = x)"
| "holds_block rm DPU_HW_BLK_PINGPONG x = (\<exists>hw. Some hw \<in> set (pingpong_blks rm) \<and> hw_idx hw = x)"
| "holds_block rm DPU_HW_BLK_INTF x = (\<exists>hw. Some hw \<in> set (hw_intf rm) \<and> hw_idx hw = x)"
| "holds_block rm DPU_HW_BLK_WB x = (\<exists>hw. Some hw \<in> set (hw_wb rm) \<and> hw_idx hw = x)"
| "holds_block rm DPU_HW_BLK_DSPP x = (\<exists>hw. Some hw \<in> set (dspp_blks rm) \<and> hw_idx hw = x)"
| "holds_block rm DPU_HW_BLK_MERGE_3D x = (\<exists>hw. Some hw \<in> set (merge_3d_blks rm) \<and> hw_idx hw = x)"
| "holds_block rm DPU_HW_BLK_DSC x = (\<exists>hw. Some hw \<in> set (dsc_blks rm) \<and> hw_idx hw = x)"
| "holds_block rm _ x = False"

lemma set_destroy: "(t, x) \<in> set (dpu_rm_destroy rm) \<longleftrightarrow> holds_block rm t x"
  by (cases t) (auto simp: dpu_rm_destroy_def set_blks_of)

text \<open>
  A failing \<^verbatim>\<open>dpu_rm_init\<close> frees each block the tables hold exactly once, and nothing else.
\<close>

theorem dpu_rm_init_failure_frees_once:
  assumes "dpu_rm_init kz rm0 (Some m) mmio = Some (rc, rm, freed)" and "rc \<noteq> 0" and "mmio \<noteq> 0"
  shows "distinct freed \<and> (\<forall>t x. (t, x) \<in> set freed \<longleftrightarrow> holds_block rm t x)"
proof -
  have wf: "rm_wf m rm" using assms(1,3) by (rule rm_init_wf)
  have "distinct (dpu_rm_destroy rm)"
    using wf unfolding rm_wf_def dpu_rm_destroy_def
    by (auto simp: distinct_blks_of set_blks_of)
  moreover have "freed = dpu_rm_destroy rm"
    using assms by (auto simp: dpu_rm_init_def rm_fail_def split: option.splits prod.splits if_splits)
  ultimately show ?thesis by (simp add: set_destroy)
qed

theorem dpu_rm_init_failure_frees_once_witness:
  "\<exists>rm. dpu_rm_init (\<lambda>t _. t \<noteq> DPU_HW_BLK_CTL) rm_zero (Some ex_cat) 4096 =
     Some (- ENOMEM, rm, [(DPU_HW_BLK_LM, 1), (DPU_HW_BLK_LM, 2)]) \<and> holds_block rm DPU_HW_BLK_LM 2"
proof -
  have "\<exists>rm. dpu_rm_init (\<lambda>t _. t \<noteq> DPU_HW_BLK_CTL) rm_zero (Some ex_cat) 4096 =
     Some (- ENOMEM, rm, [(DPU_HW_BLK_LM, 1), (DPU_HW_BLK_LM, 2)])"
    by (simp add: dpu_rm_init_def init_blocks_def ex_cat_def ex_defs init_defs rm_fail_def
        dpu_rm_destroy_def blks_of_def ex_replicate)
      (simp add: word_le_nat_alt)
  then obtain rm where rm: "dpu_rm_init (\<lambda>t _. t \<noteq> DPU_HW_BLK_CTL) rm_zero (Some ex_cat) 4096 =
     Some (- ENOMEM, rm, [(DPU_HW_BLK_LM, 1), (DPU_HW_BLK_LM, 2)])" ..
  then have "holds_block rm DPU_HW_BLK_LM 2"
    using dpu_rm_init_failure_frees_once [OF rm] by (auto simp del: holds_block.simps)
  with rm show ?thesis by blast
qed

end
