(* ===== verification/Sched.thy ===== *)
theory Sched
  imports Prelude
begin

text \<open>
  The GPU scheduler (\<^verbatim>\<open>scheduler/sched_main.c\<close>, \<^verbatim>\<open>sched_entity.c\<close>, \<^verbatim>\<open>sched_fence.c\<close>):
  entities with job queues, run queues per priority, the selection of the next entity, job
  dependencies, the pending list with its timeout, and recovery.

  The objects the C code reaches through pointers live in a store (\<open>world\<close>) of schedulers,
  entities, jobs and shared counters, addressed by numbers.  The \<^verbatim>\<open>dma_fence\<close> subsystem of
  the kernel is not part of the repository: it is a parameter, a record \<open>dma_ops\<close> of its
  operations over an abstract state; so is the driver's \<^verbatim>\<open>run_job\<close> callback.  The driver's
  optional \<^verbatim>\<open>dependency\<close> callback is absent, as it is in \<^verbatim>\<open>msm_sched_ops\<close>.
\<close>

section \<open>Data (gpu_scheduler.h)\<close>

text \<open>A fence pointer: an external fence, or one of the two fences of a job's scheduler fence.\<close>

datatype fence = Ext nat | Scheduled nat | Finished nat

text \<open>
  The callback nodes the scheduler registers (\<^verbatim>\<open>job->cb\<close>, \<^verbatim>\<open>job->finish_cb\<close>, \<^verbatim>\<open>entity->cb\<close>)
  and the functions it registers them with.
\<close>

datatype cb_node = job_cb nat | job_finish_cb nat | entity_cb nat

datatype cb_func = drm_sched_job_done_cb | drm_sched_entity_clear_dep_cb
  | drm_sched_entity_wakeup_cb | drm_sched_entity_kill_jobs_cb

record 'f dma_ops =
  f_is_signaled :: "fence \<Rightarrow> 'f \<Rightarrow> bool"
  f_is_later :: "fence \<Rightarrow> fence \<Rightarrow> 'f \<Rightarrow> bool"
  f_ext_context :: "nat \<Rightarrow> u64"
  f_init :: "fence \<Rightarrow> 'f \<Rightarrow> 'f"
  f_signal :: "fence \<Rightarrow> 'f \<Rightarrow> 'f"
  f_wait :: "fence \<Rightarrow> 'f \<Rightarrow> 'f"
  f_set_error :: "fence \<Rightarrow> int \<Rightarrow> 'f \<Rightarrow> 'f"
  f_add_callback :: "fence \<Rightarrow> cb_node \<Rightarrow> cb_func \<Rightarrow> 'f \<Rightarrow> int \<times> 'f"
  f_remove_callback :: "fence \<Rightarrow> cb_node \<Rightarrow> 'f \<Rightarrow> bool \<times> 'f"

text \<open>What \<^verbatim>\<open>run_job\<close> returns: a null pointer, an error pointer or a fence.\<close>

datatype run_result = RunNull | RunErr int | RunFence fence

type_synonym 'f run_job = "nat \<Rightarrow> 'f \<Rightarrow> run_result \<times> 'f"

text \<open>Priorities index the run queues: MIN, NORMAL, HIGH and KERNEL are 0 to 3.\<close>

definition DRM_SCHED_PRIORITY_KERNEL :: nat where
  "DRM_SCHED_PRIORITY_KERNEL = 3"

definition DRM_SCHED_PRIORITY_COUNT :: nat where
  "DRM_SCHED_PRIORITY_COUNT = 4"

text \<open>A run queue pointer: the scheduler and the position in its array.\<close>

type_synonym rq_ptr = "nat \<times> nat"

record drm_sched_entity =
  e_linked :: bool \<comment> \<open>the list node is on a list: not \<^verbatim>\<open>list_empty(&entity->list)\<close>\<close>
  e_rq :: "rq_ptr option"
  e_sched_list :: "nat option list option" \<comment> \<open>null, or an array of pointers\<close>
  e_num_sched_list :: u32
  e_priority :: nat
  e_job_queue :: "nat list"
  e_fence_seq :: u32
  e_fence_context :: u64
  e_dependency :: "fence option"
  e_guilty :: "nat option" \<comment> \<open>the counter \<^verbatim>\<open>guilty\<close> points to\<close>
  e_last_scheduled :: "fence option"
  e_last_user :: "nat option"
  e_stopped :: bool
  e_idle :: nat \<comment> \<open>the completion \<^verbatim>\<open>entity_idle\<close>\<close>

record drm_sched_rq =
  rq_entities :: "nat list"
  rq_current :: "nat option"

record drm_sched_fence =
  sf_sched :: "nat option"
  sf_context :: u64 \<comment> \<open>of \<^verbatim>\<open>scheduled\<close>; \<^verbatim>\<open>finished\<close> has the next one\<close>
  sf_seqno :: u32
  sf_parent :: "fence option"

record drm_sched_job =
  j_sched :: nat
  j_s_fence :: "drm_sched_fence option"
  j_id :: u64
  j_karma :: u32
  j_s_priority :: nat
  j_entity :: nat
  j_dependencies :: "fence option list" \<comment> \<open>the array by index, null where erased\<close>
  j_last_dependency :: nat

record drm_gpu_scheduler =
  hw_submission_limit :: u32
  timeout :: u64
  sched_rq :: "drm_sched_rq list"
  hw_rq_count :: u32
  job_id_count :: u64
  tdr_pending :: bool \<comment> \<open>the delayed work \<^verbatim>\<open>work_tdr\<close> is queued\<close>
  tdr_expires :: u64
  thread :: bool \<comment> \<open>the kernel thread runs\<close>
  thread_parked :: bool
  pending_list :: "nat list"
  hang_limit :: int
  score :: nat \<comment> \<open>the counter \<^verbatim>\<open>score\<close> points to\<close>
  ready :: bool
  free_guilty :: bool

datatype drm_gpu_sched_stat =
    DRM_GPU_SCHED_STAT_NONE | DRM_GPU_SCHED_STAT_NOMINAL | DRM_GPU_SCHED_STAT_ENODEV

record 'f world =
  scheds :: "nat \<Rightarrow> drm_gpu_scheduler"
  ents :: "nat \<Rightarrow> drm_sched_entity"
  jobs :: "nat \<Rightarrow> drm_sched_job"
  cells :: "nat \<Rightarrow> u32" \<comment> \<open>atomic counters\<close>
  fs :: 'f
  kill_work :: "nat list" \<comment> \<open>jobs whose \<^verbatim>\<open>drm_sched_entity_kill_jobs_work\<close> is scheduled\<close>
  freed :: "nat list" \<comment> \<open>jobs passed to \<^verbatim>\<open>free_job\<close>, in order\<close>

definition upd_sched :: "nat \<Rightarrow> (drm_gpu_scheduler \<Rightarrow> drm_gpu_scheduler) \<Rightarrow> 'f world \<Rightarrow> 'f world" where
  "upd_sched s f w = w\<lparr>scheds := (scheds w)(s := f (scheds w s))\<rparr>"

definition upd_ent :: "nat \<Rightarrow> (drm_sched_entity \<Rightarrow> drm_sched_entity) \<Rightarrow> 'f world \<Rightarrow> 'f world" where
  "upd_ent e f w = w\<lparr>ents := (ents w)(e := f (ents w e))\<rparr>"

definition upd_job :: "nat \<Rightarrow> (drm_sched_job \<Rightarrow> drm_sched_job) \<Rightarrow> 'f world \<Rightarrow> 'f world" where
  "upd_job j f w = w\<lparr>jobs := (jobs w)(j := f (jobs w j))\<rparr>"

definition upd_cell :: "nat \<Rightarrow> (u32 \<Rightarrow> u32) \<Rightarrow> 'f world \<Rightarrow> 'f world" where
  "upd_cell c f w = w\<lparr>cells := (cells w)(c := f (cells w c))\<rparr>"

definition upd_rq :: "rq_ptr \<Rightarrow> (drm_sched_rq \<Rightarrow> drm_sched_rq) \<Rightarrow> 'f world \<Rightarrow> 'f world" where
  "upd_rq r f w = upd_sched (fst r)
     (\<lambda>s. s\<lparr>sched_rq := (sched_rq s)[snd r := f (sched_rq s ! snd r)]\<rparr>) w"

definition the_rq :: "'f world \<Rightarrow> rq_ptr \<Rightarrow> drm_sched_rq" where
  "the_rq w r = sched_rq (scheds w (fst r)) ! snd r"

text \<open>\<^verbatim>\<open>atomic_inc\<close> and \<^verbatim>\<open>atomic_dec\<close> on the counter a scheduler's \<^verbatim>\<open>score\<close> points to.\<close>

definition score_inc :: "nat \<Rightarrow> 'f world \<Rightarrow> 'f world" where
  "score_inc s w = upd_cell (score (scheds w s)) (\<lambda>c. c + 1) w"

definition score_dec :: "nat \<Rightarrow> 'f world \<Rightarrow> 'f world" where
  "score_dec s w = upd_cell (score (scheds w s)) (\<lambda>c. c - 1) w"

section \<open>Fences (sched_fence.c)\<close>

definition drm_sched_fence_scheduled :: "'f dma_ops \<Rightarrow> nat \<Rightarrow> 'f world \<Rightarrow> 'f world" where
  "drm_sched_fence_scheduled D j w = w\<lparr>fs := f_signal D (Scheduled j) (fs w)\<rparr>"

definition drm_sched_fence_finished :: "'f dma_ops \<Rightarrow> nat \<Rightarrow> 'f world \<Rightarrow> 'f world" where
  "drm_sched_fence_finished D j w = w\<lparr>fs := f_signal D (Finished j) (fs w)\<rparr>"

text \<open>The job whose scheduler fence a fence belongs to, if it is one.\<close>

fun to_drm_sched_fence :: "fence \<Rightarrow> nat option" where
  "to_drm_sched_fence (Ext n) = None"
| "to_drm_sched_fence (Scheduled j) = Some j"
| "to_drm_sched_fence (Finished j) = Some j"

text \<open>The context of a fence; a scheduler fence that was never initialised has context 0.\<close>

definition sf_of :: "'f world \<Rightarrow> nat \<Rightarrow> drm_sched_fence" where
  "sf_of w j = (case j_s_fence (jobs w j) of Some sf \<Rightarrow> sf
     | None \<Rightarrow> \<lparr>sf_sched = None, sf_context = 0, sf_seqno = 0, sf_parent = None\<rparr>)"

fun fence_context :: "'f dma_ops \<Rightarrow> 'f world \<Rightarrow> fence \<Rightarrow> u64" where
  "fence_context D w (Ext n) = f_ext_context D n"
| "fence_context D w (Scheduled j) = sf_context (sf_of w j)"
| "fence_context D w (Finished j) = sf_context (sf_of w j) + 1"

definition drm_sched_fence_alloc :: "bool \<Rightarrow> drm_sched_fence option" where
  "drm_sched_fence_alloc kz = (if kz
     then Some \<lparr>sf_sched = None, sf_context = 0, sf_seqno = 0, sf_parent = None\<rparr> else None)"

definition drm_sched_fence_init :: "'f dma_ops \<Rightarrow> nat \<Rightarrow> nat \<Rightarrow> 'f world \<Rightarrow> 'f world" where
  "drm_sched_fence_init D j e w =
     (let seq = e_fence_seq (ents w e) + 1;
          w1 = upd_ent e (\<lambda>x. x\<lparr>e_fence_seq := seq\<rparr>)
                 (w\<lparr>fs := f_init D (Finished j) (f_init D (Scheduled j) (fs w))\<rparr>)
      in upd_job j (\<lambda>x. x\<lparr>j_s_fence := Some ((sf_of w j)\<lparr>sf_sched := map_option fst (e_rq (ents w e)),
           sf_context := e_fence_context (ents w e), sf_seqno := seq\<rparr>)\<rparr>) w1)"

section \<open>Run queues (sched_main.c)\<close>

definition drm_sched_rq_init :: drm_sched_rq where
  "drm_sched_rq_init = \<lparr>rq_entities = [], rq_current = None\<rparr>"

definition drm_sched_rq_add_entity :: "rq_ptr \<Rightarrow> nat \<Rightarrow> 'f world \<Rightarrow> 'f world" where
  "drm_sched_rq_add_entity r e w =
     (if e_linked (ents w e) then w
      else upd_ent e (\<lambda>x. x\<lparr>e_linked := True\<rparr>)
        (upd_rq r (\<lambda>q. q\<lparr>rq_entities := rq_entities q @ [e]\<rparr>) (score_inc (fst r) w)))"

definition drm_sched_rq_remove_entity :: "rq_ptr \<Rightarrow> nat \<Rightarrow> 'f world \<Rightarrow> 'f world" where
  "drm_sched_rq_remove_entity r e w =
     (if \<not> e_linked (ents w e) then w
      else upd_ent e (\<lambda>x. x\<lparr>e_linked := False\<rparr>)
        (upd_rq r (\<lambda>q. q\<lparr>rq_entities := removeAll e (rq_entities q),
             rq_current := (if rq_current q = Some e then None else rq_current q)\<rparr>)
          (score_dec (fst r) w)))"

definition drm_sched_entity_is_ready :: "drm_sched_entity \<Rightarrow> bool" where
  "drm_sched_entity_is_ready x =
     (if e_job_queue x = [] then False else if e_dependency x \<noteq> None then False else True)"

text \<open>
  The two scans of \<^verbatim>\<open>drm_sched_rq_select_entity\<close>: the entities after the current one, then
  all of them from the head up to and including the current one.
\<close>

fun scan_to :: "(nat \<Rightarrow> bool) \<Rightarrow> nat option \<Rightarrow> nat list \<Rightarrow> nat option" where
  "scan_to rdy cur [] = None"
| "scan_to rdy cur (e # es) = (if rdy e then Some e else if Some e = cur then None else scan_to rdy cur es)"

definition after :: "nat \<Rightarrow> nat list \<Rightarrow> nat list" where
  "after c es = tl (dropWhile (\<lambda>x. x \<noteq> c) es)"

definition rq_pick :: "(nat \<Rightarrow> bool) \<Rightarrow> drm_sched_rq \<Rightarrow> nat option" where
  "rq_pick rdy q = (case rq_current q of
     None \<Rightarrow> scan_to rdy None (rq_entities q)
   | Some c \<Rightarrow> (case find rdy (after c (rq_entities q)) of
        Some e \<Rightarrow> Some e
      | None \<Rightarrow> scan_to rdy (Some c) (rq_entities q)))"

definition drm_sched_rq_select_entity :: "rq_ptr \<Rightarrow> 'f world \<Rightarrow> nat option \<times> 'f world" where
  "drm_sched_rq_select_entity r w =
     (case rq_pick (\<lambda>e. drm_sched_entity_is_ready (ents w e)) (the_rq w r) of
        None \<Rightarrow> (None, w)
      | Some e \<Rightarrow> (Some e, upd_ent e (\<lambda>x. x\<lparr>e_idle := 0\<rparr>) (upd_rq r (\<lambda>q. q\<lparr>rq_current := Some e\<rparr>) w)))"

section \<open>Jobs in flight (sched_main.c)\<close>

text \<open>
  The scheduler of a job's fence; it is set when the job is armed, before the job can reach
  any function that reads it.
\<close>

definition fence_sched :: "'f world \<Rightarrow> nat \<Rightarrow> nat" where
  "fence_sched w j = the (sf_sched (sf_of w j))"

definition drm_sched_job_done :: "'f dma_ops \<Rightarrow> nat \<Rightarrow> 'f world \<Rightarrow> 'f world" where
  "drm_sched_job_done D j w =
     (let s = fence_sched w j;
          w1 = upd_sched s (\<lambda>x. x\<lparr>hw_rq_count := hw_rq_count x - 1\<rparr>) w;
          w2 = score_dec s w1
      in drm_sched_fence_finished D j w2)"

definition drm_sched_dependency_optimized :: "'f dma_ops \<Rightarrow> fence option \<Rightarrow> nat \<Rightarrow> 'f world \<Rightarrow> bool" where
  "drm_sched_dependency_optimized D fo e w = (case fo of
     None \<Rightarrow> False
   | Some f \<Rightarrow>
      (if f_is_signaled D f (fs w) then False
       else if fence_context D w f = e_fence_context (ents w e) then True
       else (case to_drm_sched_fence f of
               None \<Rightarrow> False
             | Some j \<Rightarrow> sf_sched (sf_of w j) = map_option fst (e_rq (ents w e)))))"

text \<open>
  The delayed work \<^verbatim>\<open>work_tdr\<close>: queueing leaves a pending work alone, modifying re-arms it
  (and reports whether it was pending), at \<open>now\<close> (\<^verbatim>\<open>jiffies\<close>) plus the delay.
\<close>

definition MAX_SCHEDULE_TIMEOUT :: u64 where
  "MAX_SCHEDULE_TIMEOUT = 9223372036854775807"

definition queue_delayed_work :: "u64 \<Rightarrow> u64 \<Rightarrow> drm_gpu_scheduler \<Rightarrow> drm_gpu_scheduler" where
  "queue_delayed_work now delay s =
     (if tdr_pending s then s else s\<lparr>tdr_pending := True, tdr_expires := now + delay\<rparr>)"

definition mod_delayed_work :: "u64 \<Rightarrow> u64 \<Rightarrow> drm_gpu_scheduler \<Rightarrow> bool \<times> drm_gpu_scheduler" where
  "mod_delayed_work now delay s = (tdr_pending s, s\<lparr>tdr_pending := True, tdr_expires := now + delay\<rparr>)"

definition cancel_delayed_work :: "drm_gpu_scheduler \<Rightarrow> drm_gpu_scheduler" where
  "cancel_delayed_work s = s\<lparr>tdr_pending := False\<rparr>"

definition drm_sched_start_timeout :: "u64 \<Rightarrow> drm_gpu_scheduler \<Rightarrow> drm_gpu_scheduler" where
  "drm_sched_start_timeout now s =
     (if timeout s \<noteq> MAX_SCHEDULE_TIMEOUT \<and> pending_list s \<noteq> []
      then queue_delayed_work now (timeout s) s else s)"

definition drm_sched_fault :: "u64 \<Rightarrow> drm_gpu_scheduler \<Rightarrow> drm_gpu_scheduler" where
  "drm_sched_fault now s = snd (mod_delayed_work now 0 s)"

text \<open>\<^verbatim>\<open>time_after(a, b)\<close>: the signed difference is negative.\<close>

definition time_after :: "u64 \<Rightarrow> u64 \<Rightarrow> bool" where
  "time_after a b \<longleftrightarrow> sint (b - a) < 0"

definition drm_sched_suspend_timeout :: "u64 \<Rightarrow> drm_gpu_scheduler \<Rightarrow> u64 \<times> drm_gpu_scheduler" where
  "drm_sched_suspend_timeout now s =
     (let sched_timeout = tdr_expires s;
          (was, s') = mod_delayed_work now MAX_SCHEDULE_TIMEOUT s
      in if was \<and> time_after sched_timeout now then (sched_timeout - now, s') else (timeout s, s'))"

definition drm_sched_resume_timeout :: "u64 \<Rightarrow> u64 \<Rightarrow> drm_gpu_scheduler \<Rightarrow> drm_gpu_scheduler" where
  "drm_sched_resume_timeout now remaining s =
     (if pending_list s = [] then cancel_delayed_work s else snd (mod_delayed_work now remaining s))"

definition drm_sched_job_begin :: "u64 \<Rightarrow> nat \<Rightarrow> 'f world \<Rightarrow> 'f world" where
  "drm_sched_job_begin now j w = upd_sched (j_sched (jobs w j))
     (\<lambda>s. drm_sched_start_timeout now (s\<lparr>pending_list := pending_list s @ [j]\<rparr>)) w"

definition free_job :: "nat \<Rightarrow> 'f world \<Rightarrow> 'f world" where
  "free_job j w = w\<lparr>freed := freed w @ [j]\<rparr>"

text \<open>\<open>timedout_job\<close> is the driver's callback: any effect, and a status.\<close>

definition drm_sched_job_timedout :: "(nat \<Rightarrow> 'f world \<Rightarrow> drm_gpu_sched_stat \<times> 'f world) \<Rightarrow> u64 \<Rightarrow> nat \<Rightarrow> 'f world \<Rightarrow> 'f world" where
  "drm_sched_job_timedout timedout_job now s w =
     (let (status, w3) = (case pending_list (scheds w s) of
            [] \<Rightarrow> (DRM_GPU_SCHED_STAT_NOMINAL, w)
          | job # rest \<Rightarrow>
              (let w1 = upd_sched s (\<lambda>x. x\<lparr>pending_list := rest\<rparr>) w;
                   (st, w2) = timedout_job job w1
               in if free_guilty (scheds w2 s)
                  then (st, upd_sched s (\<lambda>x. x\<lparr>free_guilty := False\<rparr>) (free_job job w2))
                  else (st, w2)))
      in if status \<noteq> DRM_GPU_SCHED_STAT_ENODEV
         then upd_sched s (drm_sched_start_timeout now) w3 else w3)"

text \<open>The loop of \<^verbatim>\<open>drm_sched_stop\<close>, over the pending jobs from the last to the first.\<close>

fun stop_jobs :: "'f dma_ops \<Rightarrow> nat \<Rightarrow> nat option \<Rightarrow> nat list \<Rightarrow> 'f world \<Rightarrow> 'f world" where
  "stop_jobs D s bad [] w = w"
| "stop_jobs D s bad (j # js) w =
     (let (removed, w1) = (case sf_parent (sf_of w j) of
            None \<Rightarrow> (False, w)
          | Some p \<Rightarrow> (let (b, f') = f_remove_callback D p (job_cb j) (fs w)
                      in (b, w\<lparr>fs := f'\<rparr>)))
      in stop_jobs D s bad js
           (if removed then upd_sched s (\<lambda>x. x\<lparr>hw_rq_count := hw_rq_count x - 1\<rparr>) w1
            else let w2 = upd_sched s (\<lambda>x. x\<lparr>pending_list := removeAll j (pending_list x)\<rparr>)
                            (w1\<lparr>fs := f_wait D (Finished j) (fs w1)\<rparr>)
                 in if bad \<noteq> Some j then free_job j w2
                    else upd_sched s (\<lambda>x. x\<lparr>free_guilty := True\<rparr>) w2))"

definition drm_sched_stop :: "'f dma_ops \<Rightarrow> nat \<Rightarrow> nat option \<Rightarrow> 'f world \<Rightarrow> 'f world" where
  "drm_sched_stop D s bad w =
     (let w1 = upd_sched s (\<lambda>x. x\<lparr>thread_parked := True\<rparr>) w;
          w2 = (case bad of
                  Some b \<Rightarrow> if j_sched (jobs w1 b) = s
                    then upd_sched s (\<lambda>x. x\<lparr>pending_list := b # pending_list x\<rparr>) w1 else w1
                | None \<Rightarrow> w1);
          w3 = stop_jobs D s bad (rev (pending_list (scheds w2 s))) w2
      in upd_sched s cancel_delayed_work w3)"

text \<open>Registering \<^verbatim>\<open>drm_sched_job_done_cb\<close>; \<^verbatim>\<open>-ENOENT\<close> says the fence has signalled already.\<close>

definition attach_done :: "'f dma_ops \<Rightarrow> fence \<Rightarrow> nat \<Rightarrow> 'f world \<Rightarrow> 'f world" where
  "attach_done D f j w =
     (let (r, f') = f_add_callback D f (job_cb j) drm_sched_job_done_cb (fs w);
          w1 = w\<lparr>fs := f'\<rparr>
      in if r = - ENOENT then drm_sched_job_done D j w1 else w1)"

fun start_jobs :: "'f dma_ops \<Rightarrow> nat \<Rightarrow> bool \<Rightarrow> nat list \<Rightarrow> 'f world \<Rightarrow> 'f world" where
  "start_jobs D s full [] w = w"
| "start_jobs D s full (j # js) w =
     (let w1 = upd_sched s (\<lambda>x. x\<lparr>hw_rq_count := hw_rq_count x + 1\<rparr>) w
      in start_jobs D s full js
           (if \<not> full then w1
            else (case sf_parent (sf_of w j) of
                    Some f \<Rightarrow> attach_done D f j w1
                  | None \<Rightarrow> drm_sched_job_done D j w1)))"

definition drm_sched_start :: "'f dma_ops \<Rightarrow> u64 \<Rightarrow> nat \<Rightarrow> bool \<Rightarrow> 'f world \<Rightarrow> 'f world" where
  "drm_sched_start D now s full w =
     (let w1 = start_jobs D s full (pending_list (scheds w s)) w;
          w2 = (if full then upd_sched s (drm_sched_start_timeout now) w1 else w1)
      in upd_sched s (\<lambda>x. x\<lparr>thread_parked := False\<rparr>) w2)"

fun resubmit :: "'f dma_ops \<Rightarrow> 'f run_job \<Rightarrow> nat \<Rightarrow> int \<Rightarrow> int \<Rightarrow> u64 option \<Rightarrow> nat list \<Rightarrow> 'f world \<Rightarrow> 'f world" where
  "resubmit D run s mx i guilty [] w = w"
| "resubmit D run s mx i guilty (j # js) w =
     (if i \<ge> mx then w
      else let g = (if guilty = None \<and> c_int (j_karma (jobs w j)) > hang_limit (scheds w s)
                    then Some (sf_context (sf_of w j)) else guilty);
               w1 = (if g = Some (sf_context (sf_of w j))
                     then w\<lparr>fs := f_set_error D (Finished j) (- ECANCELED) (fs w)\<rparr> else w);
               (res, f') = run j (fs w1);
               w2 = w1\<lparr>fs := f'\<rparr>;
               w3 = (case res of RunErr e \<Rightarrow> w2\<lparr>fs := f_set_error D (Finished j) e (fs w2)\<rparr> | _ \<Rightarrow> w2);
               p = (case res of RunFence f \<Rightarrow> Some f | _ \<Rightarrow> None)
           in resubmit D run s mx (i + 1) g js
                (upd_job j (\<lambda>x. x\<lparr>j_s_fence := Some ((sf_of w j)\<lparr>sf_parent := p\<rparr>)\<rparr>) w3))"

definition drm_sched_resubmit_jobs_ext :: "'f dma_ops \<Rightarrow> 'f run_job \<Rightarrow> nat \<Rightarrow> int \<Rightarrow> 'f world \<Rightarrow> 'f world" where
  "drm_sched_resubmit_jobs_ext D run s mx w = resubmit D run s mx 0 None (pending_list (scheds w s)) w"

definition drm_sched_resubmit_jobs :: "'f dma_ops \<Rightarrow> 'f run_job \<Rightarrow> nat \<Rightarrow> 'f world \<Rightarrow> 'f world" where
  "drm_sched_resubmit_jobs D run s w = drm_sched_resubmit_jobs_ext D run s 2147483647 w"

text \<open>Karma: counters of hangs, and the \<^verbatim>\<open>guilty\<close> mark of the entity a job came from.\<close>

fun karma_rqs :: "u64 \<Rightarrow> int \<Rightarrow> drm_sched_rq list \<Rightarrow> 'f world \<Rightarrow> 'f world" where
  "karma_rqs ctx ty [] w = w"
| "karma_rqs ctx ty (q # qs) w =
     (case find (\<lambda>e. ctx = e_fence_context (ents w e)) (rq_entities q) of
        Some e \<Rightarrow> (case e_guilty (ents w e) of
                    Some c \<Rightarrow> upd_cell c (\<lambda>_. c_u32 ty) w | None \<Rightarrow> w)
      | None \<Rightarrow> karma_rqs ctx ty qs w)"

definition drm_sched_increase_karma_ext :: "nat \<Rightarrow> int \<Rightarrow> 'f world \<Rightarrow> 'f world" where
  "drm_sched_increase_karma_ext bad ty w =
     (if j_s_priority (jobs w bad) \<noteq> DRM_SCHED_PRIORITY_KERNEL
      then let w1 = (if ty = 0 then upd_job bad (\<lambda>x. x\<lparr>j_karma := 0\<rparr>) w
                     else if ty = 1 then upd_job bad (\<lambda>x. x\<lparr>j_karma := j_karma x + 1\<rparr>) w else w)
           in karma_rqs (sf_context (sf_of w1 bad)) ty
                (take DRM_SCHED_PRIORITY_KERNEL (sched_rq (scheds w1 (j_sched (jobs w1 bad))))) w1
      else w)"

definition drm_sched_increase_karma :: "nat \<Rightarrow> 'f world \<Rightarrow> 'f world" where
  "drm_sched_increase_karma bad w = drm_sched_increase_karma_ext bad 1 w"

definition drm_sched_reset_karma :: "nat \<Rightarrow> 'f world \<Rightarrow> 'f world" where
  "drm_sched_reset_karma bad w = drm_sched_increase_karma_ext bad 0 w"

definition drm_sched_invalidate_job :: "nat option \<Rightarrow> int \<Rightarrow> 'f world \<Rightarrow> bool \<times> 'f world" where
  "drm_sched_invalidate_job jo threshold w = (case jo of
     None \<Rightarrow> (False, w)
   | Some j \<Rightarrow> (let k = j_karma (jobs w j) + 1
               in (c_int k > threshold, upd_job j (\<lambda>x. x\<lparr>j_karma := k\<rparr>) w)))"

section \<open>Choosing a scheduler (sched_main.c, sched_entity.c)\<close>

fun pick_loop :: "'f world \<Rightarrow> nat list \<Rightarrow> u32 \<Rightarrow> nat option \<Rightarrow> nat option" where
  "pick_loop w [] min_score picked = picked"
| "pick_loop w (s # ss) min_score picked =
     (if \<not> ready (scheds w s) then pick_loop w ss min_score picked
      else let num_score = cells w (score (scheds w s))
           in if num_score < min_score then pick_loop w ss num_score (Some s)
              else pick_loop w ss min_score picked)"

definition drm_sched_pick_best :: "'f world \<Rightarrow> nat option list \<Rightarrow> u32 \<Rightarrow> nat option" where
  "drm_sched_pick_best w sched_list num =
     pick_loop w (map the (take (unat num) sched_list)) 0xFFFFFFFF None"

definition drm_sched_entity_select_rq :: "'f dma_ops \<Rightarrow> nat \<Rightarrow> 'f world \<Rightarrow> 'f world" where
  "drm_sched_entity_select_rq D e w = (case e_sched_list (ents w e) of
     None \<Rightarrow> w
   | Some sl \<Rightarrow>
      (if e_job_queue (ents w e) \<noteq> [] then w
       else if (case e_last_scheduled (ents w e) of None \<Rightarrow> False
                | Some f \<Rightarrow> \<not> f_is_signaled D f (fs w)) then w
       else let rq = map_option (\<lambda>s. (s, e_priority (ents w e)))
                       (drm_sched_pick_best w sl (e_num_sched_list (ents w e)));
                w1 = (if rq \<noteq> e_rq (ents w e)
                      then upd_ent e (\<lambda>x. x\<lparr>e_rq := rq\<rparr>)
                        (case e_rq (ents w e) of
                           None \<Rightarrow> w
                         | Some r \<Rightarrow> drm_sched_rq_remove_entity r e w)
                      else w)
            in if e_num_sched_list (ents w1 e) = 1
               then upd_ent e (\<lambda>x. x\<lparr>e_sched_list := None\<rparr>) w1 else w1))"

section \<open>Jobs before they run (sched_main.c, sched_entity.c)\<close>

definition drm_sched_job_init :: "'f dma_ops \<Rightarrow> bool \<Rightarrow> nat \<Rightarrow> nat \<Rightarrow> 'f world \<Rightarrow> int \<times> 'f world" where
  "drm_sched_job_init D kz j e w =
     (let w1 = drm_sched_entity_select_rq D e w
      in if e_rq (ents w1 e) = None then (- ENOENT, w1)
         else let sf = drm_sched_fence_alloc kz;
                  w2 = upd_job j (\<lambda>x. x\<lparr>j_entity := e, j_s_fence := sf\<rparr>) w1
              in if sf = None then (- ENOMEM, w2)
                 else (0, upd_job j (\<lambda>x. x\<lparr>j_dependencies := []\<rparr>) w2))"

definition drm_sched_job_arm :: "'f dma_ops \<Rightarrow> nat \<Rightarrow> 'f world \<Rightarrow> 'f world" where
  "drm_sched_job_arm D j w =
     (let e = j_entity (jobs w j);
          rq = the (e_rq (ents w e));
          s = fst rq;
          id = job_id_count (scheds w s) + 1;
          w1 = upd_sched s (\<lambda>x. x\<lparr>job_id_count := id\<rparr>) w;
          w2 = upd_job j (\<lambda>x. x\<lparr>j_sched := s, j_s_priority := snd rq, j_id := id\<rparr>) w1
      in drm_sched_fence_init D j e w2)"

text \<open>
  The dependencies are an allocating array: \<open>xa_alloc\<close> takes the lowest free index, and fails
  with \<^verbatim>\<open>-ENOMEM\<close> when the allocator (\<open>kz\<close>) does.
\<close>

fun xa_alloc :: "'a option list \<Rightarrow> 'a \<Rightarrow> 'a option list" where
  "xa_alloc [] x = [Some x]"
| "xa_alloc (None # ds) x = Some x # ds"
| "xa_alloc (Some d # ds) x = Some d # xa_alloc ds x"

text \<open>The loop over the entries: \<open>None\<close> when no entry has the fence's context.\<close>

fun dep_replace :: "'f dma_ops \<Rightarrow> 'f world \<Rightarrow> fence \<Rightarrow> fence option list \<Rightarrow> fence option list option" where
  "dep_replace D w f [] = None"
| "dep_replace D w f (None # ds) = map_option ((#) None) (dep_replace D w f ds)"
| "dep_replace D w f (Some entry # ds) =
     (if fence_context D w entry \<noteq> fence_context D w f
      then map_option ((#) (Some entry)) (dep_replace D w f ds)
      else if f_is_later D f entry (fs w) then Some (Some f # ds) else Some (Some entry # ds))"

definition drm_sched_job_add_dependency :: "'f dma_ops \<Rightarrow> bool \<Rightarrow> nat \<Rightarrow> fence option \<Rightarrow> 'f world \<Rightarrow> int \<times> 'f world" where
  "drm_sched_job_add_dependency D kz j fo w = (case fo of
     None \<Rightarrow> (0, w)
   | Some f \<Rightarrow> (case dep_replace D w f (j_dependencies (jobs w j)) of
        Some ds \<Rightarrow> (0, upd_job j (\<lambda>x. x\<lparr>j_dependencies := ds\<rparr>) w)
      | None \<Rightarrow> if kz then (0, upd_job j (\<lambda>x. x\<lparr>j_dependencies := xa_alloc (j_dependencies x) f\<rparr>) w)
                else (- ENOMEM, w)))"

text \<open>
  \<^verbatim>\<open>drm_sched_job_add_implicit_dependencies\<close> for kernels from 5.16 on: \<open>fences\<close> are those the
  reservation object yields for the access, with what the allocator answers for each.
\<close>

fun drm_sched_job_add_implicit_dependencies :: "'f dma_ops \<Rightarrow> nat \<Rightarrow> (bool \<times> fence) list \<Rightarrow> 'f world \<Rightarrow> int \<times> 'f world" where
  "drm_sched_job_add_implicit_dependencies D j [] w = (0, w)"
| "drm_sched_job_add_implicit_dependencies D j ((kz, f) # fences) w =
     (case drm_sched_job_add_dependency D kz j (Some f) w of
        (ret, w1) \<Rightarrow> if ret \<noteq> 0 then (ret, w1)
                     else drm_sched_job_add_implicit_dependencies D j fences w1)"

definition drm_sched_job_cleanup :: "nat \<Rightarrow> 'f world \<Rightarrow> 'f world" where
  "drm_sched_job_cleanup j w = upd_job j (\<lambda>x. x\<lparr>j_s_fence := None, j_dependencies := []\<rparr>) w"

text \<open>\<open>current\<close> is the calling process (\<^verbatim>\<open>current->group_leader\<close>).\<close>

definition drm_sched_entity_push_job :: "nat \<Rightarrow> nat \<Rightarrow> 'f world \<Rightarrow> 'f world" where
  "drm_sched_entity_push_job current j w =
     (let e = j_entity (jobs w j);
          rq = the (e_rq (ents w e));
          w1 = score_inc (fst rq) w;
          first = (e_job_queue (ents w1 e) = []);
          w2 = upd_ent e (\<lambda>x. x\<lparr>e_last_user := Some current, e_job_queue := e_job_queue x @ [j]\<rparr>) w1
      in if first then (if e_stopped (ents w2 e) then w2 else drm_sched_rq_add_entity rq e w2)
         else w2)"

section \<open>Entities (sched_entity.c)\<close>

text \<open>\<open>ctx\<close> is the pair of contexts \<^verbatim>\<open>dma_fence_context_alloc(2)\<close> returns.\<close>

definition drm_sched_entity_init :: "u64 \<Rightarrow> nat option \<Rightarrow> nat \<Rightarrow> nat option list option \<Rightarrow> u32 \<Rightarrow> nat option \<Rightarrow> 'f world \<Rightarrow> int \<times> 'f world" where
  "drm_sched_entity_init ctx eo priority sched_list num guilty w = (case (eo, sched_list) of
     (Some e, Some sl) \<Rightarrow>
       (if num = 0 \<or> sl ! 0 \<noteq> None
        then (0, upd_ent e (\<lambda>_. \<lparr>e_linked = False,
               e_rq = (if num \<noteq> 0 then Some (the (sl ! 0), priority) else None),
               e_sched_list = (if num > 1 then Some sl else None), e_num_sched_list = num,
               e_priority = priority, e_job_queue = [], e_fence_seq = 0, e_fence_context = ctx,
               e_dependency = None, e_guilty = guilty, e_last_scheduled = None, e_last_user = None,
               e_stopped = False, e_idle = 1\<rparr>) w)
        else (- EINVAL, w))
   | _ \<Rightarrow> (- EINVAL, w))"

definition drm_sched_entity_modify_sched :: "nat \<Rightarrow> nat option list option \<Rightarrow> u32 \<Rightarrow> 'f world \<Rightarrow> 'f world" where
  "drm_sched_entity_modify_sched e sl num w = upd_ent e (\<lambda>x. x\<lparr>e_sched_list := sl, e_num_sched_list := num\<rparr>) w"

definition drm_sched_entity_is_idle :: "drm_sched_entity \<Rightarrow> bool" where
  "drm_sched_entity_is_idle x = (if \<not> e_linked x \<or> length (e_job_queue x) = 0 \<or> e_stopped x then True else False)"

text \<open>
  \<^verbatim>\<open>drm_sched_entity_flush\<close> after its wait: \<open>waited\<close> is what \<^verbatim>\<open>wait_event_timeout\<close> returned,
  \<open>exiting\<close> and \<open>sigkill\<close> the state of the calling process \<open>current\<close>.
\<close>

definition drm_sched_entity_flush :: "nat \<Rightarrow> bool \<Rightarrow> bool \<Rightarrow> int \<Rightarrow> nat \<Rightarrow> int \<Rightarrow> 'f world \<Rightarrow> int \<times> 'f world" where
  "drm_sched_entity_flush current exiting sigkill waited e tmo w = (case e_rq (ents w e) of
     None \<Rightarrow> (0, w)
   | Some r \<Rightarrow>
      (let ret = (if exiting \<and> tmo \<noteq> 0 then waited else tmo);
           last_user = e_last_user (ents w e);
           w1 = (if last_user = Some current then upd_ent e (\<lambda>x. x\<lparr>e_last_user := None\<rparr>) w else w)
       in (ret, if (last_user = None \<or> last_user = Some current) \<and> exiting \<and> sigkill
                then drm_sched_rq_remove_entity r e (upd_ent e (\<lambda>x. x\<lparr>e_stopped := True\<rparr>) w1)
                else w1)))"

definition drm_sched_entity_kill_jobs_work :: "'f dma_ops \<Rightarrow> nat \<Rightarrow> 'f world \<Rightarrow> 'f world" where
  "drm_sched_entity_kill_jobs_work D j w =
     free_job j (drm_sched_fence_finished D j (w\<lparr>kill_work := remove1 j (kill_work w)\<rparr>))"

definition drm_sched_entity_kill_jobs_callback :: "nat \<Rightarrow> 'f world \<Rightarrow> 'f world" where
  "drm_sched_entity_kill_jobs_callback j w = w\<lparr>kill_work := kill_work w @ [j]\<rparr>"

text \<open>The next dependency: erased from the array at \<^verbatim>\<open>last_dependency\<close>, which advances.\<close>

definition drm_sched_job_dependency :: "nat \<Rightarrow> 'f world \<Rightarrow> fence option \<times> 'f world" where
  "drm_sched_job_dependency j w =
     (let x = jobs w j; ds = j_dependencies x; i = j_last_dependency x
      in if \<exists>d\<in>set ds. d \<noteq> None
         then (if i < length ds then ds ! i else None,
               upd_job j (\<lambda>x. x\<lparr>j_dependencies := ds[i := None], j_last_dependency := i + 1\<rparr>) w)
         else (None, w))"

text \<open>The number of dependencies a job still has bounds the loops that take them.\<close>

definition deps_left :: "nat \<Rightarrow> 'f world \<Rightarrow> nat" where
  "deps_left j w = length (filter (\<lambda>d. d \<noteq> None) (j_dependencies (jobs w j)))"

lemma filter_update_None:
  "i < length ds \<Longrightarrow> ds ! i \<noteq> None \<Longrightarrow>
     length (filter (\<lambda>d. d \<noteq> None) (ds[i := None])) < length (filter (\<lambda>d. d \<noteq> None) ds)"
proof (induction ds arbitrary: i)
  case (Cons d ds)
  then show ?case
    by (cases i) auto
qed simp

lemma drm_sched_job_dependency_decreases:
  "drm_sched_job_dependency j w = (Some f, w') \<Longrightarrow> deps_left j w' < deps_left j w"
  by (auto simp: drm_sched_job_dependency_def Let_def deps_left_def upd_job_def filter_update_None
      simp del: not_None_eq split: if_splits)

lemma deps_left_fs [simp]: "deps_left j (w\<lparr>fs := f\<rparr>) = deps_left j w"
  by (simp add: deps_left_def)

function kill_deps :: "'f dma_ops \<Rightarrow> nat \<Rightarrow> 'f world \<Rightarrow> 'f world" where
  "kill_deps D j w = (case drm_sched_job_dependency j w of
     (None, w1) \<Rightarrow> w1
   | (Some f, w1) \<Rightarrow> kill_deps D j (w1\<lparr>fs := f_wait D f (fs w1)\<rparr>))"
  by pat_completeness auto
termination
  by (relation "measure (\<lambda>(D, j, w). deps_left j w)")
    (auto simp: deps_left_fs dest!: drm_sched_job_dependency_decreases [OF sym])

text \<open>
  \<^verbatim>\<open>drm_sched_entity_kill_jobs\<close>: the jobs leave the queue one by one, wait for their
  dependencies, and finish with \<^verbatim>\<open>-ESRCH\<close> after the entity's last scheduled job.
\<close>

definition kill_job :: "'f dma_ops \<Rightarrow> nat \<Rightarrow> nat \<Rightarrow> 'f world \<Rightarrow> 'f world" where
  "kill_job D e j w =
     (let w1 = drm_sched_fence_scheduled D j (kill_deps D j w);
          w2 = w1\<lparr>fs := f_set_error D (Finished j) (- ESRCH) (fs w1)\<rparr>
      in (case e_last_scheduled (ents w2 e) of
            None \<Rightarrow> drm_sched_entity_kill_jobs_callback j w2
          | Some f \<Rightarrow> (let (r, f') = f_add_callback D f (job_finish_cb j) drm_sched_entity_kill_jobs_cb (fs w2);
                          w3 = w2\<lparr>fs := f'\<rparr>
                      in if r = - ENOENT then drm_sched_entity_kill_jobs_callback j w3 else w3)))"

fun kill_queue :: "'f dma_ops \<Rightarrow> nat \<Rightarrow> nat list \<Rightarrow> 'f world \<Rightarrow> 'f world" where
  "kill_queue D e [] w = w"
| "kill_queue D e (j # js) w =
     kill_queue D e js (kill_job D e j (upd_ent e (\<lambda>x. x\<lparr>e_job_queue := js\<rparr>) w))"

definition drm_sched_entity_kill_jobs :: "'f dma_ops \<Rightarrow> nat \<Rightarrow> 'f world \<Rightarrow> 'f world" where
  "drm_sched_entity_kill_jobs D e w = kill_queue D e (e_job_queue (ents w e)) w"

text \<open>\<^verbatim>\<open>wait_for_completion\<close> takes one of the completions; it returns once there is one.\<close>

definition drm_sched_entity_fini :: "'f dma_ops \<Rightarrow> nat \<Rightarrow> 'f world \<Rightarrow> 'f world" where
  "drm_sched_entity_fini D e w =
     (let w1 = (case e_rq (ents w e) of Some r \<Rightarrow> drm_sched_rq_remove_entity r e w | None \<Rightarrow> w);
          w2 = (if length (e_job_queue (ents w1 e)) \<noteq> 0
                then let w3 = (if e_rq (ents w1 e) \<noteq> None
                               then upd_ent e (\<lambda>x. x\<lparr>e_idle := e_idle x - 1\<rparr>) w1 else w1);
                         w4 = (case e_dependency (ents w3 e) of
                                 None \<Rightarrow> w3
                               | Some f \<Rightarrow> upd_ent e (\<lambda>x. x\<lparr>e_dependency := None\<rparr>)
                                   (w3\<lparr>fs := snd (f_remove_callback D f (entity_cb e) (fs w3))\<rparr>))
                     in drm_sched_entity_kill_jobs D e w4
                else w1)
      in upd_ent e (\<lambda>x. x\<lparr>e_last_scheduled := None\<rparr>) w2)"

definition drm_sched_entity_clear_dep :: "nat \<Rightarrow> 'f world \<Rightarrow> 'f world" where
  "drm_sched_entity_clear_dep e w = upd_ent e (\<lambda>x. x\<lparr>e_dependency := None\<rparr>) w"

definition drm_sched_entity_wakeup :: "nat \<Rightarrow> 'f world \<Rightarrow> 'f world" where
  "drm_sched_entity_wakeup e w = drm_sched_entity_clear_dep e w"

definition drm_sched_entity_set_priority :: "nat \<Rightarrow> nat \<Rightarrow> 'f world \<Rightarrow> 'f world" where
  "drm_sched_entity_set_priority e p w = upd_ent e (\<lambda>x. x\<lparr>e_priority := p\<rparr>) w"

text \<open>\<open>tmo\<close> is \<^verbatim>\<open>MAX_WAIT_SCHED_ENTITY_Q_EMPTY\<close>, a second in ticks.\<close>

definition drm_sched_entity_destroy :: "'f dma_ops \<Rightarrow> int \<Rightarrow> nat \<Rightarrow> bool \<Rightarrow> bool \<Rightarrow> int \<Rightarrow> nat \<Rightarrow> 'f world \<Rightarrow> 'f world" where
  "drm_sched_entity_destroy D tmo current exiting sigkill waited e w =
     drm_sched_entity_fini D e
       (snd (drm_sched_entity_flush current exiting sigkill waited e tmo w))"

text \<open>
  Waiting for the entity's dependency \<open>f\<close>: \<open>True\<close> when a callback was registered.  The
  registration fails (with \<^verbatim>\<open>-ENOENT\<close>) exactly when the callback's return value is not 0.
\<close>

definition drm_sched_entity_add_dependency_cb :: "'f dma_ops \<Rightarrow> nat \<Rightarrow> 'f world \<Rightarrow> bool \<times> 'f world" where
  "drm_sched_entity_add_dependency_cb D e w =
     (let x = ents w e; f = the (e_dependency x); s = fst (the (e_rq x))
      in if fence_context D w f = e_fence_context x \<or> fence_context D w f = e_fence_context x + 1
         then (False, w)
         else (case to_drm_sched_fence f of
             Some j \<Rightarrow> if sf_sched (sf_of w j) = Some s
                then let w1 = upd_ent e (\<lambda>x. x\<lparr>e_dependency := Some (Scheduled j)\<rparr>) w;
                         (r, f') = f_add_callback D (Scheduled j) (entity_cb e) drm_sched_entity_clear_dep_cb (fs w1)
                     in (r = 0, w1\<lparr>fs := f'\<rparr>)
                else let (r, f') = f_add_callback D f (entity_cb e) drm_sched_entity_wakeup_cb (fs w)
                     in (r = 0, w\<lparr>fs := f'\<rparr>)
           | None \<Rightarrow> let (r, f') = f_add_callback D f (entity_cb e) drm_sched_entity_wakeup_cb (fs w)
                     in (r = 0, w\<lparr>fs := f'\<rparr>)))"

lemma drm_sched_entity_add_dependency_cb_jobs:
  "drm_sched_entity_add_dependency_cb D e w = (b, w') \<Longrightarrow> jobs w' = jobs w"
  by (auto simp: drm_sched_entity_add_dependency_cb_def Let_def upd_ent_def
      split: if_splits option.splits prod.splits)

text \<open>The loop of \<^verbatim>\<open>drm_sched_entity_pop_job\<close>: \<open>True\<close> when the entity now waits.\<close>

function pop_deps :: "'f dma_ops \<Rightarrow> nat \<Rightarrow> nat \<Rightarrow> 'f world \<Rightarrow> bool \<times> 'f world" where
  "pop_deps D j e w = (case drm_sched_job_dependency j w of
     (None, w1) \<Rightarrow> (False, upd_ent e (\<lambda>x. x\<lparr>e_dependency := None\<rparr>) w1)
   | (Some f, w1) \<Rightarrow>
      (case drm_sched_entity_add_dependency_cb D e (upd_ent e (\<lambda>x. x\<lparr>e_dependency := Some f\<rparr>) w1) of
         (True, w2) \<Rightarrow> (True, w2)
       | (False, w2) \<Rightarrow> pop_deps D j e w2))"
  by pat_completeness auto
termination
  by (relation "measure (\<lambda>(D, j, e, w). deps_left j w)")
    (auto simp: deps_left_def upd_ent_def dest!: drm_sched_job_dependency_decreases [OF sym]
      drm_sched_entity_add_dependency_cb_jobs [OF sym])

definition drm_sched_entity_pop_job :: "'f dma_ops \<Rightarrow> nat \<Rightarrow> 'f world \<Rightarrow> nat option \<times> 'f world" where
  "drm_sched_entity_pop_job D e w = (case e_job_queue (ents w e) of
     [] \<Rightarrow> (None, w)
   | j # js \<Rightarrow> (case pop_deps D j e w of
        (True, w1) \<Rightarrow> (None, w1)
      | (False, w1) \<Rightarrow>
          (let w2 = (if (case e_guilty (ents w1 e) of Some c \<Rightarrow> cells w1 c \<noteq> 0 | None \<Rightarrow> False)
                     then w1\<lparr>fs := f_set_error D (Finished j) (- ECANCELED) (fs w1)\<rparr> else w1)
           in (Some j, upd_ent e (\<lambda>x. x\<lparr>e_last_scheduled := Some (Finished j),
                 e_job_queue := tl (e_job_queue x)\<rparr>) w2))))"

section \<open>The scheduler thread (sched_main.c)\<close>

definition drm_sched_ready :: "drm_gpu_scheduler \<Rightarrow> bool" where
  "drm_sched_ready s \<longleftrightarrow> hw_rq_count s < hw_submission_limit s"

fun select_prio :: "nat \<Rightarrow> nat list \<Rightarrow> 'f world \<Rightarrow> nat option \<times> 'f world" where
  "select_prio s [] w = (None, w)"
| "select_prio s (i # is) w = (case drm_sched_rq_select_entity (s, i) w of
     (Some e, w1) \<Rightarrow> (Some e, w1)
   | (None, w1) \<Rightarrow> select_prio s is w1)"

definition drm_sched_select_entity :: "nat \<Rightarrow> 'f world \<Rightarrow> nat option \<times> 'f world" where
  "drm_sched_select_entity s w =
     (if \<not> drm_sched_ready (scheds w s) then (None, w)
      else select_prio s (rev [0..<DRM_SCHED_PRIORITY_COUNT]) w)"

definition drm_sched_get_cleanup_job :: "'f dma_ops \<Rightarrow> u64 \<Rightarrow> nat \<Rightarrow> 'f world \<Rightarrow> nat option \<times> 'f world" where
  "drm_sched_get_cleanup_job D now s w = (case pending_list (scheds w s) of
     [] \<Rightarrow> (None, w)
   | j # rest \<Rightarrow>
      (if f_is_signaled D (Finished j) (fs w)
       then (Some j, upd_sched s (\<lambda>x.
               let x1 = cancel_delayed_work (x\<lparr>pending_list := rest\<rparr>)
               in if rest \<noteq> [] then drm_sched_start_timeout now x1 else x1) w)
       else (None, w)))"

text \<open>The part of the loop of \<^verbatim>\<open>drm_sched_main\<close> that runs a selected entity's next job.\<close>

definition run_entity :: "'f dma_ops \<Rightarrow> 'f run_job \<Rightarrow> u64 \<Rightarrow> nat \<Rightarrow> nat \<Rightarrow> 'f world \<Rightarrow> 'f world" where
  "run_entity D run now s e w = (case drm_sched_entity_pop_job D e w of
     (None, w1) \<Rightarrow> upd_ent e (\<lambda>x. x\<lparr>e_idle := e_idle x + 1\<rparr>) w1
   | (Some j, w1) \<Rightarrow>
      (let w2 = upd_sched s (\<lambda>x. x\<lparr>hw_rq_count := hw_rq_count x + 1\<rparr>) w1;
           w3 = drm_sched_job_begin now j w2;
           (res, f') = run j (fs w3);
           w4 = upd_ent e (\<lambda>x. x\<lparr>e_idle := e_idle x + 1\<rparr>) (w3\<lparr>fs := f'\<rparr>);
           w5 = drm_sched_fence_scheduled D j w4
       in (case res of
             RunFence f \<Rightarrow> attach_done D f j
               (upd_job j (\<lambda>x. x\<lparr>j_s_fence := Some ((sf_of w5 j)\<lparr>sf_parent := Some f\<rparr>)\<rparr>) w5)
           | RunErr err \<Rightarrow> drm_sched_job_done D j (w5\<lparr>fs := f_set_error D (Finished j) err (fs w5)\<rparr>)
           | RunNull \<Rightarrow> drm_sched_job_done D j w5)))"

text \<open>
  One turn of the loop of \<^verbatim>\<open>drm_sched_main\<close>.  The wait condition prefers a job to clean up;
  otherwise, unless the thread is asked to park, it selects an entity.  When there is neither,
  the thread sleeps and the turn changes nothing.
\<close>

definition drm_sched_main :: "'f dma_ops \<Rightarrow> 'f run_job \<Rightarrow> u64 \<Rightarrow> nat \<Rightarrow> 'f world \<Rightarrow> 'f world" where
  "drm_sched_main D run now s w =
     (if \<not> thread (scheds w s) then w
      else (case drm_sched_get_cleanup_job D now s w of
         (Some j, w1) \<Rightarrow> free_job j w1
       | (None, w1) \<Rightarrow>
          (if thread_parked (scheds w1 s) then w1
           else (case drm_sched_select_entity s w1 of
              (None, w2) \<Rightarrow> w2
            | (Some e, w2) \<Rightarrow> run_entity D run now s e w2))))"

text \<open>
  \<^verbatim>\<open>drm_sched_init\<close>: \<open>own\<close> is the scheduler's own counter \<^verbatim>\<open>_score\<close>, \<open>kt\<close> the error of
  \<^verbatim>\<open>kthread_run\<close> (0 when the thread was created).
\<close>

definition drm_sched_init :: "int \<Rightarrow> nat \<Rightarrow> nat \<Rightarrow> u32 \<Rightarrow> u32 \<Rightarrow> u64 \<Rightarrow> nat option \<Rightarrow> 'f world \<Rightarrow> int \<times> 'f world" where
  "drm_sched_init kt own s hw_submission hang tmo sc w =
     (let w1 = upd_cell own (\<lambda>_. 0) (upd_sched s (\<lambda>x. x\<lparr>hw_submission_limit := hw_submission,
                 timeout := tmo, hang_limit := c_int hang,
                 score := (case sc of Some c \<Rightarrow> c | None \<Rightarrow> own),
                 sched_rq := replicate DRM_SCHED_PRIORITY_COUNT drm_sched_rq_init,
                 pending_list := [], hw_rq_count := 0, tdr_pending := False, job_id_count := 0\<rparr>) w)
      in if kt \<noteq> 0 then (kt, upd_sched s (\<lambda>x. x\<lparr>thread := False\<rparr>) w1)
         else (0, upd_sched s (\<lambda>x. x\<lparr>thread := True, thread_parked := False, ready := True\<rparr>) w1))"

definition stop_entities :: "drm_sched_rq \<Rightarrow> 'f world \<Rightarrow> 'f world" where
  "stop_entities q w = fold (\<lambda>e. upd_ent e (\<lambda>x. x\<lparr>e_stopped := True\<rparr>)) (rq_entities q) w"

definition drm_sched_fini :: "nat \<Rightarrow> 'f world \<Rightarrow> 'f world" where
  "drm_sched_fini s w =
     (let w1 = upd_sched s (\<lambda>x. x\<lparr>thread := False\<rparr>) w;
          w2 = fold stop_entities (rev (sched_rq (scheds w1 s))) w1
      in upd_sched s (\<lambda>x. cancel_delayed_work x\<lparr>ready := False\<rparr>) w2)"

end
