(* ===== verification/Sched_Correct.thy ===== *)
theory Sched_Correct
  imports Sched
begin

text \<open>
  Correctness of the GPU scheduler: fair selection of entities, strict priorities, the choice of
  the least loaded scheduler, dependency handling, recovery, and the invariants of the reachable
  states.
\<close>

section \<open>Field lemmas of the store\<close>

lemmas upd_defs = upd_sched_def upd_ent_def upd_job_def upd_cell_def upd_rq_def

section \<open>Round robin within a run queue\<close>

text \<open>The order in which a run queue is scanned: cyclically, from behind the current entity.\<close>

fun scan_order :: "drm_sched_rq \<Rightarrow> nat list" where
  "scan_order q = (case rq_current q of
     None \<Rightarrow> rq_entities q
   | Some c \<Rightarrow> after c (rq_entities q) @ takeWhile (\<lambda>x. x \<noteq> c) (rq_entities q) @ [c])"

definition rq_wf :: "drm_sched_rq \<Rightarrow> bool" where
  "rq_wf q \<longleftrightarrow> distinct (rq_entities q) \<and> (case rq_current q of None \<Rightarrow> True | Some c \<Rightarrow> c \<in> set (rq_entities q))"

lemma scan_to_None: "scan_to rdy None es = find rdy es"
  by (induction es) auto

lemma scan_to_Some:
  "c \<in> set es \<Longrightarrow> scan_to rdy (Some c) es = find rdy (takeWhile (\<lambda>x. x \<noteq> c) es @ [c])"
  by (induction es) auto

lemma find_append: "find P (xs @ ys) = (case find P xs of None \<Rightarrow> find P ys | Some x \<Rightarrow> Some x)"
  by (induction xs) auto

lemma rq_pick_find: "rq_wf q \<Longrightarrow> rq_pick rdy q = find rdy (scan_order q)"
  by (auto simp: rq_pick_def rq_wf_def scan_to_None scan_to_Some find_append split: option.splits)

lemma split_at_current:
  "c \<in> set es \<Longrightarrow> es = takeWhile (\<lambda>x. x \<noteq> c) es @ c # after c es"
  by (induction es) (auto simp: after_def)

lemma set_scan_order: "rq_wf q \<Longrightarrow> set (scan_order q) = set (rq_entities q)"
proof (cases "rq_current q")
  case (Some c)
  assume "rq_wf q"
  with Some have "c \<in> set (rq_entities q)"
    by (simp add: rq_wf_def)
  from arg_cong [OF split_at_current [OF this], of set] show ?thesis
    using Some by auto
qed simp

lemma length_scan_order: "rq_wf q \<Longrightarrow> length (scan_order q) = length (rq_entities q)"
proof (cases "rq_current q")
  case (Some c)
  assume "rq_wf q"
  with Some have "c \<in> set (rq_entities q)"
    by (simp add: rq_wf_def)
  from arg_cong [OF split_at_current [OF this], of length] show ?thesis
    using Some by simp
qed simp

lemma distinct_scan_order: "rq_wf q \<Longrightarrow> distinct (scan_order q)"
  by (simp add: card_distinct length_scan_order set_scan_order distinct_card rq_wf_def del: scan_order.simps)

lemma after_prefix: "e \<notin> set xs \<Longrightarrow> after e (xs @ e # ys) = ys"
  unfolding after_def by (induction xs) auto

lemma takeWhile_prefix: "e \<notin> set xs \<Longrightarrow> takeWhile (\<lambda>x. x \<noteq> e) (xs @ e # ys) = xs"
  by (induction xs) auto

lemma append_eq_append_Cons:
  "as @ bs = xs @ e # ys \<Longrightarrow>
     (\<exists>zs. as = xs @ e # zs \<and> ys = zs @ bs) \<or> (\<exists>zs. xs = as @ zs \<and> bs = zs @ e # ys)"
  by (induction as arbitrary: xs) (auto simp: Cons_eq_append_conv)

lemma snoc_eq_append_Cons:
  "xs @ [c] = zs @ e # ys \<Longrightarrow> (\<exists>us. xs = zs @ e # us \<and> ys = us @ [c]) \<or> (xs = zs \<and> e = c \<and> ys = [])"
  by (cases ys rule: rev_cases) auto

lemma scan_order_current:
  "rq_entities q = xs @ e # ys \<Longrightarrow> e \<notin> set xs \<Longrightarrow> scan_order (q\<lparr>rq_current := Some e\<rparr>) = ys @ xs @ [e]"
  by (simp add: after_prefix takeWhile_prefix)

text \<open>Making the picked entity current rotates the order to begin behind it.\<close>

lemma scan_order_rotate:
  assumes "rq_wf q" and "scan_order q = xs @ e # ys"
  shows "scan_order (q\<lparr>rq_current := Some e\<rparr>) = ys @ xs @ [e]"
proof (cases "rq_current q")
  case None
  with assms have "rq_entities q = xs @ e # ys" by simp
  moreover from this assms have "e \<notin> set xs" by (simp add: rq_wf_def)
  ultimately show ?thesis by (simp add: after_prefix takeWhile_prefix)
next
  case (Some c)
  let ?A = "after c (rq_entities q)" and ?T = "takeWhile (\<lambda>x. x \<noteq> c) (rq_entities q)"
  from Some assms(1) have c: "c \<in> set (rq_entities q)" by (simp add: rq_wf_def)
  have es: "rq_entities q = ?T @ c # ?A" by (rule split_at_current [OF c])
  have d: "distinct (?T @ c # ?A)" using assms(1) es by (simp add: rq_wf_def)
  have o: "?A @ ?T @ [c] = xs @ e # ys" using assms(2) Some by simp
  then consider (in_after) zs where "?A = xs @ e # zs" "ys = zs @ ?T @ [c]"
    | (in_before) zs where "xs = ?A @ zs" "?T @ [c] = zs @ e # ys"
    by (auto dest: append_eq_append_Cons)
  then show ?thesis
  proof cases
    case in_after
    have "rq_entities q = (?T @ c # xs) @ e # zs" using es [unfolded in_after(1)] by simp
    moreover have "e \<notin> set (?T @ c # xs)" using d in_after by auto
    ultimately have "scan_order (q\<lparr>rq_current := Some e\<rparr>) = zs @ (?T @ c # xs) @ [e]"
      by (rule scan_order_current)
    then show ?thesis unfolding in_after(2) by (simp del: scan_order.simps)
  next
    case in_before
    then consider (mid) us where "?T = zs @ e # us" "ys = us @ [c]" | (last) "?T = zs" "e = c" "ys = []"
      by (blast dest: snoc_eq_append_Cons)
    then show ?thesis
    proof cases
      case mid
      have "rq_entities q = zs @ e # (us @ c # ?A)"
        using es mid(1) by (metis append_Cons append_assoc)
      moreover have "e \<notin> set zs" using d mid by auto
      ultimately have "scan_order (q\<lparr>rq_current := Some e\<rparr>) = (us @ c # ?A) @ zs @ [e]"
        by (rule scan_order_current)
      then show ?thesis unfolding in_before(1) mid(2) by (simp del: scan_order.simps)
    next
      case last
      then show ?thesis using in_before by simp
    qed
  qed
qed

lemma rq_wf_set_current:
  "rq_wf q \<Longrightarrow> e \<in> set (rq_entities q) \<Longrightarrow> rq_wf (q\<lparr>rq_current := Some e\<rparr>)"
  by (simp add: rq_wf_def)

lemma find_Some_split:
  "find P zs = Some x \<Longrightarrow> \<exists>xs ys. zs = xs @ x # ys \<and> P x \<and> (\<forall>z\<in>set xs. \<not> P z)"
proof (induction zs)
  case (Cons z zs)
  show ?case
  proof (cases "P z")
    case True
    with Cons.prems have "z # zs = [] @ x # zs \<and> P x \<and> (\<forall>z\<in>set []. \<not> P z)" by simp
    then show ?thesis by blast
  next
    case False
    with Cons obtain xs ys where "zs = xs @ x # ys" "P x" "\<forall>z\<in>set xs. \<not> P z" by auto
    with False have "z # zs = (z # xs) @ x # ys \<and> P x \<and> (\<forall>y\<in>set (z # xs). \<not> P y)" by simp
    then show ?thesis by blast
  qed
qed simp

text \<open>How many other entities may be served before \<open>e\<close>: its position in the scan order.\<close>

definition turns_before :: "nat \<Rightarrow> drm_sched_rq \<Rightarrow> nat" where
  "turns_before e q = length (takeWhile (\<lambda>x. x \<noteq> e) (scan_order q))"

lemma turns_before_less:
  "rq_wf q \<Longrightarrow> e \<in> set (rq_entities q) \<Longrightarrow> turns_before e q < length (rq_entities q)"
proof -
  assume "rq_wf q" and "e \<in> set (rq_entities q)"
  then have "e \<in> set (scan_order q)" by (simp add: set_scan_order del: scan_order.simps)
  from arg_cong [OF split_at_current [OF this], of length] show ?thesis
    using \<open>rq_wf q\<close> by (simp add: turns_before_def length_scan_order [symmetric] del: scan_order.simps)
qed

lemma rq_pick_progress:
  assumes "rq_wf q" and "rdy e" and "e \<in> set (rq_entities q)"
  shows "\<exists>x. rq_pick rdy q = Some x \<and> x \<in> set (rq_entities q) \<and> rdy x
           \<and> (x = e \<or> turns_before e (q\<lparr>rq_current := Some x\<rparr>) < turns_before e q)"
proof -
  have e: "e \<in> set (scan_order q)" using assms by (simp add: set_scan_order del: scan_order.simps)
  obtain x where x: "find rdy (scan_order q) = Some x"
    using e assms(2) by (cases "find rdy (scan_order q)") (auto simp: find_None_iff simp del: scan_order.simps)
  then obtain xs ys where s: "scan_order q = xs @ x # ys" "rdy x" "\<forall>z\<in>set xs. \<not> rdy z"
    by (blast dest: find_Some_split)
  have r: "scan_order (q\<lparr>rq_current := Some x\<rparr>) = ys @ xs @ [x]"
    by (rule scan_order_rotate [OF assms(1) s(1)])
  have "x \<noteq> e \<Longrightarrow> turns_before e (q\<lparr>rq_current := Some x\<rparr>) < turns_before e q"
  proof -
    assume ne: "x \<noteq> e"
    have xs: "e \<notin> set xs" using s(3) assms(2) by blast
    with ne e s(1) have ys: "e \<in> set ys" by auto
    have "takeWhile (\<lambda>z. z \<noteq> e) (xs @ x # ys) = xs @ x # takeWhile (\<lambda>z. z \<noteq> e) ys"
      using xs ne by (induction xs) auto
    moreover have "takeWhile (\<lambda>z. z \<noteq> e) (ys @ xs @ [x]) = takeWhile (\<lambda>z. z \<noteq> e) ys"
      using ys by (simp add: takeWhile_append1 [of e])
    ultimately show ?thesis
      unfolding turns_before_def r s(1) by simp
  qed
  moreover have "x \<in> set (rq_entities q)"
    using s(1) set_scan_order [OF assms(1)] by auto
  ultimately show ?thesis
    using x s(2) rq_pick_find [OF assms(1)] by (auto simp del: scan_order.simps)
qed

section \<open>Selection across run queues\<close>

lemma the_rq_upd_ent [simp]: "the_rq (upd_ent e f w) r = the_rq w r"
  by (simp add: the_rq_def upd_ent_def)

lemma the_rq_upd_rq:
  "snd r < length (sched_rq (scheds w (fst r))) \<Longrightarrow> the_rq (upd_rq r f w) r = f (the_rq w r)"
  by (simp add: the_rq_def upd_rq_def upd_sched_def)

definition ready_in :: "'f world \<Rightarrow> nat \<Rightarrow> bool" where
  "ready_in w e \<longleftrightarrow> drm_sched_entity_is_ready (ents w e)"

lemma rq_select_None_iff:
  "rq_wf (the_rq w r) \<Longrightarrow> fst (drm_sched_rq_select_entity r w) = None
     \<longleftrightarrow> (\<forall>e\<in>set (rq_entities (the_rq w r)). \<not> ready_in w e)"
  by (auto simp: drm_sched_rq_select_entity_def rq_pick_find find_None_iff ready_in_def
      simp flip: set_scan_order simp del: scan_order.simps split: option.splits dest: find_SomeD)

lemma rq_select_None_same:
  "drm_sched_rq_select_entity r w = (None, w') \<Longrightarrow> w' = w"
  by (simp add: drm_sched_rq_select_entity_def split: option.splits)

lemma rq_select_SomeD:
  "rq_wf (the_rq w r) \<Longrightarrow> drm_sched_rq_select_entity r w = (Some e, w')
     \<Longrightarrow> e \<in> set (rq_entities (the_rq w r)) \<and> ready_in w e"
  by (auto simp: drm_sched_rq_select_entity_def rq_pick_find ready_in_def set_scan_order [symmetric]
      simp del: scan_order.simps split: option.splits dest!: find_SomeD)

lemma select_prio_Some:
  assumes "\<forall>i\<in>set is. rq_wf (the_rq w (s, i))" and "sorted_wrt (>) is"
    and "select_prio s is w = (Some e, w')"
  shows "\<exists>i\<in>set is. e \<in> set (rq_entities (the_rq w (s, i))) \<and> ready_in w e
           \<and> (\<forall>k\<in>set is. i < k \<longrightarrow> (\<forall>x\<in>set (rq_entities (the_rq w (s, k))). \<not> ready_in w x))"
  using assms
proof (induction "is")
  case (Cons i "is")
  show ?case
  proof (cases "fst (drm_sched_rq_select_entity (s, i) w)")
    case None
    then have w: "drm_sched_rq_select_entity (s, i) w = (None, w)"
      by (metis prod.collapse rq_select_None_same)
    with Cons have "\<exists>i'\<in>set is. e \<in> set (rq_entities (the_rq w (s, i'))) \<and> ready_in w e
           \<and> (\<forall>k\<in>set is. i' < k \<longrightarrow> (\<forall>x\<in>set (rq_entities (the_rq w (s, k))). \<not> ready_in w x))"
      by simp
    moreover have "\<forall>x\<in>set (rq_entities (the_rq w (s, i))). \<not> ready_in w x"
      using None Cons.prems(1) rq_select_None_iff by auto
    ultimately show ?thesis by (metis list.set_intros(2) set_ConsD)
  next
    case (Some e')
    then have "drm_sched_rq_select_entity (s, i) w = (Some e, w')"
      using Cons.prems(3) by (auto split: prod.splits)
    then have "e \<in> set (rq_entities (the_rq w (s, i))) \<and> ready_in w e"
      using Cons.prems(1) by (intro rq_select_SomeD) auto
    moreover have "\<forall>k\<in>set (i # is). \<not> i < k" using Cons.prems(2) by auto
    ultimately show ?thesis by auto
  qed
qed simp

lemma select_prio_None:
  assumes "\<forall>i\<in>set is. rq_wf (the_rq w (s, i))"
  shows "fst (select_prio s is w) = None
    \<longleftrightarrow> (\<forall>i\<in>set is. \<forall>x\<in>set (rq_entities (the_rq w (s, i))). \<not> ready_in w x)"
  using assms
proof (induction "is")
  case (Cons i "is")
  show ?case
  proof (cases "fst (drm_sched_rq_select_entity (s, i) w)")
    case None
    then have "drm_sched_rq_select_entity (s, i) w = (None, w)"
      by (metis prod.collapse rq_select_None_same)
    then show ?thesis using Cons None rq_select_None_iff [of w "(s, i)"] by simp
  next
    case (Some e')
    then show ?thesis using Cons.prems rq_select_None_iff [of w "(s, i)"]
      by (auto split: prod.splits)
  qed
qed simp

section \<open>A concrete fence subsystem and state\<close>

text \<open>
  Used to exhibit instances of the theorems below: the signalled fences and the registered
  callbacks.  Registering on a signalled fence gives \<^verbatim>\<open>-ENOENT\<close>, as \<^verbatim>\<open>dma_fence_add_callback\<close>
  documents.
\<close>

type_synonym ex_fences = "fence list \<times> (fence \<times> cb_node) list"

definition ex_dma :: "ex_fences dma_ops" where
  "ex_dma = \<lparr>f_is_signaled = (\<lambda>f s. f \<in> set (fst s)), f_is_later = (\<lambda>f g s. f \<noteq> g),
     f_ext_context = (\<lambda>n. of_nat n),
     f_init = (\<lambda>f s. (removeAll f (fst s), snd s)), f_signal = (\<lambda>f s. (f # fst s, snd s)),
     f_wait = (\<lambda>f s. (f # fst s, snd s)), f_set_error = (\<lambda>f e s. s),
     f_add_callback = (\<lambda>f n c s. if f \<in> set (fst s) then (- ENOENT, s) else (0, (fst s, (f, n) # snd s))),
     f_remove_callback = (\<lambda>f n s. ((f, n) \<in> set (snd s), (fst s, removeAll (f, n) (snd s))))\<rparr>"

definition ex_run :: "ex_fences run_job" where
  "ex_run j s = (RunFence (Ext j), s)"

definition ex_entity :: "nat list \<Rightarrow> u64 \<Rightarrow> drm_sched_entity" where
  "ex_entity js ctx = \<lparr>e_linked = True, e_rq = Some (0, 1), e_sched_list = None, e_num_sched_list = 1,
     e_priority = 1, e_job_queue = js, e_fence_seq = 0, e_fence_context = ctx, e_dependency = None,
     e_guilty = None, e_last_scheduled = None, e_last_user = None, e_stopped = False, e_idle = 1\<rparr>"

definition ex_sched :: drm_gpu_scheduler where
  "ex_sched = \<lparr>hw_submission_limit = 8, timeout = MAX_SCHEDULE_TIMEOUT,
     sched_rq = [drm_sched_rq_init, \<lparr>rq_entities = [1, 2], rq_current = Some 1\<rparr>,
                 drm_sched_rq_init, drm_sched_rq_init],
     hw_rq_count = 0, job_id_count = 0, tdr_pending = False, tdr_expires = 0, thread = True,
     thread_parked = False, pending_list = [], hang_limit = 0, score = 0, ready = True,
     free_guilty = False\<rparr>"

definition ex_job :: "nat \<Rightarrow> fence option list \<Rightarrow> drm_sched_job" where
  "ex_job e ds = \<lparr>j_sched = 0, j_s_fence = Some \<lparr>sf_sched = Some 0, sf_context = 10 * of_nat e, sf_seqno = 1,
     sf_parent = None\<rparr>, j_id = 1, j_karma = 0, j_s_priority = 1, j_entity = e, j_dependencies = ds,
     j_last_dependency = 0\<rparr>"

text \<open>Two entities with a queued job each; job 20 depends on fence 7, which has signalled.\<close>

definition ex_world :: "ex_fences world" where
  "ex_world = \<lparr>scheds = (\<lambda>_. ex_sched),
     ents = (\<lambda>e. if e = 1 then ex_entity [10] 10 else ex_entity [20] 20),
     jobs = (\<lambda>j. if j = 10 then ex_job 1 [] else ex_job 2 [Some (Ext 7)]),
     cells = (\<lambda>_. 4), fs = ([Ext 7], []), kill_work = [], freed = []\<rparr>"

lemma ex_world_rq [simp]:
  "the_rq ex_world (0, Suc 0) = \<lparr>rq_entities = [1, 2], rq_current = Some 1\<rparr>"
  by (simp add: the_rq_def ex_world_def ex_sched_def)

section \<open>Properties of selection\<close>

lemma rq_select_update:
  assumes "snd r < length (sched_rq (scheds w (fst r)))"
    and "rq_pick (\<lambda>e. drm_sched_entity_is_ready (ents w e)) (the_rq w r) = Some x"
  shows "the_rq (snd (drm_sched_rq_select_entity r w)) r = (the_rq w r)\<lparr>rq_current := Some x\<rparr>"
  using assms by (simp add: drm_sched_rq_select_entity_def the_rq_upd_rq)

lemma turns_bound:
  fixes ws :: "nat \<Rightarrow> 'f world"
  assumes "\<forall>n. snd r < length (sched_rq (scheds (ws n) (fst r)))"
    and "\<forall>n. drm_sched_entity_is_ready (ents (ws n) e)"
    and "\<forall>n. the_rq (ws (Suc n)) r = the_rq (snd (drm_sched_rq_select_entity r (ws n))) r"
    and "rq_wf (the_rq (ws k) r)" and "e \<in> set (rq_entities (the_rq (ws k) r))"
  shows "\<exists>n \<le> turns_before e (the_rq (ws k) r). fst (drm_sched_rq_select_entity r (ws (k + n))) = Some e"
  using assms(4,5)
proof (induction "turns_before e (the_rq (ws k) r)" arbitrary: k rule: less_induct)
  case less
  let ?rdy = "\<lambda>x. drm_sched_entity_is_ready (ents (ws k) x)"
  obtain x where x: "rq_pick ?rdy (the_rq (ws k) r) = Some x" "x \<in> set (rq_entities (the_rq (ws k) r))"
    "x = e \<or> turns_before e ((the_rq (ws k) r)\<lparr>rq_current := Some x\<rparr>) < turns_before e (the_rq (ws k) r)"
    using rq_pick_progress [of "the_rq (ws k) r" ?rdy e] less.prems assms(2) by auto
  have sel: "fst (drm_sched_rq_select_entity r (ws k)) = Some x"
    using x(1) by (simp add: drm_sched_rq_select_entity_def)
  show ?case
  proof (cases "x = e")
    case True
    with sel show ?thesis by (intro exI [of _ 0]) simp
  next
    case False
    have nxt: "the_rq (ws (Suc k)) r = (the_rq (ws k) r)\<lparr>rq_current := Some x\<rparr>"
      using assms(1,3) rq_select_update [OF _ x(1)] by simp
    have "\<exists>n \<le> turns_before e (the_rq (ws (Suc k)) r).
            fst (drm_sched_rq_select_entity r (ws (Suc k + n))) = Some e"
      using False x less.prems by (intro less.hyps) (auto simp: nxt rq_wf_set_current)
    then obtain n where "n \<le> turns_before e (the_rq (ws (Suc k)) r)"
      "fst (drm_sched_rq_select_entity r (ws (Suc k + n))) = Some e" by blast
    moreover have "turns_before e (the_rq (ws (Suc k)) r) < turns_before e (the_rq (ws k) r)"
      using False x nxt by simp
    ultimately show ?thesis by (intro exI [of _ "Suc n"]) simp
  qed
qed

text \<open>
  C6: Fairness within a run queue.  While no entity joins or leaves the run queue between the
  selections, an entity that stays ready is selected within as many selections as the run queue has
  entities, however the readiness of the others changes from one selection to the next.  (An entity
  that leaves may be the current one, which makes the search start over at the head.)
\<close>

theorem drm_sched_rq_select_fair:
  fixes ws :: "nat \<Rightarrow> 'f world"
  assumes "\<forall>n. snd r < length (sched_rq (scheds (ws n) (fst r)))"
    and "\<forall>n. drm_sched_entity_is_ready (ents (ws n) e)"
    and "\<forall>n. the_rq (ws (Suc n)) r = the_rq (snd (drm_sched_rq_select_entity r (ws n))) r"
    and "rq_wf (the_rq (ws 0) r)" and "e \<in> set (rq_entities (the_rq (ws 0) r))"
  shows "\<exists>n < length (rq_entities (the_rq (ws 0) r)). fst (drm_sched_rq_select_entity r (ws n)) = Some e"
  using turns_bound [OF assms] turns_before_less [OF assms(4,5)] by (auto intro: le_less_trans)

lemma select_keeps_rqs:
  "length (sched_rq (scheds (snd (drm_sched_rq_select_entity r w)) s)) = length (sched_rq (scheds w s))"
  by (auto simp: drm_sched_rq_select_entity_def upd_defs split: option.splits)

lemma select_keeps_ready:
  "drm_sched_entity_is_ready (ents (snd (drm_sched_rq_select_entity r w)) e)
     = drm_sched_entity_is_ready (ents w e)"
  by (auto simp: drm_sched_rq_select_entity_def drm_sched_entity_is_ready_def upd_defs split: option.splits)

theorem drm_sched_rq_select_fair_witness:
  "\<exists>n < 2. fst (drm_sched_rq_select_entity (0, 1)
      (((\<lambda>w. snd (drm_sched_rq_select_entity (0, 1) w)) ^^ n) ex_world)) = Some 1"
proof -
  let ?f = "\<lambda>w. snd (drm_sched_rq_select_entity (0, 1) w)"
  have len: "\<forall>n. length (sched_rq (scheds ((?f ^^ n) ex_world) 0)) = 4"
  proof
    fix n show "length (sched_rq (scheds ((?f ^^ n) ex_world) 0)) = 4"
      by (induction n) (simp_all add: select_keeps_rqs, simp add: ex_world_def ex_sched_def)
  qed
  have rdy: "\<forall>n. drm_sched_entity_is_ready (ents ((?f ^^ n) ex_world) 1)"
  proof
    fix n show "drm_sched_entity_is_ready (ents ((?f ^^ n) ex_world) 1)"
      by (induction n)
        (simp_all add: select_keeps_ready, simp add: ex_world_def ex_entity_def drm_sched_entity_is_ready_def)
  qed
  show ?thesis
    using drm_sched_rq_select_fair [of "(0, 1)" "\<lambda>n. (?f ^^ n) ex_world" 1] len rdy
    by (simp add: rq_wf_def numeral_2_eq_2)
qed

text \<open>
  C7: Strict priorities and the hardware limit.  A selected entity is ready, sits in a run queue of
  the scheduler, and no run queue of higher priority has a ready entity; nothing is selected
  exactly when the hardware queue is full or no entity of the scheduler is ready.
\<close>

theorem drm_sched_select_entity_priority:
  assumes "\<forall>i < DRM_SCHED_PRIORITY_COUNT. rq_wf (the_rq w (s, i))"
  shows "case fst (drm_sched_select_entity s w) of
      Some e \<Rightarrow> hw_rq_count (scheds w s) < hw_submission_limit (scheds w s)
        \<and> (\<exists>i < DRM_SCHED_PRIORITY_COUNT. e \<in> set (rq_entities (the_rq w (s, i)))
            \<and> drm_sched_entity_is_ready (ents w e)
            \<and> (\<forall>k < DRM_SCHED_PRIORITY_COUNT. i < k \<longrightarrow>
                 (\<forall>x \<in> set (rq_entities (the_rq w (s, k))). \<not> drm_sched_entity_is_ready (ents w x))))
    | None \<Rightarrow> hw_submission_limit (scheds w s) \<le> hw_rq_count (scheds w s)
        \<or> (\<forall>k < DRM_SCHED_PRIORITY_COUNT.
             \<forall>x \<in> set (rq_entities (the_rq w (s, k))). \<not> drm_sched_entity_is_ready (ents w x))"
proof (cases "drm_sched_ready (scheds w s)")
  case False
  then show ?thesis by (simp add: drm_sched_select_entity_def drm_sched_ready_def not_less)
next
  case True
  let ?is = "rev [0..<DRM_SCHED_PRIORITY_COUNT]"
  have wf: "\<forall>i\<in>set ?is. rq_wf (the_rq w (s, i))" using assms by simp
  have srt: "sorted_wrt (>) ?is" by (simp add: sorted_wrt_rev)
  have sel: "drm_sched_select_entity s w = select_prio s ?is w"
    using True by (simp add: drm_sched_select_entity_def)
  show ?thesis
  proof (cases "fst (select_prio s ?is w)")
    case None
    then show ?thesis using select_prio_None [OF wf] by (simp add: sel ready_in_def)
  next
    case (Some e)
    then have "select_prio s ?is w = (Some e, snd (select_prio s ?is w))" by (metis prod.collapse)
    from select_prio_Some [OF wf srt this] Some True show ?thesis
      by (simp add: sel ready_in_def drm_sched_ready_def Bex_def Ball_def)
  qed
qed

theorem drm_sched_select_entity_priority_witness:
  "fst (drm_sched_select_entity 0 ex_world) = Some 2
   \<and> \<not> (\<exists>x \<in> set (rq_entities (the_rq ex_world (0, 3))). drm_sched_entity_is_ready (ents ex_world x))"
proof -
  have "\<forall>i < DRM_SCHED_PRIORITY_COUNT. rq_wf (the_rq ex_world (0, i))"
    by (auto simp: DRM_SCHED_PRIORITY_COUNT_def rq_wf_def the_rq_def ex_world_def ex_sched_def less_Suc_eq
        numeral_eq_Suc drm_sched_rq_init_def)
  note p = drm_sched_select_entity_priority [OF this]
  have sel: "fst (drm_sched_select_entity 0 ex_world) = Some 2"
    by (simp add: drm_sched_select_entity_def drm_sched_ready_def DRM_SCHED_PRIORITY_COUNT_def
        ex_world_def ex_sched_def upt_rec drm_sched_rq_select_entity_def rq_pick_def the_rq_def
        drm_sched_rq_init_def after_def ex_entity_def drm_sched_entity_is_ready_def)
  moreover have "rq_entities (the_rq ex_world (0, 3)) = []"
    by (simp add: the_rq_def ex_world_def ex_sched_def drm_sched_rq_init_def)
  ultimately show ?thesis using p by simp
qed

section \<open>Load balancing\<close>

definition sched_score :: "'f world \<Rightarrow> nat \<Rightarrow> u32" where
  "sched_score w s = cells w (score (scheds w s))"

lemma pick_loop_best:
  assumes "picked \<noteq> None \<longrightarrow> P (the picked) \<and> sched_score w (the picked) = m"
    and "\<forall>s\<in>set ss. P s"
  shows "case pick_loop w ss m picked of
      None \<Rightarrow> picked = None \<and> (\<forall>s\<in>set ss. ready (scheds w s) \<longrightarrow> m \<le> sched_score w s)
    | Some b \<Rightarrow> P b \<and> (picked = Some b \<or> b \<in> set ss \<and> ready (scheds w b)) \<and> sched_score w b \<le> m
        \<and> (\<forall>s\<in>set ss. ready (scheds w s) \<longrightarrow> sched_score w b \<le> sched_score w s)"
  using assms
proof (induction ss arbitrary: m picked)
  case Nil
  then show ?case by (cases picked) auto
next
  case (Cons s ss)
  show ?case
  proof (cases "ready (scheds w s) \<and> sched_score w s < m")
    case True
    have "picked \<noteq> None \<longrightarrow> True" by simp
    from Cons.IH [of "Some s" "sched_score w s"] Cons.prems True show ?thesis
      by (auto simp: sched_score_def Let_def split: option.splits)
  next
    case False
    then have *: "pick_loop w (s # ss) m picked = pick_loop w ss m picked"
      by (auto simp: sched_score_def Let_def)
    from Cons.IH [of picked m] Cons.prems False show ?thesis
      unfolding * by (auto split: option.splits)
  qed
qed

text \<open>
  \<open>drm_sched_pick_best\<close> returns a ready scheduler of the list with the least score, and none
  exactly when no listed scheduler is ready with a score below \<^verbatim>\<open>UINT_MAX\<close>.
\<close>

theorem drm_sched_pick_best_least:
  "case drm_sched_pick_best w sched_list num of
     Some b \<Rightarrow> b \<in> the ` set (take (unat num) sched_list) \<and> ready (scheds w b)
       \<and> (\<forall>s \<in> the ` set (take (unat num) sched_list). ready (scheds w s) \<longrightarrow> sched_score w b \<le> sched_score w s)
   | None \<Rightarrow> (\<forall>s \<in> the ` set (take (unat num) sched_list). ready (scheds w s) \<longrightarrow> sched_score w s = 0xFFFFFFFF)"
proof -
  have max: "\<And>x :: u32. 0xFFFFFFFF \<le> x \<longleftrightarrow> x = 0xFFFFFFFF"
  proof -
    fix x :: u32
    have "(0xFFFFFFFF :: u32) = - 1" by simp
    then show "0xFFFFFFFF \<le> x \<longleftrightarrow> x = 0xFFFFFFFF" by (simp only: word_order.extremum_unique)
  qed
  show ?thesis
    using pick_loop_best [of None "\<lambda>_. True" w "0xFFFFFFFF" "map the (take (unat num) sched_list)"]
    by (auto simp: drm_sched_pick_best_def max split: option.splits)
qed

theorem drm_sched_pick_best_least_witness:
  "drm_sched_pick_best (ex_world\<lparr>scheds := (\<lambda>s. ex_sched\<lparr>score := s, ready := s \<noteq> 0\<rparr>), cells := (\<lambda>c. if c = 2 then 7 else 8)\<rparr>)
     [Some 0, Some 1, Some 2] 3 = Some 2"
proof -
  let ?w = "ex_world\<lparr>scheds := (\<lambda>s. ex_sched\<lparr>score := s, ready := s \<noteq> 0\<rparr>), cells := (\<lambda>c. if c = 2 then 7 else 8)\<rparr>"
  have "drm_sched_pick_best ?w [Some 0, Some 1, Some 2] 3 \<noteq> None"
    by (simp add: drm_sched_pick_best_def)
  then show ?thesis
    using drm_sched_pick_best_least [where w = ?w and sched_list = "[Some 0, Some 1, Some 2]" and num = 3]
    by (auto simp: sched_score_def)
qed

section \<open>Dependencies\<close>

text \<open>What the scheduler relies on of the kernel's fences, as their documentation states it.\<close>

definition fence_laws :: "'f dma_ops \<Rightarrow> bool" where
  "fence_laws D \<longleftrightarrow>
     (\<forall>f n c s. fst (f_add_callback D f n c s) = (if f_is_signaled D f s then - ENOENT else 0)
        \<and> (\<forall>g. f_is_signaled D g (snd (f_add_callback D f n c s)) = f_is_signaled D g s))
   \<and> (\<forall>f n s g. f_is_signaled D g (snd (f_remove_callback D f n s)) = f_is_signaled D g s)
   \<and> (\<forall>f e s g. f_is_signaled D g (f_set_error D f e s) = f_is_signaled D g s)
   \<and> (\<forall>f s g. f_is_signaled D g (f_signal D f s) = (g = f \<or> f_is_signaled D g s))
   \<and> (\<forall>f s g. f_is_signaled D g (f_init D f s) = (g \<noteq> f \<and> f_is_signaled D g s))"

lemma ex_dma_laws: "fence_laws ex_dma"
  by (auto simp: fence_laws_def ex_dma_def)

lemma fence_laws_add:
  "fence_laws D \<Longrightarrow> f_add_callback D f n c s = (r, s') \<Longrightarrow>
     r = (if f_is_signaled D f s then - ENOENT else 0) \<and> (\<forall>g. f_is_signaled D g s' = f_is_signaled D g s)"
  unfolding fence_laws_def by (metis fst_conv snd_conv)

text \<open>
  When a dependency no longer holds a job of entity \<open>e\<close> back: it is one of the entity's own
  fences, it has signalled, or it belongs to a job of the same scheduler that has been scheduled.
\<close>

definition dep_met :: "'f dma_ops \<Rightarrow> 'f world \<Rightarrow> nat \<Rightarrow> fence \<Rightarrow> bool" where
  "dep_met D w e f \<longleftrightarrow>
     fence_context D w f = e_fence_context (ents w e)
   \<or> fence_context D w f = e_fence_context (ents w e) + 1
   \<or> f_is_signaled D f (fs w)
   \<or> (\<exists>k. to_drm_sched_fence f = Some k \<and> sf_sched (sf_of w k) = map_option fst (e_rq (ents w e))
        \<and> f_is_signaled D (Scheduled k) (fs w))"

text \<open>The fence an entity waits on for a dependency: the scheduled fence for its own scheduler.\<close>

definition dep_wait :: "'f world \<Rightarrow> nat \<Rightarrow> fence \<Rightarrow> fence" where
  "dep_wait w e f = (case to_drm_sched_fence f of
     Some k \<Rightarrow> if sf_sched (sf_of w k) = map_option fst (e_rq (ents w e)) then Scheduled k else f
   | None \<Rightarrow> f)"

text \<open>Taking dependencies changes the dependency fields and the callbacks only.\<close>

definition deps_only :: "'f dma_ops \<Rightarrow> nat \<Rightarrow> nat \<Rightarrow> 'f world \<Rightarrow> 'f world \<Rightarrow> bool" where
  "deps_only D j e w w' \<longleftrightarrow> scheds w' = scheds w \<and> cells w' = cells w \<and> kill_work w' = kill_work w
     \<and> freed w' = freed w \<and> (\<forall>g. f_is_signaled D g (fs w') = f_is_signaled D g (fs w))
     \<and> (\<exists>d. ents w' = (ents w)(e := (ents w e)\<lparr>e_dependency := d\<rparr>))
     \<and> (\<exists>ds i. jobs w' = (jobs w)(j := (jobs w j)\<lparr>j_dependencies := ds, j_last_dependency := i\<rparr>))"

lemma deps_only_refl [simp]: "deps_only D j e w w"
  unfolding deps_only_def by (auto intro!: exI [of _ "e_dependency (ents w e)"]
      exI [of _ "j_dependencies (jobs w j)"] exI [of _ "j_last_dependency (jobs w j)"])

lemma deps_only_trans: "deps_only D j e w w1 \<Longrightarrow> deps_only D j e w1 w2 \<Longrightarrow> deps_only D j e w w2"
proof -
  assume 1: "deps_only D j e w w1" and 2: "deps_only D j e w1 w2"
  obtain d1 ds1 i1 where e1: "ents w1 = (ents w)(e := (ents w e)\<lparr>e_dependency := d1\<rparr>)"
    and j1: "jobs w1 = (jobs w)(j := (jobs w j)\<lparr>j_dependencies := ds1, j_last_dependency := i1\<rparr>)"
    using 1 unfolding deps_only_def by blast
  obtain d2 ds2 i2 where e2: "ents w2 = (ents w1)(e := (ents w1 e)\<lparr>e_dependency := d2\<rparr>)"
    and j2: "jobs w2 = (jobs w1)(j := (jobs w1 j)\<lparr>j_dependencies := ds2, j_last_dependency := i2\<rparr>)"
    using 2 unfolding deps_only_def by blast
  have "ents w2 = (ents w)(e := (ents w e)\<lparr>e_dependency := d2\<rparr>)"
    unfolding e2 e1 by simp
  moreover have "jobs w2 = (jobs w)(j := (jobs w j)\<lparr>j_dependencies := ds2, j_last_dependency := i2\<rparr>)"
    unfolding j2 j1 by simp
  ultimately show ?thesis using 1 2 unfolding deps_only_def by auto
qed

lemma deps_only_sf: "deps_only D j e w w' \<Longrightarrow> sf_of w' = sf_of w"
  unfolding deps_only_def sf_of_def by (elim conjE exE) (auto simp: fun_eq_iff)

lemma deps_only_context: "deps_only D j e w w' \<Longrightarrow> fence_context D w' f = fence_context D w f"
  by (cases f) (simp_all add: deps_only_sf)

lemma deps_only_ent:
  "deps_only D j e w w' \<Longrightarrow> \<exists>d. ents w' x = (ents w x)\<lparr>e_dependency := d\<rparr>"
  unfolding deps_only_def by (elim conjE exE) (cases "x = e", auto intro: exI [of _ "e_dependency (ents w x)"])

lemma deps_only_signaled: "deps_only D j e w w' \<Longrightarrow> f_is_signaled D g (fs w') = f_is_signaled D g (fs w)"
  by (simp add: deps_only_def)

lemma deps_only_met:
  assumes "deps_only D j e w w'"
  shows "dep_met D w' x f = dep_met D w x f"
proof -
  obtain d where "ents w' x = (ents w x)\<lparr>e_dependency := d\<rparr>"
    using deps_only_ent [OF assms] by blast
  then show ?thesis
    by (simp add: dep_met_def deps_only_context [OF assms] deps_only_sf [OF assms] deps_only_signaled [OF assms])
qed

lemma deps_only_wait:
  assumes "deps_only D j e w w'"
  shows "dep_wait w' x f = dep_wait w x f"
proof -
  obtain d where "ents w' x = (ents w x)\<lparr>e_dependency := d\<rparr>"
    using deps_only_ent [OF assms] by blast
  then show ?thesis
    by (simp add: dep_wait_def deps_only_sf [OF assms] split: option.split)
qed

lemma deps_only_upd_job:
  "deps_only D j e w (upd_job j (\<lambda>x. x\<lparr>j_dependencies := ds, j_last_dependency := i\<rparr>) w)"
  by (auto simp: deps_only_def upd_job_def intro!: exI [of _ "e_dependency (ents w e)"])

lemma deps_only_job_dependency:
  "drm_sched_job_dependency j w = (d, w') \<Longrightarrow> deps_only D j e w w'"
  by (auto simp: drm_sched_job_dependency_def Let_def deps_only_upd_job split: if_splits)

lemma deps_only_upd_dependency:
  "deps_only D j e w (upd_ent e (\<lambda>x. x\<lparr>e_dependency := d\<rparr>) w)"
  by (auto simp: deps_only_def upd_ent_def intro!: exI [of _ "j_dependencies (jobs w j)"]
      exI [of _ "j_last_dependency (jobs w j)"])

lemma deps_only_fs:
  "(\<And>g. f_is_signaled D g f' = f_is_signaled D g (fs w)) \<Longrightarrow> deps_only D j e w (w\<lparr>fs := f'\<rparr>)"
  by (auto simp: deps_only_def intro!: exI [of _ "j_dependencies (jobs w j)"]
      exI [of _ "j_last_dependency (jobs w j)"] exI [of _ "e_dependency (ents w e)"])

text \<open>Registering for a dependency, in one case distinction.\<close>

lemma add_dependency_cb_form:
  assumes "e_dependency (ents w e) = Some f" and "e_rq (ents w e) = Some r"
  shows "\<exists>fn. drm_sched_entity_add_dependency_cb D e w =
     (if fence_context D w f = e_fence_context (ents w e) \<or> fence_context D w f = e_fence_context (ents w e) + 1
      then (False, w)
      else let (ret, f') = f_add_callback D (dep_wait w e f) (entity_cb e) fn (fs w)
           in (ret = 0, (upd_ent e (\<lambda>x. x\<lparr>e_dependency := Some (dep_wait w e f)\<rparr>) w)\<lparr>fs := f'\<rparr>))"
proof -
  have same: "upd_ent e (\<lambda>x. x\<lparr>e_dependency := Some f\<rparr>) w = w"
    using assms(1) [symmetric] by (simp add: upd_ent_def)
  have same': "upd_ent e (\<lambda>x. x\<lparr>e_dependency := Some f\<rparr>) w\<lparr>fs := g\<rparr> = w\<lparr>fs := g\<rparr>" for g
    using arg_cong [OF same, of "\<lambda>w. w\<lparr>fs := g\<rparr>"] by simp
  note defs = drm_sched_entity_add_dependency_cb_def dep_wait_def Let_def assms option.sel
  show ?thesis
  proof (cases "to_drm_sched_fence f")
    case None
    then show ?thesis unfolding defs
      by (intro exI [of _ drm_sched_entity_wakeup_cb]) (simp add: same' split: prod.split)
  next
    case (Some k)
    show ?thesis
    proof (cases "sf_sched (sf_of w k) = Some (fst r)")
      case True
      then show ?thesis using Some unfolding defs
        by (intro exI [of _ drm_sched_entity_clear_dep_cb]) (simp add: upd_ent_def split: prod.split)
    next
      case False
      then show ?thesis using Some unfolding defs
        by (intro exI [of _ drm_sched_entity_wakeup_cb]) (simp add: same' split: prod.split)
    qed
  qed
qed

lemma add_dependency_cb_spec:
  assumes "fence_laws D" and "e_dependency (ents w e) = Some f" and "e_rq (ents w e) = Some r"
    and "drm_sched_entity_add_dependency_cb D e w = (b, w')"
  shows "deps_only D j e w w'" and "jobs w' = jobs w"
    and "\<not> b \<Longrightarrow> dep_met D w e f"
    and "b \<Longrightarrow> e_dependency (ents w' e) = Some (dep_wait w e f) \<and> \<not> f_is_signaled D (dep_wait w e f) (fs w)"
proof -
  obtain fn where form: "drm_sched_entity_add_dependency_cb D e w =
     (if fence_context D w f = e_fence_context (ents w e) \<or> fence_context D w f = e_fence_context (ents w e) + 1
      then (False, w)
      else let (ret, f') = f_add_callback D (dep_wait w e f) (entity_cb e) fn (fs w)
           in (ret = 0, (upd_ent e (\<lambda>x. x\<lparr>e_dependency := Some (dep_wait w e f)\<rparr>) w)\<lparr>fs := f'\<rparr>))"
    using add_dependency_cb_form [OF assms(2,3)] by blast
  obtain ret f' where cb: "f_add_callback D (dep_wait w e f) (entity_cb e) fn (fs w) = (ret, f')"
    by (cases "f_add_callback D (dep_wait w e f) (entity_cb e) fn (fs w)")
  note law = fence_laws_add [OF assms(1) cb]
  have step: "deps_only D j e w ((upd_ent e (\<lambda>x. x\<lparr>e_dependency := d\<rparr>) w)\<lparr>fs := f'\<rparr>)" for d
    by (rule deps_only_trans [OF deps_only_upd_dependency deps_only_fs]) (simp add: law upd_ent_def)
  have met: "f_is_signaled D (dep_wait w e f) (fs w) \<Longrightarrow> dep_met D w e f"
    by (auto simp: dep_wait_def dep_met_def split: option.splits if_splits)
  show "deps_only D j e w w'"
    using assms(4) step unfolding form cb by (auto split: if_splits)
  show "jobs w' = jobs w"
    using assms(4) unfolding form cb by (auto simp: upd_ent_def split: if_splits)
  show "\<not> b \<Longrightarrow> dep_met D w e f"
    using assms(4) law met unfolding form cb by (auto simp: dep_met_def split: if_splits)
  show "b \<Longrightarrow> e_dependency (ents w' e) = Some (dep_wait w e f) \<and> \<not> f_is_signaled D (dep_wait w e f) (fs w)"
    using assms(4) law unfolding form cb by (auto simp: upd_ent_def split: if_splits)
qed

text \<open>The entries still to take start at \<^verbatim>\<open>last_dependency\<close>, without gaps.\<close>

definition deps_wf :: "drm_sched_job \<Rightarrow> bool" where
  "deps_wf x \<longleftrightarrow> (\<forall>i < length (j_dependencies x). j_dependencies x ! i = None \<longleftrightarrow> i < j_last_dependency x)"

lemma job_dependency_spec:
  assumes "deps_wf (jobs w j)" and "drm_sched_job_dependency j w = (d, w')"
  shows "deps_wf (jobs w' j)"
    and "d = None \<Longrightarrow> Some f \<notin> set (j_dependencies (jobs w j))"
    and "d = Some g \<Longrightarrow> Some f \<in> set (j_dependencies (jobs w j)) \<longleftrightarrow> f = g \<or> Some f \<in> set (j_dependencies (jobs w' j))"
proof -
  let ?x = "jobs w j" let ?ds = "j_dependencies ?x" and ?i = "j_last_dependency ?x"
  have wf: "\<And>k. k < length ?ds \<Longrightarrow> ?ds ! k = None \<longleftrightarrow> k < ?i" using assms(1) by (simp add: deps_wf_def)
  have res: "d = (if (\<exists>d\<in>set ?ds. d \<noteq> None) \<and> ?i < length ?ds then ?ds ! ?i else None)"
    using assms(2) by (auto simp: drm_sched_job_dependency_def Let_def split: if_splits)
  have ds': "jobs w' j = (if \<exists>d\<in>set ?ds. d \<noteq> None
      then ?x\<lparr>j_dependencies := ?ds[?i := None], j_last_dependency := ?i + 1\<rparr> else ?x)"
    using assms(2) by (auto simp: drm_sched_job_dependency_def Let_def upd_job_def split: if_splits)
  show "deps_wf (jobs w' j)"
    using wf unfolding ds' by (auto simp: deps_wf_def nth_list_update less_Suc_eq)
  show "Some f \<notin> set ?ds" if "d = None"
  proof
    assume "Some f \<in> set ?ds"
    then obtain k where k: "k < length ?ds" "?ds ! k = Some f" by (auto simp: in_set_conv_nth)
    with wf [of k] have "?i \<le> k" by simp
    with k have "?i < length ?ds" by simp
    moreover have "\<exists>d\<in>set ?ds. d \<noteq> None" using \<open>Some f \<in> set ?ds\<close> by blast
    ultimately show False using wf [of ?i] res that by simp
  qed
  show "Some f \<in> set ?ds \<longleftrightarrow> f = g \<or> Some f \<in> set (j_dependencies (jobs w' j))" if "d = Some g"
  proof -
    have i: "?i < length ?ds" "?ds ! ?i = Some g" "\<exists>d\<in>set ?ds. d \<noteq> None"
      using res that by (auto split: if_splits)
    have "set (?ds[?i := None]) = insert None (set (take ?i ?ds) \<union> set (drop (Suc ?i) ?ds))"
      using i(1) by (simp add: upd_conv_take_nth_drop)
    moreover have "set ?ds = insert (Some g) (set (take ?i ?ds) \<union> set (drop (Suc ?i) ?ds))"
      using id_take_nth_drop [OF i(1)] i(2) by (metis Un_insert_right list.simps(15) set_append)
    ultimately show ?thesis using i(3) unfolding ds' by simp
  qed
qed

lemma pop_deps_spec:
  assumes "fence_laws D" and "e_rq (ents w e) = Some r" and "deps_wf (jobs w j)"
    and "pop_deps D j e w = (b, w')"
  shows "deps_only D j e w w'
    \<and> (\<not> b \<longrightarrow> e_dependency (ents w' e) = None
         \<and> (\<forall>f. Some f \<in> set (j_dependencies (jobs w j)) \<longrightarrow> dep_met D w e f))
    \<and> (b \<longrightarrow> (\<exists>f. Some f \<in> set (j_dependencies (jobs w j))
         \<and> e_dependency (ents w' e) = Some (dep_wait w e f) \<and> \<not> f_is_signaled D (dep_wait w e f) (fs w)))"
  using assms(2-)
proof (induction "deps_left j w" arbitrary: w rule: less_induct)
  case less
  obtain d w1 where jd: "drm_sched_job_dependency j w = (d, w1)"
    by (cases "drm_sched_job_dependency j w")
  note only1 = deps_only_job_dependency [OF jd, of D e]
  note spec1 = job_dependency_spec [OF less.prems(2) jd]
  show ?case
  proof (cases d)
    case None
    then have w': "\<not> b" "w' = upd_ent e (\<lambda>x. x\<lparr>e_dependency := None\<rparr>) w1"
      using less.prems(3) jd by (simp_all add: pop_deps.simps)
    have "deps_only D j e w w'"
      unfolding w'(2) by (rule deps_only_trans [OF only1 deps_only_upd_dependency])
    moreover have "e_dependency (ents w' e) = None" by (simp add: w'(2) upd_ent_def)
    ultimately show ?thesis using w'(1) spec1(2) [OF None] by blast
  next
    case (Some f)
    let ?w2 = "upd_ent e (\<lambda>x. x\<lparr>e_dependency := Some f\<rparr>) w1"
    have only2: "deps_only D j e w ?w2"
      by (rule deps_only_trans [OF only1 deps_only_upd_dependency])
    obtain b3 w3 where cb: "drm_sched_entity_add_dependency_cb D e ?w2 = (b3, w3)"
      by (cases "drm_sched_entity_add_dependency_cb D e ?w2")
    have dep2: "e_dependency (ents ?w2 e) = Some f" by (simp add: upd_ent_def)
    have rq2: "e_rq (ents ?w2 e) = Some r"
      using deps_only_ent [OF only2, of e] less.prems(1) by auto
    note spec2 = add_dependency_cb_spec [OF assms(1) dep2 rq2 cb]
    have only3: "deps_only D j e w w3" by (rule deps_only_trans [OF only2 spec2(1)])
    have f: "Some f \<in> set (j_dependencies (jobs w j))" using spec1(3) [OF Some] by blast
    have jobs3: "jobs w3 j = jobs w1 j" using spec2(2) by (simp add: upd_ent_def)
    show ?thesis
    proof (cases b3)
      case True
      then have "b" "w' = w3" using less.prems(3) jd Some cb by (simp_all add: pop_deps.simps)
      then show ?thesis using True spec2(4) only3 f
        by (auto simp: deps_only_wait [OF only2] deps_only_signaled [OF only2])
    next
      case False
      have rec: "pop_deps D j e w3 = (b, w')"
        using less.prems(3) jd Some cb False by (simp add: pop_deps.simps [of D j e w])
      have "deps_left j w3 < deps_left j w"
        using drm_sched_job_dependency_decreases [of j w f w1] jd Some jobs3 by (simp add: deps_left_def)
      moreover have "e_rq (ents w3 e) = Some r"
        using deps_only_ent [OF only3, of e] less.prems(1) by auto
      moreover have "deps_wf (jobs w3 j)" using spec1(1) jobs3 by simp
      ultimately have IH: "deps_only D j e w3 w'
        \<and> (\<not> b \<longrightarrow> e_dependency (ents w' e) = None
             \<and> (\<forall>f. Some f \<in> set (j_dependencies (jobs w3 j)) \<longrightarrow> dep_met D w3 e f))
        \<and> (b \<longrightarrow> (\<exists>f. Some f \<in> set (j_dependencies (jobs w3 j))
             \<and> e_dependency (ents w' e) = Some (dep_wait w3 e f)
             \<and> \<not> f_is_signaled D (dep_wait w3 e f) (fs w3)))"
        using less.hyps rec by blast
      have "dep_met D w e f"
        using spec2(3) [OF False] deps_only_met [OF only2] by simp
      then show ?thesis
        using IH deps_only_trans [OF only3] spec1(3) [OF Some]
        by (simp add: jobs3 deps_only_met [OF only3] deps_only_wait [OF only3] deps_only_signaled [OF only3]) blast
    qed
  qed
qed

lemma pop_job_None:
  "pop_deps D j e w = (True, w1) \<Longrightarrow> e_job_queue (ents w e) = j # js \<Longrightarrow>
     drm_sched_entity_pop_job D e w = (None, w1)"
  by (simp add: drm_sched_entity_pop_job_def)

lemma pop_job_Some:
  assumes "pop_deps D j e w = (False, w1)" and "e_job_queue (ents w e) = j # js"
  shows "\<exists>f'. drm_sched_entity_pop_job D e w =
      (Some j, upd_ent e (\<lambda>x. x\<lparr>e_last_scheduled := Some (Finished j), e_job_queue := tl (e_job_queue x)\<rparr>)
                 (w1\<lparr>fs := f'\<rparr>))
    \<and> (f' = fs w1 \<or> f' = f_set_error D (Finished j) (- ECANCELED) (fs w1))"
proof -
  have "w1 = w1\<lparr>fs := fs w1\<rparr>" by simp
  then show ?thesis using assms
    by (auto simp: drm_sched_entity_pop_job_def Let_def
        intro: exI [of _ "fs w1"] exI [of _ "f_set_error D (Finished j) (- ECANCELED) (fs w1)"])
qed

text \<open>
  C8: Dependencies.  A job leaves its entity's queue only from the front, only when every
  dependency it still had is met, and it becomes the entity's last scheduled job; otherwise the
  queue is unchanged and the entity waits for an unsignalled fence of one of these dependencies.
\<close>

theorem drm_sched_entity_pop_job_dependencies:
  assumes "fence_laws D" and "e_rq (ents w e) = Some r" and "deps_wf (jobs w j)"
    and "e_job_queue (ents w e) = j # js"
  shows "case drm_sched_entity_pop_job D e w of
      (Some k, w') \<Rightarrow> k = j \<and> e_job_queue (ents w' e) = js \<and> e_dependency (ents w' e) = None
        \<and> e_last_scheduled (ents w' e) = Some (Finished j)
        \<and> (\<forall>f. Some f \<in> set (j_dependencies (jobs w j)) \<longrightarrow> dep_met D w e f)
    | (None, w') \<Rightarrow> e_job_queue (ents w' e) = j # js
        \<and> (\<exists>f. Some f \<in> set (j_dependencies (jobs w j)) \<and> \<not> f_is_signaled D (dep_wait w e f) (fs w')
             \<and> e_dependency (ents w' e) = Some (dep_wait w e f))"
proof -
  obtain b w1 where p: "pop_deps D j e w = (b, w1)" by (cases "pop_deps D j e w")
  note spec = pop_deps_spec [OF assms(1-3) p]
  then have only: "deps_only D j e w w1" by blast
  have q: "e_job_queue (ents w1 e) = j # js" using deps_only_ent [OF only, of e] assms(4) by auto
  show ?thesis
  proof (cases b)
    case True
    with p have "drm_sched_entity_pop_job D e w = (None, w1)" by (intro pop_job_None [OF _ assms(4)]) simp
    then show ?thesis using True spec q by (auto simp: deps_only_signaled [OF only])
  next
    case False
    then obtain f' where "drm_sched_entity_pop_job D e w =
      (Some j, upd_ent e (\<lambda>x. x\<lparr>e_last_scheduled := Some (Finished j), e_job_queue := tl (e_job_queue x)\<rparr>)
                 (w1\<lparr>fs := f'\<rparr>))"
      using p pop_job_Some [OF _ assms(4), of D w1] by auto
    then show ?thesis using False spec q by (simp add: upd_ent_def)
  qed
qed

theorem drm_sched_entity_pop_job_dependencies_witness:
  "case drm_sched_entity_pop_job ex_dma 2 ex_world of
      (Some k, w') \<Rightarrow> k = 20 \<and> e_job_queue (ents w' 2) = [] \<and> dep_met ex_dma ex_world 2 (Ext 7)
    | (None, w') \<Rightarrow> \<exists>f. f = Ext 7 \<and> \<not> f_is_signaled ex_dma (Ext 7) (fs w')"
proof -
  have "e_rq (ents ex_world 2) = Some (0, 1)" "deps_wf (jobs ex_world 20)" "e_job_queue (ents ex_world 2) = [20]"
    by (simp_all add: ex_world_def ex_entity_def ex_job_def deps_wf_def)
  from drm_sched_entity_pop_job_dependencies [OF ex_dma_laws this]
  show ?thesis
    by (auto simp: ex_world_def ex_job_def dep_wait_def split: prod.splits option.splits)
qed

end
