(* ===== verification/Sched_Reach.thy ===== *)
theory Sched_Reach
  imports Sched_Correct
begin

text \<open>
  The reachable states of a set of schedulers and entities under submissions, turns of the
  scheduler threads, completions by the hardware, fence callbacks and changes of the entities'
  parameters: the accounting of jobs in flight and the integrity of the run queues.
\<close>

section \<open>Steps\<close>

text \<open>A driver's submission: construct the job, add its dependencies, arm it and push it.\<close>

definition submit :: "'f dma_ops \<Rightarrow> nat \<Rightarrow> nat \<Rightarrow> nat \<Rightarrow> (bool \<times> fence) list \<Rightarrow> 'f world \<Rightarrow> int \<times> 'f world" where
  "submit D current j e deps w = (case drm_sched_job_init D True j e w of
     (r, w1) \<Rightarrow> if r \<noteq> 0 then (r, w1)
       else (case drm_sched_job_add_implicit_dependencies D j deps w1 of
         (r', w2) \<Rightarrow> if r' \<noteq> 0 then (r', drm_sched_job_cleanup j w2)
           else (0, drm_sched_entity_push_job current j (drm_sched_job_arm D j w2))))"

text \<open>A job that no queue and no pending list holds.\<close>

definition unused :: "nat set \<Rightarrow> nat set \<Rightarrow> 'f world \<Rightarrow> nat \<Rightarrow> bool" where
  "unused S E w j \<longleftrightarrow> (\<forall>s\<in>S. j \<notin> set (pending_list (scheds w s))) \<and> (\<forall>e\<in>E. j \<notin> set (e_job_queue (ents w e)))"

inductive sched_step :: "'f dma_ops \<Rightarrow> 'f run_job \<Rightarrow> nat set \<Rightarrow> nat set \<Rightarrow> 'f world \<Rightarrow> 'f world \<Rightarrow> bool"
  for D run S E where
  submits: "e \<in> E \<Longrightarrow> unused S E w j \<Longrightarrow> submit D current j e deps w = (r, w') \<Longrightarrow> sched_step D run S E w w'"
| thread_turn: "s \<in> S \<Longrightarrow> sched_step D run S E w (drm_sched_main D run now s w)"
| hw_done: "s \<in> S \<Longrightarrow> j \<in> set (pending_list (scheds w s)) \<Longrightarrow> \<not> f_is_signaled D (Finished j) (fs w)
    \<Longrightarrow> sched_step D run S E w (drm_sched_job_done D j w)"
| ext_signal: "sched_step D run S E w (w\<lparr>fs := f_signal D (Ext n) (fs w)\<rparr>)"
| dep_cleared: "e \<in> E \<Longrightarrow> sched_step D run S E w (drm_sched_entity_clear_dep e w)"
| set_priority: "e \<in> E \<Longrightarrow> p < DRM_SCHED_PRIORITY_COUNT \<Longrightarrow> sched_step D run S E w (drm_sched_entity_set_priority e p w)"
| modify_sched: "e \<in> E \<Longrightarrow> \<forall>x\<in>set sl. x \<in> Some ` S \<Longrightarrow>
    sched_step D run S E w (drm_sched_entity_modify_sched e (Some sl) n w)"
| flush: "e \<in> E \<Longrightarrow> drm_sched_entity_flush current exiting sigkill waited e tmo w = (r, w')
    \<Longrightarrow> sched_step D run S E w w'"

text \<open>
  The reachable states, from nothing: schedulers and entities are constructed, then steps follow
  in any order and interleaving.
\<close>

inductive reachable :: "'f dma_ops \<Rightarrow> 'f run_job \<Rightarrow> nat set \<Rightarrow> nat set \<Rightarrow> 'f world \<Rightarrow> bool"
  for D run where
  boot: "reachable D run {} {} w"
| sched_up: "reachable D run S E w \<Longrightarrow> s \<notin> S \<Longrightarrow> drm_sched_init 0 own s hw hang tmo sc w = (0, w')
    \<Longrightarrow> reachable D run (insert s S) E w'"
| entity_up: "reachable D run S E w \<Longrightarrow> e \<notin> E \<Longrightarrow> sl \<noteq> [] \<Longrightarrow> set sl \<subseteq> Some ` S \<Longrightarrow> p < DRM_SCHED_PRIORITY_COUNT
    \<Longrightarrow> drm_sched_entity_init ctx (Some e) p (Some sl) num guilty w = (0, w')
    \<Longrightarrow> reachable D run S (insert e E) w'"
| sched_steps: "reachable D run S E w \<Longrightarrow> sched_step D run S E w w' \<Longrightarrow> reachable D run S E w'"

section \<open>Invariants\<close>

definition inflight :: "'f dma_ops \<Rightarrow> 'f world \<Rightarrow> nat \<Rightarrow> nat list" where
  "inflight D w s = filter (\<lambda>j. \<not> f_is_signaled D (Finished j) (fs w)) (pending_list (scheds w s))"

definition rqs_ok :: "nat set \<Rightarrow> nat set \<Rightarrow> 'f world \<Rightarrow> bool" where
  "rqs_ok S E w \<longleftrightarrow> (\<forall>s\<in>S. length (sched_rq (scheds w s)) = DRM_SCHED_PRIORITY_COUNT
     \<and> (\<forall>i < DRM_SCHED_PRIORITY_COUNT. rq_wf (the_rq w (s, i))
          \<and> (\<forall>e\<in>set (rq_entities (the_rq w (s, i))). e \<in> E \<and> e_linked (ents w e) \<and> e_rq (ents w e) = Some (s, i))))"

definition ent_ok :: "nat set \<Rightarrow> 'f world \<Rightarrow> nat \<Rightarrow> bool" where
  "ent_ok S w e \<longleftrightarrow>
       (e_linked (ents w e) \<longrightarrow> e_rq (ents w e) \<noteq> None \<and> e \<in> set (rq_entities (the_rq w (the (e_rq (ents w e))))))
     \<and> (e_rq (ents w e) \<noteq> None \<longrightarrow>
          fst (the (e_rq (ents w e))) \<in> S \<and> snd (the (e_rq (ents w e))) < DRM_SCHED_PRIORITY_COUNT)
     \<and> e_priority (ents w e) < DRM_SCHED_PRIORITY_COUNT
     \<and> (e_sched_list (ents w e) \<noteq> None \<longrightarrow> set (the (e_sched_list (ents w e))) \<subseteq> Some ` S)
     \<and> (e_job_queue (ents w e) \<noteq> [] \<longrightarrow> e_rq (ents w e) \<noteq> None \<and> (e_stopped (ents w e) \<or> e_linked (ents w e)))"

definition ents_ok :: "nat set \<Rightarrow> nat set \<Rightarrow> 'f world \<Rightarrow> bool" where
  "ents_ok S E w \<longleftrightarrow> (\<forall>e\<in>E. ent_ok S w e)"

definition jobs_ok :: "'f dma_ops \<Rightarrow> nat set \<Rightarrow> nat set \<Rightarrow> 'f world \<Rightarrow> bool" where
  "jobs_ok D S E w \<longleftrightarrow>
     (\<forall>e\<in>E. distinct (e_job_queue (ents w e)) \<and> (\<forall>j\<in>set (e_job_queue (ents w e)).
          j_entity (jobs w j) = e \<and> Some (j_sched (jobs w j)) = map_option fst (e_rq (ents w e))
        \<and> sf_sched (sf_of w j) = Some (j_sched (jobs w j)) \<and> \<not> f_is_signaled D (Finished j) (fs w)))
   \<and> (\<forall>s\<in>S. distinct (pending_list (scheds w s)) \<and> (\<forall>j\<in>set (pending_list (scheds w s)).
          j_sched (jobs w j) = s \<and> sf_sched (sf_of w j) = Some s \<and> j_entity (jobs w j) \<in> E
        \<and> j \<notin> set (e_job_queue (ents w (j_entity (jobs w j))))))"

definition count_ok :: "'f dma_ops \<Rightarrow> nat set \<Rightarrow> 'f world \<Rightarrow> bool" where
  "count_ok D S w \<longleftrightarrow> (\<forall>s\<in>S. unat (hw_rq_count (scheds w s)) = length (inflight D w s)
     \<and> hw_rq_count (scheds w s) \<le> hw_submission_limit (scheds w s))"

definition sched_inv :: "'f dma_ops \<Rightarrow> nat set \<Rightarrow> nat set \<Rightarrow> 'f world \<Rightarrow> bool" where
  "sched_inv D S E w \<longleftrightarrow> rqs_ok S E w \<and> ents_ok S E w \<and> jobs_ok D S E w \<and> count_ok D S w"

text \<open>The part of the state the invariant reads.\<close>

definition same_view :: "'f dma_ops \<Rightarrow> 'f world \<Rightarrow> 'f world \<Rightarrow> bool" where
  "same_view D w w' \<longleftrightarrow>
     (\<forall>s. pending_list (scheds w' s) = pending_list (scheds w s) \<and> hw_rq_count (scheds w' s) = hw_rq_count (scheds w s)
        \<and> hw_submission_limit (scheds w' s) = hw_submission_limit (scheds w s) \<and> sched_rq (scheds w' s) = sched_rq (scheds w s))
   \<and> (\<forall>e. e_linked (ents w' e) = e_linked (ents w e) \<and> e_rq (ents w' e) = e_rq (ents w e)
        \<and> e_stopped (ents w' e) = e_stopped (ents w e) \<and> e_job_queue (ents w' e) = e_job_queue (ents w e)
        \<and> e_priority (ents w' e) = e_priority (ents w e) \<and> e_sched_list (ents w' e) = e_sched_list (ents w e))
   \<and> (\<forall>j. j_sched (jobs w' j) = j_sched (jobs w j) \<and> j_entity (jobs w' j) = j_entity (jobs w j)
        \<and> sf_sched (sf_of w' j) = sf_sched (sf_of w j)
        \<and> f_is_signaled D (Finished j) (fs w') = f_is_signaled D (Finished j) (fs w))"

lemma same_view_inv: "same_view D w w' \<Longrightarrow> sched_inv D S E w' = sched_inv D S E w"
  by (simp add: same_view_def sched_inv_def rqs_ok_def ents_ok_def ent_ok_def jobs_ok_def count_ok_def inflight_def the_rq_def)

lemma same_view_refl [simp]: "same_view D w w"
  by (simp add: same_view_def)

lemma same_view_trans: "same_view D w w1 \<Longrightarrow> same_view D w1 w2 \<Longrightarrow> same_view D w w2"
  by (simp add: same_view_def)

lemma same_view_deps_only:
  assumes "deps_only D j e w w'"
  shows "same_view D w w'"
proof -
  have e: "\<And>x. \<exists>d. ents w' x = (ents w x)\<lparr>e_dependency := d\<rparr>" using deps_only_ent [OF assms] by blast
  obtain ds i where "jobs w' = (jobs w)(j := (jobs w j)\<lparr>j_dependencies := ds, j_last_dependency := i\<rparr>)"
    using assms unfolding deps_only_def by blast
  then have j: "\<And>k. j_sched (jobs w' k) = j_sched (jobs w k) \<and> j_entity (jobs w' k) = j_entity (jobs w k)"
    by simp
  have "e_linked (ents w' x) = e_linked (ents w x)" "e_rq (ents w' x) = e_rq (ents w x)"
    "e_stopped (ents w' x) = e_stopped (ents w x)" "e_job_queue (ents w' x) = e_job_queue (ents w x)"
    "e_priority (ents w' x) = e_priority (ents w x)" "e_sched_list (ents w' x) = e_sched_list (ents w x)" for x
    using e [of x] by auto
  moreover have "scheds w' = scheds w" using assms by (simp add: deps_only_def)
  ultimately show ?thesis
    by (simp add: same_view_def j deps_only_sf [OF assms] deps_only_signaled [OF assms])
qed

lemma same_view_upd_ent:
  "(\<And>x. e_linked (f x) = e_linked x \<and> e_rq (f x) = e_rq x \<and> e_stopped (f x) = e_stopped x
      \<and> e_job_queue (f x) = e_job_queue x \<and> e_priority (f x) = e_priority x \<and> e_sched_list (f x) = e_sched_list x)
    \<Longrightarrow> same_view D w (upd_ent e f w)"
  by (simp add: same_view_def upd_ent_def sf_of_def)

lemma same_view_fs:
  "(\<And>j. f_is_signaled D (Finished j) f' = f_is_signaled D (Finished j) (fs w)) \<Longrightarrow> same_view D w (w\<lparr>fs := f'\<rparr>)"
  by (simp add: same_view_def sf_of_def)

lemma same_view_cell: "same_view D w (upd_cell c f w)"
  by (simp add: same_view_def sf_of_def upd_cell_def)

lemma same_view_free_job: "same_view D w (free_job j w)"
  by (simp add: same_view_def sf_of_def free_job_def)

lemma same_view_upd_job:
  "j_sched (f (jobs w j)) = j_sched (jobs w j) \<Longrightarrow> j_entity (f (jobs w j)) = j_entity (jobs w j)
    \<Longrightarrow> sf_sched (sf_of (upd_job j f w) j) = sf_sched (sf_of w j) \<Longrightarrow> same_view D w (upd_job j f w)"
  by (auto simp: same_view_def upd_job_def sf_of_def split: option.splits)

lemma queueD:
  assumes "sched_inv D S E w" and "e \<in> E" and "j \<in> set (e_job_queue (ents w e))"
  shows "j_entity (jobs w j) = e" and "Some (j_sched (jobs w j)) = map_option fst (e_rq (ents w e))"
    and "sf_sched (sf_of w j) = Some (j_sched (jobs w j))" and "\<not> f_is_signaled D (Finished j) (fs w)"
  using assms by (auto simp: sched_inv_def jobs_ok_def)

lemma pendingD:
  assumes "sched_inv D S E w" and "s \<in> S" and "j \<in> set (pending_list (scheds w s))"
  shows "j_sched (jobs w j) = s" and "sf_sched (sf_of w j) = Some s" and "j_entity (jobs w j) \<in> E"
    and "j \<notin> set (e_job_queue (ents w (j_entity (jobs w j))))"
  using assms by (auto simp: sched_inv_def jobs_ok_def)

lemma queue_pending_disjoint:
  assumes "sched_inv D S E w" and "s \<in> S" and "j \<in> set (pending_list (scheds w s))" and "e \<in> E"
  shows "j \<notin> set (e_job_queue (ents w e))"
  using pendingD [OF assms(1-3)] queueD(1) [OF assms(1,4)] by blast

lemma distinctD:
  assumes "sched_inv D S E w"
  shows "e \<in> E \<Longrightarrow> distinct (e_job_queue (ents w e))" and "s \<in> S \<Longrightarrow> distinct (pending_list (scheds w s))"
  using assms by (auto simp: sched_inv_def jobs_ok_def)

lemma countD:
  assumes "sched_inv D S E w" and "s \<in> S"
  shows "unat (hw_rq_count (scheds w s)) = length (inflight D w s)"
    and "hw_rq_count (scheds w s) \<le> hw_submission_limit (scheds w s)"
  using assms by (auto simp: sched_inv_def count_ok_def)

lemma rqs_ok_cong:
  assumes "\<And>s. sched_rq (scheds w' s) = sched_rq (scheds w s)"
    and "\<And>e. e_linked (ents w' e) = e_linked (ents w e)" and "\<And>e. e_rq (ents w' e) = e_rq (ents w e)"
  shows "rqs_ok S E w' = rqs_ok S E w"
  by (simp add: rqs_ok_def the_rq_def assms)

lemma ents_ok_cong:
  assumes "\<And>s. sched_rq (scheds w' s) = sched_rq (scheds w s)" and "ents w' = ents w"
  shows "ents_ok S E w' = ents_ok S E w"
  by (simp add: ents_ok_def ent_ok_def the_rq_def assms)

section \<open>Completion of a job\<close>

lemma timeout_keeps [simp]:
  "pending_list (drm_sched_start_timeout now s) = pending_list s"
  "hw_rq_count (drm_sched_start_timeout now s) = hw_rq_count s"
  "hw_submission_limit (drm_sched_start_timeout now s) = hw_submission_limit s"
  "sched_rq (drm_sched_start_timeout now s) = sched_rq s"
  "thread (drm_sched_start_timeout now s) = thread s"
  by (simp_all add: drm_sched_start_timeout_def queue_delayed_work_def)

lemma cancel_keeps [simp]:
  "pending_list (cancel_delayed_work s) = pending_list s"
  "hw_rq_count (cancel_delayed_work s) = hw_rq_count s"
  "hw_submission_limit (cancel_delayed_work s) = hw_submission_limit s"
  "sched_rq (cancel_delayed_work s) = sched_rq s"
  by (simp_all add: cancel_delayed_work_def)

lemma fence_laws_signal:
  "fence_laws D \<Longrightarrow> f_is_signaled D g (f_signal D f s) = (g = f \<or> f_is_signaled D g s)"
  by (simp add: fence_laws_def)

lemma fence_laws_error:
  "fence_laws D \<Longrightarrow> f_is_signaled D g (f_set_error D f e s) = f_is_signaled D g s"
  by (simp add: fence_laws_def)

lemma filter_drop_one:
  "j \<in> set xs \<Longrightarrow> P j \<Longrightarrow> distinct xs \<Longrightarrow>
     length (filter P xs) = Suc (length (filter (\<lambda>k. k \<noteq> j \<and> P k) xs))"
proof (induction xs)
  case (Cons x xs)
  show ?case
  proof (cases "x = j")
    case True
    with Cons.prems have "filter (\<lambda>k. k \<noteq> j \<and> P k) xs = filter P xs"
      by (auto intro: filter_cong)
    then show ?thesis using True Cons.prems by simp
  next
    case False
    then show ?thesis using Cons by auto
  qed
qed simp

lemma unat_dec: "0 < unat (c :: u32) \<Longrightarrow> unat (c - 1) = unat c - 1"
  by (cases "c = 0") (simp_all add: unat_minus_one)

lemma unat_inc: "(c :: u32) < d \<Longrightarrow> unat (c + 1) = unat c + 1"
proof -
  assume "c < d"
  then have "c \<noteq> - 1" by (metis word_order.extremum_strict)
  then have "1 + c \<noteq> 0" using max_word_wrap [of c] by (auto simp: add.commute)
  then show ?thesis using unatSuc [of c] by (simp add: add.commute)
qed

lemma inc_le: "(c :: u32) < d \<Longrightarrow> c + 1 \<le> d"
  using unat_inc [of c d] by (simp add: word_le_nat_alt word_less_nat_alt)

lemma job_done_inv:
  assumes laws: "fence_laws D" and inv: "sched_inv D S E w" and s: "s \<in> S"
    and j: "j \<in> set (pending_list (scheds w s))" and open_j: "\<not> f_is_signaled D (Finished j) (fs w)"
  shows "sched_inv D S E (drm_sched_job_done D j w)"
proof -
  have js: "sf_sched (sf_of w j) = Some s" and dist: "distinct (pending_list (scheds w s))"
    using inv s j by (auto simp: sched_inv_def jobs_ok_def)
  let ?w' = "drm_sched_job_done D j w"
  have sc: "scheds ?w' = (scheds w)(s := (scheds w s)\<lparr>hw_rq_count := hw_rq_count (scheds w s) - 1\<rparr>)"
    and en: "ents ?w' = ents w" and jb: "jobs ?w' = jobs w"
    and sg: "\<And>k. f_is_signaled D (Finished k) (fs ?w') = (k = j \<or> f_is_signaled D (Finished k) (fs w))"
    by (simp_all add: drm_sched_job_done_def Let_def drm_sched_fence_finished_def score_dec_def upd_defs
        fence_sched_def js fence_laws_signal [OF laws])
  have sf: "sf_of ?w' = sf_of w" by (simp add: sf_of_def jb fun_eq_iff)
  have len: "length (inflight D w s) = Suc (length (filter (\<lambda>k. k \<noteq> j \<and> \<not> f_is_signaled D (Finished k) (fs w))
      (pending_list (scheds w s))))"
    unfolding inflight_def by (rule filter_drop_one [OF j _ dist]) (rule open_j)
  have rq: "the_rq ?w' = the_rq w" by (simp add: the_rq_def sc fun_eq_iff)
  have "rqs_ok S E ?w'" "ents_ok S E ?w'"
    using inv rqs_ok_cong [of ?w' w] ents_ok_cong [of ?w' w] by (simp_all add: sched_inv_def en sc)
  moreover have "jobs_ok D S E ?w'"
    unfolding jobs_ok_def
  proof (intro conjI ballI)
    fix e k assume e: "e \<in> E" and k: "k \<in> set (e_job_queue (ents ?w' e))"
    then have "k \<noteq> j" using queue_pending_disjoint [OF inv s j] by (auto simp: en)
    then show "\<not> f_is_signaled D (Finished k) (fs ?w')"
      using queueD(4) [OF inv e] k by (simp add: sg en)
  qed (auto simp: sf en jb sc distinctD [OF inv] queueD [OF inv] pendingD [OF inv] split: if_splits)
  moreover have "count_ok D S ?w'"
    unfolding count_ok_def
  proof
    fix t assume t: "t \<in> S"
    note ok = countD [OF inv t]
    show "unat (hw_rq_count (scheds ?w' t)) = length (inflight D ?w' t)
      \<and> hw_rq_count (scheds ?w' t) \<le> hw_submission_limit (scheds ?w' t)"
    proof (cases "t = s")
      case True
      have "unat (hw_rq_count (scheds w s) - 1) = unat (hw_rq_count (scheds w s)) - 1"
        using ok len True by (intro unat_dec) simp
      then show ?thesis using ok len True
        by (simp add: inflight_def sc sg word_le_nat_alt)
    next
      case False
      have "j \<notin> set (pending_list (scheds w t))"
        using pendingD(1) [OF inv s j] pendingD(1) [OF inv t] False by blast
      then have "inflight D ?w' t = inflight D w t"
        using False by (auto simp: inflight_def sc sg intro: filter_cong)
      then show ?thesis using ok False by (simp add: sc)
    qed
  qed
  ultimately show ?thesis by (simp add: sched_inv_def)
qed

section \<open>Beginning a job\<close>

text \<open>
  A job moves from the front of its entity's queue to the end of the pending list, and the
  hardware queue's counter grows, while there is room.
\<close>

lemma job_begin_inv:
  assumes inv: "sched_inv D S E w" and s: "s \<in> S" and e: "e \<in> E" and q: "e_job_queue (ents w e) = j # js"
    and rq: "map_option fst (e_rq (ents w e)) = Some s" and room: "hw_rq_count (scheds w s) < hw_submission_limit (scheds w s)"
  shows "sched_inv D S E (drm_sched_job_begin now j (upd_sched s (\<lambda>x. x\<lparr>hw_rq_count := hw_rq_count x + 1\<rparr>)
           (upd_ent e (\<lambda>x. x\<lparr>e_last_scheduled := f, e_job_queue := tl (e_job_queue x)\<rparr>) w)))"
    and "j \<notin> set js"
proof -
  have J: "distinct (j # js)" "j_sched (jobs w j) = s" "j_entity (jobs w j) = e" "sf_sched (sf_of w j) = Some s"
    "\<not> f_is_signaled D (Finished j) (fs w)"
    using queueD [OF inv e, of j] distinctD(1) [OF inv e] q rq by auto
  show "j \<notin> set js" using J(1) by simp
  let ?w' = "drm_sched_job_begin now j (upd_sched s (\<lambda>x. x\<lparr>hw_rq_count := hw_rq_count x + 1\<rparr>)
           (upd_ent e (\<lambda>x. x\<lparr>e_last_scheduled := f, e_job_queue := tl (e_job_queue x)\<rparr>) w))"
  have sc: "\<And>t. pending_list (scheds ?w' t) = (if t = s then pending_list (scheds w s) @ [j] else pending_list (scheds w t))"
    "\<And>t. hw_rq_count (scheds ?w' t) = (if t = s then hw_rq_count (scheds w s) + 1 else hw_rq_count (scheds w t))"
    "\<And>t. hw_submission_limit (scheds ?w' t) = hw_submission_limit (scheds w t)"
    "\<And>t. sched_rq (scheds ?w' t) = sched_rq (scheds w t)"
    using J(2) by (simp_all add: drm_sched_job_begin_def upd_defs)
  have en: "ents ?w' = (ents w)(e := (ents w e)\<lparr>e_last_scheduled := f, e_job_queue := js\<rparr>)"
    and jb: "jobs ?w' = jobs w" and fs: "fs ?w' = fs w"
    using q by (simp_all add: drm_sched_job_begin_def upd_defs)
  have sf: "sf_of ?w' = sf_of w" by (simp add: sf_of_def jb fun_eq_iff)
  have trq: "the_rq ?w' = the_rq w" by (simp add: the_rq_def sc fun_eq_iff)
  have "rqs_ok S E ?w'"
    using inv rqs_ok_cong [of ?w' w] by (simp_all add: sched_inv_def en sc)
  moreover have "ents_ok S E ?w'"
    using inv q unfolding sched_inv_def ents_ok_def ent_ok_def trq en by simp
  moreover have "jobs_ok D S E ?w'"
    unfolding jobs_ok_def
  proof (intro conjI ballI)
    fix x k assume x: "x \<in> E" and k: "k \<in> set (e_job_queue (ents ?w' x))"
    then have k': "k \<in> set (e_job_queue (ents w x))" using q by (auto simp: en split: if_splits)
    show "j_entity (jobs ?w' k) = x" "Some (j_sched (jobs ?w' k)) = map_option fst (e_rq (ents ?w' x))"
      "sf_sched (sf_of ?w' k) = Some (j_sched (jobs ?w' k))" "\<not> f_is_signaled D (Finished k) (fs ?w')"
      using queueD [OF inv x k'] by (simp_all add: jb sf fs en)
  next
    fix x assume "x \<in> E"
    then show "distinct (e_job_queue (ents ?w' x))" using distinctD(1) [OF inv] J(1) by (simp add: en)
  next
    fix t assume t: "t \<in> S"
    then show "distinct (pending_list (scheds ?w' t))"
      using distinctD(2) [OF inv] queue_pending_disjoint [OF inv t _ e] q by (auto simp: sc)
    fix k assume k: "k \<in> set (pending_list (scheds ?w' t))"
    then have "k = j \<and> t = s \<or> k \<in> set (pending_list (scheds w t))" by (auto simp: sc split: if_splits)
    then show "j_sched (jobs ?w' k) = t" "sf_sched (sf_of ?w' k) = Some t" "j_entity (jobs ?w' k) \<in> E"
      "k \<notin> set (e_job_queue (ents ?w' (j_entity (jobs ?w' k))))"
      using J e pendingD [OF inv t] queue_pending_disjoint [OF inv t _ e, unfolded q] by (auto simp: jb sf en)
  qed
  moreover have "count_ok D S ?w'"
  proof -
    have "unat (hw_rq_count (scheds w s) + 1) = unat (hw_rq_count (scheds w s)) + 1"
      "hw_rq_count (scheds w s) + 1 \<le> hw_submission_limit (scheds w s)"
      using room by (auto simp: unat_inc inc_le)
    then show ?thesis using inv J(5) unfolding sched_inv_def count_ok_def by (auto simp: inflight_def sc fs)
  qed
  ultimately show "sched_inv D S E ?w'" by (simp add: sched_inv_def)
qed

section \<open>The scheduler thread\<close>

lemma cleanup_inv:
  assumes inv: "sched_inv D S E w" and s: "s \<in> S" and c: "drm_sched_get_cleanup_job D now s w = (jo, w')"
  shows "sched_inv D S E w'" and "jo = None \<Longrightarrow> w' = w"
proof -
  show "jo = None \<Longrightarrow> w' = w"
    using c by (auto simp: drm_sched_get_cleanup_job_def split: list.splits if_splits)
  show "sched_inv D S E w'"
  proof (cases jo)
    case None
    then show ?thesis using c inv by (auto simp: drm_sched_get_cleanup_job_def split: list.splits if_splits)
  next
    case (Some j)
    then obtain rest where p: "pending_list (scheds w s) = j # rest" and sg: "f_is_signaled D (Finished j) (fs w)"
      using c by (auto simp: drm_sched_get_cleanup_job_def split: list.splits if_splits)
    have sc: "\<And>t. pending_list (scheds w' t) = (if t = s then rest else pending_list (scheds w t))"
      "\<And>t. hw_rq_count (scheds w' t) = hw_rq_count (scheds w t)"
      "\<And>t. hw_submission_limit (scheds w' t) = hw_submission_limit (scheds w t)"
      "\<And>t. sched_rq (scheds w' t) = sched_rq (scheds w t)"
      and en: "ents w' = ents w" and jb: "jobs w' = jobs w" and fs: "fs w' = fs w"
      using c p sg by (auto simp: drm_sched_get_cleanup_job_def Let_def upd_defs)
    have sf: "sf_of w' = sf_of w" by (simp add: sf_of_def jb fun_eq_iff)
    have "rqs_ok S E w'" "ents_ok S E w'"
      using inv rqs_ok_cong [of w' w] ents_ok_cong [of w' w] by (simp_all add: sched_inv_def en sc)
    moreover have "jobs_ok D S E w'"
      using pendingD [OF inv s] distinctD(2) [OF inv s] unfolding jobs_ok_def
      by (auto simp: sf en jb sc fs p queueD [OF inv] pendingD [OF inv] distinctD [OF inv])
    moreover have "count_ok D S w'"
      using countD [OF inv] countD [OF inv s] p sg by (auto simp: count_ok_def inflight_def sc fs)
    ultimately show ?thesis by (simp add: sched_inv_def)
  qed
qed

lemma the_rq_upd_other: "r' \<noteq> r \<Longrightarrow> the_rq (upd_rq r f w) r' = the_rq w r'"
  by (cases r; cases r') (auto simp: the_rq_def upd_rq_def upd_sched_def)

lemma upd_rq_keeps [simp]:
  "pending_list (scheds (upd_rq r f w) s) = pending_list (scheds w s)"
  "hw_rq_count (scheds (upd_rq r f w) s) = hw_rq_count (scheds w s)"
  "hw_submission_limit (scheds (upd_rq r f w) s) = hw_submission_limit (scheds w s)"
  "length (sched_rq (scheds (upd_rq r f w) s)) = length (sched_rq (scheds w s))"
  "ents (upd_rq r f w) = ents w" "jobs (upd_rq r f w) = jobs w" "fs (upd_rq r f w) = fs w"
  "sf_of (upd_rq r f w) = sf_of w"
  by (simp_all add: upd_rq_def upd_sched_def sf_of_def fun_eq_iff)

lemma set_current_inv:
  assumes inv: "sched_inv D S E w" and s: "s \<in> S" and i: "i < DRM_SCHED_PRIORITY_COUNT"
    and e: "e \<in> set (rq_entities (the_rq w (s, i)))"
  shows "sched_inv D S E (upd_rq (s, i) (\<lambda>q. q\<lparr>rq_current := Some e\<rparr>) w)" (is "sched_inv D S E ?w'")
proof -
  have len: "length (sched_rq (scheds w s)) = DRM_SCHED_PRIORITY_COUNT" and wf: "rq_wf (the_rq w (s, i))"
    using inv s i by (auto simp: sched_inv_def rqs_ok_def)
  have rq: "the_rq ?w' r = (if r = (s, i) then (the_rq w (s, i))\<lparr>rq_current := Some e\<rparr> else the_rq w r)" for r
    using len i by (simp add: the_rq_upd_rq the_rq_upd_other)
  have "rqs_ok S E ?w'"
    using inv rq_wf_set_current [OF wf e] unfolding sched_inv_def rqs_ok_def by (auto simp: rq)
  moreover have "ents_ok S E ?w'"
  proof -
    have "rq_entities (the_rq ?w' r) = rq_entities (the_rq w r)" for r by (simp add: rq)
    then show ?thesis using inv by (simp add: sched_inv_def ents_ok_def ent_ok_def)
  qed
  moreover have "jobs_ok D S E ?w'" "count_ok D S ?w'"
    using inv by (simp_all add: sched_inv_def jobs_ok_def count_ok_def inflight_def)
  ultimately show ?thesis by (simp add: sched_inv_def)
qed

lemma rq_select_inv:
  assumes inv: "sched_inv D S E w" and s: "s \<in> S" and i: "i < DRM_SCHED_PRIORITY_COUNT"
    and sel: "drm_sched_rq_select_entity (s, i) w = (Some e, w')"
  shows "sched_inv D S E w'" and "e \<in> E" and "e_rq (ents w' e) = Some (s, i)" and "e_job_queue (ents w' e) \<noteq> []"
    and "scheds w' s = (scheds w s)\<lparr>sched_rq := sched_rq (scheds w' s)\<rparr>"
proof -
  have wf: "rq_wf (the_rq w (s, i))" using inv s i by (auto simp: sched_inv_def rqs_ok_def)
  have e: "e \<in> set (rq_entities (the_rq w (s, i)))" "ready_in w e"
    using rq_select_SomeD [OF wf sel] by simp_all
  have w': "w' = upd_ent e (\<lambda>x. x\<lparr>e_idle := 0\<rparr>) (upd_rq (s, i) (\<lambda>q. q\<lparr>rq_current := Some e\<rparr>) w)"
    using sel by (auto simp: drm_sched_rq_select_entity_def split: option.splits)
  have "same_view D (upd_rq (s, i) (\<lambda>q. q\<lparr>rq_current := Some e\<rparr>) w) w'"
    unfolding w' by (rule same_view_upd_ent) simp
  then show "sched_inv D S E w'" using same_view_inv set_current_inv [OF inv s i e(1)] by blast
  show "e \<in> E" "e_rq (ents w' e) = Some (s, i)"
    using inv s i e(1) by (auto simp: sched_inv_def rqs_ok_def w' upd_ent_def)
  show "e_job_queue (ents w' e) \<noteq> []"
    using e(2) by (auto simp: ready_in_def drm_sched_entity_is_ready_def w' upd_ent_def split: if_splits)
  show "scheds w' s = (scheds w s)\<lparr>sched_rq := sched_rq (scheds w' s)\<rparr>"
    by (simp add: w' upd_defs)
qed

lemma select_prio_inv:
  assumes inv: "sched_inv D S E w" and s: "s \<in> S" and "\<forall>i\<in>set is. i < DRM_SCHED_PRIORITY_COUNT"
    and sel: "select_prio s is w = (Some e, w')"
  shows "\<exists>i < DRM_SCHED_PRIORITY_COUNT. drm_sched_rq_select_entity (s, i) w = (Some e, w')"
  using assms(3,4)
proof (induction "is")
  case (Cons i "is")
  show ?case
  proof (cases "fst (drm_sched_rq_select_entity (s, i) w)")
    case None
    then have "drm_sched_rq_select_entity (s, i) w = (None, w)"
      by (metis prod.collapse rq_select_None_same)
    then show ?thesis using Cons by simp
  next
    case (Some e')
    then have "drm_sched_rq_select_entity (s, i) w = (Some e, w')"
      using Cons.prems by (auto split: prod.splits)
    then show ?thesis using Cons.prems by auto
  qed
qed simp

lemma select_prio_none: "select_prio s is w = (None, w') \<Longrightarrow> w' = w"
  by (induction "is") (auto split: prod.splits option.splits dest: rq_select_None_same)

lemma pop_deps_only:
  assumes "fence_laws D" and "e_rq (ents w e) = Some r" and "pop_deps D j e w = (b, w')"
  shows "deps_only D j e w w'"
  using assms(2,3)
proof (induction "deps_left j w" arbitrary: w rule: less_induct)
  case less
  obtain d w1 where jd: "drm_sched_job_dependency j w = (d, w1)"
    by (cases "drm_sched_job_dependency j w")
  note only1 = deps_only_trans [OF deps_only_job_dependency [OF jd, of D e] deps_only_upd_dependency]
  show ?case
  proof (cases d)
    case None
    then show ?thesis using less.prems jd only1 by (auto simp: pop_deps.simps)
  next
    case (Some f)
    let ?w2 = "upd_ent e (\<lambda>x. x\<lparr>e_dependency := Some f\<rparr>) w1"
    obtain b3 w3 where cb: "drm_sched_entity_add_dependency_cb D e ?w2 = (b3, w3)"
      by (cases "drm_sched_entity_add_dependency_cb D e ?w2")
    have dep2: "e_dependency (ents ?w2 e) = Some f" by (simp add: upd_ent_def)
    have rq2: "e_rq (ents ?w2 e) = Some r"
      using deps_only_ent [OF deps_only_job_dependency [OF jd, of D e], of e] less.prems(1)
      by (auto simp: upd_ent_def)
    note spec = add_dependency_cb_spec(1,2) [OF assms(1) dep2 rq2 cb]
    have only3: "deps_only D j e w w3" by (rule deps_only_trans [OF only1 spec(1)])
    show ?thesis
    proof (cases b3)
      case True
      then show ?thesis using less.prems(2) jd Some cb only3 by (simp add: pop_deps.simps)
    next
      case False
      have "deps_left j w3 < deps_left j w"
        using drm_sched_job_dependency_decreases [of j w f w1] jd Some spec(2)
        by (simp add: deps_left_def upd_ent_def)
      moreover have "e_rq (ents w3 e) = Some r"
        using deps_only_ent [OF only3, of e] less.prems(1) by auto
      moreover have "pop_deps D j e w3 = (b, w')"
        using less.prems(2) jd Some cb False by (simp add: pop_deps.simps [of D j e w])
      ultimately show ?thesis using less.hyps deps_only_trans [OF only3] by blast
    qed
  qed
qed

text \<open>What the scheduler relies on of the driver: running a job does not finish it by itself.\<close>

definition run_laws :: "'f dma_ops \<Rightarrow> 'f run_job \<Rightarrow> bool" where
  "run_laws D run \<longleftrightarrow> (\<forall>j s k. f_is_signaled D (Finished k) (snd (run j s)) = f_is_signaled D (Finished k) s)"

lemma run_lawsD:
  "run_laws D run \<Longrightarrow> run j s = (res, s') \<Longrightarrow> f_is_signaled D (Finished k) s' = f_is_signaled D (Finished k) s"
  unfolding run_laws_def by (metis snd_conv)

lemma inv_fs:
  assumes "sched_inv D S E w" and "\<And>j. f_is_signaled D (Finished j) f' = f_is_signaled D (Finished j) (fs w)"
  shows "sched_inv D S E (w\<lparr>fs := f'\<rparr>)"
  using same_view_inv [OF same_view_fs [of D f' w, OF assms(2)]] assms(1) by simp

lemma attach_done_inv:
  assumes laws: "fence_laws D" and inv: "sched_inv D S E w" and s: "s \<in> S"
    and j: "j \<in> set (pending_list (scheds w s))" and open_j: "\<not> f_is_signaled D (Finished j) (fs w)"
  shows "sched_inv D S E (attach_done D f j w)"
proof -
  obtain r f' where cb: "f_add_callback D f (job_cb j) drm_sched_job_done_cb (fs w) = (r, f')"
    by (cases "f_add_callback D f (job_cb j) drm_sched_job_done_cb (fs w)")
  have sg: "f_is_signaled D g f' = f_is_signaled D g (fs w)" for g
    using fence_laws_add [OF laws cb] by blast
  have inv1: "sched_inv D S E (w\<lparr>fs := f'\<rparr>)"
    using inv by (rule inv_fs) (rule sg)
  have "sched_inv D S E (drm_sched_job_done D j (w\<lparr>fs := f'\<rparr>))"
    by (rule job_done_inv [OF laws inv1 s]) (simp_all add: j open_j sg)
  with inv1 show ?thesis by (simp add: attach_done_def cb Let_def)
qed

lemma run_entity_inv:
  assumes laws: "fence_laws D" and run: "run_laws D run" and inv: "sched_inv D S E w" and s: "s \<in> S" and e: "e \<in> E"
    and rq: "e_rq (ents w e) = Some (s, i)" and room: "hw_rq_count (scheds w s) < hw_submission_limit (scheds w s)"
    and q: "e_job_queue (ents w e) = j # js"
  shows "sched_inv D S E (run_entity D run now s e w)"
proof -
  obtain b w1 where pd: "pop_deps D j e w = (b, w1)" by (cases "pop_deps D j e w")
  have only: "deps_only D j e w w1" by (rule pop_deps_only [OF laws rq pd])
  note view1 = same_view_deps_only [OF only]
  show ?thesis
  proof (cases b)
    case True
    then have "run_entity D run now s e w = upd_ent e (\<lambda>x. x\<lparr>e_idle := e_idle x + 1\<rparr>) w1"
      using pd pop_job_None [OF _ q] by (simp add: run_entity_def)
    moreover have "same_view D w1 (upd_ent e (\<lambda>x. x\<lparr>e_idle := e_idle x + 1\<rparr>) w1)"
      by (rule same_view_upd_ent) simp
    ultimately show ?thesis using inv same_view_inv same_view_trans [OF view1] by metis
  next
    case False
    then obtain f' where pop: "drm_sched_entity_pop_job D e w = (Some j,
        upd_ent e (\<lambda>x. x\<lparr>e_last_scheduled := Some (Finished j), e_job_queue := tl (e_job_queue x)\<rparr>) (w1\<lparr>fs := f'\<rparr>))"
      and f': "f' = fs w1 \<or> f' = f_set_error D (Finished j) (- ECANCELED) (fs w1)"
      using pd pop_job_Some [OF _ q, of D w1] by auto
    let ?w1 = "w1\<lparr>fs := f'\<rparr>"
    have view: "same_view D w ?w1"
      using f' by (intro same_view_trans [OF view1 same_view_fs]) (auto simp: fence_laws_error [OF laws])
    have inv1: "sched_inv D S E ?w1" using inv same_view_inv [OF view] by simp
    have q1: "e_job_queue (ents ?w1 e) = j # js" and rq1: "map_option fst (e_rq (ents ?w1 e)) = Some s"
      and room1: "hw_rq_count (scheds ?w1 s) < hw_submission_limit (scheds ?w1 s)"
      using view q rq room by (simp_all add: same_view_def)
    define w3 where "w3 = drm_sched_job_begin now j (upd_sched s (\<lambda>x. x\<lparr>hw_rq_count := hw_rq_count x + 1\<rparr>)
        (upd_ent e (\<lambda>x. x\<lparr>e_last_scheduled := Some (Finished j), e_job_queue := tl (e_job_queue x)\<rparr>) ?w1))"
    have inv3: "sched_inv D S E w3"
      unfolding w3_def by (rule job_begin_inv(1) [OF inv1 s e q1 rq1 room1])
    have js: "j_sched (jobs ?w1 j) = s" using queueD(2) [OF inv1 e, of j] q1 rq1 by auto
    have p3: "j \<in> set (pending_list (scheds w3 s))"
      using js by (simp add: w3_def drm_sched_job_begin_def upd_defs)
    have o3: "\<not> f_is_signaled D (Finished j) (fs w3)"
      using queueD(4) [OF inv1 e, of j] q1 by (simp add: w3_def drm_sched_job_begin_def upd_defs)
    obtain res f4 where rn: "run j (fs w3) = (res, f4)" by (cases "run j (fs w3)")
    define w5 where "w5 = drm_sched_fence_scheduled D j (upd_ent e (\<lambda>x. x\<lparr>e_idle := e_idle x + 1\<rparr>) (w3\<lparr>fs := f4\<rparr>))"
    have view5: "same_view D w3 w5"
    proof -
      have "same_view D w3 (w3\<lparr>fs := f4\<rparr>)" by (rule same_view_fs) (rule run_lawsD [OF run rn])
      moreover have "same_view D (w3\<lparr>fs := f4\<rparr>) (upd_ent e (\<lambda>x. x\<lparr>e_idle := e_idle x + 1\<rparr>) (w3\<lparr>fs := f4\<rparr>))"
        by (rule same_view_upd_ent) simp
      ultimately have v: "same_view D w3 (upd_ent e (\<lambda>x. x\<lparr>e_idle := e_idle x + 1\<rparr>) (w3\<lparr>fs := f4\<rparr>))"
        by (rule same_view_trans)
      show ?thesis unfolding w5_def drm_sched_fence_scheduled_def
        by (rule same_view_trans [OF v same_view_fs]) (simp add: fence_laws_signal [OF laws])
    qed
    have inv5: "sched_inv D S E w5" using inv3 same_view_inv [OF view5] by simp
    have re: "run_entity D run now s e w = (case res of
             RunFence f \<Rightarrow> attach_done D f j
               (upd_job j (\<lambda>x. x\<lparr>j_s_fence := Some ((sf_of w5 j)\<lparr>sf_parent := Some f\<rparr>)\<rparr>) w5)
           | RunErr err \<Rightarrow> drm_sched_job_done D j (w5\<lparr>fs := f_set_error D (Finished j) err (fs w5)\<rparr>)
           | RunNull \<Rightarrow> drm_sched_job_done D j w5)"
      by (simp only: run_entity_def pop prod.case option.case Let_def w3_def [symmetric] rn w5_def [symmetric])
    have finish: "sched_inv D S E (drm_sched_job_done D j x) \<and> sched_inv D S E (attach_done D f j x)"
      if "same_view D w5 x" for x f
    proof -
      have "same_view D w3 x" by (rule same_view_trans [OF view5 that])
      moreover have "sched_inv D S E x" using inv5 same_view_inv [OF that] by simp
      ultimately show ?thesis
        using job_done_inv [OF laws _ s] attach_done_inv [OF laws _ s] p3 o3 by (simp add: same_view_def)
    qed
    have "same_view D w5 (upd_job j (\<lambda>x. x\<lparr>j_s_fence := Some ((sf_of w5 j)\<lparr>sf_parent := Some f\<rparr>)\<rparr>) w5)" for f
      by (rule same_view_upd_job) (simp_all add: sf_of_def upd_job_def)
    moreover have "same_view D w5 (w5\<lparr>fs := f_set_error D (Finished j) err (fs w5)\<rparr>)" for err
      by (rule same_view_fs) (rule fence_laws_error [OF laws])
    ultimately show ?thesis unfolding re using finish by (cases res) simp_all
  qed
qed

lemma main_inv:
  assumes laws: "fence_laws D" and run: "run_laws D run" and inv: "sched_inv D S E w" and s: "s \<in> S"
  shows "sched_inv D S E (drm_sched_main D run now s w)"
proof (cases "thread (scheds w s)")
  case True
  obtain jo w1 where c: "drm_sched_get_cleanup_job D now s w = (jo, w1)"
    by (cases "drm_sched_get_cleanup_job D now s w")
  note clean = cleanup_inv [OF inv s c]
  show ?thesis
  proof (cases jo)
    case (Some j)
    then show ?thesis using True c clean(1) same_view_inv [OF same_view_free_job, of D S E]
      by (simp add: drm_sched_main_def)
  next
    case None
    with clean have w1: "w1 = w" by simp
    obtain eo w2 where sel: "drm_sched_select_entity s w = (eo, w2)" by (cases "drm_sched_select_entity s w")
    show ?thesis
    proof (cases eo)
      case None
      then have "w2 = w" using sel select_prio_none by (auto simp: drm_sched_select_entity_def split: if_splits)
      then show ?thesis using True c \<open>jo = None\<close> w1 sel None inv by (simp add: drm_sched_main_def)
    next
      case (Some e)
      then have room: "hw_rq_count (scheds w s) < hw_submission_limit (scheds w s)"
        and sp: "select_prio s (rev [0..<DRM_SCHED_PRIORITY_COUNT]) w = (Some e, w2)"
        using sel by (auto simp: drm_sched_select_entity_def drm_sched_ready_def split: if_splits)
      then obtain i where i: "i < DRM_SCHED_PRIORITY_COUNT" "drm_sched_rq_select_entity (s, i) w = (Some e, w2)"
        using select_prio_inv [OF inv s _ sp] by auto
      note r = rq_select_inv [OF inv s i]
      obtain j js where q: "e_job_queue (ents w2 e) = j # js" using r(4) by (cases "e_job_queue (ents w2 e)") auto
      have "hw_rq_count (scheds w2 s) < hw_submission_limit (scheds w2 s)"
        using room r(5) by (metis drm_gpu_scheduler.select_convs(1,4) drm_gpu_scheduler.surjective drm_gpu_scheduler.update_convs(3))
      from run_entity_inv [OF laws run r(1) s r(2,3) this q] show ?thesis
        using True c \<open>jo = None\<close> w1 sel Some inv by (simp add: drm_sched_main_def)
    qed
  qed
qed (simp add: drm_sched_main_def inv)

section \<open>Run queue membership\<close>

lemma score_keeps [simp]:
  "scheds (score_inc s w) = scheds w" "ents (score_inc s w) = ents w" "jobs (score_inc s w) = jobs w"
  "fs (score_inc s w) = fs w" "sf_of (score_inc s w) = sf_of w" "the_rq (score_inc s w) = the_rq w"
  "scheds (score_dec s w) = scheds w" "ents (score_dec s w) = ents w" "jobs (score_dec s w) = jobs w"
  "fs (score_dec s w) = fs w" "sf_of (score_dec s w) = sf_of w" "the_rq (score_dec s w) = the_rq w"
  by (simp_all add: score_inc_def score_dec_def upd_cell_def sf_of_def the_rq_def fun_eq_iff)

lemma rqD:
  assumes "sched_inv D S E w" and "e \<in> E" and "e_rq (ents w e) = Some r"
  shows "fst r \<in> S" and "snd r < DRM_SCHED_PRIORITY_COUNT"
  using assms by (auto simp: sched_inv_def ents_ok_def ent_ok_def)

text \<open>Taking an entity off its run queue: its queue is empty, or it has been stopped.\<close>

lemma remove_entity_inv:
  assumes inv: "sched_inv D S E w" and e: "e \<in> E" and rq: "e_rq (ents w e) = Some r"
    and idle: "e_job_queue (ents w e) = [] \<or> e_stopped (ents w e)"
  shows "sched_inv D S E (drm_sched_rq_remove_entity r e w)"
    and "\<not> e_linked (ents (drm_sched_rq_remove_entity r e w) e)"
    and "\<And>x. x \<noteq> e \<Longrightarrow> ents (drm_sched_rq_remove_entity r e w) x = ents w x"
    and "ents (drm_sched_rq_remove_entity r e w) e = (ents w e)\<lparr>e_linked := False\<rparr>"
proof -
  let ?w' = "drm_sched_rq_remove_entity r e w"
  show ents_e: "ents ?w' e = (ents w e)\<lparr>e_linked := False\<rparr>"
    by (auto simp: drm_sched_rq_remove_entity_def upd_ent_def)
  then show "\<not> e_linked (ents ?w' e)" by simp
  show ents_o: "\<And>x. x \<noteq> e \<Longrightarrow> ents ?w' x = ents w x"
    by (auto simp: drm_sched_rq_remove_entity_def upd_ent_def)
  have r: "fst r \<in> S" "snd r < DRM_SCHED_PRIORITY_COUNT"
    using rqD [OF inv e rq] by simp_all
  show "sched_inv D S E ?w'"
  proof (cases "e_linked (ents w e)")
    case False
    then show ?thesis using inv by (simp add: drm_sched_rq_remove_entity_def)
  next
    case True
    have len: "length (sched_rq (scheds w (fst r))) = DRM_SCHED_PRIORITY_COUNT"
      using inv r by (auto simp: sched_inv_def rqs_ok_def)
    have q: "the_rq ?w' x = (if x = r then (the_rq w r)\<lparr>rq_entities := removeAll e (rq_entities (the_rq w r)),
        rq_current := (if rq_current (the_rq w r) = Some e then None else rq_current (the_rq w r))\<rparr> else the_rq w x)" for x
      using True len r(2) by (simp add: drm_sched_rq_remove_entity_def the_rq_upd_rq the_rq_upd_other)
    have keep: "\<And>s. pending_list (scheds ?w' s) = pending_list (scheds w s)"
      "\<And>s. hw_rq_count (scheds ?w' s) = hw_rq_count (scheds w s)"
      "\<And>s. hw_submission_limit (scheds ?w' s) = hw_submission_limit (scheds w s)"
      "\<And>s. length (sched_rq (scheds ?w' s)) = length (sched_rq (scheds w s))"
      "jobs ?w' = jobs w" "fs ?w' = fs w"
      by (simp_all add: drm_sched_rq_remove_entity_def upd_ent_def)
    have sf: "sf_of ?w' = sf_of w" by (simp add: sf_of_def keep fun_eq_iff)
    have en: "ents ?w' = (ents w)(e := (ents w e)\<lparr>e_linked := False\<rparr>)"
      using ents_e ents_o by (auto simp: fun_eq_iff)
    have "rqs_ok S E ?w'"
      unfolding rqs_ok_def
    proof (intro ballI conjI allI impI)
      fix s i x assume s: "s \<in> S" and i: "i < DRM_SCHED_PRIORITY_COUNT"
      have old: "rq_wf (the_rq w (s, i))"
        "\<And>x. x \<in> set (rq_entities (the_rq w (s, i))) \<Longrightarrow> x \<in> E \<and> e_linked (ents w x) \<and> e_rq (ents w x) = Some (s, i)"
        using inv s i by (auto simp: sched_inv_def rqs_ok_def)
      show "rq_wf (the_rq ?w' (s, i))"
        using old(1) by (auto simp: q rq_wf_def distinct_removeAll split: option.splits)
      assume x: "x \<in> set (rq_entities (the_rq ?w' (s, i)))"
      have "x \<noteq> e \<and> x \<in> set (rq_entities (the_rq w (s, i)))"
      proof (cases "(s, i) = r")
        case True
        then show ?thesis using x by (auto simp: q)
      next
        case False
        then have x': "x \<in> set (rq_entities (the_rq w (s, i)))" using x by (auto simp: q)
        moreover have "x \<noteq> e" using old(2) [OF x'] rq False by auto
        ultimately show ?thesis by simp
      qed
      then show "x \<in> E" "e_linked (ents ?w' x)" "e_rq (ents ?w' x) = Some (s, i)"
        using old(2) [of x] by (auto simp: en)
    next
      fix s assume "s \<in> S"
      then show "length (sched_rq (scheds ?w' s)) = DRM_SCHED_PRIORITY_COUNT"
        using inv by (simp add: keep sched_inv_def rqs_ok_def)
    qed
    moreover have "ents_ok S E ?w'"
    proof -
      have "rq_entities (the_rq ?w' x) = (if x = r then removeAll e (rq_entities (the_rq w r)) else rq_entities (the_rq w x))" for x
        by (simp add: q)
      then have "ent_ok S ?w' x" if "ent_ok S w x" for x
        using that idle rq by (cases "x = e") (auto simp: ent_ok_def en)
      then show ?thesis using inv by (simp add: sched_inv_def ents_ok_def)
    qed
    moreover have "jobs_ok D S E ?w'" "count_ok D S ?w'"
      using inv by (auto simp: sched_inv_def jobs_ok_def count_ok_def inflight_def keep sf en)
    ultimately show ?thesis by (simp add: sched_inv_def)
  qed
qed

lemma add_entity_inv:
  assumes inv: "sched_inv D S E w" and e: "e \<in> E" and rq: "e_rq (ents w e) = Some r"
  shows "sched_inv D S E (drm_sched_rq_add_entity r e w)"
    and "ents (drm_sched_rq_add_entity r e w) = (ents w)(e := (ents w e)\<lparr>e_linked := True\<rparr>)"
proof -
  let ?w' = "drm_sched_rq_add_entity r e w"
  show en: "ents ?w' = (ents w)(e := (ents w e)\<lparr>e_linked := True\<rparr>)"
    by (auto simp: drm_sched_rq_add_entity_def upd_ent_def fun_eq_iff)
  note r = rqD [OF inv e rq]
  show "sched_inv D S E ?w'"
  proof (cases "e_linked (ents w e)")
    case True
    then show ?thesis using inv by (simp add: drm_sched_rq_add_entity_def)
  next
    case False
    have len: "length (sched_rq (scheds w (fst r))) = DRM_SCHED_PRIORITY_COUNT"
      using inv r by (auto simp: sched_inv_def rqs_ok_def)
    have q: "the_rq ?w' x = (if x = r then (the_rq w r)\<lparr>rq_entities := rq_entities (the_rq w r) @ [e]\<rparr> else the_rq w x)" for x
      using False len r(2) by (simp add: drm_sched_rq_add_entity_def the_rq_upd_rq the_rq_upd_other)
    have keep: "\<And>s. pending_list (scheds ?w' s) = pending_list (scheds w s)"
      "\<And>s. hw_rq_count (scheds ?w' s) = hw_rq_count (scheds w s)"
      "\<And>s. hw_submission_limit (scheds ?w' s) = hw_submission_limit (scheds w s)"
      "\<And>s. length (sched_rq (scheds ?w' s)) = length (sched_rq (scheds w s))"
      "jobs ?w' = jobs w" "fs ?w' = fs w"
      by (simp_all add: drm_sched_rq_add_entity_def upd_ent_def)
    have sf: "sf_of ?w' = sf_of w" by (simp add: sf_of_def keep fun_eq_iff)
    have "rqs_ok S E ?w'"
      unfolding rqs_ok_def
    proof (intro ballI conjI allI impI)
      fix s i x assume s: "s \<in> S" and i: "i < DRM_SCHED_PRIORITY_COUNT"
      have old: "rq_wf (the_rq w (s, i))"
        "\<And>x. x \<in> set (rq_entities (the_rq w (s, i))) \<Longrightarrow> x \<in> E \<and> e_linked (ents w x) \<and> e_rq (ents w x) = Some (s, i)"
        using inv s i by (auto simp: sched_inv_def rqs_ok_def)
      then have "e \<notin> set (rq_entities (the_rq w (s, i)))" using False by blast
      then show "rq_wf (the_rq ?w' (s, i))"
        using old(1) by (auto simp: q rq_wf_def split: option.splits)
      assume x: "x \<in> set (rq_entities (the_rq ?w' (s, i)))"
      then have "x = e \<and> r = (s, i) \<or> x \<in> set (rq_entities (the_rq w (s, i)))" by (auto simp: q split: if_splits)
      then show "x \<in> E" "e_linked (ents ?w' x)" "e_rq (ents ?w' x) = Some (s, i)"
        using old(2) [of x] e rq by (auto simp: en)
    next
      fix s assume "s \<in> S"
      then show "length (sched_rq (scheds ?w' s)) = DRM_SCHED_PRIORITY_COUNT"
        using inv by (simp add: keep sched_inv_def rqs_ok_def)
    qed
    moreover have "ents_ok S E ?w'"
    proof -
      have "rq_entities (the_rq ?w' x) = (if x = r then rq_entities (the_rq w r) @ [e] else rq_entities (the_rq w x))" for x
        by (simp add: q)
      then have "ent_ok S ?w' x" if "ent_ok S w x" for x
        using that rq by (cases "x = e") (auto simp: ent_ok_def en)
      then show ?thesis using inv by (simp add: sched_inv_def ents_ok_def)
    qed
    moreover have "jobs_ok D S E ?w'" "count_ok D S ?w'"
      using inv by (auto simp: sched_inv_def jobs_ok_def count_ok_def inflight_def keep sf en)
    ultimately show ?thesis by (simp add: sched_inv_def)
  qed
qed

lemma set_rq_inv:
  assumes inv: "sched_inv D S E w" and e: "e \<in> E" and "\<not> e_linked (ents w e)" and "e_job_queue (ents w e) = []"
    and "\<And>r. rq = Some r \<Longrightarrow> fst r \<in> S \<and> snd r < DRM_SCHED_PRIORITY_COUNT"
  shows "sched_inv D S E (upd_ent e (\<lambda>x. x\<lparr>e_rq := rq\<rparr>) w)" (is "sched_inv D S E ?w'")
proof -
  have keep: "scheds ?w' = scheds w" "jobs ?w' = jobs w" "fs ?w' = fs w" "the_rq ?w' = the_rq w" "sf_of ?w' = sf_of w"
    and en: "ents ?w' = (ents w)(e := (ents w e)\<lparr>e_rq := rq\<rparr>)"
    by (simp_all add: upd_ent_def the_rq_def sf_of_def fun_eq_iff)
  have "rqs_ok S E ?w'" unfolding rqs_ok_def keep en
  proof (intro ballI conjI allI impI)
    fix s i x assume "s \<in> S" "i < DRM_SCHED_PRIORITY_COUNT" and x: "x \<in> set (rq_entities (the_rq w (s, i)))"
    then have "x \<in> E \<and> e_linked (ents w x) \<and> e_rq (ents w x) = Some (s, i)"
      using inv by (auto simp: sched_inv_def rqs_ok_def)
    then show "x \<in> E" "e_linked (((ents w)(e := (ents w e)\<lparr>e_rq := rq\<rparr>)) x)"
      "e_rq (((ents w)(e := (ents w e)\<lparr>e_rq := rq\<rparr>)) x) = Some (s, i)"
      using assms(3) by auto
  qed (use inv in \<open>auto simp: sched_inv_def rqs_ok_def\<close>)
  moreover have "ents_ok S E ?w'"
    using inv assms(3-5) by (auto simp: sched_inv_def ents_ok_def ent_ok_def keep en)
  moreover have "jobs_ok D S E ?w'" "count_ok D S ?w'"
    using inv assms(4) by (auto simp: sched_inv_def jobs_ok_def count_ok_def inflight_def keep en)
  ultimately show ?thesis by (simp add: sched_inv_def)
qed

section \<open>Submission\<close>

text \<open>The priority and the list of schedulers of an entity matter for its next run queue only.\<close>

lemma ent_params_inv:
  assumes inv: "sched_inv D S E w"
    and f: "\<And>x. e_linked (f x) = e_linked x \<and> e_rq (f x) = e_rq x \<and> e_stopped (f x) = e_stopped x \<and> e_job_queue (f x) = e_job_queue x"
    and "e \<in> E \<Longrightarrow> e_priority (f (ents w e)) < DRM_SCHED_PRIORITY_COUNT"
    and "e \<in> E \<Longrightarrow> e_sched_list (f (ents w e)) \<noteq> None \<Longrightarrow> set (the (e_sched_list (f (ents w e)))) \<subseteq> Some ` S"
  shows "sched_inv D S E (upd_ent e f w)" (is "sched_inv D S E ?w'")
proof -
  have keep: "scheds ?w' = scheds w" "jobs ?w' = jobs w" "fs ?w' = fs w" "the_rq ?w' = the_rq w" "sf_of ?w' = sf_of w"
    by (simp_all add: upd_ent_def the_rq_def sf_of_def fun_eq_iff)
  have en: "e_linked (ents ?w' x) = e_linked (ents w x)" "e_rq (ents ?w' x) = e_rq (ents w x)"
    "e_stopped (ents ?w' x) = e_stopped (ents w x)" "e_job_queue (ents ?w' x) = e_job_queue (ents w x)" for x
    using f by (simp_all add: upd_ent_def)
  have "ent_ok S ?w' x" if "ent_ok S w x" "x \<in> E" for x
    using that assms(3,4) unfolding ent_ok_def keep en by (cases "x = e") (auto simp: upd_ent_def)
  then have "ents_ok S E ?w'" using inv by (simp add: sched_inv_def ents_ok_def)
  moreover have "rqs_ok S E ?w'" "jobs_ok D S E ?w'" "count_ok D S ?w'"
    using inv by (simp_all add: sched_inv_def rqs_ok_def jobs_ok_def count_ok_def inflight_def keep en)
  ultimately show ?thesis by (simp add: sched_inv_def)
qed

lemma pick_loop_member: "pick_loop w ss m p = Some b \<Longrightarrow> p = Some b \<or> b \<in> set ss"
  by (induction ss arbitrary: m p) (auto simp: Let_def split: if_splits)

lemma pick_best_member:
  assumes "set sl \<subseteq> Some ` S" and "drm_sched_pick_best w sl n = Some b"
  shows "b \<in> S"
proof -
  have "b \<in> the ` set (take (unat n) sl)"
    using assms(2) pick_loop_member unfolding drm_sched_pick_best_def by fastforce
  then show ?thesis using assms(1) set_take_subset [of "unat n" sl] by force
qed

lemma select_rq_inv:
  assumes inv: "sched_inv D S E w" and e: "e \<in> E"
  shows "sched_inv D S E (drm_sched_entity_select_rq D e w)"
    and "pending_list (scheds (drm_sched_entity_select_rq D e w) s) = pending_list (scheds w s)"
    and "e_job_queue (ents (drm_sched_entity_select_rq D e w) x) = e_job_queue (ents w x)"
proof -
  let ?w' = "drm_sched_entity_select_rq D e w"
  show "pending_list (scheds ?w' s) = pending_list (scheds w s)"
    by (auto simp: drm_sched_entity_select_rq_def Let_def drm_sched_rq_remove_entity_def upd_ent_def split: option.split)
  show "e_job_queue (ents ?w' x) = e_job_queue (ents w x)"
    by (auto simp: drm_sched_entity_select_rq_def Let_def drm_sched_rq_remove_entity_def upd_ent_def split: option.split)
  have fin: "sched_inv D S E (if e_num_sched_list (ents w1 e) = 1
       then upd_ent e (\<lambda>x. x\<lparr>e_sched_list := None\<rparr>) w1 else w1)" if "sched_inv D S E w1" for w1
  proof -
    have "sched_inv D S E (upd_ent e (\<lambda>x. x\<lparr>e_sched_list := None\<rparr>) w1)"
      using that e by (intro ent_params_inv) (auto simp: sched_inv_def ents_ok_def ent_ok_def)
    with that show ?thesis by simp
  qed
  show "sched_inv D S E ?w'"
  proof (cases "e_sched_list (ents w e)")
    case None
    then show ?thesis using inv by (simp add: drm_sched_entity_select_rq_def)
  next
    case (Some sl)
    let ?rq = "map_option (\<lambda>s. (s, e_priority (ents w e))) (drm_sched_pick_best w sl (e_num_sched_list (ents w e)))"
    let ?rem = "case e_rq (ents w e) of None \<Rightarrow> w | Some r \<Rightarrow> drm_sched_rq_remove_entity r e w"
    have ok: "ent_ok S w e" using inv e by (simp add: sched_inv_def ents_ok_def)
    have rq: "fst r \<in> S \<and> snd r < DRM_SCHED_PRIORITY_COUNT" if "?rq = Some r" for r
      using that ok Some pick_best_member [of sl S w] by (auto simp: ent_ok_def)
    have set: "sched_inv D S E (upd_ent e (\<lambda>x. x\<lparr>e_rq := ?rq\<rparr>) ?rem)" if q: "e_job_queue (ents w e) = []"
    proof (cases "e_rq (ents w e)")
      case None
      then have "\<not> e_linked (ents w e)" using ok by (auto simp: ent_ok_def)
      from set_rq_inv [OF inv e this q rq] show ?thesis by (simp only: None option.case)
    next
      case (Some r)
      note rem = remove_entity_inv [OF inv e Some disjI1 [OF q]]
      have "e_job_queue (ents (drm_sched_rq_remove_entity r e w) e) = []" using q by (simp add: rem(4))
      from set_rq_inv [OF rem(1) e rem(2) this rq] show ?thesis by (simp only: Some option.case)
    qed
    define w1 where "w1 = (if ?rq \<noteq> e_rq (ents w e) then upd_ent e (\<lambda>x. x\<lparr>e_rq := ?rq\<rparr>) ?rem else w)"
    have eq: "?w' = (if e_job_queue (ents w e) \<noteq> [] then w
       else if (case e_last_scheduled (ents w e) of None \<Rightarrow> False | Some f \<Rightarrow> \<not> f_is_signaled D f (fs w)) then w
       else if e_num_sched_list (ents w1 e) = 1 then upd_ent e (\<lambda>x. x\<lparr>e_sched_list := None\<rparr>) w1 else w1)"
      by (simp only: drm_sched_entity_select_rq_def Let_def Some option.case w1_def)
    show ?thesis
    proof (cases "e_job_queue (ents w e) = []")
      case True
      then have "sched_inv D S E w1" using inv set by (simp add: w1_def)
      from fin [OF this] inv show ?thesis unfolding eq by simp
    qed (simp add: eq inv)
  qed
qed

text \<open>Changing a job that nothing holds yet, and its fences, leaves the invariant alone.\<close>

definition view_except :: "'f dma_ops \<Rightarrow> nat \<Rightarrow> 'f world \<Rightarrow> 'f world \<Rightarrow> bool" where
  "view_except D j w w' \<longleftrightarrow>
     (\<forall>s. pending_list (scheds w' s) = pending_list (scheds w s) \<and> hw_rq_count (scheds w' s) = hw_rq_count (scheds w s)
        \<and> hw_submission_limit (scheds w' s) = hw_submission_limit (scheds w s) \<and> sched_rq (scheds w' s) = sched_rq (scheds w s))
   \<and> (\<forall>e. e_linked (ents w' e) = e_linked (ents w e) \<and> e_rq (ents w' e) = e_rq (ents w e)
        \<and> e_stopped (ents w' e) = e_stopped (ents w e) \<and> e_job_queue (ents w' e) = e_job_queue (ents w e)
        \<and> e_priority (ents w' e) = e_priority (ents w e) \<and> e_sched_list (ents w' e) = e_sched_list (ents w e))
   \<and> (\<forall>k. k \<noteq> j \<longrightarrow> jobs w' k = jobs w k
        \<and> f_is_signaled D (Finished k) (fs w') = f_is_signaled D (Finished k) (fs w))"

lemma view_except_trans: "view_except D j w w1 \<Longrightarrow> view_except D j w1 w2 \<Longrightarrow> view_except D j w w2"
  by (simp add: view_except_def)

lemma view_except_upd_job: "view_except D j w (upd_job j f w)"
  by (simp add: view_except_def upd_job_def)

lemma view_except_unused: "view_except D j w w' \<Longrightarrow> unused S E w' j = unused S E w j"
  by (simp add: view_except_def unused_def)

lemma view_except_inv:
  assumes v: "view_except D j w w'" and u: "unused S E w j" and inv: "sched_inv D S E w"
  shows "sched_inv D S E w'"
proof -
  have sf: "sf_of w' k = sf_of w k" if "k \<noteq> j" for k using v that by (simp add: view_except_def sf_of_def)
  have "rqs_ok S E w'" using inv v rqs_ok_cong [of w' w] by (simp add: sched_inv_def view_except_def)
  moreover have "ents_ok S E w'"
    using inv v by (simp add: sched_inv_def ents_ok_def ent_ok_def view_except_def the_rq_def)
  moreover have "jobs_ok D S E w'"
    unfolding jobs_ok_def
  proof (intro conjI ballI)
    fix e k assume e: "e \<in> E" and k: "k \<in> set (e_job_queue (ents w' e))"
    then have k': "k \<in> set (e_job_queue (ents w e))" and "k \<noteq> j" using v u by (auto simp: view_except_def unused_def)
    then show "j_entity (jobs w' k) = e" "Some (j_sched (jobs w' k)) = map_option fst (e_rq (ents w' e))"
      "sf_sched (sf_of w' k) = Some (j_sched (jobs w' k))" "\<not> f_is_signaled D (Finished k) (fs w')"
      using queueD [OF inv e k'] v by (simp_all add: view_except_def sf)
  next
    fix e assume "e \<in> E"
    then show "distinct (e_job_queue (ents w' e))" using distinctD(1) [OF inv] v by (simp add: view_except_def)
  next
    fix s assume s: "s \<in> S"
    then show "distinct (pending_list (scheds w' s))" using distinctD(2) [OF inv] v by (simp add: view_except_def)
    fix k assume k: "k \<in> set (pending_list (scheds w' s))"
    then have k': "k \<in> set (pending_list (scheds w s))" and "k \<noteq> j" using v u s by (auto simp: view_except_def unused_def)
    then show "j_sched (jobs w' k) = s" "sf_sched (sf_of w' k) = Some s" "j_entity (jobs w' k) \<in> E"
      "k \<notin> set (e_job_queue (ents w' (j_entity (jobs w' k))))"
      using pendingD [OF inv s k'] v by (simp_all add: view_except_def sf)
  qed
  moreover have "inflight D w' s = inflight D w s" if "s \<in> S" for s
    using v u that unfolding inflight_def view_except_def unused_def by (metis (mono_tags, lifting) filter_cong)
  then have "count_ok D S w'" using inv v by (simp add: sched_inv_def count_ok_def view_except_def)
  ultimately show ?thesis by (simp add: sched_inv_def)
qed

lemma add_dependency_upd: "\<exists>f. snd (drm_sched_job_add_dependency D kz j fo w) = upd_job j f w"
proof -
  have "w = upd_job j (\<lambda>x. x) w" by (simp add: upd_job_def)
  then show ?thesis unfolding drm_sched_job_add_dependency_def
    by (auto split: option.split)
qed

lemma add_implicit_view: "view_except D j w (snd (drm_sched_job_add_implicit_dependencies D j deps w))"
proof (induction deps arbitrary: w)
  case Nil
  show ?case by (simp add: view_except_def)
next
  case (Cons d deps)
  obtain kz f where d: "d = (kz, f)" by (cases d)
  obtain r w1 where a: "drm_sched_job_add_dependency D kz j (Some f) w = (r, w1)"
    by (cases "drm_sched_job_add_dependency D kz j (Some f) w")
  then obtain g where "w1 = upd_job j g w" using add_dependency_upd [of D kz j "Some f" w] by auto
  then have v: "view_except D j w w1" by (simp add: view_except_upd_job)
  show ?case using v view_except_trans [OF v Cons.IH [of w1]] by (simp add: d a)
qed

lemma push_inv:
  assumes inv: "sched_inv D S E w" and u: "unused S E w j" and e: "e \<in> E" and ent: "j_entity (jobs w j) = e"
    and rq: "e_rq (ents w e) = Some r" and j: "j_sched (jobs w j) = fst r" "sf_sched (sf_of w j) = Some (fst r)"
    "\<not> f_is_signaled D (Finished j) (fs w)"
  shows "sched_inv D S E (drm_sched_entity_push_job current j w)"
proof -
  let ?app = "upd_ent e (\<lambda>x. x\<lparr>e_last_user := Some current, e_job_queue := e_job_queue x @ [j]\<rparr>)"
  have app: "sched_inv D S E (?app x)"
    if inv: "sched_inv D S E x" and u: "unused S E x j" and "jobs x = jobs w" and "fs x = fs w"
      and "e_rq (ents x e) = Some r" and st: "e_stopped (ents x e) \<or> e_linked (ents x e)" for x
  proof -
    have keep: "scheds (?app x) = scheds x" "jobs (?app x) = jobs x" "fs (?app x) = fs x"
      "the_rq (?app x) = the_rq x" "sf_of (?app x) = sf_of x" "sf_of x = sf_of w"
      using that(3) by (simp_all add: upd_ent_def the_rq_def sf_of_def fun_eq_iff)
    have en: "e_linked (ents (?app x) y) = e_linked (ents x y)" "e_rq (ents (?app x) y) = e_rq (ents x y)"
      "e_stopped (ents (?app x) y) = e_stopped (ents x y)" "e_priority (ents (?app x) y) = e_priority (ents x y)"
      "e_sched_list (ents (?app x) y) = e_sched_list (ents x y)"
      "e_job_queue (ents (?app x) y) = (if y = e then e_job_queue (ents x e) @ [j] else e_job_queue (ents x y))" for y
      by (simp_all add: upd_ent_def)
    have "ents_ok S E (?app x)"
      using inv that(5) st by (auto simp: sched_inv_def ents_ok_def ent_ok_def keep en)
    moreover have "rqs_ok S E (?app x)" "count_ok D S (?app x)"
      using inv by (simp_all add: sched_inv_def rqs_ok_def count_ok_def inflight_def keep en)
    moreover have "jobs_ok D S E (?app x)"
      unfolding jobs_ok_def
    proof (intro conjI ballI)
      fix y k assume y: "y \<in> E" and "k \<in> set (e_job_queue (ents (?app x) y))"
      then have "k = j \<and> y = e \<or> k \<in> set (e_job_queue (ents x y))" by (auto simp: en split: if_splits)
      then show "j_entity (jobs (?app x) k) = y" "Some (j_sched (jobs (?app x) k)) = map_option fst (e_rq (ents (?app x) y))"
        "sf_sched (sf_of (?app x) k) = Some (j_sched (jobs (?app x) k))" "\<not> f_is_signaled D (Finished k) (fs (?app x))"
        using queueD [OF inv y] ent j that(3-5) by (auto simp: keep en)
    next
      fix y assume "y \<in> E"
      then show "distinct (e_job_queue (ents (?app x) y))"
        using distinctD(1) [OF inv] u by (auto simp: en unused_def)
    next
      fix s assume s: "s \<in> S"
      then show "distinct (pending_list (scheds (?app x) s))" using distinctD(2) [OF inv] by (simp add: keep)
      fix k assume "k \<in> set (pending_list (scheds (?app x) s))"
      then have k: "k \<in> set (pending_list (scheds x s))" "k \<noteq> j" using u s by (auto simp: keep unused_def)
      then show "j_sched (jobs (?app x) k) = s" "sf_sched (sf_of (?app x) k) = Some s" "j_entity (jobs (?app x) k) \<in> E"
        "k \<notin> set (e_job_queue (ents (?app x) (j_entity (jobs (?app x) k))))"
        using pendingD [OF inv s k(1)] queue_pending_disjoint [OF inv s k(1) e] by (auto simp: keep en)
    qed
    ultimately show ?thesis by (simp add: sched_inv_def)
  qed
  let ?w1 = "score_inc (fst r) w"
  have inv1: "sched_inv D S E ?w1"
    using inv same_view_inv [OF same_view_cell, of D S E] by (simp add: score_inc_def)
  have u1: "unused S E ?w1 j" using u by (simp add: unused_def)
  have rq1: "e_rq (ents ?w1 e) = Some r" using rq by simp
  show ?thesis
  proof (cases "e_job_queue (ents w e) = [] \<and> \<not> e_stopped (ents w e)")
    case True
    let ?w2 = "drm_sched_rq_add_entity r e ?w1"
    note add = add_entity_inv [OF inv1 e rq1]
    have order: "x\<lparr>e_last_user := a, e_job_queue := b, e_linked := c\<rparr>
        = x\<lparr>e_linked := c, e_last_user := a, e_job_queue := b\<rparr>" for x :: drm_sched_entity and a b c
      by (cases x) simp
    have eq: "drm_sched_entity_push_job current j w = ?app ?w2"
      using True ent rq
      by (simp add: order drm_sched_entity_push_job_def Let_def drm_sched_rq_add_entity_def upd_defs score_inc_def)
    have "pending_list (scheds ?w2 s) = pending_list (scheds w s)" for s
      by (simp add: drm_sched_rq_add_entity_def upd_ent_def)
    then have "unused S E ?w2 j" using u by (simp add: unused_def add(2))
    then show ?thesis unfolding eq using rq
      by (intro app [OF add(1)]) (simp_all add: add(2) drm_sched_rq_add_entity_def upd_ent_def)
  next
    case False
    then have "drm_sched_entity_push_job current j w = ?app ?w1"
      using ent rq by (auto simp: drm_sched_entity_push_job_def Let_def upd_ent_def)
    moreover have "e_stopped (ents w e) \<or> e_linked (ents w e)"
      using inv e False by (auto simp: sched_inv_def ents_ok_def ent_ok_def)
    ultimately show ?thesis using app [OF inv1 u1 _ _ rq1] by simp
  qed
qed

lemma add_dependency_entity:
  "j_entity (jobs (snd (drm_sched_job_add_dependency D kz j fo w)) j) = j_entity (jobs w j)"
  by (auto simp: drm_sched_job_add_dependency_def upd_job_def split: option.split)

lemma add_implicit_entity:
  "j_entity (jobs (snd (drm_sched_job_add_implicit_dependencies D j deps w)) j) = j_entity (jobs w j)"
proof (induction deps arbitrary: w)
  case (Cons d deps)
  obtain kz f where d: "d = (kz, f)" by (cases d)
  show ?case using Cons.IH add_dependency_entity [of D kz j "Some f" w] by (auto simp: d split: prod.split)
qed simp

lemma stop_inv:
  assumes inv: "sched_inv D S E w"
  shows "sched_inv D S E (upd_ent e (\<lambda>x. x\<lparr>e_stopped := True\<rparr>) w)" (is "sched_inv D S E ?w'")
proof -
  have keep: "scheds ?w' = scheds w" "jobs ?w' = jobs w" "fs ?w' = fs w" "the_rq ?w' = the_rq w" "sf_of ?w' = sf_of w"
    by (simp_all add: upd_ent_def the_rq_def sf_of_def fun_eq_iff)
  have en: "e_linked (ents ?w' x) = e_linked (ents w x)" "e_rq (ents ?w' x) = e_rq (ents w x)"
    "e_job_queue (ents ?w' x) = e_job_queue (ents w x)" "e_priority (ents ?w' x) = e_priority (ents w x)"
    "e_sched_list (ents ?w' x) = e_sched_list (ents w x)"
    "e_stopped (ents ?w' x) = (x = e \<or> e_stopped (ents w x))" for x
    by (simp_all add: upd_ent_def)
  show ?thesis
    using inv by (auto simp: sched_inv_def rqs_ok_def ents_ok_def ent_ok_def jobs_ok_def count_ok_def inflight_def keep en)
qed

lemma arm_view:
  assumes "fence_laws D" and "j_entity (jobs w j) = e" and "e_rq (ents w e) = Some r"
  shows "view_except D j w (drm_sched_job_arm D j w)"
    and "j_entity (jobs (drm_sched_job_arm D j w) j) = e"
    and "j_sched (jobs (drm_sched_job_arm D j w) j) = fst r"
    and "sf_sched (sf_of (drm_sched_job_arm D j w) j) = Some (fst r)"
    and "\<not> f_is_signaled D (Finished j) (fs (drm_sched_job_arm D j w))"
    and "e_rq (ents (drm_sched_job_arm D j w) e) = Some r"
  using assms by (simp_all add: drm_sched_job_arm_def drm_sched_fence_init_def Let_def upd_defs view_except_def sf_of_def
      fence_laws_def)

lemma submit_inv:
  assumes laws: "fence_laws D" and inv: "sched_inv D S E w" and e: "e \<in> E" and u: "unused S E w j"
    and sub: "submit D current j e deps w = (r, w')"
  shows "sched_inv D S E w'"
proof -
  let ?w1 = "drm_sched_entity_select_rq D e w"
  note sel = select_rq_inv [OF inv e]
  have u1: "unused S E ?w1 j" using u by (simp add: unused_def sel)
  show ?thesis
  proof (cases "e_rq (ents ?w1 e)")
    case None
    then show ?thesis using sub sel(1) by (simp add: submit_def drm_sched_job_init_def Let_def)
  next
    case (Some q)
    define w2 where "w2 = upd_job j (\<lambda>x. x\<lparr>j_dependencies := []\<rparr>)
      (upd_job j (\<lambda>x. x\<lparr>j_entity := e, j_s_fence := drm_sched_fence_alloc True\<rparr>) ?w1)"
    have v2: "view_except D j ?w1 w2"
      unfolding w2_def by (rule view_except_trans [OF view_except_upd_job view_except_upd_job])
    obtain r' w3 where imp: "drm_sched_job_add_implicit_dependencies D j deps w2 = (r', w3)"
      by (cases "drm_sched_job_add_implicit_dependencies D j deps w2")
    have v3: "view_except D j ?w1 w3"
      using view_except_trans [OF v2 add_implicit_view [of D j w2 deps]] imp by simp
    have init: "drm_sched_job_init D True j e w = (0, w2)"
      using Some by (simp add: drm_sched_job_init_def Let_def w2_def drm_sched_fence_alloc_def)
    have ent2: "j_entity (jobs w2 j) = e" by (simp add: w2_def upd_job_def)
    show ?thesis
    proof (cases "r' = 0")
      case False
      then have "w' = drm_sched_job_cleanup j w3" using sub init imp by (simp add: submit_def)
      moreover have "view_except D j ?w1 (drm_sched_job_cleanup j w3)"
        unfolding drm_sched_job_cleanup_def by (rule view_except_trans [OF v3 view_except_upd_job])
      ultimately show ?thesis using view_except_inv u1 sel(1) by blast
    next
      case True
      have ent3: "j_entity (jobs w3 j) = e"
        using add_implicit_entity [of D j deps w2] imp ent2 by simp
      have rq3: "e_rq (ents w3 e) = Some q" using v3 Some by (simp add: view_except_def)
      note arm = arm_view [OF laws ent3 rq3]
      have v4: "view_except D j ?w1 (drm_sched_job_arm D j w3)" by (rule view_except_trans [OF v3 arm(1)])
      have "w' = drm_sched_entity_push_job current j (drm_sched_job_arm D j w3)"
        using sub init imp True by (simp add: submit_def)
      moreover have "unused S E (drm_sched_job_arm D j w3) j" using view_except_unused [OF v4] u1 by simp
      ultimately show ?thesis
        using push_inv [OF view_except_inv [OF v4 u1 sel(1)] _ e arm(2,6,3,4,5)] by simp
    qed
  qed
qed

section \<open>Every step keeps the invariant\<close>

lemma flush_inv:
  assumes inv: "sched_inv D S E w" and e: "e \<in> E"
    and fl: "drm_sched_entity_flush current exiting sigkill waited e tmo w = (r, w')"
  shows "sched_inv D S E w'"
proof (cases "e_rq (ents w e)")
  case None
  then show ?thesis using fl inv by (simp add: drm_sched_entity_flush_def)
next
  case (Some q)
  let ?lu = "\<lambda>w. if e_last_user (ents w e) = Some current then upd_ent e (\<lambda>x. x\<lparr>e_last_user := None\<rparr>) w else w"
  have v1: "same_view D w (?lu w)" by (auto intro: same_view_upd_ent)
  then have inv1: "sched_inv D S E (?lu w)" using inv same_view_inv by blast
  have inv2: "sched_inv D S E (upd_ent e (\<lambda>x. x\<lparr>e_stopped := True\<rparr>) (?lu w))"
    using inv1 by (rule stop_inv)
  have q2: "e_rq (ents (upd_ent e (\<lambda>x. x\<lparr>e_stopped := True\<rparr>) (?lu w)) e) = Some q"
    and st: "e_stopped (ents (upd_ent e (\<lambda>x. x\<lparr>e_stopped := True\<rparr>) (?lu w)) e)"
    using Some by (simp_all add: upd_ent_def)
  from remove_entity_inv(1) [OF inv2 e q2 disjI2 [OF st]] inv1 show ?thesis
    using fl Some by (auto simp: drm_sched_entity_flush_def Let_def split: if_splits)
qed

lemma sched_step_inv:
  assumes "fence_laws D" and "run_laws D run" and "sched_step D run S E w w'" and "sched_inv D S E w"
  shows "sched_inv D S E w'"
  using assms(3,4)
proof cases
  case (submits e j current deps r)
  then show ?thesis using submit_inv [OF assms(1,4)] by blast
next
  case (thread_turn s now)
  then show ?thesis using main_inv [OF assms(1,2,4)] by blast
next
  case (hw_done s j)
  then show ?thesis using job_done_inv [OF assms(1,4)] by blast
next
  case (ext_signal n)
  then show ?thesis using inv_fs [OF assms(4)] by (simp add: fence_laws_signal [OF assms(1)])
next
  case (dep_cleared e)
  have "same_view D w w'" unfolding dep_cleared drm_sched_entity_clear_dep_def by (rule same_view_upd_ent) simp
  then show ?thesis using assms(4) same_view_inv by blast
next
  case (set_priority e p)
  have "ent_ok S w e" using assms(4) set_priority by (simp add: sched_inv_def ents_ok_def)
  then show ?thesis unfolding set_priority drm_sched_entity_set_priority_def
    using set_priority by (intro ent_params_inv [OF assms(4)]) (auto simp: ent_ok_def)
next
  case (modify_sched e sl n)
  have "ent_ok S w e" using assms(4) modify_sched by (simp add: sched_inv_def ents_ok_def)
  then show ?thesis unfolding modify_sched drm_sched_entity_modify_sched_def
    using modify_sched by (intro ent_params_inv [OF assms(4)]) (auto simp: ent_ok_def)
next
  case (flush e current exiting sigkill waited tmo r)
  then show ?thesis using flush_inv [OF assms(4)] by blast
qed

lemma rq_wf_empty: "rq_wf \<lparr>rq_entities = [], rq_current = None\<rparr>"
  by (simp add: rq_wf_def)

lemma sched_init_inv:
  assumes inv: "sched_inv D S E w" and s: "s \<notin> S" and init: "drm_sched_init 0 own s hw hang tmo sc w = (0, w')"
  shows "sched_inv D (insert s S) E w'"
proof -
  have sc: "\<And>t. t \<noteq> s \<Longrightarrow> scheds w' t = scheds w t" "pending_list (scheds w' s) = []" "hw_rq_count (scheds w' s) = 0"
      "sched_rq (scheds w' s) = replicate DRM_SCHED_PRIORITY_COUNT drm_sched_rq_init"
    and keep: "ents w' = ents w" "jobs w' = jobs w" "fs w' = fs w"
    using init by (auto simp: drm_sched_init_def Let_def upd_defs)
  have sf: "sf_of w' = sf_of w" by (simp add: sf_of_def keep fun_eq_iff)
  have old: "the_rq w' r = the_rq w r" if "fst r \<noteq> s" for r using that sc(1) by (simp add: the_rq_def)
  have new: "the_rq w' (s, i) = \<lparr>rq_entities = [], rq_current = None\<rparr>" if "i < DRM_SCHED_PRIORITY_COUNT" for i
    using that sc(4) by (simp add: the_rq_def drm_sched_rq_init_def)
  have ne: "t \<noteq> s" if "t \<in> S" for t using s that by blast
  have "rqs_ok (insert s S) E w'"
    using inv by (auto simp: sched_inv_def rqs_ok_def old new keep sc ne rq_wf_empty)
  moreover have "ent_ok (insert s S) w' e" if "ent_ok S w e" for e
    using that ne by (auto simp: ent_ok_def keep old)
  then have "ents_ok (insert s S) E w'" using inv by (simp add: sched_inv_def ents_ok_def)
  moreover have "jobs_ok D (insert s S) E w'"
    using inv ne by (simp add: sched_inv_def jobs_ok_def keep sf sc)
  moreover have "count_ok D (insert s S) w'"
    using inv ne by (simp add: sched_inv_def count_ok_def inflight_def keep sc)
  ultimately show ?thesis by (simp add: sched_inv_def)
qed

lemma entity_init_inv:
  assumes inv: "sched_inv D S E w" and e: "e \<notin> E" and sl: "sl \<noteq> []" "set sl \<subseteq> Some ` S" and p: "p < DRM_SCHED_PRIORITY_COUNT"
    and init: "drm_sched_entity_init ctx (Some e) p (Some sl) num guilty w = (0, w')"
  shows "sched_inv D S (insert e E) w'"
proof -
  have keep: "scheds w' = scheds w" "jobs w' = jobs w" "fs w' = fs w"
    and en: "\<And>x. x \<noteq> e \<Longrightarrow> ents w' x = ents w x" "e_linked (ents w' e) = False" "e_job_queue (ents w' e) = []"
      "e_rq (ents w' e) = (if num \<noteq> 0 then Some (the (sl ! 0), p) else None)" "e_priority (ents w' e) = p"
      "e_sched_list (ents w' e) = (if num > 1 then Some sl else None)"
    using init by (auto simp: drm_sched_entity_init_def upd_ent_def split: if_splits)
  have sf: "sf_of w' = sf_of w" by (simp add: sf_of_def keep fun_eq_iff)
  have rq: "the_rq w' = the_rq w" by (simp add: the_rq_def keep fun_eq_iff)
  have ne: "x \<noteq> e" if "x \<in> E" for x using e that by blast
  have "sl ! 0 \<in> Some ` S" using sl nth_mem [of 0 sl] by auto
  then have hd: "the (sl ! 0) \<in> S" by auto
  have "rqs_ok S (insert e E) w'"
    using inv by (auto simp: sched_inv_def rqs_ok_def rq keep en ne)
  moreover have "ent_ok S w' x" if "ent_ok S w x" "x \<in> E" for x
    using that by (simp add: ent_ok_def rq en ne)
  then have "ents_ok S (insert e E) w'"
    using inv hd p sl by (auto simp: sched_inv_def ents_ok_def ent_ok_def en)
  moreover have "jobs_ok D S (insert e E) w'"
    using inv by (auto simp: sched_inv_def jobs_ok_def keep sf en ne)
  moreover have "count_ok D S w'"
    using inv by (simp add: sched_inv_def count_ok_def inflight_def keep)
  ultimately show ?thesis by (simp add: sched_inv_def)
qed

lemma reachable_inv:
  assumes "fence_laws D" and "run_laws D run" and "reachable D run S E w"
  shows "sched_inv D S E w"
  using assms(3)
proof induction
  case (boot w)
  show ?case by (simp add: sched_inv_def rqs_ok_def ents_ok_def jobs_ok_def count_ok_def)
next
  case (sched_up S E w s own hw hang tmo sc w')
  then show ?case using sched_init_inv by blast
next
  case (entity_up S E w e sl p ctx num guilty w')
  then show ?case using entity_init_inv by blast
next
  case (sched_steps S E w w')
  then show ?case using sched_step_inv [OF assms(1,2)] by blast
qed

section \<open>Properties of the reachable states\<close>

text \<open>A run to exhibit: one scheduler, one entity, one submission, one turn of the thread.\<close>

definition ex_up :: "ex_fences world" where
  "ex_up = snd (drm_sched_entity_init 100 (Some 1) 1 (Some [Some 0]) 1 None
     (snd (drm_sched_init 0 0 0 8 0 MAX_SCHEDULE_TIMEOUT None ex_world)))"

definition ex_ran :: "ex_fences world" where
  "ex_ran = drm_sched_main ex_dma ex_run 0 0 (snd (submit ex_dma 5 10 1 [] ex_up))"

lemma ex_up_reachable: "reachable ex_dma ex_run {0} {1} ex_up"
proof -
  obtain w1 where 1: "drm_sched_init 0 0 0 8 0 MAX_SCHEDULE_TIMEOUT None ex_world = (0, w1)"
    by (simp add: drm_sched_init_def Let_def)
  have r1: "reachable ex_dma ex_run (insert 0 {}) {} w1"
    by (rule sched_up [OF boot _ 1]) simp
  obtain w2 where 2: "drm_sched_entity_init 100 (Some 1) 1 (Some [Some 0]) 1 None w1 = (0, w2)"
    by (simp add: drm_sched_entity_init_def)
  have "reachable ex_dma ex_run (insert 0 {}) (insert 1 {}) w2"
    by (rule entity_up [OF r1 _ _ _ _ 2]) (simp_all add: DRM_SCHED_PRIORITY_COUNT_def)
  then show ?thesis using 1 2 by (simp add: ex_up_def)
qed

lemma ex_up_unused: "unused {0} {1} ex_up 10"
  by (simp add: unused_def ex_up_def drm_sched_entity_init_def drm_sched_init_def Let_def upd_defs)

lemma ex_ran_reachable: "reachable ex_dma ex_run {0} {1} ex_ran"
proof -
  obtain r w1 where sub: "submit ex_dma 5 10 1 [] ex_up = (r, w1)"
    by (cases "submit ex_dma 5 10 1 [] ex_up")
  have "sched_step ex_dma ex_run {0} {1} ex_up w1"
    by (rule submits [OF _ ex_up_unused sub]) simp
  from sched_steps [OF ex_up_reachable this] have "reachable ex_dma ex_run {0} {1} w1" .
  then have "reachable ex_dma ex_run {0} {1} (drm_sched_main ex_dma ex_run 0 0 w1)"
    by (rule sched_steps) (simp add: thread_turn)
  then show ?thesis unfolding ex_ran_def sub snd_conv .
qed

lemma ex_run_laws: "run_laws ex_dma ex_run"
  by (simp add: run_laws_def ex_run_def)

text \<open>
  C9: Hardware queue accounting.  In every reachable state, however submissions, thread turns,
  completions and callbacks interleave, the counter of a scheduler is the number of its pending
  jobs that have not finished, and it never exceeds the submission limit.
\<close>

theorem hw_rq_count_inflight:
  assumes "fence_laws D" and "run_laws D run" and "reachable D run S E w" and "s \<in> S"
  shows "unat (hw_rq_count (scheds w s))
      = length (filter (\<lambda>j. \<not> f_is_signaled D (Finished j) (fs w)) (pending_list (scheds w s)))
    \<and> hw_rq_count (scheds w s) \<le> hw_submission_limit (scheds w s)"
  using countD [OF reachable_inv [OF assms(1-3)] assms(4)] by (simp add: inflight_def)

theorem hw_rq_count_inflight_witness:
  "unat (hw_rq_count (scheds ex_ran 0))
      = length (filter (\<lambda>j. \<not> f_is_signaled ex_dma (Finished j) (fs ex_ran)) (pending_list (scheds ex_ran 0)))
    \<and> hw_rq_count (scheds ex_ran 0) \<le> hw_submission_limit (scheds ex_ran 0)"
  by (rule hw_rq_count_inflight [OF ex_dma_laws ex_run_laws ex_ran_reachable]) simp

text \<open>
  C10: Run queue integrity, and no job is forgotten.  In every reachable state an entity that has
  queued jobs and has not been killed is in the run queue it points to, the run queues hold
  exactly the linked entities, each in one place only, and without duplicates.
\<close>

theorem run_queue_integrity:
  assumes "fence_laws D" and "run_laws D run" and "reachable D run S E w" and "e \<in> E"
  shows "(e_job_queue (ents w e) \<noteq> [] \<and> \<not> e_stopped (ents w e) \<longrightarrow> e_linked (ents w e))
    \<and> (\<forall>s\<in>S. \<forall>i < DRM_SCHED_PRIORITY_COUNT. distinct (rq_entities (the_rq w (s, i)))
         \<and> (e \<in> set (rq_entities (the_rq w (s, i))) \<longleftrightarrow> e_linked (ents w e) \<and> e_rq (ents w e) = Some (s, i)))"
proof -
  note inv = reachable_inv [OF assms(1-3)]
  have e: "ent_ok S w e" using inv assms(4) by (simp add: sched_inv_def ents_ok_def)
  have "distinct (rq_entities (the_rq w (s, i)))
      \<and> (e \<in> set (rq_entities (the_rq w (s, i))) \<longleftrightarrow> e_linked (ents w e) \<and> e_rq (ents w e) = Some (s, i))"
    if s: "s \<in> S" and i: "i < DRM_SCHED_PRIORITY_COUNT" for s i
  proof -
    have "rq_wf (the_rq w (s, i))"
      and x: "\<And>x. x \<in> set (rq_entities (the_rq w (s, i))) \<Longrightarrow> e_linked (ents w x) \<and> e_rq (ents w x) = Some (s, i)"
      using inv s i by (auto simp: sched_inv_def rqs_ok_def)
    moreover have "e_linked (ents w e) \<and> e_rq (ents w e) = Some (s, i) \<Longrightarrow> e \<in> set (rq_entities (the_rq w (s, i)))"
      using e by (simp add: ent_ok_def)
    ultimately show ?thesis using x [of e] unfolding rq_wf_def by blast
  qed
  moreover have "e_job_queue (ents w e) \<noteq> [] \<and> \<not> e_stopped (ents w e) \<longrightarrow> e_linked (ents w e)"
    using e unfolding ent_ok_def by blast
  ultimately show ?thesis by blast
qed

theorem run_queue_integrity_witness:
  "distinct (rq_entities (the_rq ex_ran (0, 1)))
    \<and> (1 \<in> set (rq_entities (the_rq ex_ran (0, 1))) \<longleftrightarrow> e_linked (ents ex_ran 1) \<and> e_rq (ents ex_ran 1) = Some (0, 1))"
  using run_queue_integrity [OF ex_dma_laws ex_run_laws ex_ran_reachable, of 1]
  by (simp add: DRM_SCHED_PRIORITY_COUNT_def)

text \<open>
  C11: A job is in one place.  In every reachable state a pending job belongs to the scheduler whose
  list holds it, is in no other scheduler's list and in no entity's queue, and the queues and
  lists have no duplicates; a queued job has not finished.
\<close>

theorem job_in_one_place:
  assumes "fence_laws D" and "run_laws D run" and "reachable D run S E w" and "s \<in> S" and "e \<in> E"
  shows "distinct (pending_list (scheds w s)) \<and> distinct (e_job_queue (ents w e))
    \<and> set (pending_list (scheds w s)) \<inter> set (e_job_queue (ents w e)) = {}
    \<and> (\<forall>t\<in>S. t \<noteq> s \<longrightarrow> set (pending_list (scheds w s)) \<inter> set (pending_list (scheds w t)) = {})
    \<and> (\<forall>x\<in>E. x \<noteq> e \<longrightarrow> set (e_job_queue (ents w e)) \<inter> set (e_job_queue (ents w x)) = {})
    \<and> (\<forall>j\<in>set (e_job_queue (ents w e)). \<not> f_is_signaled D (Finished j) (fs w))"
proof -
  note inv = reachable_inv [OF assms(1-3)]
  have "set (pending_list (scheds w s)) \<inter> set (e_job_queue (ents w e)) = {}"
    using queue_pending_disjoint [OF inv assms(4) _ assms(5)] by blast
  moreover have "set (pending_list (scheds w s)) \<inter> set (pending_list (scheds w t)) = {}" if "t \<in> S" "t \<noteq> s" for t
    using pendingD(1) [OF inv assms(4)] pendingD(1) [OF inv that(1)] that(2) by blast
  moreover have "set (e_job_queue (ents w e)) \<inter> set (e_job_queue (ents w x)) = {}" if "x \<in> E" "x \<noteq> e" for x
    using queueD(1) [OF inv assms(5)] queueD(1) [OF inv that(1)] that(2) by blast
  ultimately show ?thesis
    using distinctD [OF inv] queueD(4) [OF inv assms(5)] assms(4,5) by blast
qed

theorem job_in_one_place_witness:
  "distinct (pending_list (scheds ex_ran 0)) \<and> distinct (e_job_queue (ents ex_ran 1))
    \<and> set (pending_list (scheds ex_ran 0)) \<inter> set (e_job_queue (ents ex_ran 1)) = {}"
  using job_in_one_place [OF ex_dma_laws ex_run_laws ex_ran_reachable, of 0 1] by simp

end
