(* ===== verification/Sched_Recovery.thy ===== *)
theory Sched_Recovery
  imports Sched_Reach
begin

text \<open>
  Dependencies of jobs as a set of fences per context, stopping and restarting a scheduler around
  a reset, the timeout, karma, and the accounting of killed jobs.
\<close>

section \<open>The dependency array\<close>

definition has_dep :: "'f world \<Rightarrow> nat \<Rightarrow> fence \<Rightarrow> bool" where
  "has_dep w j f \<longleftrightarrow> Some f \<in> set (j_dependencies (jobs w j))"

text \<open>The contexts of the entries, in order.\<close>

definition dep_contexts :: "'f dma_ops \<Rightarrow> 'f world \<Rightarrow> fence option list \<Rightarrow> u64 list" where
  "dep_contexts D w ds = map (\<lambda>d. fence_context D w (the d)) (filter (\<lambda>d. d \<noteq> None) ds)"

lemma dep_contexts_simps [simp]:
  "dep_contexts D w [] = []"
  "dep_contexts D w (None # ds) = dep_contexts D w ds"
  "dep_contexts D w (Some f # ds) = fence_context D w f # dep_contexts D w ds"
  "dep_contexts D w (xs @ ys) = dep_contexts D w xs @ dep_contexts D w ys"
  by (simp_all add: dep_contexts_def)

lemma set_dep_contexts: "c \<in> set (dep_contexts D w ds) \<longleftrightarrow> (\<exists>g. Some g \<in> set ds \<and> c = fence_context D w g)"
  by (induction ds) (auto simp: dep_contexts_def)

lemma dep_contexts_alloc:
  "set (dep_contexts D w (xa_alloc ds f)) = insert (fence_context D w f) (set (dep_contexts D w ds))
   \<and> (distinct (dep_contexts D w ds) \<and> fence_context D w f \<notin> set (dep_contexts D w ds)
        \<longrightarrow> distinct (dep_contexts D w (xa_alloc ds f)))"
  by (induction ds f rule: xa_alloc.induct) auto

lemma dep_replace_None:
  "dep_replace D w f ds = None \<longleftrightarrow> (\<forall>g. Some g \<in> set ds \<longrightarrow> fence_context D w g \<noteq> fence_context D w f)"
  by (induction D w f ds rule: dep_replace.induct) auto

lemma dep_replace_Some:
  "dep_replace D w f ds = Some ds' \<Longrightarrow> \<exists>xs g ys. ds = xs @ Some g # ys
     \<and> (\<forall>h. Some h \<in> set xs \<longrightarrow> fence_context D w h \<noteq> fence_context D w f)
     \<and> fence_context D w g = fence_context D w f
     \<and> ds' = xs @ Some (if f_is_later D f g (fs w) then f else g) # ys"
proof (induction D w f ds arbitrary: ds' rule: dep_replace.induct)
  case (2 D w f ds)
  then obtain ds1 where 1: "dep_replace D w f ds = Some ds1" "ds' = None # ds1" by auto
  from "2.IH" [OF 1(1)] obtain xs g ys where "ds = xs @ Some g # ys"
    "\<forall>h. Some h \<in> set xs \<longrightarrow> fence_context D w h \<noteq> fence_context D w f"
    "fence_context D w g = fence_context D w f" "ds1 = xs @ Some (if f_is_later D f g (fs w) then f else g) # ys" by blast
  with 1 show ?case by (intro exI [of _ "None # xs"] exI [of _ g] exI [of _ ys]) simp
next
  case (3 D w f entry ds)
  show ?case
  proof (cases "fence_context D w entry = fence_context D w f")
    case True
    with 3 show ?thesis by (intro exI [of _ "[]"] exI [of _ entry] exI [of _ ds]) (auto split: if_splits)
  next
    case False
    with 3 obtain ds1 where 1: "dep_replace D w f ds = Some ds1" "ds' = Some entry # ds1" by auto
    from "3.IH" [OF False 1(1)] obtain xs g ys where "ds = xs @ Some g # ys"
      "\<forall>h. Some h \<in> set xs \<longrightarrow> fence_context D w h \<noteq> fence_context D w f"
      "fence_context D w g = fence_context D w f" "ds1 = xs @ Some (if f_is_later D f g (fs w) then f else g) # ys" by blast
    with 1 False show ?thesis by (intro exI [of _ "Some entry # xs"] exI [of _ g] exI [of _ ys]) auto
  qed
qed simp

lemma set_xa_alloc: "Some g \<in> set (xa_alloc ds f) \<longleftrightarrow> g = f \<or> Some g \<in> set ds"
  by (induction ds f rule: xa_alloc.induct) auto

text \<open>
  C12: Adding a dependency.  On success the array has, for the fence's context, the fence or one it
  is not later than; an entry disappears only in favour of a later fence of the same context; two
  entries never share a context if they did not before.  On failure (out of memory) nothing changes.
\<close>

theorem drm_sched_job_add_dependency_covers:
  assumes "drm_sched_job_add_dependency D kz j (Some f) w = (ret, w')"
  shows "(ret = 0 \<longrightarrow>
        (\<exists>g. has_dep w' j g \<and> fence_context D w g = fence_context D w f \<and> (g = f \<or> \<not> f_is_later D f g (fs w)))
      \<and> (\<forall>h. has_dep w j h \<longrightarrow> has_dep w' j h
             \<or> fence_context D w h = fence_context D w f \<and> f_is_later D f h (fs w) \<and> has_dep w' j f)
      \<and> (\<forall>h. has_dep w' j h \<longrightarrow> h = f \<or> has_dep w j h)
      \<and> (distinct (dep_contexts D w (j_dependencies (jobs w j)))
           \<longrightarrow> distinct (dep_contexts D w (j_dependencies (jobs w' j)))))
    \<and> (ret \<noteq> 0 \<longrightarrow> ret = - ENOMEM \<and> \<not> kz \<and> w' = w)"
proof (cases "dep_replace D w f (j_dependencies (jobs w j))")
  case None
  then have new: "\<And>g. has_dep w j g \<Longrightarrow> fence_context D w g \<noteq> fence_context D w f"
    by (simp add: dep_replace_None has_dep_def)
  show ?thesis
  proof (cases kz)
    case True
    then have w': "ret = 0" "\<And>g. has_dep w' j g \<longleftrightarrow> g = f \<or> has_dep w j g"
      using assms None by (auto simp: drm_sched_job_add_dependency_def has_dep_def upd_job_def set_xa_alloc)
    moreover have "j_dependencies (jobs w' j) = xa_alloc (j_dependencies (jobs w j)) f"
      using assms None True by (auto simp: drm_sched_job_add_dependency_def upd_job_def)
    then have "distinct (dep_contexts D w (j_dependencies (jobs w' j)))"
      if "distinct (dep_contexts D w (j_dependencies (jobs w j)))"
      using that dep_contexts_alloc [of D w "j_dependencies (jobs w j)" f] None
      by (auto simp: dep_replace_None set_dep_contexts)
    ultimately show ?thesis by auto
  qed (use assms None in \<open>simp add: drm_sched_job_add_dependency_def\<close>)
next
  case (Some ds')
  from dep_replace_Some [OF this] obtain xs g ys where d: "j_dependencies (jobs w j) = xs @ Some g # ys"
    "fence_context D w g = fence_context D w f" "ds' = xs @ Some (if f_is_later D f g (fs w) then f else g) # ys" by blast
  have ret: "ret = 0" and dd: "j_dependencies (jobs w' j) = ds'"
    using assms Some by (auto simp: drm_sched_job_add_dependency_def upd_job_def)
  have old: "has_dep w j h \<longleftrightarrow> h = g \<or> Some h \<in> set xs \<union> set ys" for h by (auto simp: has_dep_def d(1))
  have new: "has_dep w' j h \<longleftrightarrow> h = (if f_is_later D f g (fs w) then f else g) \<or> Some h \<in> set xs \<union> set ys" for h
    by (auto simp: has_dep_def dd d(3))
  have "dep_contexts D w (j_dependencies (jobs w' j)) = dep_contexts D w (j_dependencies (jobs w j))"
    by (simp add: dd d)
  then show ?thesis using ret d(2) by (auto simp: old new split: if_splits)
qed

theorem drm_sched_job_add_dependency_covers_witness:
  "\<exists>w'. drm_sched_job_add_dependency ex_dma True 20 (Some (Ext 8)) ex_world = (0, w') \<and> has_dep w' 20 (Ext 7)"
proof -
  obtain w' where a: "drm_sched_job_add_dependency ex_dma True 20 (Some (Ext 8)) ex_world = (0, w')"
    by (cases "dep_replace ex_dma ex_world (Ext 8) (j_dependencies (jobs ex_world 20))")
      (simp_all add: drm_sched_job_add_dependency_def)
  moreover have "has_dep ex_world 20 (Ext 7)" by (simp add: has_dep_def ex_world_def ex_job_def)
  moreover have "fence_context ex_dma ex_world (Ext 7) \<noteq> fence_context ex_dma ex_world (Ext 8)"
    by (simp add: ex_dma_def)
  ultimately show ?thesis using drm_sched_job_add_dependency_covers [OF a] by auto
qed

section \<open>Stopping and restarting\<close>

text \<open>The jobs a stop keeps: those whose completion callback it could still remove.\<close>

lemma stop_jobs_spec:
  assumes "distinct js" and "set js \<subseteq> set (pending_list (scheds w s))"
  shows "\<exists>K \<subseteq> set js. let w' = stop_jobs D s bad js w in
      pending_list (scheds w' s) = filter (\<lambda>j. j \<in> set js \<longrightarrow> j \<in> K) (pending_list (scheds w s))
    \<and> hw_rq_count (scheds w' s) = hw_rq_count (scheds w s) - of_nat (card K)
    \<and> freed w' = freed w @ filter (\<lambda>j. j \<notin> K \<and> bad \<noteq> Some j) js
    \<and> (\<forall>j\<in>K. sf_parent (sf_of w j) \<noteq> None)
    \<and> (free_guilty (scheds w' s) \<longleftrightarrow> free_guilty (scheds w s) \<or> (\<exists>b\<in>set js - K. bad = Some b))"
  using assms
proof (induction js arbitrary: w)
  case Nil
  show ?case by (simp add: Let_def)
next
  case (Cons j js)
  obtain removed w1 where r: "(case sf_parent (sf_of w j) of None \<Rightarrow> (False, w)
      | Some p \<Rightarrow> (let (b, f') = f_remove_callback D p (job_cb j) (fs w) in (b, w\<lparr>fs := f'\<rparr>))) = (removed, w1)"
    by fastforce
  have w1: "scheds w1 = scheds w" "jobs w1 = jobs w" "freed w1 = freed w"
    and par: "removed \<Longrightarrow> sf_parent (sf_of w j) \<noteq> None"
    using r by (auto split: option.splits prod.splits)
  show ?case
  proof (cases removed)
    case True
    let ?w2 = "upd_sched s (\<lambda>x. x\<lparr>hw_rq_count := hw_rq_count x - 1\<rparr>) w1"
    have eq: "stop_jobs D s bad (j # js) w = stop_jobs D s bad js ?w2"
      using True by (simp add: r)
    have w2: "pending_list (scheds ?w2 s) = pending_list (scheds w s)" "freed ?w2 = freed w" "sf_of ?w2 = sf_of w"
      "hw_rq_count (scheds ?w2 s) = hw_rq_count (scheds w s) - 1" "free_guilty (scheds ?w2 s) = free_guilty (scheds w s)"
      by (simp_all add: upd_sched_def w1 sf_of_def fun_eq_iff)
    obtain K where K: "K \<subseteq> set js" "let w' = stop_jobs D s bad js ?w2 in
        pending_list (scheds w' s) = filter (\<lambda>j. j \<in> set js \<longrightarrow> j \<in> K) (pending_list (scheds w s))
      \<and> hw_rq_count (scheds w' s) = hw_rq_count (scheds w s) - 1 - of_nat (card K)
      \<and> freed w' = freed w @ filter (\<lambda>j. j \<notin> K \<and> bad \<noteq> Some j) js
      \<and> (\<forall>j\<in>K. sf_parent (sf_of w j) \<noteq> None)
      \<and> (free_guilty (scheds w' s) \<longleftrightarrow> free_guilty (scheds w s) \<or> (\<exists>b\<in>set js - K. bad = Some b))"
      using Cons.IH [of ?w2] Cons.prems unfolding w2 by auto
    have "card (insert j K) = Suc (card K)" using K(1) Cons.prems finite_subset [OF K(1)] by (auto intro: card_insert_disjoint)
    moreover have "filter (\<lambda>k. k \<in> set (j # js) \<longrightarrow> k \<in> insert j K) xs = filter (\<lambda>k. k \<in> set js \<longrightarrow> k \<in> K) xs" for xs
      using Cons.prems by (auto intro!: filter_cong)
    moreover have "filter (\<lambda>k. k \<notin> insert j K \<and> bad \<noteq> Some k) (j # js) = filter (\<lambda>k. k \<notin> K \<and> bad \<noteq> Some k) js"
      using Cons.prems by (auto intro!: filter_cong)
    moreover have "set (j # js) - insert j K = set js - K" using Cons.prems K(1) by auto
    ultimately show ?thesis unfolding eq using K par [OF True]
      by (intro exI [of _ "insert j K"]) (auto simp: Let_def)
  next
    case False
    let ?w2 = "upd_sched s (\<lambda>x. x\<lparr>pending_list := removeAll j (pending_list x)\<rparr>) (w1\<lparr>fs := f_wait D (Finished j) (fs w1)\<rparr>)"
    let ?w3 = "if bad \<noteq> Some j then free_job j ?w2 else upd_sched s (\<lambda>x. x\<lparr>free_guilty := True\<rparr>) ?w2"
    have eq: "stop_jobs D s bad (j # js) w = stop_jobs D s bad js ?w3"
      using False by (simp add: r Let_def)
    have w3: "pending_list (scheds ?w3 s) = removeAll j (pending_list (scheds w s))"
      "freed ?w3 = freed w @ (if bad \<noteq> Some j then [j] else [])" "sf_of ?w3 = sf_of w"
      "hw_rq_count (scheds ?w3 s) = hw_rq_count (scheds w s)"
      "free_guilty (scheds ?w3 s) \<longleftrightarrow> free_guilty (scheds w s) \<or> bad = Some j"
      by (auto simp: upd_sched_def w1 sf_of_def fun_eq_iff free_job_def)
    obtain K where K: "K \<subseteq> set js" "let w' = stop_jobs D s bad js ?w3 in
        pending_list (scheds w' s) = filter (\<lambda>j. j \<in> set js \<longrightarrow> j \<in> K) (removeAll j (pending_list (scheds w s)))
      \<and> hw_rq_count (scheds w' s) = hw_rq_count (scheds w s) - of_nat (card K)
      \<and> freed w' = freed w @ (if bad \<noteq> Some j then [j] else []) @ filter (\<lambda>j. j \<notin> K \<and> bad \<noteq> Some j) js
      \<and> (\<forall>j\<in>K. sf_parent (sf_of w j) \<noteq> None)
      \<and> (free_guilty (scheds w' s) \<longleftrightarrow> (free_guilty (scheds w s) \<or> bad = Some j) \<or> (\<exists>b\<in>set js - K. bad = Some b))"
      using Cons.IH [of ?w3] Cons.prems unfolding w3 append_assoc by auto
    have j: "j \<notin> K" using K(1) Cons.prems by auto
    have "filter (\<lambda>k. k \<in> set (j # js) \<longrightarrow> k \<in> K) xs = filter (\<lambda>k. k \<in> set js \<longrightarrow> k \<in> K) (removeAll j xs)" for xs
      using j by (induction xs) auto
    moreover have "filter (\<lambda>k. k \<notin> K \<and> bad \<noteq> Some k) (j # js)
        = (if bad \<noteq> Some j then [j] else []) @ filter (\<lambda>k. k \<notin> K \<and> bad \<noteq> Some k) js"
      using j by simp
    ultimately show ?thesis unfolding eq using K j
      by (intro exI [of _ K]) (auto simp: Let_def)
  qed
qed

lemma start_jobs_spec:
  "scheds (start_jobs D s False js w) s
     = (scheds w s)\<lparr>hw_rq_count := hw_rq_count (scheds w s) + of_nat (length js)\<rparr>"
  by (induction js arbitrary: w) (simp_all add: upd_sched_def add.assoc)

lemma card_filter_distinct: "distinct xs \<Longrightarrow> K \<subseteq> set xs \<Longrightarrow> card K = length (filter (\<lambda>j. j \<in> K) xs)"
proof -
  assume "distinct xs" and "K \<subseteq> set xs"
  then have "set (filter (\<lambda>j. j \<in> K) xs) = K" and "distinct (filter (\<lambda>j. j \<in> K) xs)" by auto
  then show ?thesis using distinct_card by metis
qed

lemma stop_spec:
  assumes "distinct P" and "P = (case bad of Some b \<Rightarrow> if j_sched (jobs w b) = s then b # pending_list (scheds w s)
      else pending_list (scheds w s) | None \<Rightarrow> pending_list (scheds w s))"
  shows "\<exists>K \<subseteq> set P. let w' = drm_sched_stop D s bad w in
      pending_list (scheds w' s) = filter (\<lambda>j. j \<in> K) P
    \<and> hw_rq_count (scheds w' s) = hw_rq_count (scheds w s) - of_nat (length (filter (\<lambda>j. j \<in> K) P))
    \<and> freed w' = freed w @ rev (filter (\<lambda>j. j \<notin> K \<and> bad \<noteq> Some j) P)
    \<and> (\<forall>j\<in>K. sf_parent (sf_of w j) \<noteq> None)
    \<and> (free_guilty (scheds w' s) \<longleftrightarrow> free_guilty (scheds w s) \<or> (\<exists>b\<in>set P - K. bad = Some b))
    \<and> \<not> tdr_pending (scheds w' s)"
proof -
  define w1 where "w1 = upd_sched s (\<lambda>x. x\<lparr>thread_parked := True\<rparr>) w"
  define w2 where "w2 = (case bad of Some b \<Rightarrow> if j_sched (jobs w1 b) = s
      then upd_sched s (\<lambda>x. x\<lparr>pending_list := b # pending_list x\<rparr>) w1 else w1 | None \<Rightarrow> w1)"
  have w2: "pending_list (scheds w2 s) = P" "hw_rq_count (scheds w2 s) = hw_rq_count (scheds w s)" "freed w2 = freed w"
    "sf_of w2 = sf_of w" "free_guilty (scheds w2 s) = free_guilty (scheds w s)"
    by (auto simp: assms(2) w2_def w1_def upd_sched_def sf_of_def fun_eq_iff split: option.split)
  have stop: "drm_sched_stop D s bad w = upd_sched s cancel_delayed_work (stop_jobs D s bad (rev P) w2)"
    unfolding drm_sched_stop_def Let_def w1_def [symmetric] w2_def [symmetric] w2(1) ..
  have "distinct (rev P)" "set (rev P) \<subseteq> set (pending_list (scheds w2 s))" using assms(1) w2(1) by simp_all
  from stop_jobs_spec [OF this, of D bad, unfolded w2 set_rev Let_def]
  obtain K where K: "K \<subseteq> set P"
    "pending_list (scheds (stop_jobs D s bad (rev P) w2) s) = filter (\<lambda>j. j \<in> set P \<longrightarrow> j \<in> K) P"
    "hw_rq_count (scheds (stop_jobs D s bad (rev P) w2) s) = hw_rq_count (scheds w s) - of_nat (card K)"
    "freed (stop_jobs D s bad (rev P) w2) = freed w @ filter (\<lambda>j. j \<notin> K \<and> bad \<noteq> Some j) (rev P)"
    "\<forall>j\<in>K. sf_parent (sf_of w j) \<noteq> None"
    "free_guilty (scheds (stop_jobs D s bad (rev P) w2) s) \<longleftrightarrow>
       free_guilty (scheds w s) \<or> (\<exists>b\<in>set P - K. bad = Some b)"
    by blast
  have "filter (\<lambda>j. j \<in> set P \<longrightarrow> j \<in> K) P = filter (\<lambda>j. j \<in> K) P" by (auto intro: filter_cong)
  then show ?thesis using K card_filter_distinct [OF assms(1) K(1)]
    by (intro exI [of _ K]) (simp add: stop Let_def upd_sched_def cancel_delayed_work_def rev_filter)
qed

text \<open>
  Stop and restart.  Stopping keeps, in order, exactly the jobs whose completion callback could
  be removed, all with a hardware fence, frees the others but the guilty one, latest first, and marks the
  guilty job for release exactly when it was dropped; a restart that does not re-attach fences
  then restores the hardware queue counter.
\<close>

theorem drm_sched_stop_start:
  assumes "distinct P" and "P = (case bad of Some b \<Rightarrow> if j_sched (jobs w b) = s then b # pending_list (scheds w s)
      else pending_list (scheds w s) | None \<Rightarrow> pending_list (scheds w s))"
  shows "\<exists>K \<subseteq> set P. let w' = drm_sched_stop D s bad w; w'' = drm_sched_start D now s False w' in
      pending_list (scheds w' s) = filter (\<lambda>j. j \<in> K) P
    \<and> freed w' = freed w @ rev (filter (\<lambda>j. j \<notin> K \<and> bad \<noteq> Some j) P)
    \<and> (\<forall>j\<in>K. sf_parent (sf_of w j) \<noteq> None)
    \<and> (free_guilty (scheds w' s) \<longleftrightarrow> free_guilty (scheds w s) \<or> (\<exists>b\<in>set P - K. bad = Some b))
    \<and> \<not> tdr_pending (scheds w' s)
    \<and> hw_rq_count (scheds w'' s) = hw_rq_count (scheds w s) \<and> pending_list (scheds w'' s) = pending_list (scheds w' s)
    \<and> \<not> thread_parked (scheds w'' s)"
proof -
  obtain K where K: "K \<subseteq> set P" "let w' = drm_sched_stop D s bad w in
      pending_list (scheds w' s) = filter (\<lambda>j. j \<in> K) P
    \<and> hw_rq_count (scheds w' s) = hw_rq_count (scheds w s) - of_nat (length (filter (\<lambda>j. j \<in> K) P))
    \<and> freed w' = freed w @ rev (filter (\<lambda>j. j \<notin> K \<and> bad \<noteq> Some j) P)
    \<and> (\<forall>j\<in>K. sf_parent (sf_of w j) \<noteq> None)
    \<and> (free_guilty (scheds w' s) \<longleftrightarrow> free_guilty (scheds w s) \<or> (\<exists>b\<in>set P - K. bad = Some b))
    \<and> \<not> tdr_pending (scheds w' s)"
    using stop_spec [OF assms, of D] by (auto simp: Let_def)
  have start: "scheds (drm_sched_start D now s False x) s =
      (scheds x s)\<lparr>hw_rq_count := hw_rq_count (scheds x s) + of_nat (length (pending_list (scheds x s))), thread_parked := False\<rparr>"
    for x :: "'a world"
    by (simp add: drm_sched_start_def Let_def upd_sched_def start_jobs_spec)
  show ?thesis using K by (intro exI [of _ K]) (simp add: Let_def start)
qed

theorem drm_sched_stop_start_witness:
  "hw_rq_count (scheds (drm_sched_start ex_dma 0 0 False (drm_sched_stop ex_dma 0 (Some 20)
       (ex_world\<lparr>scheds := (\<lambda>_. ex_sched\<lparr>pending_list := [10], hw_rq_count := 1\<rparr>)\<rparr>))) 0) = 1"
proof -
  let ?w = "ex_world\<lparr>scheds := (\<lambda>_. ex_sched\<lparr>pending_list := [10], hw_rq_count := 1\<rparr>)\<rparr>"
  have P: "[20, 10] = (case Some 20 of Some b \<Rightarrow> if j_sched (jobs ?w b) = 0 then b # pending_list (scheds ?w 0)
      else pending_list (scheds ?w 0) | None \<Rightarrow> pending_list (scheds ?w 0))"
    by (simp add: ex_world_def ex_job_def)
  have d: "distinct [20, 10 :: nat]" by simp
  show ?thesis
    using drm_sched_stop_start [OF d P, where D = ex_dma and now = 0] unfolding Let_def by (elim exE conjE) simp
qed

section \<open>The timeout\<close>

text \<open>
  Suspending the timeout of a scheduler whose timer runs, and resuming it later while jobs
  are pending, shifts the expiry by exactly the time in between.
\<close>

theorem drm_sched_suspend_resume:
  assumes "tdr_pending s" and "time_after (tdr_expires s) now" and "pending_list s \<noteq> []"
  shows "case drm_sched_suspend_timeout now s of (remaining, s1) \<Rightarrow>
      tdr_expires (drm_sched_resume_timeout later remaining s1) = tdr_expires s + (later - now)
    \<and> tdr_pending (drm_sched_resume_timeout later remaining s1)"
  using assms by (simp add: drm_sched_suspend_timeout_def drm_sched_resume_timeout_def mod_delayed_work_def Let_def)

theorem drm_sched_suspend_resume_witness:
  "case drm_sched_suspend_timeout 100 (ex_sched\<lparr>tdr_pending := True, tdr_expires := 150, pending_list := [10]\<rparr>) of
     (remaining, s1) \<Rightarrow> tdr_expires (drm_sched_resume_timeout 120 remaining s1) = 170"
proof -
  let ?s = "ex_sched\<lparr>tdr_pending := True, tdr_expires := 150, pending_list := [10]\<rparr>"
  have t: "time_after (tdr_expires ?s) 100" by (simp add: time_after_def)
  show ?thesis using drm_sched_suspend_resume [of ?s 100 120, OF _ t] by (simp split: prod.splits)
qed

section \<open>Karma\<close>

lemma karma_rqs_marks:
  assumes "e \<in> set (rq_entities q)" and "q \<in> set qs" and "e_fence_context (ents w e) = ctx"
    and "\<forall>x q'. q' \<in> set qs \<and> x \<in> set (rq_entities q') \<and> e_fence_context (ents w x) = ctx \<longrightarrow> x = e"
  shows "karma_rqs ctx ty qs w = (case e_guilty (ents w e) of Some c \<Rightarrow> upd_cell c (\<lambda>_. c_u32 ty) w | None \<Rightarrow> w)"
  using assms(2,4)
proof (induction qs)
  case (Cons q' qs)
  show ?case
  proof (cases "find (\<lambda>e. ctx = e_fence_context (ents w e)) (rq_entities q')")
    case None
    then have "q \<noteq> q'" using assms(1,3) by (auto simp: find_None_iff)
    then show ?thesis using Cons None by auto
  next
    case (Some x)
    then have "x \<in> set (rq_entities q') \<and> ctx = e_fence_context (ents w x)" by (blast dest: find_SomeD)
    then have "x = e" using Cons.prems by auto
    then show ?thesis using Some by simp
  qed
qed simp

text \<open>
  Karma.  One call of \<open>drm_sched_increase_karma\<close> for a job of a user entity raises the job's
  karma and marks the entity guilty at once, whatever the scheduler's hang limit and the job's
  karma are; for a job of the kernel queue nothing changes.
\<close>

theorem drm_sched_increase_karma_marks_guilty:
  assumes "i < DRM_SCHED_PRIORITY_KERNEL" and "i < length (sched_rq (scheds w (j_sched (jobs w bad))))"
    and "e \<in> set (rq_entities (the_rq w (j_sched (jobs w bad), i)))"
    and "e_fence_context (ents w e) = sf_context (sf_of w bad)" and "e_guilty (ents w e) = Some c"
    and "\<forall>x k. k < DRM_SCHED_PRIORITY_KERNEL \<and> x \<in> set (rq_entities (the_rq w (j_sched (jobs w bad), k)))
           \<and> e_fence_context (ents w x) = sf_context (sf_of w bad) \<longrightarrow> x = e"
  shows "if j_s_priority (jobs w bad) = DRM_SCHED_PRIORITY_KERNEL then drm_sched_increase_karma bad w = w
    else cells (drm_sched_increase_karma bad w) c = 1
      \<and> j_karma (jobs (drm_sched_increase_karma bad w) bad) = j_karma (jobs w bad) + 1"
proof (cases "j_s_priority (jobs w bad) = DRM_SCHED_PRIORITY_KERNEL")
  case True
  then show ?thesis by (simp add: drm_sched_increase_karma_def drm_sched_increase_karma_ext_def)
next
  case False
  let ?w1 = "upd_job bad (\<lambda>x. x\<lparr>j_karma := j_karma x + 1\<rparr>) w"
  let ?qs = "take DRM_SCHED_PRIORITY_KERNEL (sched_rq (scheds w (j_sched (jobs w bad))))"
  have q: "the_rq w (j_sched (jobs w bad), i) \<in> set ?qs"
    using assms(1,2) by (auto simp: the_rq_def in_set_conv_nth intro!: exI [of _ i])
  have uniq: "\<forall>x q'. q' \<in> set ?qs \<and> x \<in> set (rq_entities q') \<and> e_fence_context (ents ?w1 x) = sf_context (sf_of w bad) \<longrightarrow> x = e"
  proof (intro allI impI)
    fix x q' assume x: "q' \<in> set ?qs \<and> x \<in> set (rq_entities q') \<and> e_fence_context (ents ?w1 x) = sf_context (sf_of w bad)"
    then obtain k where "k < DRM_SCHED_PRIORITY_KERNEL" "q' = the_rq w (j_sched (jobs w bad), k)"
      by (auto simp: in_set_conv_nth the_rq_def)
    with x show "x = e" using assms(6) by (auto simp: upd_job_def)
  qed
  have "drm_sched_increase_karma bad w = karma_rqs (sf_context (sf_of w bad)) 1 ?qs ?w1"
    using False by (simp add: drm_sched_increase_karma_def drm_sched_increase_karma_ext_def upd_job_def sf_of_def)
  also have "\<dots> = upd_cell c (\<lambda>_. c_u32 1) ?w1"
    using karma_rqs_marks [OF assms(3) q _ uniq, of 1] assms(4,5) by (simp add: upd_job_def)
  finally show ?thesis using False by (simp add: upd_cell_def upd_job_def c_u32_def)
qed

theorem drm_sched_increase_karma_marks_guilty_witness:
  "cells (drm_sched_increase_karma 10 (ex_world\<lparr>scheds := (\<lambda>_. ex_sched\<lparr>hang_limit := 100\<rparr>),
     ents := (\<lambda>e. if e = 1 then (ex_entity [10] 10)\<lparr>e_guilty := Some 3\<rparr> else ex_entity [20] 20)\<rparr>)) 3 = 1"
proof -
  define w where "w = ex_world\<lparr>scheds := (\<lambda>_. ex_sched\<lparr>hang_limit := 100\<rparr>),
     ents := (\<lambda>e. if e = 1 then (ex_entity [10] 10)\<lparr>e_guilty := Some 3\<rparr> else ex_entity [20] 20)\<rparr>"
  have j: "j_sched (jobs w 10) = 0" "j_s_priority (jobs w 10) = 1" "sf_context (sf_of w 10) = 10"
    by (simp_all add: w_def ex_world_def ex_job_def sf_of_def)
  have rq: "rq_entities (the_rq w (0, 1)) = [1, 2]" "rq_entities (the_rq w (0, 0)) = []"
    "rq_entities (the_rq w (0, 2)) = []" "length (sched_rq (scheds w 0)) = 4"
    by (simp_all add: w_def the_rq_def ex_sched_def drm_sched_rq_init_def)
  have ctx: "e_fence_context (ents w 1) = 10" "e_fence_context (ents w 2) = 20" "e_guilty (ents w 1) = Some 3"
    by (simp_all add: w_def ex_entity_def)
  have u: "\<forall>x k. k < DRM_SCHED_PRIORITY_KERNEL \<and> x \<in> set (rq_entities (the_rq w (j_sched (jobs w 10), k)))
           \<and> e_fence_context (ents w x) = sf_context (sf_of w 10) \<longrightarrow> x = 1"
  proof (intro allI impI)
    fix x k assume x: "k < DRM_SCHED_PRIORITY_KERNEL \<and> x \<in> set (rq_entities (the_rq w (j_sched (jobs w 10), k)))
           \<and> e_fence_context (ents w x) = sf_context (sf_of w 10)"
    then consider "k = 0" | "k = 1" | "k = 2" unfolding DRM_SCHED_PRIORITY_KERNEL_def by linarith
    then show "x = 1"
    proof cases
      case 2
      then have "x \<in> set [1, 2]" using x rq(1) j(1) by simp
      moreover have "x \<noteq> 2" using x ctx(2) j(3) by auto
      ultimately show ?thesis by simp
    qed (use x rq j in simp_all)
  qed
  have "1 < DRM_SCHED_PRIORITY_KERNEL" "1 < length (sched_rq (scheds w (j_sched (jobs w 10))))"
    "1 \<in> set (rq_entities (the_rq w (j_sched (jobs w 10), 1)))" "e_fence_context (ents w 1) = sf_context (sf_of w 10)"
    by (simp_all only: j rq ctx) (simp_all add: DRM_SCHED_PRIORITY_KERNEL_def)
  from drm_sched_increase_karma_marks_guilty [OF this ctx(3) u] show ?thesis
    unfolding w_def [symmetric] j by (simp add: DRM_SCHED_PRIORITY_KERNEL_def)
qed

section \<open>Killed jobs\<close>

declare kill_deps.simps [simp del]

lemma kill_deps_keeps: "cells (kill_deps D j w) = cells w \<and> scheds (kill_deps D j w) = scheds w"
proof (induction D j w rule: kill_deps.induct)
  case (1 D j w)
  obtain d w1 where jd: "drm_sched_job_dependency j w = (d, w1)" by (cases "drm_sched_job_dependency j w")
  then have "cells w1 = cells w" "scheds w1 = scheds w"
    by (auto simp: drm_sched_job_dependency_def Let_def upd_job_def split: if_splits)
  then show ?case using 1 jd by (cases d) (simp_all add: kill_deps.simps [of D j w])
qed

lemma kill_job_keeps: "cells (kill_job D e j w) = cells w \<and> scheds (kill_job D e j w) = scheds w"
  by (simp add: kill_job_def Let_def drm_sched_fence_scheduled_def drm_sched_entity_kill_jobs_callback_def
      kill_deps_keeps split: option.split prod.split)

lemma kill_queue_keeps: "cells (kill_queue D e js w) = cells w \<and> scheds (kill_queue D e js w) = scheds w"
  by (induction js arbitrary: w) (simp_all add: kill_job_keeps upd_ent_def)

text \<open>
  Killed jobs are never taken off the load score.  Pushing a job to an idle entity and then
  tearing the entity down, with the work that finishes the killed job, leaves the scheduler's
  score one higher than before: the push counted the job, and only \<open>drm_sched_job_done\<close>, which
  killed jobs never reach, would have taken it off.
\<close>

theorem killed_job_leaks_score:
  assumes "j_entity (jobs w j) = e" and "e_rq (ents w e) = Some r" and "e_job_queue (ents w e) = []"
    and "\<not> e_linked (ents w e)" and "\<not> e_stopped (ents w e)"
  shows "sched_score (drm_sched_entity_kill_jobs_work D j
      (drm_sched_entity_fini D e (drm_sched_entity_push_job current j w))) (fst r) = sched_score w (fst r) + 1"
proof -
  let ?w1 = "drm_sched_entity_push_job current j w"
  have push: "cells ?w1 = (cells w)(score (scheds w (fst r)) := 2 + sched_score w (fst r))"
    "score (scheds ?w1 (fst r)) = score (scheds w (fst r))" "e_rq (ents ?w1 e) = Some r" "e_linked (ents ?w1 e)"
    using assms by (simp_all add: drm_sched_entity_push_job_def Let_def drm_sched_rq_add_entity_def score_inc_def
        upd_defs sched_score_def)
  let ?w2 = "drm_sched_rq_remove_entity r e ?w1"
  have rem: "cells ?w2 = (cells w)(score (scheds w (fst r)) := 1 + sched_score w (fst r))"
    "score (scheds ?w2 (fst r)) = score (scheds w (fst r))"
    using push by (simp_all add: drm_sched_rq_remove_entity_def score_dec_def upd_defs)
  have fini: "cells (drm_sched_entity_fini D e ?w1) = cells ?w2 \<and> scheds (drm_sched_entity_fini D e ?w1) = scheds ?w2"
    unfolding drm_sched_entity_fini_def Let_def push(3) option.case
    by (simp add: drm_sched_entity_kill_jobs_def kill_queue_keeps upd_ent_def split: option.split)
  show ?thesis
    using rem fini by (simp add: sched_score_def drm_sched_entity_kill_jobs_work_def free_job_def drm_sched_fence_finished_def)
qed

theorem killed_job_leaks_score_witness:
  "sched_score (drm_sched_entity_kill_jobs_work ex_dma 10
      (drm_sched_entity_fini ex_dma 1 (drm_sched_entity_push_job 5 10
        (ex_world\<lparr>ents := (\<lambda>_. (ex_entity [] 10)\<lparr>e_linked := False\<rparr>)\<rparr>)))) 0 = 5"
proof -
  let ?w = "ex_world\<lparr>ents := (\<lambda>_. (ex_entity [] 10)\<lparr>e_linked := False\<rparr>)\<rparr>"
  have "j_entity (jobs ?w 10) = 1" "e_rq (ents ?w 1) = Some (0, 1)" "e_job_queue (ents ?w 1) = []"
    "\<not> e_linked (ents ?w 1)" "\<not> e_stopped (ents ?w 1)"
    by (simp_all add: ex_world_def ex_job_def ex_entity_def)
  from killed_job_leaks_score [OF this, of ex_dma 5] show ?thesis
    by (simp add: sched_score_def ex_world_def)
qed

end
