(* ===== verification/MDP5.thy ===== *)
theory MDP5
  imports Prelude "HOL-Library.Signed_Division"
begin

text \<open>
  Shared resources of the MDP5 display engine: the shared memory pool (\<^verbatim>\<open>mdp5_smp.c\<close>), the
  assignment of hardware pipes to planes (\<^verbatim>\<open>mdp5_pipe.c\<close>) and of layer mixers to CRTCs
  (\<^verbatim>\<open>mdp5_mixer.c\<close>).  The atomic framework that duplicates and swaps the global state is not part of the
  repository: the operations take the old and the new state.
\<close>

section \<open>Data\<close>

text \<open>A bitmap, with the kernel's operations over its first \<open>cnt\<close> bits.\<close>

type_synonym bitmap = "nat \<Rightarrow> bool"

definition bitmap_weight :: "bitmap \<Rightarrow> nat \<Rightarrow> nat" where
  "bitmap_weight m cnt = length (filter m [0..<cnt])"

definition find_first_zero_bit :: "bitmap \<Rightarrow> nat \<Rightarrow> nat" where
  "find_first_zero_bit m cnt = (case find (\<lambda>i. \<not> m i) [0..<cnt] of Some i \<Rightarrow> i | None \<Rightarrow> cnt)"

definition bitmap_andnot :: "bitmap \<Rightarrow> bitmap \<Rightarrow> nat \<Rightarrow> bitmap" where
  "bitmap_andnot a b cnt = (\<lambda>i. if i < cnt then a i \<and> \<not> b i else a i)"

definition bitmap_zero :: "bitmap \<Rightarrow> nat \<Rightarrow> bitmap" where
  "bitmap_zero a cnt = (\<lambda>i. if i < cnt then False else a i)"

text \<open>Pipes by their number in \<^verbatim>\<open>enum mdp5_pipe\<close>; RGB pipes are 4, 5, 6 and 10.\<close>

definition pipe2nclients :: "nat \<Rightarrow> nat" where
  "pipe2nclients pipe = (if pipe = 4 \<or> pipe = 5 \<or> pipe = 6 \<or> pipe = 10 then 1 else 3)"

definition SSPP_MAX :: nat where
  "SSPP_MAX = 13"

record mdp5_smp_block =
  mmb_count :: nat
  mmb_size :: int
  smp_clients :: "nat \<Rightarrow> u32"
  reserved_state :: bitmap
  cfg_reserved :: "nat \<Rightarrow> u8"

record mdp5_smp_state =
  state :: bitmap
  client_state :: "nat \<Rightarrow> bitmap"
  assigned :: u64
  released :: u64

record mdp5_smp =
  reserved :: "nat \<Rightarrow> u8"
  blk_cnt :: nat
  blk_size :: int
  alloc_w :: "nat \<Rightarrow> u32"
  alloc_r :: "nat \<Rightarrow> u32"
  fifo_wm0 :: "nat \<Rightarrow> u32"
  fifo_wm1 :: "nat \<Rightarrow> u32"
  fifo_wm2 :: "nat \<Rightarrow> u32"

datatype smp_reg = SMP_ALLOC_W nat | SMP_ALLOC_R nat | PIPE_REQPRIO_FIFO_WM nat nat

section \<open>The shared memory pool (mdp5_smp.c)\<close>

definition pipe2client :: "(nat \<Rightarrow> u32) \<Rightarrow> nat \<Rightarrow> nat \<Rightarrow> nat" where
  "pipe2client clients pipe plane =
     (if plane \<ge> pipe2nclients pipe then 0 else unat (clients pipe + of_nat plane))"

fun take_blocks :: "nat \<Rightarrow> nat \<Rightarrow> nat \<Rightarrow> mdp5_smp_state \<Rightarrow> mdp5_smp_state" where
  "take_blocks cnt cid 0 s = s"
| "take_blocks cnt cid (Suc n) s =
     (let blk = find_first_zero_bit (state s) cnt
      in take_blocks cnt cid n (s\<lparr>state := (state s)(blk := True),
           client_state := (client_state s)(cid := (client_state s cid)(blk := True))\<rparr>))"

definition smp_request_block :: "mdp5_smp \<Rightarrow> mdp5_smp_state \<Rightarrow> nat \<Rightarrow> nat \<Rightarrow> int \<times> mdp5_smp_state" where
  "smp_request_block smp s cid nblks =
     (let cnt = blk_cnt smp;
          res = unat (reserved smp cid);
          n = (if res \<noteq> 0 then nblks - res else nblks);
          avail = cnt - bitmap_weight (state s) cnt
      in if n > avail then (- ENOSPC, s) else (0, take_blocks cnt cid n s))"

definition set_fifo_thresholds :: "mdp5_smp \<Rightarrow> nat \<Rightarrow> nat \<Rightarrow> mdp5_smp" where
  "set_fifo_thresholds smp pipe nblks =
     (let smp_entries_per_blk = c_u32 (blk_size smp sdiv (128 sdiv 8));
          val = (of_nat nblks * smp_entries_per_blk) div 4
      in smp\<lparr>fifo_wm0 := (fifo_wm0 smp)(pipe := val * 1), fifo_wm1 := (fifo_wm1 smp)(pipe := val * 2),
             fifo_wm2 := (fifo_wm2 smp)(pipe := val * 3)\<rparr>)"

text \<open>
  \<^verbatim>\<open>roundup_pow_of_two\<close> of the kernel, for positive arguments: 2 to the position of the last bit
  set of \<open>n - 1\<close>.
\<close>

fun fls :: "nat \<Rightarrow> nat" where
  "fls n = (if n = 0 then 0 else Suc (fls (n div 2)))"

definition roundup_pow_of_two :: "int \<Rightarrow> int" where
  "roundup_pow_of_two n = 2 ^ fls (nat n - 1)"

text \<open>\<open>num_planes\<close>, \<open>hsub\<close> and \<open>cpp\<close> come from the kernel's format table.\<close>

record drm_format_info =
  num_planes :: nat
  hsub :: int
  cpp :: "nat \<Rightarrow> u8"

definition plane_blocks :: "mdp5_smp \<Rightarrow> drm_format_info \<Rightarrow> int \<Rightarrow> int \<Rightarrow> u32 \<Rightarrow> nat \<Rightarrow> int" where
  "plane_blocks smp info hw_rev hs width i =
     (let fetch_stride = c_int ((width * ucast (cpp info i)) div c_u32 (if i \<noteq> 0 then hs else 1));
          n = c_int (c_u32 (fetch_stride * 2 + blk_size smp - 1)) sdiv blk_size smp
      in if hw_rev = 0 then roundup_pow_of_two n else n)"

definition mdp5_smp_calculate :: "mdp5_smp \<Rightarrow> drm_format_info \<Rightarrow> nat \<Rightarrow> int \<Rightarrow> u32 \<Rightarrow> bool \<Rightarrow> u32" where
  "mdp5_smp_calculate smp info chroma_sample hw_rev width hdecim =
     (let split = (hw_rev > 0 \<and> chroma_sample > 0);
          nplanes = (if split then 2 else num_planes info);
          hs = (if split \<and> hdecim \<and> hsub info > 1 then 1 else hsub info)
      in fold (\<lambda>i blkcfg. blkcfg OR push_bit (8 * i) (c_u32 (plane_blocks smp info hw_rev hs width i)))
           [0..<nplanes] 0)"

text \<open>The loop of \<^verbatim>\<open>mdp5_smp_assign\<close> over the clients; \<^verbatim>\<open>continue\<close> leaves \<open>blkcfg\<close> unshifted.\<close>

fun assign_clients :: "mdp5_smp \<Rightarrow> (nat \<Rightarrow> u32) \<Rightarrow> nat \<Rightarrow> nat list \<Rightarrow> u32 \<Rightarrow> mdp5_smp_state \<Rightarrow> int \<times> mdp5_smp_state" where
  "assign_clients smp clients pipe [] blkcfg s = (0, s)"
| "assign_clients smp clients pipe (i # is) blkcfg s =
     (let cid = pipe2client clients pipe i;
          n = unat (blkcfg AND 0xff)
      in if n = 0 then assign_clients smp clients pipe is blkcfg s
         else (case smp_request_block smp s cid n of
            (ret, s1) \<Rightarrow> if ret \<noteq> 0 then (ret, s1)
                        else assign_clients smp clients pipe is (drop_bit 8 blkcfg) s1))"

definition mdp5_smp_assign :: "mdp5_smp \<Rightarrow> (nat \<Rightarrow> u32) \<Rightarrow> nat \<Rightarrow> u32 \<Rightarrow> mdp5_smp_state \<Rightarrow> int \<times> mdp5_smp_state" where
  "mdp5_smp_assign smp clients pipe blkcfg s =
     (case assign_clients smp clients pipe [0..<pipe2nclients pipe] blkcfg s of
        (ret, s1) \<Rightarrow> if ret \<noteq> 0 then (ret, s1)
                    else (0, s1\<lparr>assigned := assigned s1 OR push_bit pipe 1\<rparr>))"

definition release_client :: "nat \<Rightarrow> nat \<Rightarrow> mdp5_smp_state \<Rightarrow> mdp5_smp_state" where
  "release_client cnt cid s =
     s\<lparr>state := bitmap_andnot (state s) (client_state s cid) cnt,
       client_state := (client_state s)(cid := bitmap_zero (client_state s cid) cnt)\<rparr>"

definition mdp5_smp_release :: "mdp5_smp \<Rightarrow> (nat \<Rightarrow> u32) \<Rightarrow> nat \<Rightarrow> mdp5_smp_state \<Rightarrow> mdp5_smp_state" where
  "mdp5_smp_release smp clients pipe s =
     (let s1 = fold (\<lambda>i. release_client (blk_cnt smp) (pipe2client clients pipe i)) [0..<pipe2nclients pipe] s
      in s1\<lparr>released := released s1 OR push_bit pipe 1\<rparr>)"

text \<open>Three clients per allocation register, eight bits each.\<close>

definition smp_field :: "nat \<Rightarrow> u32 \<Rightarrow> u32 \<Rightarrow> u32" where
  "smp_field fld val cid =
     (if fld = 0 then (val AND NOT 0x000000ff) OR (push_bit 0 cid AND 0x000000ff)
      else if fld = 1 then (val AND NOT 0x0000ff00) OR (push_bit 8 cid AND 0x0000ff00)
      else if fld = 2 then (val AND NOT 0x00ff0000) OR (push_bit 16 cid AND 0x00ff0000)
      else val)"

fun update_blocks :: "u32 \<Rightarrow> nat list \<Rightarrow> mdp5_smp \<Rightarrow> mdp5_smp" where
  "update_blocks cid [] smp = smp"
| "update_blocks cid (blk # blks) smp =
     (let idx = blk div 3; fld = blk mod 3; val = smp_field fld (alloc_w smp idx) cid
      in update_blocks cid blks (smp\<lparr>alloc_w := (alloc_w smp)(idx := val), alloc_r := (alloc_r smp)(idx := val)\<rparr>))"

definition update_smp_state :: "mdp5_smp \<Rightarrow> nat \<Rightarrow> bitmap \<Rightarrow> nat \<times> mdp5_smp" where
  "update_smp_state smp cid asg =
     (let blks = filter asg [0..<blk_cnt smp] in (length blks, update_blocks (of_nat cid) blks smp))"

definition write_smp_alloc_regs :: "mdp5_smp \<Rightarrow> (smp_reg \<times> u32) list" where
  "write_smp_alloc_regs smp =
     concat (map (\<lambda>i. [(SMP_ALLOC_W i, alloc_w smp i), (SMP_ALLOC_R i, alloc_r smp i)]) [0..<blk_cnt smp div 3 + 1])"

definition write_smp_fifo_regs :: "nat list \<Rightarrow> mdp5_smp \<Rightarrow> (smp_reg \<times> u32) list" where
  "write_smp_fifo_regs hwpipes smp =
     concat (map (\<lambda>p. [(PIPE_REQPRIO_FIFO_WM 0 p, fifo_wm0 smp p), (PIPE_REQPRIO_FIFO_WM 1 p, fifo_wm1 smp p),
       (PIPE_REQPRIO_FIFO_WM 2 p, fifo_wm2 smp p)]) hwpipes)"

fun commit_clients :: "nat list \<Rightarrow> (nat \<Rightarrow> bitmap) \<Rightarrow> nat \<Rightarrow> mdp5_smp \<Rightarrow> nat \<times> mdp5_smp" where
  "commit_clients [] cs nblks smp = (nblks, smp)"
| "commit_clients (cid # cids) cs nblks smp =
     (case update_smp_state smp cid (cs cid) of (n, smp1) \<Rightarrow> commit_clients cids cs (nblks + n) smp1)"

definition commit_pipe :: "(nat \<Rightarrow> u32) \<Rightarrow> mdp5_smp_state \<Rightarrow> nat \<Rightarrow> mdp5_smp \<Rightarrow> mdp5_smp" where
  "commit_pipe clients s pipe smp =
     (case commit_clients (map (pipe2client clients pipe) [0..<pipe2nclients pipe]) (client_state s) 0 smp of
        (nblks, smp1) \<Rightarrow> set_fifo_thresholds smp1 pipe nblks)"

text \<open>The result is the new register cache, the new state and the register writes in order.\<close>

definition mdp5_smp_prepare_commit :: "(nat \<Rightarrow> u32) \<Rightarrow> nat list \<Rightarrow> mdp5_smp \<Rightarrow> mdp5_smp_state \<Rightarrow> mdp5_smp \<times> mdp5_smp_state \<times> (smp_reg \<times> u32) list" where
  "mdp5_smp_prepare_commit clients hwpipes smp s =
     (let smp1 = fold (commit_pipe clients s) (filter (bit (assigned s)) [0..<64]) smp
      in (smp1, s\<lparr>assigned := 0\<rparr>, write_smp_alloc_regs smp1 @ write_smp_fifo_regs hwpipes smp1))"

definition mdp5_smp_complete_commit :: "nat list \<Rightarrow> mdp5_smp \<Rightarrow> mdp5_smp_state \<Rightarrow> mdp5_smp \<times> mdp5_smp_state \<times> (smp_reg \<times> u32) list" where
  "mdp5_smp_complete_commit hwpipes smp s =
     (let smp1 = fold (\<lambda>pipe x. set_fifo_thresholds x pipe 0) (filter (bit (released s)) [0..<64]) smp
      in (smp1, s\<lparr>released := 0\<rparr>, write_smp_fifo_regs hwpipes smp1))"

definition mdp5_smp_init :: "bool \<Rightarrow> mdp5_smp_block \<Rightarrow> mdp5_smp_state \<Rightarrow> int + (mdp5_smp \<times> mdp5_smp_state)" where
  "mdp5_smp_init kz cfg s =
     (if \<not> kz then Inl (- ENOMEM)
      else Inr (\<lparr>reserved = cfg_reserved cfg, blk_cnt = mmb_count cfg, blk_size = mmb_size cfg,
                 alloc_w = (\<lambda>_. 0), alloc_r = (\<lambda>_. 0), fifo_wm0 = (\<lambda>_. 0), fifo_wm1 = (\<lambda>_. 0), fifo_wm2 = (\<lambda>_. 0)\<rparr>,
               s\<lparr>state := (\<lambda>i. if i < mmb_count cfg then reserved_state cfg i else state s i)\<rparr>))"

section \<open>Hardware pipes (mdp5_pipe.c)\<close>

record mdp5_hw_pipe =
  p_idx :: nat
  p_pipe :: nat
  p_caps :: u32
  p_blkcfg :: u32

definition MDP_PIPE_CAP_CURSOR :: u32 where
  "MDP_PIPE_CAP_CURSOR = 64"

definition hweight :: "u32 \<Rightarrow> nat" where
  "hweight w = length (filter (bit w) [0..<32])"

record mdp5_global_state =
  hwpipe_to_plane :: "nat \<Rightarrow> nat option"
  hwmixer_to_crtc :: "nat \<Rightarrow> nat option"
  g_smp :: mdp5_smp_state

text \<open>A plane: its identity and whether it is a cursor plane.\<close>

record drm_plane =
  plane_id :: nat
  plane_cursor :: bool

text \<open>The search for a right pipe, among the pipes after the candidate.\<close>

definition find_right :: "mdp5_hw_pipe \<Rightarrow> mdp5_hw_pipe list \<Rightarrow> mdp5_hw_pipe option" where
  "find_right cur rest = find (\<lambda>r. \<not> (p_caps r \<noteq> p_caps cur) \<and> \<not> (p_pipe cur > p_pipe r)) rest"

text \<open>
  The search loop.  \<open>hw\<close> is \<^verbatim>\<open>*hwpipe\<close>; \<open>rhw\<close> is \<^verbatim>\<open>*r_hwpipe\<close> when a right pipe is wanted
  (\<open>want_r\<close>).
\<close>

fun find_pipes :: "mdp5_global_state \<Rightarrow> mdp5_global_state \<Rightarrow> drm_plane \<Rightarrow> u32 \<Rightarrow> bool \<Rightarrow> mdp5_hw_pipe list
    \<Rightarrow> mdp5_hw_pipe option \<Rightarrow> mdp5_hw_pipe option \<Rightarrow> mdp5_hw_pipe option \<times> mdp5_hw_pipe option" where
  "find_pipes ns os plane caps want_r [] hw rhw = (hw, rhw)"
| "find_pipes ns os plane caps want_r (cur # rest) hw rhw =
     (if hwpipe_to_plane ns (p_idx cur) \<noteq> None \<or> hwpipe_to_plane os (p_idx cur) \<noteq> None
      then find_pipes ns os plane caps want_r rest hw rhw
      else if caps AND NOT (p_caps cur) \<noteq> 0
      then find_pipes ns os plane caps want_r rest hw rhw
      else if p_caps cur AND MDP_PIPE_CAP_CURSOR \<noteq> 0 \<and> \<not> plane_cursor plane
      then find_pipes ns os plane caps want_r rest hw rhw
      else if (case hw of None \<Rightarrow> True
               | Some h \<Rightarrow> hweight (p_caps cur AND NOT caps) < hweight (p_caps h AND NOT caps))
      then (if \<not> want_r then find_pipes ns os plane caps want_r rest (Some cur) rhw
            else (case find_right cur rest of
                    Some r \<Rightarrow> find_pipes ns os plane caps want_r rest (Some cur) (Some r)
                  | None \<Rightarrow> find_pipes ns os plane caps want_r rest hw rhw))
      else find_pipes ns os plane caps want_r rest hw rhw)"

text \<open>
  \<^verbatim>\<open>mdp5_pipe_assign\<close>, called with null pointers in \<^verbatim>\<open>*hwpipe\<close> and \<^verbatim>\<open>*r_hwpipe\<close>: \<open>ns\<close> is the
  duplicated global state (or the error of obtaining it), \<open>os\<close> the existing one, \<open>smp\<close> the pool
  if the hardware has one.  The result has the return value, the pipes and the new state.
\<close>

definition mdp5_pipe_assign :: "int + mdp5_global_state \<Rightarrow> mdp5_global_state \<Rightarrow> mdp5_hw_pipe list
    \<Rightarrow> (mdp5_smp \<times> (nat \<Rightarrow> u32)) option \<Rightarrow> drm_plane \<Rightarrow> u32 \<Rightarrow> u32 \<Rightarrow> bool
    \<Rightarrow> int + (mdp5_hw_pipe \<times> mdp5_hw_pipe option \<times> mdp5_global_state)" where
  "mdp5_pipe_assign gs os hwpipes smp plane caps blkcfg want_r = (case gs of
     Inl err \<Rightarrow> Inl err
   | Inr ns \<Rightarrow>
      (case find_pipes ns os plane caps want_r hwpipes None None of
         (None, rhw) \<Rightarrow> Inl (- ENOMEM)
       | (Some h, rhw) \<Rightarrow>
          (if want_r \<and> rhw = None then Inl (- ENOMEM)
           else (case (case smp of
                    None \<Rightarrow> Inr (ns, h)
                  | Some (pool, clients) \<Rightarrow>
                      (case mdp5_smp_assign pool clients (p_pipe h) blkcfg (g_smp ns) of
                         (ret, s1) \<Rightarrow> if ret \<noteq> 0 then Inl (- ENOMEM)
                                     else Inr (ns\<lparr>g_smp := s1\<rparr>, h\<lparr>p_blkcfg := blkcfg\<rparr>))) of
               Inl err \<Rightarrow> Inl err
             | Inr (ns1, h1) \<Rightarrow>
                (let ns2 = ns1\<lparr>hwpipe_to_plane := (hwpipe_to_plane ns1)(p_idx h1 \<mapsto> plane_id plane)\<rparr>;
                     ns3 = (if want_r then ns2\<lparr>hwpipe_to_plane := (hwpipe_to_plane ns2)(p_idx (the rhw) \<mapsto> plane_id plane)\<rparr>
                            else ns2)
                 in Inr (h1, if want_r then rhw else None, ns3))))))"

definition mdp5_pipe_release :: "int + mdp5_global_state \<Rightarrow> (mdp5_smp \<times> (nat \<Rightarrow> u32)) option \<Rightarrow> mdp5_hw_pipe option
    \<Rightarrow> int \<times> mdp5_global_state option" where
  "mdp5_pipe_release gs smp hwpipe = (case hwpipe of
     None \<Rightarrow> (0, case gs of Inr g \<Rightarrow> Some g | Inl _ \<Rightarrow> None)
   | Some h \<Rightarrow> (case gs of
        Inl err \<Rightarrow> (err, None)
      | Inr g \<Rightarrow>
          (if hwpipe_to_plane g (p_idx h) = None then (- EINVAL, Some g)
           else let g1 = (case smp of None \<Rightarrow> g
                   | Some (pool, clients) \<Rightarrow> g\<lparr>g_smp := mdp5_smp_release pool clients (p_pipe h) (g_smp g)\<rparr>)
                in (0, Some (g1\<lparr>hwpipe_to_plane := (hwpipe_to_plane g1)(p_idx h := None)\<rparr>)))))"

section \<open>Layer mixers (mdp5_mixer.c)\<close>

record mdp5_hw_mixer =
  m_idx :: nat
  m_lm :: nat
  m_caps :: u32

definition MDP_LM_CAP_PAIR :: u32 where
  "MDP_LM_CAP_PAIR = 4"

definition lm_right_pair :: "int list" where
  "lm_right_pair = [1, -1, 5, -1, -1, -1]"

definition get_right_pair_idx :: "mdp5_hw_mixer list \<Rightarrow> nat \<Rightarrow> int" where
  "get_right_pair_idx mixers lm =
     (let pair_lm = lm_right_pair ! lm
      in if pair_lm < 0 then - EINVAL
         else (case find (\<lambda>m. int (m_lm m) = pair_lm) mixers of Some m \<Rightarrow> int (m_idx m) | None \<Rightarrow> - 1))"

text \<open>The search: an error, or \<^verbatim>\<open>*mixer\<close> and \<^verbatim>\<open>*r_mixer\<close>.  \<open>all\<close> is the whole array of mixers.\<close>

fun find_mixers :: "mdp5_hw_mixer list \<Rightarrow> mdp5_global_state \<Rightarrow> nat \<Rightarrow> u32 \<Rightarrow> bool \<Rightarrow> mdp5_hw_mixer list
    \<Rightarrow> mdp5_hw_mixer option \<Rightarrow> mdp5_hw_mixer option \<Rightarrow> int + (mdp5_hw_mixer option \<times> mdp5_hw_mixer option)" where
  "find_mixers all g crtc caps want_r [] mx rmx = Inr (mx, rmx)"
| "find_mixers all g crtc caps want_r (cur # rest) mx rmx =
     (let take_it = (\<lambda>rmx. find_mixers all g crtc caps want_r rest
                       (if mx = None \<or> m_caps cur AND MDP_LM_CAP_PAIR \<noteq> 0 then Some cur else mx) rmx)
      in if hwmixer_to_crtc g (m_idx cur) \<noteq> None \<and> hwmixer_to_crtc g (m_idx cur) \<noteq> Some crtc
         then find_mixers all g crtc caps want_r rest mx rmx
         else if caps AND NOT (m_caps cur) \<noteq> 0
         then find_mixers all g crtc caps want_r rest mx rmx
         else if want_r
         then let pair_idx = get_right_pair_idx all (m_lm cur)
              in if pair_idx < 0 then Inl (- EINVAL)
                 else if hwmixer_to_crtc g (nat pair_idx) \<noteq> None
                 then find_mixers all g crtc caps want_r rest mx rmx
                 else take_it (Some (all ! nat pair_idx))
         else take_it rmx)"

definition mdp5_mixer_assign :: "int + mdp5_global_state \<Rightarrow> mdp5_hw_mixer list \<Rightarrow> nat \<Rightarrow> u32 \<Rightarrow> bool
    \<Rightarrow> mdp5_hw_mixer option \<Rightarrow> int + (mdp5_hw_mixer \<times> mdp5_hw_mixer option \<times> mdp5_global_state)" where
  "mdp5_mixer_assign gs mixers crtc caps want_r mx0 = (case gs of
     Inl err \<Rightarrow> Inl err
   | Inr g \<Rightarrow> (case find_mixers mixers g crtc caps want_r mixers mx0 None of
        Inl err \<Rightarrow> Inl err
      | Inr (None, rmx) \<Rightarrow> Inl (- ENOMEM)
      | Inr (Some m, rmx) \<Rightarrow>
          (if want_r \<and> rmx = None then Inl (- ENOMEM)
           else let g1 = g\<lparr>hwmixer_to_crtc := (hwmixer_to_crtc g)(m_idx m \<mapsto> crtc)\<rparr>;
                    g2 = (if want_r then g1\<lparr>hwmixer_to_crtc := (hwmixer_to_crtc g1)(m_idx (the rmx) \<mapsto> crtc)\<rparr> else g1)
                in Inr (m, if want_r then rmx else None, g2))))"

definition mdp5_mixer_release :: "int + mdp5_global_state \<Rightarrow> mdp5_hw_mixer option \<Rightarrow> int \<times> mdp5_global_state option" where
  "mdp5_mixer_release gs mixer = (case mixer of
     None \<Rightarrow> (0, case gs of Inr g \<Rightarrow> Some g | Inl _ \<Rightarrow> None)
   | Some m \<Rightarrow> (case gs of
        Inl err \<Rightarrow> (err, None)
      | Inr g \<Rightarrow> if hwmixer_to_crtc g (m_idx m) = None then (- EINVAL, Some g)
                 else (0, Some (g\<lparr>hwmixer_to_crtc := (hwmixer_to_crtc g)(m_idx m := None)\<rparr>))))"

section \<open>The pool invariant\<close>

text \<open>
  Every block a client holds is marked in the pool, lies in the pool, is not statically reserved,
  and belongs to that client only.
\<close>

definition smp_wf :: "nat \<Rightarrow> bitmap \<Rightarrow> mdp5_smp_state \<Rightarrow> bool" where
  "smp_wf cnt rsv s \<longleftrightarrow>
     (\<forall>cid blk. client_state s cid blk \<longrightarrow> blk < cnt \<and> state s blk \<and> \<not> rsv blk)
   \<and> (\<forall>c d blk. client_state s c blk \<and> client_state s d blk \<longrightarrow> c = d)
   \<and> (\<forall>blk < cnt. rsv blk \<longrightarrow> state s blk)
   \<and> (\<forall>blk < cnt. state s blk \<longrightarrow> rsv blk \<or> (\<exists>cid. client_state s cid blk))"

lemma bitmap_weight_card: "bitmap_weight m cnt = card {i. i < cnt \<and> m i}"
proof -
  have "bitmap_weight m cnt = card (set (filter m [0..<cnt]))"
    unfolding bitmap_weight_def by (rule distinct_card [symmetric]) simp
  also have "set (filter m [0..<cnt]) = {i. i < cnt \<and> m i}" by auto
  finally show ?thesis .
qed

lemma find_first_zero:
  assumes "bitmap_weight m cnt < cnt"
  shows "find_first_zero_bit m cnt < cnt" and "\<not> m (find_first_zero_bit m cnt)"
proof -
  have "\<exists>i. i < cnt \<and> \<not> m i"
  proof (rule ccontr)
    assume "\<not> ?thesis"
    then have "{i. i < cnt \<and> m i} = {..<cnt}" by auto
    then show False using assms by (simp add: bitmap_weight_card)
  qed
  then obtain b where b: "find (\<lambda>i. \<not> m i) [0..<cnt] = Some b"
    by (cases "find (\<lambda>i. \<not> m i) [0..<cnt]") (auto simp: find_None_iff)
  then show "find_first_zero_bit m cnt < cnt" "\<not> m (find_first_zero_bit m cnt)"
    using find_SomeD [OF b] by (auto simp: find_first_zero_bit_def)
qed

lemma bitmap_weight_set:
  "b < cnt \<Longrightarrow> \<not> m b \<Longrightarrow> bitmap_weight (m(b := True)) cnt = Suc (bitmap_weight m cnt)"
proof -
  assume b: "b < cnt" "\<not> m b"
  then have "{i. i < cnt \<and> (m(b := True)) i} = insert b {i. i < cnt \<and> m i}" by auto
  then show ?thesis using b by (simp add: bitmap_weight_card)
qed

text \<open>Taking blocks: the client grows by exactly the blocks that were free and no other client changes.\<close>

lemma take_blocks_spec:
  assumes "n \<le> cnt - bitmap_weight (state s) cnt"
  shows "\<exists>B. B \<subseteq> {i. i < cnt \<and> \<not> state s i} \<and> card B = n \<and> finite B
    \<and> state (take_blocks cnt cid n s) = (\<lambda>i. state s i \<or> i \<in> B)
    \<and> client_state (take_blocks cnt cid n s) = (client_state s)(cid := (\<lambda>i. client_state s cid i \<or> i \<in> B))
    \<and> assigned (take_blocks cnt cid n s) = assigned s \<and> released (take_blocks cnt cid n s) = released s"
  using assms
proof (induction n arbitrary: s)
  case 0
  show ?case by (intro exI [of _ "{}"]) simp
next
  case (Suc n)
  let ?b = "find_first_zero_bit (state s) cnt"
  let ?s1 = "s\<lparr>state := (state s)(?b := True),
       client_state := (client_state s)(cid := (client_state s cid)(?b := True))\<rparr>"
  have free: "bitmap_weight (state s) cnt < cnt" using Suc.prems by linarith
  note b = find_first_zero [OF free]
  have "n \<le> cnt - bitmap_weight (state ?s1) cnt"
    using Suc.prems bitmap_weight_set [of ?b cnt "state s"] b by simp
  from Suc.IH [OF this] obtain B where B: "B \<subseteq> {i. i < cnt \<and> \<not> state ?s1 i}" "card B = n" "finite B"
    "state (take_blocks cnt cid n ?s1) = (\<lambda>i. state ?s1 i \<or> i \<in> B)"
    "client_state (take_blocks cnt cid n ?s1) = (client_state ?s1)(cid := (\<lambda>i. client_state ?s1 cid i \<or> i \<in> B))"
    "assigned (take_blocks cnt cid n ?s1) = assigned ?s1" "released (take_blocks cnt cid n ?s1) = released ?s1"
    by blast
  have step: "take_blocks cnt cid (Suc n) s = take_blocks cnt cid n ?s1" by (simp add: Let_def)
  have nb: "?b \<notin> B" using B(1) by auto
  have "card (insert ?b B) = Suc n" using B(2,3) nb by simp
  moreover have "insert ?b B \<subseteq> {i. i < cnt \<and> \<not> state s i}" using B(1) b by (auto split: if_splits)
  ultimately show ?case unfolding step B(4-7)
    using B(3) by (intro exI [of _ "insert ?b B"]) (auto simp: fun_eq_iff)
qed

end
