(* ===== verification/MDP5_Correct.thy ===== *)
theory MDP5_Correct
  imports MDP5
begin

text \<open>
  Correctness of the MDP5 resources: the shared memory pool keeps its invariant, grants what the
  format needs, returns to its state on release and programs the owner of every block; pipes are
  chosen from the free ones with the fewest unneeded capabilities.
\<close>

section \<open>The pool invariant is kept\<close>

definition need :: "mdp5_smp \<Rightarrow> nat \<Rightarrow> nat \<Rightarrow> nat" where
  "need smp cid n = n - unat (reserved smp cid)"

lemma request_block_spec:
  assumes "smp_request_block smp s cid n = (ret, s')"
  shows "if need smp cid n \<le> blk_cnt smp - bitmap_weight (state s) (blk_cnt smp)
    then ret = 0 \<and> s' = take_blocks (blk_cnt smp) cid (need smp cid n) s
    else ret = - ENOSPC \<and> s' = s"
  using assms by (auto simp: smp_request_block_def Let_def need_def split: if_splits)

lemma smp_wfD:
  assumes "smp_wf cnt rsv s"
  shows "client_state s c b \<Longrightarrow> b < cnt" "client_state s c b \<Longrightarrow> state s b" "client_state s c b \<Longrightarrow> \<not> rsv b"
    "client_state s c b \<Longrightarrow> client_state s d b \<Longrightarrow> c = d" "b < cnt \<Longrightarrow> rsv b \<Longrightarrow> state s b"
    "b < cnt \<Longrightarrow> state s b \<Longrightarrow> rsv b \<or> (\<exists>c. client_state s c b)"
  using assms unfolding smp_wf_def by blast+

lemma smp_wfI:
  assumes "\<And>c b. client_state s c b \<Longrightarrow> b < cnt \<and> state s b \<and> \<not> rsv b"
    and "\<And>c d b. client_state s c b \<Longrightarrow> client_state s d b \<Longrightarrow> c = d"
    and "\<And>b. b < cnt \<Longrightarrow> rsv b \<Longrightarrow> state s b"
    and "\<And>b. b < cnt \<Longrightarrow> state s b \<Longrightarrow> rsv b \<or> (\<exists>c. client_state s c b)"
  shows "smp_wf cnt rsv s"
  unfolding smp_wf_def using assms by blast

lemma take_blocks_wf:
  assumes wf: "smp_wf cnt rsv s" and n: "n \<le> cnt - bitmap_weight (state s) cnt"
  shows "smp_wf cnt rsv (take_blocks cnt cid n s)"
proof -
  obtain B where B: "B \<subseteq> {i. i < cnt \<and> \<not> state s i}"
    "state (take_blocks cnt cid n s) = (\<lambda>i. state s i \<or> i \<in> B)"
    "client_state (take_blocks cnt cid n s) = (client_state s)(cid := (\<lambda>i. client_state s cid i \<or> i \<in> B))"
    using take_blocks_spec [OF n] by blast
  have free: "b < cnt \<and> \<not> state s b \<and> \<not> rsv b \<and> (\<forall>c. \<not> client_state s c b)" if "b \<in> B" for b
    using that B(1) wf by (auto simp: smp_wf_def)
  have cl: "client_state (take_blocks cnt cid n s) c b \<longleftrightarrow> client_state s c b \<or> c = cid \<and> b \<in> B" for c b
    unfolding B(3) by auto
  have st: "state (take_blocks cnt cid n s) b \<longleftrightarrow> state s b \<or> b \<in> B" for b unfolding B(2) ..
  show ?thesis
  proof (rule smp_wfI)
    fix c b assume "client_state (take_blocks cnt cid n s) c b"
    then show "b < cnt \<and> state (take_blocks cnt cid n s) b \<and> \<not> rsv b"
      unfolding cl st using free smp_wfD(1-3) [OF wf] by blast
  next
    fix c d b assume "client_state (take_blocks cnt cid n s) c b" "client_state (take_blocks cnt cid n s) d b"
    then show "c = d" unfolding cl using free smp_wfD(4) [OF wf] by blast
  next
    fix b assume "b < cnt" "rsv b"
    then show "state (take_blocks cnt cid n s) b" unfolding st using smp_wfD(5) [OF wf] by blast
  next
    fix b assume "b < cnt" "state (take_blocks cnt cid n s) b"
    then show "rsv b \<or> (\<exists>c. client_state (take_blocks cnt cid n s) c b)"
      unfolding st cl using smp_wfD(6) [OF wf] by blast
  qed
qed

lemma request_block_wf:
  assumes "smp_wf (blk_cnt smp) rsv s" and "smp_request_block smp s cid n = (ret, s')"
  shows "smp_wf (blk_cnt smp) rsv s'"
  using request_block_spec [OF assms(2)] take_blocks_wf [OF assms(1), of "need smp cid n" cid] assms(1)
  by (auto split: if_splits)

lemma assign_clients_wf:
  "smp_wf (blk_cnt smp) rsv s \<Longrightarrow> assign_clients smp clients pipe is blkcfg s = (ret, s') \<Longrightarrow>
     smp_wf (blk_cnt smp) rsv s'"
proof (induction "is" arbitrary: blkcfg s)
  case (Cons i "is")
  obtain r s1 where r: "smp_request_block smp s (pipe2client clients pipe i) (unat (blkcfg AND 0xff)) = (r, s1)"
    by (cases "smp_request_block smp s (pipe2client clients pipe i) (unat (blkcfg AND 0xff))")
  have "smp_wf (blk_cnt smp) rsv s1" by (rule request_block_wf [OF Cons.prems(1) r])
  then show ?case using Cons.prems Cons.IH r by (auto simp: Let_def split: if_splits)
qed simp

lemma smp_wf_flags: "smp_wf cnt rsv (s\<lparr>assigned := a\<rparr>) = smp_wf cnt rsv s" "smp_wf cnt rsv (s\<lparr>released := a\<rparr>) = smp_wf cnt rsv s"
  by (simp_all add: smp_wf_def)

lemma smp_assign_wf:
  "smp_wf (blk_cnt smp) rsv s \<Longrightarrow> smp_wf (blk_cnt smp) rsv (snd (mdp5_smp_assign smp clients pipe blkcfg s))"
  using assign_clients_wf [of smp rsv s clients pipe "[0..<pipe2nclients pipe]" blkcfg]
  by (auto simp: mdp5_smp_assign_def smp_wf_flags split: prod.split)

lemma release_client_eq:
  assumes "smp_wf cnt rsv s"
  shows "client_state (release_client cnt cid s) c b \<longleftrightarrow> c \<noteq> cid \<and> client_state s c b"
    "state (release_client cnt cid s) b \<longleftrightarrow> state s b \<and> \<not> client_state s cid b"
  using smp_wfD(1) [OF assms] by (auto simp: release_client_def bitmap_andnot_def bitmap_zero_def)

lemma release_client_wf: "smp_wf cnt rsv s \<Longrightarrow> smp_wf cnt rsv (release_client cnt cid s)"
proof (rule smp_wfI)
  assume wf: "smp_wf cnt rsv s"
  note eq = release_client_eq [OF wf] and D = smp_wfD [OF wf]
  show "b < cnt \<and> state (release_client cnt cid s) b \<and> \<not> rsv b" if "client_state (release_client cnt cid s) c b" for c b
    using that D(1-4) unfolding eq by blast
  show "c = d" if "client_state (release_client cnt cid s) c b" "client_state (release_client cnt cid s) d b" for c d b
    using that D(4) unfolding eq by blast
  show "state (release_client cnt cid s) b" if "b < cnt" "rsv b" for b
    using that D(3,5) unfolding eq by blast
  show "rsv b \<or> (\<exists>c. client_state (release_client cnt cid s) c b)" if "b < cnt" "state (release_client cnt cid s) b" for b
    using that D(6) [of b] by (auto simp: eq)
qed

lemma release_clients_wf:
  "smp_wf cnt rsv s \<Longrightarrow> smp_wf cnt rsv (fold (\<lambda>i. release_client cnt (f i)) is s)"
  by (induction "is" arbitrary: s) (simp_all add: release_client_wf)

lemma smp_release_wf:
  "smp_wf (blk_cnt smp) rsv s \<Longrightarrow> smp_wf (blk_cnt smp) rsv (mdp5_smp_release smp clients pipe s)"
  by (simp add: mdp5_smp_release_def Let_def smp_wf_flags release_clients_wf)

text \<open>A configuration and a state to exhibit: the pool of \<^verbatim>\<open>apq8084\<close> in small, eight blocks, two of them reserved.\<close>

definition ex_cfg :: mdp5_smp_block where
  "ex_cfg = \<lparr>mmb_count = 8, mmb_size = 8192, smp_clients = (\<lambda>p. if p = 1 then 1 else if p = 7 then 4 else 16),
     reserved_state = (\<lambda>i. i < 2), cfg_reserved = (\<lambda>c. if c = 16 then 2 else 0)\<rparr>"

definition ex_pool :: "mdp5_smp \<times> mdp5_smp_state" where
  "ex_pool = (case mdp5_smp_init True ex_cfg \<lparr>state = (\<lambda>_. False), client_state = (\<lambda>_ _. False), assigned = 0, released = 0\<rparr>
     of Inr p \<Rightarrow> p)"

lemma smp_init_wf:
  assumes "mdp5_smp_init kz cfg s = Inr (smp, s')" and "\<forall>c b. \<not> client_state s c b"
  shows "smp_wf (blk_cnt smp) (reserved_state cfg) s'"
  using assms by (auto simp: mdp5_smp_init_def smp_wf_def split: if_splits)

lemma ex_pool_wf: "smp_wf (blk_cnt (fst ex_pool)) (reserved_state ex_cfg) (snd ex_pool)"
  by (rule smp_init_wf [of True ex_cfg "\<lparr>state = (\<lambda>_. False), client_state = (\<lambda>_ _. False), assigned = 0, released = 0\<rparr>"])
    (simp_all add: ex_pool_def mdp5_smp_init_def)

text \<open>The states of a pool under any sequence of assignments and releases.\<close>

inductive smp_reachable :: "mdp5_smp \<Rightarrow> (nat \<Rightarrow> u32) \<Rightarrow> mdp5_smp_state \<Rightarrow> mdp5_smp_state \<Rightarrow> bool"
  for smp clients s0 where
  smp_start: "smp_reachable smp clients s0 s0"
| smp_assigned: "smp_reachable smp clients s0 s \<Longrightarrow> smp_reachable smp clients s0 (snd (mdp5_smp_assign smp clients pipe blkcfg s))"
| smp_released: "smp_reachable smp clients s0 s \<Longrightarrow> smp_reachable smp clients s0 (mdp5_smp_release smp clients pipe s)"

text \<open>
  C13: The shared memory pool.  After \<open>mdp5_smp_init\<close>, every sequence of assignments (successful or
  not) and releases keeps the invariant: a block of a client lies in the pool, is marked used, is
  not a statically reserved one and belongs to one client only, and a used block is reserved or
  belongs to a client.
\<close>

theorem mdp5_smp_blocks_owned_once:
  assumes "mdp5_smp_init kz cfg s = Inr (smp, s0)" and "\<forall>c b. \<not> client_state s c b"
    and "smp_reachable smp clients s0 s'"
  shows "(\<forall>cid blk. client_state s' cid blk \<longrightarrow> blk < mmb_count cfg \<and> state s' blk \<and> \<not> reserved_state cfg blk)
    \<and> (\<forall>c d blk. client_state s' c blk \<and> client_state s' d blk \<longrightarrow> c = d)
    \<and> (\<forall>blk < mmb_count cfg. state s' blk \<longleftrightarrow> reserved_state cfg blk \<or> (\<exists>cid. client_state s' cid blk))"
proof -
  have cnt: "blk_cnt smp = mmb_count cfg" using assms(1) by (auto simp: mdp5_smp_init_def split: if_splits)
  have "smp_wf (blk_cnt smp) (reserved_state cfg) s'"
    using assms(3)
  proof induction
    case smp_start
    show ?case by (rule smp_init_wf [OF assms(1,2)])
  next
    case (smp_assigned s pipe blkcfg)
    then show ?case by (blast intro: smp_assign_wf)
  next
    case (smp_released s pipe)
    then show ?case by (blast intro: smp_release_wf)
  qed
  then show ?thesis unfolding smp_wf_def cnt by blast
qed

theorem mdp5_smp_blocks_owned_once_witness:
  "\<exists>s'. s' = snd (mdp5_smp_assign (fst ex_pool) (smp_clients ex_cfg) 1 0x0203 (snd ex_pool))
    \<and> \<not> (\<exists>blk. client_state s' 1 blk \<and> client_state s' 2 blk)"
proof -
  let ?z = "\<lparr>state = (\<lambda>_. False), client_state = (\<lambda>_ _. False), assigned = 0, released = 0\<rparr>"
  have init: "mdp5_smp_init True ex_cfg ?z = Inr (fst ex_pool, snd ex_pool)"
    by (simp add: ex_pool_def mdp5_smp_init_def)
  have "smp_reachable (fst ex_pool) (smp_clients ex_cfg) (snd ex_pool)
      (snd (mdp5_smp_assign (fst ex_pool) (smp_clients ex_cfg) 1 0x0203 (snd ex_pool)))"
    by (rule smp_assigned [OF smp_start])
  from mdp5_smp_blocks_owned_once [OF init _ this] show ?thesis by fastforce
qed

section \<open>What an assignment grants\<close>

definition blkcfg_byte :: "u32 \<Rightarrow> nat \<Rightarrow> nat" where
  "blkcfg_byte blkcfg i = unat (drop_bit (8 * i) blkcfg AND 0xff)"

text \<open>
  What the loop asks for client \<open>i\<close>: its byte of \<open>blkcfg\<close>, but nothing once a byte was 0, because
  the loop then continues without the shift.
\<close>

definition asked :: "u32 \<Rightarrow> nat \<Rightarrow> nat" where
  "asked blkcfg i = (if \<forall>j \<le> i. blkcfg_byte blkcfg j \<noteq> 0 then blkcfg_byte blkcfg i else 0)"

text \<open>The blocks client \<open>i\<close> of a pipe is to get from the pool.\<close>

definition want :: "mdp5_smp \<Rightarrow> (nat \<Rightarrow> u32) \<Rightarrow> nat \<Rightarrow> u32 \<Rightarrow> nat \<Rightarrow> nat" where
  "want smp clients pipe blkcfg i = need smp (pipe2client clients pipe i) (asked blkcfg i)"

lemma request_grants:
  assumes wf: "smp_wf (blk_cnt smp) rsv s" and r: "smp_request_block smp s cid n = (ret, s')"
  shows "if need smp cid n \<le> blk_cnt smp - bitmap_weight (state s) (blk_cnt smp)
    then ret = 0 \<and> bitmap_weight (client_state s' cid) (blk_cnt smp) = bitmap_weight (client_state s cid) (blk_cnt smp) + need smp cid n
      \<and> bitmap_weight (state s') (blk_cnt smp) = bitmap_weight (state s) (blk_cnt smp) + need smp cid n
    else ret = - ENOSPC \<and> s' = s"
    and "c \<noteq> cid \<Longrightarrow> client_state s' c = client_state s c"
    and "blk_cnt smp \<le> b \<Longrightarrow> state s' b = state s b"
proof -
  let ?cnt = "blk_cnt smp"
  note spec = request_block_spec [OF r]
  show "if need smp cid n \<le> ?cnt - bitmap_weight (state s) ?cnt
    then ret = 0 \<and> bitmap_weight (client_state s' cid) ?cnt = bitmap_weight (client_state s cid) ?cnt + need smp cid n
      \<and> bitmap_weight (state s') ?cnt = bitmap_weight (state s) ?cnt + need smp cid n
    else ret = - ENOSPC \<and> s' = s"
  proof (cases "need smp cid n \<le> ?cnt - bitmap_weight (state s) ?cnt")
    case True
    obtain B where B: "B \<subseteq> {i. i < ?cnt \<and> \<not> state s i}" "card B = need smp cid n" "finite B"
      "state s' = (\<lambda>i. state s i \<or> i \<in> B)" "client_state s' = (client_state s)(cid := (\<lambda>i. client_state s cid i \<or> i \<in> B))"
      using take_blocks_spec [OF True] spec True by auto
    have "{i. i < ?cnt \<and> state s' i} = {i. i < ?cnt \<and> state s i} \<union> B" using B(1) by (auto simp: B(4))
    then have 1: "bitmap_weight (state s') ?cnt = bitmap_weight (state s) ?cnt + need smp cid n"
      using B(1-3) by (simp add: bitmap_weight_card) (subst card_Un_disjoint, auto)
    have "{i. i < ?cnt \<and> client_state s' cid i} = {i. i < ?cnt \<and> client_state s cid i} \<union> B" using B(1) by (auto simp: B(5))
    moreover have "{i. i < ?cnt \<and> client_state s cid i} \<inter> B = {}" using B(1) smp_wfD(2) [OF wf] by blast
    ultimately have "bitmap_weight (client_state s' cid) ?cnt = bitmap_weight (client_state s cid) ?cnt + need smp cid n"
      using B(2,3) by (simp add: bitmap_weight_card card_Un_disjoint)
    then show ?thesis using 1 spec True by simp
  qed (use spec in simp)
  show "c \<noteq> cid \<Longrightarrow> client_state s' c = client_state s c" "?cnt \<le> b \<Longrightarrow> state s' b = state s b"
    using spec take_blocks_spec [of "need smp cid n" ?cnt s cid] by (auto split: if_splits)
qed

lemma assign_clients_zero: "blkcfg AND 0xff = 0 \<Longrightarrow> assign_clients smp clients pipe is blkcfg s = (0, s)"
  by (induction "is") (simp_all add: Let_def)

lemma byte_zero: "blkcfg_byte blkcfg k = 0 \<longleftrightarrow> drop_bit (8 * k) blkcfg AND 0xff = 0"
  by (simp add: blkcfg_byte_def unat_eq_0)

text \<open>The clients of a pipe are consecutive numbers, hence distinct.\<close>

lemma pipe2client_inj: "inj_on (pipe2client clients pipe) {..<pipe2nclients pipe}"
proof (rule inj_onI)
  fix i j assume i: "i \<in> {..<pipe2nclients pipe}" and j: "j \<in> {..<pipe2nclients pipe}"
    and eq: "pipe2client clients pipe i = pipe2client clients pipe j"
  have n: "pipe2nclients pipe \<le> 3" by (simp add: pipe2nclients_def)
  from eq i j have "clients pipe + of_nat i = clients pipe + (of_nat j :: u32)"
    by (simp add: pipe2client_def word_unat_eq_iff)
  then have "(of_nat i :: u32) = of_nat j" by (simp only: add_left_cancel)
  then have "unat (of_nat i :: u32) = unat (of_nat j :: u32)" by simp
  then show "i = j" using i j n by (simp add: unat_of_nat)
qed

lemma assign_clients_grants:
  assumes "smp_wf (blk_cnt smp) rsv s" and "k \<le> n" and inj: "inj_on (pipe2client clients pipe) {..<n}"
    and before: "\<forall>j < k. blkcfg_byte blkcfg j \<noteq> 0"
    and "assign_clients smp clients pipe [k..<n] (drop_bit (8 * k) blkcfg) s = (ret, s')"
  shows "if (\<Sum>i = k..<n. want smp clients pipe blkcfg i) \<le> blk_cnt smp - bitmap_weight (state s) (blk_cnt smp)
    then ret = 0 \<and> bitmap_weight (state s') (blk_cnt smp)
          = bitmap_weight (state s) (blk_cnt smp) + (\<Sum>i = k..<n. want smp clients pipe blkcfg i)
      \<and> (\<forall>i\<in>{k..<n}. bitmap_weight (client_state s' (pipe2client clients pipe i)) (blk_cnt smp)
           = bitmap_weight (client_state s (pipe2client clients pipe i)) (blk_cnt smp) + want smp clients pipe blkcfg i)
      \<and> (\<forall>c. c \<notin> pipe2client clients pipe ` {k..<n} \<longrightarrow> client_state s' c = client_state s c)
    else ret = - ENOSPC"
  using assms(1,2,5) before
proof (induction "n - k" arbitrary: k s)
  case 0
  then show ?case by simp
next
  case (Suc m)
  let ?cnt = "blk_cnt smp" and ?c = "pipe2client clients pipe" and ?w = "want smp clients pipe blkcfg"
  have k: "k < n" "[k..<n] = k # [Suc k..<n]" using Suc.hyps(2) upt_rec by auto
  have sum: "(\<Sum>i = k..<n. ?w i) = ?w k + (\<Sum>i = Suc k..<n. ?w i)" using k(1) by (simp add: sum.atLeast_Suc_lessThan)
  show ?case
  proof (cases "blkcfg_byte blkcfg k = 0")
    case True
    have z: "?w i = 0" if "i \<in> {k..<n}" for i
      using that True by (auto simp: want_def need_def asked_def)
    have "assign_clients smp clients pipe [k..<n] (drop_bit (8 * k) blkcfg) s = (0, s)"
      using True by (intro assign_clients_zero) (simp add: byte_zero)
    then show ?thesis using Suc.prems(3) z by simp
  next
    case False
    have upto: "\<forall>j < Suc k. blkcfg_byte blkcfg j \<noteq> 0" using False Suc.prems(4) less_Suc_eq by metis
    then have wk: "?w k = need smp (?c k) (blkcfg_byte blkcfg k)"
      by (simp add: want_def asked_def less_Suc_eq_le)
    obtain r s1 where r: "smp_request_block smp s (?c k) (blkcfg_byte blkcfg k) = (r, s1)"
      by (cases "smp_request_block smp s (?c k) (blkcfg_byte blkcfg k)")
    note g = request_grants [OF Suc.prems(1) r]
    have "assign_clients smp clients pipe [k..<n] (drop_bit (8 * k) blkcfg) s
        = (if r \<noteq> 0 then (r, s1) else assign_clients smp clients pipe [Suc k..<n] (drop_bit (8 * Suc k) blkcfg) s1)"
      using False r by (simp add: k(2) Let_def blkcfg_byte_def)
    with Suc.prems(3) have step: "(if r \<noteq> 0 then (r, s1)
        else assign_clients smp clients pipe [Suc k..<n] (drop_bit (8 * Suc k) blkcfg) s1) = (ret, s')" by simp
    show ?thesis
    proof (cases "?w k \<le> ?cnt - bitmap_weight (state s) ?cnt")
      case fit: False
      then have "ret = - ENOSPC" using g(1) step by (simp add: wk)
      then show ?thesis using fit sum by simp
    next
      case fit: True
      then have r0: "r = 0" "bitmap_weight (client_state s1 (?c k)) ?cnt = bitmap_weight (client_state s (?c k)) ?cnt + ?w k"
        "bitmap_weight (state s1) ?cnt = bitmap_weight (state s) ?cnt + ?w k"
        using g(1) by (simp_all add: wk)
      have ne: "?c i \<noteq> ?c k" if "i \<in> {Suc k..<n}" for i
        using inj_onD [OF inj, of i k] that k(1) by auto
      from step r0(1) have rec: "assign_clients smp clients pipe [Suc k..<n] (drop_bit (8 * Suc k) blkcfg) s1 = (ret, s')" by simp
      have "m = n - Suc k" using Suc.hyps(2) by simp
      from Suc.hyps(1) [OF this request_block_wf [OF Suc.prems(1) r] _ rec upto] k(1)
      have IH: "if (\<Sum>i = Suc k..<n. ?w i) \<le> ?cnt - bitmap_weight (state s1) ?cnt
        then ret = 0 \<and> bitmap_weight (state s') ?cnt = bitmap_weight (state s1) ?cnt + (\<Sum>i = Suc k..<n. ?w i)
          \<and> (\<forall>i\<in>{Suc k..<n}. bitmap_weight (client_state s' (?c i)) ?cnt = bitmap_weight (client_state s1 (?c i)) ?cnt + ?w i)
          \<and> (\<forall>c. c \<notin> ?c ` {Suc k..<n} \<longrightarrow> client_state s' c = client_state s1 c)
        else ret = - ENOSPC" by simp
      have ck: "?c k \<notin> ?c ` {Suc k..<n}" using ne by (metis imageE)
      have ins: "{k..<n} = insert k {Suc k..<n}" using k(1) by auto
      show ?thesis
      proof (cases "(\<Sum>i = Suc k..<n. ?w i) \<le> ?cnt - bitmap_weight (state s1) ?cnt")
        case True
        then have "(\<Sum>i = k..<n. ?w i) \<le> ?cnt - bitmap_weight (state s) ?cnt" using fit sum r0(3) by linarith
        then show ?thesis using IH True r0(2,3) g(2) ne ck unfolding sum ins by auto
      next
        case False
        then have "\<not> (\<Sum>i = k..<n. ?w i) \<le> ?cnt - bitmap_weight (state s) ?cnt" using fit sum r0(3) by linarith
        then show ?thesis using IH False by simp
      qed
    qed
  qed
qed

text \<open>
  C14: What an assignment grants.  In a well-formed pool \<open>mdp5_smp_assign\<close> returns 0 exactly when the
  free blocks suffice for all clients of the pipe together, and then each client has got, on top of
  the blocks it held, as many as are asked for it less those tied to it, and the clients of other
  pipes hold what they held; otherwise it returns \<^verbatim>\<open>-ENOSPC\<close>.  Asked for is the client's byte of \<open>blkcfg\<close>, as long as no byte up to
  its own is 0: the clients from the first zero byte on get nothing.
\<close>

theorem mdp5_smp_assign_grants:
  assumes "smp_wf (blk_cnt smp) rsv s"
  shows "case mdp5_smp_assign smp clients pipe blkcfg s of (ret, s') \<Rightarrow>
    if (\<Sum>i < pipe2nclients pipe. want smp clients pipe blkcfg i) \<le> blk_cnt smp - bitmap_weight (state s) (blk_cnt smp)
    then ret = 0 \<and> (\<forall>i < pipe2nclients pipe. bitmap_weight (client_state s' (pipe2client clients pipe i)) (blk_cnt smp)
            = bitmap_weight (client_state s (pipe2client clients pipe i)) (blk_cnt smp) + want smp clients pipe blkcfg i)
      \<and> (\<forall>c. c \<notin> pipe2client clients pipe ` {..<pipe2nclients pipe} \<longrightarrow> client_state s' c = client_state s c)
      \<and> bitmap_weight (state s') (blk_cnt smp)
          = bitmap_weight (state s) (blk_cnt smp) + (\<Sum>i < pipe2nclients pipe. want smp clients pipe blkcfg i)
    else ret = - ENOSPC"
proof -
  obtain ret s1 where a: "assign_clients smp clients pipe [0..<pipe2nclients pipe] blkcfg s = (ret, s1)"
    by (cases "assign_clients smp clients pipe [0..<pipe2nclients pipe] blkcfg s")
  from assign_clients_grants [OF assms(1) le0 pipe2client_inj, of blkcfg clients pipe ret s1] a show ?thesis
    by (auto simp: mdp5_smp_assign_def atLeast0LessThan split: if_splits)
qed

lemma ex_pool_simps:
  "blk_cnt (fst ex_pool) = 8" "reserved (fst ex_pool) = (\<lambda>c. if c = 16 then 2 else 0)"
  "state (snd ex_pool) = (\<lambda>i. i < 8 \<and> i < 2)" "client_state (snd ex_pool) = (\<lambda>_ _. False)"
  by (auto simp: ex_pool_def mdp5_smp_init_def ex_cfg_def)

theorem mdp5_smp_assign_grants_witness:
  "fst (mdp5_smp_assign (fst ex_pool) (smp_clients ex_cfg) 1 0x0203 (snd ex_pool)) = 0
   \<and> fst (mdp5_smp_assign (fst ex_pool) (smp_clients ex_cfg) 1 0x0703 (snd ex_pool)) = - ENOSPC"
proof -
  have n: "pipe2nclients 1 = 3" by (simp add: pipe2nclients_def)
  have c: "pipe2client (smp_clients ex_cfg) 1 0 = 1" "pipe2client (smp_clients ex_cfg) 1 1 = 2"
    "pipe2client (smp_clients ex_cfg) 1 2 = 3"
    by (simp_all add: pipe2client_def pipe2nclients_def ex_cfg_def)
  have three: "{..<3::nat} = {0, 1, 2}" by auto
  have b: "blkcfg_byte 0x0203 0 = 3" "blkcfg_byte 0x0203 1 = 2" "blkcfg_byte 0x0203 2 = 0"
    "blkcfg_byte 0x0703 0 = 3" "blkcfg_byte 0x0703 1 = 7" "blkcfg_byte 0x0703 2 = 0"
    by (simp_all add: blkcfg_byte_def)
  have le: "(\<forall>j \<le> 1. P j) \<longleftrightarrow> P 0 \<and> P 1" "(\<forall>j \<le> 2. P j) \<longleftrightarrow> P 0 \<and> P 1 \<and> P 2" for P :: "nat \<Rightarrow> bool"
    by (auto simp: le_Suc_eq numeral_2_eq_2)
  have a: "asked 0x0203 0 = 3" "asked 0x0203 1 = 2" "asked 0x0203 2 = 0"
    "asked 0x0703 0 = 3" "asked 0x0703 1 = 7" "asked 0x0703 2 = 0"
    unfolding asked_def le by (simp_all add: b [simplified])
  have w: "bitmap_weight (state (snd ex_pool)) 8 = 2"
    by (simp add: bitmap_weight_def ex_pool_simps upt_rec)
  have ws: "(\<Sum>i < 3. want (fst ex_pool) (smp_clients ex_cfg) 1 x i) = asked x 0 + asked x 1 + asked x 2" for x
    by (simp add: three want_def need_def c [simplified] ex_pool_simps)
  from mdp5_smp_assign_grants [OF ex_pool_wf, of "smp_clients ex_cfg" 1 "0x0203", unfolded n ws ex_pool_simps(1) w a]
    mdp5_smp_assign_grants [OF ex_pool_wf, of "smp_clients ex_cfg" 1 "0x0703", unfolded n ws ex_pool_simps(1) w a]
  show ?thesis by (simp split: prod.splits)
qed

text \<open>
  A client that needs nothing hides the ones after it.  When the first byte of \<open>blkcfg\<close> is 0,
  \<open>mdp5_smp_assign\<close> reports success and grants nothing to any client of the pipe, whatever the other
  bytes ask for, because the loop skips the shift together with the request.
\<close>

theorem mdp5_smp_assign_skips_shift:
  assumes "blkcfg AND 0xff = 0"
  shows "mdp5_smp_assign smp clients pipe blkcfg s = (0, s\<lparr>assigned := assigned s OR push_bit pipe 1\<rparr>)"
  by (simp add: mdp5_smp_assign_def assign_clients_zero [OF assms])

theorem mdp5_smp_assign_skips_shift_witness:
  "mdp5_smp_assign (fst ex_pool) (smp_clients ex_cfg) 1 0x020200 (snd ex_pool)
     = (0, (snd ex_pool)\<lparr>assigned := assigned (snd ex_pool) OR push_bit 1 1\<rparr>)"
  by (rule mdp5_smp_assign_skips_shift) simp

section \<open>Release\<close>

lemma assign_clients_frame:
  assumes "smp_wf (blk_cnt smp) rsv s" and "assign_clients smp clients pipe ks blkcfg s = (ret, s')"
  shows "(c \<notin> pipe2client clients pipe ` set ks \<longrightarrow> client_state s' c = client_state s c)
    \<and> (blk_cnt smp \<le> b \<longrightarrow> state s' b = state s b)"
  using assms
proof (induction ks arbitrary: blkcfg s)
  case (Cons i ks)
  obtain r s1 where r: "smp_request_block smp s (pipe2client clients pipe i) (unat (blkcfg AND 0xff)) = (r, s1)"
    by (cases "smp_request_block smp s (pipe2client clients pipe i) (unat (blkcfg AND 0xff))")
  note g = request_grants(2,3) [OF Cons.prems(1) r] and wf1 = request_block_wf [OF Cons.prems(1) r]
  from Cons.prems(2) r consider "assign_clients smp clients pipe ks blkcfg s = (ret, s')"
    | "s' = s1" | "assign_clients smp clients pipe ks (drop_bit 8 blkcfg) s1 = (ret, s')"
    by (auto simp: Let_def split: if_splits)
  then show ?case
  proof cases
    case 1
    then show ?thesis using Cons.IH [OF Cons.prems(1) 1] by simp
  next
    case 2
    then show ?thesis using g by simp
  next
    case 3
    then show ?thesis using Cons.IH [OF wf1 3] g by simp
  qed
qed simp

lemma release_clients_eq:
  assumes "smp_wf cnt rsv s"
  shows "(client_state (fold (\<lambda>i. release_client cnt (f i)) ks s) c b \<longleftrightarrow> c \<notin> f ` set ks \<and> client_state s c b)
    \<and> (cnt \<le> b \<longrightarrow> state (fold (\<lambda>i. release_client cnt (f i)) ks s) b = state s b)"
  using assms
proof (induction ks arbitrary: s)
  case (Cons i ks)
  show ?case
    using Cons.IH [OF release_client_wf [OF Cons.prems]] release_client_eq [OF Cons.prems] smp_wfD(1) [OF Cons.prems, of _ b]
    by (auto simp: not_less [symmetric])
qed simp

lemma smp_wf_state_clients:
  assumes "smp_wf cnt rsv s" and "smp_wf cnt rsv s'" and "client_state s' = client_state s"
    and "\<And>b. cnt \<le> b \<Longrightarrow> state s' b = state s b"
  shows "state s' = state s"
proof
  fix b
  show "state s' b = state s b"
  proof (cases "b < cnt")
    case True
    then show ?thesis using smp_wfD(2) [OF assms(1), of _ b] smp_wfD(5,6) [OF assms(1), of b]
        smp_wfD(2) [OF assms(2), of _ b] smp_wfD(5,6) [OF assms(2), of b] assms(3) by metis
  qed (use assms(4) in simp)
qed

text \<open>What a release leaves: the clients of the pipe hold nothing, the other ones what they held.\<close>

lemma smp_release_clients:
  assumes "smp_wf (blk_cnt smp) rsv s"
  shows "client_state (mdp5_smp_release smp clients pipe s)
      = (\<lambda>c b. c \<notin> pipe2client clients pipe ` {0..<pipe2nclients pipe} \<and> client_state s c b)"
    and "blk_cnt smp \<le> b \<Longrightarrow> state (mdp5_smp_release smp clients pipe s) b = state s b"
  using release_clients_eq [OF assms, where f = "pipe2client clients pipe" and ks = "[0..<pipe2nclients pipe]"]
  by (auto simp: mdp5_smp_release_def Let_def fun_eq_iff)

text \<open>
  C15: In a well-formed pool a release undoes an assignment, also one that failed halfway: pool and
  clients are left as a release without the assignment leaves them.  When the clients of the pipe
  held nothing before the assignment, that is how they were before it.
\<close>

theorem mdp5_smp_assign_release:
  assumes wf: "smp_wf (blk_cnt smp) rsv s"
  shows "let s1 = snd (mdp5_smp_assign smp clients pipe blkcfg s);
             s2 = mdp5_smp_release smp clients pipe s1; s0 = mdp5_smp_release smp clients pipe s
    in state s2 = state s0 \<and> client_state s2 = client_state s0
      \<and> ((\<forall>i < pipe2nclients pipe. \<forall>b. \<not> client_state s (pipe2client clients pipe i) b)
          \<longrightarrow> state s2 = state s \<and> client_state s2 = client_state s)"
proof -
  let ?s1 = "snd (mdp5_smp_assign smp clients pipe blkcfg s)"
  let ?s2 = "mdp5_smp_release smp clients pipe ?s1" and ?s0 = "mdp5_smp_release smp clients pipe s"
  have wf1: "smp_wf (blk_cnt smp) rsv ?s1" by (rule smp_assign_wf [OF wf])
  have wf2: "smp_wf (blk_cnt smp) rsv ?s2" by (rule smp_release_wf [OF wf1])
  have wf0: "smp_wf (blk_cnt smp) rsv ?s0" by (rule smp_release_wf [OF wf])
  have frame: "c \<notin> pipe2client clients pipe ` {0..<pipe2nclients pipe} \<Longrightarrow> client_state ?s1 c = client_state s c"
    "blk_cnt smp \<le> b \<Longrightarrow> state ?s1 b = state s b" for c b
    using assign_clients_frame [OF wf, of clients pipe "[0..<pipe2nclients pipe]" blkcfg]
    by (auto simp: mdp5_smp_assign_def split: prod.split)
  have cl: "client_state ?s2 = client_state ?s0"
    unfolding smp_release_clients(1) [OF wf1] smp_release_clients(1) [OF wf] using frame(1) by (auto simp: fun_eq_iff)
  have st: "state ?s2 = state ?s0"
    by (rule smp_wf_state_clients [OF wf0 wf2 cl])
      (simp add: smp_release_clients(2) [OF wf1] smp_release_clients(2) [OF wf] frame(2))
  have "state ?s0 = state s \<and> client_state ?s0 = client_state s"
    if "\<forall>i < pipe2nclients pipe. \<forall>b. \<not> client_state s (pipe2client clients pipe i) b"
  proof -
    have "client_state ?s0 = client_state s"
      unfolding smp_release_clients(1) [OF wf] using that by (auto simp: fun_eq_iff)
    then show ?thesis using smp_wf_state_clients [OF wf wf0 _ smp_release_clients(2) [OF wf]] by blast
  qed
  then show ?thesis unfolding Let_def using st cl by simp
qed

theorem mdp5_smp_assign_release_witness:
  "state (mdp5_smp_release (fst ex_pool) (smp_clients ex_cfg) 1
      (snd (mdp5_smp_assign (fst ex_pool) (smp_clients ex_cfg) 1 0x0703 (snd ex_pool)))) = state (snd ex_pool)"
  using mdp5_smp_assign_release [OF ex_pool_wf, of "smp_clients ex_cfg" 1 "0x0703", unfolded Let_def,
      THEN conjunct2, THEN conjunct2, THEN mp]
  by (simp add: ex_pool_simps(4))

section \<open>Programming the owners\<close>

text \<open>The owner field of a block in the register cache.\<close>

definition smp_owner :: "(nat \<Rightarrow> u32) \<Rightarrow> nat \<Rightarrow> u32" where
  "smp_owner alloc blk = drop_bit (8 * (blk mod 3)) (alloc (blk div 3)) AND 0xff"

lemma smp_field_mask:
  "f < 3 \<Longrightarrow> smp_field f val cid
     = (val AND NOT (push_bit (8 * f) (mask 8))) OR (push_bit (8 * f) (cid AND mask 8))"
proof -
  assume "f < 3"
  then consider "f = 0" | "f = 1" | "f = 2" by linarith
  moreover have "(0x000000ff :: u32) = push_bit (8 * 0) (mask 8)" "(0x0000ff00 :: u32) = push_bit (8 * 1) (mask 8)"
    "(0x00ff0000 :: u32) = push_bit (8 * 2) (mask 8)"
    by (simp_all add: mask_eq_exp_minus_1 push_bit_eq_mult)
  ultimately show ?thesis
    by cases (simp_all only: smp_field_def push_bit_and, simp_all)
qed

lemma smp_field_same: "f < 3 \<Longrightarrow> drop_bit (8 * f) (smp_field f val cid) AND 0xff = cid AND 0xff"
proof -
  assume f: "f < 3"
  have m: "(0xff :: u32) = mask 8" by (simp add: mask_eq_exp_minus_1)
  show ?thesis unfolding m smp_field_mask [OF f]
    using f by (intro bit_word_eqI) (auto simp: bit_simps)
qed

lemma smp_field_other:
  "f < 3 \<Longrightarrow> g < 3 \<Longrightarrow> f \<noteq> g \<Longrightarrow> drop_bit (8 * g) (smp_field f val cid) AND 0xff = drop_bit (8 * g) val AND 0xff"
proof -
  assume f: "f < 3" "g < 3" "f \<noteq> g"
  have m: "(0xff :: u32) = mask 8" by (simp add: mask_eq_exp_minus_1)
  show ?thesis unfolding m smp_field_mask [OF f(1)]
    using f by (intro bit_word_eqI) (auto simp: bit_simps)
qed

lemma smp_owner_update:
  "smp_owner (al(blk div 3 := smp_field (blk mod 3) (al (blk div 3)) cid)) b
     = (if b = blk then cid AND 0xff else smp_owner al b)"
proof (cases "b div 3 = blk div 3")
  case True
  then have "b = blk \<longleftrightarrow> b mod 3 = blk mod 3" by (metis div_mult_mod_eq)
  then show ?thesis using True by (simp add: smp_owner_def smp_field_same smp_field_other)
qed (auto simp: smp_owner_def)

lemma update_blocks_keeps [simp]: "blk_cnt (update_blocks cid blks smp) = blk_cnt smp"
  by (induction blks arbitrary: smp) (simp_all add: Let_def)

lemma update_blocks_owner:
  "smp_owner (alloc_w (update_blocks cid blks smp)) b
     = (if b \<in> set blks then cid AND 0xff else smp_owner (alloc_w smp) b)"
  by (induction blks arbitrary: smp) (simp_all add: Let_def smp_owner_update)

lemma update_blocks_rw: "alloc_r smp = alloc_w smp \<Longrightarrow> alloc_r (update_blocks cid blks smp) = alloc_w (update_blocks cid blks smp)"
  by (induction blks arbitrary: smp) (simp_all add: Let_def)

lemma commit_clients_spec:
  assumes "commit_clients cids cs n smp = (n', smp')"
  shows "blk_cnt smp' = blk_cnt smp \<and> (alloc_r smp = alloc_w smp \<longrightarrow> alloc_r smp' = alloc_w smp')
    \<and> ((\<forall>c\<in>set cids. \<not> (b < blk_cnt smp \<and> cs c b)) \<longrightarrow> smp_owner (alloc_w smp') b = smp_owner (alloc_w smp) b)"
  using assms
proof (induction cids arbitrary: n smp)
  case (Cons c cids)
  obtain m smp1 where u: "update_smp_state smp c (cs c) = (m, smp1)" by (cases "update_smp_state smp c (cs c)")
  then have k: "blk_cnt smp1 = blk_cnt smp" "alloc_r smp = alloc_w smp \<Longrightarrow> alloc_r smp1 = alloc_w smp1"
    "\<not> (b < blk_cnt smp \<and> cs c b) \<Longrightarrow> smp_owner (alloc_w smp1) b = smp_owner (alloc_w smp) b"
    by (auto simp: update_smp_state_def Let_def update_blocks_rw update_blocks_owner)
  have "commit_clients cids cs (n + m) smp1 = (n', smp')" using Cons.prems u by simp
  from Cons.IH [OF this] k show ?case by simp
qed simp

lemma commit_clients_owner:
  assumes "commit_clients cids cs n smp = (n', smp')" and "b < blk_cnt smp" and "cs c b" and "c \<in> set cids"
    and uniq: "\<And>d. cs d b \<Longrightarrow> d = c"
  shows "smp_owner (alloc_w smp') b = of_nat c AND 0xff"
  using assms(1,2,4)
proof (induction cids arbitrary: n smp)
  case (Cons d cids)
  obtain m smp1 where u: "update_smp_state smp d (cs d) = (m, smp1)" by (cases "update_smp_state smp d (cs d)")
  then have cnt: "blk_cnt smp1 = blk_cnt smp" and own: "d = c \<Longrightarrow> smp_owner (alloc_w smp1) b = of_nat c AND 0xff"
    using Cons.prems(2) assms(3) by (auto simp: update_smp_state_def Let_def update_blocks_owner)
  have rec: "commit_clients cids cs (n + m) smp1 = (n', smp')" using Cons.prems(1) u by simp
  show ?case
  proof (cases "c \<in> set cids")
    case True
    then show ?thesis using Cons.IH [OF rec] Cons.prems(2) cnt by simp
  next
    case False
    then have "d = c" using Cons.prems(3) by simp
    moreover have "\<forall>x\<in>set cids. \<not> (b < blk_cnt smp1 \<and> cs x b)" using False uniq by blast
    ultimately show ?thesis using commit_clients_spec [OF rec, of b] own by simp
  qed
qed simp

definition pipe_clients :: "(nat \<Rightarrow> u32) \<Rightarrow> nat \<Rightarrow> nat list" where
  "pipe_clients clients pipe = map (pipe2client clients pipe) [0..<pipe2nclients pipe]"

lemma commit_pipe_spec:
  shows "blk_cnt (commit_pipe clients s p smp) = blk_cnt smp"
    and "alloc_r smp = alloc_w smp \<Longrightarrow> alloc_r (commit_pipe clients s p smp) = alloc_w (commit_pipe clients s p smp)"
    and "\<forall>c\<in>set (pipe_clients clients p). \<not> (b < blk_cnt smp \<and> client_state s c b)
      \<Longrightarrow> smp_owner (alloc_w (commit_pipe clients s p smp)) b = smp_owner (alloc_w smp) b"
    and "b < blk_cnt smp \<Longrightarrow> client_state s c b \<Longrightarrow> c \<in> set (pipe_clients clients p) \<Longrightarrow> (\<And>d. client_state s d b \<Longrightarrow> d = c)
      \<Longrightarrow> smp_owner (alloc_w (commit_pipe clients s p smp)) b = of_nat c AND 0xff"
proof -
  obtain n' smp' where cc: "commit_clients (pipe_clients clients p) (client_state s) 0 smp = (n', smp')"
    by (cases "commit_clients (pipe_clients clients p) (client_state s) 0 smp")
  then have e: "blk_cnt (commit_pipe clients s p smp) = blk_cnt smp'" "alloc_r (commit_pipe clients s p smp) = alloc_r smp'"
    "alloc_w (commit_pipe clients s p smp) = alloc_w smp'"
    by (simp_all add: commit_pipe_def pipe_clients_def set_fifo_thresholds_def Let_def)
  note spec = commit_clients_spec [OF cc, of b]
  show "blk_cnt (commit_pipe clients s p smp) = blk_cnt smp" unfolding e using spec by blast
  show "alloc_r smp = alloc_w smp \<Longrightarrow> alloc_r (commit_pipe clients s p smp) = alloc_w (commit_pipe clients s p smp)"
    unfolding e using spec by blast
  show "\<forall>c\<in>set (pipe_clients clients p). \<not> (b < blk_cnt smp \<and> client_state s c b)
      \<Longrightarrow> smp_owner (alloc_w (commit_pipe clients s p smp)) b = smp_owner (alloc_w smp) b"
    unfolding e using spec by blast
  show "smp_owner (alloc_w (commit_pipe clients s p smp)) b = of_nat c AND 0xff"
    if "b < blk_cnt smp" "client_state s c b" "c \<in> set (pipe_clients clients p)" "\<And>d. client_state s d b \<Longrightarrow> d = c"
    unfolding e by (rule commit_clients_owner [OF cc that])
qed

lemma commit_pipes_spec:
  shows "blk_cnt (fold (commit_pipe clients s) ps smp) = blk_cnt smp
    \<and> (alloc_r smp = alloc_w smp \<longrightarrow> alloc_r (fold (commit_pipe clients s) ps smp) = alloc_w (fold (commit_pipe clients s) ps smp))
    \<and> ((\<forall>p\<in>set ps. \<forall>c\<in>set (pipe_clients clients p). \<not> (b < blk_cnt smp \<and> client_state s c b))
      \<longrightarrow> smp_owner (alloc_w (fold (commit_pipe clients s) ps smp)) b = smp_owner (alloc_w smp) b)"
proof (induction ps arbitrary: smp)
  case (Cons p ps)
  show ?case using Cons.IH [of "commit_pipe clients s p smp"] commit_pipe_spec(1,2) [where clients = clients and s = s and p = p and smp = smp]
      commit_pipe_spec(3) [where clients = clients and s = s and p = p and smp = smp and b = b] by simp
qed simp

lemma commit_pipes_owner:
  assumes "b < blk_cnt smp" and "client_state s c b" and "\<exists>p\<in>set ps. c \<in> set (pipe_clients clients p)"
    and uniq: "\<And>d. client_state s d b \<Longrightarrow> d = c"
  shows "smp_owner (alloc_w (fold (commit_pipe clients s) ps smp)) b = of_nat c AND 0xff"
  using assms(1,3)
proof (induction ps arbitrary: smp)
  case (Cons q ps)
  let ?smp1 = "commit_pipe clients s q smp"
  have cnt: "blk_cnt ?smp1 = blk_cnt smp" by (rule commit_pipe_spec(1))
  show ?case
  proof (cases "\<exists>r\<in>set ps. c \<in> set (pipe_clients clients r)")
    case True
    then show ?thesis using Cons.IH [of ?smp1] Cons.prems(1) cnt by simp
  next
    case False
    then have "c \<in> set (pipe_clients clients q)" using Cons.prems(2) by auto
    then have "smp_owner (alloc_w ?smp1) b = of_nat c AND 0xff"
      using commit_pipe_spec(4) [OF Cons.prems(1) assms(2) _ uniq] by blast
    moreover have "\<forall>r\<in>set ps. \<forall>d\<in>set (pipe_clients clients r). \<not> (b < blk_cnt ?smp1 \<and> client_state s d b)"
      using False uniq by blast
    ultimately show ?thesis using commit_pipes_spec [of clients s ps ?smp1 b] by simp
  qed
qed simp

text \<open>
  C16: Committing an assignment programs the owner of every block.  After \<open>mdp5_smp_prepare_commit\<close> the
  cached and written allocation registers name, for each block of a client of a newly assigned
  pipe, that client; the fields of all other blocks, which may still be scanned out, are untouched.
\<close>

theorem mdp5_smp_prepare_commit_owners:
  assumes wf: "smp_wf (blk_cnt smp) rsv s" and rw: "alloc_r smp = alloc_w smp"
  shows "case mdp5_smp_prepare_commit clients hwpipes smp s of (smp', s', writes) \<Rightarrow>
      (\<forall>p i b. p < 64 \<and> bit (assigned s) p \<and> i < pipe2nclients p \<and> client_state s (pipe2client clients p i) b
         \<longrightarrow> smp_owner (alloc_w smp') b = of_nat (pipe2client clients p i) AND 0xff)
    \<and> (\<forall>b. (\<forall>p i. p < 64 \<and> bit (assigned s) p \<and> i < pipe2nclients p \<longrightarrow> \<not> client_state s (pipe2client clients p i) b)
         \<longrightarrow> smp_owner (alloc_w smp') b = smp_owner (alloc_w smp) b)
    \<and> (\<forall>b < blk_cnt smp. (SMP_ALLOC_W (b div 3), alloc_w smp' (b div 3)) \<in> set writes
         \<and> (SMP_ALLOC_R (b div 3), alloc_w smp' (b div 3)) \<in> set writes)
    \<and> alloc_r smp' = alloc_w smp' \<and> s' = s\<lparr>assigned := 0\<rparr>"
proof -
  let ?ps = "filter (bit (assigned s)) [0..<64]"
  let ?smp' = "fold (commit_pipe clients s) ?ps smp"
  have own: "smp_owner (alloc_w ?smp') b = of_nat (pipe2client clients p i) AND 0xff"
    if "p < 64" "bit (assigned s) p" "i < pipe2nclients p" "client_state s (pipe2client clients p i) b" for p i b
    using that smp_wfD(1,4) [OF wf] by (intro commit_pipes_owner) (auto simp: pipe_clients_def)
  have keep: "smp_owner (alloc_w ?smp') b = smp_owner (alloc_w smp) b"
    if "\<forall>p i. p < 64 \<and> bit (assigned s) p \<and> i < pipe2nclients p \<longrightarrow> \<not> client_state s (pipe2client clients p i) b" for b
    using that commit_pipes_spec [of clients s ?ps smp b] by (auto simp: pipe_clients_def)
  have rw': "alloc_r ?smp' = alloc_w ?smp'" and cnt: "blk_cnt ?smp' = blk_cnt smp"
    using commit_pipes_spec [of clients s ?ps smp] rw by blast+
  have "(SMP_ALLOC_W (b div 3), alloc_w ?smp' (b div 3)) \<in> set (write_smp_alloc_regs ?smp')
      \<and> (SMP_ALLOC_R (b div 3), alloc_w ?smp' (b div 3)) \<in> set (write_smp_alloc_regs ?smp')" if "b < blk_cnt smp" for b
  proof -
    have "b div 3 \<in> set [0..<blk_cnt ?smp' div 3 + 1]"
      using that cnt div_le_mono [of b "blk_cnt smp" 3] by (auto simp: le_eq_less_or_eq)
    then show ?thesis unfolding write_smp_alloc_regs_def set_concat set_map rw' by fastforce
  qed
  then show ?thesis using own keep rw' by (simp add: mdp5_smp_prepare_commit_def Let_def)
qed

theorem mdp5_smp_prepare_commit_owners_witness:
  "alloc_r (fst (mdp5_smp_prepare_commit (smp_clients ex_cfg) [1] (fst ex_pool)
      (snd (mdp5_smp_assign (fst ex_pool) (smp_clients ex_cfg) 1 0x0203 (snd ex_pool)))))
   = alloc_w (fst (mdp5_smp_prepare_commit (smp_clients ex_cfg) [1] (fst ex_pool)
      (snd (mdp5_smp_assign (fst ex_pool) (smp_clients ex_cfg) 1 0x0203 (snd ex_pool)))))"
proof -
  have rw: "alloc_r (fst ex_pool) = alloc_w (fst ex_pool)"
    by (simp add: ex_pool_def mdp5_smp_init_def)
  let ?s = "snd (mdp5_smp_assign (fst ex_pool) (smp_clients ex_cfg) 1 0x0203 (snd ex_pool))"
  have wf: "smp_wf (blk_cnt (fst ex_pool)) (reserved_state ex_cfg) ?s" by (rule smp_assign_wf [OF ex_pool_wf])
  show ?thesis
    using mdp5_smp_prepare_commit_owners [OF wf rw, where clients = "smp_clients ex_cfg" and hwpipes = "[1]"]
    by (simp split: prod.splits)
qed

section \<open>Pipes\<close>

text \<open>The pipes \<open>mdp5_pipe_assign\<close> considers.\<close>

definition pipe_usable :: "mdp5_global_state \<Rightarrow> mdp5_global_state \<Rightarrow> drm_plane \<Rightarrow> u32 \<Rightarrow> mdp5_hw_pipe \<Rightarrow> bool" where
  "pipe_usable ns os plane caps cur \<longleftrightarrow> hwpipe_to_plane ns (p_idx cur) = None \<and> hwpipe_to_plane os (p_idx cur) = None
     \<and> caps AND NOT (p_caps cur) = 0 \<and> (p_caps cur AND MDP_PIPE_CAP_CURSOR \<noteq> 0 \<longrightarrow> plane_cursor plane)"

definition extra_caps :: "u32 \<Rightarrow> mdp5_hw_pipe \<Rightarrow> nat" where
  "extra_caps caps p = hweight (p_caps p AND NOT caps)"

lemma find_pipes_single:
  assumes "\<forall>h. hw = Some h \<longrightarrow> pipe_usable ns os plane caps h"
  shows "case fst (find_pipes ns os plane caps False ps hw rhw) of
      None \<Rightarrow> hw = None \<and> (\<forall>p\<in>set ps. \<not> pipe_usable ns os plane caps p)
    | Some h \<Rightarrow> pipe_usable ns os plane caps h \<and> (h \<in> set ps \<or> hw = Some h)
        \<and> (\<forall>p\<in>set ps \<union> set_option hw. pipe_usable ns os plane caps p \<longrightarrow> extra_caps caps h \<le> extra_caps caps p)"
  using assms
proof (induction ps arbitrary: hw)
  case Nil
  then show ?case by (cases hw) simp_all
next
  case (Cons p ps)
  show ?case
  proof (cases "pipe_usable ns os plane caps p \<and> (case hw of None \<Rightarrow> True | Some h \<Rightarrow> extra_caps caps p < extra_caps caps h)")
    case True
    then have step: "find_pipes ns os plane caps False (p # ps) hw rhw = find_pipes ns os plane caps False ps (Some p) rhw"
      by (cases hw) (auto simp: pipe_usable_def extra_caps_def)
    have "\<forall>h. Some p = Some h \<longrightarrow> pipe_usable ns os plane caps h" using True by simp
    from Cons.IH [OF this] True show ?thesis
      unfolding step by (auto split: option.splits)
  next
    case False
    then have step: "find_pipes ns os plane caps False (p # ps) hw rhw = find_pipes ns os plane caps False ps hw rhw"
      by (cases hw) (auto simp: pipe_usable_def extra_caps_def)
    from Cons.IH [OF Cons.prems] Cons.prems False show ?thesis
      unfolding step by (auto split: option.splits)
  qed
qed

text \<open>
  Choosing a pipe.  A successful assignment of one pipe takes a pipe that no plane uses in the
  old or the new state, that supports the required capabilities and has the fewest others, and
  records the plane for it and for no other pipe; without a usable pipe it returns \<^verbatim>\<open>-ENOMEM\<close>.
\<close>

theorem mdp5_pipe_assign_best:
  "case mdp5_pipe_assign (Inr ns) os hwpipes None plane caps blkcfg False of
      Inl err \<Rightarrow> err = - ENOMEM \<and> (\<forall>p\<in>set hwpipes. \<not> pipe_usable ns os plane caps p)
    | Inr (h, r, ns') \<Rightarrow> h \<in> set hwpipes \<and> pipe_usable ns os plane caps h \<and> r = None
        \<and> (\<forall>p\<in>set hwpipes. pipe_usable ns os plane caps p \<longrightarrow> extra_caps caps h \<le> extra_caps caps p)
        \<and> ns' = ns\<lparr>hwpipe_to_plane := (hwpipe_to_plane ns)(p_idx h \<mapsto> plane_id plane)\<rparr>"
proof -
  obtain hw rhw where f: "find_pipes ns os plane caps False hwpipes None None = (hw, rhw)"
    by (cases "find_pipes ns os plane caps False hwpipes None None")
  have "case hw of None \<Rightarrow> \<forall>p\<in>set hwpipes. \<not> pipe_usable ns os plane caps p
    | Some h \<Rightarrow> pipe_usable ns os plane caps h \<and> h \<in> set hwpipes
        \<and> (\<forall>p\<in>set hwpipes. pipe_usable ns os plane caps p \<longrightarrow> extra_caps caps h \<le> extra_caps caps p)"
    using find_pipes_single [of None ns os plane caps hwpipes None] f by (auto split: option.splits)
  then show ?thesis by (cases hw) (simp_all add: mdp5_pipe_assign_def f Let_def)
qed

definition ex_mdp5_gs :: mdp5_global_state where
  "ex_mdp5_gs = \<lparr>hwpipe_to_plane = [1 \<mapsto> 5], hwmixer_to_crtc = (\<lambda>_. None), g_smp = snd ex_pool\<rparr>"

definition ex_pipe :: "nat \<Rightarrow> mdp5_hw_pipe" where
  "ex_pipe i = \<lparr>p_idx = i, p_pipe = i + 1, p_caps = 3, p_blkcfg = 0\<rparr>"

theorem mdp5_pipe_assign_best_witness:
  "\<exists>ns'. mdp5_pipe_assign (Inr ex_mdp5_gs) ex_mdp5_gs [ex_pipe 1, ex_pipe 2] None \<lparr>plane_id = 9, plane_cursor = False\<rparr> 1 0 False
     = Inr (ex_pipe 2, None, ns')"
proof -
  have n1: "\<not> pipe_usable ex_mdp5_gs ex_mdp5_gs \<lparr>plane_id = 9, plane_cursor = False\<rparr> 1 (ex_pipe 1)"
    and u2: "pipe_usable ex_mdp5_gs ex_mdp5_gs \<lparr>plane_id = 9, plane_cursor = False\<rparr> 1 (ex_pipe 2)"
    by (simp_all add: pipe_usable_def ex_mdp5_gs_def ex_pipe_def MDP_PIPE_CAP_CURSOR_def)
  show ?thesis
    using mdp5_pipe_assign_best [where ns = ex_mdp5_gs and os = ex_mdp5_gs and hwpipes = "[ex_pipe 1, ex_pipe 2]"
        and plane = "\<lparr>plane_id = 9, plane_cursor = False\<rparr>" and caps = 1 and blkcfg = 0] n1 u2
    by (auto split: sum.splits prod.splits)
qed

text \<open>
  The right pipe is not checked for use.  When a plane asks for two pipes, the left one is free,
  but the right one is any later pipe of the same kind: if another plane owns it, the call still
  succeeds and takes it away from that plane.
\<close>

theorem mdp5_pipe_assign_steals_right:
  assumes "pipe_usable ns os plane caps l" and "p_caps r = p_caps l" and "p_pipe l \<le> p_pipe r"
    and "hwpipe_to_plane ns (p_idx r) = Some owner" and "owner \<noteq> plane_id plane" and "p_idx r \<noteq> p_idx l"
  shows "case mdp5_pipe_assign (Inr ns) os [l, r] None plane caps blkcfg True of
      Inl err \<Rightarrow> False
    | Inr (h, rh, ns') \<Rightarrow> h = l \<and> rh = Some r \<and> hwpipe_to_plane ns' (p_idx r) = Some (plane_id plane)"
  using assms by (auto simp: mdp5_pipe_assign_def pipe_usable_def find_right_def Let_def)

theorem mdp5_pipe_assign_steals_right_witness:
  "case mdp5_pipe_assign (Inr ex_mdp5_gs) ex_mdp5_gs [ex_pipe 0, ex_pipe 1] None \<lparr>plane_id = 9, plane_cursor = False\<rparr> 1 0 True of
      Inl err \<Rightarrow> False
    | Inr (h, rh, ns') \<Rightarrow> h = ex_pipe 0 \<and> rh = Some (ex_pipe 1) \<and> hwpipe_to_plane ns' 1 = Some 9"
proof -
  have "pipe_usable ex_mdp5_gs ex_mdp5_gs \<lparr>plane_id = 9, plane_cursor = False\<rparr> 1 (ex_pipe 0)" "p_caps (ex_pipe 1) = p_caps (ex_pipe 0)"
    "p_pipe (ex_pipe 0) \<le> p_pipe (ex_pipe 1)" "hwpipe_to_plane ex_mdp5_gs (p_idx (ex_pipe 1)) = Some 5"
    "5 \<noteq> plane_id \<lparr>plane_id = 9, plane_cursor = False\<rparr>" "p_idx (ex_pipe 1) \<noteq> p_idx (ex_pipe 0)"
    by (simp_all add: pipe_usable_def ex_mdp5_gs_def ex_pipe_def MDP_PIPE_CAP_CURSOR_def)
  note steals = mdp5_pipe_assign_steals_right [OF this, where blkcfg = 0]
  have idx: "p_idx (ex_pipe 1) = 1" by (simp add: ex_pipe_def)
  show ?thesis using steals unfolding idx by (auto split: sum.splits prod.splits)
qed

end
