(* ===== verification/MDP5_CTL.thy ===== *)
theory MDP5_CTL
  imports MDP5
begin

text \<open>
  The control pool of the MDP5 display engine (\<^verbatim>\<open>msm/disp/mdp5/mdp5_ctl.c\<close>): the allocation of CTLs to
  data paths, their pairing for two DSI links, the configuration of the layer mixers, and the
  flushing of double-buffered registers.

  A CTL is found by its position in the pool.  Registers have names instead of addresses;
  the state keeps their contents and the sequence of writes, since a write to a FLUSH or START register is
  an action.  \<open>None\<close> is a null pointer that is followed, or \<^verbatim>\<open>BUG()\<close>.
\<close>

section \<open>Data (mdp5_ctl.c, mdp5_kms.h)\<close>

datatype ctl_reg = DISP_INTF_SEL | SPARE_0 | CTL_LAYER nat nat | CTL_LAYER_EXT nat nat | CTL_OP nat
  | CTL_FLUSH nat | CTL_START nat

text \<open>Types of interfaces are the numbers of \<^verbatim>\<open>enum mdp5_intf_type\<close>.\<close>

datatype mdp5_intf_mode = MDP5_INTF_MODE_NONE | MDP5_INTF_DSI_MODE_VIDEO | MDP5_INTF_DSI_MODE_COMMAND
  | MDP5_INTF_WB_MODE_BLOCK | MDP5_INTF_WB_MODE_LINE

definition INTF_DSI :: nat where "INTF_DSI = 1"
definition INTF_VIRTUAL :: nat where "INTF_VIRTUAL = 100"
definition INTF_WB :: nat where "INTF_WB = 101"

record mdp5_interface =
  intf_num :: nat
  intf_ty :: nat
  intf_mode :: mdp5_intf_mode

record mdp5_pipeline =
  pl_intf :: mdp5_interface
  pl_mixer :: "mdp5_hw_mixer option"
  pl_r_mixer :: "mdp5_hw_mixer option"

definition CTL_STAT_BUSY :: u32 where "CTL_STAT_BUSY = 1"
definition CTL_STAT_BOOKED :: u32 where "CTL_STAT_BOOKED = 2"

record mdp5_ctl =
  ctl_id :: nat
  ctl_status :: u32
  encoder_enabled :: bool
  saved_mask :: u32
  pending_ctl_trigger :: u32
  cursor_on :: bool
  flush_pending :: bool
  ctl_pair :: "nat option"

record mdp5_ctl_manager =
  nlm :: nat
  nctl :: nat
  flush_hw_mask :: u32
  single_flush_supported :: bool
  single_flush_pending_mask :: u32
  ctls :: "mdp5_ctl list"
  regs :: "ctl_reg \<Rightarrow> u32"
  wrs :: "(ctl_reg \<times> u32) list"

definition upd_ctl :: "nat \<Rightarrow> (mdp5_ctl \<Rightarrow> mdp5_ctl) \<Rightarrow> mdp5_ctl_manager \<Rightarrow> mdp5_ctl_manager" where
  "upd_ctl c f m = m\<lparr>ctls := (ctls m)[c := f (ctls m ! c)]\<rparr>"

definition ctl_write :: "ctl_reg \<Rightarrow> u32 \<Rightarrow> mdp5_ctl_manager \<Rightarrow> mdp5_ctl_manager" where
  "ctl_write r v m = m\<lparr>regs := (regs m)(r := v), wrs := wrs m @ [(r, v)]\<rparr>"

definition ctl_read :: "ctl_reg \<Rightarrow> mdp5_ctl_manager \<Rightarrow> u32" where
  "ctl_read r m = regs m r"

text \<open>A value shifted into the field of a register.\<close>

definition reg_field :: "u32 \<Rightarrow> nat \<Rightarrow> u32 \<Rightarrow> u32" where
  "reg_field msk sh v = push_bit sh v AND msk"

section \<open>The pipeline of a CTL (mdp5_ctl.c)\<close>

definition intf_is_virtual :: "nat \<Rightarrow> bool" where
  "intf_is_virtual ty = (ty \<ge> INTF_VIRTUAL)"

definition set_display_intf :: "mdp5_interface \<Rightarrow> mdp5_ctl_manager \<Rightarrow> mdp5_ctl_manager option" where
  "set_display_intf intf m =
     (if intf_num intf \<le> 3
      then let sh = 8 * intf_num intf; msk = push_bit sh 0xff;
               sel = (ctl_read DISP_INTF_SEL m AND NOT msk) OR reg_field msk sh (of_nat (intf_ty intf))
           in Some (ctl_write DISP_INTF_SEL sel m)
      else None)"

definition set_ctl_op :: "nat \<Rightarrow> mdp5_pipeline \<Rightarrow> mdp5_ctl_manager \<Rightarrow> mdp5_ctl_manager" where
  "set_ctl_op c pl m =
     (let intf = pl_intf pl;
          op = (if \<not> intf_is_virtual (intf_ty intf) then reg_field 0x70 4 (of_nat (1 + intf_num intf)) else 0);
          op = (if intf_ty intf = INTF_DSI
                then (if intf_mode intf = MDP5_INTF_DSI_MODE_COMMAND then op OR 0x00020000 else op)
                else if intf_ty intf = INTF_WB
                then (if intf_mode intf = MDP5_INTF_WB_MODE_LINE then op OR reg_field 0xf 0 5 else op)
                else op);
          op = (if pl_r_mixer pl \<noteq> None then op OR 0x00080000 OR reg_field 0x00300000 20 1 else op)
      in ctl_write (CTL_OP (ctl_id (ctls m ! c))) op m)"

definition mdp5_ctl_set_pipeline :: "nat \<Rightarrow> mdp5_pipeline \<Rightarrow> mdp5_ctl_manager \<Rightarrow> mdp5_ctl_manager option" where
  "mdp5_ctl_set_pipeline c pl m =
     map_option (set_ctl_op c pl)
       (if \<not> intf_is_virtual (intf_ty (pl_intf pl)) then set_display_intf (pl_intf pl) m else Some m)"

definition start_signal_needed :: "nat \<Rightarrow> mdp5_pipeline \<Rightarrow> mdp5_ctl_manager \<Rightarrow> bool" where
  "start_signal_needed c pl m =
     (if \<not> encoder_enabled (ctls m ! c) then False
      else if intf_ty (pl_intf pl) = INTF_WB then True
      else if intf_ty (pl_intf pl) = INTF_DSI then intf_mode (pl_intf pl) = MDP5_INTF_DSI_MODE_COMMAND
      else False)"

definition send_start_signal :: "nat \<Rightarrow> mdp5_ctl_manager \<Rightarrow> mdp5_ctl_manager" where
  "send_start_signal c m = ctl_write (CTL_START (ctl_id (ctls m ! c))) 1 m"

definition mdp5_ctl_set_encoder_state ::
  "nat option \<Rightarrow> mdp5_pipeline \<Rightarrow> bool \<Rightarrow> mdp5_ctl_manager \<Rightarrow> int \<times> mdp5_ctl_manager" where
  "mdp5_ctl_set_encoder_state ctl pl enabled m =
     (case ctl of
        None \<Rightarrow> (- EINVAL, m)
      | Some c \<Rightarrow>
          let m = upd_ctl c (\<lambda>x. x\<lparr>encoder_enabled := enabled\<rparr>) m
          in (0, if start_signal_needed c pl m then send_start_signal c m else m))"

section \<open>Flush masks (mdp5_ctl.c)\<close>

definition MDP5_CTL_FLUSH_WB :: u32 where "MDP5_CTL_FLUSH_WB = 0x00010000"
definition MDP5_CTL_FLUSH_CTL :: u32 where "MDP5_CTL_FLUSH_CTL = 0x00020000"
definition MDP5_CTL_FLUSH_CURSOR_0 :: u32 where "MDP5_CTL_FLUSH_CURSOR_0 = 0x00400000"
definition MDP5_CTL_FLUSH_CURSOR_1 :: u32 where "MDP5_CTL_FLUSH_CURSOR_1 = 0x00800000"

definition mdp_ctl_flush_mask_encoder :: "mdp5_interface \<Rightarrow> u32" where
  "mdp_ctl_flush_mask_encoder intf =
     (if intf_ty intf = INTF_WB then MDP5_CTL_FLUSH_WB
      else if intf_num intf = 0 then 0x80000000
      else if intf_num intf = 1 then 0x40000000
      else if intf_num intf = 2 then 0x20000000
      else if intf_num intf = 3 then 0x10000000
      else 0)"

definition mdp_ctl_flush_mask_cursor :: "int \<Rightarrow> u32" where
  "mdp_ctl_flush_mask_cursor i =
     (if i = 0 then MDP5_CTL_FLUSH_CURSOR_0 else if i = 1 then MDP5_CTL_FLUSH_CURSOR_1 else 0)"

definition mdp_ctl_flush_mask_pipe :: "nat \<Rightarrow> u32" where
  "mdp_ctl_flush_mask_pipe pipe =
     (if pipe = 1 then 0x1 else if pipe = 2 then 0x2 else if pipe = 3 then 0x4
      else if pipe = 4 then 0x8 else if pipe = 5 then 0x10 else if pipe = 6 then 0x20
      else if pipe = 7 then 0x800 else if pipe = 8 then 0x1000
      else if pipe = 9 then 0x40000 else if pipe = 10 then 0x80000
      else if pipe = 11 then MDP5_CTL_FLUSH_CURSOR_0 else if pipe = 12 then MDP5_CTL_FLUSH_CURSOR_1
      else 0)"

definition mdp_ctl_flush_mask_lm :: "nat \<Rightarrow> u32" where
  "mdp_ctl_flush_mask_lm lm =
     (if lm = 0 then 0x40 else if lm = 1 then 0x80 else if lm = 2 then 0x100
      else if lm = 3 then 0x200 else if lm = 4 then 0x400 else if lm = 5 then 0x100000 else 0)"

section \<open>The layer mixers (mdp5_ctl.c)\<close>

definition CTL_LAYER_CURSOR_OUT :: u32 where "CTL_LAYER_CURSOR_OUT = 0x02000000"
definition CTL_LAYER_BORDER_COLOR :: u32 where "CTL_LAYER_BORDER_COLOR = 0x01000000"

definition mdp5_ctl_set_cursor ::
  "nat \<Rightarrow> mdp5_pipeline \<Rightarrow> int \<Rightarrow> bool \<Rightarrow> mdp5_ctl_manager \<Rightarrow> int \<times> mdp5_ctl_manager" where
  "mdp5_ctl_set_cursor c pl cursor_id enable m =
     (case pl_mixer pl of
        None \<Rightarrow> (- EINVAL, m)
      | Some mixer \<Rightarrow>
          if pl_r_mixer pl \<noteq> None then (- EINVAL, m)
          else let r = CTL_LAYER (ctl_id (ctls m ! c)) (m_lm mixer);
                   cfg = ctl_read r m;
                   cfg = (if enable then cfg OR CTL_LAYER_CURSOR_OUT else cfg AND NOT CTL_LAYER_CURSOR_OUT);
                   m = ctl_write r cfg m
               in (0, upd_ctl c (\<lambda>x. x\<lparr>cursor_on := enable,
                         pending_ctl_trigger := mdp_ctl_flush_mask_cursor cursor_id\<rparr>) m))"

text \<open>The field of a pipe in a layer register: 3 bits in the register, the fourth in the extension.\<close>

definition mdp_ctl_blend_mask :: "nat \<Rightarrow> nat \<Rightarrow> u32" where
  "mdp_ctl_blend_mask pipe stage =
     (let s = of_nat stage
      in if pipe = 1 then reg_field 0x00000007 0 s
         else if pipe = 2 then reg_field 0x00000038 3 s
         else if pipe = 3 then reg_field 0x000001c0 6 s
         else if pipe = 4 then reg_field 0x00000e00 9 s
         else if pipe = 5 then reg_field 0x00007000 12 s
         else if pipe = 6 then reg_field 0x00038000 15 s
         else if pipe = 7 then reg_field 0x001c0000 18 s
         else if pipe = 8 then reg_field 0x00e00000 21 s
         else if pipe = 9 then reg_field 0x1c000000 26 s
         else if pipe = 10 then reg_field 0xe0000000 29 s
         else 0)"

definition STAGE6 :: nat where "STAGE6 = 8"
definition STAGE_MAX :: nat where "STAGE_MAX = 8"

definition mdp_ctl_blend_ext_mask :: "nat \<Rightarrow> nat \<Rightarrow> u32" where
  "mdp_ctl_blend_ext_mask pipe stage =
     (if stage < STAGE6 \<and> pipe \<noteq> 11 \<and> pipe \<noteq> 12 then 0
      else if pipe = 1 then 0x00000001
      else if pipe = 2 then 0x00000004
      else if pipe = 3 then 0x00000010
      else if pipe = 4 then 0x00000100
      else if pipe = 5 then 0x00000400
      else if pipe = 6 then 0x00001000
      else if pipe = 7 then 0x00010000
      else if pipe = 8 then 0x00040000
      else if pipe = 9 then 0x00000040
      else if pipe = 10 then 0x00004000
      else if pipe = 11 then reg_field 0x00f00000 20 (of_nat stage)
      else if pipe = 12 then reg_field 0x3c000000 26 (of_nat stage)
      else 0)"

definition mdp5_ctl_reset_blend_regs :: "nat \<Rightarrow> mdp5_ctl_manager \<Rightarrow> mdp5_ctl_manager" where
  "mdp5_ctl_reset_blend_regs c m =
     fold (\<lambda>i m. ctl_write (CTL_LAYER_EXT (ctl_id (ctls m ! c)) i) 0 (ctl_write (CTL_LAYER (ctl_id (ctls m ! c)) i) 0 m))
       [0..<nlm m] m"

text \<open>
  The loop over the stages of one mixer: what it ors into the two registers.  \<open>stage\<close> gives the left and
  the right pipe of each stage.
\<close>

definition blend_cfg :: "(nat \<Rightarrow> nat \<Rightarrow> u32) \<Rightarrow> (nat \<Rightarrow> nat \<times> nat) \<Rightarrow> nat list \<Rightarrow> u32 \<Rightarrow> u32" where
  "blend_cfg msk stage is cfg = fold (\<lambda>i cfg. cfg OR (msk (fst (stage i)) i OR msk (snd (stage i)) i)) is cfg"

definition mdp5_ctl_blend ::
  "nat \<Rightarrow> mdp5_pipeline \<Rightarrow> (nat \<Rightarrow> nat \<times> nat) \<Rightarrow> (nat \<Rightarrow> nat \<times> nat) \<Rightarrow> u32 \<Rightarrow> u32 \<Rightarrow> mdp5_ctl_manager \<Rightarrow>
   mdp5_ctl_manager option" where
  "mdp5_ctl_blend c pl stage r_stage stage_cnt op_flags m =
     (let m = mdp5_ctl_reset_blend_regs c m;
          border = (op_flags AND 1 \<noteq> 0);
          is = (if stage_cnt = 0 then [] else [(if border then 2 else 1)..<Suc STAGE_MAX]);
          start = (if border then CTL_LAYER_BORDER_COLOR else 0);
          cfg = blend_cfg mdp_ctl_blend_mask stage is start;
          ext_cfg = blend_cfg mdp_ctl_blend_ext_mask stage is 0;
          cfg = (if cursor_on (ctls m ! c) then cfg OR CTL_LAYER_CURSOR_OUT else cfg);
          cid = ctl_id (ctls m ! c)
      in case pl_mixer pl of
        None \<Rightarrow> None
      | Some mixer \<Rightarrow>
          let m = ctl_write (CTL_LAYER_EXT cid (m_lm mixer)) ext_cfg (ctl_write (CTL_LAYER cid (m_lm mixer)) cfg m);
              trigger = mdp_ctl_flush_mask_lm (m_lm mixer)
          in (case pl_r_mixer pl of
                None \<Rightarrow> Some (upd_ctl c (\<lambda>x. x\<lparr>pending_ctl_trigger := trigger\<rparr>) m)
              | Some r_mixer \<Rightarrow>
                  let r_cfg = blend_cfg mdp_ctl_blend_mask r_stage is start;
                      r_ext_cfg = blend_cfg mdp_ctl_blend_ext_mask r_stage is 0;
                      m = ctl_write (CTL_LAYER_EXT cid (m_lm r_mixer)) r_ext_cfg
                            (ctl_write (CTL_LAYER cid (m_lm r_mixer)) r_cfg m);
                      trigger = trigger OR mdp_ctl_flush_mask_lm (m_lm r_mixer)
                  in Some (upd_ctl c (\<lambda>x. x\<lparr>pending_ctl_trigger := trigger\<rparr>) m)))"

section \<open>Flushing (mdp5_ctl.c)\<close>

definition fix_sw_flush :: "mdp5_pipeline \<Rightarrow> u32 \<Rightarrow> mdp5_ctl_manager \<Rightarrow> u32 option" where
  "fix_sw_flush pl fmask m =
     (if flush_hw_mask m AND MDP5_CTL_FLUSH_CURSOR_0 = 0 \<and> fmask AND MDP5_CTL_FLUSH_CURSOR_0 \<noteq> 0
      then map_option (\<lambda>mixer. mdp_ctl_flush_mask_lm (m_lm mixer)) (pl_mixer pl)
      else Some 0)"

definition fix_for_single_flush ::
  "nat \<Rightarrow> u32 \<Rightarrow> nat \<Rightarrow> mdp5_ctl_manager \<Rightarrow> u32 \<times> nat \<times> mdp5_ctl_manager" where
  "fix_for_single_flush c fmask fid m =
     (case ctl_pair (ctls m ! c) of
        None \<Rightarrow> (fmask, fid, m)
      | Some p \<Rightarrow>
          let m = upd_ctl c (\<lambda>x. x\<lparr>flush_pending := True\<rparr>) m;
              m = m\<lparr>single_flush_pending_mask := single_flush_pending_mask m OR fmask\<rparr>
          in if flush_pending (ctls m ! p)
             then (single_flush_pending_mask m, min (ctl_id (ctls m ! c)) (ctl_id (ctls m ! p)),
                   (upd_ctl p (\<lambda>x. x\<lparr>flush_pending := False\<rparr>) (upd_ctl c (\<lambda>x. x\<lparr>flush_pending := False\<rparr>) m))
                     \<lparr>single_flush_pending_mask := 0\<rparr>)
             else (0, fid, m))"

text \<open>The mask that is flushed for a request: with the CTL bit when a trigger is pending, and what the hardware has.\<close>

definition mdp5_ctl_commit ::
  "nat \<Rightarrow> mdp5_pipeline \<Rightarrow> u32 \<Rightarrow> bool \<Rightarrow> mdp5_ctl_manager \<Rightarrow> (u32 \<times> mdp5_ctl_manager) option" where
  "mdp5_ctl_commit c pl fmask start m =
     (let trig = (pending_ctl_trigger (ctls m ! c) AND fmask \<noteq> 0);
          fmask = (if trig then fmask OR MDP5_CTL_FLUSH_CTL else fmask);
          m = (if trig then upd_ctl c (\<lambda>x. x\<lparr>pending_ctl_trigger := 0\<rparr>) m else m)
      in case fix_sw_flush pl fmask m of
        None \<Rightarrow> None
      | Some sw \<Rightarrow>
          let curr = (fmask OR sw) AND flush_hw_mask m
          in (case fix_for_single_flush c curr (ctl_id (ctls m ! c)) m of
            (fmask, fid, m) \<Rightarrow>
              if \<not> start
              then Some (curr, upd_ctl c (\<lambda>x. x\<lparr>saved_mask := saved_mask x OR fmask\<rparr>) m)
              else let fmask = fmask OR saved_mask (ctls m ! c);
                       m = upd_ctl c (\<lambda>x. x\<lparr>saved_mask := 0\<rparr>) m;
                       m = (if fmask \<noteq> 0 then ctl_write (CTL_FLUSH fid) fmask m else m)
                   in Some (curr, if start_signal_needed c pl m then send_start_signal c m else m)))"

definition mdp5_ctl_get_commit_status :: "nat \<Rightarrow> mdp5_ctl_manager \<Rightarrow> u32" where
  "mdp5_ctl_get_commit_status c m = ctl_read (CTL_FLUSH (ctl_id (ctls m ! c))) m"

definition mdp5_ctl_get_ctl_id :: "nat option \<Rightarrow> mdp5_ctl_manager \<Rightarrow> int" where
  "mdp5_ctl_get_ctl_id ctl m = (case ctl of None \<Rightarrow> - EINVAL | Some c \<Rightarrow> int (ctl_id (ctls m ! c)))"

section \<open>The pool (mdp5_ctl.c)\<close>

definition mdp5_ctl_pair :: "nat \<Rightarrow> nat \<Rightarrow> bool \<Rightarrow> mdp5_ctl_manager \<Rightarrow> int \<times> mdp5_ctl_manager" where
  "mdp5_ctl_pair x y enable m =
     (if \<not> single_flush_supported m then (0, m)
      else if \<not> enable
      then (0, ctl_write SPARE_0 0 (upd_ctl y (\<lambda>c. c\<lparr>ctl_pair := None\<rparr>) (upd_ctl x (\<lambda>c. c\<lparr>ctl_pair := None\<rparr>) m)))
      else if ctl_pair (ctls m ! x) \<noteq> None \<or> ctl_pair (ctls m ! y) \<noteq> None then (- EINVAL, m)
      else if ctl_status (ctls m ! x) AND ctl_status (ctls m ! y) AND CTL_STAT_BOOKED = 0 then (- EINVAL, m)
      else (0, ctl_write SPARE_0 1
             (upd_ctl y (\<lambda>c. c\<lparr>ctl_pair := Some x\<rparr>) (upd_ctl x (\<lambda>c. c\<lparr>ctl_pair := Some y\<rparr>) m))))"

text \<open>A search of the pool for a CTL with the given status.\<close>

definition find_ctl :: "u32 \<Rightarrow> mdp5_ctl_manager \<Rightarrow> nat option" where
  "find_ctl match m =
     find (\<lambda>c. ctl_status (ctls m ! c) AND (CTL_STAT_BUSY OR CTL_STAT_BOOKED) = match) [0..<nctl m]"

definition mdp5_ctlm_request :: "int \<Rightarrow> mdp5_ctl_manager \<Rightarrow> nat option \<times> mdp5_ctl_manager" where
  "mdp5_ctlm_request intf m =
     (let match = (if intf = 1 \<or> intf = 2 then CTL_STAT_BOOKED else 0)
      in case (case find_ctl match m of Some c \<Rightarrow> Some c | None \<Rightarrow> find_ctl (match XOR CTL_STAT_BOOKED) m) of
        None \<Rightarrow> (None, m)
      | Some c \<Rightarrow>
          (Some c, upd_ctl c (\<lambda>x. x\<lparr>ctl_status := ctl_status x OR CTL_STAT_BUSY, pending_ctl_trigger := 0\<rparr>) m))"

definition mdp5_ctlm_hw_reset :: "mdp5_ctl_manager \<Rightarrow> mdp5_ctl_manager" where
  "mdp5_ctlm_hw_reset m = fold (\<lambda>c m. ctl_write (CTL_OP (ctl_id (ctls m ! c))) 0 m) [0..<nctl m] m"

definition MAX_CTL :: nat where "MAX_CTL = 8"

definition zero_ctl :: mdp5_ctl where
  "zero_ctl = \<lparr>ctl_id = 0, ctl_status = 0, encoder_enabled = False, saved_mask = 0, pending_ctl_trigger = 0,
     cursor_on = False, flush_pending = False, ctl_pair = None\<rparr>"

text \<open>
  \<open>kz\<close>: the allocation of the manager succeeds; \<open>lms\<close>, \<open>base\<close>, \<open>hw_mask\<close> and \<open>connect\<close> come from the
  hardware configuration, \<open>hw\<close> are the contents of the registers.
\<close>

definition mdp5_ctlm_init ::
  "bool \<Rightarrow> nat \<Rightarrow> u32 list \<Rightarrow> u32 \<Rightarrow> nat list \<Rightarrow> int \<Rightarrow> (ctl_reg \<Rightarrow> u32) \<Rightarrow> int + mdp5_ctl_manager" where
  "mdp5_ctlm_init kz lms base hw_mask connect hw_rev hw =
     (if \<not> kz then Inl (- ENOMEM)
      else if length base > MAX_CTL then Inl (- ENOSPC)
      else if 0 \<in> set base then Inl (- EINVAL)
      else let n = length base;
               cs = map (\<lambda>i. if i < n then zero_ctl\<lparr>ctl_id := i\<rparr> else zero_ctl) [0..<MAX_CTL];
               single = (hw_rev \<ge> 3 \<and> length (filter (\<lambda>t. t = INTF_DSI) connect) > 1);
               cs = (if single then cs[0 := (cs ! 0)\<lparr>ctl_status := ctl_status (cs ! 0) OR CTL_STAT_BOOKED\<rparr>,
                       1 := (cs ! 1)\<lparr>ctl_status := ctl_status (cs ! 1) OR CTL_STAT_BOOKED\<rparr>] else cs)
           in Inr \<lparr>nlm = lms, nctl = n, flush_hw_mask = hw_mask, single_flush_supported = single,
                single_flush_pending_mask = 0, ctls = cs, regs = hw, wrs = []\<rparr>)"

end
