(* ===== verification/MDP5_CTL_Correct.thy ===== *)
theory MDP5_CTL_Correct
  imports MDP5_CTL
begin

text \<open>
  Correctness of the MDP5 control pool: the layer registers say for every pipe the stage it was given,
  requests hand out free CTLs of the preferred kind, the pool stays well formed, and commits reach the
  FLUSH registers: at once, when started later, or together with the commit of the paired CTL.
\<close>

section \<open>Blending\<close>

text \<open>The fields of the layer registers: position of a pipe's 3 bits, and the mask of its fourth bit.\<close>

definition layer_shift :: "nat \<Rightarrow> nat" where
  "layer_shift p = (if p \<le> 8 then 3 * (p - 1) else if p = 9 then 26 else 29)"

definition ext_bit :: "nat \<Rightarrow> u32" where
  "ext_bit p = (if p \<le> 3 then BIT32 (2 * (p - 1)) else if p = 9 then BIT32 6 else if p \<le> 6 then BIT32 (2 * p)
     else if p = 10 then BIT32 14 else BIT32 (2 * p + 2))"

definition decode_stage :: "nat \<Rightarrow> u32 \<Rightarrow> u32 \<Rightarrow> nat" where
  "decode_stage p layer ext =
     (if p = 11 then unat (drop_bit 20 ext AND 15)
      else if p = 12 then unat (drop_bit 26 ext AND 15)
      else unat (drop_bit (layer_shift p) layer AND 7) + (if ext AND ext_bit p \<noteq> 0 then 8 else 0))"

text \<open>The stage a pipe is at, among the stages \<open>is\<close>.\<close>

definition stage_of :: "(nat \<Rightarrow> nat \<times> nat) \<Rightarrow> nat list \<Rightarrow> nat \<Rightarrow> nat option" where
  "stage_of stage is p = find (\<lambda>i. fst (stage i) = p \<or> snd (stage i) = p) is"

lemma and_or_distrib: "((a :: u32) OR b) AND f = (a AND f) OR (b AND f)"
  by (simp add: bit.conj_disj_distrib2)

lemma blend_cfg_field:
  assumes "\<And>q i. q \<noteq> p \<Longrightarrow> msk q i AND f = 0"
    and "\<forall>i \<in> set is. \<forall>j \<in> set is. (fst (stage i) = p \<or> snd (stage i) = p) \<and> (fst (stage j) = p \<or> snd (stage j) = p) \<longrightarrow> i = j"
  shows "blend_cfg msk stage is cfg AND f =
    (cfg AND f) OR (case stage_of stage is p of None \<Rightarrow> 0 | Some i \<Rightarrow> msk p i AND f)"
  using assms(2)
proof (induction "is" arbitrary: cfg)
  case Nil
  then show ?case by (simp add: blend_cfg_def stage_of_def)
next
  case (Cons i "is")
  let ?c = "cfg OR (msk (fst (stage i)) i OR msk (snd (stage i)) i)"
  have IH: "blend_cfg msk stage is ?c AND f = (?c AND f) OR (case stage_of stage is p of None \<Rightarrow> 0 | Some i \<Rightarrow> msk p i AND f)"
    by (rule Cons.IH) (use Cons.prems in auto)
  have c: "?c AND f = (cfg AND f) OR (if fst (stage i) = p \<or> snd (stage i) = p then msk p i AND f else 0)"
    by (cases "fst (stage i) = p"; cases "snd (stage i) = p") (use assms(1) in \<open>simp_all add: and_or_distrib\<close>)
  have same: "j = i" if "stage_of stage is p = Some j" "fst (stage i) = p \<or> snd (stage i) = p" for j
    using that Cons.prems by (auto simp: stage_of_def dest!: find_SomeD)
  have "blend_cfg msk stage (i # is) cfg = blend_cfg msk stage is ?c" by (simp add: blend_cfg_def)
  with IH c same show ?case
    by (auto simp: stage_of_def or.assoc split: option.splits)
qed

text \<open>Every pipe has its own field.\<close>

lemma pipe_cases:
  assumes "p \<in> {1..12 :: nat}"
  obtains "p = 1" | "p = 2" | "p = 3" | "p = 4" | "p = 5" | "p = 6" | "p = 7" | "p = 8" | "p = 9" | "p = 10" | "p = 11" | "p = 12"
  using assms by (auto simp: numeral_eq_Suc le_Suc_eq)

definition layer_field :: "nat \<Rightarrow> u32" where
  "layer_field p = (if p = 11 \<or> p = 12 then 0 else push_bit (layer_shift p) 7)"

definition ext_field :: "nat \<Rightarrow> u32" where
  "ext_field p = (if p = 11 then 0x00f00000 else if p = 12 then 0x3c000000 else ext_bit p)"

lemma mask_fields:
  assumes "p \<in> {1..12}" "q \<noteq> p"
  shows "mdp_ctl_blend_mask q i AND layer_field p = 0"
  using assms(1)
  by (rule pipe_cases; use assms in \<open>simp add: mdp_ctl_blend_mask_def layer_field_def layer_shift_def reg_field_def Let_def and.assoc\<close>)

lemma ext_mask_fields:
  assumes "p \<in> {1..12}" "q \<noteq> p"
  shows "mdp_ctl_blend_ext_mask q i AND ext_field p = 0"
  using assms(1)
  by (rule pipe_cases; use assms in \<open>simp add: mdp_ctl_blend_ext_mask_def ext_field_def ext_bit_def BIT32_def reg_field_def Let_def and.assoc\<close>)

lemma decode_fields:
  assumes "p \<in> {1..12}"
  shows "decode_stage p l e = decode_stage p (l AND layer_field p) (e AND ext_field p)"
  using assms
  by (rule pipe_cases; simp add: decode_stage_def layer_field_def layer_shift_def ext_field_def ext_bit_def BIT32_def
      drop_bit_and and.assoc)

lemma decode_own:
  assumes "p \<in> {1..12}" "i \<in> {1..8}"
  shows "decode_stage p (mdp_ctl_blend_mask p i) (mdp_ctl_blend_ext_mask p i) = i"
proof -
  have "\<forall>p \<in> set [1..<13]. \<forall>i \<in> set [1..<9]. decode_stage p (mdp_ctl_blend_mask p i) (mdp_ctl_blend_ext_mask p i) = i"
    by code_simp
  with assms show ?thesis by auto
qed

text \<open>One mixer: what the two registers hold decodes to the stage of each pipe, or to 0.\<close>

lemma one_stage:
  assumes "stage_of stage is p = Some i"
  shows "i \<in> set is" "fst (stage i) = p \<or> snd (stage i) = p"
  using assms by (auto simp: stage_of_def find_Some_iff in_set_conv_nth)

abbreviation once :: "(nat \<Rightarrow> nat \<times> nat) \<Rightarrow> nat list \<Rightarrow> bool" where
  "once stage is \<equiv> (\<forall>p \<in> {1..12}. \<forall>i \<in> set is. \<forall>j \<in> set is.
     (fst (stage i) = p \<or> snd (stage i) = p) \<and> (fst (stage j) = p \<or> snd (stage j) = p) \<longrightarrow> i = j)"

definition out_bits :: "u32 set" where
  "out_bits = {0, CTL_LAYER_BORDER_COLOR, CTL_LAYER_CURSOR_OUT, CTL_LAYER_BORDER_COLOR OR CTL_LAYER_CURSOR_OUT}"

lemma out_bits_fields:
  assumes "p \<in> {1..12}" "b \<in> out_bits"
  shows "b AND layer_field p = 0"
  using assms(1)
  by (rule pipe_cases; use assms(2) in \<open>auto simp: out_bits_def layer_field_def layer_shift_def
      CTL_LAYER_BORDER_COLOR_def CTL_LAYER_CURSOR_OUT_def\<close>)

lemma decode_blend:
  assumes p: "p \<in> {1..12}" and once: "once stage is" and iset: "set is \<subseteq> {1..8}" and b: "b \<in> out_bits"
    and l: "l AND layer_field p = blend_cfg mdp_ctl_blend_mask stage is b AND layer_field p"
  shows "decode_stage p l (blend_cfg mdp_ctl_blend_ext_mask stage is 0) = (case stage_of stage is p of None \<Rightarrow> 0 | Some i \<Rightarrow> i)"
proof -
  let ?e = "blend_cfg mdp_ctl_blend_ext_mask stage is 0"
  have e: "?e AND ext_field p = (case stage_of stage is p of None \<Rightarrow> 0 | Some i \<Rightarrow> mdp_ctl_blend_ext_mask p i AND ext_field p)"
    using p once by (subst blend_cfg_field) (auto simp: ext_mask_fields)
  have l': "l AND layer_field p = (case stage_of stage is p of None \<Rightarrow> 0 | Some i \<Rightarrow> mdp_ctl_blend_mask p i AND layer_field p)"
    unfolding l using p once out_bits_fields [OF p b] by (subst blend_cfg_field) (auto simp: mask_fields)
  show ?thesis
  proof (cases "stage_of stage is p")
    case None
    with e l' have "decode_stage p l ?e = decode_stage p 0 0"
      by (subst decode_fields [OF p]) simp
    then show ?thesis using None by (simp add: decode_stage_def)
  next
    case (Some i)
    with one_stage(1) [of stage "is" p i] iset have i: "i \<in> {1..8}" by auto
    have "decode_stage p l ?e = decode_stage p (mdp_ctl_blend_mask p i AND layer_field p) (mdp_ctl_blend_ext_mask p i AND ext_field p)"
      using e l' Some by (subst decode_fields [OF p]) simp
    also have "\<dots> = i" unfolding decode_fields [OF p, symmetric] by (rule decode_own [OF p i])
    finally show ?thesis using Some by simp
  qed
qed

text \<open>Writing registers.\<close>

lemma ctl_write_simps [simp]:
  "ctls (ctl_write r v m) = ctls m" "nctl (ctl_write r v m) = nctl m" "nlm (ctl_write r v m) = nlm m"
  "flush_hw_mask (ctl_write r v m) = flush_hw_mask m" "single_flush_supported (ctl_write r v m) = single_flush_supported m"
  "single_flush_pending_mask (ctl_write r v m) = single_flush_pending_mask m"
  "regs (ctl_write r v m) = (regs m)(r := v)" "wrs (ctl_write r v m) = wrs m @ [(r, v)]"
  by (simp_all add: ctl_write_def)

lemma upd_ctl_simps [simp]:
  "ctls (upd_ctl c f m) = (ctls m)[c := f (ctls m ! c)]" "nctl (upd_ctl c f m) = nctl m" "nlm (upd_ctl c f m) = nlm m"
  "flush_hw_mask (upd_ctl c f m) = flush_hw_mask m" "single_flush_supported (upd_ctl c f m) = single_flush_supported m"
  "single_flush_pending_mask (upd_ctl c f m) = single_flush_pending_mask m"
  "regs (upd_ctl c f m) = regs m" "wrs (upd_ctl c f m) = wrs m"
  by (simp_all add: upd_ctl_def)

lemma reset_blend_ctls [simp]: "ctls (mdp5_ctl_reset_blend_regs c m) = ctls m" "nlm (mdp5_ctl_reset_blend_regs c m) = nlm m"
proof -
  have "ctls (fold (\<lambda>i m. ctl_write (CTL_LAYER_EXT (ctl_id (ctls m ! c)) i) 0 (ctl_write (CTL_LAYER (ctl_id (ctls m ! c)) i) 0 m)) is m) = ctls m
    \<and> nlm (fold (\<lambda>i m. ctl_write (CTL_LAYER_EXT (ctl_id (ctls m ! c)) i) 0 (ctl_write (CTL_LAYER (ctl_id (ctls m ! c)) i) 0 m)) is m) = nlm m" for "is"
    by (induction "is" arbitrary: m) simp_all
  then show "ctls (mdp5_ctl_reset_blend_regs c m) = ctls m" "nlm (mdp5_ctl_reset_blend_regs c m) = nlm m"
    by (simp_all add: mdp5_ctl_reset_blend_regs_def)
qed

lemma reset_blend_regs:
  "regs (mdp5_ctl_reset_blend_regs c m) r =
    (if \<exists>i < nlm m. r = CTL_LAYER (ctl_id (ctls m ! c)) i \<or> r = CTL_LAYER_EXT (ctl_id (ctls m ! c)) i then 0 else regs m r)"
proof -
  let ?w = "\<lambda>i m. ctl_write (CTL_LAYER_EXT (ctl_id (ctls m ! c)) i) 0 (ctl_write (CTL_LAYER (ctl_id (ctls m ! c)) i) 0 m)"
  have "regs (fold ?w is m) r =
      (if \<exists>i \<in> set is. r = CTL_LAYER (ctl_id (ctls m ! c)) i \<or> r = CTL_LAYER_EXT (ctl_id (ctls m ! c)) i then 0 else regs m r)" for "is"
    by (induction "is" arbitrary: m) auto
  from this [of "[0..<nlm m]"] show ?thesis by (auto simp: mdp5_ctl_reset_blend_regs_def)
qed

text \<open>What the registers of the mixers of a CTL hold after a blend.\<close>

abbreviation blend_stages :: "u32 \<Rightarrow> nat list" where
  "blend_stages flags \<equiv> [(if flags AND 1 \<noteq> 0 then 2 else 1)..<9]"

lemma mdp5_ctl_blend_regs:
  fixes flags :: u32
  defines "b \<equiv> if flags AND 1 \<noteq> 0 then CTL_LAYER_BORDER_COLOR else 0"
  assumes "mdp5_ctl_blend c pl stage r_stage cnt flags m = Some m'" "cnt \<noteq> 0" "pl_mixer pl = Some mx"
    and "\<forall>rx. pl_r_mixer pl = Some rx \<longrightarrow> m_lm rx \<noteq> m_lm mx"
  shows "regs m' (CTL_LAYER (ctl_id (ctls m ! c)) (m_lm mx)) =
      (if cursor_on (ctls m ! c) then blend_cfg mdp_ctl_blend_mask stage (blend_stages flags) b OR CTL_LAYER_CURSOR_OUT
       else blend_cfg mdp_ctl_blend_mask stage (blend_stages flags) b)"
    and "regs m' (CTL_LAYER_EXT (ctl_id (ctls m ! c)) (m_lm mx)) = blend_cfg mdp_ctl_blend_ext_mask stage (blend_stages flags) 0"
    and "pl_r_mixer pl = Some rx \<Longrightarrow> regs m' (CTL_LAYER (ctl_id (ctls m ! c)) (m_lm rx)) =
      blend_cfg mdp_ctl_blend_mask r_stage (blend_stages flags) b"
    and "pl_r_mixer pl = Some rx \<Longrightarrow> regs m' (CTL_LAYER_EXT (ctl_id (ctls m ! c)) (m_lm rx)) =
      blend_cfg mdp_ctl_blend_ext_mask r_stage (blend_stages flags) 0"
    and "\<lbrakk>lm < nlm m; lm \<noteq> m_lm mx; \<forall>rx. pl_r_mixer pl = Some rx \<longrightarrow> lm \<noteq> m_lm rx\<rbrakk> \<Longrightarrow>
      regs m' (CTL_LAYER (ctl_id (ctls m ! c)) lm) = 0 \<and> regs m' (CTL_LAYER_EXT (ctl_id (ctls m ! c)) lm) = 0"
  using assms
  by (auto simp: mdp5_ctl_blend_def b_def STAGE_MAX_def Let_def reset_blend_regs split: option.splits)

lemma blend_cfg_disjoint:
  assumes "\<And>q i. msk q i AND f = 0"
  shows "blend_cfg msk stage is cfg AND f = cfg AND f"
  by (induction "is" arbitrary: cfg) (use assms in \<open>simp_all add: blend_cfg_def and_or_distrib\<close>)

lemma mask_cursor_out: "mdp_ctl_blend_mask q i AND CTL_LAYER_CURSOR_OUT = 0"
  by (simp add: mdp_ctl_blend_mask_def reg_field_def Let_def and.assoc CTL_LAYER_CURSOR_OUT_def)

text \<open>
  C17: Reading the layer and extension registers of the left and the right mixer back after
  \<^verbatim>\<open>mdp5_ctl_blend\<close> gives for every pipe exactly the stage at which the caller put it, and 0 for a pipe that is at no
  stage, as long as a pipe stands at no two stages.  The mixers that the pipeline does not use blend nothing, the
  cursor-out bit of the left mixer says whether a cursor is on, and the trigger is the flush bits of the mixers.
\<close>

theorem mdp5_ctl_blend_stages:
  assumes "mdp5_ctl_blend c pl stage r_stage cnt flags m = Some m'" "cnt \<noteq> 0" "pl_mixer pl = Some mx"
    and "once stage (blend_stages flags)"
    and "\<forall>rx. pl_r_mixer pl = Some rx \<longrightarrow> m_lm rx \<noteq> m_lm mx \<and> once r_stage (blend_stages flags)"
    and "c < length (ctls m)"
  shows "let L = (\<lambda>lm. regs m' (CTL_LAYER (ctl_id (ctls m ! c)) lm)); E = (\<lambda>lm. regs m' (CTL_LAYER_EXT (ctl_id (ctls m ! c)) lm))
    in (\<forall>p \<in> {1..12}. decode_stage p (L (m_lm mx)) (E (m_lm mx)) =
          (case stage_of stage (blend_stages flags) p of None \<Rightarrow> 0 | Some i \<Rightarrow> i)) \<and>
       (\<forall>rx. pl_r_mixer pl = Some rx \<longrightarrow> (\<forall>p \<in> {1..12}. decode_stage p (L (m_lm rx)) (E (m_lm rx)) =
          (case stage_of r_stage (blend_stages flags) p of None \<Rightarrow> 0 | Some i \<Rightarrow> i))) \<and>
       (\<forall>lm < nlm m. lm \<noteq> m_lm mx \<and> (\<forall>rx. pl_r_mixer pl = Some rx \<longrightarrow> lm \<noteq> m_lm rx) \<longrightarrow> L lm = 0 \<and> E lm = 0) \<and>
       (L (m_lm mx) AND CTL_LAYER_CURSOR_OUT \<noteq> 0 \<longleftrightarrow> cursor_on (ctls m ! c)) \<and>
       pending_ctl_trigger (ctls m' ! c) = mdp_ctl_flush_mask_lm (m_lm mx) OR
         (case pl_r_mixer pl of None \<Rightarrow> 0 | Some rx \<Rightarrow> mdp_ctl_flush_mask_lm (m_lm rx))"
proof -
  define b where "b = (if flags AND 1 \<noteq> 0 then CTL_LAYER_BORDER_COLOR else 0)"
  have b: "b \<in> out_bits" and bcur: "b AND CTL_LAYER_CURSOR_OUT = 0"
    by (simp_all add: b_def out_bits_def CTL_LAYER_BORDER_COLOR_def CTL_LAYER_CURSOR_OUT_def)
  have cur: "CTL_LAYER_CURSOR_OUT \<in> out_bits" by (simp add: out_bits_def)
  have st: "set (blend_stages flags) \<subseteq> {1..8}" by auto
  have "\<forall>rx. pl_r_mixer pl = Some rx \<longrightarrow> m_lm rx \<noteq> m_lm mx" using assms(5) by blast
  note R = mdp5_ctl_blend_regs [OF assms(1-3) this, folded b_def]
  have left: "decode_stage p (regs m' (CTL_LAYER (ctl_id (ctls m ! c)) (m_lm mx))) (regs m' (CTL_LAYER_EXT (ctl_id (ctls m ! c)) (m_lm mx))) =
      (case stage_of stage (blend_stages flags) p of None \<Rightarrow> 0 | Some i \<Rightarrow> i)" if p: "p \<in> {1..12}" for p
    unfolding R(2) using R(1) by (intro decode_blend [OF p assms(4) st b]) (simp add: and_or_distrib out_bits_fields [OF p cur])
  have right: "decode_stage p (regs m' (CTL_LAYER (ctl_id (ctls m ! c)) (m_lm rx))) (regs m' (CTL_LAYER_EXT (ctl_id (ctls m ! c)) (m_lm rx))) =
      (case stage_of r_stage (blend_stages flags) p of None \<Rightarrow> 0 | Some i \<Rightarrow> i)"
    if rx: "pl_r_mixer pl = Some rx" and p: "p \<in> {1..12}" for p rx
  proof -
    have "once r_stage (blend_stages flags)" using assms(5) rx by blast
    from decode_blend [OF p this st b] show ?thesis using R(3,4) [OF rx] by simp
  qed
  have curs: "regs m' (CTL_LAYER (ctl_id (ctls m ! c)) (m_lm mx)) AND CTL_LAYER_CURSOR_OUT \<noteq> 0 \<longleftrightarrow> cursor_on (ctls m ! c)"
    using R(1) bcur by (simp add: and_or_distrib blend_cfg_disjoint [OF mask_cursor_out]) (simp add: CTL_LAYER_CURSOR_OUT_def)
  have trig: "pending_ctl_trigger (ctls m' ! c) = mdp_ctl_flush_mask_lm (m_lm mx) OR
         (case pl_r_mixer pl of None \<Rightarrow> 0 | Some rx \<Rightarrow> mdp_ctl_flush_mask_lm (m_lm rx))"
    using assms(1,3,6) by (auto simp: mdp5_ctl_blend_def Let_def split: option.splits)
  show ?thesis using left right R(5) curs trig by (simp add: Let_def)
qed

section \<open>The pool over all operations\<close>

text \<open>Well-formed pools.  Only the CTLs 0 and 1 can be booked, hence paired, hence wait for each other.\<close>

definition ctl_pairs :: "nat \<Rightarrow> nat \<Rightarrow> bool" where
  "ctl_pairs c p = (c = 0 \<and> p = 1 \<or> c = 1 \<and> p = 0)"

definition ctl_ok :: "mdp5_ctl_manager \<Rightarrow> nat \<Rightarrow> bool" where
  "ctl_ok m c =
     (let x = ctls m ! c
      in (c < nctl m \<longrightarrow> ctl_id x = c) \<and>
         ctl_status x \<in> {s. s AND NOT (CTL_STAT_BUSY OR CTL_STAT_BOOKED) = 0} \<and>
         (ctl_status x AND CTL_STAT_BOOKED \<noteq> 0 \<longleftrightarrow> single_flush_supported m \<and> c < 2) \<and>
         (case ctl_pair x of None \<Rightarrow> True
          | Some p \<Rightarrow> ctl_pairs c p \<and> single_flush_supported m \<and> ctl_pair (ctls m ! p) = Some c) \<and>
         (flush_pending x \<longrightarrow> c < 2 \<and> single_flush_supported m))"

definition ctlm_ok :: "mdp5_ctl_manager \<Rightarrow> bool" where
  "ctlm_ok m = (length (ctls m) = MAX_CTL \<and> nctl m \<le> MAX_CTL \<and> (\<forall>c < MAX_CTL. ctl_ok m c) \<and>
     \<not> (flush_pending (ctls m ! 0) \<and> flush_pending (ctls m ! 1)))"

text \<open>The masks written to FLUSH registers, those kept for later, and all of these together.\<close>

definition or_all :: "u32 list \<Rightarrow> u32" where
  "or_all xs = foldr (OR) xs 0"

definition flush_writes :: "mdp5_ctl_manager \<Rightarrow> (ctl_reg \<times> u32) list" where
  "flush_writes m = filter (\<lambda>w. case fst w of CTL_FLUSH _ \<Rightarrow> True | _ \<Rightarrow> False) (wrs m)"

definition flushed :: "mdp5_ctl_manager \<Rightarrow> u32" where
  "flushed m = or_all (map snd (flush_writes m))"

definition kept :: "mdp5_ctl_manager \<Rightarrow> u32" where
  "kept m = or_all (map saved_mask (ctls m)) OR single_flush_pending_mask m"

text \<open>The operations; the mask is the one a commit reports.\<close>

inductive ctlm_step :: "mdp5_ctl_manager \<Rightarrow> u32 \<Rightarrow> mdp5_ctl_manager \<Rightarrow> bool" where
  request: "mdp5_ctlm_request intf m = (r, m') \<Longrightarrow> ctlm_step m 0 m'"
| pipeline: "\<lbrakk>c < nctl m; mdp5_ctl_set_pipeline c pl m = Some m'\<rbrakk> \<Longrightarrow> ctlm_step m 0 m'"
| encoder: "\<lbrakk>\<forall>c. ctl = Some c \<longrightarrow> c < nctl m; mdp5_ctl_set_encoder_state ctl pl on m = (r, m')\<rbrakk> \<Longrightarrow> ctlm_step m 0 m'"
| cursor: "\<lbrakk>c < nctl m; mdp5_ctl_set_cursor c pl cid on m = (r, m')\<rbrakk> \<Longrightarrow> ctlm_step m 0 m'"
| blend: "\<lbrakk>c < nctl m; mdp5_ctl_blend c pl stage r_stage cnt flags m = Some m'\<rbrakk> \<Longrightarrow> ctlm_step m 0 m'"
| commit: "\<lbrakk>c < nctl m; mdp5_ctl_commit c pl fmask start m = Some (e, m')\<rbrakk> \<Longrightarrow> ctlm_step m e m'"
| pair: "\<lbrakk>x < nctl m; y < nctl m; x \<noteq> y; mdp5_ctl_pair x y True m = (r, m')\<rbrakk> \<Longrightarrow> ctlm_step m 0 m'"
| unpair: "\<lbrakk>x < nctl m; ctl_pair (ctls m ! x) = Some y; mdp5_ctl_pair x y False m = (r, m')\<rbrakk> \<Longrightarrow> ctlm_step m 0 m'"
| reset: "ctlm_step m 0 (mdp5_ctlm_hw_reset m)"

inductive ctlm_reach :: "mdp5_ctl_manager \<Rightarrow> u32 \<Rightarrow> bool" where
  init: "mdp5_ctlm_init kz lms base hw_mask connect hw_rev hw = Inr m \<Longrightarrow> ctlm_reach m 0"
| step: "\<lbrakk>ctlm_reach m e; ctlm_step m d m'\<rbrakk> \<Longrightarrow> ctlm_reach m' (e OR d)"

text \<open>Most operations leave alone what well-formedness and the masks are about.\<close>

definition ctl_view :: "mdp5_ctl \<Rightarrow> nat \<times> u32 \<times> u32 \<times> bool \<times> nat option" where
  "ctl_view x = (ctl_id x, ctl_status x, saved_mask x, flush_pending x, ctl_pair x)"

definition same_pool :: "mdp5_ctl_manager \<Rightarrow> mdp5_ctl_manager \<Rightarrow> bool" where
  "same_pool m m' = (map ctl_view (ctls m') = map ctl_view (ctls m) \<and> nctl m' = nctl m \<and>
     single_flush_supported m' = single_flush_supported m \<and>
     single_flush_pending_mask m' = single_flush_pending_mask m \<and> flushed m' = flushed m)"

lemma same_pool_refl [simp]: "same_pool m m"
  by (simp add: same_pool_def)

lemma same_pool_trans: "same_pool m m' \<Longrightarrow> same_pool m' m'' \<Longrightarrow> same_pool m m''"
  by (simp add: same_pool_def)

lemma same_pool_nth:
  assumes "same_pool m m'" "c < length (ctls m)"
  shows "ctl_view (ctls m' ! c) = ctl_view (ctls m ! c)"
  using assms unfolding same_pool_def by (metis length_map nth_map)

lemma same_pool_ok:
  assumes s: "same_pool m m'" and ok: "ctlm_ok m"
  shows "ctlm_ok m'"
proof -
  have len: "length (ctls m') = length (ctls m)" using s unfolding same_pool_def by (metis length_map)
  have "ctl_ok m' c" if c: "c < MAX_CTL" for c
  proof -
    have v: "ctl_view (ctls m' ! i) = ctl_view (ctls m ! i)" if "i < MAX_CTL" for i
      using same_pool_nth [OF s] that ok by (simp add: ctlm_ok_def)
    have "ctl_ok m c" using ok c by (simp add: ctlm_ok_def)
    moreover have "ctl_pair (ctls m' ! p) = ctl_pair (ctls m ! p)" if "ctl_pairs c p" for p
      using that v [of p] by (auto simp: ctl_pairs_def MAX_CTL_def ctl_view_def)
    moreover have "nctl m' = nctl m" "single_flush_supported m' = single_flush_supported m" using s by (simp_all add: same_pool_def)
    ultimately show ?thesis using v [OF c]
      by (cases "ctl_pair (ctls m ! c)") (simp_all add: ctl_ok_def ctl_view_def Let_def)
  qed
  moreover have "flush_pending (ctls m' ! 0) = flush_pending (ctls m ! 0)" "flush_pending (ctls m' ! 1) = flush_pending (ctls m ! 1)"
    using same_pool_nth [OF s] ok by (simp_all add: ctlm_ok_def MAX_CTL_def ctl_view_def)
  ultimately show ?thesis using ok s len by (simp add: ctlm_ok_def same_pool_def)
qed

lemma same_pool_kept:
  assumes "same_pool m m'"
  shows "kept m' = kept m" "flushed m' = flushed m"
proof -
  have "map saved_mask xs = map (\<lambda>v. fst (snd (snd v))) (map ctl_view xs)" for xs by (simp add: ctl_view_def)
  then show "kept m' = kept m" using assms by (simp add: kept_def same_pool_def del: map_map)
qed (use assms in \<open>simp add: same_pool_def\<close>)

lemma or_all_simps [simp]: "or_all [] = 0" "or_all (x # xs) = x OR or_all xs"
  by (simp_all add: or_all_def)

lemma or_all_append [simp]: "or_all (xs @ ys) = or_all xs OR or_all ys"
  by (induction xs) (simp_all add: or.assoc)

lemmas or_ac = or.assoc or.commute or.left_commute

lemma or_all_or: "i < length xs \<Longrightarrow> or_all (xs[i := xs ! i OR v]) = or_all xs OR v"
  by (induction xs arbitrary: i) (auto simp: or_ac split: nat.split)

lemma or_all_clear: "i < length xs \<Longrightarrow> or_all (xs[i := 0]) OR xs ! i = or_all xs"
  by (induction xs arbitrary: i) (auto simp: or_ac split: nat.split)

lemma or_all_zeros [simp]: "or_all (replicate n 0) = 0"
  by (induction n) simp_all

lemma flush_writes_simps [simp]:
  "flush_writes (upd_ctl c f m) = flush_writes m" "flush_writes (m\<lparr>single_flush_pending_mask := v\<rparr>) = flush_writes m"
  "flush_writes (ctl_write r v m) = (case r of CTL_FLUSH _ \<Rightarrow> flush_writes m @ [(r, v)] | _ \<Rightarrow> flush_writes m)"
  by (simp_all add: flush_writes_def split: ctl_reg.split)

lemma flushed_write [simp]:
  "flushed (ctl_write r v m) = (case r of CTL_FLUSH _ \<Rightarrow> flushed m OR v | _ \<Rightarrow> flushed m)"
  by (simp add: flushed_def split: ctl_reg.split)

lemma flushed_upd [simp]: "flushed (upd_ctl c f m) = flushed m"
  by (simp add: flushed_def)

lemma same_pool_write: "(case r of CTL_FLUSH _ \<Rightarrow> False | _ \<Rightarrow> True) \<Longrightarrow> same_pool m (ctl_write r v m)"
  by (simp add: same_pool_def split: ctl_reg.splits)

lemma same_pool_upd: "ctl_view (f (ctls m ! c)) = ctl_view (ctls m ! c) \<Longrightarrow> same_pool m (upd_ctl c f m)"
  by (simp add: same_pool_def map_update) (metis length_map list_update_beyond list_update_id map_update not_le_imp_less)

lemmas same_pool_rules = same_pool_trans [OF _ same_pool_write] same_pool_trans [OF _ same_pool_upd]

lemma frames:
  "mdp5_ctl_set_pipeline c pl m = Some m1 \<Longrightarrow> same_pool m m1"
  "same_pool m (snd (mdp5_ctl_set_encoder_state ctl pl on m))"
  "same_pool m (snd (mdp5_ctl_set_cursor c pl cid on m))"
  "same_pool m (mdp5_ctlm_hw_reset m)"
proof -
  show "mdp5_ctl_set_pipeline c pl m = Some m1 \<Longrightarrow> same_pool m m1"
    by (auto simp: mdp5_ctl_set_pipeline_def set_display_intf_def set_ctl_op_def Let_def split: if_splits intro!: same_pool_rules)
  show "same_pool m (snd (mdp5_ctl_set_encoder_state ctl pl on m))"
    by (auto simp: mdp5_ctl_set_encoder_state_def send_start_signal_def Let_def ctl_view_def split: option.splits intro!: same_pool_rules)
  show "same_pool m (snd (mdp5_ctl_set_cursor c pl cid on m))"
    by (auto simp: mdp5_ctl_set_cursor_def Let_def ctl_view_def split: option.splits intro!: same_pool_rules)
  have "same_pool m (fold (\<lambda>c m. ctl_write (CTL_OP (ctl_id (ctls m ! c))) 0 m) is m')" if "same_pool m m'" for "is" m'
    using that by (induction "is" arbitrary: m') (simp_all add: same_pool_rules)
  then show "same_pool m (mdp5_ctlm_hw_reset m)" by (simp add: mdp5_ctlm_hw_reset_def)
qed

lemma reset_blend_frame: "same_pool m (mdp5_ctl_reset_blend_regs c m)"
proof -
  let ?w = "\<lambda>i m. ctl_write (CTL_LAYER_EXT (ctl_id (ctls m ! c)) i) 0 (ctl_write (CTL_LAYER (ctl_id (ctls m ! c)) i) 0 m)"
  have "same_pool m (fold ?w is m')" if "same_pool m m'" for "is" m'
    using that by (induction "is" arbitrary: m') (simp_all add: same_pool_rules)
  then show ?thesis by (simp add: mdp5_ctl_reset_blend_regs_def)
qed

lemma blend_frame: "mdp5_ctl_blend c pl stage r_stage cnt flags m = Some m' \<Longrightarrow> same_pool m m'"
  using reset_blend_frame [of m c]
  by (auto simp: mdp5_ctl_blend_def Let_def ctl_view_def split: option.splits intro!: same_pool_rules)

text \<open>Requests, pairs and the first state.\<close>

lemma find_ctl_SomeD:
  assumes "find_ctl s m = Some c"
  shows "c < nctl m" "ctl_status (ctls m ! c) AND (CTL_STAT_BUSY OR CTL_STAT_BOOKED) = s"
    "\<forall>i < c. ctl_status (ctls m ! i) AND (CTL_STAT_BUSY OR CTL_STAT_BOOKED) \<noteq> s"
  using assms by (auto simp: find_ctl_def find_Some_iff)

lemma find_ctl_None: "find_ctl s m = None \<longleftrightarrow>
    (\<forall>c < nctl m. ctl_status (ctls m ! c) AND (CTL_STAT_BUSY OR CTL_STAT_BOOKED) \<noteq> s)"
  by (auto simp: find_ctl_def find_None_iff)

text \<open>An update of one CTL that keeps its number, its pair, and what its status may be.\<close>

lemma upd_ok:
  assumes ok: "ctlm_ok m"
    and id: "ctl_id (f (ctls m ! c)) = ctl_id (ctls m ! c)" and pair: "ctl_pair (f (ctls m ! c)) = ctl_pair (ctls m ! c)"
    and st: "ctl_status (f (ctls m ! c)) AND NOT (CTL_STAT_BUSY OR CTL_STAT_BOOKED) = 0 \<longleftrightarrow>
        ctl_status (ctls m ! c) AND NOT (CTL_STAT_BUSY OR CTL_STAT_BOOKED) = 0"
      "ctl_status (f (ctls m ! c)) AND CTL_STAT_BOOKED = ctl_status (ctls m ! c) AND CTL_STAT_BOOKED"
    and pend: "flush_pending (f (ctls m ! c)) \<Longrightarrow> flush_pending (ctls m ! c) \<or>
        (c < 2 \<and> single_flush_supported m \<and> \<not> flush_pending (ctls m ! (1 - c)))"
  shows "ctlm_ok (upd_ctl c f m)"
proof -
  let ?m = "upd_ctl c f m"
  have n: "ctls ?m ! i = (if i = c then f (ctls m ! c) else ctls m ! i)" if "i < MAX_CTL" for i
    using ok that by (simp add: ctlm_ok_def nth_list_update)
  have "ctl_ok ?m i" if i: "i < MAX_CTL" for i
  proof -
    have o: "ctl_ok m i" using ok i by (simp add: ctlm_ok_def)
    have p: "ctl_pair (ctls ?m ! p) = ctl_pair (ctls m ! p)" if "ctl_pairs i p" for p
    proof -
      have "p < MAX_CTL" using that by (auto simp: ctl_pairs_def MAX_CTL_def)
      then show ?thesis using n [of p] pair by simp
    qed
    show ?thesis
    proof (cases "i = c")
      case True
      with n [OF i] have "ctls ?m ! i = f (ctls m ! c)" by simp
      then show ?thesis using o True p id pair st pend
        by (cases "ctl_pair (ctls m ! c)") (auto simp: ctl_ok_def Let_def)
    next
      case False
      with n [OF i] have "ctls ?m ! i = ctls m ! i" by simp
      then show ?thesis using o p
        by (cases "ctl_pair (ctls m ! i)") (auto simp: ctl_ok_def Let_def)
    qed
  qed
  moreover have "\<not> (flush_pending (ctls ?m ! 0) \<and> flush_pending (ctls ?m ! 1))"
  proof -
    have "0 < MAX_CTL" "1 < MAX_CTL" by (simp_all add: MAX_CTL_def)
    note n01 = n [OF this(1)] n [OF this(2)]
    show ?thesis unfolding n01 using ok pend by (auto simp: ctlm_ok_def less_2_cases_iff)
  qed
  ultimately show ?thesis using ok by (simp add: ctlm_ok_def)
qed

lemma request_ok:
  assumes "ctlm_ok m" "mdp5_ctlm_request intf m = (r, m')"
  shows "ctlm_ok m'" "kept m' = kept m" "flushed m' = flushed m"
proof -
  let ?f = "\<lambda>x. x\<lparr>ctl_status := ctl_status x OR CTL_STAT_BUSY, pending_ctl_trigger := 0\<rparr>"
  have st: "(s OR CTL_STAT_BUSY) AND NOT (CTL_STAT_BUSY OR CTL_STAT_BOOKED) = 0 \<longleftrightarrow>
      s AND NOT (CTL_STAT_BUSY OR CTL_STAT_BOOKED) = 0"
    "(s OR CTL_STAT_BUSY) AND CTL_STAT_BOOKED = s AND CTL_STAT_BOOKED" for s
    by (simp_all add: CTL_STAT_BUSY_def CTL_STAT_BOOKED_def and_or_distrib)
  have m: "ctlm_ok (upd_ctl c ?f m)" if "c < nctl m" for c
    by (rule upd_ok [OF assms(1)]) (use st in simp_all)
  have k: "kept (upd_ctl c ?f m) = kept m" for c
    by (simp add: kept_def map_update list_update_beyond) (metis length_map list_update_beyond list_update_id nth_map not_le_imp_less)
  show "ctlm_ok m'" "kept m' = kept m" "flushed m' = flushed m"
    using assms m k by (auto simp: mdp5_ctlm_request_def Let_def split: option.splits dest: find_ctl_SomeD(1))
qed

lemma pool_mask_simps [simp]:
  "ctlm_ok (m\<lparr>single_flush_pending_mask := v\<rparr>) = ctlm_ok m" "flushed (m\<lparr>single_flush_pending_mask := v\<rparr>) = flushed m"
  "upd_ctl c f (m\<lparr>single_flush_pending_mask := v\<rparr>) = (upd_ctl c f m)\<lparr>single_flush_pending_mask := v\<rparr>"
  by (simp_all add: ctlm_ok_def ctl_ok_def flushed_def upd_ctl_def Let_def split: option.split)

lemma ctl_write_ok [simp]: "ctlm_ok (ctl_write r v m) = ctlm_ok m"
  by (simp add: ctlm_ok_def ctl_ok_def Let_def split: option.split)

lemma upd_ctl_id [simp]: "upd_ctl c (\<lambda>x. x) m = m"
  by (simp add: upd_ctl_def)

lemma upd_ctl_twice: "c < length (ctls m) \<Longrightarrow> upd_ctl c g (upd_ctl c f m) = upd_ctl c (\<lambda>x. g (f x)) m"
  by (simp add: upd_ctl_def)

lemma paired:
  assumes "ctlm_ok m" "c < nctl m" "ctl_pair (ctls m ! c) = Some p"
  shows "ctl_pairs c p" "c < MAX_CTL" "p < MAX_CTL" "single_flush_supported m" "ctl_pair (ctls m ! p) = Some c"
proof -
  show c: "c < MAX_CTL" using assms by (simp add: ctlm_ok_def)
  then have "ctl_ok m c" using assms by (simp add: ctlm_ok_def)
  with assms show "ctl_pairs c p" "single_flush_supported m" "ctl_pair (ctls m ! p) = Some c" by (simp_all add: ctl_ok_def Let_def)
  then show "p < MAX_CTL" by (auto simp: ctl_pairs_def MAX_CTL_def)
qed

lemma saved_upd: "saved_mask (f (ctls m ! c)) = saved_mask (ctls m ! c) \<Longrightarrow>
    map saved_mask (ctls (upd_ctl c f m)) = map saved_mask (ctls m)"
  by (simp add: map_update) (metis length_map list_update_beyond list_update_id nth_map not_le_imp_less)

lemma single_flush_ok:
  assumes ok: "ctlm_ok m" and c: "c < nctl m" and f: "fix_for_single_flush c e fid m = (fmask, fid', m')"
  shows "ctlm_ok m'" "fmask OR single_flush_pending_mask m' = e OR single_flush_pending_mask m"
    "map saved_mask (ctls m') = map saved_mask (ctls m)" "flushed m' = flushed m" "nctl m' = nctl m"
proof -
  let ?T = "\<lambda>x. x\<lparr>flush_pending := True\<rparr>" and ?F = "\<lambda>x. x\<lparr>flush_pending := False\<rparr>"
  have clear: "ctlm_ok (upd_ctl i ?F n)" if "ctlm_ok n" for i n by (rule upd_ok [OF that]) simp_all
  have cl: "c < length (ctls m)" using ok c by (simp add: ctlm_ok_def)
  have both: "ctlm_ok (upd_ctl p ?F (upd_ctl c ?F (upd_ctl c ?T m)))" for p
    by (rule clear) (simp add: upd_ctl_twice [OF cl] clear [OF ok])
  have one: "ctlm_ok (upd_ctl c ?T m)" if p: "ctl_pair (ctls m ! c) = Some p" "\<not> flush_pending (ctls (upd_ctl c ?T m) ! p)" for p
  proof (rule upd_ok [OF ok])
    note P = paired [OF ok c p(1)]
    have "p = 1 - c" "p \<noteq> c" "c < 2" using P(1) by (auto simp: ctl_pairs_def)
    then show "flush_pending (ctls m ! c) \<or> c < 2 \<and> single_flush_supported m \<and> \<not> flush_pending (ctls m ! (1 - c))"
      using p(2) P(4) by simp
  qed simp_all
  have s: "map saved_mask (ctls (upd_ctl i ?T n)) = map saved_mask (ctls n)" "map saved_mask (ctls (upd_ctl i ?F n)) = map saved_mask (ctls n)" for i n
    by (rule saved_upd, simp)+
  note d = fix_for_single_flush_def Let_def
  show "ctlm_ok m'" using f ok both one by (auto simp: d split: option.splits if_splits simp del: upd_ctl_simps(1))
  show "fmask OR single_flush_pending_mask m' = e OR single_flush_pending_mask m"
    using f by (auto simp: d or.commute split: option.splits if_splits)
  show "map saved_mask (ctls m') = map saved_mask (ctls m)"
    using f by (auto simp: d s split: option.splits if_splits simp del: upd_ctl_simps(1))
  show "flushed m' = flushed m" "nctl m' = nctl m" using f by (auto simp: d split: option.splits if_splits)
qed

lemma commit_ok:
  assumes ok: "ctlm_ok m" and c: "c < nctl m" and m': "mdp5_ctl_commit c pl fmask start m = Some (e, m')"
  shows "ctlm_ok m'" "flushed m' OR kept m' = flushed m OR kept m OR e"
proof -
  let ?trig = "pending_ctl_trigger (ctls m ! c) AND fmask \<noteq> 0"
  let ?m1 = "if ?trig then upd_ctl c (\<lambda>x. x\<lparr>pending_ctl_trigger := 0\<rparr>) m else m"
  have s1: "same_pool m ?m1" by (simp add: same_pool_upd ctl_view_def)
  have c1: "c < nctl ?m1" using c by simp
  obtain sw where sw: "fix_sw_flush pl (if ?trig then fmask OR MDP5_CTL_FLUSH_CTL else fmask) ?m1 = Some sw"
    and e: "e = ((if ?trig then fmask OR MDP5_CTL_FLUSH_CTL else fmask) OR sw) AND flush_hw_mask ?m1"
    using m' by (auto simp: mdp5_ctl_commit_def Let_def split: option.splits prod.splits if_splits)
  obtain f fid m2 where f: "fix_for_single_flush c e (ctl_id (ctls ?m1 ! c)) ?m1 = (f, fid, m2)"
    by (cases "fix_for_single_flush c e (ctl_id (ctls ?m1 ! c)) ?m1")
  note F = single_flush_ok [OF same_pool_ok [OF s1 ok] c1 f]
  have len: "c < length (map saved_mask (ctls m2))" using F(1,5) c1 by (simp add: ctlm_ok_def)
  have "f OR kept m2 = or_all (map saved_mask (ctls m2)) OR (f OR single_flush_pending_mask m2)" by (simp add: kept_def or_ac)
  also have "\<dots> = kept ?m1 OR e" unfolding F(2,3) by (simp add: kept_def or_ac)
  finally have k2: "kept m2 OR f = kept m OR e" and fl2: "flushed m2 = flushed m"
    using same_pool_kept [OF s1] F(4) by (simp_all add: or_ac)
  let ?st = "\<lambda>m. if start_signal_needed c pl m then send_start_signal c m else m"
  have st: "same_pool m (?st m)" for m by (simp add: send_start_signal_def same_pool_write)
  have cm: "mdp5_ctl_commit c pl fmask start m =
      (if \<not> start then Some (e, upd_ctl c (\<lambda>x. x\<lparr>saved_mask := saved_mask x OR f\<rparr>) m2)
       else let g = f OR saved_mask (ctls m2 ! c); m3 = upd_ctl c (\<lambda>x. x\<lparr>saved_mask := 0\<rparr>) m2
            in Some (e, ?st (if g \<noteq> 0 then ctl_write (CTL_FLUSH fid) g m3 else m3)))"
    unfolding mdp5_ctl_commit_def Let_def sw option.case e [symmetric] f prod.case ..
  have ok3: "ctlm_ok (upd_ctl c (\<lambda>x. x\<lparr>saved_mask := v x\<rparr>) m2)" for v
    by (rule upd_ok [OF F(1)]) simp_all
  have sv: "map saved_mask (ctls (upd_ctl c (\<lambda>x. x\<lparr>saved_mask := v x\<rparr>) m2)) =
      (map saved_mask (ctls m2))[c := v (ctls m2 ! c)]" for v by (simp add: map_update)
  have nth: "map saved_mask (ctls m2) ! c = saved_mask (ctls m2 ! c)" using len by simp
  have "ctlm_ok m' \<and> flushed m' OR kept m' = flushed m OR kept m OR e"
  proof (cases start)
    case False
    let ?n = "upd_ctl c (\<lambda>x. x\<lparr>saved_mask := saved_mask x OR f\<rparr>) m2"
    have "kept ?n = or_all (map saved_mask (ctls m2)) OR f OR single_flush_pending_mask m2"
      unfolding kept_def sv using or_all_or [OF len, of f] nth by (simp add: or.assoc)
    also have "\<dots> = kept m2 OR f" by (simp add: kept_def or_ac)
    finally have "kept ?n = kept m OR e" using k2 by simp
    moreover have "m' = ?n" using m' False unfolding cm by simp
    ultimately show ?thesis using ok3 fl2 by (simp add: or_ac)
  next
    case True
    let ?g = "f OR saved_mask (ctls m2 ! c)" and ?n = "upd_ctl c (\<lambda>x. x\<lparr>saved_mask := 0\<rparr>) m2"
    let ?w = "if ?g \<noteq> 0 then ctl_write (CTL_FLUSH fid) ?g ?n else ?n"
    have m'': "m' = ?st ?w" using m' True unfolding cm by (simp add: Let_def)
    have kw: "kept ?w = kept ?n" "flushed ?w = flushed ?n OR ?g" by (simp_all add: kept_def)
    have "kept ?n OR saved_mask (ctls m2 ! c) = or_all ((map saved_mask (ctls m2))[c := 0]) OR map saved_mask (ctls m2) ! c OR
        single_flush_pending_mask m2"
      unfolding kept_def sv using nth by (simp add: or_ac)
    also have "\<dots> = kept m2" unfolding or.assoc [symmetric] or_all_clear [OF len] by (simp add: kept_def)
    finally have "?g OR kept ?n = kept m OR e" using k2 by (simp add: or_ac)
    moreover have "flushed ?w OR kept ?w = flushed m OR (?g OR kept ?n)" unfolding kw by (simp only: flushed_upd fl2 or.assoc)
    ultimately have "flushed ?w OR kept ?w = flushed m OR (kept m OR e)" by simp
    moreover have "ctlm_ok ?w" using ok3 by simp
    ultimately show ?thesis unfolding m'' same_pool_kept [OF st] using same_pool_ok [OF st] by (simp only: or.assoc)
  qed
  then show "ctlm_ok m'" "flushed m' OR kept m' = flushed m OR kept m OR e" by blast+
qed

text \<open>Pairs can only be made of the two booked CTLs.\<close>

lemma booked_pairs:
  assumes "ctlm_ok m" "x < nctl m" "y < nctl m" "x \<noteq> y"
    and "ctl_status (ctls m ! x) AND ctl_status (ctls m ! y) AND CTL_STAT_BOOKED \<noteq> 0"
  shows "ctl_pairs x y" "single_flush_supported m"
proof -
  have "x < MAX_CTL" "y < MAX_CTL" using assms by (simp_all add: ctlm_ok_def)
  then have "ctl_ok m x" "ctl_ok m y" using assms by (simp_all add: ctlm_ok_def)
  moreover have "ctl_status (ctls m ! x) AND CTL_STAT_BOOKED \<noteq> 0" "ctl_status (ctls m ! y) AND CTL_STAT_BOOKED \<noteq> 0"
    using assms(5) and.left_commute [of "ctl_status (ctls m ! x)" "ctl_status (ctls m ! y)" CTL_STAT_BOOKED] by auto
  ultimately show "ctl_pairs x y" "single_flush_supported m"
    using assms(4) by (auto simp: ctl_ok_def Let_def ctl_pairs_def)
qed

lemma set_pairs_ok:
  assumes ok: "ctlm_ok m" and xy: "ctl_pairs x y" "single_flush_supported m" and p: "(p, q) = (None, None) \<or> (p, q) = (Some y, Some x)"
  shows "ctlm_ok (upd_ctl y (\<lambda>c. c\<lparr>ctl_pair := q\<rparr>) (upd_ctl x (\<lambda>c. c\<lparr>ctl_pair := p\<rparr>) m))" (is "ctlm_ok ?m")
proof -
  have xy': "x \<noteq> y" "x < MAX_CTL" "y < MAX_CTL" using xy by (auto simp: ctl_pairs_def MAX_CTL_def)
  have n: "ctls ?m ! i = (if i = x then (ctls m ! x)\<lparr>ctl_pair := p\<rparr> else if i = y then (ctls m ! y)\<lparr>ctl_pair := q\<rparr> else ctls m ! i)"
    if "i < MAX_CTL" for i using ok xy' that by (simp add: ctlm_ok_def nth_list_update)
  have "ctl_ok ?m i" if i: "i < MAX_CTL" for i
  proof -
    have o: "ctl_ok m i" using ok i by (simp add: ctlm_ok_def)
    have pair: "ctl_pair (ctls ?m ! j) = (if j = x then p else if j = y then q else ctl_pair (ctls m ! j))" if "j < MAX_CTL" for j
      using n [OF that] by simp
    have rest: "ctl_id (ctls ?m ! i) = ctl_id (ctls m ! i)" "ctl_status (ctls ?m ! i) = ctl_status (ctls m ! i)"
      "flush_pending (ctls ?m ! i) = flush_pending (ctls m ! i)" using n [OF i] by simp_all
    consider "i = x" | "i = y" | "i \<noteq> x" "i \<noteq> y" "ctl_pair (ctls m ! i) = None"
      using o xy by (cases "ctl_pair (ctls m ! i)") (auto simp: ctl_ok_def Let_def ctl_pairs_def)
    then show ?thesis
    proof cases
      case 1
      then show ?thesis using o p xy xy' pair [OF xy'(2)] pair [OF xy'(3)] rest unfolding ctl_ok_def Let_def by force
    next
      case 2
      have "ctl_pairs y x" using xy by (auto simp: ctl_pairs_def)
      with 2 show ?thesis using o p xy xy' pair [OF xy'(2)] pair [OF xy'(3)] rest unfolding ctl_ok_def Let_def by force
    next
      case 3
      then show ?thesis using o pair [OF i] rest by (simp add: ctl_ok_def Let_def)
    qed
  qed
  moreover have "flush_pending (ctls ?m ! i) = flush_pending (ctls m ! i)" if "i < MAX_CTL" for i using n [OF that] by simp
  ultimately show ?thesis using ok by (simp add: ctlm_ok_def MAX_CTL_def)
qed

lemma pair_ok:
  assumes ok: "ctlm_ok m" and x: "x < nctl m" and m': "mdp5_ctl_pair x y on m = (r, m')"
    and y: "if on then y < nctl m \<and> x \<noteq> y else ctl_pair (ctls m ! x) = Some y"
  shows "ctlm_ok m'" "kept m' = kept m" "flushed m' = flushed m"
proof -
  have sv: "map saved_mask (ctls (upd_ctl i (\<lambda>c. c\<lparr>ctl_pair := q\<rparr>) n)) = map saved_mask (ctls n)" for i q n
    by (rule saved_upd) simp
  then show "kept m' = kept m" "flushed m' = flushed m"
    using m' by (auto simp: mdp5_ctl_pair_def kept_def split: if_splits simp del: upd_ctl_simps(1))
  show "ctlm_ok m'"
  proof (cases on)
    case True
    with m' y ok show ?thesis
      using booked_pairs [OF ok x, of y] set_pairs_ok [OF ok, of x y "Some y" "Some x"]
      by (auto simp: mdp5_ctl_pair_def split: if_splits)
  next
    case False
    with m' y ok show ?thesis
      using paired [OF ok x, of y] set_pairs_ok [OF ok, of x y None None]
      by (auto simp: mdp5_ctl_pair_def split: if_splits)
  qed
qed

lemma init_ok:
  assumes "mdp5_ctlm_init kz lms base hw_mask connect hw_rev hw = Inr m"
  shows "ctlm_ok m" "kept m = 0" "flushed m = 0"
proof -
  have le: "length base \<le> 8" using assms by (simp add: mdp5_ctlm_init_def Let_def MAX_CTL_def split: if_splits)
  let ?cs = "map (\<lambda>i. if i < length base then zero_ctl\<lparr>ctl_id := i\<rparr> else zero_ctl) [0..<MAX_CTL]"
  let ?b = "\<lambda>c. c\<lparr>ctl_status := ctl_status c OR CTL_STAT_BOOKED\<rparr>"
  define s where "s = (hw_rev \<ge> 3 \<and> length (filter (\<lambda>t. t = INTF_DSI) connect) > 1)"
  have "kz" "\<not> length base > MAX_CTL" "\<not> 0 \<in> set base" using assms unfolding mdp5_ctlm_init_def Let_def by (meson Inl_Inr_False)+
  with assms have cs: "ctls m = (if s then ?cs[0 := ?b (?cs ! 0), 1 := ?b (?cs ! 1)] else ?cs)"
    and f: "nctl m = length base" "single_flush_supported m = s" "single_flush_pending_mask m = 0" "wrs m = []"
    unfolding mdp5_ctlm_init_def Let_def s_def [symmetric] by auto
  have nth: "ctls m ! i = zero_ctl\<lparr>ctl_id := (if i < length base then i else 0), ctl_status := (if s \<and> i < 2 then CTL_STAT_BOOKED else 0)\<rparr>"
    if "i < MAX_CTL" for i
    using that by (cases s) (auto simp: cs nth_list_update MAX_CTL_def zero_ctl_def)
  have "ctl_ok m i" if "i < MAX_CTL" for i
    unfolding ctl_ok_def nth [OF that] by (simp add: zero_ctl_def f CTL_STAT_BOOKED_def CTL_STAT_BUSY_def)
  moreover have "\<not> flush_pending (ctls m ! 0)" using nth [of 0] by (simp add: MAX_CTL_def zero_ctl_def)
  moreover have len: "length (ctls m) = MAX_CTL" by (simp add: cs)
  ultimately show "ctlm_ok m" using le f by (simp add: ctlm_ok_def MAX_CTL_def)
  have "map saved_mask (ctls m) = replicate MAX_CTL 0"
    by (rule nth_equalityI) (simp_all add: len nth zero_ctl_def)
  then show "kept m = 0" "flushed m = 0" by (simp_all add: kept_def flushed_def flush_writes_def f)
qed

lemma ctlm_step_ok:
  assumes "ctlm_step m d m'" "ctlm_ok m"
  shows "ctlm_ok m' \<and> flushed m' OR kept m' = flushed m OR kept m OR d"
  using assms
proof cases
  case (request intf r)
  then show ?thesis using request_ok [OF assms(2)] by simp
next
  case (pipeline c pl)
  then show ?thesis using frames(1) same_pool_ok [OF _ assms(2)] same_pool_kept by fastforce
next
  case (encoder ctl pl on r)
  then show ?thesis using frames(2) [of m ctl pl on] same_pool_ok [OF _ assms(2)] same_pool_kept by fastforce
next
  case (cursor c pl cid on r)
  then show ?thesis using frames(3) [of m c pl cid on] same_pool_ok [OF _ assms(2)] same_pool_kept by fastforce
next
  case (blend c pl stage r_stage cnt flags)
  then show ?thesis using blend_frame same_pool_ok [OF _ assms(2)] same_pool_kept by fastforce
next
  case (commit c pl fmask start)
  then show ?thesis using commit_ok [OF assms(2)] by simp
next
  case (pair x y r)
  then show ?thesis using pair_ok [OF assms(2), of x y True] by simp
next
  case (unpair x y r)
  then show ?thesis using pair_ok [OF assms(2), of x y False] by simp
next
  case reset
  then show ?thesis using frames(4) [of m] same_pool_ok [OF _ assms(2)] same_pool_kept by fastforce
qed

lemma ctlm_reach_ok: "ctlm_reach m e \<Longrightarrow> ctlm_ok m \<and> flushed m OR kept m = e"
proof (induction rule: ctlm_reach.induct)
  case (init kz lms base hw_mask connect hw_rev hw m)
  then show ?case using init_ok by simp
next
  case (step m e d m')
  then show ?case using ctlm_step_ok [OF step.hyps(2)] by (simp add: or.assoc [symmetric])
qed

text \<open>
  C18: The pool stays well formed whatever is called on it: every CTL has its position as its number, its
  status has no bits but busy and booked, exactly the CTLs 0 and 1 are booked, and only where the hardware has single flush,
  pairs are symmetric and made of the booked CTLs, and of a pair at most one waits for the other.
\<close>

theorem mdp5_ctlm_well_formed:
  assumes "ctlm_reach m e"
  shows "ctlm_ok m"
  using ctlm_reach_ok [OF assms] by blast

text \<open>
  C19: No commit is lost: at any time the masks written to FLUSH registers, together with the masks saved in CTLs
  for a later start and those waiting for the commit of a paired CTL, are exactly the masks the commits have reported.
\<close>

theorem mdp5_ctl_commit_accounts:
  assumes "ctlm_reach m e"
  shows "flushed m OR (or_all (map saved_mask (ctls m)) OR single_flush_pending_mask m) = e"
  using ctlm_reach_ok [OF assms] by (simp add: kept_def)

section \<open>Requests\<close>

abbreviation ctl_busy :: "mdp5_ctl_manager \<Rightarrow> nat \<Rightarrow> bool" where
  "ctl_busy m c \<equiv> ctl_status (ctls m ! c) AND CTL_STAT_BUSY \<noteq> 0"

abbreviation ctl_booked :: "mdp5_ctl_manager \<Rightarrow> nat \<Rightarrow> bool" where
  "ctl_booked m c \<equiv> ctl_status (ctls m ! c) AND CTL_STAT_BOOKED \<noteq> 0"

lemma status_match:
  "s AND (CTL_STAT_BUSY OR CTL_STAT_BOOKED) = (if k then CTL_STAT_BOOKED else 0) \<longleftrightarrow>
     s AND CTL_STAT_BUSY = 0 \<and> (s AND CTL_STAT_BOOKED \<noteq> 0 \<longleftrightarrow> k)"
proof -
  have b: "bit CTL_STAT_BUSY n \<longleftrightarrow> n = 0" "bit CTL_STAT_BOOKED n \<longleftrightarrow> n = 1" for n
    using bit_exp_iff [of 1 n, where 'a = "32 word"] by (auto simp: CTL_STAT_BUSY_def CTL_STAT_BOOKED_def bit_1_iff)
  show ?thesis by (auto simp: bit_eq_iff [where 'a = "32 word"] bit_and_iff bit_or_iff b) (drule spec [of _ "Suc 0"], simp)+
qed

text \<open>
  A request gets a CTL that nobody has, of the booked kind for the interfaces 1 and 2 and of the other kind for the rest,
  and one of the wrong kind only when all of the right kind are busy; it is the first such CTL, it is busy afterwards and no other
  CTL changes.  It fails exactly when every CTL of the hardware is busy, and then nothing changes.
\<close>

theorem mdp5_ctlm_request_first_free:
  assumes "mdp5_ctlm_request intf m = (r, m')" "nctl m \<le> length (ctls m)"
  shows "case r of
      None \<Rightarrow> (\<forall>c < nctl m. ctl_busy m c) \<and> m' = m
    | Some c \<Rightarrow> c < nctl m \<and> \<not> ctl_busy m c \<and> ctl_busy m' c \<and> ctl_booked m' c = ctl_booked m c \<and>
        (ctl_booked m c = (intf = 1 \<or> intf = 2) \<or> (\<forall>i < nctl m. ctl_booked m i = (intf = 1 \<or> intf = 2) \<longrightarrow> ctl_busy m i)) \<and>
        (\<forall>i < c. ctl_booked m i = ctl_booked m c \<longrightarrow> ctl_busy m i) \<and>
        pending_ctl_trigger (ctls m' ! c) = 0 \<and> (\<forall>i. i \<noteq> c \<longrightarrow> ctls m' ! i = ctls m ! i)"
proof -
  define k where "k = (intf = 1 \<or> intf = 2)"
  let ?f = "\<lambda>k. find_ctl (if k then CTL_STAT_BOOKED else 0) m"
  let ?u = "\<lambda>c. upd_ctl c (\<lambda>x. x\<lparr>ctl_status := ctl_status x OR CTL_STAT_BUSY, pending_ctl_trigger := 0\<rparr>) m"
  have x: "(if k then CTL_STAT_BOOKED else 0) XOR CTL_STAT_BOOKED = (if \<not> k then CTL_STAT_BOOKED else 0)" by simp
  have some: "c < nctl m \<and> \<not> ctl_busy m c \<and> ctl_booked m c = k \<and> (\<forall>i < c. ctl_booked m i = k \<longrightarrow> ctl_busy m i)"
    if "?f k = Some c" for k c
    using find_ctl_SomeD [OF that] unfolding status_match by blast
  have none: "\<forall>c < nctl m. ctl_booked m c = k \<longrightarrow> ctl_busy m c" if "?f k = None" for k
    using that unfolding find_ctl_None status_match by blast
  have busy: "ctl_busy (?u c) c" "ctl_booked (?u c) c = ctl_booked m c" "pending_ctl_trigger (ctls (?u c) ! c) = 0"
    "\<forall>i. i \<noteq> c \<longrightarrow> ctls (?u c) ! i = ctls m ! i" if "c < nctl m" for c
    using that assms(2) by (simp_all add: CTL_STAT_BUSY_def CTL_STAT_BOOKED_def and_or_distrib or_eq_0_iff)
  note req = assms(1) [unfolded mdp5_ctlm_request_def Let_def k_def [symmetric] x]
  show ?thesis
  proof (cases "?f k")
    case (Some c)
    with req have "r = Some c" "m' = ?u c" by simp_all
    then show ?thesis unfolding k_def [symmetric] using some [OF Some] busy [of c] by simp
  next
    case None
    note N = none [OF None]
    show ?thesis
    proof (cases "?f (\<not> k)")
      case (Some c)
      with None req have "r = Some c" "m' = ?u c" by simp_all
      then show ?thesis unfolding k_def [symmetric] using some [OF Some] busy [of c] N by simp
    next
      case None2: None
      with None req have "r = None" "m' = m" by simp_all
      then show ?thesis using none [OF None2] N by auto
    qed
  qed
qed

section \<open>Commits of a pair\<close>

text \<open>
  The contract of single flush: the commits of two CTLs meet.  A commit waits (\<open>w\<close>) until the other CTL commits too;
  then all masks collected since the last meeting (\<open>acc\<close>) are written at once, to the lower CTL.
\<close>

fun barrier :: "nat option \<Rightarrow> u32 \<Rightarrow> (nat \<times> u32) list \<Rightarrow> (ctl_reg \<times> u32) list" where
  "barrier w acc [] = []"
| "barrier w acc ((c, e) # es) =
     (if w = None \<or> w = Some c then barrier (Some c) (acc OR e) es
      else (if acc OR e = 0 then [] else [(CTL_FLUSH 0, acc OR e)]) @ barrier None 0 es)"

text \<open>A sequence of commits that start at once, and the masks they report.\<close>

fun commits :: "(nat \<times> mdp5_pipeline \<times> u32) list \<Rightarrow> mdp5_ctl_manager \<Rightarrow> ((nat \<times> u32) list \<times> mdp5_ctl_manager) option" where
  "commits [] m = Some ([], m)"
| "commits ((c, pl, fmask) # cs) m =
     (case mdp5_ctl_commit c pl fmask True m of
        None \<Rightarrow> None
      | Some (e, m) \<Rightarrow> (case commits cs m of None \<Rightarrow> None | Some (es, m) \<Rightarrow> Some ((c, e) # es, m)))"

text \<open>What the contract sees of the pair.\<close>

definition pair_state :: "nat option \<Rightarrow> u32 \<Rightarrow> mdp5_ctl_manager \<Rightarrow> bool" where
  "pair_state w acc m = (case ctls m of
       x # y # _ \<Rightarrow> single_flush_pending_mask m = acc \<and> ctl_id x = 0 \<and> ctl_id y = 1 \<and> saved_mask x = 0 \<and> saved_mask y = 0 \<and>
         ctl_pair x = Some 1 \<and> ctl_pair y = Some 0 \<and> (flush_pending x \<longleftrightarrow> w = Some 0) \<and> (flush_pending y \<longleftrightarrow> w = Some 1)
     | _ \<Rightarrow> False)"

lemma pair_stateE:
  assumes "pair_state w acc m"
  obtains x y cs where "ctls m = x # y # cs"
  using assms by (auto simp: pair_state_def split: list.splits)

lemma pair_state_write [simp]: "pair_state w acc (ctl_write r v m) = pair_state w acc m"
  by (simp add: pair_state_def split: list.split)

lemma pair_state_upd:
  assumes "pair_state w acc m" "c < 2" "ctl_id (f (ctls m ! c)) = ctl_id (ctls m ! c)" "saved_mask (f (ctls m ! c)) = 0"
    "ctl_pair (f (ctls m ! c)) = ctl_pair (ctls m ! c)" "flush_pending (f (ctls m ! c)) = flush_pending (ctls m ! c)"
  shows "pair_state w acc (upd_ctl c f m)"
  using assms(1) by (rule pair_stateE) (use assms in \<open>auto simp: less_2_cases_iff pair_state_def\<close>)

lemma single_flush_barrier:
  assumes m: "pair_state w acc m" and c: "c < 2" and w: "w = None \<or> w = Some 0 \<or> w = Some 1"
    and f: "fix_for_single_flush c e (ctl_id (ctls m ! c)) m = (f, fid, m')"
  shows "flush_writes m' = flush_writes m"
    "w = None \<or> w = Some c \<Longrightarrow> f = 0 \<and> pair_state (Some c) (acc OR e) m'"
    "\<not> (w = None \<or> w = Some c) \<Longrightarrow> f = acc OR e \<and> fid = 0 \<and> pair_state None 0 m'"
proof -
  obtain x y cs where l: "ctls m = x # y # cs" using m by (rule pair_stateE)
  show "flush_writes m' = flush_writes m"
    using f by (auto simp: fix_for_single_flush_def Let_def split: option.splits if_splits)
  have xy: "single_flush_pending_mask m = acc" "ctl_id x = 0" "ctl_id y = 1" "saved_mask x = 0" "saved_mask y = 0"
    "ctl_pair x = Some 1" "ctl_pair y = Some 0" "flush_pending x = (w = Some 0)" "flush_pending y = (w = Some 1)"
    using m by (simp_all add: pair_state_def l)
  have f': "(f, fid, m') = fix_for_single_flush c e (ctl_id (ctls m ! c)) m" using f by simp
  have "(w = None \<or> w = Some c \<longrightarrow> f = 0 \<and> pair_state (Some c) (acc OR e) m') \<and>
    (\<not> (w = None \<or> w = Some c) \<longrightarrow> f = acc OR e \<and> fid = 0 \<and> pair_state None 0 m')"
  proof (cases "c = 0")
    case True
    then show ?thesis using f' w by (cases "w = Some 1") (simp_all add: fix_for_single_flush_def Let_def l xy pair_state_def)
  next
    case False
    then have "c = 1" using c by simp
    then show ?thesis using f' w by (cases "w = Some 0") (simp_all add: fix_for_single_flush_def Let_def l xy pair_state_def)
  qed
  then show "w = None \<or> w = Some c \<Longrightarrow> f = 0 \<and> pair_state (Some c) (acc OR e) m'"
    "\<not> (w = None \<or> w = Some c) \<Longrightarrow> f = acc OR e \<and> fid = 0 \<and> pair_state None 0 m'" by blast+
qed

lemma commit_barrier:
  assumes m: "pair_state w acc m" and c: "c < 2" and w: "w = None \<or> w = Some 0 \<or> w = Some 1"
    and m': "mdp5_ctl_commit c pl fmask True m = Some (e, m')"
  shows "if w = None \<or> w = Some c then flush_writes m' = flush_writes m \<and> pair_state (Some c) (acc OR e) m'
    else flush_writes m' = flush_writes m @ (if acc OR e = 0 then [] else [(CTL_FLUSH 0, acc OR e)]) \<and> pair_state None 0 m'"
proof -
  let ?trig = "pending_ctl_trigger (ctls m ! c) AND fmask \<noteq> 0"
  let ?m1 = "if ?trig then upd_ctl c (\<lambda>x. x\<lparr>pending_ctl_trigger := 0\<rparr>) m else m"
  have sv: "saved_mask (ctls n ! c) = 0" if "pair_state v a n" for v a n
    using that by (rule pair_stateE) (use that c in \<open>auto simp: less_2_cases_iff pair_state_def\<close>)
  have m1: "pair_state w acc ?m1" using m pair_state_upd [OF m c] sv [OF m] by simp
  obtain sw where sw: "fix_sw_flush pl (if ?trig then fmask OR MDP5_CTL_FLUSH_CTL else fmask) ?m1 = Some sw"
    and e: "e = ((if ?trig then fmask OR MDP5_CTL_FLUSH_CTL else fmask) OR sw) AND flush_hw_mask ?m1"
    using m' by (auto simp: mdp5_ctl_commit_def Let_def split: option.splits prod.splits if_splits)
  obtain f fid m2 where f: "fix_for_single_flush c e (ctl_id (ctls ?m1 ! c)) ?m1 = (f, fid, m2)"
    by (cases "fix_for_single_flush c e (ctl_id (ctls ?m1 ! c)) ?m1")
  note B = single_flush_barrier [OF m1 c w f]
  let ?st = "\<lambda>m. if start_signal_needed c pl m then send_start_signal c m else m"
  let ?n = "upd_ctl c (\<lambda>x. x\<lparr>saved_mask := 0\<rparr>) m2"
  have st: "flush_writes (?st n) = flush_writes n" "pair_state v a (?st n) = pair_state v a n" for n v a
    by (simp_all add: send_start_signal_def)
  have p2: "pair_state v a ?n" if "pair_state v a m2" for v a
    using that pair_state_upd [OF that c] by simp
  have w2: "flush_writes ?n = flush_writes m" using B(1) by simp
  have m'': "m' = ?st (if f OR saved_mask (ctls m2 ! c) \<noteq> 0 then ctl_write (CTL_FLUSH fid) (f OR saved_mask (ctls m2 ! c)) ?n else ?n)"
    using m' unfolding mdp5_ctl_commit_def Let_def sw option.case e [symmetric] f prod.case by simp
  show ?thesis
  proof (cases "w = None \<or> w = Some c")
    case True
    note b = B(2) [OF this]
    then have "saved_mask (ctls m2 ! c) = 0" using sv by blast
    with b have "m' = ?st ?n" unfolding m'' by simp
    with b show ?thesis unfolding if_P [OF True] using p2 w2 by (simp only: st simp_thms)
  next
    case False
    note b = B(3) [OF this]
    then have "saved_mask (ctls m2 ! c) = 0" using sv by blast
    with b have "m' = ?st (if acc OR e \<noteq> 0 then ctl_write (CTL_FLUSH 0) (acc OR e) ?n else ?n)" unfolding m'' by simp
    with b show ?thesis unfolding if_not_P [OF False] using p2 w2 by (simp only: st) (cases "acc OR e = 0"; simp)
  qed
qed

text \<open>
  C20: Single flush as the contract says: however the starting commits of the two CTLs of a pair are ordered, the writes to
  FLUSH registers are those of the meeting point of the two, fed with the masks the commits report, and all go to the lower CTL.
\<close>

theorem mdp5_ctl_single_flush:
  assumes "pair_state None 0 m" "\<forall>(c, _) \<in> set cs. c < 2" "commits cs m = Some (es, m')"
  shows "flush_writes m' = flush_writes m @ barrier None 0 es"
proof -
  have "flush_writes m' = flush_writes m @ barrier w acc es"
    if "pair_state w acc m" "w = None \<or> w = Some 0 \<or> w = Some 1" "\<forall>(c, _) \<in> set cs. c < 2" "commits cs m = Some (es, m')" for w acc
    using that
  proof (induction cs arbitrary: w acc m es)
    case Nil
    then show ?case by simp
  next
    case (Cons x cs)
    obtain c pl fmask where x: "x = (c, pl, fmask)" by (cases x)
    from Cons.prems(4) obtain e m1 fs where c: "mdp5_ctl_commit c pl fmask True m = Some (e, m1)" "commits cs m1 = Some (fs, m')"
      and es: "es = (c, e) # fs" by (auto simp: x split: option.splits)
    have c2: "c < 2" "\<forall>(c, _) \<in> set cs. c < 2" using Cons.prems(3) by (auto simp: x)
    note B = commit_barrier [OF Cons.prems(1) c2(1) Cons.prems(2) c(1)]
    show ?case
    proof (cases "w = None \<or> w = Some c")
      case True
      with B have "pair_state (Some c) (acc OR e) m1" "flush_writes m1 = flush_writes m" by simp_all
      moreover have "Some c = None \<or> Some c = Some 0 \<or> Some c = Some (1 :: nat)" using c2(1) by auto
      ultimately show ?thesis using Cons.IH [of _ _ m1] c(2) c2(2) True by (simp add: es)
    next
      case False
      with B have "pair_state None 0 m1" by auto
      then show ?thesis using Cons.IH [of None 0 m1] c(2) c2(2) False B by (auto simp: es)
    qed
  qed
  from this [OF assms(1) _ assms(2,3)] show ?thesis by simp
qed

text \<open>
  A deferred commit that meets the waiting CTL 0 is kept in CTL 1 without the number of the lower CTL: the next start on
  CTL 1 writes the masks of both to the FLUSH register of CTL 1, and waits itself.
\<close>

lemma mdp5_ctl_commit_deferred:
  assumes "mdp5_ctl_commit c pl fmask False m = Some (e, m')"
  shows "\<exists>t f fid m2. fix_for_single_flush c e (ctl_id (ctls (upd_ctl c t m) ! c)) (upd_ctl c t m) = (f, fid, m2) \<and>
    (t = (\<lambda>x. x) \<or> t = (\<lambda>x. x\<lparr>pending_ctl_trigger := 0\<rparr>)) \<and> m' = upd_ctl c (\<lambda>x. x\<lparr>saved_mask := saved_mask x OR f\<rparr>) m2"
proof -
  let ?t = "if pending_ctl_trigger (ctls m ! c) AND fmask \<noteq> 0 then (\<lambda>x. x\<lparr>pending_ctl_trigger := 0\<rparr>) else (\<lambda>x. x)"
  have "\<exists>f fid m2. fix_for_single_flush c e (ctl_id (ctls (upd_ctl c ?t m) ! c)) (upd_ctl c ?t m) = (f, fid, m2) \<and>
      m' = upd_ctl c (\<lambda>x. x\<lparr>saved_mask := saved_mask x OR f\<rparr>) m2"
    using assms by (auto simp: mdp5_ctl_commit_def Let_def split: option.splits prod.splits if_splits)
  moreover have "?t = (\<lambda>x. x) \<or> ?t = (\<lambda>x. x\<lparr>pending_ctl_trigger := 0\<rparr>)" by simp
  ultimately show ?thesis by blast
qed

lemma mdp5_ctl_deferred_single_flush:
  assumes m: "pair_state (Some 0) acc m" and d: "mdp5_ctl_commit 1 pl fmask False m = Some (e, m1)"
    and s: "mdp5_ctl_commit 1 pl' fmask' True m1 = Some (e', m2)" and e: "acc OR e \<noteq> 0"
  shows "flush_writes m2 = flush_writes m @ [(CTL_FLUSH 1, acc OR e)]" "flush_pending (ctls m2 ! 1)" "\<not> flush_pending (ctls m2 ! 0)"
proof -
  obtain t f fid n where n: "fix_for_single_flush 1 e (ctl_id (ctls (upd_ctl 1 t m) ! 1)) (upd_ctl 1 t m) = (f, fid, n)"
    and t: "t = (\<lambda>x. x) \<or> t = (\<lambda>x. x\<lparr>pending_ctl_trigger := 0\<rparr>)"
    and m1: "m1 = upd_ctl 1 (\<lambda>x. x\<lparr>saved_mask := saved_mask x OR f\<rparr>) n"
    using mdp5_ctl_commit_deferred [OF d] by blast
  have "saved_mask (ctls m ! 1) = 0" using m by (rule pair_stateE) (use m in \<open>simp add: pair_state_def\<close>)
  with t have "pair_state (Some 0) acc (upd_ctl 1 t m)" using m by (auto intro: pair_state_upd)
  note B = single_flush_barrier [OF this _ _ n]
  then have f: "f = acc OR e" and n': "pair_state None 0 n" and w: "flush_writes n = flush_writes m" by simp_all
  obtain x y cs where l: "ctls n = x # y # cs" using n' by (rule pair_stateE)
  note ps = n' [unfolded pair_state_def l list.case]
  show "flush_writes m2 = flush_writes m @ [(CTL_FLUSH 1, acc OR e)]" "flush_pending (ctls m2 ! 1)" "\<not> flush_pending (ctls m2 ! 0)"
    using s ps w e unfolding m1 f
    by (auto simp: mdp5_ctl_commit_def fix_for_single_flush_def send_start_signal_def Let_def l split: option.splits if_splits)
qed

section \<open>Concrete inputs\<close>

definition wit_pl :: mdp5_pipeline where
  "wit_pl = \<lparr>pl_intf = \<lparr>intf_num = 1, intf_ty = INTF_DSI, intf_mode = MDP5_INTF_DSI_MODE_COMMAND\<rparr>,
     pl_mixer = Some \<lparr>m_idx = 0, m_lm = 0, m_caps = 0\<rparr>, pl_r_mixer = Some \<lparr>m_idx = 1, m_lm = 1, m_caps = 0\<rparr>\<rparr>"

definition wit_ctls :: "mdp5_ctl list" where
  "wit_ctls = [zero_ctl\<lparr>ctl_status := CTL_STAT_BOOKED, ctl_pair := Some 1\<rparr>,
     zero_ctl\<lparr>ctl_id := 1, ctl_status := CTL_STAT_BOOKED, ctl_pair := Some 0\<rparr>,
     zero_ctl\<lparr>ctl_id := 2\<rparr>, zero_ctl, zero_ctl, zero_ctl, zero_ctl, zero_ctl]"

definition wit_ctlm :: mdp5_ctl_manager where
  "wit_ctlm = \<lparr>nlm = 4, nctl = 3, flush_hw_mask = 0xffffffff, single_flush_supported = True,
     single_flush_pending_mask = 0, ctls = wit_ctls, regs = (\<lambda>_. 0)(SPARE_0 := 1), wrs = [(SPARE_0, 1)]\<rparr>"

lemma wit_reach: "ctlm_reach wit_ctlm 0"
proof -
  have u: "[0..<8] = [0, 1, 2, 3, 4, 5, 6, 7 :: nat]" by code_simp
  let ?cs = "map (\<lambda>c. c\<lparr>ctl_pair := None\<rparr>) wit_ctls"
  let ?m = "\<lparr>nlm = 4, nctl = 3, flush_hw_mask = 0xffffffff, single_flush_supported = True,
     single_flush_pending_mask = 0, ctls = ?cs, regs = (\<lambda>_. 0), wrs = []\<rparr>"
  have "mdp5_ctlm_init True 4 [1, 2, 3] 0xffffffff [INTF_DSI, INTF_DSI] 3 (\<lambda>_. 0) = Inr ?m"
    by (simp add: mdp5_ctlm_init_def MAX_CTL_def u Let_def wit_ctls_def zero_ctl_def)
  then have r: "ctlm_reach ?m 0" by (rule ctlm_reach.init)
  have "mdp5_ctl_pair 0 1 True ?m = (0, wit_ctlm)"
    by (simp add: mdp5_ctl_pair_def wit_ctls_def zero_ctl_def CTL_STAT_BOOKED_def wit_ctlm_def upd_ctl_def ctl_write_def)
  then have "ctlm_step ?m 0 wit_ctlm" by (rule ctlm_step.pair [rotated 3]) simp_all
  from ctlm_reach.step [OF r this] show ?thesis by simp
qed

lemma wit_pair: "pair_state None 0 wit_ctlm"
  by (simp add: pair_state_def wit_ctlm_def wit_ctls_def zero_ctl_def)

theorem mdp5_ctlm_well_formed_witness: "ctlm_ok wit_ctlm"
  by (rule mdp5_ctlm_well_formed [OF wit_reach])

theorem mdp5_ctl_commit_accounts_witness:
  "\<exists>m. mdp5_ctl_commit 0 wit_pl 0x41 True wit_ctlm = Some (0x41, m) \<and>
     flushed m OR (or_all (map saved_mask (ctls m)) OR single_flush_pending_mask m) = 0x41"
proof -
  obtain m where m: "mdp5_ctl_commit 0 wit_pl 0x41 True wit_ctlm = Some (0x41, m)"
    by (simp add: mdp5_ctl_commit_def fix_sw_flush_def fix_for_single_flush_def wit_ctlm_def wit_ctls_def zero_ctl_def Let_def
        MDP5_CTL_FLUSH_CURSOR_0_def)
  have "ctlm_step wit_ctlm 0x41 m" by (rule ctlm_step.commit [OF _ m]) (simp add: wit_ctlm_def)
  from ctlm_reach.step [OF wit_reach this] have "ctlm_reach m 0x41" by simp
  from mdp5_ctl_commit_accounts [OF this] m show ?thesis by blast
qed

theorem mdp5_ctlm_request_first_free_witness:
  "fst (mdp5_ctlm_request 0 wit_ctlm) = Some 2 \<and> \<not> ctl_busy wit_ctlm 2 \<and> ctl_busy (snd (mdp5_ctlm_request 0 wit_ctlm)) 2"
proof -
  have r: "fst (mdp5_ctlm_request 0 wit_ctlm) = Some 2"
    by (simp add: mdp5_ctlm_request_def find_ctl_def wit_ctlm_def wit_ctls_def zero_ctl_def Let_def numeral_eq_Suc upt_rec
        CTL_STAT_BOOKED_def CTL_STAT_BUSY_def)
  have "nctl wit_ctlm \<le> length (ctls wit_ctlm)" by (simp add: wit_ctlm_def wit_ctls_def)
  from mdp5_ctlm_request_first_free [OF prod.collapse [symmetric] this, of 0] r show ?thesis by simp
qed

theorem mdp5_ctl_single_flush_witness:
  "\<exists>es m. commits [(1, wit_pl, 0x80), (0, wit_pl, 0x40), (1, wit_pl, 0x1)] wit_ctlm = Some (es, m) \<and>
     flush_writes m = [(CTL_FLUSH 0, 0xc0)]"
proof -
  let ?cs = "[(1, wit_pl, 0x80), (0, wit_pl, 0x40), (1, wit_pl, 0x1)]"
  obtain m where m: "commits ?cs wit_ctlm = Some ([(1, 0x80), (0, 0x40), (1, 0x1)], m)"
    by (simp add: mdp5_ctl_commit_def fix_sw_flush_def fix_for_single_flush_def wit_ctlm_def wit_ctls_def zero_ctl_def Let_def
        MDP5_CTL_FLUSH_CURSOR_0_def upd_ctl_def ctl_write_def start_signal_needed_def)
  have "flush_writes m = flush_writes wit_ctlm @ barrier None 0 [(1, 0x80), (0, 0x40), (1, 0x1)]"
    by (rule mdp5_ctl_single_flush [OF wit_pair _ m]) simp
  then show ?thesis using m by (simp add: flush_writes_def wit_ctlm_def)
qed

definition wit_stage :: "nat \<Rightarrow> nat \<times> nat" where
  "wit_stage i = (if i = 1 then (4, 0) else if i = 8 then (7, 11) else (0, 0))"

theorem mdp5_ctl_blend_stages_witness:
  "\<exists>m. mdp5_ctl_blend 0 wit_pl wit_stage (\<lambda>_. (0, 0)) 3 0 wit_ctlm = Some m \<and>
     decode_stage 7 (regs m (CTL_LAYER 0 0)) (regs m (CTL_LAYER_EXT 0 0)) = 8 \<and>
     decode_stage 11 (regs m (CTL_LAYER 0 0)) (regs m (CTL_LAYER_EXT 0 0)) = 8 \<and>
     decode_stage 7 (regs m (CTL_LAYER 0 1)) (regs m (CTL_LAYER_EXT 0 1)) = 0"
proof -
  obtain m where m: "mdp5_ctl_blend 0 wit_pl wit_stage (\<lambda>_. (0, 0)) 3 0 wit_ctlm = Some m"
    by (simp add: mdp5_ctl_blend_def wit_pl_def Let_def)
  have id: "ctl_id (ctls wit_ctlm ! 0) = 0" by (simp add: wit_ctlm_def wit_ctls_def zero_ctl_def)
  have st: "stage_of wit_stage [1..<9] 7 = Some 8" "stage_of wit_stage [1..<9] 11 = Some 8" "stage_of (\<lambda>_. (0, 0)) [1..<9] 7 = None"
    by code_simp+
  have once: "once wit_stage (blend_stages 0)" by (auto simp: wit_stage_def)
  have "pl_mixer wit_pl = Some \<lparr>m_idx = 0, m_lm = 0, m_caps = 0\<rparr>" by (simp add: wit_pl_def)
  note B = mdp5_ctl_blend_stages [OF m _ this once]
  have "decode_stage 7 (regs m (CTL_LAYER 0 0)) (regs m (CTL_LAYER_EXT 0 0)) = 8 \<and>
     decode_stage 11 (regs m (CTL_LAYER 0 0)) (regs m (CTL_LAYER_EXT 0 0)) = 8 \<and>
     decode_stage 7 (regs m (CTL_LAYER 0 1)) (regs m (CTL_LAYER_EXT 0 1)) = 0"
    using B id st by (auto simp: Let_def wit_pl_def wit_ctlm_def wit_ctls_def)
  with m show ?thesis by blast
qed

end
