(* ===== verification/IOMMU.thy ===== *)
theory IOMMU
  imports Prelude
begin

text \<open>
  The page tables of the GPU (\<^verbatim>\<open>msm/msm_iommu.c\<close>): mapping and unmapping of buffers page by page in the page table of
  a process, the creation and destruction of these tables with the switch of TTBR0, and the address space of the kernel.

  The page table code of the kernel (\<^verbatim>\<open>io-pgtable\<close>) is a parameter: its two operations on a table of some
  type \<open>'p\<close>.  So are the SMMU driver and the allocators: their results are arguments.  Sizes and
  addresses are 64-bit words, so that a size that is no multiple of the page size wraps and the loop does
  not end; then the result is \<open>None\<close>, as for a pointer to no table.
\<close>

section \<open>Page by page (msm_iommu.c)\<close>

text \<open>\<open>pg_map\<close>: an address, the physical address, the protection; \<open>pg_unmap\<close>: an address.  The size is 4096 in all calls.\<close>

record 'p io_pgtable_ops =
  pg_map :: "'p \<Rightarrow> u64 \<Rightarrow> u64 \<Rightarrow> int \<Rightarrow> int \<times> 'p"
  pg_unmap :: "'p \<Rightarrow> u64 \<Rightarrow> u64 \<times> 'p"

partial_function (option) unmap_pages :: "'p io_pgtable_ops \<Rightarrow> u64 \<Rightarrow> u64 \<Rightarrow> u64 \<Rightarrow> 'p \<Rightarrow> (u64 \<times> 'p) option" where
  "unmap_pages ops iova sz unmapped p =
     (if sz = 0 then Some (unmapped, p)
      else case pg_unmap ops p iova of (n, p) \<Rightarrow> unmap_pages ops (iova + 4096) (sz - 4096) (unmapped + n) p)"

text \<open>The inner loop of the mapping function; the flag says whether it got to its end.\<close>

partial_function (option) map_pages ::
  "'p io_pgtable_ops \<Rightarrow> int \<Rightarrow> u64 \<Rightarrow> u64 \<Rightarrow> u64 \<Rightarrow> u64 \<Rightarrow> 'p \<Rightarrow> (bool \<times> u64 \<times> u64 \<times> 'p) option" where
  "map_pages ops prot addr phys sz mapped p =
     (if sz = 0 then Some (True, addr, mapped, p)
      else case pg_map ops p addr phys prot of (r, p) \<Rightarrow>
        if r \<noteq> 0 then Some (False, addr, mapped, p)
        else map_pages ops prot (addr + 4096) (phys + 4096) (sz - 4096) (mapped + 4096) p)"

text \<open>The entries of a scatter list: physical address and length.\<close>

fun map_sgs :: "'p io_pgtable_ops \<Rightarrow> int \<Rightarrow> (u64 \<times> u32) list \<Rightarrow> u64 \<Rightarrow> u64 \<Rightarrow> 'p \<Rightarrow> (bool \<times> u64 \<times> 'p) option" where
  "map_sgs ops prot [] addr mapped p = Some (True, mapped, p)"
| "map_sgs ops prot ((phys, len) # sg) addr mapped p =
     (case map_pages ops prot addr phys (ucast len) mapped p of
        None \<Rightarrow> None
      | Some (ok, addr, mapped, p) \<Rightarrow> if ok then map_sgs ops prot sg addr mapped p else Some (False, mapped, p))"

section \<open>The device (msm_iommu.c, msm_mmu.h, adreno-smmu-priv.h)\<close>

datatype msm_mmu_type = MSM_MMU_GPUMMU | MSM_MMU_IOMMU | MSM_MMU_IOMMU_PAGETABLE

record io_pgtable_cfg =
  quirks :: u64
  tlb_null :: bool
  cfg_ttbr :: u64

record 'p msm_iommu_pagetable =
  pg :: 'p
  ttbr :: u64
  asid :: u32

text \<open>
  The MMU of the GPU, and the SMMU driver behind it.  \<open>ttbr0\<close> is the configuration the SMMU has for TTBR0, if it is
  enabled; \<open>tables\<close> are the page tables in memory by their addresses; \<open>tlb_flushes\<close> counts the flushes of the TLB.
\<close>

record 'p msm_iommu =
  pagetables :: int
  fault_handler :: bool
  stall :: bool
  ttbr0 :: "io_pgtable_cfg option"
  tlb_flushes :: nat
  tables :: "nat \<Rightarrow> 'p msm_iommu_pagetable option"

definition msm_iommu_pagetable_unmap ::
  "'p io_pgtable_ops \<Rightarrow> nat \<Rightarrow> u64 \<Rightarrow> u64 \<Rightarrow> 'p msm_iommu \<Rightarrow> (int \<times> 'p msm_iommu) option" where
  "msm_iommu_pagetable_unmap ops h iova sz d =
     (case tables d h of
        None \<Rightarrow> None
      | Some t \<Rightarrow>
          (case unmap_pages ops iova sz 0 (pg t) of
             None \<Rightarrow> None
           | Some (unmapped, p) \<Rightarrow>
               Some (if unmapped = sz then 0 else - EINVAL,
                     d\<lparr>tables := (tables d)(h \<mapsto> t\<lparr>pg := p\<rparr>), tlb_flushes := Suc (tlb_flushes d)\<rparr>)))"

definition msm_iommu_pagetable_map ::
  "'p io_pgtable_ops \<Rightarrow> nat \<Rightarrow> u64 \<Rightarrow> (u64 \<times> u32) list \<Rightarrow> u64 \<Rightarrow> int \<Rightarrow> 'p msm_iommu \<Rightarrow> (int \<times> 'p msm_iommu) option" where
  "msm_iommu_pagetable_map ops h iova sgt len prot d =
     (case tables d h of
        None \<Rightarrow> None
      | Some t \<Rightarrow>
          (case map_sgs ops prot sgt iova 0 (pg t) of
             None \<Rightarrow> None
           | Some (ok, mapped, p) \<Rightarrow>
               let d = d\<lparr>tables := (tables d)(h \<mapsto> t\<lparr>pg := p\<rparr>)\<rparr>
               in if ok then Some (0, d)
                  else map_option (\<lambda>(_, d). (- EINVAL, d)) (msm_iommu_pagetable_unmap ops h iova mapped d)))"

definition msm_iommu_pagetable_destroy :: "nat \<Rightarrow> 'p msm_iommu \<Rightarrow> 'p msm_iommu option" where
  "msm_iommu_pagetable_destroy h d =
     (case tables d h of
        None \<Rightarrow> None
      | Some t \<Rightarrow>
          let n = pagetables d - 1
          in Some (d\<lparr>pagetables := n, ttbr0 := (if n = 0 then None else ttbr0 d), tables := (tables d)(h := None)\<rparr>))"

text \<open>The two results are written through pointers that may be null: \<open>None\<close> leaves the caller's variable alone.\<close>

definition msm_iommu_pagetable_params ::
  "msm_mmu_type \<Rightarrow> 'p msm_iommu_pagetable \<Rightarrow> u64 option \<Rightarrow> u32 option \<Rightarrow> int \<times> u64 option \<times> u32 option" where
  "msm_iommu_pagetable_params ty t pttbr pasid =
     (if ty \<noteq> MSM_MMU_IOMMU_PAGETABLE then (- EINVAL, pttbr, pasid)
      else (0, map_option (\<lambda>_. ttbr t) pttbr, map_option (\<lambda>_. asid t) pasid))"

text \<open>
  \<open>quirk1\<close>: the flag \<^verbatim>\<open>IO_PGTABLE_QUIRK_ARM_TTBR1\<close> of the kernel; \<open>ttbr1\<close>: the configuration the SMMU driver gives, if there is a driver and it gives one; \<open>kz\<close>: the
  allocation of the structure succeeds; \<open>alloc\<close>: the new table and its completed configuration; \<open>set0\<close>: what
  \<^verbatim>\<open>set_ttbr0_cfg\<close> answers; \<open>h\<close>: the address of the new structure.
\<close>

definition msm_iommu_pagetable_create ::
  "u64 \<Rightarrow> io_pgtable_cfg option \<Rightarrow> bool \<Rightarrow> (io_pgtable_cfg \<Rightarrow> ('p \<times> io_pgtable_cfg) option) \<Rightarrow> (io_pgtable_cfg \<Rightarrow> int) \<Rightarrow> nat \<Rightarrow>
   'p msm_iommu \<Rightarrow> (int + nat) \<times> 'p msm_iommu" where
  "msm_iommu_pagetable_create quirk1 ttbr1 kz alloc set0 h d =
     (case ttbr1 of
        None \<Rightarrow> (Inl (- ENODEV), d)
      | Some cfg1 \<Rightarrow>
          let d = d\<lparr>fault_handler := True\<rparr>
          in if \<not> kz then (Inl (- ENOMEM), d)
             else let cfg0 = cfg1\<lparr>quirks := quirks cfg1 AND NOT quirk1, tlb_null := True\<rparr>
             in (case alloc cfg0 of
                   None \<Rightarrow> (Inl (- ENOMEM), d)
                 | Some (p, cfg0) \<Rightarrow>
                     let first = (pagetables d + 1 = 1);
                         d = d\<lparr>pagetables := pagetables d + 1\<rparr>;
                         d = (if first then d\<lparr>stall := True\<rparr> else d);
                         ret = (if first then set0 cfg0 else 0)
                     in if ret \<noteq> 0 then (Inl ret, d)
                        else (Inr h, d\<lparr>ttbr0 := (if first then Some cfg0 else ttbr0 d),
                               tables := (tables d)(h \<mapsto> \<lparr>pg = p, ttbr = cfg_ttbr cfg0, asid = 0\<rparr>)\<rparr>)))"

section \<open>The address space of the kernel (msm_iommu.c)\<close>

text \<open>The SMMU expects addresses whose bit 48 is extended.\<close>

definition sign_extend_iova :: "u64 \<Rightarrow> u64" where
  "sign_extend_iova iova = (if iova AND 0x1000000000000 \<noteq> 0 then iova OR 0xfffe000000000000 else iova)"

text \<open>\<open>dmap\<close>, \<open>dunmap\<close>: mapping and unmapping in an IOMMU domain; the first returns the number of bytes mapped.\<close>

definition msm_iommu_map ::
  "(u64 \<Rightarrow> (u64 \<times> u32) list \<Rightarrow> int \<Rightarrow> 'd \<Rightarrow> u64 \<times> 'd) \<Rightarrow> u64 \<Rightarrow> (u64 \<times> u32) list \<Rightarrow> u64 \<Rightarrow> int \<Rightarrow> 'd \<Rightarrow> int \<times> 'd" where
  "msm_iommu_map dmap iova sgt len prot dm =
     (case dmap (sign_extend_iova iova) sgt prot dm of (ret, dm) \<Rightarrow> (if ret = len then 0 else - EINVAL, dm))"

definition msm_iommu_unmap :: "(u64 \<Rightarrow> u64 \<Rightarrow> 'd \<Rightarrow> 'd) \<Rightarrow> u64 \<Rightarrow> u64 \<Rightarrow> 'd \<Rightarrow> int \<times> 'd" where
  "msm_iommu_unmap dunmap iova len dm = (0, dunmap (sign_extend_iova iova) len dm)"

text \<open>\<open>domain\<close>: there is a domain; \<open>attach\<close>: the result of attaching the device.\<close>

definition msm_iommu_new :: "bool \<Rightarrow> bool \<Rightarrow> int \<Rightarrow> int + 'p msm_iommu" where
  "msm_iommu_new domain kz attach =
     (if \<not> domain then Inl (- ENODEV)
      else if \<not> kz then Inl (- ENOMEM)
      else if attach \<noteq> 0 then Inl attach
      else Inr \<lparr>pagetables = 0, fault_handler = False, stall = False, ttbr0 = None, tlb_flushes = 0, tables = (\<lambda>_. None)\<rparr>)"

end
