(* ===== verification/IOMMU_Correct.thy ===== *)
theory IOMMU_Correct
  imports IOMMU
begin

text \<open>
  Correctness of the page tables: mapping is all or nothing, unmapping undoes it, both loops end exactly on
  whole pages, and TTBR0 follows the number of page tables as long as the SMMU driver accepts the first one.
\<close>

section \<open>Tables that behave as documented\<close>

text \<open>
  What the page table code of the kernel promises, in terms of the translation \<open>lk p\<close> of a table \<open>p\<close>: mapping a page
  succeeds only where nothing is mapped and adds just this page, or fails and changes nothing; unmapping returns the bytes
  unmapped, and removes just this page.
\<close>

definition pgtbl_laws :: "'p io_pgtable_ops \<Rightarrow> ('p \<Rightarrow> u64 \<Rightarrow> (u64 \<times> int) option) \<Rightarrow> bool" where
  "pgtbl_laws ops lk = (\<forall>p va.
     (\<forall>pa prot r p'. pg_map ops p va pa prot = (r, p') \<longrightarrow>
        (if r = 0 then lk p va = None \<and> lk p' = (lk p)(va \<mapsto> (pa, prot)) else lk p' = lk p)) \<and>
     (\<forall>n p'. pg_unmap ops p va = (n, p') \<longrightarrow>
        n = (if lk p va = None then 0 else 4096) \<and> lk p' = (lk p)(va := None)))"

text \<open>The addresses of \<open>k\<close> pages from an address on.\<close>

fun pages :: "u64 \<Rightarrow> nat \<Rightarrow> u64 list" where
  "pages va 0 = []"
| "pages va (Suc k) = va # pages (va + 4096) k"

lemma length_pages [simp]: "length (pages va k) = k"
  by (induction k arbitrary: va) simp_all

lemma pages_nth: "i < k \<Longrightarrow> pages va k ! i = va + 4096 * of_nat i"
  by (induction k arbitrary: va i) (auto simp: nth_Cons algebra_simps split: nat.split)

lemma pages_append: "pages va (j + k) = pages va j @ pages (va + 4096 * of_nat j) k"
  by (induction j arbitrary: va) (simp_all add: algebra_simps)

text \<open>Sizes of whole pages.\<close>

definition page_bytes :: "nat \<Rightarrow> u64" where
  "page_bytes k = 4096 * of_nat k"

lemma page_bytes_simps [simp]: "page_bytes 0 = 0" "page_bytes (Suc k) - 4096 = page_bytes k" "page_bytes (Suc k) = 4096 + page_bytes k"
  by (simp_all add: page_bytes_def algebra_simps)

lemma unat_page_bytes: "k < 2 ^ 52 \<Longrightarrow> unat (page_bytes k) = 4096 * k"
  unfolding page_bytes_def by (simp add: unat_word_ariths unat_of_nat take_bit_eq_mod)

lemma page_bytes_0: "k < 2 ^ 52 \<Longrightarrow> page_bytes k = 0 \<longleftrightarrow> k = 0"
  using unat_page_bytes [of k] by (metis mult_is_0 page_bytes_simps(1) unat_eq_0 zero_neq_numeral)

lemma page_bytes_inj: "j < 2 ^ 52 \<Longrightarrow> k < 2 ^ 52 \<Longrightarrow> page_bytes j = page_bytes k \<longleftrightarrow> j = k"
  using unat_page_bytes [of j] unat_page_bytes [of k] by (metis mult_cancel1 zero_neq_numeral)

lemma distinct_pages: "k < 2 ^ 52 \<Longrightarrow> distinct (pages va k)"
  unfolding distinct_conv_nth
  by (auto simp: pages_nth page_bytes_def [symmetric] page_bytes_inj)

section \<open>The loops\<close>

lemma unmap_pages_None:
  assumes "unmap_pages ops va sz acc p = Some r"
  shows "\<exists>k. sz = page_bytes k"
proof (rule unmap_pages.raw_induct [where P = "\<lambda>ops va sz acc p r. \<exists>k. sz = page_bytes k", OF _ assms])
  fix f :: "'a io_pgtable_ops \<Rightarrow> u64 \<Rightarrow> u64 \<Rightarrow> u64 \<Rightarrow> 'a \<Rightarrow> (u64 \<times> 'a) option" and ops va sz acc p r
  assume IH: "\<And>ops va sz acc p r. f ops va sz acc p = Some r \<Longrightarrow> \<exists>k. sz = page_bytes k"
    and eq: "(if sz = 0 then Some (acc, p)
       else case pg_unmap ops p va of (n, p) \<Rightarrow> f ops (va + 4096) (sz - 4096) (acc + n) p) = Some r"
  show "\<exists>k. sz = page_bytes k"
  proof (cases "sz = 0")
    case True
    then show ?thesis by (intro exI [of _ 0]) simp
  next
    case False
    obtain n p' where "pg_unmap ops p va = (n, p')" by fastforce
    with False eq have "f ops (va + 4096) (sz - 4096) (acc + n) p' = Some r" by simp
    then obtain k where "sz - 4096 = page_bytes k" using IH by blast
    then have "sz = page_bytes (Suc k)" by (simp add: diff_eq_eq)
    then show ?thesis by blast
  qed
qed

lemma unmap_pages_Suc:
  "Suc k < 2 ^ 52 \<Longrightarrow> unmap_pages ops va (page_bytes (Suc k)) acc p =
     (case pg_unmap ops p va of (n, p) \<Rightarrow> unmap_pages ops (va + 4096) (page_bytes k) (acc + n) p)"
  by (subst unmap_pages.simps) (simp add: page_bytes_0 [of "Suc k", simplified] split: prod.split)

lemma unmap_pages_Some:
  "k < 2 ^ 52 \<Longrightarrow> \<exists>r. unmap_pages ops va (page_bytes k) acc p = Some r"
proof (induction k arbitrary: va acc p)
  case 0
  then show ?case by (subst unmap_pages.simps) simp
next
  case (Suc k)
  then show ?case unfolding unmap_pages_Suc [OF Suc.prems] by (auto split: prod.split)
qed

lemma unat_lt2p_64: "unat (w :: u64) < 2 ^ 64"
  using unsigned_less [of w] by simp

lemma aligned_page_bytes:
  "4096 dvd unat (sz :: u64) \<Longrightarrow> \<exists>k < 2 ^ 52. sz = page_bytes k"
proof -
  assume "4096 dvd unat sz"
  then obtain k where k: "unat sz = 4096 * k" by blast
  then have "4096 * k < 2 ^ 64" using unat_lt2p_64 [of sz] by simp
  then have lt: "k < 2 ^ 52" by simp
  moreover have "sz = page_bytes k" using unat_page_bytes [OF lt] k by (simp add: word_unat_eq_iff)
  ultimately show ?thesis by blast
qed

lemma page_bytes_aligned: "4096 dvd unat (page_bytes k)"
proof -
  have "unat (page_bytes k) = (4096 * k) mod 2 ^ 64"
    by (simp add: page_bytes_def unat_word_ariths unat_of_nat mod_mult_right_eq)
  moreover have "(4096 :: nat) dvd 2 ^ 64" by simp
  ultimately show ?thesis by (simp only: dvd_mod dvd_triv_left)
qed

text \<open>Unmapping by the laws.\<close>

definition mapped_count :: "('p \<Rightarrow> u64 \<Rightarrow> (u64 \<times> int) option) \<Rightarrow> 'p \<Rightarrow> u64 list \<Rightarrow> nat" where
  "mapped_count lk p vas = length (filter (\<lambda>a. lk p a \<noteq> None) vas)"

lemma unmap_pages_spec:
  assumes laws: "pgtbl_laws ops lk" and k: "k < 2 ^ 52"
  shows "\<exists>p'. unmap_pages ops va (page_bytes k) acc p = Some (acc + page_bytes (mapped_count lk p (pages va k)), p') \<and>
    lk p' = lk p |` (- set (pages va k))"
  using k
proof (induction k arbitrary: va acc p)
  case 0
  then show ?case by (subst unmap_pages.simps) (simp add: mapped_count_def restrict_map_def)
next
  case (Suc k)
  obtain n p1 where u: "pg_unmap ops p va = (n, p1)" by fastforce
  with laws have n: "n = (if lk p va = None then 0 else 4096)" and l1: "lk p1 = (lk p)(va := None)"
    unfolding pgtbl_laws_def by blast+
  have new: "va \<notin> set (pages (va + 4096) k)" using distinct_pages [OF Suc.prems, of va] by simp
  then have same: "mapped_count lk p1 (pages (va + 4096) k) = mapped_count lk p (pages (va + 4096) k)"
    unfolding mapped_count_def l1 by (intro arg_cong [where f = length] filter_cong) auto
  from Suc.IH [of "va + 4096" "acc + n" p1] Suc.prems obtain p' where
    p': "unmap_pages ops (va + 4096) (page_bytes k) (acc + n) p1 = Some (acc + n + page_bytes (mapped_count lk p (pages (va + 4096) k)), p')"
      "lk p' = lk p1 |` (- set (pages (va + 4096) k))" unfolding same by auto
  have "acc + n + page_bytes (mapped_count lk p (pages (va + 4096) k)) = acc + page_bytes (mapped_count lk p (pages va (Suc k)))"
    using n by (simp add: mapped_count_def)
  moreover have "lk p' = lk p |` (- set (pages va (Suc k)))"
    unfolding p'(2) l1 by (rule ext) (simp add: restrict_map_def)
  ultimately show ?case unfolding unmap_pages_Suc [OF Suc.prems] u using p'(1) by simp
qed

text \<open>Mapping by the laws.  \<open>j\<close> pages get mapped.\<close>

definition translation :: "u64 list \<Rightarrow> u64 list \<Rightarrow> int \<Rightarrow> u64 \<Rightarrow> (u64 \<times> int) option" where
  "translation vas pas prot = map_of (zip vas (map (\<lambda>pa. (pa, prot)) pas))"

definition mapped_by :: "('p \<Rightarrow> u64 \<Rightarrow> (u64 \<times> int) option) \<Rightarrow> int \<Rightarrow> u64 \<Rightarrow> u64 list \<Rightarrow> 'p \<Rightarrow> 'p \<Rightarrow> bool" where
  "mapped_by lk prot va pas p p' = (lk p' = lk p ++ translation (pages va (length pas)) pas prot \<and>
     (\<forall>a \<in> set (pages va (length pas)). lk p a = None))"

lemma dom_translation: "length vas = length pas \<Longrightarrow> dom (translation vas pas prot) = set vas"
  by (simp add: translation_def dom_map_of_zip)

lemma map_pages_Suc:
  "Suc k < 2 ^ 52 \<Longrightarrow> map_pages ops prot va pa (page_bytes (Suc k)) acc p =
     (case pg_map ops p va pa prot of (r, p) \<Rightarrow>
        if r \<noteq> 0 then Some (False, va, acc, p) else map_pages ops prot (va + 4096) (pa + 4096) (page_bytes k) (acc + 4096) p)"
  by (subst map_pages.simps) (simp add: page_bytes_0 [of "Suc k", simplified] split: prod.split)

lemma mapped_by_Nil [simp]: "mapped_by lk prot va [] p p' \<longleftrightarrow> lk p' = lk p"
  by (simp add: mapped_by_def translation_def)

lemma mapped_by_Cons:
  assumes "lk p va = None" "lk p1 = (lk p)(va \<mapsto> (pa, prot))" "mapped_by lk prot (va + 4096) pas p1 p'"
  shows "mapped_by lk prot va (pa # pas) p p'"
proof -
  let ?vas = "pages (va + 4096) (length pas)"
  have l': "lk p' = lk p1 ++ translation ?vas pas prot" and none: "\<forall>a \<in> set ?vas. lk p1 a = None"
    using assms(3) by (simp_all add: mapped_by_def)
  have va: "va \<notin> set ?vas" using none assms(2) by auto
  then have "va \<notin> dom (translation ?vas pas prot)" using dom_translation [of ?vas pas prot] by simp
  moreover have "translation (va # ?vas) (pa # pas) prot = (translation ?vas pas prot)(va \<mapsto> (pa, prot))"
    by (simp add: translation_def)
  ultimately have "lk p' = lk p ++ translation (va # ?vas) (pa # pas) prot"
    unfolding l' assms(2) by (simp add: map_add_upd_left)
  moreover have "lk p a = None" if "a \<in> set ?vas" for a
    using none that va assms(2) by (metis fun_upd_other)
  ultimately show ?thesis using assms(1) by (simp add: mapped_by_def)
qed

lemma map_pages_spec:
  assumes laws: "pgtbl_laws ops lk" and k: "k < 2 ^ 52"
  shows "\<exists>j p'. j \<le> k \<and> map_pages ops prot va pa (page_bytes k) acc p = Some (j = k, va + page_bytes j, acc + page_bytes j, p') \<and>
    mapped_by lk prot va (pages pa j) p p'"
  using k
proof (induction k arbitrary: va pa acc p)
  case 0
  then show ?case by (subst map_pages.simps) simp
next
  case (Suc k)
  obtain r p1 where m: "pg_map ops p va pa prot = (r, p1)" by fastforce
  with laws have l: "if r = 0 then lk p va = None \<and> lk p1 = (lk p)(va \<mapsto> (pa, prot)) else lk p1 = lk p"
    unfolding pgtbl_laws_def by blast
  show ?case
  proof (cases "r = 0")
    case False
    then show ?thesis unfolding map_pages_Suc [OF Suc.prems] m using l by (intro exI [of _ 0]) simp
  next
    case True
    from Suc.IH [of "va + 4096" "pa + 4096" "acc + 4096" p1] Suc.prems obtain j p' where j: "j \<le> k"
      "map_pages ops prot (va + 4096) (pa + 4096) (page_bytes k) (acc + 4096) p1 =
        Some (j = k, va + 4096 + page_bytes j, acc + 4096 + page_bytes j, p')"
      "mapped_by lk prot (va + 4096) (pages (pa + 4096) j) p1 p'" by auto
    have "mapped_by lk prot va (pages pa (Suc j)) p p'"
      using True l j(3) mapped_by_Cons [of lk p va p1 pa prot] by simp
    then show ?thesis unfolding map_pages_Suc [OF Suc.prems] m using True j by (intro exI [of _ "Suc j"]) (simp add: algebra_simps)
  qed
qed

lemma mapped_by_append:
  assumes "mapped_by lk prot va xs p p1" "mapped_by lk prot (va + page_bytes (length xs)) ys p1 p'"
  shows "mapped_by lk prot va (xs @ ys) p p'"
proof -
  let ?v = "pages va (length xs)" and ?w = "pages (va + page_bytes (length xs)) (length ys)"
  let ?f = "translation ?v xs prot" and ?g = "translation ?w ys prot"
  have l: "lk p1 = lk p ++ ?f" "lk p' = lk p1 ++ ?g"
    and n: "\<forall>a \<in> set ?v. lk p a = None" "\<forall>a \<in> set ?w. lk p1 a = None"
    using assms by (simp_all add: mapped_by_def)
  have vw: "pages va (length xs + length ys) = ?v @ ?w" by (simp add: pages_append page_bytes_def)
  have tr: "translation (?v @ ?w) (xs @ ys) prot = ?g ++ ?f" by (simp add: translation_def)
  have d: "dom ?f = set ?v" "dom ?g = set ?w" by (simp_all add: dom_translation)
  have disj: "dom ?f \<inter> dom ?g = {}"
  proof -
    have "lk p1 a \<noteq> None" if "a \<in> dom ?f" for a using that unfolding l by (auto simp: map_add_def)
    then show ?thesis using n(2) d by blast
  qed
  have "lk p' = lk p ++ (?g ++ ?f)" by (simp only: l map_add_comm [OF disj, symmetric] map_add_assoc)
  moreover have "lk p a = None" if "a \<in> set ?w" for a
  proof -
    have "a \<notin> dom ?f" using that disj d by blast
    then have "lk p1 a = lk p a" unfolding l by (simp add: map_add_dom_app_simps)
    then show ?thesis using n(2) that by simp
  qed
  ultimately show ?thesis using n(1) by (auto simp: mapped_by_def vw tr)
qed

text \<open>Scatter lists: the physical pages in order.\<close>

definition sg_pages :: "(u64 \<times> u32) list \<Rightarrow> u64 list" where
  "sg_pages sgt = concat (map (\<lambda>(pa, len). pages pa (unat len div 4096)) sgt)"

lemma sg_len:
  assumes "4096 dvd unat (len :: u32)"
  shows "ucast len = page_bytes (unat len div 4096)" "unat len div 4096 < 2 ^ 52"
proof -
  have "unat len < 2 ^ 32" using unsigned_less [of len] by simp
  moreover from this show lt: "unat len div 4096 < 2 ^ 52" by simp
  ultimately have "unat (ucast len :: u64) = unat len" by (simp add: unsigned_ucast_eq take_bit_nat_eq_self)
  with assms unat_page_bytes [OF lt] show "ucast len = page_bytes (unat len div 4096)" by (simp add: word_unat_eq_iff)
qed

lemma map_sgs_spec:
  assumes laws: "pgtbl_laws ops lk" and al: "\<forall>(pa, len) \<in> set sgt. 4096 dvd unat len"
  shows "\<exists>j p'. j \<le> length (sg_pages sgt) \<and>
    map_sgs ops prot sgt va acc p = Some (j = length (sg_pages sgt), acc + page_bytes j, p') \<and>
    mapped_by lk prot va (take j (sg_pages sgt)) p p'"
  using al
proof (induction sgt arbitrary: va acc p)
  case Nil
  then show ?case by (simp add: sg_pages_def)
next
  case (Cons x sgt)
  obtain pa len where x: "x = (pa, len)" by fastforce
  let ?k = "unat len div 4096"
  have len: "ucast len = page_bytes ?k" "?k < 2 ^ 52" using sg_len [of len] Cons.prems x by auto
  have sg: "sg_pages (x # sgt) = pages pa ?k @ sg_pages sgt" by (simp add: sg_pages_def x)
  from map_pages_spec [OF laws len(2), of prot va pa acc p] obtain j p1 where j: "j \<le> ?k"
    "map_pages ops prot va pa (ucast len) acc p = Some (j = ?k, va + page_bytes j, acc + page_bytes j, p1)"
    "mapped_by lk prot va (pages pa j) p p1" unfolding len(1) by blast
  show ?case
  proof (cases "j = ?k")
    case True
    have "\<forall>(pa, len) \<in> set sgt. 4096 dvd unat len" using Cons.prems by simp
    from Cons.IH [OF this, of "va + page_bytes j" "acc + page_bytes j" p1] obtain i p' where i: "i \<le> length (sg_pages sgt)"
      "map_sgs ops prot sgt (va + page_bytes j) (acc + page_bytes j) p1 =
         Some (i = length (sg_pages sgt), acc + page_bytes j + page_bytes i, p')"
      "mapped_by lk prot (va + page_bytes j) (take i (sg_pages sgt)) p1 p'" by blast
    have "mapped_by lk prot va (pages pa j @ take i (sg_pages sgt)) p p'"
      by (rule mapped_by_append [OF j(3)]) (use i(3) in simp)
    then show ?thesis using i j True by (intro exI [of _ "?k + i"]) (simp add: x sg [unfolded x] page_bytes_def algebra_simps)
  next
    case False
    have tk: "take j (pages pa ?k) = pages pa j" using pages_append [of pa j "?k - j"] j(1) by simp
    then show ?thesis using j False by (intro exI [of _ j]) (simp add: x sg [unfolded x])
  qed
qed

section \<open>Mapping and unmapping\<close>

lemma unmap_by_laws:
  assumes laws: "pgtbl_laws ops lk" and k: "k < 2 ^ 52" and t: "tables d h = Some t"
  shows "\<exists>p'. msm_iommu_pagetable_unmap ops h va (page_bytes k) d =
      Some (if \<forall>a \<in> set (pages va k). lk (pg t) a \<noteq> None then 0 else - EINVAL,
        d\<lparr>tables := (tables d)(h \<mapsto> t\<lparr>pg := p'\<rparr>), tlb_flushes := Suc (tlb_flushes d)\<rparr>) \<and>
      lk p' = lk (pg t) |` (- set (pages va k))"
proof -
  let ?n = "mapped_count lk (pg t) (pages va k)"
  obtain p' where p': "unmap_pages ops va (page_bytes k) 0 (pg t) = Some (page_bytes ?n, p')" "lk p' = lk (pg t) |` (- set (pages va k))"
    using unmap_pages_spec [OF laws k, of va 0 "pg t"] by auto
  have le: "?n \<le> k" unfolding mapped_count_def by (metis length_filter_le length_pages)
  have "page_bytes ?n = page_bytes k \<longleftrightarrow> ?n = k" using page_bytes_inj le k by simp
  also have "\<dots> \<longleftrightarrow> (\<forall>a \<in> set (pages va k). lk (pg t) a \<noteq> None)"
    unfolding mapped_count_def by (metis (mono_tags, lifting) filter_True length_filter_less length_pages less_irrefl)
  finally show ?thesis using p' t by (intro exI [of _ p']) (simp add: msm_iommu_pagetable_unmap_def)
qed

text \<open>
  C34: Mapping a scatter list is all or nothing: on a page table that behaves as documented, and a list
  of whole pages, \<^verbatim>\<open>msm_iommu_pagetable_map\<close> returns, either with 0 and exactly the pages of the list mapped one after
  the other where nothing was mapped before, or with \<^verbatim>\<open>-EINVAL\<close> and every translation as before.
\<close>

theorem msm_iommu_pagetable_map_atomic:
  assumes "pgtbl_laws ops lk" "tables d h = Some t" "\<forall>(pa, len) \<in> set sgt. 4096 dvd unat len"
    and "length (sg_pages sgt) < 2 ^ 52"
  shows "\<exists>r d' t'. msm_iommu_pagetable_map ops h iova sgt len prot d = Some (r, d') \<and> tables d' h = Some t' \<and>
    (let vas = pages iova (length (sg_pages sgt))
     in r = 0 \<and> (\<forall>a \<in> set vas. lk (pg t) a = None) \<and> lk (pg t') = lk (pg t) ++ translation vas (sg_pages sgt) prot \<or>
        r = - EINVAL \<and> lk (pg t') = lk (pg t))"
proof -
  let ?K = "length (sg_pages sgt)"
  obtain j p' where j: "j \<le> ?K" "map_sgs ops prot sgt iova 0 (pg t) = Some (j = ?K, page_bytes j, p')"
    "mapped_by lk prot iova (take j (sg_pages sgt)) (pg t) p'"
    using map_sgs_spec [OF assms(1,3), of prot iova 0 "pg t"] by auto
  let ?d = "d\<lparr>tables := (tables d)(h \<mapsto> t\<lparr>pg := p'\<rparr>)\<rparr>"
  show ?thesis
  proof (cases "j = ?K")
    case True
    with j assms(2) show ?thesis by (simp add: msm_iommu_pagetable_map_def mapped_by_def)
  next
    case False
    have j52: "j < 2 ^ 52" using j(1) assms(4) by simp
    obtain p2 r where u: "msm_iommu_pagetable_unmap ops h iova (page_bytes j) ?d =
        Some (r, ?d\<lparr>tables := (tables ?d)(h \<mapsto> t\<lparr>pg := p'\<rparr>\<lparr>pg := p2\<rparr>), tlb_flushes := Suc (tlb_flushes ?d)\<rparr>)"
      "lk p2 = lk p' |` (- set (pages iova j))"
      using unmap_by_laws [OF assms(1) j52, of ?d h "t\<lparr>pg := p'\<rparr>" iova] by auto
    have len: "length (take j (sg_pages sgt)) = j" using j(1) by simp
    have "lk p2 = lk (pg t)"
    proof (rule ext)
      fix a
      show "lk p2 a = lk (pg t) a"
        using j(3) u(2) dom_translation [of "pages iova j" "take j (sg_pages sgt)" prot] len
        by (cases "a \<in> set (pages iova j)") (simp_all add: mapped_by_def restrict_map_def map_add_dom_app_simps)
    qed
    then show ?thesis using False j assms(2) u(1) by (auto simp: msm_iommu_pagetable_map_def Let_def)
  qed
qed

text \<open>
  C33: Unmapping undoes mapping: after a successful \<^verbatim>\<open>msm_iommu_pagetable_map\<close>, unmapping as many bytes from the same
  address returns 0 and every translation is as before the two calls.
\<close>

theorem msm_iommu_pagetable_map_unmap:
  assumes "pgtbl_laws ops lk" "tables d h = Some t" "\<forall>(pa, len) \<in> set sgt. 4096 dvd unat len"
    and "length (sg_pages sgt) < 2 ^ 52"
    and "msm_iommu_pagetable_map ops h iova sgt len prot d = Some (0, d')"
  shows "\<exists>d'' t''. msm_iommu_pagetable_unmap ops h iova (page_bytes (length (sg_pages sgt))) d' = Some (0, d'') \<and>
    tables d'' h = Some t'' \<and> lk (pg t'') = lk (pg t)"
proof -
  let ?K = "length (sg_pages sgt)"
  let ?v = "pages iova ?K"
  obtain j p' where j: "j \<le> ?K" "map_sgs ops prot sgt iova 0 (pg t) = Some (j = ?K, page_bytes j, p')"
    "mapped_by lk prot iova (take j (sg_pages sgt)) (pg t) p'"
    using map_sgs_spec [OF assms(1,3), of prot iova 0 "pg t"] by auto
  have K: "j = ?K" using assms(2,5) j by (cases "j = ?K") (auto simp: msm_iommu_pagetable_map_def)
  with assms(2,5) j have t': "tables d' h = Some (t\<lparr>pg := p'\<rparr>)" by (auto simp: msm_iommu_pagetable_map_def)
  have l: "lk p' = lk (pg t) ++ translation ?v (sg_pages sgt) prot" "\<forall>a \<in> set ?v. lk (pg t) a = None"
    using j(3) K by (simp_all add: mapped_by_def)
  have d: "dom (translation ?v (sg_pages sgt) prot) = set ?v" by (simp add: dom_translation)
  have all: "\<forall>a \<in> set ?v. lk p' a \<noteq> None"
  proof
    fix a assume "a \<in> set ?v"
    then have "a \<in> dom (translation ?v (sg_pages sgt) prot)" using d by simp
    then show "lk p' a \<noteq> None" unfolding l(1) by (auto simp: map_add_dom_app_simps)
  qed
  have "lk p' |` (- set ?v) = lk (pg t)"
    by (rule ext) (use l d in \<open>auto simp: restrict_map_def map_add_dom_app_simps\<close>)
  moreover obtain p2 where "msm_iommu_pagetable_unmap ops h iova (page_bytes ?K) d' =
      Some (0, d'\<lparr>tables := (tables d')(h \<mapsto> t\<lparr>pg := p'\<rparr>\<lparr>pg := p2\<rparr>), tlb_flushes := Suc (tlb_flushes d')\<rparr>)"
    "lk p2 = lk p' |` (- set ?v)"
    using unmap_by_laws [OF assms(1,4) t', of iova] all by auto
  ultimately show ?thesis by simp
qed

text \<open>
  C35: Unmapping returns exactly for sizes of whole pages, whatever the page table code does: any other size wraps below
  zero and the loop runs on forever.
\<close>

theorem msm_iommu_pagetable_unmap_returns:
  assumes "tables d h = Some t"
  shows "msm_iommu_pagetable_unmap ops h iova sz d \<noteq> None \<longleftrightarrow> 4096 dvd unat sz"
proof
  assume "msm_iommu_pagetable_unmap ops h iova sz d \<noteq> None"
  then obtain r where "unmap_pages ops iova sz 0 (pg t) = Some r"
    using assms by (auto simp: msm_iommu_pagetable_unmap_def split: option.splits)
  from unmap_pages_None [OF this] show "4096 dvd unat sz" using page_bytes_aligned by blast
next
  assume "4096 dvd unat sz"
  then obtain k where "k < 2 ^ 52" "sz = page_bytes k" using aligned_page_bytes by blast
  with unmap_pages_Some [of k ops iova 0 "pg t"] assms show "msm_iommu_pagetable_unmap ops h iova sz d \<noteq> None"
    by (auto simp: msm_iommu_pagetable_unmap_def split: prod.split)
qed

section \<open>TTBR0\<close>

text \<open>
  The life of the page tables of a device.  The number counts the times that the SMMU driver refused the
  configuration of a first page table.
\<close>

inductive smmu_reach :: "'p msm_iommu \<Rightarrow> nat \<Rightarrow> bool" where
  new: "msm_iommu_new domain kz attach = Inr d \<Longrightarrow> smmu_reach d 0"
| create: "\<lbrakk>smmu_reach d n; tables d h = None; msm_iommu_pagetable_create q ttbr1 kz alloc set0 h d = (r, d')\<rbrakk> \<Longrightarrow>
    smmu_reach d' (if isl r \<and> pagetables d' \<noteq> pagetables d then Suc n else n)"
| destroy: "\<lbrakk>smmu_reach d n; msm_iommu_pagetable_destroy h d = Some d'\<rbrakk> \<Longrightarrow> smmu_reach d' n"
| map: "\<lbrakk>smmu_reach d n; msm_iommu_pagetable_map ops h iova sgt len prot d = Some (r, d')\<rbrakk> \<Longrightarrow> smmu_reach d' n"
| unmap: "\<lbrakk>smmu_reach d n; msm_iommu_pagetable_unmap ops h iova sz d = Some (r, d')\<rbrakk> \<Longrightarrow> smmu_reach d' n"

lemma unmap_keeps:
  assumes "msm_iommu_pagetable_unmap ops h iova sz d = Some (r, d')"
  shows "pagetables d' = pagetables d" "ttbr0 d' = ttbr0 d" "dom (tables d') = dom (tables d)"
  using assms by (auto simp: msm_iommu_pagetable_unmap_def split: option.splits if_splits)

lemma map_keeps:
  assumes "msm_iommu_pagetable_map ops h iova sgt len prot d = Some (r, d')"
  shows "pagetables d' = pagetables d" "ttbr0 d' = ttbr0 d" "dom (tables d') = dom (tables d)"
proof -
  obtain t where t: "tables d h = Some t" using assms by (auto simp: msm_iommu_pagetable_map_def split: option.splits)
  obtain ok mapped p where "map_sgs ops prot sgt iova 0 (pg t) = Some (ok, mapped, p)"
    using assms t by (auto simp: msm_iommu_pagetable_map_def split: option.splits)
  with assms t have "d' = d\<lparr>tables := (tables d)(h \<mapsto> t\<lparr>pg := p\<rparr>)\<rparr> \<or>
      (\<exists>r. msm_iommu_pagetable_unmap ops h iova mapped (d\<lparr>tables := (tables d)(h \<mapsto> t\<lparr>pg := p\<rparr>)\<rparr>) = Some (r, d'))"
    by (auto simp: msm_iommu_pagetable_map_def Let_def split: if_splits)
  moreover have "insert h (dom (tables d)) = dom (tables d)" using t by (simp add: insert_absorb domI)
  ultimately show "pagetables d' = pagetables d" "ttbr0 d' = ttbr0 d" "dom (tables d') = dom (tables d)"
    by (elim disjE exE; simp add: unmap_keeps)+
qed

definition smmu_inv :: "'p msm_iommu \<Rightarrow> nat \<Rightarrow> bool" where
  "smmu_inv d n = (finite (dom (tables d)) \<and> pagetables d = int (card (dom (tables d)) + n) \<and>
     (n = 0 \<longrightarrow> (ttbr0 d \<noteq> None \<longleftrightarrow> dom (tables d) \<noteq> {})))"

lemma create_inv:
  assumes "smmu_inv d n" "tables d h = None" "msm_iommu_pagetable_create q ttbr1 kz alloc set0 h d = (r, d')"
  shows "smmu_inv d' (if isl r \<and> pagetables d' \<noteq> pagetables d then Suc n else n)"
proof -
  have fin: "finite (dom (tables d))" and h: "h \<notin> dom (tables d)" using assms(1,2) by (auto simp: smmu_inv_def)
  have card: "card (insert h (dom (tables d))) = Suc (card (dom (tables d)))" using fin h by simp
  show ?thesis
    using assms fin
    by (auto simp: card smmu_inv_def msm_iommu_pagetable_create_def Let_def split: option.splits if_splits prod.splits)
qed

lemma destroy_inv:
  assumes "smmu_inv d n" "msm_iommu_pagetable_destroy h d = Some d'"
  shows "smmu_inv d' n"
proof -
  obtain t where t: "tables d h = Some t"
    using assms(2) by (auto simp: msm_iommu_pagetable_destroy_def split: option.splits)
  have fin: "finite (dom (tables d))" and h: "h \<in> dom (tables d)" using assms(1) t by (auto simp: smmu_inv_def)
  have "d' = d\<lparr>pagetables := pagetables d - 1, ttbr0 := (if pagetables d = 1 then None else ttbr0 d), tables := (tables d)(h := None)\<rparr>"
    using assms(2) t by (simp add: msm_iommu_pagetable_destroy_def Let_def)
  then have d': "pagetables d' = pagetables d - 1" "ttbr0 d' = (if pagetables d = 1 then None else ttbr0 d)"
    "dom (tables d') = dom (tables d) - {h}" by simp_all
  have c: "card (dom (tables d)) = Suc (card (dom (tables d) - {h}))" using fin h by (metis card.remove)
  have e: "dom (tables d) - {h} = {} \<longleftrightarrow> card (dom (tables d) - {h}) = 0" using fin by simp
  have "card (dom (tables d)) = Suc (card (dom (tables d')))" "dom (tables d') = {} \<longleftrightarrow> card (dom (tables d')) = 0"
    "finite (dom (tables d'))" "dom (tables d) \<noteq> {}"
    unfolding d'(3) using c e h fin by auto
  then show ?thesis using assms(1) d'(1,2) by (auto simp: smmu_inv_def)
qed

lemma smmu_reach_inv: "smmu_reach d n \<Longrightarrow> smmu_inv d n"
proof (induction rule: smmu_reach.induct)
  case (new domain kz attach d)
  then show ?case by (auto simp: msm_iommu_new_def smmu_inv_def split: if_splits)
next
  case (create d n h q ttbr1 kz alloc set0 r d')
  then show ?case using create_inv by blast
next
  case (destroy d n h d')
  then show ?case using destroy_inv by blast
next
  case (map d n ops h iova sgt len prot r d')
  then show ?case using map_keeps [OF map.hyps(2)] by (simp add: smmu_inv_def)
next
  case (unmap d n ops h iova sz r d')
  then show ?case using unmap_keeps [OF unmap.hyps(2)] by (simp add: smmu_inv_def)
qed

text \<open>
  C36: As long as the SMMU driver has accepted the configuration of every first page table, TTBR0 is enabled exactly while there
  is a page table, over any sequence of creations, destructions, mappings and unmappings.  In general the counter is the number of page
  tables and of the refusals, each of which counts for good.
\<close>

theorem msm_iommu_ttbr0_enabled:
  assumes "smmu_reach d n"
  shows "finite (dom (tables d)) \<and> pagetables d = int (card (dom (tables d)) + n) \<and>
    (n = 0 \<longrightarrow> (ttbr0 d \<noteq> None \<longleftrightarrow> dom (tables d) \<noteq> {}))"
  using smmu_reach_inv [OF assms] by (simp add: smmu_inv_def)

text \<open>A refusal leaves the counter at one, so the next page table does not enable TTBR0.\<close>

lemma msm_iommu_refusal_leaks_count:
  assumes "pagetables d = 0" "ttbr0 d = None"
    and "msm_iommu_pagetable_create q (Some cfg) True alloc set0 h d = (Inl e, d1)" "alloc (cfg\<lparr>quirks := quirks cfg AND NOT q, tlb_null := True\<rparr>) = Some (p, cfg0)"
    and "msm_iommu_pagetable_create q (Some cfg) True alloc set0' h d1 = (r, d2)"
  shows "r = Inr h" "tables d2 h \<noteq> None" "ttbr0 d2 = None"
  using assms by (auto simp: msm_iommu_pagetable_create_def Let_def split: if_splits)

section \<open>Addresses of the kernel\<close>

lemma sign_extend_iova_canonical:
  assumes "unat iova < 2 ^ 49"
  shows "sign_extend_iova iova = signed_take_bit 48 iova"
proof (rule bit_word_eqI)
  fix n assume n: "n < LENGTH(64)"
  have hi: "\<not> bit iova k" if "49 \<le> k" for k
  proof -
    have "unat iova < 2 ^ k" using assms power_increasing [OF that, of "2 :: nat"] by simp
    then have "\<not> bit (unat iova) k" by (simp add: bit_iff_odd)
    then show ?thesis by (auto simp: bit_unsigned_iff dest: bit_imp_le_length)
  qed
  have ph: "(0xfffe000000000000 :: u64) = push_bit 49 (mask 15)" by (simp add: mask_numeral)
  have p48: "(0x1000000000000 :: u64) = 2 ^ 48" by simp
  have bit48: "iova AND 0x1000000000000 = 0 \<longleftrightarrow> \<not> bit iova 48" unfolding p48 by (rule and_exp_eq_0_iff_not_bit)
  have hb: "bit (0xfffe000000000000 :: u64) n \<longleftrightarrow> 49 \<le> n"
    using n by (simp only: ph bit_push_bit_iff bit_mask_iff) auto
  have "bit (sign_extend_iova iova) n \<longleftrightarrow> bit iova n \<or> bit iova 48 \<and> 49 \<le> n"
    unfolding sign_extend_iova_def by (simp only: bit48 if_distrib [of "\<lambda>w. bit w n"] bit_or_iff hb) auto
  moreover have "bit (signed_take_bit 48 iova) n \<longleftrightarrow> bit iova (min 48 n)"
    using n by (simp add: bit_signed_take_bit_iff)
  ultimately show "bit (sign_extend_iova iova) n = bit (signed_take_bit 48 iova) n"
    using hi [of n] by (cases "n \<le> 48") (auto simp: min_def)
qed

section \<open>Concrete inputs\<close>

text \<open>Page tables that are maps, over which the laws hold.\<close>

definition wit_ops :: "(u64 \<Rightarrow> (u64 \<times> int) option) io_pgtable_ops" where
  "wit_ops = \<lparr>pg_map = \<lambda>p va pa prot. if p va = None then (0, p(va \<mapsto> (pa, prot))) else (- EINVAL, p),
     pg_unmap = \<lambda>p va. (if p va = None then 0 else 4096, p(va := None))\<rparr>"

lemma wit_laws: "pgtbl_laws wit_ops (\<lambda>p. p)"
  by (auto simp: pgtbl_laws_def wit_ops_def)

definition wit_table :: "(u64 \<Rightarrow> (u64 \<times> int) option) msm_iommu_pagetable" where
  "wit_table = \<lparr>pg = [0x1000 \<mapsto> (0x7000, 3)], ttbr = 0x8000, asid = 0\<rparr>"

definition wit_dev :: "(u64 \<Rightarrow> (u64 \<times> int) option) msm_iommu" where
  "wit_dev = \<lparr>pagetables = 1, fault_handler = True, stall = True, ttbr0 = None, tlb_flushes = 0, tables = [7 \<mapsto> wit_table]\<rparr>"

definition wit_sgt :: "(u64 \<times> u32) list" where
  "wit_sgt = [(0x10000, 0x2000), (0x40000, 0x1000)]"

lemma pages_numeral: "pages va (numeral k) = va # pages (va + 4096) (pred_numeral k)"
  by (simp add: numeral_eq_Suc)

lemma wit_simps:
  "tables wit_dev 7 = Some wit_table" "\<forall>(pa, len) \<in> set wit_sgt. 4096 dvd unat len"
  "sg_pages wit_sgt = [0x10000, 0x11000, 0x40000]"
  by (simp_all add: wit_dev_def wit_sgt_def sg_pages_def pages_numeral)

lemma map_pages_steps:
  "map_pages ops prot va pa 0 acc p = Some (True, va, acc, p)"
  "sz \<noteq> 0 \<Longrightarrow> pg_map ops p va pa prot = (0, p') \<Longrightarrow>
    map_pages ops prot va pa sz acc p = map_pages ops prot (va + 4096) (pa + 4096) (sz - 4096) (acc + 4096) p'"
  by (subst map_pages.simps, simp)+

theorem msm_iommu_pagetable_map_atomic_witness:
  "\<exists>r d' t'. msm_iommu_pagetable_map wit_ops 7 0x2000 wit_sgt 0x3000 3 wit_dev = Some (r, d') \<and> tables d' 7 = Some t' \<and>
    (r = 0 \<and> pg t' = [0x1000 \<mapsto> (0x7000, 3)] ++ translation [0x2000, 0x3000, 0x4000] [0x10000, 0x11000, 0x40000] 3 \<or>
     r = - EINVAL \<and> pg t' = [0x1000 \<mapsto> (0x7000, 3)])"
  using msm_iommu_pagetable_map_atomic [OF wit_laws wit_simps(1,2), where iova = "0x2000" and len = "0x3000" and prot = 3]
  by (simp add: wit_simps Let_def wit_table_def pages_numeral)

theorem msm_iommu_pagetable_map_unmap_witness:
  "\<exists>d' d'' t''. msm_iommu_pagetable_map wit_ops 7 0x2000 wit_sgt 0x3000 3 wit_dev = Some (0, d') \<and>
    msm_iommu_pagetable_unmap wit_ops 7 0x2000 0x3000 d' = Some (0, d'') \<and>
    tables d'' 7 = Some t'' \<and> pg t'' = [0x1000 \<mapsto> (0x7000, 3)]"
proof -
  obtain d' where d': "msm_iommu_pagetable_map wit_ops 7 0x2000 wit_sgt 0x3000 3 wit_dev = Some (0, d')"
    by (simp add: msm_iommu_pagetable_map_def wit_dev_def wit_sgt_def wit_ops_def wit_table_def map_pages_steps)
  have "page_bytes 3 = 0x3000" by (simp add: page_bytes_def)
  then show ?thesis using msm_iommu_pagetable_map_unmap [OF wit_laws wit_simps(1,2) _ d'] d'
    by (simp add: wit_simps wit_table_def)
qed

theorem msm_iommu_pagetable_unmap_returns_witness:
  "msm_iommu_pagetable_unmap wit_ops 7 0x1000 0x3000 wit_dev \<noteq> None \<and> msm_iommu_pagetable_unmap wit_ops 7 0x1000 0x3001 wit_dev = None"
  using msm_iommu_pagetable_unmap_returns [OF wit_simps(1), where ops = wit_ops and iova = "0x1000" and sz = "0x3000"]
    msm_iommu_pagetable_unmap_returns [OF wit_simps(1), where ops = wit_ops and iova = "0x1000" and sz = "0x3001"] by (simp del: not_None_eq)

theorem msm_iommu_ttbr0_enabled_witness:
  "\<exists>d. smmu_reach (d :: (u64 \<Rightarrow> (u64 \<times> int) option) msm_iommu) 0 \<and> dom (tables d) = {7} \<and> pagetables d = 1 \<and> ttbr0 d \<noteq> None"
proof -
  let ?d0 = "\<lparr>pagetables = 0, fault_handler = False, stall = False, ttbr0 = None, tlb_flushes = 0, tables = (\<lambda>_. None)\<rparr>"
  let ?cfg = "\<lparr>quirks = 0x20, tlb_null = False, cfg_ttbr = 0\<rparr>"
  let ?alloc = "\<lambda>c. Some (\<lambda>_ :: u64. None :: (u64 \<times> int) option, c\<lparr>cfg_ttbr := 0x8000\<rparr>)"
  have "smmu_reach ?d0 0" by (rule smmu_reach.new [of True True 0]) (simp add: msm_iommu_new_def)
  moreover obtain d where d: "msm_iommu_pagetable_create 0x20 (Some ?cfg) True ?alloc (\<lambda>_. 0) 7 ?d0 = (Inr 7, d)" "dom (tables d) = {7}"
    by (simp add: msm_iommu_pagetable_create_def)
  ultimately have "smmu_reach d 0" using smmu_reach.create [of ?d0 0 7] by fastforce
  with msm_iommu_ttbr0_enabled [OF this] d(2) show ?thesis by auto
qed

end
