(* ===== verification/DSI_PHY.thy ===== *)
theory DSI_PHY
  imports Prelude
begin

text \<open>
  The timing parameters of the DSI PHY (\<^verbatim>\<open>msm/dsi/phy/dsi_phy.c\<close>): from the rate of the bit clock the driver computes
  how long, in units of the byte clock, the lanes stay in each state of the protocol.

  Times are in thousandths of a nanosecond (\<open>coeff\<close> is 1000); \<open>ui\<close> is the time of one bit.  Division is the
  one of C.  Intermediate values that depend only on the rate are integers: they stay below \<open>2\<^sup>3\<^sup>1\<close> for bit rates of a
  megahertz and more.  What is stored in the structure is a word, so a negative value wraps, and what is computed
  from such words wraps too.  \<open>None\<close> is a division by zero.
\<close>

section \<open>Arithmetic (dsi_phy.c)\<close>

definition S_DIV_ROUND_UP :: "int \<Rightarrow> int \<Rightarrow> int" where
  "S_DIV_ROUND_UP n d = (if n \<ge> 0 then (n + d - 1) sdiv d else (n - d + 1) sdiv d)"

text \<open>\<^verbatim>\<open>mult_frac\<close> of the kernel.\<close>

definition mult_frac :: "nat \<Rightarrow> nat \<Rightarrow> nat \<Rightarrow> nat option" where
  "mult_frac x n d = (if d = 0 then None else Some (x div d * n + x mod d * n div d))"

definition linear_inter :: "int \<Rightarrow> int \<Rightarrow> int \<Rightarrow> int \<Rightarrow> bool \<Rightarrow> int" where
  "linear_inter tmax tmin percent min_result evn =
     (let v = (tmax - tmin) * percent;
          v = S_DIV_ROUND_UP v 100 + tmin
      in if evn \<and> v AND 1 \<noteq> 0 then max min_result (v - 1) else max min_result v)"

section \<open>The timing structure (dsi_phy.h, dsi.h)\<close>

record msm_dsi_phy_shared_timings =
  clk_post :: u32
  clk_pre :: u32
  clk_pre_inc_by_2 :: bool

record msm_dsi_dphy_timing =
  clk_zero :: u32
  clk_trail :: u32
  clk_prepare :: u32
  hs_exit :: u32
  hs_zero :: u32
  hs_prepare :: u32
  hs_trail :: u32
  hs_rqst :: u32
  ta_go :: u32
  ta_sure :: u32
  ta_get :: u32
  shared_timings :: msm_dsi_phy_shared_timings
  hs_rqst_ckln :: u32
  hs_prep_dly :: u32
  hs_prep_dly_ckln :: u32
  hs_halfbyte_en :: u8
  hs_halfbyte_en_ckln :: u8

text \<open>An integer stored in a field of 32 bits.\<close>

definition to_u32 :: "int \<Rightarrow> u32" where
  "to_u32 v = word_of_int v"

text \<open>
  An expression in which such fields occur is computed without sign and then assigned to a signed variable.
\<close>

definition to_s32 :: "int \<Rightarrow> int" where
  "to_s32 v = signed_take_bit 31 v"

text \<open>The time of a bit and, for the first version, of a period of the escape clock.\<close>

definition clk_period :: "nat \<Rightarrow> nat option" where
  "clk_period rate = mult_frac 1000000 1000 (rate div 1000)"

section \<open>D-PHY, first version (dsi_phy.c)\<close>

definition dsi_dphy_timing_calc_clk_zero :: "u32 \<Rightarrow> u32 \<Rightarrow> int \<Rightarrow> int \<Rightarrow> int \<Rightarrow> u32" where
  "dsi_dphy_timing_calc_clk_zero prep rqst ui coeff pcnt =
     (let temp = to_s32 (300 * coeff - (uint (drop_bit 1 prep) + 1) * 2 * ui);
          tmin = S_DIV_ROUND_UP temp ui - 2;
          clk_z = (if tmin > 255 then linear_inter (2 * tmin) tmin pcnt 0 True else linear_inter 255 tmin pcnt 0 True);
          temp = (uint rqst + uint prep + clk_z) AND 7
      in to_u32 (clk_z + 8 - temp))"

definition dphy_v1 :: "int \<Rightarrow> int \<Rightarrow> int \<Rightarrow> int \<Rightarrow> msm_dsi_dphy_timing \<Rightarrow> msm_dsi_dphy_timing" where
  "dphy_v1 ui lpx pcnt1 pcnt3 t =
     (let coeff = 1000; pcnt0 = 10; pcnt2 = 10;
          prep = to_u32 (linear_inter (S_DIV_ROUND_UP (95 * coeff) ui - 2) (S_DIV_ROUND_UP (38 * coeff) ui - 2) pcnt0 0 True);
          temp = lpx sdiv ui;
          rqst = to_u32 (if temp AND 1 \<noteq> 0 then temp else max 0 (temp - 2));
          zero = dsi_dphy_timing_calc_clk_zero prep rqst ui coeff pcnt2;
          tmax = S_DIV_ROUND_UP (105 * coeff + 12 * ui - 20 * coeff) ui - 2;
          trail = to_u32 (linear_inter tmax (S_DIV_ROUND_UP (60 * coeff) ui - 2) pcnt3 0 True);
          hprep = to_u32 (linear_inter (S_DIV_ROUND_UP (85 * coeff + 6 * ui) ui - 2)
                    (S_DIV_ROUND_UP (40 * coeff + 4 * ui) ui - 2) pcnt1 0 True);
          temp = (uint (drop_bit 1 hprep) + 1) * 2 * ui + 2 * ui;
          temp = to_s32 (145 * coeff + 10 * ui - temp);
          hzero = to_u32 (linear_inter 255 (S_DIV_ROUND_UP temp ui - 2) pcnt2 24 True);
          htrail = to_u32 (linear_inter tmax (DIV_ROUND_UP_int (60 * coeff + 4 * ui) ui - 2) pcnt3 0 True);
          hexit = to_u32 (linear_inter 255 (S_DIV_ROUND_UP (100 * coeff) ui - 2) pcnt2 0 True);
          temp = (uint (drop_bit 1 hexit) + 1) * 2 * ui;
          temp = to_s32 (60 * coeff + 52 * ui - 24 * ui - temp);
          post = to_u32 (linear_inter 63 (S_DIV_ROUND_UP temp (8 * ui) - 1) pcnt2 0 False);
          temp = (uint (drop_bit 1 prep) + 1) * 2 * ui;
          temp = temp + (uint (drop_bit 1 zero) + 1) * 2 * ui;
          temp = to_s32 (temp + (8 * ui + lpx));
          tmin = S_DIV_ROUND_UP temp (8 * ui) - 1;
          inc = (tmin > 63);
          pre = (if inc then to_u32 (drop_bit 1 (linear_inter (2 * 63) tmin pcnt2 0 False))
                 else to_u32 (linear_inter 63 tmin pcnt2 0 False))
      in t\<lparr>clk_prepare := prep, hs_rqst := rqst, clk_zero := zero, clk_trail := trail, hs_prepare := hprep, hs_zero := hzero,
           hs_trail := htrail, hs_exit := hexit, shared_timings := \<lparr>clk_post = post, clk_pre = pre, clk_pre_inc_by_2 = inc\<rparr>,
           ta_go := 3, ta_sure := 0, ta_get := 4\<rparr>)"

definition msm_dsi_dphy_timing_calc :: "msm_dsi_dphy_timing \<Rightarrow> nat \<Rightarrow> nat \<Rightarrow> (int \<times> msm_dsi_dphy_timing) option" where
  "msm_dsi_dphy_timing_calc t bit_rate esc_rate =
     (if bit_rate = 0 \<or> esc_rate = 0 then Some (- EINVAL, t)
      else case (clk_period bit_rate, clk_period esc_rate) of
        (Some ui, Some lpx) \<Rightarrow>
          if ui = 0 then None
          else Some (0, dphy_v1 (int ui) (int lpx) (if bit_rate > 1200000000 then 15 else 10)
                       (if bit_rate > 180000000 then 10 else 40) t)
      | _ \<Rightarrow> None)"

section \<open>D-PHY, second version (dsi_phy.c)\<close>

definition dphy_v2 :: "int \<Rightarrow> int \<Rightarrow> int \<Rightarrow> msm_dsi_dphy_timing \<Rightarrow> msm_dsi_dphy_timing" where
  "dphy_v2 ui pd pd_ckln t =
     (let coeff = 1000; pcnt0 = 50; pcnt1 = 50; pcnt2 = 10; pcnt3 = 30; pcnt4 = 10; pcnt5 = 2;
          hb_en = 0; hb_en_ckln = 0;
          val = hb_en * 4 + pd * 2;
          val_ckln = hb_en_ckln * 4 + pd_ckln * 2;
          ui_x8 = ui * 8;
          tmin = max (S_DIV_ROUND_UP (38 * coeff - val_ckln * ui) ui_x8) 0;
          tmax = max ((95 * coeff - val_ckln * ui) sdiv ui_x8) 0;
          prep = to_u32 (linear_inter tmax tmin pcnt0 0 False);
          temp = to_s32 (300 * coeff - (uint prep * 8 + val_ckln) * ui);
          tmin = S_DIV_ROUND_UP (temp - 11 * ui) ui_x8 - 3;
          zero = to_u32 (linear_inter (if tmin > 255 then 511 else 255) tmin pcnt5 0 False);
          temp = 105 * coeff + 12 * ui - 20 * coeff;
          tmax = (temp + 3 * ui) sdiv ui_x8;
          trail = to_u32 (linear_inter tmax (DIV_ROUND_UP_int (60 * coeff + 3 * ui) ui_x8) pcnt3 0 False);
          tmin = max (S_DIV_ROUND_UP (40 * coeff + 4 * ui - val * ui) ui_x8) 0;
          hprep = to_u32 (linear_inter (max ((85 * coeff + 6 * ui - val * ui) sdiv ui_x8) 0) tmin pcnt1 0 False);
          temp = to_s32 (145 * coeff + 10 * ui - (uint hprep * 8 + val) * ui);
          hzero = to_u32 (linear_inter 255 (S_DIV_ROUND_UP (temp - 11 * ui) ui_x8 - 3) pcnt4 0 False);
          htrail = to_u32 (linear_inter tmax (DIV_ROUND_UP_int (60 * coeff + 4 * ui + 3 * ui) ui_x8) pcnt3 0 False);
          rqst = to_u32 (S_DIV_ROUND_UP (50 * coeff + (hb_en * 4 - 8) * ui) ui_x8);
          hexit = to_u32 (linear_inter 255 (DIV_ROUND_UP_int (100 * coeff) ui_x8 - 1) pcnt2 0 False);
          rqst_ckln = to_u32 (S_DIV_ROUND_UP (50 * coeff + (hb_en_ckln * 4 - 8) * ui) ui_x8);
          post = to_u32 (linear_inter 63 (DIV_ROUND_UP_int (60 * coeff + 52 * ui - 43 * ui) ui_x8 - 1) pcnt2 0 False);
          temp = 8 * ui + (uint prep * 8 + val_ckln) * ui;
          temp = temp + ((uint zero + 3) * 8 + 11 - pd_ckln * 2) * ui;
          temp = temp + (if hb_en_ckln \<noteq> 0 then (uint rqst_ckln * 8 + 4) * ui else (uint rqst_ckln * 8 + 8) * ui);
          tmin = S_DIV_ROUND_UP (to_s32 temp) ui_x8 - 1;
          inc = (tmin > 63);
          pre = (if inc then to_u32 (drop_bit 1 (linear_inter (63 * 2) tmin pcnt2 0 False))
                 else to_u32 (linear_inter 63 tmin pcnt2 0 False))
      in t\<lparr>hs_halfbyte_en := 0, hs_halfbyte_en_ckln := 0, hs_prep_dly_ckln := to_u32 pd_ckln, hs_prep_dly := to_u32 pd,
           clk_prepare := prep, clk_zero := zero, clk_trail := trail, hs_prepare := hprep, hs_zero := hzero, hs_trail := htrail,
           hs_rqst := rqst, hs_exit := hexit, hs_rqst_ckln := rqst_ckln,
           shared_timings := \<lparr>clk_post = post, clk_pre = pre, clk_pre_inc_by_2 = inc\<rparr>, ta_go := 3, ta_sure := 0, ta_get := 4\<rparr>)"

definition msm_dsi_dphy_timing_calc_v2 :: "msm_dsi_dphy_timing \<Rightarrow> nat \<Rightarrow> nat \<Rightarrow> (int \<times> msm_dsi_dphy_timing) option" where
  "msm_dsi_dphy_timing_calc_v2 t bit_rate esc_rate =
     (if bit_rate = 0 \<or> esc_rate = 0 then Some (- EINVAL, t)
      else case clk_period bit_rate of
        None \<Rightarrow> None
      | Some ui \<Rightarrow>
          if ui = 0 then None
          else Some (0, dphy_v2 (int ui) (if bit_rate > 120000000 then 0 else 1) (if bit_rate > 100000000 then 0 else 3) t))"

section \<open>D-PHY, third version (dsi_phy.c)\<close>

definition dphy_v3 :: "int \<Rightarrow> msm_dsi_dphy_timing \<Rightarrow> msm_dsi_dphy_timing" where
  "dphy_v3 ui t =
     (let coeff = 1000; pcnt0 = 50; pcnt1 = 50; pcnt2 = 10; pcnt3 = 30; pcnt4 = 10; pcnt5 = 2;
          hb_en = 0; hb_en_ckln = 0;
          ui_x8 = ui * 8;
          tmin = max (S_DIV_ROUND_UP (38 * coeff) ui_x8) 0;
          prep = to_u32 (linear_inter (max ((95 * coeff) sdiv ui_x8) 0) tmin pcnt0 0 False);
          tmin = S_DIV_ROUND_UP (to_s32 (300 * coeff - uint prep * 8 * ui)) ui_x8 - 1;
          zero = to_u32 (linear_inter (if tmin > 255 then 511 else 255) tmin pcnt5 0 False);
          temp = 105 * coeff + 12 * ui - 20 * coeff;
          trail = to_u32 (linear_inter ((temp + 3 * ui) sdiv ui_x8) (DIV_ROUND_UP_int (60 * coeff + 3 * ui) ui_x8) pcnt3 0 False);
          tmin = max (S_DIV_ROUND_UP (40 * coeff + 4 * ui) ui_x8) 0;
          hprep = to_u32 (linear_inter (max ((85 * coeff + 6 * ui) sdiv ui_x8) 0) tmin pcnt1 0 False);
          tmin = S_DIV_ROUND_UP (to_s32 (145 * coeff + 10 * ui - uint hprep * 8 * ui)) ui_x8 - 1;
          hzero = to_u32 (linear_inter 255 tmin pcnt4 0 False);
          htrail = to_u32 (linear_inter (temp sdiv ui_x8 - 1) (DIV_ROUND_UP_int (60 * coeff + 4 * ui) ui_x8 - 1) pcnt3 0 False);
          rqst = to_u32 (S_DIV_ROUND_UP (50 * coeff + (hb_en * 4 - 8) * ui) ui_x8);
          hexit = to_u32 (linear_inter 255 (DIV_ROUND_UP_int (100 * coeff) ui_x8 - 1) pcnt2 0 False);
          rqst_ckln = to_u32 (S_DIV_ROUND_UP (50 * coeff + (hb_en_ckln * 4 - 8) * ui) ui_x8);
          post = to_u32 (linear_inter 63 (DIV_ROUND_UP_int (60 * coeff + 52 * ui - 43 * ui) ui_x8 - 1) pcnt2 0 False);
          temp = 8 * ui + uint prep * 8 * ui;
          temp = temp + ((uint zero + 3) * 8 + 11) * ui;
          temp = temp + (if hb_en_ckln \<noteq> (0 :: int) then (uint rqst_ckln * 8 + 4) * ui else (uint rqst_ckln * 8 + 8) * ui);
          tmin = S_DIV_ROUND_UP (to_s32 temp) ui_x8 - 1;
          inc = (tmin > 63);
          pre = (if inc then to_u32 (drop_bit 1 (linear_inter (63 * 2) tmin pcnt2 0 False))
                 else to_u32 (linear_inter 63 tmin pcnt2 0 False))
      in t\<lparr>hs_halfbyte_en := 0, hs_halfbyte_en_ckln := 0,
           clk_prepare := prep, clk_zero := zero, clk_trail := trail, hs_prepare := hprep, hs_zero := hzero, hs_trail := htrail,
           hs_rqst := rqst, hs_exit := hexit, hs_rqst_ckln := rqst_ckln,
           shared_timings := \<lparr>clk_post = post, clk_pre = pre, clk_pre_inc_by_2 = inc\<rparr>, ta_go := 3, ta_sure := 0, ta_get := 4\<rparr>)"

definition msm_dsi_dphy_timing_calc_v3 :: "msm_dsi_dphy_timing \<Rightarrow> nat \<Rightarrow> nat \<Rightarrow> (int \<times> msm_dsi_dphy_timing) option" where
  "msm_dsi_dphy_timing_calc_v3 t bit_rate esc_rate =
     (if bit_rate = 0 \<or> esc_rate = 0 then Some (- EINVAL, t)
      else case clk_period bit_rate of
        None \<Rightarrow> None
      | Some ui \<Rightarrow> if ui = 0 then None else Some (0, dphy_v3 (int ui) t))"

section \<open>D-PHY and C-PHY, fourth version (dsi_phy.c)\<close>

definition dphy_v4 :: "int \<Rightarrow> msm_dsi_dphy_timing \<Rightarrow> msm_dsi_dphy_timing" where
  "dphy_v4 ui t =
     (let coeff = 1000; hb_en = 0;
          ui_x8 = ui * 8;
          tmin = max (S_DIV_ROUND_UP (38 * coeff) ui_x8) 0;
          prep = to_u32 (linear_inter (max ((95 * coeff) sdiv ui_x8) 0) tmin 50 0 False);
          tmin = S_DIV_ROUND_UP (to_s32 (300 * coeff - uint prep * 8 * ui)) ui_x8 - 1;
          zero = to_u32 (linear_inter (if tmin > 255 then 511 else 255) tmin 2 0 False);
          temp = 105 * coeff + 12 * ui - 20 * coeff;
          trail = to_u32 (linear_inter ((temp + 3 * ui) sdiv ui_x8) (DIV_ROUND_UP_int (60 * coeff + 3 * ui) ui_x8) 30 0 False);
          tmin = max (S_DIV_ROUND_UP (40 * coeff + 4 * ui) ui_x8) 0;
          hprep = to_u32 (linear_inter (max ((85 * coeff + 6 * ui) sdiv ui_x8) 0) tmin 50 0 False);
          tmin = S_DIV_ROUND_UP (to_s32 (145 * coeff + 10 * ui - uint hprep * 8 * ui)) ui_x8 - 1;
          hzero = to_u32 (linear_inter 255 tmin 10 0 False);
          htrail = to_u32 (linear_inter (temp sdiv ui_x8 - 1) (DIV_ROUND_UP_int (60 * coeff + 4 * ui) ui_x8 - 1) 30 0 False);
          rqst = to_u32 (S_DIV_ROUND_UP (50 * coeff + (hb_en * 4 - 8) * ui) ui_x8);
          hexit = to_u32 (linear_inter 255 (DIV_ROUND_UP_int (100 * coeff) ui_x8 - 1) 10 0 False);
          temp = to_s32 (60 * coeff + 52 * ui + (uint htrail + 1) * ui_x8);
          post = to_u32 (linear_inter 255 (DIV_ROUND_UP_int temp (16 * ui) - 1) 5 0 False);
          temp = to_s32 (52 * coeff + (uint prep + uint zero + 1) * ui_x8 + 54 * coeff);
          tmin = DIV_ROUND_UP_int temp (16 * ui) - 1;
          pre = to_u32 (DIV_ROUND_UP_int ((255 - tmin) * 125) 10000 + tmin)
      in t\<lparr>clk_prepare := prep, clk_zero := zero, clk_trail := trail, hs_prepare := hprep, hs_zero := hzero, hs_trail := htrail,
           hs_rqst := rqst, hs_exit := hexit, shared_timings := (shared_timings t)\<lparr>clk_post := post, clk_pre := pre\<rparr>\<rparr>)"

definition msm_dsi_dphy_timing_calc_v4 :: "msm_dsi_dphy_timing \<Rightarrow> nat \<Rightarrow> nat \<Rightarrow> (int \<times> msm_dsi_dphy_timing) option" where
  "msm_dsi_dphy_timing_calc_v4 t bit_rate esc_rate =
     (if bit_rate = 0 \<or> esc_rate = 0 then Some (- EINVAL, t)
      else case clk_period bit_rate of
        None \<Rightarrow> None
      | Some ui \<Rightarrow> if ui = 0 then None else Some (0, dphy_v4 (int ui) t))"

definition cphy_v4 :: "int \<Rightarrow> msm_dsi_dphy_timing \<Rightarrow> msm_dsi_dphy_timing" where
  "cphy_v4 ui t =
     (let coeff = 1000;
          ui_x7 = ui * 7;
          tmin = max (S_DIV_ROUND_UP (38 * coeff) ui_x7) 0;
          prep = to_u32 (linear_inter (max ((95 * coeff) sdiv ui_x7) 0) tmin 50 0 False);
          rqst = to_u32 (linear_inter 255 (DIV_ROUND_UP_int (50 * coeff) ui_x7) 1 0 False);
          hexit = to_u32 (linear_inter 255 (DIV_ROUND_UP_int (100 * coeff) ui_x7 - 1) 10 0 False);
          post = to_u32 (linear_inter 32 1 80 0 False);
          pre = to_u32 (linear_inter 64 (min 64 (S_DIV_ROUND_UP (262 * coeff) ui_x7 - 1)) 20 0 False)
      in t\<lparr>clk_prepare := prep, hs_rqst := rqst, hs_exit := hexit,
           shared_timings := (shared_timings t)\<lparr>clk_post := post, clk_pre := pre\<rparr>\<rparr>)"

definition msm_dsi_cphy_timing_calc_v4 :: "msm_dsi_dphy_timing \<Rightarrow> nat \<Rightarrow> nat \<Rightarrow> (int \<times> msm_dsi_dphy_timing) option" where
  "msm_dsi_cphy_timing_calc_v4 t bit_rate esc_rate =
     (if bit_rate = 0 \<or> esc_rate = 0 then Some (- EINVAL, t)
      else case clk_period bit_rate of
        None \<Rightarrow> None
      | Some ui \<Rightarrow> if ui * 7 = 0 then None else Some (0, cphy_v4 (int ui) t))"

end
