(* ===== verification/DSI_PHY_Correct.thy ===== *)
theory DSI_PHY_Correct
  imports DSI_PHY
begin

text \<open>
  Correctness of the PHY timings: interpolation stays between its limits, the timings of the fourth and third version satisfy the
  limits of the D-PHY specification that the code names, and where the computation has no result.
\<close>

section \<open>Arithmetic\<close>

lemma S_DIV_ROUND_UP_nonneg: "0 \<le> n \<Longrightarrow> S_DIV_ROUND_UP n d = DIV_ROUND_UP_int n d"
  by (simp add: S_DIV_ROUND_UP_def DIV_ROUND_UP_int_def)

lemma sdiv_nonneg:
  assumes "0 \<le> (n :: int)" "0 < d"
  shows "n sdiv d = n div d" "d * (n sdiv d) \<le> n" "n < d * (n sdiv d) + d" "0 \<le> n sdiv d"
proof -
  show e: "n sdiv d = n div d"
    using assms by (cases "n = 0") (simp_all add: signed_divide_int_def sgn_if)
  have "d * (n div d) + n mod d = n" by simp
  moreover have "0 \<le> n mod d" "n mod d < d" using assms(2) by simp_all
  ultimately show "d * (n sdiv d) \<le> n" "n < d * (n sdiv d) + d" unfolding e by linarith+
  show "0 \<le> n sdiv d" unfolding e using assms by (simp add: pos_imp_zdiv_nonneg_iff)
qed

lemma uint_to_u32: "0 \<le> v \<Longrightarrow> v < 4294967296 \<Longrightarrow> uint (to_u32 v) = v"
  by (simp add: to_u32_def uint_word_of_int)

lemma to_s32_id: "- 2147483648 \<le> v \<Longrightarrow> v < 2147483648 \<Longrightarrow> to_s32 v = v"
  by (simp add: to_s32_def signed_take_bit_int_eq_self)

lemma mult_frac_div: "0 < d \<Longrightarrow> mult_frac x n d = Some (x * n div d)"
proof -
  assume d: "0 < d"
  have "x * n = (x mod d * n) + d * (x div d * n)" by (metis add.commute distrib_right mult.assoc mult_div_mod_eq)
  then have "x * n div d = x div d * n + x mod d * n div d" using d by simp
  then show ?thesis using d by (simp add: mult_frac_def)
qed

text \<open>Interpolation between a lower and an upper limit.\<close>

lemma linear_inter_bounds:
  assumes "tmin \<le> tmax" "0 \<le> p" "p \<le> 100" "0 \<le> tmin"
  shows "tmin \<le> linear_inter tmax tmin p 0 False" "linear_inter tmax tmin p 0 False \<le> tmax"
    "100 * linear_inter tmax tmin p 0 False < 100 * tmin + (tmax - tmin) * p + 100"
proof -
  define n where "n = (tmax - tmin) * p"
  have n: "0 \<le> n" "n \<le> (tmax - tmin) * 100" unfolding n_def using assms by simp (rule mult_left_mono; use assms in simp)
  have h: "(0 :: int) < 100" by simp
  define D where "D = DIV_ROUND_UP_int n 100"
  note DR = DIV_ROUND_UP_int [OF n(1) h, folded D_def]
  have l: "linear_inter tmax tmin p 0 False = D + tmin"
    using DR(4) assms(4) n(1) by (simp add: linear_inter_def S_DIV_ROUND_UP_nonneg n_def [symmetric] D_def)
  show "tmin \<le> linear_inter tmax tmin p 0 False" unfolding l using DR by linarith
  show "100 * linear_inter tmax tmin p 0 False < 100 * tmin + (tmax - tmin) * p + 100"
    unfolding l n_def [symmetric] using DR(3) by (simp add: distrib_left)
  have "D < tmax - tmin + 1" using DR(3) n(2) [unfolded left_diff_distrib] by linarith
  then show "linear_inter tmax tmin p 0 False \<le> tmax" unfolding l by linarith
qed

lemma round_up_le: "0 \<le> a \<Longrightarrow> 0 < d \<Longrightarrow> a \<le> m * d \<Longrightarrow> DIV_ROUND_UP_int a d \<le> m"
proof -
  assume "0 \<le> a" "0 < d" "a \<le> m * d"
  with DIV_ROUND_UP_int(3) [of a d] have "d * DIV_ROUND_UP_int a d < d * (m + 1)" by (simp add: algebra_simps)
  then show ?thesis using \<open>0 < d\<close> by simp
qed

text \<open>A value between two times: \<open>k\<close> periods are added by the hardware.\<close>

lemma between:
  assumes "0 < a" "0 < d" "a + d - 1 \<le> b" "b < 2147483648" "0 \<le> p" "p \<le> 100" "0 \<le> k" "k \<le> 1"
  shows "a \<le> (uint (to_u32 (linear_inter (b sdiv d - k) (DIV_ROUND_UP_int a d - k) p 0 False)) + k) * d"
    "(uint (to_u32 (linear_inter (b sdiv d - k) (DIV_ROUND_UP_int a d - k) p 0 False)) + k) * d \<le> b"
proof -
  let ?A = "DIV_ROUND_UP_int a d" and ?B = "b sdiv d"
  have A: "a \<le> d * ?A" "d * ?A < a + d" using DIV_ROUND_UP_int [of a d] assms by simp_all
  have B: "d * ?B \<le> b" "b < d * ?B + d" using sdiv_nonneg [of b d] assms by simp_all
  have "d * ?A < d * (?B + 1)" using A B assms(3) by (simp add: algebra_simps)
  then have le: "?A \<le> ?B" using assms(2) by simp
  have "0 < ?A"
  proof (rule ccontr)
    assume "\<not> 0 < ?A"
    then have "d * ?A \<le> 0" using assms(2) by (simp add: mult_le_0_iff)
    with A assms(1) show False by simp
  qed
  with assms(8) have A1: "0 \<le> ?A - k" by simp
  let ?L = "linear_inter (?B - k) (?A - k) p 0 False"
  have L: "?A - k \<le> ?L" "?L \<le> ?B - k" using linear_inter_bounds [of "?A - k" "?B - k" p] le A1 assms(5,6) by simp_all
  have "0 \<le> ?B" using sdiv_nonneg(4) [of b d] assms(1-3) by simp
  then have "?B * 1 \<le> ?B * d" using assms(2) by (intro mult_left_mono) simp_all
  then have "?B \<le> b" using B(1) by (simp add: mult.commute)
  then have u: "uint (to_u32 ?L) = ?L" using L A1 assms(4,7) by (intro uint_to_u32) linarith+
  have "d * ?A \<le> d * (?L + k)" "d * (?L + k) \<le> d * ?B" using L assms(2) by (simp_all add: mult_left_mono)
  then show "a \<le> (uint (to_u32 ?L) + k) * d" "(uint (to_u32 ?L) + k) * d \<le> b" unfolding u mult.commute [of "?L + k" d] using A B by linarith+
qed

lemma above:
  assumes "0 < a" "0 < d" "DIV_ROUND_UP_int a d - k \<le> T" "T < 2147483648" "0 \<le> p" "p \<le> 100" "0 \<le> k" "k \<le> 1"
  shows "a \<le> (uint (to_u32 (linear_inter T (DIV_ROUND_UP_int a d - k) p 0 False)) + k) * d"
    "uint (to_u32 (linear_inter T (DIV_ROUND_UP_int a d - k) p 0 False)) \<le> T"
    "100 * (uint (to_u32 (linear_inter T (DIV_ROUND_UP_int a d - k) p 0 False)) + k) * d \<le> 100 * a + (T * p + 200) * d"
proof -
  let ?A = "DIV_ROUND_UP_int a d"
  have A: "a \<le> d * ?A" "d * ?A < a + d" using DIV_ROUND_UP_int [of a d] assms by simp_all
  have "0 < ?A"
  proof (rule ccontr)
    assume "\<not> 0 < ?A"
    then have "d * ?A \<le> 0" using assms(2) by (simp add: mult_le_0_iff)
    with A assms(1) show False by simp
  qed
  with assms(8) have A1: "0 \<le> ?A - k" by simp
  let ?L = "linear_inter T (?A - k) p 0 False"
  have L: "?A - k \<le> ?L" "?L \<le> T" "100 * ?L < 100 * (?A - k) + (T - (?A - k)) * p + 100"
    using linear_inter_bounds [of "?A - k" T p] A1 assms(3,5,6) by simp_all
  have u: "uint (to_u32 ?L) = ?L" using L A1 assms(4) by (intro uint_to_u32) linarith+
  have "d * ?A \<le> d * (?L + k)" using L assms(2) by (simp add: mult_left_mono)
  then show "a \<le> (uint (to_u32 ?L) + k) * d" "uint (to_u32 ?L) \<le> T" unfolding u mult.commute [of "?L + k" d] using A L by linarith+
  have "(T - (?A - k)) * p \<le> T * p" using A1 assms(5) by (simp add: mult_right_mono)
  then have "100 * (?L + k) \<le> 100 * ?A + T * p + 100" using L(3) by (simp add: algebra_simps)
  then have "100 * (?L + k) * d \<le> (100 * ?A + T * p + 100) * d" using assms(2) by (simp add: mult_right_mono)
  also have "\<dots> = 100 * (d * ?A) + (T * p + 100) * d" by (simp add: algebra_simps)
  also have "\<dots> \<le> 100 * (a + d) + (T * p + 100) * d" using A(2) by simp
  finally show "100 * (uint (to_u32 ?L) + k) * d \<le> 100 * a + (T * p + 200) * d" unfolding u by (simp add: algebra_simps)
qed

section \<open>Fourth version\<close>

text \<open>The fields as functions of the time of a bit.\<close>

lemma dphy_v4_fields:
  "clk_prepare (dphy_v4 ui t) = to_u32 (linear_inter (max (95000 sdiv (ui * 8)) 0) (max (S_DIV_ROUND_UP 38000 (ui * 8)) 0) 50 0 False)"
  "clk_zero (dphy_v4 ui t) = to_u32 (let tmin = S_DIV_ROUND_UP (to_s32 (300000 - uint (clk_prepare (dphy_v4 ui t)) * 8 * ui)) (ui * 8) - 1
     in linear_inter (if tmin > 255 then 511 else 255) tmin 2 0 False)"
  "clk_trail (dphy_v4 ui t) = to_u32 (linear_inter ((85000 + 15 * ui) sdiv (ui * 8)) (DIV_ROUND_UP_int (60000 + 3 * ui) (ui * 8)) 30 0 False)"
  "hs_prepare (dphy_v4 ui t) = to_u32 (linear_inter (max ((85000 + 6 * ui) sdiv (ui * 8)) 0) (max (S_DIV_ROUND_UP (40000 + 4 * ui) (ui * 8)) 0) 50 0 False)"
  "hs_zero (dphy_v4 ui t) = to_u32 (linear_inter 255
     (S_DIV_ROUND_UP (to_s32 (145000 + 10 * ui - uint (hs_prepare (dphy_v4 ui t)) * 8 * ui)) (ui * 8) - 1) 10 0 False)"
  "hs_trail (dphy_v4 ui t) = to_u32 (linear_inter ((85000 + 12 * ui) sdiv (ui * 8) - 1) (DIV_ROUND_UP_int (60000 + 4 * ui) (ui * 8) - 1) 30 0 False)"
  "hs_rqst (dphy_v4 ui t) = to_u32 (S_DIV_ROUND_UP (50000 - 8 * ui) (ui * 8))"
  "hs_exit (dphy_v4 ui t) = to_u32 (linear_inter 255 (DIV_ROUND_UP_int 100000 (ui * 8) - 1) 10 0 False)"
  "clk_post (shared_timings (dphy_v4 ui t)) = to_u32 (linear_inter 255
     (DIV_ROUND_UP_int (to_s32 (60000 + 52 * ui + (uint (hs_trail (dphy_v4 ui t)) + 1) * (ui * 8))) (16 * ui) - 1) 5 0 False)"
  "clk_pre (shared_timings (dphy_v4 ui t)) = to_u32 (let tmin = DIV_ROUND_UP_int (to_s32 (106000 +
       (uint (clk_prepare (dphy_v4 ui t)) + uint (clk_zero (dphy_v4 ui t)) + 1) * (ui * 8))) (16 * ui) - 1
     in DIV_ROUND_UP_int ((255 - tmin) * 125) 10000 + tmin)"
  by (simp_all add: dphy_v4_def Let_def algebra_simps)

text \<open>
  The limits of the specification, for times of a bit from 111 ps to 7124 ps.  The request of the
  data lanes takes at least 50 ns, and less without the period that the hardware adds; for bits longer than
  6250 ps its field has wrapped around and holds \<open>0xffffffff\<close>.
\<close>

definition mipi_ok :: "int \<Rightarrow> msm_dsi_dphy_timing \<Rightarrow> bool" where
  "mipi_ok ui t =
     (let T = (\<lambda>n :: u32. uint n * (ui * 8)); T1 = (\<lambda>n :: u32. (uint n + 1) * (ui * 8))
      in 38000 \<le> T (clk_prepare t) \<and> T (clk_prepare t) \<le> 95000 \<and>
         300000 \<le> T (clk_prepare t) + T1 (clk_zero t) \<and>
         60000 + 3 * ui \<le> T (clk_trail t) \<and> T (clk_trail t) \<le> 85000 + 15 * ui \<and>
         40000 + 4 * ui \<le> T (hs_prepare t) \<and> T (hs_prepare t) \<le> 85000 + 6 * ui \<and>
         145000 + 10 * ui \<le> T (hs_prepare t) + T1 (hs_zero t) \<and>
         60000 + 4 * ui \<le> T1 (hs_trail t) \<and> T1 (hs_trail t) \<le> 85000 + 12 * ui \<and>
         100000 \<le> T1 (hs_exit t) \<and>
         (if ui \<le> 6250 then 50000 \<le> T1 (hs_rqst t) \<and> T (hs_rqst t) < 50000 else hs_rqst t = 0xffffffff))"

lemma v4_prepare:
  assumes ui: "111 \<le> ui" "ui \<le> 7124"
  shows "38000 \<le> uint (clk_prepare (dphy_v4 ui t)) * (ui * 8)" "uint (clk_prepare (dphy_v4 ui t)) * (ui * 8) \<le> 95000"
proof -
  have "0 \<le> DIV_ROUND_UP_int 38000 (ui * 8)" "0 \<le> (95000 :: int) sdiv (ui * 8)"
    using DIV_ROUND_UP_int(4) [of 38000 "ui * 8"] sdiv_nonneg(4) [of 95000 "ui * 8"] ui by simp_all
  then show "38000 \<le> uint (clk_prepare (dphy_v4 ui t)) * (ui * 8)" "uint (clk_prepare (dphy_v4 ui t)) * (ui * 8) \<le> 95000"
    unfolding dphy_v4_fields(1) using between [of 38000 "ui * 8" 95000 50 0] ui by (simp_all add: S_DIV_ROUND_UP_nonneg)
qed

lemma v4_zero:
  assumes ui: "111 \<le> ui" "ui \<le> 7124"
  shows "300000 \<le> uint (clk_prepare (dphy_v4 ui t)) * (ui * 8) + (uint (clk_zero (dphy_v4 ui t)) + 1) * (ui * 8)"
    "100 * ((uint (clk_prepare (dphy_v4 ui t)) + uint (clk_zero (dphy_v4 ui t)) + 1) * (ui * 8)) \<le> 30000000 + 1222 * (ui * 8)"
proof -
  note P = v4_prepare [OF ui, of t]
  let ?P = "uint (clk_prepare (dphy_v4 ui t))" and ?Z = "uint (clk_zero (dphy_v4 ui t))"
  define a where "a = 300000 - ?P * 8 * ui"
  have a: "205000 \<le> a" "a \<le> 262000" "a = 300000 - ?P * (ui * 8)" using P by (simp_all add: a_def mult_ac)
  define A where "A = DIV_ROUND_UP_int a (ui * 8) - 1"
  have sa: "S_DIV_ROUND_UP (to_s32 a) (ui * 8) = DIV_ROUND_UP_int a (ui * 8)"
    using a(1,2) by (simp add: to_s32_id S_DIV_ROUND_UP_nonneg)
  have "DIV_ROUND_UP_int a (ui * 8) \<le> 296" using round_up_le [of a "ui * 8" 296] a ui by simp
  then have A: "A \<le> 295" by (simp add: A_def)
  define T :: int where "T = (if A > 255 then 511 else 255)"
  have T: "A \<le> T" "T \<le> 511" using A by (simp_all add: T_def)
  have Z: "clk_zero (dphy_v4 ui t) = to_u32 (linear_inter T A 2 0 False)"
    unfolding dphy_v4_fields(2) a_def [symmetric] sa A_def [symmetric] T_def Let_def ..
  have h: "0 < a" "0 < ui * 8" "DIV_ROUND_UP_int a (ui * 8) - 1 \<le> T" "T < 2147483648" "(0 :: int) \<le> 2" "(2 :: int) \<le> 100" "(0 :: int) \<le> 1" "(1 :: int) \<le> 1"
    using a ui T by (simp_all add: A_def)
  note B = above [OF h, folded A_def, folded Z]
  have "?P * (ui * 8) + (?Z + 1) * (ui * 8) = 300000 - a + (?Z + 1) * (ui * 8)" using a(3) by simp
  then show "300000 \<le> ?P * (ui * 8) + (?Z + 1) * (ui * 8)" using B(1) by simp
  have "(T * 2 + 200) * (ui * 8) \<le> 1222 * (ui * 8)" using T ui by (intro mult_right_mono) simp_all
  then have "100 * ((?Z + 1) * (ui * 8)) \<le> 100 * a + 1222 * (ui * 8)" using B(3) by (simp only: mult.assoc)
  moreover have "(?P + ?Z + 1) * (ui * 8) = 300000 - a + (?Z + 1) * (ui * 8)" using a(3) by (simp add: algebra_simps)
  ultimately show "100 * ((?P + ?Z + 1) * (ui * 8)) \<le> 30000000 + 1222 * (ui * 8)" by (simp only: distrib_left right_diff_distrib)
qed

lemma v4_hs:
  assumes ui: "111 \<le> ui" "ui \<le> 7124"
  shows "40000 + 4 * ui \<le> uint (hs_prepare (dphy_v4 ui t)) * (ui * 8)" "uint (hs_prepare (dphy_v4 ui t)) * (ui * 8) \<le> 85000 + 6 * ui"
    "145000 + 10 * ui \<le> uint (hs_prepare (dphy_v4 ui t)) * (ui * 8) + (uint (hs_zero (dphy_v4 ui t)) + 1) * (ui * 8)"
proof -
  let ?H = "uint (hs_prepare (dphy_v4 ui t))"
  have "0 \<le> DIV_ROUND_UP_int (40000 + 4 * ui) (ui * 8)" "0 \<le> (85000 + 6 * ui) sdiv (ui * 8)"
    using DIV_ROUND_UP_int(4) [of "40000 + 4 * ui" "ui * 8"] sdiv_nonneg(4) [of "85000 + 6 * ui" "ui * 8"] ui by simp_all
  then show H: "40000 + 4 * ui \<le> ?H * (ui * 8)" "?H * (ui * 8) \<le> 85000 + 6 * ui"
    unfolding dphy_v4_fields(4) using between [of "40000 + 4 * ui" "ui * 8" "85000 + 6 * ui" 50 0] ui
    by (simp_all add: S_DIV_ROUND_UP_nonneg)
  define a where "a = 145000 + 10 * ui - ?H * 8 * ui"
  have a: "60000 + 4 * ui \<le> a" "a \<le> 105000 + 6 * ui" "a = 145000 + 10 * ui - ?H * (ui * 8)" using H by (simp_all add: a_def mult_ac)
  have Z: "hs_zero (dphy_v4 ui t) = to_u32 (linear_inter 255 (DIV_ROUND_UP_int a (ui * 8) - 1) 10 0 False)"
    unfolding dphy_v4_fields(5) a_def [symmetric] using a ui by (simp add: to_s32_id S_DIV_ROUND_UP_nonneg)
  have "DIV_ROUND_UP_int a (ui * 8) \<le> 256" using round_up_le [of a "ui * 8" 256] a ui by simp
  then have "a \<le> (uint (hs_zero (dphy_v4 ui t)) + 1) * (ui * 8)" unfolding Z using above(1) [of a "ui * 8" 1 255 10] a ui by simp
  then show "145000 + 10 * ui \<le> ?H * (ui * 8) + (uint (hs_zero (dphy_v4 ui t)) + 1) * (ui * 8)" using a(3) by simp
qed

lemma v4_trail:
  assumes ui: "111 \<le> ui" "ui \<le> 7124"
  shows "60000 + 3 * ui \<le> uint (clk_trail (dphy_v4 ui t)) * (ui * 8)" "uint (clk_trail (dphy_v4 ui t)) * (ui * 8) \<le> 85000 + 15 * ui"
    "60000 + 4 * ui \<le> (uint (hs_trail (dphy_v4 ui t)) + 1) * (ui * 8)" "(uint (hs_trail (dphy_v4 ui t)) + 1) * (ui * 8) \<le> 85000 + 12 * ui"
    "100000 \<le> (uint (hs_exit (dphy_v4 ui t)) + 1) * (ui * 8)"
proof -
  show "60000 + 3 * ui \<le> uint (clk_trail (dphy_v4 ui t)) * (ui * 8)" "uint (clk_trail (dphy_v4 ui t)) * (ui * 8) \<le> 85000 + 15 * ui"
    unfolding dphy_v4_fields(3) using between [of "60000 + 3 * ui" "ui * 8" "85000 + 15 * ui" 30 0] ui by simp_all
  show "60000 + 4 * ui \<le> (uint (hs_trail (dphy_v4 ui t)) + 1) * (ui * 8)" "(uint (hs_trail (dphy_v4 ui t)) + 1) * (ui * 8) \<le> 85000 + 12 * ui"
    unfolding dphy_v4_fields(6) using between [of "60000 + 4 * ui" "ui * 8" "85000 + 12 * ui" 30 1] ui by simp_all
  have "DIV_ROUND_UP_int 100000 (ui * 8) \<le> 256" using round_up_le [of 100000 "ui * 8" 256] ui by simp
  then show "100000 \<le> (uint (hs_exit (dphy_v4 ui t)) + 1) * (ui * 8)"
    unfolding dphy_v4_fields(8) using above(1) [of 100000 "ui * 8" 1 255 10] ui by simp
qed

lemma v4_rqst:
  assumes "111 \<le> ui" "ui \<le> 6250"
  shows "50000 \<le> (uint (hs_rqst (dphy_v4 ui t)) + 1) * (ui * 8)" "uint (hs_rqst (dphy_v4 ui t)) * (ui * 8) < 50000"
proof -
  let ?n = "DIV_ROUND_UP_int (50000 - 8 * ui) (ui * 8)"
  have n: "50000 - 8 * ui \<le> ui * 8 * ?n" "ui * 8 * ?n < 50000 - 8 * ui + ui * 8" "0 \<le> ?n"
    using DIV_ROUND_UP_int [of "50000 - 8 * ui" "ui * 8"] assms by simp_all
  have "?n \<le> 57" using round_up_le [of "50000 - 8 * ui" "ui * 8" 57] assms by simp
  then have "uint (hs_rqst (dphy_v4 ui t)) = ?n"
    unfolding dphy_v4_fields(7) using n(3) assms by (simp add: S_DIV_ROUND_UP_nonneg uint_to_u32)
  with n(1,2) show "50000 \<le> (uint (hs_rqst (dphy_v4 ui t)) + 1) * (ui * 8)" "uint (hs_rqst (dphy_v4 ui t)) * (ui * 8) < 50000"
    by (simp_all add: algebra_simps)
qed

text \<open>With longer bits the number of periods is rounded away from zero to -1, and wraps around.\<close>

lemma v4_rqst_wraps:
  assumes "6250 < ui"
  shows "hs_rqst (dphy_v4 ui t) = - 1"
proof -
  have "(50000 - 8 * ui - ui * 8 + 1) sdiv (ui * 8) = - 1"
  proof -
    have "(16 * ui - 50001) div (ui * 8) = 1"
      by (rule int_div_pos_eq [of _ _ _ "8 * ui - 50001"]) (use assms in simp_all)
    moreover have "50000 - 8 * ui - ui * 8 + 1 = - (16 * ui - 50001)" by simp
    ultimately show ?thesis using assms by (simp add: signed_divide_int_def sgn_if)
  qed
  then show ?thesis unfolding dphy_v4_fields(7) using assms by (simp add: S_DIV_ROUND_UP_def to_u32_def)
qed

lemma v4_mipi_ok: "111 \<le> ui \<Longrightarrow> ui \<le> 7124 \<Longrightarrow> mipi_ok ui (dphy_v4 ui t)"
  unfolding mipi_ok_def Let_def using v4_rqst [of ui t] v4_rqst_wraps [of ui t]
  by (intro conjI v4_prepare v4_zero v4_hs v4_trail) simp_all

lemma v4_post_pre:
  assumes ui: "111 \<le> ui" "ui \<le> 7124"
  shows "60000 + 52 * ui + (uint (hs_trail (dphy_v4 ui t)) + 1) * (ui * 8) \<le> (uint (clk_post (shared_timings (dphy_v4 ui t))) + 1) * (16 * ui)"
    "106000 + (uint (clk_prepare (dphy_v4 ui t)) + uint (clk_zero (dphy_v4 ui t)) + 1) * (ui * 8) \<le>
      (uint (clk_pre (shared_timings (dphy_v4 ui t))) + 1) * (16 * ui)"
proof -
  define a where "a = 60000 + 52 * ui + (uint (hs_trail (dphy_v4 ui t)) + 1) * (ui * 8)"
  have a: "0 < a" "a \<le> 145000 + 64 * ui" using v4_trail(3,4) [OF ui, of t] ui by (simp_all add: a_def)
  have "DIV_ROUND_UP_int a (16 * ui) \<le> 256" using round_up_le [of a "16 * ui" 256] a ui by simp
  then show "a \<le> (uint (clk_post (shared_timings (dphy_v4 ui t))) + 1) * (16 * ui)"
    unfolding dphy_v4_fields(9) a_def [symmetric] using above(1) [of a "16 * ui" 1 255 5] a ui by (simp add: to_s32_id)
  define b where "b = 106000 + (uint (clk_prepare (dphy_v4 ui t)) + uint (clk_zero (dphy_v4 ui t)) + 1) * (ui * 8)"
  have z: "0 \<le> (uint (clk_prepare (dphy_v4 ui t)) + uint (clk_zero (dphy_v4 ui t)) + 1) * (ui * 8)" using ui by simp
  with v4_zero(2) [OF ui, of t] have b: "106000 \<le> b" "100 * b \<le> 40600000 + 1222 * (ui * 8)" by (simp_all add: b_def)
  define tmin where "tmin = DIV_ROUND_UP_int b (16 * ui) - 1"
  have "DIV_ROUND_UP_int b (16 * ui) \<le> 256" using round_up_le [of b "16 * ui" 256] b ui by simp
  moreover have "b \<le> 16 * ui * DIV_ROUND_UP_int b (16 * ui)" "0 \<le> DIV_ROUND_UP_int b (16 * ui)"
    using DIV_ROUND_UP_int(2,4) [of b "16 * ui"] b ui by simp_all
  ultimately have tm: "- 1 \<le> tmin" "tmin \<le> 255" "b \<le> 16 * ui * (tmin + 1)" by (simp_all add: tmin_def)
  define D where "D = DIV_ROUND_UP_int ((255 - tmin) * 125) 10000"
  have D: "0 \<le> D" "10000 * D < (255 - tmin) * 125 + 10000"
    using DIV_ROUND_UP_int(3,4) [of "(255 - tmin) * 125" 10000] tm by (simp_all add: D_def)
  have "tmin \<noteq> - 1" using tm(3) b(1) by auto
  then have u: "uint (to_u32 (D + tmin)) = D + tmin" using D(1) D(2) [unfolded left_diff_distrib] tm by (intro uint_to_u32) linarith+
  have "16 * ui * (tmin + 1) \<le> 16 * ui * (D + tmin + 1)" using D(1) ui by (intro mult_left_mono) simp_all
  with tm(3) have "b \<le> 16 * ui * (D + tmin + 1)" by (rule order_trans)
  then have "b \<le> (D + tmin + 1) * (16 * ui)" by (simp only: mult.commute)
  moreover have "clk_pre (shared_timings (dphy_v4 ui t)) = to_u32 (D + tmin)"
  proof -
    have sb: "to_s32 b = b" using b ui by (intro to_s32_id) linarith+
    show ?thesis unfolding dphy_v4_fields(10) b_def [symmetric] sb tmin_def [symmetric] Let_def D_def [symmetric] ..
  qed
  ultimately show "b \<le> (uint (clk_pre (shared_timings (dphy_v4 ui t))) + 1) * (16 * ui)" using u by simp
qed

text \<open>The time of a bit, in thousandths of a nanosecond.\<close>

definition bit_time :: "nat \<Rightarrow> int" where
  "bit_time rate = int (10 ^ 9 div (rate div 1000))"

lemma clk_period_Some: "1000 \<le> rate \<Longrightarrow> clk_period rate = Some (10 ^ 9 div (rate div 1000))"
  using mult_frac_div [of "rate div 1000" 1000000 1000] by (simp add: clk_period_def div_greater_zero_iff)

lemma clk_period_None: "rate < 1000 \<Longrightarrow> clk_period rate = None"
  by (simp add: clk_period_def mult_frac_def)

lemma bit_time_range:
  assumes "140352000 \<le> rate" "rate \<le> 9000000000"
  shows "111 \<le> bit_time rate" "bit_time rate \<le> 7124"
proof -
  have r: "140352 \<le> rate div 1000" "rate div 1000 \<le> 9000000" 
    using div_le_mono [OF assms(1), of 1000] div_le_mono [OF assms(2), of 1000] by simp_all
  have "10 ^ 9 div 9000000 \<le> 10 ^ 9 div (rate div 1000)" "10 ^ 9 div (rate div 1000) \<le> 10 ^ 9 div (140352 :: nat)"
    by (rule div_le_mono2, use r in linarith, use r in linarith)+
  moreover have "(10 :: nat) ^ 9 div 9000000 = 111" "(10 :: nat) ^ 9 div 140352 = 7124" by simp_all
  ultimately have "111 \<le> (10 :: nat) ^ 9 div (rate div 1000)" "(10 :: nat) ^ 9 div (rate div 1000) \<le> 7124" by (simp_all only:)
  then show "111 \<le> bit_time rate" "bit_time rate \<le> 7124" unfolding bit_time_def by linarith+
qed

lemma bit_time_160: "160000000 \<le> rate \<Longrightarrow> bit_time rate \<le> 6250"
proof -
  assume "160000000 \<le> rate"
  from div_le_mono [OF this, of 1000] have "160000 \<le> rate div 1000" by simp
  then have "10 ^ 9 div (rate div 1000) \<le> (10 :: nat) ^ 9 div 160000" by (intro div_le_mono2) linarith+
  also have "(10 :: nat) ^ 9 div 160000 = 6250" by simp
  finally show ?thesis unfolding bit_time_def by linarith
qed

text \<open>The third version agrees with the fourth on the fields they both compute, except for the clock around the data.\<close>

lemma dphy_v3_v4:
  "clk_prepare (dphy_v3 ui t) = clk_prepare (dphy_v4 ui t')" "clk_zero (dphy_v3 ui t) = clk_zero (dphy_v4 ui t')"
  "clk_trail (dphy_v3 ui t) = clk_trail (dphy_v4 ui t')" "hs_prepare (dphy_v3 ui t) = hs_prepare (dphy_v4 ui t')"
  "hs_zero (dphy_v3 ui t) = hs_zero (dphy_v4 ui t')" "hs_trail (dphy_v3 ui t) = hs_trail (dphy_v4 ui t')"
  "hs_rqst (dphy_v3 ui t) = hs_rqst (dphy_v4 ui t')" "hs_exit (dphy_v3 ui t) = hs_exit (dphy_v4 ui t')"
  by (simp_all add: dphy_v3_def dphy_v4_def Let_def)

text \<open>
  C37: For bit rates between 140.352 MHz and 9 GHz the timings of the third and the fourth version of the PHY are computed.
  They meet the limits of the D-PHY specification that the code names, with the periods that the hardware adds:
  the clock lane prepares for 38 to 95 ns and is at zero until 300 ns, the data lanes prepare for 40 ns and 4 bits to 85 ns and 6 bits and are at
  zero until 145 ns and 10 bits, trails last from 60 ns to 85 ns and the bits added to these, the exit 100 ns; in the fourth
  version the clock runs for the recommended time after and before the data.  The request of the data lanes, 50 ns, is met
  exactly while a bit takes at most 6250 ps, which is so from 160 MHz on; with longer bits its field is \<open>0xffffffff\<close>.
\<close>

theorem msm_dsi_dphy_timing_calc_mipi:
  assumes "140352000 \<le> bit_rate" "bit_rate \<le> 9000000000" "esc_rate \<noteq> 0"
  shows "\<exists>t3 t4. msm_dsi_dphy_timing_calc_v3 t bit_rate esc_rate = Some (0, t3) \<and>
    msm_dsi_dphy_timing_calc_v4 t bit_rate esc_rate = Some (0, t4) \<and>
    (let ui = bit_time bit_rate
     in mipi_ok ui t3 \<and> mipi_ok ui t4 \<and> (160000000 \<le> bit_rate \<longrightarrow> ui \<le> 6250) \<and>
        60000 + 52 * ui + (uint (hs_trail t4) + 1) * (ui * 8) \<le> (uint (clk_post (shared_timings t4)) + 1) * (16 * ui) \<and>
        106000 + (uint (clk_prepare t4) + uint (clk_zero t4) + 1) * (ui * 8) \<le> (uint (clk_pre (shared_timings t4)) + 1) * (16 * ui))"
proof -
  note ui = bit_time_range [OF assms(1,2)]
  have p: "clk_period bit_rate = Some (10 ^ 9 div (bit_rate div 1000))" "(10 :: nat) ^ 9 div (bit_rate div 1000) \<noteq> 0"
    using clk_period_Some [of bit_rate] assms(1) ui(1) unfolding bit_time_def by linarith+
  have "msm_dsi_dphy_timing_calc_v4 t bit_rate esc_rate = Some (0, dphy_v4 (bit_time bit_rate) t)"
    "msm_dsi_dphy_timing_calc_v3 t bit_rate esc_rate = Some (0, dphy_v3 (bit_time bit_rate) t)"
    unfolding msm_dsi_dphy_timing_calc_v4_def msm_dsi_dphy_timing_calc_v3_def p(1) bit_time_def using p(2) assms by simp_all
  moreover have "mipi_ok (bit_time bit_rate) (dphy_v3 (bit_time bit_rate) t)"
    using v4_mipi_ok [OF ui, of t] unfolding mipi_ok_def dphy_v3_v4 [of _ t t] .
  ultimately show ?thesis using v4_mipi_ok [OF ui] v4_post_pre [OF ui] bit_time_160 by (simp add: Let_def)
qed

section \<open>Where the computation goes wrong\<close>

text \<open>A rate below a kilohertz passes the test for zero and is divided by.\<close>

lemma msm_dsi_dphy_timing_calc_divides_by_zero:
  assumes "0 < bit_rate" "bit_rate < 1000" "0 < esc_rate"
  shows "msm_dsi_dphy_timing_calc t bit_rate esc_rate = None" "msm_dsi_dphy_timing_calc_v2 t bit_rate esc_rate = None"
    "msm_dsi_dphy_timing_calc_v3 t bit_rate esc_rate = None" "msm_dsi_dphy_timing_calc_v4 t bit_rate esc_rate = None"
    "msm_dsi_cphy_timing_calc_v4 t bit_rate esc_rate = None"
  using assms clk_period_None [of bit_rate]
  by (simp_all add: msm_dsi_dphy_timing_calc_def msm_dsi_dphy_timing_calc_v2_def msm_dsi_dphy_timing_calc_v3_def
      msm_dsi_dphy_timing_calc_v4_def msm_dsi_cphy_timing_calc_v4_def)

text \<open>
  Bits longer than 6250 ps, which is below 160 MHz, are not refused, although the request of the data lanes then has no
  sensible value.
\<close>

lemma hs_rqst_wraps:
  assumes "6250 < ui"
  shows "hs_rqst (dphy_v3 ui t) = - 1" "hs_rqst (dphy_v4 ui t) = - 1"
  using v4_rqst_wraps [OF assms] by (simp_all add: dphy_v3_v4(7) [of ui t t])

section \<open>Concrete inputs\<close>

definition wit_timing :: msm_dsi_dphy_timing where
  "wit_timing = \<lparr>clk_zero = 0, clk_trail = 0, clk_prepare = 0, hs_exit = 0, hs_zero = 0, hs_prepare = 0, hs_trail = 0,
     hs_rqst = 0, ta_go = 0, ta_sure = 0, ta_get = 0, shared_timings = \<lparr>clk_post = 0, clk_pre = 0, clk_pre_inc_by_2 = False\<rparr>,
     hs_rqst_ckln = 0, hs_prep_dly = 0, hs_prep_dly_ckln = 0, hs_halfbyte_en = 0, hs_halfbyte_en_ckln = 0\<rparr>"

theorem msm_dsi_dphy_timing_calc_mipi_witness:
  "\<exists>t3 t4. msm_dsi_dphy_timing_calc_v3 wit_timing 1000000000 19200000 = Some (0, t3) \<and>
    msm_dsi_dphy_timing_calc_v4 wit_timing 1000000000 19200000 = Some (0, t4) \<and> mipi_ok 1000 t3 \<and> mipi_ok 1000 t4"
  using msm_dsi_dphy_timing_calc_mipi [of 1000000000 19200000 wit_timing] by (auto simp: Let_def bit_time_def)

end
