(* ===== verification/DPU_CTL.thy ===== *)
theory DPU_CTL
  imports Prelude
begin

text \<open>
  The control path of the DPU display engine (\<^verbatim>\<open>msm/disp/dpu1/dpu_hw_ctl.c\<close>): which pipes a layer mixer blends at
  which stage, which interfaces and blocks a path drives, and the flushing of double-buffered registers.

  Registers are offsets in the block of the control path; the state has their contents and the sequence of writes.
  Identifiers of blocks are the numbers of the enumerations in \<^verbatim>\<open>dpu_hw_mdss.h\<close>.
\<close>

section \<open>Registers and state (dpu_hw_ctl.c, dpu_hw_ctl.h)\<close>

definition CTL_LAYER :: "nat \<Rightarrow> nat" where "CTL_LAYER lm = (if lm = 6 then 0x024 else (lm - 1) * 0x004)"
definition CTL_LAYER_EXT :: "nat \<Rightarrow> nat" where "CTL_LAYER_EXT lm = 0x40 + (lm - 1) * 0x004"
definition CTL_LAYER_EXT2 :: "nat \<Rightarrow> nat" where "CTL_LAYER_EXT2 lm = 0x70 + (lm - 1) * 0x004"
definition CTL_LAYER_EXT3 :: "nat \<Rightarrow> nat" where "CTL_LAYER_EXT3 lm = 0xA0 + (lm - 1) * 0x004"
definition CTL_TOP :: nat where "CTL_TOP = 0x014"
definition CTL_FLUSH :: nat where "CTL_FLUSH = 0x018"
definition CTL_START :: nat where "CTL_START = 0x01C"
definition CTL_PREPARE :: nat where "CTL_PREPARE = 0x0d0"
definition CTL_MERGE_3D_ACTIVE :: nat where "CTL_MERGE_3D_ACTIVE = 0x0E4"
definition CTL_WB_ACTIVE :: nat where "CTL_WB_ACTIVE = 0x0EC"
definition CTL_INTF_ACTIVE :: nat where "CTL_INTF_ACTIVE = 0x0F4"
definition CTL_MERGE_3D_FLUSH :: nat where "CTL_MERGE_3D_FLUSH = 0x100"
definition CTL_DSC_ACTIVE :: nat where "CTL_DSC_ACTIVE = 0x0E8"
definition CTL_DSC_FLUSH :: nat where "CTL_DSC_FLUSH = 0x104"
definition CTL_WB_FLUSH :: nat where "CTL_WB_FLUSH = 0x108"
definition CTL_INTF_FLUSH :: nat where "CTL_INTF_FLUSH = 0x110"
definition CTL_FETCH_PIPE_ACTIVE :: nat where "CTL_FETCH_PIPE_ACTIVE = 0x0FC"

definition CTL_MIXER_BORDER_OUT :: u32 where "CTL_MIXER_BORDER_OUT = 0x01000000"
definition CTL_FLUSH_MASK_CTL :: u32 where "CTL_FLUSH_MASK_CTL = 0x00020000"

definition MERGE_3D_IDX :: nat where "MERGE_3D_IDX = 23"
definition DSC_IDX :: nat where "DSC_IDX = 22"
definition INTF_IDX :: nat where "INTF_IDX = 31"
definition WB_IDX :: nat where "WB_IDX = 16"

text \<open>
  \<open>mixer_hw_caps\<close>: the mixers of the catalogue with the number of their last stage, and whether the first supports
  two pipes in a stage.
\<close>

record dpu_hw_ctl =
  vm_cfg :: bool
  mixer_hw_caps :: "(nat \<times> nat) list"
  sourcesplit :: bool
  pending_flush_mask :: u32
  pending_intf_flush_mask :: u32
  pending_wb_flush_mask :: u32
  pending_merge_3d_flush_mask :: u32
  ctl_regs :: "nat \<Rightarrow> u32"
  ctl_writes :: "(nat \<times> u32) list"

definition DPU_REG_WRITE :: "nat \<Rightarrow> u32 \<Rightarrow> dpu_hw_ctl \<Rightarrow> dpu_hw_ctl" where
  "DPU_REG_WRITE r v ctx = ctx\<lparr>ctl_regs := (ctl_regs ctx)(r := v), ctl_writes := ctl_writes ctx @ [(r, v)]\<rparr>"

definition DPU_REG_READ :: "dpu_hw_ctl \<Rightarrow> nat \<Rightarrow> u32" where
  "DPU_REG_READ ctx r = ctl_regs ctx r"

definition mixer_stages :: "(nat \<times> nat) list \<Rightarrow> nat \<Rightarrow> int" where
  "mixer_stages mixer lm = (case find (\<lambda>m. fst m = lm) mixer of None \<Rightarrow> - EINVAL | Some m \<Rightarrow> int (snd m))"

section \<open>Flushing (dpu_hw_ctl.c)\<close>

definition dpu_hw_ctl_get_flush_register :: "dpu_hw_ctl \<Rightarrow> u32" where
  "dpu_hw_ctl_get_flush_register ctx = DPU_REG_READ ctx CTL_FLUSH"

definition dpu_hw_ctl_trigger_start :: "dpu_hw_ctl \<Rightarrow> dpu_hw_ctl" where
  "dpu_hw_ctl_trigger_start ctx = DPU_REG_WRITE CTL_START 1 ctx"

definition dpu_hw_ctl_is_started :: "dpu_hw_ctl \<Rightarrow> bool" where
  "dpu_hw_ctl_is_started ctx = (DPU_REG_READ ctx CTL_START AND 1 \<noteq> 0)"

definition dpu_hw_ctl_trigger_pending :: "dpu_hw_ctl \<Rightarrow> dpu_hw_ctl" where
  "dpu_hw_ctl_trigger_pending ctx = DPU_REG_WRITE CTL_PREPARE 1 ctx"

definition dpu_hw_ctl_clear_pending_flush :: "dpu_hw_ctl \<Rightarrow> dpu_hw_ctl" where
  "dpu_hw_ctl_clear_pending_flush ctx = ctx\<lparr>pending_flush_mask := 0\<rparr>"

definition dpu_hw_ctl_update_pending_flush :: "u32 \<Rightarrow> dpu_hw_ctl \<Rightarrow> dpu_hw_ctl" where
  "dpu_hw_ctl_update_pending_flush flushbits ctx = ctx\<lparr>pending_flush_mask := pending_flush_mask ctx OR flushbits\<rparr>"

definition dpu_hw_ctl_get_pending_flush :: "dpu_hw_ctl \<Rightarrow> u32" where
  "dpu_hw_ctl_get_pending_flush ctx = pending_flush_mask ctx"

definition dpu_hw_ctl_trigger_flush_v1 :: "dpu_hw_ctl \<Rightarrow> dpu_hw_ctl" where
  "dpu_hw_ctl_trigger_flush_v1 ctx =
     (let ctx = (if pending_flush_mask ctx AND BIT32 MERGE_3D_IDX \<noteq> 0
                 then DPU_REG_WRITE CTL_MERGE_3D_FLUSH (pending_merge_3d_flush_mask ctx) ctx else ctx);
          ctx = (if pending_flush_mask ctx AND BIT32 INTF_IDX \<noteq> 0
                 then DPU_REG_WRITE CTL_INTF_FLUSH (pending_intf_flush_mask ctx) ctx else ctx);
          ctx = (if pending_flush_mask ctx AND BIT32 WB_IDX \<noteq> 0
                 then DPU_REG_WRITE CTL_WB_FLUSH (pending_wb_flush_mask ctx) ctx else ctx)
      in DPU_REG_WRITE CTL_FLUSH (pending_flush_mask ctx) ctx)"

definition dpu_hw_ctl_trigger_flush :: "dpu_hw_ctl \<Rightarrow> dpu_hw_ctl" where
  "dpu_hw_ctl_trigger_flush ctx = DPU_REG_WRITE CTL_FLUSH (pending_flush_mask ctx) ctx"

definition dpu_hw_ctl_get_bitmask_sspp :: "nat \<Rightarrow> u32" where
  "dpu_hw_ctl_get_bitmask_sspp sspp =
     (if sspp = 1 then BIT32 0 else if sspp = 2 then BIT32 1 else if sspp = 3 then BIT32 2 else if sspp = 4 then BIT32 18
      else if sspp = 5 then BIT32 3 else if sspp = 6 then BIT32 4 else if sspp = 7 then BIT32 5 else if sspp = 8 then BIT32 19
      else if sspp = 9 then BIT32 11 else if sspp = 10 then BIT32 12 else if sspp = 11 then BIT32 24 else if sspp = 12 then BIT32 25
      else if sspp = 13 then BIT32 22 else if sspp = 14 then BIT32 23 else 0)"

definition dpu_hw_ctl_get_bitmask_mixer :: "nat \<Rightarrow> u32" where
  "dpu_hw_ctl_get_bitmask_mixer lm =
     (if lm = 1 then BIT32 6 OR CTL_FLUSH_MASK_CTL else if lm = 2 then BIT32 7 OR CTL_FLUSH_MASK_CTL
      else if lm = 3 then BIT32 8 OR CTL_FLUSH_MASK_CTL else if lm = 4 then BIT32 9 OR CTL_FLUSH_MASK_CTL
      else if lm = 5 then BIT32 10 OR CTL_FLUSH_MASK_CTL else if lm = 6 then BIT32 20 OR CTL_FLUSH_MASK_CTL
      else word_of_int (- EINVAL))"

definition dpu_hw_ctl_update_pending_flush_intf :: "nat \<Rightarrow> dpu_hw_ctl \<Rightarrow> dpu_hw_ctl" where
  "dpu_hw_ctl_update_pending_flush_intf intf ctx =
     (if intf = 1 then ctx\<lparr>pending_flush_mask := pending_flush_mask ctx OR BIT32 31\<rparr>
      else if intf = 2 then ctx\<lparr>pending_flush_mask := pending_flush_mask ctx OR BIT32 30\<rparr>
      else if intf = 3 then ctx\<lparr>pending_flush_mask := pending_flush_mask ctx OR BIT32 29\<rparr>
      else if intf = 4 then ctx\<lparr>pending_flush_mask := pending_flush_mask ctx OR BIT32 28\<rparr>
      else ctx)"

definition dpu_hw_ctl_update_pending_flush_wb :: "nat \<Rightarrow> dpu_hw_ctl \<Rightarrow> dpu_hw_ctl" where
  "dpu_hw_ctl_update_pending_flush_wb wb ctx =
     (if wb = 1 \<or> wb = 2 \<or> wb = 3 then ctx\<lparr>pending_flush_mask := pending_flush_mask ctx OR BIT32 WB_IDX\<rparr> else ctx)"

definition dpu_hw_ctl_update_pending_flush_wb_v1 :: "nat \<Rightarrow> dpu_hw_ctl \<Rightarrow> dpu_hw_ctl" where
  "dpu_hw_ctl_update_pending_flush_wb_v1 wb ctx =
     ctx\<lparr>pending_wb_flush_mask := pending_wb_flush_mask ctx OR BIT32 (wb - 1),
         pending_flush_mask := pending_flush_mask ctx OR BIT32 WB_IDX\<rparr>"

definition dpu_hw_ctl_update_pending_flush_intf_v1 :: "nat \<Rightarrow> dpu_hw_ctl \<Rightarrow> dpu_hw_ctl" where
  "dpu_hw_ctl_update_pending_flush_intf_v1 intf ctx =
     ctx\<lparr>pending_intf_flush_mask := pending_intf_flush_mask ctx OR BIT32 (intf - 1),
         pending_flush_mask := pending_flush_mask ctx OR BIT32 INTF_IDX\<rparr>"

definition dpu_hw_ctl_update_pending_flush_merge_3d_v1 :: "nat \<Rightarrow> dpu_hw_ctl \<Rightarrow> dpu_hw_ctl" where
  "dpu_hw_ctl_update_pending_flush_merge_3d_v1 merge_3d ctx =
     ctx\<lparr>pending_merge_3d_flush_mask := pending_merge_3d_flush_mask ctx OR BIT32 (merge_3d - 1),
         pending_flush_mask := pending_flush_mask ctx OR BIT32 MERGE_3D_IDX\<rparr>"

definition dpu_hw_ctl_get_bitmask_dspp :: "nat \<Rightarrow> u32" where
  "dpu_hw_ctl_get_bitmask_dspp dspp =
     (if dspp = 1 then BIT32 13 else if dspp = 2 then BIT32 14 else if dspp = 3 then BIT32 15 else if dspp = 4 then BIT32 21 else 0)"

section \<open>Blending (dpu_hw_ctl.c)\<close>

definition dpu_hw_ctl_clear_all_blendstages :: "dpu_hw_ctl \<Rightarrow> dpu_hw_ctl" where
  "dpu_hw_ctl_clear_all_blendstages ctx =
     DPU_REG_WRITE CTL_FETCH_PIPE_ACTIVE 0
       (fold (\<lambda>m ctx. DPU_REG_WRITE (CTL_LAYER_EXT3 (fst m)) 0 (DPU_REG_WRITE (CTL_LAYER_EXT2 (fst m)) 0
           (DPU_REG_WRITE (CTL_LAYER_EXT (fst m)) 0 (DPU_REG_WRITE (CTL_LAYER (fst m)) 0 ctx))))
          (mixer_hw_caps ctx) ctx)"

text \<open>The four words of a mixer: layer, extension, second and third extension.\<close>

record mixercfg =
  cfg0 :: u32
  cfg_ext :: u32
  cfg_ext2 :: u32
  cfg_ext3 :: u32

text \<open>
  One pipe of a stage (the body of the inner loop): \<open>i\<close> is the stage, \<open>mix\<close> its low bits, which two of the cases
  change for the pipes that follow in the stage.
\<close>

definition DPU_SSPP_RECT_1 :: nat where "DPU_SSPP_RECT_1 = 2"

definition blend_pipe :: "nat \<Rightarrow> nat \<Rightarrow> nat \<Rightarrow> u32 \<times> mixercfg \<Rightarrow> u32 \<times> mixercfg" where
  "blend_pipe i pipe rect_index = (\<lambda>(mix, c).
     let ext = (if i \<ge> 7 then 1 else 0); n = of_nat (i + 1) AND 0xF; r1 = (rect_index = DPU_SSPP_RECT_1)
     in if pipe = 1 then
          (mix, if r1 then c\<lparr>cfg_ext3 := cfg_ext3 c OR push_bit 0 n\<rparr>
                else c\<lparr>cfg0 := cfg0 c OR push_bit 0 mix, cfg_ext := cfg_ext c OR push_bit 0 ext\<rparr>)
        else if pipe = 2 then
          (mix, if r1 then c\<lparr>cfg_ext3 := cfg_ext3 c OR push_bit 4 n\<rparr>
                else c\<lparr>cfg0 := cfg0 c OR push_bit 3 mix, cfg_ext := cfg_ext c OR push_bit 2 ext\<rparr>)
        else if pipe = 3 then
          (mix, if r1 then c\<lparr>cfg_ext3 := cfg_ext3 c OR push_bit 8 n\<rparr>
                else c\<lparr>cfg0 := cfg0 c OR push_bit 6 mix, cfg_ext := cfg_ext c OR push_bit 4 ext\<rparr>)
        else if pipe = 4 then
          (mix, if r1 then c\<lparr>cfg_ext3 := cfg_ext3 c OR push_bit 12 n\<rparr>
                else c\<lparr>cfg0 := cfg0 c OR push_bit 26 mix, cfg_ext := cfg_ext c OR push_bit 6 ext\<rparr>)
        else if pipe = 5 then (mix, c\<lparr>cfg0 := cfg0 c OR push_bit 9 mix, cfg_ext := cfg_ext c OR push_bit 8 ext\<rparr>)
        else if pipe = 6 then (mix, c\<lparr>cfg0 := cfg0 c OR push_bit 12 mix, cfg_ext := cfg_ext c OR push_bit 10 ext\<rparr>)
        else if pipe = 7 then (mix, c\<lparr>cfg0 := cfg0 c OR push_bit 15 mix, cfg_ext := cfg_ext c OR push_bit 12 ext\<rparr>)
        else if pipe = 8 then (mix, c\<lparr>cfg0 := cfg0 c OR push_bit 29 mix, cfg_ext := cfg_ext c OR push_bit 14 ext\<rparr>)
        else if pipe = 9 then
          (mix, if r1 then c\<lparr>cfg_ext2 := cfg_ext2 c OR push_bit 8 n\<rparr>
                else c\<lparr>cfg0 := cfg0 c OR push_bit 18 mix, cfg_ext := cfg_ext c OR push_bit 16 ext\<rparr>)
        else if pipe = 10 then
          (mix, if r1 then c\<lparr>cfg_ext2 := cfg_ext2 c OR push_bit 12 n\<rparr>
                else c\<lparr>cfg0 := cfg0 c OR push_bit 21 mix, cfg_ext := cfg_ext c OR push_bit 18 ext\<rparr>)
        else if pipe = 11 then
          (if r1 then (mix, c\<lparr>cfg_ext2 := cfg_ext2 c OR push_bit 16 n\<rparr>)
           else let mix = mix OR n in (mix, c\<lparr>cfg_ext2 := cfg_ext2 c OR push_bit 0 mix\<rparr>))
        else if pipe = 12 then
          (if r1 then (mix, c\<lparr>cfg_ext2 := cfg_ext2 c OR push_bit 20 n\<rparr>)
           else let mix = mix OR n in (mix, c\<lparr>cfg_ext2 := cfg_ext2 c OR push_bit 4 mix\<rparr>))
        else if pipe = 13 then (mix, c\<lparr>cfg_ext := cfg_ext c OR push_bit 20 n\<rparr>)
        else if pipe = 14 then (mix, c\<lparr>cfg_ext := cfg_ext c OR push_bit 26 n\<rparr>)
        else (mix, c))"

record dpu_hw_stage_cfg =
  stage :: "nat \<Rightarrow> nat \<Rightarrow> nat"
  multirect_index :: "nat \<Rightarrow> nat \<Rightarrow> nat"

definition blend_stage :: "nat \<Rightarrow> dpu_hw_stage_cfg \<Rightarrow> nat \<Rightarrow> mixercfg \<Rightarrow> mixercfg" where
  "blend_stage pipes_per_stage s i c =
     snd (fold (\<lambda>j. blend_pipe i (stage s i j) (multirect_index s i j)) [0..<pipes_per_stage] (of_nat (i + 1) AND 7, c))"

definition dpu_hw_ctl_setup_blendstage :: "nat \<Rightarrow> dpu_hw_stage_cfg option \<Rightarrow> dpu_hw_ctl \<Rightarrow> dpu_hw_ctl" where
  "dpu_hw_ctl_setup_blendstage lm stage_cfg ctx =
     (let stages = mixer_stages (mixer_hw_caps ctx) lm
      in if stages < 0 then ctx
         else let pipes_per_stage = (if sourcesplit ctx then 2 else 1);
                  c = \<lparr>cfg0 = CTL_MIXER_BORDER_OUT, cfg_ext = 0, cfg_ext2 = 0, cfg_ext3 = 0\<rparr>;
                  c = (case stage_cfg of None \<Rightarrow> c | Some s \<Rightarrow> fold (blend_stage pipes_per_stage s) [0..<nat stages + 1] c)
              in DPU_REG_WRITE (CTL_LAYER_EXT3 lm) (cfg_ext3 c) (DPU_REG_WRITE (CTL_LAYER_EXT2 lm) (cfg_ext2 c)
                   (DPU_REG_WRITE (CTL_LAYER_EXT lm) (cfg_ext c) (DPU_REG_WRITE (CTL_LAYER lm) (cfg0 c) ctx))))"

section \<open>Interfaces (dpu_hw_ctl.c)\<close>

text \<open>Numbers of blocks are 0 when there is none.  \<open>cmd_mode\<close>: \<open>None\<close> is a mode that is neither video nor command.\<close>

record dpu_hw_intf_cfg =
  ic_intf :: nat
  ic_wb :: nat
  ic_mode_3d :: nat
  ic_merge_3d :: nat
  ic_cmd_mode :: "bool option"
  ic_stream_sel :: u32
  ic_dsc :: u32

definition dpu_hw_ctl_intf_cfg_v1 :: "dpu_hw_intf_cfg \<Rightarrow> dpu_hw_ctl \<Rightarrow> dpu_hw_ctl" where
  "dpu_hw_ctl_intf_cfg_v1 cfg ctx =
     (let mode_sel = (if vm_cfg ctx then 0xf0000000 else 0);
          ctx = (if ic_dsc cfg \<noteq> 0 then DPU_REG_WRITE CTL_DSC_FLUSH (ic_dsc cfg) ctx else ctx);
          mode_sel = (if ic_cmd_mode cfg = Some True then mode_sel OR BIT32 17 else mode_sel);
          intf_active = DPU_REG_READ ctx CTL_INTF_ACTIVE;
          wb_active = DPU_REG_READ ctx CTL_WB_ACTIVE;
          intf_active = (if ic_intf cfg \<noteq> 0 then intf_active OR BIT32 (ic_intf cfg - 1) else intf_active);
          wb_active = (if ic_wb cfg \<noteq> 0 then wb_active OR BIT32 (ic_wb cfg - 1) else wb_active);
          ctx = DPU_REG_WRITE CTL_WB_ACTIVE wb_active (DPU_REG_WRITE CTL_INTF_ACTIVE intf_active (DPU_REG_WRITE CTL_TOP mode_sel ctx));
          ctx = (if ic_merge_3d cfg \<noteq> 0 then DPU_REG_WRITE CTL_MERGE_3D_ACTIVE (BIT32 (ic_merge_3d cfg - 1)) ctx else ctx)
      in if ic_dsc cfg \<noteq> 0
         then DPU_REG_WRITE CTL_DSC_ACTIVE (ic_dsc cfg) (DPU_REG_WRITE CTL_FLUSH (of_nat DSC_IDX) ctx)
         else ctx)"

definition dpu_hw_ctl_intf_cfg :: "dpu_hw_intf_cfg \<Rightarrow> dpu_hw_ctl \<Rightarrow> dpu_hw_ctl" where
  "dpu_hw_ctl_intf_cfg cfg ctx =
     (let v = push_bit 4 (of_nat (ic_intf cfg) AND 0xF);
          v = (if ic_mode_3d cfg \<noteq> 0 then v OR BIT32 19 OR push_bit 20 (of_nat (ic_mode_3d cfg - 1)) else v);
          v = (if ic_wb cfg \<noteq> 0 then v OR ((of_nat (ic_wb cfg) AND 0x3) + 2) else v)
      in case ic_cmd_mode cfg of
           Some False \<Rightarrow> DPU_REG_WRITE CTL_TOP ((v AND NOT (BIT32 17)) AND NOT (push_bit 15 0x3)) ctx
         | Some True \<Rightarrow> DPU_REG_WRITE CTL_TOP ((v OR BIT32 17) OR push_bit 15 (ic_stream_sel cfg AND 0x3)) ctx
         | None \<Rightarrow> ctx)"

definition dpu_hw_ctl_reset_intf_cfg_v1 :: "dpu_hw_intf_cfg \<Rightarrow> dpu_hw_ctl \<Rightarrow> dpu_hw_ctl" where
  "dpu_hw_ctl_reset_intf_cfg_v1 cfg ctx =
     (let ctx = (if ic_merge_3d cfg \<noteq> 0
                 then DPU_REG_WRITE CTL_MERGE_3D_ACTIVE (DPU_REG_READ ctx CTL_MERGE_3D_ACTIVE AND NOT (BIT32 (ic_merge_3d cfg - 1))) ctx
                 else ctx);
          ctx = dpu_hw_ctl_clear_all_blendstages ctx;
          ctx = (if ic_intf cfg \<noteq> 0
                 then DPU_REG_WRITE CTL_INTF_ACTIVE (DPU_REG_READ ctx CTL_INTF_ACTIVE AND NOT (BIT32 (ic_intf cfg - 1))) ctx else ctx)
      in if ic_wb cfg \<noteq> 0
         then DPU_REG_WRITE CTL_WB_ACTIVE (DPU_REG_READ ctx CTL_WB_ACTIVE AND NOT (BIT32 (ic_wb cfg - 1))) ctx else ctx)"

definition CTL_INVALID_BIT :: nat where "CTL_INVALID_BIT = 0xffff"

definition fetch_tbl :: "nat list" where
  "fetch_tbl = [CTL_INVALID_BIT, 16, 17, 18, 19, CTL_INVALID_BIT, CTL_INVALID_BIT, CTL_INVALID_BIT, CTL_INVALID_BIT, 0,
     1, 2, 3, CTL_INVALID_BIT, CTL_INVALID_BIT]"

definition SSPP_MAX :: nat where "SSPP_MAX = 15"

definition dpu_hw_ctl_set_fetch_pipe_active :: "(nat \<Rightarrow> bool) option \<Rightarrow> dpu_hw_ctl \<Rightarrow> dpu_hw_ctl" where
  "dpu_hw_ctl_set_fetch_pipe_active fetch_active ctx =
     DPU_REG_WRITE CTL_FETCH_PIPE_ACTIVE
       (case fetch_active of None \<Rightarrow> 0
        | Some act \<Rightarrow> fold (\<lambda>i v. if act i \<and> fetch_tbl ! i \<noteq> CTL_INVALID_BIT then v OR BIT32 (fetch_tbl ! i) else v) [0..<SSPP_MAX] 0)
       ctx"

section \<open>Reset (dpu_hw_ctl.c)\<close>

text \<open>
  \<open>hw k\<close> is what the \<open>k\<close>-th read of the reset register gives and \<open>clk k\<close> the time, in nanoseconds, after it.
  \<open>None\<close> is a loop that never ends.
\<close>

definition CTL_SW_RESET :: nat where "CTL_SW_RESET = 0x030"
definition DPU_REG_RESET_TIMEOUT_US :: int where "DPU_REG_RESET_TIMEOUT_US = 2000"

partial_function (option) poll_reset :: "(nat \<Rightarrow> u32) \<Rightarrow> (nat \<Rightarrow> int) \<Rightarrow> int \<Rightarrow> nat \<Rightarrow> u32 option" where
  "poll_reset hw clk timeout k =
     (if hw k AND 1 \<noteq> 0 \<and> clk k < timeout then poll_reset hw clk timeout (k + 1) else Some (hw k AND 1))"

definition dpu_hw_ctl_poll_reset_status :: "(nat \<Rightarrow> u32) \<Rightarrow> (nat \<Rightarrow> int) \<Rightarrow> int \<Rightarrow> int \<Rightarrow> nat \<Rightarrow> u32 option" where
  "dpu_hw_ctl_poll_reset_status hw clk now timeout_us k = poll_reset hw clk (now + timeout_us * 1000) k"

definition dpu_hw_ctl_reset_control :: "(nat \<Rightarrow> u32) \<Rightarrow> (nat \<Rightarrow> int) \<Rightarrow> int \<Rightarrow> dpu_hw_ctl \<Rightarrow> int option \<times> dpu_hw_ctl" where
  "dpu_hw_ctl_reset_control hw clk now ctx =
     (map_option (\<lambda>st. if st \<noteq> 0 then - EINVAL else 0) (dpu_hw_ctl_poll_reset_status hw clk now DPU_REG_RESET_TIMEOUT_US 0),
      DPU_REG_WRITE CTL_SW_RESET 1 ctx)"

definition dpu_hw_ctl_wait_reset_status :: "(nat \<Rightarrow> u32) \<Rightarrow> (nat \<Rightarrow> int) \<Rightarrow> int \<Rightarrow> int option" where
  "dpu_hw_ctl_wait_reset_status hw clk now =
     (if hw 0 AND 1 = 0 then Some 0
      else map_option (\<lambda>st. if st \<noteq> 0 then - EINVAL else 0) (dpu_hw_ctl_poll_reset_status hw clk now DPU_REG_RESET_TIMEOUT_US 1))"

section \<open>The operations of a control path (dpu_hw_ctl.c)\<close>

text \<open>\<open>None\<close> is an operation that is not set for the features of the hardware.\<close>

record dpu_hw_ctl_ops =
  trigger_start :: "dpu_hw_ctl \<Rightarrow> dpu_hw_ctl"
  is_started :: "dpu_hw_ctl \<Rightarrow> bool"
  trigger_pending :: "dpu_hw_ctl \<Rightarrow> dpu_hw_ctl"
  clear_pending_flush :: "dpu_hw_ctl \<Rightarrow> dpu_hw_ctl"
  get_pending_flush :: "dpu_hw_ctl \<Rightarrow> u32"
  update_pending_flush :: "u32 \<Rightarrow> dpu_hw_ctl \<Rightarrow> dpu_hw_ctl"
  update_pending_flush_intf :: "nat \<Rightarrow> dpu_hw_ctl \<Rightarrow> dpu_hw_ctl"
  update_pending_flush_wb :: "nat \<Rightarrow> dpu_hw_ctl \<Rightarrow> dpu_hw_ctl"
  update_pending_flush_merge_3d :: "(nat \<Rightarrow> dpu_hw_ctl \<Rightarrow> dpu_hw_ctl) option"
  trigger_flush :: "dpu_hw_ctl \<Rightarrow> dpu_hw_ctl"
  get_flush_register :: "dpu_hw_ctl \<Rightarrow> u32"
  setup_intf_cfg :: "dpu_hw_intf_cfg \<Rightarrow> dpu_hw_ctl \<Rightarrow> dpu_hw_ctl"
  reset_intf_cfg :: "(dpu_hw_intf_cfg \<Rightarrow> dpu_hw_ctl \<Rightarrow> dpu_hw_ctl) option"
  reset :: "(nat \<Rightarrow> u32) \<Rightarrow> (nat \<Rightarrow> int) \<Rightarrow> int \<Rightarrow> dpu_hw_ctl \<Rightarrow> int option \<times> dpu_hw_ctl"
  wait_reset_status :: "(nat \<Rightarrow> u32) \<Rightarrow> (nat \<Rightarrow> int) \<Rightarrow> int \<Rightarrow> int option"
  get_bitmask_sspp :: "nat \<Rightarrow> u32"
  get_bitmask_mixer :: "nat \<Rightarrow> u32"
  get_bitmask_dspp :: "nat \<Rightarrow> u32"
  clear_all_blendstages :: "dpu_hw_ctl \<Rightarrow> dpu_hw_ctl"
  ctl_setup_blendstage :: "nat \<Rightarrow> dpu_hw_stage_cfg option \<Rightarrow> dpu_hw_ctl \<Rightarrow> dpu_hw_ctl"
  set_active_pipes :: "((nat \<Rightarrow> bool) option \<Rightarrow> dpu_hw_ctl \<Rightarrow> dpu_hw_ctl) option"

definition setup_ctl_ops :: "bool \<Rightarrow> bool \<Rightarrow> dpu_hw_ctl_ops" where
  "setup_ctl_ops active_cfg fetch_active =
     \<lparr>trigger_start = dpu_hw_ctl_trigger_start, is_started = dpu_hw_ctl_is_started, trigger_pending = dpu_hw_ctl_trigger_pending,
      clear_pending_flush = dpu_hw_ctl_clear_pending_flush, get_pending_flush = dpu_hw_ctl_get_pending_flush,
      update_pending_flush = dpu_hw_ctl_update_pending_flush,
      update_pending_flush_intf = (if active_cfg then dpu_hw_ctl_update_pending_flush_intf_v1 else dpu_hw_ctl_update_pending_flush_intf),
      update_pending_flush_wb = (if active_cfg then dpu_hw_ctl_update_pending_flush_wb_v1 else dpu_hw_ctl_update_pending_flush_wb),
      update_pending_flush_merge_3d = (if active_cfg then Some dpu_hw_ctl_update_pending_flush_merge_3d_v1 else None),
      trigger_flush = (if active_cfg then dpu_hw_ctl_trigger_flush_v1 else dpu_hw_ctl_trigger_flush),
      get_flush_register = dpu_hw_ctl_get_flush_register,
      setup_intf_cfg = (if active_cfg then dpu_hw_ctl_intf_cfg_v1 else dpu_hw_ctl_intf_cfg),
      reset_intf_cfg = (if active_cfg then Some dpu_hw_ctl_reset_intf_cfg_v1 else None),
      reset = dpu_hw_ctl_reset_control, wait_reset_status = dpu_hw_ctl_wait_reset_status,
      get_bitmask_sspp = dpu_hw_ctl_get_bitmask_sspp, get_bitmask_mixer = dpu_hw_ctl_get_bitmask_mixer,
      get_bitmask_dspp = dpu_hw_ctl_get_bitmask_dspp, clear_all_blendstages = dpu_hw_ctl_clear_all_blendstages,
      ctl_setup_blendstage = dpu_hw_ctl_setup_blendstage,
      set_active_pipes = (if fetch_active then Some dpu_hw_ctl_set_fetch_pipe_active else None)\<rparr>"

end
