(* ===== verification/DPU_CTL_Correct.thy ===== *)
theory DPU_CTL_Correct
  imports DPU_CTL
begin

text \<open>
  Correctness of the DPU control path: the words written for a mixer say for every pipe and rectangle the stage
  it was given, flushes reach the registers with all that was requested, and a reset undoes a configuration.
\<close>

section \<open>Fields that are or-ed together\<close>

definition or_stages :: "('p \<Rightarrow> nat \<Rightarrow> u32) \<Rightarrow> (nat \<Rightarrow> 'p list) \<Rightarrow> nat list \<Rightarrow> u32 \<Rightarrow> u32" where
  "or_stages msk st is c = fold (\<lambda>i c. fold (\<lambda>p c. c OR msk p i) (st i) c) is c"

lemma and_or_u32: "((a :: u32) OR b) AND f = (a AND f) OR (b AND f)"
  by (simp add: bit.conj_disj_distrib2)

lemma or_stage_field:
  fixes c f :: u32
  assumes "\<And>q i. q \<noteq> p \<Longrightarrow> msk q i AND f = 0"
  shows "fold (\<lambda>p c. c OR msk p i) ps c AND f = (c AND f) OR (if p \<in> set ps then msk p i AND f else 0)"
proof (induction ps arbitrary: c)
  case (Cons q ps)
  have c: "(c OR msk q i) AND f = (c AND f) OR (if q = p then msk p i AND f else 0)"
    using assms [of q i] by (simp add: and_or_u32 [of c "msk q i" f])
  have "fold (\<lambda>p c. c OR msk p i) (q # ps) c AND f
      = ((c OR msk q i) AND f) OR (if p \<in> set ps then msk p i AND f else 0)"
    by (simp only: fold.simps o_apply Cons.IH)
  then show ?case unfolding c by (simp add: or.assoc)
qed simp

lemma or_stages_field:
  fixes c f :: u32
  assumes "\<And>q i. q \<noteq> p \<Longrightarrow> msk q i AND f = 0"
    and "\<forall>i \<in> set is. \<forall>j \<in> set is. p \<in> set (st i) \<and> p \<in> set (st j) \<longrightarrow> i = j"
  shows "or_stages msk st is c AND f = (c AND f) OR (case find (\<lambda>i. p \<in> set (st i)) is of None \<Rightarrow> 0 | Some i \<Rightarrow> msk p i AND f)"
  using assms(2)
proof (induction "is" arbitrary: c)
  case Nil
  then show ?case by (simp add: or_stages_def)
next
  case (Cons i "is")
  let ?c = "fold (\<lambda>p c. c OR msk p i) (st i) c"
  have IH: "or_stages msk st is ?c AND f = (?c AND f) OR (case find (\<lambda>i. p \<in> set (st i)) is of None \<Rightarrow> 0 | Some i \<Rightarrow> msk p i AND f)"
    by (rule Cons.IH) (use Cons.prems in auto)
  have c: "?c AND f = (c AND f) OR (if p \<in> set (st i) then msk p i AND f else 0)" by (rule or_stage_field [OF assms(1)])
  have same: "j = i" if "find (\<lambda>i. p \<in> set (st i)) is = Some j" "p \<in> set (st i)" for j
    using that Cons.prems by (auto dest!: find_SomeD)
  have "or_stages msk st (i # is) c = or_stages msk st is ?c" by (simp add: or_stages_def)
  with IH c same show ?case by (auto simp: or.assoc split: option.splits)
qed

section \<open>The words of a mixer\<close>

definition word :: "nat \<Rightarrow> mixercfg \<Rightarrow> u32" where
  "word k c = (if k = 0 then cfg0 c else if k = 1 then cfg_ext c else if k = 2 then cfg_ext2 c else cfg_ext3 c)"

definition zero_cfg :: mixercfg where
  "zero_cfg = \<lparr>cfg0 = 0, cfg_ext = 0, cfg_ext2 = 0, cfg_ext3 = 0\<rparr>"

text \<open>A source of a mixer: a pipe, or the second rectangle of a pipe that can fetch two.\<close>

definition source :: "nat \<Rightarrow> nat \<Rightarrow> nat \<times> bool" where
  "source p r = (p, r = DPU_SSPP_RECT_1 \<and> p \<in> {1, 2, 3, 4, 9, 10, 11, 12})"

text \<open>The sources, and the place of each in the four words: low bits in the layer, the fourth bit in the extension.\<close>

definition all_sources :: "(nat \<times> bool) list" where
  "all_sources = [(1, False), (2, False), (3, False), (4, False), (5, False), (6, False), (7, False), (8, False), (9, False),
     (10, False), (11, False), (12, False), (13, False), (14, False), (1, True), (2, True), (3, True), (4, True), (9, True),
     (10, True), (11, True), (12, True)]"

definition layer_shift :: "nat \<Rightarrow> nat" where
  "layer_shift p = [0, 3, 6, 26, 9, 12, 15, 29, 18, 21] ! (p - 1)"

definition source_value :: "nat \<Rightarrow> nat \<times> bool \<Rightarrow> u32 \<Rightarrow> u32 \<Rightarrow> u32 \<Rightarrow> u32" where
  "source_value k = (\<lambda>(p, b) m e n.
     if b then (if p \<le> 4 then (if k = 0 \<or> k = 1 \<or> k = 2 then 0 else push_bit (4 * (p - 1)) n)
                else if k = 2 then push_bit (4 * (p - 7)) n else 0)
     else if p = 11 then (if k = 2 then n else 0) else if p = 12 then (if k = 2 then push_bit 4 n else 0)
     else if p = 13 then (if k = 1 then push_bit 20 n else 0) else if p = 14 then (if k = 1 then push_bit 26 n else 0)
     else if k = 0 then push_bit (layer_shift p) m else if k = 1 then push_bit (2 * (p - 1)) e else 0)"

definition source_field :: "nat \<Rightarrow> nat \<times> bool \<Rightarrow> u32" where
  "source_field k x = source_value k x 7 1 15"

definition stage_code :: "mixercfg \<Rightarrow> nat \<times> bool \<Rightarrow> u32" where
  "stage_code c = (\<lambda>(p, b).
     if b then (if p \<le> 4 then drop_bit (4 * (p - 1)) (cfg_ext3 c) AND 15 else drop_bit (4 * (p - 7)) (cfg_ext2 c) AND 15)
     else if p = 11 then cfg_ext2 c AND 15 else if p = 12 then drop_bit 4 (cfg_ext2 c) AND 15
     else if p = 13 then drop_bit 20 (cfg_ext c) AND 15 else if p = 14 then drop_bit 26 (cfg_ext c) AND 15
     else (drop_bit (layer_shift p) (cfg0 c) AND 7) OR push_bit 3 (drop_bit (2 * (p - 1)) (cfg_ext c) AND 1))"

text \<open>What blending the source at stage \<open>i\<close> adds to the word \<open>k\<close>.\<close>

definition source_bits :: "nat \<Rightarrow> nat \<times> bool \<Rightarrow> nat \<Rightarrow> u32" where
  "source_bits k x i = (if x \<in> set all_sources
     then source_value k x (of_nat (i + 1) AND 7) ((if i \<ge> 7 then 1 else 0) AND 1) (of_nat (i + 1) AND 15) else 0)"

lemma or_low: "((w :: u32) AND 7) OR (w AND 15) = w AND 15"
proof -
  have "(w AND 7) OR (w AND 15) = w AND (7 OR 15)" by (rule bit.conj_disj_distrib [symmetric])
  then show ?thesis by simp
qed

lemma blend_pipe_or:
  "word k (snd (blend_pipe i p r (m, c))) = word k c OR word k (snd (blend_pipe i p r (m, zero_cfg)))"
  by (simp add: blend_pipe_def word_def zero_cfg_def Let_def)

definition pipe_bits :: "nat \<Rightarrow> nat \<times> bool \<Rightarrow> nat \<Rightarrow> u32" where
  "pipe_bits k x i = word k (snd (blend_pipe i (fst x) (if snd x then DPU_SSPP_RECT_1 else 0) (of_nat (i + 1) AND 7, zero_cfg)))"

lemma pipe_bits_value:
  assumes "x \<in> set all_sources"
  shows "pipe_bits k x i = source_value k x (of_nat (i + 1) AND 7) (if i \<ge> 7 then 1 else 0) (of_nat (i + 1) AND 15)"
  using assms unfolding all_sources_def list.set
  by (elim insertE emptyE; hypsubst; simp only: pipe_bits_def source_value_def word_def blend_pipe_def zero_cfg_def
      DPU_SSPP_RECT_1_def layer_shift_def or_low Let_def fst_conv snd_conv split; simp)

lemma sspp_cases:
  assumes "p \<in> {1..14 :: nat}"
  obtains "p = 1" | "p = 2" | "p = 3" | "p = 4" | "p = 5" | "p = 6" | "p = 7" | "p = 8" | "p = 9" | "p = 10" | "p = 11" | "p = 12"
    | "p = 13" | "p = 14"
proof -
  have "p = 1 \<or> p = 2 \<or> p = 3 \<or> p = 4 \<or> p = 5 \<or> p = 6 \<or> p = 7 \<or> p = 8 \<or> p = 9 \<or> p = 10 \<or> p = 11 \<or> p = 12 \<or> p = 13 \<or> p = 14"
    using assms by (simp, arith)
  then show thesis using that by blast
qed

lemma source_in: "p \<in> {1..14} \<Longrightarrow> source p r \<in> set all_sources"
  by (elim sspp_cases; hypsubst; simp add: source_def all_sources_def)

lemma source_pipe: "x \<in> set all_sources \<Longrightarrow> fst x \<in> {1..14}"
  unfolding all_sources_def list.set by (elim insertE emptyE; simp)

lemma blend_pipe_source:
  "word k (snd (blend_pipe i p r (of_nat (i + 1) AND 7, zero_cfg))) = source_bits k (source p r) i"
proof (cases "p \<in> {1..14}")
  case True
  have "word k (snd (blend_pipe i p r (of_nat (i + 1) AND 7, zero_cfg))) = pipe_bits k (source p r) i"
    by (simp add: blend_pipe_def pipe_bits_def source_def word_def Let_def DPU_SSPP_RECT_1_def zero_cfg_def)
  then show ?thesis using source_in [OF True] by (simp add: pipe_bits_value source_bits_def del: of_nat_Suc)
next
  case False
  then have "source p r \<notin> set all_sources" using source_pipe [of "source p r"] by (auto simp: source_def)
  moreover have "word k (snd (blend_pipe i p r (m, zero_cfg))) = 0" for m
  proof -
    have "p \<noteq> 1" "p \<noteq> 2" "p \<noteq> 3" "p \<noteq> 4" "p \<noteq> 5" "p \<noteq> 6" "p \<noteq> 7" "p \<noteq> 8" "p \<noteq> 9" "p \<noteq> 10" "p \<noteq> 11" "p \<noteq> 12"
      "p \<noteq> 13" "p \<noteq> 14"
      using False by auto
    then show ?thesis by (simp add: blend_pipe_def word_def zero_cfg_def Let_def)
  qed
  ultimately show ?thesis by (simp add: source_bits_def)
qed

lemma blend_pipe_mix:
  "\<not> (p \<in> {11, 12} \<and> r \<noteq> DPU_SSPP_RECT_1) \<or> i < 7 \<Longrightarrow> fst (blend_pipe i p r (of_nat (i + 1) AND 7, c)) = of_nat (i + 1) AND 7"
proof -
  have "of_nat (i + 1) AND (7 :: u32) OR of_nat (i + 1) AND 0xF = of_nat (i + 1) AND 7" if "i < 7"
  proof -
    have "i \<in> set [0..<7]" using that by simp
    moreover have "\<forall>i \<in> set [0..<7]. of_nat (i + 1) AND (7 :: u32) OR of_nat (i + 1) AND 0xF = of_nat (i + 1) AND 7" by code_simp
    ultimately show ?thesis by blast
  qed
  then show "\<not> (p \<in> {11, 12} \<and> r \<noteq> DPU_SSPP_RECT_1) \<or> i < 7 \<Longrightarrow> fst (blend_pipe i p r (of_nat (i + 1) AND 7, c)) = of_nat (i + 1) AND 7"
    by (auto simp: blend_pipe_def Let_def)
qed

text \<open>The left pipe of a late stage must not be one of the two that change the low bits for the right one.\<close>

definition no_spill :: "nat \<Rightarrow> dpu_hw_stage_cfg \<Rightarrow> nat \<Rightarrow> bool" where
  "no_spill ps s i = (ps \<le> 1 \<or> i < 7 \<or> \<not> (stage s i 0 \<in> {11, 12} \<and> multirect_index s i 0 \<noteq> DPU_SSPP_RECT_1))"

definition sources :: "nat \<Rightarrow> dpu_hw_stage_cfg \<Rightarrow> nat \<Rightarrow> (nat \<times> bool) list" where
  "sources ps s i = map (\<lambda>j. source (stage s i j) (multirect_index s i j)) [0..<ps]"

lemma blend_stage_word:
  assumes "ps = 1 \<or> ps = 2" "no_spill ps s i"
  shows "word k (blend_stage ps s i c) = fold (\<lambda>x c. c OR source_bits k x i) (sources ps s i) (word k c)"
  using assms(1)
proof
  assume "ps = 1"
  then show ?thesis
    by (simp add: blend_stage_def sources_def blend_pipe_or [of k i _ _ _ c] blend_pipe_source [simplified])
next
  assume ps: "ps = 2"
  let ?m = "of_nat (i + 1) AND 7"
  obtain m' c' where b: "blend_pipe i (stage s i 0) (multirect_index s i 0) (?m, c) = (m', c')" by fastforce
  then have "m' = ?m" using assms(2) blend_pipe_mix [of "stage s i 0" "multirect_index s i 0" i c] ps by (auto simp: no_spill_def)
  moreover have "word k c' = word k c OR source_bits k (source (stage s i 0) (multirect_index s i 0)) i"
    using blend_pipe_or [of k i "stage s i 0" "multirect_index s i 0" ?m c] b blend_pipe_source by simp
  ultimately show ?thesis
    using ps b by (simp add: blend_stage_def sources_def upt_rec blend_pipe_or [of k i _ _ _ c'] blend_pipe_source [simplified])
qed

lemma blend_stages_word:
  assumes "ps = 1 \<or> ps = 2" "\<forall>i \<in> set is. no_spill ps s i"
  shows "word k (fold (blend_stage ps s) is c) = or_stages (source_bits k) (sources ps s) is (word k c)"
  using assms(2)
  by (induction "is" arbitrary: c) (use blend_stage_word [OF assms(1)] in \<open>simp_all add: or_stages_def\<close>)

section \<open>Reading the stages back\<close>

definition map_words :: "(nat \<Rightarrow> u32 \<Rightarrow> u32) \<Rightarrow> mixercfg \<Rightarrow> mixercfg" where
  "map_words f c = \<lparr>cfg0 = f 0 (cfg0 c), cfg_ext = f 1 (cfg_ext c), cfg_ext2 = f 2 (cfg_ext2 c), cfg_ext3 = f 3 (cfg_ext3 c)\<rparr>"

lemma push_mask_field: "push_bit n ((w :: u32) AND f) AND push_bit n f = push_bit n (w AND f)"
  by (simp add: push_bit_and and.assoc)

lemma drop_field: "n + k \<le> 32 \<Longrightarrow> drop_bit n ((w :: u32) AND push_bit n (mask k)) AND mask k = drop_bit n w AND mask k"
  by (rule bit_eqI) (auto simp: bit_simps)

lemma drop_value: "n + k \<le> 32 \<Longrightarrow> drop_bit n (push_bit n (w AND mask k)) AND mask k = (w AND mask k :: u32)"
  by (rule bit_eqI) (auto simp: bit_simps)

lemma drop_field0: "((w :: u32) AND mask k) AND mask k = w AND mask k" by (simp add: and.assoc)

lemma mask_low: "(1 :: u32) = mask 1" "(7 :: u32) = mask 3" "(15 :: u32) = mask 4"
  by (simp_all add: mask_eq_exp_minus_1)

lemma stage_code_field:
  assumes "x \<in> set all_sources"
  shows "stage_code (map_words (\<lambda>k w. w AND source_field k x) c) x = stage_code c x"
  using assms unfolding all_sources_def list.set
  by (elim insertE emptyE; hypsubst; simp only: stage_code_def map_words_def source_field_def source_value_def layer_shift_def split
      mask_low mixercfg.simps; simp del: push_bit_and drop_bit_and mask_Suc_0 push_bit_numeral add: drop_field drop_field0)

lemma stage_code_value:
  assumes "x \<in> set all_sources"
  shows "stage_code \<lparr>cfg0 = source_value 0 x (m AND 7) (e AND 1) (n AND 15), cfg_ext = source_value 1 x (m AND 7) (e AND 1) (n AND 15),
      cfg_ext2 = source_value 2 x (m AND 7) (e AND 1) (n AND 15), cfg_ext3 = source_value 3 x (m AND 7) (e AND 1) (n AND 15)\<rparr> x
    = (if snd x \<or> fst x \<in> {11, 12, 13, 14} then n AND 15 else (m AND 7) OR push_bit 3 (e AND 1))"
  using assms unfolding all_sources_def list.set
  by (elim insertE emptyE; hypsubst; simp only: stage_code_def source_value_def layer_shift_def split mask_low
      mixercfg.simps fst_conv snd_conv; simp del: push_bit_and drop_bit_and mask_Suc_0 push_bit_numeral add: drop_value drop_field0)

lemma fields_disjoint:
  assumes "x \<in> set all_sources" "y \<in> set all_sources" "x \<noteq> y"
  shows "source_field k y AND source_field k x = 0"
proof -
  have "list_all (\<lambda>x. list_all (\<lambda>y. x = y \<or> source_field k y AND source_field k x = 0) all_sources) all_sources"
    by (simp add: all_sources_def source_field_def source_value_def layer_shift_def)
  then show ?thesis using assms by (auto simp: list_all_iff)
qed
lemma source_value_field:
  assumes "x \<in> set all_sources"
  shows "source_value k x (m AND 7) (e AND 1) (n AND 15) AND source_field k x = source_value k x (m AND 7) (e AND 1) (n AND 15)"
  using assms unfolding all_sources_def list.set
  by (elim insertE emptyE; hypsubst; simp only: source_field_def source_value_def layer_shift_def split if_True if_False
      push_mask_field; simp add: and.assoc push_mask_field)

lemma source_bits_field:
  assumes "x \<in> set all_sources" "y \<noteq> x"
  shows "source_bits k y i AND source_field k x = 0"
proof (cases "y \<in> set all_sources")
  case True
  define v where "v = source_bits k y i"
  have "v AND source_field k y = v" unfolding v_def source_bits_def if_P [OF True] by (rule source_value_field [OF True])
  then have "v AND source_field k x = (v AND source_field k y) AND source_field k x" by simp
  then show ?thesis using fields_disjoint [OF assms(1) True] assms(2) by (simp add: v_def and.assoc)
qed (simp add: source_bits_def)

lemma border_field:
  assumes "x \<in> set all_sources"
  shows "CTL_MIXER_BORDER_OUT AND source_field 0 x = 0"
  using assms unfolding all_sources_def list.set
  by (elim insertE emptyE; simp add: source_field_def source_value_def layer_shift_def CTL_MIXER_BORDER_OUT_def)

text \<open>The stage of a source, when there is only one.\<close>

definition stage_of :: "nat \<Rightarrow> dpu_hw_stage_cfg \<Rightarrow> nat \<Rightarrow> nat \<times> bool \<Rightarrow> nat option" where
  "stage_of ps s n x = find (\<lambda>i. x \<in> set (sources ps s i)) [0..<n + 1]"

definition mixer_words :: "nat \<Rightarrow> dpu_hw_ctl \<Rightarrow> mixercfg" where
  "mixer_words lm ctx = \<lparr>cfg0 = DPU_REG_READ ctx (CTL_LAYER lm), cfg_ext = DPU_REG_READ ctx (CTL_LAYER_EXT lm),
     cfg_ext2 = DPU_REG_READ ctx (CTL_LAYER_EXT2 lm), cfg_ext3 = DPU_REG_READ ctx (CTL_LAYER_EXT3 lm)\<rparr>"

lemma mixer_words_write:
  assumes "lm \<in> {1..6}"
  shows "mixer_words lm (DPU_REG_WRITE (CTL_LAYER_EXT3 lm) (cfg_ext3 c) (DPU_REG_WRITE (CTL_LAYER_EXT2 lm) (cfg_ext2 c)
      (DPU_REG_WRITE (CTL_LAYER_EXT lm) (cfg_ext c) (DPU_REG_WRITE (CTL_LAYER lm) (cfg0 c) ctx)))) = c"
proof -
  have "CTL_LAYER lm < 0x40" "0x40 \<le> CTL_LAYER_EXT lm \<and> CTL_LAYER_EXT lm < 0x70"
    "0x70 \<le> CTL_LAYER_EXT2 lm \<and> CTL_LAYER_EXT2 lm < 0xA0" "0xA0 \<le> CTL_LAYER_EXT3 lm"
    using assms by (auto simp: CTL_LAYER_def CTL_LAYER_EXT_def CTL_LAYER_EXT2_def CTL_LAYER_EXT3_def)
  then show ?thesis by (simp add: mixer_words_def DPU_REG_WRITE_def DPU_REG_READ_def)
qed

lemma word_field_blend:
  assumes "ps = 1 \<or> ps = 2" "\<forall>i \<le> n. no_spill ps s i" "x \<in> set all_sources"
    and "\<forall>i \<le> n. \<forall>j \<le> n. x \<in> set (sources ps s i) \<and> x \<in> set (sources ps s j) \<longrightarrow> i = j"
    and c: "\<And>k. word k c AND source_field k x = 0"
  shows "word k (fold (blend_stage ps s) [0..<n + 1] c) AND source_field k x
    = (case stage_of ps s n x of None \<Rightarrow> 0 | Some i \<Rightarrow> source_bits k x i)"
proof -
  have f: "source_bits k x i AND source_field k x = source_bits k x i" for i
    using source_value_field [OF assms(3)] assms(3) by (simp only: source_bits_def if_True)
  have "word k (fold (blend_stage ps s) [0..<n + 1] c) = or_stages (source_bits k) (sources ps s) [0..<n + 1] (word k c)"
    by (rule blend_stages_word [OF assms(1)]) (use assms(2) in auto)
  moreover have "or_stages (source_bits k) (sources ps s) [0..<n + 1] (word k c) AND source_field k x
      = (word k c AND source_field k x) OR (case stage_of ps s n x of None \<Rightarrow> 0 | Some i \<Rightarrow> source_bits k x i AND source_field k x)"
    unfolding stage_of_def
    by (rule or_stages_field) (use source_bits_field [OF assms(3)] assms(4) in auto)
  ultimately show ?thesis by (simp add: c f split: option.split)
qed

lemma stage_number:
  assumes "i \<le> 13"
  shows "(of_nat (i + 1) AND 7) OR push_bit 3 ((if i \<ge> 7 then 1 else 0) AND 1) = (of_nat (i + 1) :: u32)"
    and "of_nat (i + 1) AND 15 = (of_nat (i + 1) :: u32)"
proof -
  have "i = 0 \<or> i = 1 \<or> i = 2 \<or> i = 3 \<or> i = 4 \<or> i = 5 \<or> i = 6 \<or> i = 7 \<or> i = 8 \<or> i = 9 \<or> i = 10 \<or> i = 11 \<or> i = 12 \<or> i = 13"
    using assms by arith
  then show "(of_nat (i + 1) AND 7) OR push_bit 3 ((if i \<ge> 7 then 1 else 0) AND 1) = (of_nat (i + 1) :: u32)"
    and "of_nat (i + 1) AND 15 = (of_nat (i + 1) :: u32)"
    by (elim disjE; simp)+
qed

lemma stage_code_blend:
  assumes "ps = 1 \<or> ps = 2" "n \<le> 13" "\<forall>i \<le> n. no_spill ps s i" "x \<in> set all_sources"
    and "\<forall>i \<le> n. \<forall>j \<le> n. x \<in> set (sources ps s i) \<and> x \<in> set (sources ps s j) \<longrightarrow> i = j"
    and c: "\<And>k. word k c AND source_field k x = 0"
  shows "stage_code (fold (blend_stage ps s) [0..<n + 1] c) x = (case stage_of ps s n x of None \<Rightarrow> 0 | Some i \<Rightarrow> of_nat (i + 1))"
proof -
  let ?c = "fold (blend_stage ps s) [0..<n + 1] c"
  note w = word_field_blend [OF assms(1,3,4,5) c]
  have m: "map_words (\<lambda>k w. w AND source_field k x) ?c = (let g = (\<lambda>k. case stage_of ps s n x of None \<Rightarrow> 0 | Some i \<Rightarrow> source_bits k x i)
      in \<lparr>cfg0 = g 0, cfg_ext = g 1, cfg_ext2 = g 2, cfg_ext3 = g 3\<rparr>)"
    using w [of 0] w [of 1] w [of 2] w [of 3] by (simp add: map_words_def word_def Let_def del: One_nat_def)
  show ?thesis
  proof (cases "stage_of ps s n x")
    case None
    have "stage_code \<lparr>cfg0 = 0, cfg_ext = 0, cfg_ext2 = 0, cfg_ext3 = 0\<rparr> x = 0" by (cases x) (simp add: stage_code_def)
    then show ?thesis using m None stage_code_field [OF assms(4), of ?c] by (simp add: Let_def)
  next
    case (Some i)
    then have "i \<le> 13" using assms(2) unfolding stage_of_def by (fastforce dest: find_SomeD simp del: upt_Suc)
    note st = stage_number [OF this]
    from m Some stage_code_field [OF assms(4), of ?c] assms(4)
    have "stage_code ?c x = (if snd x \<or> fst x \<in> {11, 12, 13, 14} then of_nat (i + 1) AND 15
        else (of_nat (i + 1) AND 7) OR push_bit 3 ((if i \<ge> 7 then 1 else 0) AND 1))"
      by (simp only: Let_def option.case source_bits_def if_True stage_code_value)
    then show ?thesis unfolding Some option.case st(1) st(2) by simp
  qed
qed

text \<open>
  C38: what is written for a mixer says the stage of every source.  Each rectangle of a pipe is at one stage at
  most; with two pipes per stage the left one of a stage above the seventh is not the first rectangle of DMA2 or DMA3.
\<close>

theorem dpu_hw_ctl_setup_blendstage_decodes:
  assumes "mixer_stages (mixer_hw_caps ctx) lm = int n" "n \<le> 13" "lm \<in> {1..6}"
    and "ps = (if sourcesplit ctx then 2 else 1)" "\<forall>i \<le> n. no_spill ps s i" "x \<in> set all_sources"
    and "\<forall>i \<le> n. \<forall>j \<le> n. x \<in> set (sources ps s i) \<and> x \<in> set (sources ps s j) \<longrightarrow> i = j"
  shows "stage_code (mixer_words lm (dpu_hw_ctl_setup_blendstage lm (Some s) ctx)) x
    = (case stage_of ps s n x of None \<Rightarrow> 0 | Some i \<Rightarrow> of_nat (i + 1))"
proof -
  let ?c = "\<lparr>cfg0 = CTL_MIXER_BORDER_OUT, cfg_ext = 0, cfg_ext2 = 0, cfg_ext3 = 0\<rparr>"
  have ps: "ps = 1 \<or> ps = 2" using assms(4) by simp
  have c: "word k ?c AND source_field k x = 0" for k
    using border_field [OF assms(6)] by (simp add: word_def)
  have "mixer_words lm (dpu_hw_ctl_setup_blendstage lm (Some s) ctx) = fold (blend_stage ps s) [0..<n + 1] ?c"
    using assms(1,4) mixer_words_write [OF assms(3)]
    by (simp only: dpu_hw_ctl_setup_blendstage_def Let_def option.case nat_int of_nat_less_0_iff if_False)
  then show ?thesis
    using stage_code_blend [OF ps assms(2,5,6,7) c] by simp
qed

text \<open>Two stages of a mixer with three: VIG0 and the first rectangle of DMA0 at the bottom, VIG1 twice above.\<close>

definition sample_ctl :: dpu_hw_ctl where
  "sample_ctl = \<lparr>vm_cfg = False, mixer_hw_caps = [(1, 2)], sourcesplit = True, pending_flush_mask = 0, pending_intf_flush_mask = 0,
     pending_wb_flush_mask = 0, pending_merge_3d_flush_mask = 0, ctl_regs = (\<lambda>_. 0), ctl_writes = []\<rparr>"

definition sample_stages :: dpu_hw_stage_cfg where
  "sample_stages = \<lparr>stage = (\<lambda>i j. if i = 0 then (if j = 0 then 1 else 9) else if i = 1 then 2 else 0),
     multirect_index = (\<lambda>i j. if i = 1 then j + 1 else 0)\<rparr>"

theorem dpu_hw_ctl_setup_blendstage_decodes_witness:
  "stage_code (mixer_words 1 (dpu_hw_ctl_setup_blendstage 1 (Some sample_stages) sample_ctl)) (2, True) = 2"
proof -
  have at: "x \<in> set (sources 2 sample_stages i) \<longleftrightarrow> i = 0 \<and> x \<in> {(1, False), (9, False)} \<or> i = 1 \<and> x \<in> {(2, False), (2, True)}
      \<or> 1 < i \<and> x = (0, False)" for x i
    by (auto simp: sources_def source_def sample_stages_def DPU_SSPP_RECT_1_def upt_rec split: if_splits)
  have "stage_of 2 sample_stages 2 (2, True) = Some 1" by (simp add: stage_of_def at upt_rec)
  then show ?thesis
    using dpu_hw_ctl_setup_blendstage_decodes [of sample_ctl 1 2 2 sample_stages "(2, True)"]
    by (auto simp: sample_ctl_def mixer_stages_def all_sources_def no_spill_def at)
qed

text \<open>
  The left rectangle of DMA2 at stage 7 adds the fourth bit of its number to the low bits, and VIG0 to its right is
  written into the field of VIG1.
\<close>

theorem dpu_hw_ctl_blendstage_spills:
  "let ctx = dpu_hw_ctl_setup_blendstage 1 (Some \<lparr>stage = (\<lambda>i j. if i = 7 then (if j = 0 then 11 else 1) else 0),
        multirect_index = (\<lambda>i j. 0)\<rparr>) (sample_ctl\<lparr>mixer_hw_caps := [(1, 8)]\<rparr>)
   in stage_code (mixer_words 1 ctx) (11, False) = 8 \<and> stage_code (mixer_words 1 ctx) (1, False) = 8
      \<and> stage_code (mixer_words 1 ctx) (2, False) = 1"
  by code_simp

section \<open>Flushes\<close>

datatype flush_req = Bits u32 | Intf nat | Wb nat | Merge nat

fun request_flush :: "flush_req \<Rightarrow> dpu_hw_ctl \<Rightarrow> dpu_hw_ctl" where
  "request_flush (Bits b) = dpu_hw_ctl_update_pending_flush b"
| "request_flush (Intf i) = dpu_hw_ctl_update_pending_flush_intf_v1 i"
| "request_flush (Wb w) = dpu_hw_ctl_update_pending_flush_wb_v1 w"
| "request_flush (Merge m) = dpu_hw_ctl_update_pending_flush_merge_3d_v1 m"

fun req_mask :: "flush_req \<Rightarrow> u32" where
  "req_mask (Bits b) = b"
| "req_mask (Intf i) = BIT32 INTF_IDX"
| "req_mask (Wb w) = BIT32 WB_IDX"
| "req_mask (Merge m) = BIT32 MERGE_3D_IDX"

text \<open>The register with a bit for each block of the request's kind, and the bit of the request.\<close>

fun req_block :: "flush_req \<Rightarrow> (nat \<times> u32) option" where
  "req_block (Bits b) = None"
| "req_block (Intf i) = Some (CTL_INTF_FLUSH, BIT32 (i - 1))"
| "req_block (Wb w) = Some (CTL_WB_FLUSH, BIT32 (w - 1))"
| "req_block (Merge m) = Some (CTL_MERGE_3D_FLUSH, BIT32 (m - 1))"

definition req_bits :: "nat \<Rightarrow> flush_req list \<Rightarrow> u32" where
  "req_bits reg rs = foldr (\<lambda>r v. (case req_block r of Some (reg', b) \<Rightarrow> if reg' = reg then b else 0 | None \<Rightarrow> 0) OR v) rs 0"

definition req_masks :: "flush_req list \<Rightarrow> u32" where
  "req_masks rs = foldr (\<lambda>r v. req_mask r OR v) rs 0"

lemmas flush_regs = CTL_INTF_FLUSH_def CTL_WB_FLUSH_def CTL_MERGE_3D_FLUSH_def CTL_FLUSH_def

lemma request_flushes:
  "fold request_flush rs ctx = ctx\<lparr>pending_flush_mask := pending_flush_mask ctx OR req_masks rs,
     pending_intf_flush_mask := pending_intf_flush_mask ctx OR req_bits CTL_INTF_FLUSH rs,
     pending_wb_flush_mask := pending_wb_flush_mask ctx OR req_bits CTL_WB_FLUSH rs,
     pending_merge_3d_flush_mask := pending_merge_3d_flush_mask ctx OR req_bits CTL_MERGE_3D_FLUSH rs\<rparr>"
proof (induction rs arbitrary: ctx)
  case Nil
  then show ?case by (simp add: req_bits_def req_masks_def)
next
  case (Cons r rs)
  have b: "req_bits reg (r # rs) = (case req_block r of Some (reg', b) \<Rightarrow> if reg' = reg then b else 0 | None \<Rightarrow> 0) OR req_bits reg rs"
    "req_masks (r # rs) = req_mask r OR req_masks rs" for reg r
    by (simp_all add: req_bits_def req_masks_def)
  show ?case
    by (cases r) (simp_all add: Cons.IH b dpu_hw_ctl_update_pending_flush_def dpu_hw_ctl_update_pending_flush_intf_v1_def
        dpu_hw_ctl_update_pending_flush_wb_v1_def dpu_hw_ctl_update_pending_flush_merge_3d_v1_def or.assoc flush_regs)
qed

lemma u32_sub_or: "(a :: u32) AND b = a \<Longrightarrow> a AND (b OR c) = a" "(a :: u32) AND c = a \<Longrightarrow> a AND (b OR c) = a"
  by (auto simp: bit_eq_iff bit_simps)

lemma req_in_bits: "r \<in> set rs \<Longrightarrow> req_block r = Some (reg, b) \<Longrightarrow> b AND req_bits reg rs = b"
  by (induction rs) (auto simp: req_bits_def intro: u32_sub_or)

lemma req_in_masks: "r \<in> set rs \<Longrightarrow> req_mask r AND req_masks rs = req_mask r"
  by (induction rs) (auto simp: req_masks_def intro: u32_sub_or)

lemma trigger_flush_writes:
  "ctl_writes (dpu_hw_ctl_trigger_flush_v1 ctx) = ctl_writes ctx
     @ (if pending_flush_mask ctx AND BIT32 MERGE_3D_IDX \<noteq> 0 then [(CTL_MERGE_3D_FLUSH, pending_merge_3d_flush_mask ctx)] else [])
     @ (if pending_flush_mask ctx AND BIT32 INTF_IDX \<noteq> 0 then [(CTL_INTF_FLUSH, pending_intf_flush_mask ctx)] else [])
     @ (if pending_flush_mask ctx AND BIT32 WB_IDX \<noteq> 0 then [(CTL_WB_FLUSH, pending_wb_flush_mask ctx)] else [])
     @ [(CTL_FLUSH, pending_flush_mask ctx)]"
  by (simp add: dpu_hw_ctl_trigger_flush_v1_def DPU_REG_WRITE_def Let_def)

lemma flag_nonzero: "BIT32 MERGE_3D_IDX \<noteq> 0" "BIT32 INTF_IDX \<noteq> 0" "BIT32 WB_IDX \<noteq> 0"
  by (simp_all add: BIT32_def MERGE_3D_IDX_def INTF_IDX_def WB_IDX_def)

text \<open>
  C39: a flush reaches every block for which it was requested.  The last write is to the flush register, with the
  bits of each request; before it is a write to the register of the request's kind of block, with its bit.
\<close>

theorem dpu_hw_ctl_flush_complete:
  assumes "r \<in> set rs"
  shows "\<exists>ws v. ctl_writes (dpu_hw_ctl_trigger_flush_v1 (fold request_flush rs ctx)) = ctl_writes ctx @ ws @ [(CTL_FLUSH, v)]
    \<and> req_mask r AND v = req_mask r
    \<and> (case req_block r of None \<Rightarrow> True | Some (reg, b) \<Rightarrow> \<exists>w. (reg, w) \<in> set ws \<and> b AND w = b)"
proof -
  let ?v = "pending_flush_mask ctx OR req_masks rs"
  have m: "req_mask r AND ?v = req_mask r" by (rule u32_sub_or(2) [OF req_in_masks [OF assms]])
  have b: "b AND (p OR req_bits reg rs) = b" if "req_block r = Some (reg, b)" for reg b p
    by (rule u32_sub_or(2) [OF req_in_bits [OF assms that]])
  have "?v AND req_mask r \<noteq> 0" if "req_block r \<noteq> None"
    using m that flag_nonzero by (cases r) (simp_all add: and.commute)
  then show ?thesis
    using m b by (cases r) (auto simp: trigger_flush_writes request_flushes)
qed

theorem dpu_hw_ctl_flush_complete_witness:
  "\<exists>ws v. ctl_writes (dpu_hw_ctl_trigger_flush_v1 (fold request_flush [Bits (dpu_hw_ctl_get_bitmask_sspp 1), Intf 2] sample_ctl))
      = ctl_writes sample_ctl @ ws @ [(CTL_FLUSH, v)] \<and> BIT32 INTF_IDX AND v = BIT32 INTF_IDX
      \<and> (\<exists>w. (CTL_INTF_FLUSH, w) \<in> set ws \<and> BIT32 1 AND w = BIT32 1)"
  using dpu_hw_ctl_flush_complete [of "Intf 2" "[Bits (dpu_hw_ctl_get_bitmask_sspp 1), Intf 2]" sample_ctl] by simp

text \<open>Clearing keeps the bits of the interfaces: the next flush of one flushes those that were cleared.\<close>

theorem dpu_hw_ctl_clear_pending_flush_stale:
  "ctl_writes (dpu_hw_ctl_trigger_flush_v1 (request_flush (Intf 2) (dpu_hw_ctl_clear_pending_flush (request_flush (Intf 1) sample_ctl))))
     = [(CTL_INTF_FLUSH, 3), (CTL_FLUSH, BIT32 INTF_IDX)]"
  by code_simp

section \<open>Interfaces\<close>

text \<open>The register gets the number of the bit for a flush of DSC, not the bit: those of VIG1, VIG2 and RGB1.\<close>

theorem dpu_hw_ctl_intf_cfg_v1_dsc_flush:
  "ic_dsc cfg \<noteq> 0 \<Longrightarrow> (CTL_FLUSH, dpu_hw_ctl_get_bitmask_sspp 2 OR dpu_hw_ctl_get_bitmask_sspp 3 OR dpu_hw_ctl_get_bitmask_sspp 6)
     \<in> set (ctl_writes (dpu_hw_ctl_intf_cfg_v1 cfg ctx))"
  by (simp add: dpu_hw_ctl_intf_cfg_v1_def Let_def DPU_REG_WRITE_def dpu_hw_ctl_get_bitmask_sspp_def BIT32_def DSC_IDX_def)

text \<open>
  On hardware with active registers, a reset of a configuration clears the layers of the mixers and, where they
  were not active before, gives back the state of the interfaces, writeback and 3D merge blocks.
\<close>

lemma clear_all_blendstages_regs:
  "r \<notin> insert CTL_FETCH_PIPE_ACTIVE (\<Union>m \<in> fst ` set (mixer_hw_caps ctx). {CTL_LAYER m, CTL_LAYER_EXT m, CTL_LAYER_EXT2 m, CTL_LAYER_EXT3 m})
     \<Longrightarrow> ctl_regs (dpu_hw_ctl_clear_all_blendstages ctx) r = ctl_regs ctx r"
proof -
  have "ctl_regs (fold (\<lambda>m ctx. DPU_REG_WRITE (CTL_LAYER_EXT3 (fst m)) 0 (DPU_REG_WRITE (CTL_LAYER_EXT2 (fst m)) 0
           (DPU_REG_WRITE (CTL_LAYER_EXT (fst m)) 0 (DPU_REG_WRITE (CTL_LAYER (fst m)) 0 ctx)))) ms ctx) r = ctl_regs ctx r"
    if "r \<notin> (\<Union>m \<in> fst ` set ms. {CTL_LAYER m, CTL_LAYER_EXT m, CTL_LAYER_EXT2 m, CTL_LAYER_EXT3 m})" for ms
    using that by (induction ms arbitrary: ctx) (auto simp: DPU_REG_WRITE_def)
  then show "r \<notin> insert CTL_FETCH_PIPE_ACTIVE (\<Union>m \<in> fst ` set (mixer_hw_caps ctx). {CTL_LAYER m, CTL_LAYER_EXT m, CTL_LAYER_EXT2 m, CTL_LAYER_EXT3 m})
     \<Longrightarrow> ctl_regs (dpu_hw_ctl_clear_all_blendstages ctx) r = ctl_regs ctx r"
    by (auto simp: dpu_hw_ctl_clear_all_blendstages_def DPU_REG_WRITE_def)
qed

lemma clear_all_blendstages_layers:
  assumes "\<forall>m \<in> set (mixer_hw_caps ctx). fst m \<in> {1..6}" "lm \<in> fst ` set (mixer_hw_caps ctx)"
  shows "mixer_words lm (dpu_hw_ctl_clear_all_blendstages ctx) = zero_cfg"
proof -
  define clear where "clear = (\<lambda>(m :: nat \<times> nat) ctx. DPU_REG_WRITE (CTL_LAYER_EXT3 (fst m)) 0 (DPU_REG_WRITE (CTL_LAYER_EXT2 (fst m)) 0
           (DPU_REG_WRITE (CTL_LAYER_EXT (fst m)) 0 (DPU_REG_WRITE (CTL_LAYER (fst m)) 0 ctx))))"
  have keep: "ctl_regs ctx r = 0 \<Longrightarrow> ctl_regs (clear m ctx) r = 0" for m ctx r
    by (simp add: clear_def DPU_REG_WRITE_def)
  then have keeps: "ctl_regs ctx r = 0 \<Longrightarrow> ctl_regs (fold clear ms ctx) r = 0" for ms ctx r
    by (induction ms arbitrary: ctx) simp_all
  have zero: "ctl_regs (fold clear ms ctx) r = 0"
    if "lm \<in> fst ` set ms" "r \<in> {CTL_LAYER lm, CTL_LAYER_EXT lm, CTL_LAYER_EXT2 lm, CTL_LAYER_EXT3 lm}" for ms ctx r
    using that
  proof (induction ms arbitrary: ctx)
    case (Cons m ms)
    have "ctl_regs (clear m ctx) r = 0" if "lm = fst m" using that Cons.prems(2) by (auto simp: clear_def DPU_REG_WRITE_def)
    then show ?case using Cons keeps by (cases "lm = fst m") auto
  qed simp
  moreover have "CTL_LAYER lm \<noteq> CTL_FETCH_PIPE_ACTIVE" "CTL_LAYER_EXT lm \<noteq> CTL_FETCH_PIPE_ACTIVE"
    "CTL_LAYER_EXT2 lm \<noteq> CTL_FETCH_PIPE_ACTIVE" "CTL_LAYER_EXT3 lm \<noteq> CTL_FETCH_PIPE_ACTIVE"
    using assms by (auto simp: CTL_LAYER_def CTL_LAYER_EXT_def CTL_LAYER_EXT2_def CTL_LAYER_EXT3_def CTL_FETCH_PIPE_ACTIVE_def)
  ultimately show ?thesis
    using zero [OF assms(2)] unfolding dpu_hw_ctl_clear_all_blendstages_def clear_def [symmetric]
    by (simp add: mixer_words_def DPU_REG_WRITE_def DPU_REG_READ_def zero_cfg_def)
qed

lemma clear_all_blendstages_active:
  assumes "\<forall>m \<in> set (mixer_hw_caps ctx). fst m \<in> {1..6}" "r \<in> {CTL_INTF_ACTIVE, CTL_WB_ACTIVE, CTL_MERGE_3D_ACTIVE, CTL_DSC_ACTIVE}"
  shows "ctl_regs (dpu_hw_ctl_clear_all_blendstages ctx) r = ctl_regs ctx r"
proof (rule clear_all_blendstages_regs)
  have "0xB8 \<le> r" "r \<noteq> CTL_FETCH_PIPE_ACTIVE"
    using assms(2) by (auto simp: CTL_INTF_ACTIVE_def CTL_WB_ACTIVE_def CTL_MERGE_3D_ACTIVE_def CTL_DSC_ACTIVE_def CTL_FETCH_PIPE_ACTIVE_def)
  moreover have "CTL_LAYER m < 0xB8 \<and> CTL_LAYER_EXT m < 0xB8 \<and> CTL_LAYER_EXT2 m < 0xB8 \<and> CTL_LAYER_EXT3 m < 0xB8"
    if "m \<in> fst ` set (mixer_hw_caps ctx)" for m
    using that assms(1) by (auto simp: CTL_LAYER_def CTL_LAYER_EXT_def CTL_LAYER_EXT2_def CTL_LAYER_EXT3_def)
  ultimately show "r \<notin> insert CTL_FETCH_PIPE_ACTIVE
      (\<Union>m \<in> fst ` set (mixer_hw_caps ctx). {CTL_LAYER m, CTL_LAYER_EXT m, CTL_LAYER_EXT2 m, CTL_LAYER_EXT3 m})"
    by fastforce
qed

lemmas active_regs = CTL_INTF_ACTIVE_def CTL_WB_ACTIVE_def CTL_MERGE_3D_ACTIVE_def CTL_DSC_ACTIVE_def CTL_TOP_def CTL_FLUSH_def
  CTL_DSC_FLUSH_def

lemma intf_cfg_v1_active:
  "ctl_regs (dpu_hw_ctl_intf_cfg_v1 cfg ctx) CTL_INTF_ACTIVE
     = (if ic_intf cfg \<noteq> 0 then ctl_regs ctx CTL_INTF_ACTIVE OR BIT32 (ic_intf cfg - 1) else ctl_regs ctx CTL_INTF_ACTIVE)"
  "ctl_regs (dpu_hw_ctl_intf_cfg_v1 cfg ctx) CTL_WB_ACTIVE
     = (if ic_wb cfg \<noteq> 0 then ctl_regs ctx CTL_WB_ACTIVE OR BIT32 (ic_wb cfg - 1) else ctl_regs ctx CTL_WB_ACTIVE)"
  "ctl_regs (dpu_hw_ctl_intf_cfg_v1 cfg ctx) CTL_MERGE_3D_ACTIVE
     = (if ic_merge_3d cfg \<noteq> 0 then BIT32 (ic_merge_3d cfg - 1) else ctl_regs ctx CTL_MERGE_3D_ACTIVE)"
  "ctl_regs (dpu_hw_ctl_intf_cfg_v1 cfg ctx) CTL_DSC_ACTIVE = (if ic_dsc cfg \<noteq> 0 then ic_dsc cfg else ctl_regs ctx CTL_DSC_ACTIVE)"
  by (simp_all add: dpu_hw_ctl_intf_cfg_v1_def Let_def DPU_REG_WRITE_def DPU_REG_READ_def active_regs)

lemma reset_intf_cfg_v1_active:
  assumes "\<forall>m \<in> set (mixer_hw_caps ctx). fst m \<in> {1..6}"
  shows "ctl_regs (dpu_hw_ctl_reset_intf_cfg_v1 cfg ctx) CTL_INTF_ACTIVE
     = (if ic_intf cfg \<noteq> 0 then ctl_regs ctx CTL_INTF_ACTIVE AND NOT (BIT32 (ic_intf cfg - 1)) else ctl_regs ctx CTL_INTF_ACTIVE)"
    and "ctl_regs (dpu_hw_ctl_reset_intf_cfg_v1 cfg ctx) CTL_WB_ACTIVE
     = (if ic_wb cfg \<noteq> 0 then ctl_regs ctx CTL_WB_ACTIVE AND NOT (BIT32 (ic_wb cfg - 1)) else ctl_regs ctx CTL_WB_ACTIVE)"
    and "ctl_regs (dpu_hw_ctl_reset_intf_cfg_v1 cfg ctx) CTL_MERGE_3D_ACTIVE
     = (if ic_merge_3d cfg \<noteq> 0 then ctl_regs ctx CTL_MERGE_3D_ACTIVE AND NOT (BIT32 (ic_merge_3d cfg - 1)) else ctl_regs ctx CTL_MERGE_3D_ACTIVE)"
    and "ctl_regs (dpu_hw_ctl_reset_intf_cfg_v1 cfg ctx) CTL_DSC_ACTIVE = ctl_regs ctx CTL_DSC_ACTIVE"
proof -
  define ctx1 where "ctx1 = (if ic_merge_3d cfg \<noteq> 0
    then DPU_REG_WRITE CTL_MERGE_3D_ACTIVE (DPU_REG_READ ctx CTL_MERGE_3D_ACTIVE AND NOT (BIT32 (ic_merge_3d cfg - 1))) ctx else ctx)"
  have m: "\<forall>m \<in> set (mixer_hw_caps ctx1). fst m \<in> {1..6}" using assms by (simp add: ctx1_def DPU_REG_WRITE_def)
  define ctx2 where "ctx2 = dpu_hw_ctl_clear_all_blendstages ctx1"
  have c: "r \<in> {CTL_INTF_ACTIVE, CTL_WB_ACTIVE, CTL_MERGE_3D_ACTIVE, CTL_DSC_ACTIVE} \<Longrightarrow> ctl_regs ctx2 r = ctl_regs ctx1 r" for r
    unfolding ctx2_def by (rule clear_all_blendstages_active [OF m])
  have c1: "ctl_regs ctx1 CTL_MERGE_3D_ACTIVE = (if ic_merge_3d cfg \<noteq> 0
      then ctl_regs ctx CTL_MERGE_3D_ACTIVE AND NOT (BIT32 (ic_merge_3d cfg - 1)) else ctl_regs ctx CTL_MERGE_3D_ACTIVE)"
    "ctl_regs ctx1 CTL_INTF_ACTIVE = ctl_regs ctx CTL_INTF_ACTIVE" "ctl_regs ctx1 CTL_WB_ACTIVE = ctl_regs ctx CTL_WB_ACTIVE"
    "ctl_regs ctx1 CTL_DSC_ACTIVE = ctl_regs ctx CTL_DSC_ACTIVE"
    by (simp_all add: ctx1_def DPU_REG_WRITE_def DPU_REG_READ_def active_regs)
  show "ctl_regs (dpu_hw_ctl_reset_intf_cfg_v1 cfg ctx) CTL_INTF_ACTIVE
     = (if ic_intf cfg \<noteq> 0 then ctl_regs ctx CTL_INTF_ACTIVE AND NOT (BIT32 (ic_intf cfg - 1)) else ctl_regs ctx CTL_INTF_ACTIVE)"
    "ctl_regs (dpu_hw_ctl_reset_intf_cfg_v1 cfg ctx) CTL_WB_ACTIVE
     = (if ic_wb cfg \<noteq> 0 then ctl_regs ctx CTL_WB_ACTIVE AND NOT (BIT32 (ic_wb cfg - 1)) else ctl_regs ctx CTL_WB_ACTIVE)"
    "ctl_regs (dpu_hw_ctl_reset_intf_cfg_v1 cfg ctx) CTL_MERGE_3D_ACTIVE
     = (if ic_merge_3d cfg \<noteq> 0 then ctl_regs ctx CTL_MERGE_3D_ACTIVE AND NOT (BIT32 (ic_merge_3d cfg - 1)) else ctl_regs ctx CTL_MERGE_3D_ACTIVE)"
    "ctl_regs (dpu_hw_ctl_reset_intf_cfg_v1 cfg ctx) CTL_DSC_ACTIVE = ctl_regs ctx CTL_DSC_ACTIVE"
    using c [of CTL_INTF_ACTIVE] c [of CTL_WB_ACTIVE] c [of CTL_MERGE_3D_ACTIVE] c [of CTL_DSC_ACTIVE] c1
    unfolding dpu_hw_ctl_reset_intf_cfg_v1_def Let_def ctx1_def [symmetric] ctx2_def [symmetric]
    by (simp_all add: DPU_REG_WRITE_def DPU_REG_READ_def active_regs)
qed

lemma intf_cfg_v1_caps: "mixer_hw_caps (dpu_hw_ctl_intf_cfg_v1 cfg ctx) = mixer_hw_caps ctx"
  by (simp add: dpu_hw_ctl_intf_cfg_v1_def Let_def DPU_REG_WRITE_def)

theorem dpu_hw_ctl_reset_undoes_intf_cfg:
  assumes "\<forall>m \<in> set (mixer_hw_caps ctx). fst m \<in> {1..6}"
    and ctx': "ctx' = dpu_hw_ctl_reset_intf_cfg_v1 cfg (dpu_hw_ctl_intf_cfg_v1 cfg ctx)"
    and fresh: "ic_intf cfg \<noteq> 0 \<longrightarrow> ctl_regs ctx CTL_INTF_ACTIVE AND BIT32 (ic_intf cfg - 1) = 0"
      "ic_wb cfg \<noteq> 0 \<longrightarrow> ctl_regs ctx CTL_WB_ACTIVE AND BIT32 (ic_wb cfg - 1) = 0" "ctl_regs ctx CTL_MERGE_3D_ACTIVE = 0"
  shows "ctl_regs ctx' CTL_INTF_ACTIVE = ctl_regs ctx CTL_INTF_ACTIVE \<and> ctl_regs ctx' CTL_WB_ACTIVE = ctl_regs ctx CTL_WB_ACTIVE
    \<and> ctl_regs ctx' CTL_MERGE_3D_ACTIVE = ctl_regs ctx CTL_MERGE_3D_ACTIVE"
proof -
  have caps: "\<forall>m \<in> set (mixer_hw_caps (dpu_hw_ctl_intf_cfg_v1 cfg ctx)). fst m \<in> {1..6}" using assms(1) by (simp add: intf_cfg_v1_caps)
  have clr: "(v OR BIT32 n) AND NOT (BIT32 n) = v" if "v AND BIT32 n = 0" for v :: u32 and n
    using that by (auto simp: bit_eq_iff bit_simps)
  show ?thesis
    using fresh by (auto simp: ctx' reset_intf_cfg_v1_active [OF caps] intf_cfg_v1_active clr)
qed

text \<open>The active bits of the DSC encoders stay set.\<close>

theorem dpu_hw_ctl_reset_keeps_dsc:
  assumes "\<forall>m \<in> set (mixer_hw_caps ctx). fst m \<in> {1..6}" "ic_dsc cfg \<noteq> 0"
  shows "ctl_regs (dpu_hw_ctl_reset_intf_cfg_v1 cfg (dpu_hw_ctl_intf_cfg_v1 cfg ctx)) CTL_DSC_ACTIVE = ic_dsc cfg"
proof -
  have "\<forall>m \<in> set (mixer_hw_caps (dpu_hw_ctl_intf_cfg_v1 cfg ctx)). fst m \<in> {1..6}" using assms(1) by (simp add: intf_cfg_v1_caps)
  from reset_intf_cfg_v1_active(4) [OF this] show ?thesis using assms(2) by (simp add: intf_cfg_v1_active)
qed

section \<open>Reset\<close>

definition cleared_in_time :: "(nat \<Rightarrow> u32) \<Rightarrow> (nat \<Rightarrow> int) \<Rightarrow> int \<Rightarrow> nat \<Rightarrow> bool" where
  "cleared_in_time hw clk timeout k = (\<exists>j \<ge> k. hw j AND 1 = 0 \<and> (\<forall>i. k \<le> i \<and> i < j \<longrightarrow> clk i < timeout))"

lemma cleared_in_time_step:
  "cleared_in_time hw clk timeout k \<longleftrightarrow> hw k AND 1 = 0 \<or> clk k < timeout \<and> cleared_in_time hw clk timeout (k + 1)"
proof
  assume "cleared_in_time hw clk timeout k"
  then obtain j where j: "k \<le> j" "hw j AND 1 = 0" "\<And>i. k \<le> i \<Longrightarrow> i < j \<Longrightarrow> clk i < timeout"
    by (auto simp: cleared_in_time_def)
  then show "hw k AND 1 = 0 \<or> clk k < timeout \<and> cleared_in_time hw clk timeout (k + 1)"
    by (cases "j = k") (auto simp: cleared_in_time_def intro!: exI [of _ j])
next
  assume "hw k AND 1 = 0 \<or> clk k < timeout \<and> cleared_in_time hw clk timeout (k + 1)"
  then show "cleared_in_time hw clk timeout k"
  proof
    assume "clk k < timeout \<and> cleared_in_time hw clk timeout (k + 1)"
    then obtain j where j: "clk k < timeout" "k + 1 \<le> j" "hw j AND 1 = 0" "\<And>i. k + 1 \<le> i \<Longrightarrow> i < j \<Longrightarrow> clk i < timeout"
      by (auto simp: cleared_in_time_def)
    have "clk i < timeout" if "k \<le> i" "i < j" for i
      using j(1) j(4) [of i] that by (cases "i = k") auto
    with j show ?thesis by (auto simp: cleared_in_time_def intro!: exI [of _ j])
  qed (auto simp: cleared_in_time_def)
qed

lemma poll_reset_result:
  assumes "timeout \<le> clk (k + d)"
  shows "\<exists>v. poll_reset hw clk timeout k = Some v \<and> (v = 0 \<longleftrightarrow> cleared_in_time hw clk timeout k)"
  using assms
proof (induction d arbitrary: k)
  case 0
  then show ?case by (subst poll_reset.simps) (auto simp: cleared_in_time_step [of hw clk timeout k])
next
  case (Suc d)
  then show ?case
    using Suc.IH [of "k + 1"] by (subst poll_reset.simps) (auto simp: cleared_in_time_step [of hw clk timeout k])
qed

theorem dpu_hw_ctl_reset_control_returns:
  assumes "now + 2000000 \<le> clk k"
  shows "fst (dpu_hw_ctl_reset_control hw clk now ctx)
    = Some (if cleared_in_time hw clk (now + 2000000) 0 then 0 else - EINVAL)"
proof -
  obtain v where v: "poll_reset hw clk (now + 2000000) 0 = Some v" "v = 0 \<longleftrightarrow> cleared_in_time hw clk (now + 2000000) 0"
    using poll_reset_result [of "now + 2000000" clk 0 k hw] assms by auto
  then show ?thesis
    by (simp add: dpu_hw_ctl_reset_control_def dpu_hw_ctl_poll_reset_status_def DPU_REG_RESET_TIMEOUT_US_def)
qed

end
