(* ===== verification/HFI.thy ===== *)
theory HFI
  imports Prelude "HOL-Library.Signed_Division"
begin

text \<open>
  The host firmware interface of the A6xx GMU (\<^verbatim>\<open>msm/adreno/a6xx_hfi.c\<close>): two rings of dwords in
  shared memory, the command queue the driver writes and the response queue it reads, and the
  messages sent over them.

  \<open>None\<close> is a \<^verbatim>\<open>BUG_ON\<close>, a null header, a division by a zero size or an access outside the
  ring.  The GMU firmware is not part of the repository: what it does to the shared memory
  until the poll for its interrupt returns is a parameter (\<open>fw\<close>).
\<close>

section \<open>Data (a6xx_hfi.h, a6xx_gmu.h)\<close>

record a6xx_hfi_queue_header =
  h_status :: u32
  h_iova :: u32
  h_type :: u32
  h_size :: u32
  h_msg_size :: u32
  h_dropped :: u32
  h_rx_watermark :: u32
  h_tx_watermark :: u32
  h_rx_request :: u32
  h_tx_request :: u32
  read_index :: u32
  write_index :: u32

definition HFI_HISTORY_SZ :: nat where
  "HFI_HISTORY_SZ = 8"

record a6xx_hfi_queue =
  header :: "a6xx_hfi_queue_header option"
  q_data :: "u32 list"
  q_seqnum :: u32
  history :: "u32 list"
  history_idx :: u8

record a6xx_hfi_queue_table_header =
  tab_version :: u32
  tab_size :: u32
  qhdr0_offset :: u32
  qhdr_size :: u32
  num_queues :: u32
  active_queues :: u32

record adreno_rev =
  core :: u8
  major :: u8
  minor :: u8
  patchid :: u8

text \<open>
  The part of \<^verbatim>\<open>struct a6xx_gmu\<close> (and of the GPU around it) that the interface uses; the
  log \<open>gmu_writes\<close> has the registers written, oldest first.
\<close>

datatype gmu_reg = REG_A6XX_GMU_HOST2GMU_INTR_SET | REG_A6XX_GMU_GMU2HOST_INTR_CLR

record a6xx_gmu =
  legacy :: bool
  hfi_iova :: u64
  hfi_virt :: "nat \<Rightarrow> u32" \<comment> \<open>the buffer of the queues, by dword\<close>
  hfi_table :: a6xx_hfi_queue_table_header
  debug_iova :: u64
  debug_size :: u64
  nr_gpu_freqs :: int
  gpu_freqs :: "u64 list"
  gx_arc_votes :: "u32 list"
  nr_gmu_freqs :: int
  gmu_freqs :: "u64 list"
  cx_arc_votes :: "u32 list"
  queue0 :: a6xx_hfi_queue
  queue1 :: a6xx_hfi_queue
  gmu_writes :: "(gmu_reg \<times> u32) list"
  gpu_revn :: u32
  gpu_rev :: adreno_rev

definition HFI_HEADER_ID :: "u32 \<Rightarrow> u32" where
  "HFI_HEADER_ID msg = msg AND 0xff"

definition HFI_HEADER_SIZE :: "u32 \<Rightarrow> u32" where
  "HFI_HEADER_SIZE msg = drop_bit 8 msg AND 0xff"

definition HFI_HEADER_SEQNUM :: "u32 \<Rightarrow> u32" where
  "HFI_HEADER_SEQNUM msg = drop_bit 20 msg AND 0xfff"

definition HFI_MSG_CMD :: u32 where "HFI_MSG_CMD = 0"
definition HFI_F2H_MSG_ERROR :: u32 where "HFI_F2H_MSG_ERROR = 100"
definition HFI_H2F_MSG_INIT :: u32 where "HFI_H2F_MSG_INIT = 0"
definition HFI_H2F_MSG_FW_VERSION :: u32 where "HFI_H2F_MSG_FW_VERSION = 1"
definition HFI_H2F_MSG_PERF_TABLE :: u32 where "HFI_H2F_MSG_PERF_TABLE = 4"
definition HFI_H2F_MSG_BW_TABLE :: u32 where "HFI_H2F_MSG_BW_TABLE = 3"
definition HFI_H2F_MSG_TEST :: u32 where "HFI_H2F_MSG_TEST = 5"
definition HFI_H2F_MSG_START :: u32 where "HFI_H2F_MSG_START = 10"
definition HFI_H2F_MSG_CORE_FW_START :: u32 where "HFI_H2F_MSG_CORE_FW_START = 14"
definition HFI_H2F_MSG_GX_BW_PERF_VOTE :: u32 where "HFI_H2F_MSG_GX_BW_PERF_VOTE = 30"
definition HFI_H2F_MSG_PREPARE_SLUMBER :: u32 where "HFI_H2F_MSG_PREPARE_SLUMBER = 33"

section \<open>The rings\<close>

definition add_history :: "u32 \<Rightarrow> a6xx_hfi_queue \<Rightarrow> a6xx_hfi_queue" where
  "add_history index q = q\<lparr>history := (history q)[unat (history_idx q) mod HFI_HISTORY_SZ := index],
     history_idx := history_idx q + 1\<rparr>"

text \<open>The copy loop of a read, from \<open>index\<close> on, and the index it ends at.\<close>

fun copy_out :: "u32 list \<Rightarrow> u32 \<Rightarrow> nat \<Rightarrow> u32 \<Rightarrow> (u32 list \<times> u32) option" where
  "copy_out d sz 0 index = Some ([], index)"
| "copy_out d sz (Suc n) index = (case arr_get d (unat index) of
     None \<Rightarrow> None
   | Some x \<Rightarrow> if sz = 0 then None
       else map_option (\<lambda>(xs, i). (x # xs, i)) (copy_out d sz n ((index + 1) mod sz)))"

definition ALIGN4 :: "u32 \<Rightarrow> u32" where
  "ALIGN4 x = (x + 3) AND NOT 3"

text \<open>The result is the return value, the dwords copied, and the queue.\<close>

definition a6xx_hfi_queue_read :: "bool \<Rightarrow> a6xx_hfi_queue \<Rightarrow> u32 \<Rightarrow> (u32 \<times> u32 list \<times> a6xx_hfi_queue) option" where
  "a6xx_hfi_queue_read leg q dwords = (case header q of
     None \<Rightarrow> None
   | Some h \<Rightarrow>
      (if read_index h = write_index h then Some (0, [], q\<lparr>header := Some (h\<lparr>h_rx_request := 1\<rparr>)\<rparr>)
       else (case arr_get (q_data q) (unat (read_index h)) of
          None \<Rightarrow> None
        | Some hdr \<Rightarrow>
           (if HFI_HEADER_SIZE hdr > dwords then None
            else (case copy_out (q_data q) (h_size h) (unat (HFI_HEADER_SIZE hdr)) (read_index h) of
               None \<Rightarrow> None
             | Some (xs, i) \<Rightarrow>
                (if \<not> leg \<and> h_size h = 0 then None
                 else let i' = (if \<not> leg then ALIGN4 i mod h_size h else i)
                   in Some (HFI_HEADER_SIZE hdr, xs,
                        add_history (read_index h) q\<lparr>header := Some (h\<lparr>read_index := i'\<rparr>)\<rparr>)))))))"

text \<open>The macros of the kernel's \<^verbatim>\<open>circ_buf.h\<close>.\<close>

definition CIRC_CNT :: "u32 \<Rightarrow> u32 \<Rightarrow> u32 \<Rightarrow> u32" where
  "CIRC_CNT head tail sz = (head - tail) AND (sz - 1)"

definition CIRC_SPACE :: "u32 \<Rightarrow> u32 \<Rightarrow> u32 \<Rightarrow> u32" where
  "CIRC_SPACE head tail sz = CIRC_CNT tail (head + 1) sz"

fun copy_in :: "u32 list \<Rightarrow> u32 \<Rightarrow> u32 list \<Rightarrow> u32 \<Rightarrow> (u32 list \<times> u32) option" where
  "copy_in d sz [] index = Some (d, index)"
| "copy_in d sz (x # xs) index = (case arr_set d (unat index) x of
     None \<Rightarrow> None
   | Some d' \<Rightarrow> if sz = 0 then None else copy_in d' sz xs ((index + 1) mod sz))"

text \<open>
  The loop that fills the rest of a group of four dwords.  It ends: the index reaches a
  multiple of four or wraps to zero after at most three steps once it is inside the ring.
\<close>

definition HFI_COOKIE :: u32 where
  "HFI_COOKIE = 0xfafafafa"

lemma mod4_cases:
  assumes "n mod 4 \<noteq> 0"
  obtains "n mod 4 = (1 :: nat)" | "n mod 4 = 2" | "n mod 4 = 3"
  using assms mod_less_divisor [of 4 n] by linarith

lemma cookify_decreases:
  fixes i size :: u32
  assumes "i mod 4 \<noteq> 0" and "sz \<noteq> 0"
  shows "(if unat ((i + 1) mod sz) < unat sz then 0 else 4) + (4 - unat ((i + 1) mod sz) mod 4) mod 4
       < (if unat i < unat sz then 0 else 4) + (4 - unat i mod 4) mod (4 :: nat)"
proof -
  let ?n = "unat i" and ?s = "unat sz"
  have s: "0 < ?s" using assms(2) by (simp add: unat_gt_0)
  have n4: "?n mod 4 \<noteq> 0" using assms(1) mod_4_u32 by blast
  have step: "unat ((i + 1) mod sz) = (if ?n = 4294967295 then 0 else Suc ?n mod ?s)"
    by (simp add: unat_mod_distrib unat_add_1_u32)
  have "unat ((i + 1) mod sz) < ?s" using s unat_mod_distrib [of "i + 1" sz] by simp
  moreover have "(4 - unat ((i + 1) mod sz) mod 4) mod 4 < (4 - ?n mod 4) mod 4" if "?n < ?s"
  proof (cases "?n = 4294967295 \<or> Suc ?n = ?s")
    case True
    then have "unat ((i + 1) mod sz) = 0" using step by auto
    then show ?thesis by (cases rule: mod4_cases [OF n4]) (simp_all add: mod_Suc)
  next
    case False
    then have "unat ((i + 1) mod sz) = Suc ?n" using step that by auto
    then show ?thesis by (cases rule: mod4_cases [OF n4]) (simp_all add: mod_Suc)
  qed
  moreover have "(4 - unat ((i + 1) mod sz) mod 4) mod 4 < (4 :: nat)" by simp
  ultimately show ?thesis by (cases "?n < ?s"; simp only: if_True if_False; linarith)
qed

function cookify :: "u32 list \<Rightarrow> u32 \<Rightarrow> u32 \<Rightarrow> (u32 list \<times> u32) option" where
  "cookify d sz index = (if index mod 4 = 0 then Some (d, index)
     else (case arr_set d (unat index) HFI_COOKIE of
        None \<Rightarrow> None
      | Some d' \<Rightarrow> if sz = 0 then None else cookify d' sz ((index + 1) mod sz)))"
  by pat_completeness auto
termination
  by (relation "measure (\<lambda>(d, sz, i). (if unat i < unat sz then 0 else 4) + (4 - unat i mod 4) mod 4)")
    (use cookify_decreases in auto)

declare cookify.simps [simp del]

text \<open>The dwords of the message are those of the list; \<^verbatim>\<open>dwords\<close> is its length.\<close>

definition a6xx_hfi_queue_write :: "bool \<Rightarrow> a6xx_hfi_queue \<Rightarrow> u32 list \<Rightarrow> (int \<times> a6xx_hfi_queue) option" where
  "a6xx_hfi_queue_write leg q data = (case header q of
     None \<Rightarrow> None
   | Some h \<Rightarrow>
      (if CIRC_SPACE (write_index h) (read_index h) (h_size h) < of_nat (length data)
       then Some (- ENOSPC, q\<lparr>header := Some (h\<lparr>h_dropped := h_dropped h + 1\<rparr>)\<rparr>)
       else let q1 = add_history (write_index h) q in
        (case copy_in (q_data q) (h_size h) data (write_index h) of
           None \<Rightarrow> None
         | Some (d, i) \<Rightarrow>
            (case (if \<not> leg then cookify d (h_size h) i else Some (d, i)) of
               None \<Rightarrow> None
             | Some (d', i') \<Rightarrow> Some (0, q1\<lparr>q_data := d', header := Some (h\<lparr>write_index := i'\<rparr>)\<rparr>)))))"

text \<open>The write followed by the interrupt to the GMU, on the command queue.\<close>

definition write_command :: "u32 list \<Rightarrow> a6xx_gmu \<Rightarrow> (int \<times> a6xx_gmu) option" where
  "write_command data gmu = (case a6xx_hfi_queue_write (legacy gmu) (queue0 gmu) data of
     None \<Rightarrow> None
   | Some (ret, q) \<Rightarrow> if ret \<noteq> 0 then Some (ret, gmu\<lparr>queue0 := q\<rparr>)
       else Some (0, gmu\<lparr>queue0 := q,
              gmu_writes := gmu_writes gmu @ [(REG_A6XX_GMU_HOST2GMU_INTR_SET, 1)]\<rparr>))"

section \<open>Messages\<close>

text \<open>
  The loop of \<^verbatim>\<open>a6xx_hfi_wait_for_ack\<close>.  The response buffer is a local variable of 19 dwords:
  \<open>stk k\<close> is what it holds before the \<open>k\<close>-th read overwrites its start.  The result is the
  return value, the response accepted (if any), and the queue; a loop that does not end is
  \<open>None\<close> as well.
\<close>

definition read_response :: "u32 list \<Rightarrow> u32 list \<Rightarrow> u32 list" where
  "read_response xs stk = xs @ drop (length xs) stk"

partial_function (option) ack_loop ::
    "bool \<Rightarrow> u32 \<Rightarrow> (nat \<Rightarrow> u32 list) \<Rightarrow> nat \<Rightarrow> a6xx_hfi_queue \<Rightarrow> (int \<times> u32 list option \<times> a6xx_hfi_queue) option" where
  "ack_loop leg seqnum stk k q = (case a6xx_hfi_queue_read leg q 19 of
     None \<Rightarrow> None
   | Some (ret, xs, q1) \<Rightarrow>
      (let resp = read_response xs (stk k) in
       if ret = 0 then Some (- ENOENT, None, q1)
       else if HFI_HEADER_ID (resp ! 0) = HFI_F2H_MSG_ERROR then ack_loop leg seqnum stk (Suc k) q1
       else if seqnum \<noteq> HFI_HEADER_SEQNUM (resp ! 1) then ack_loop leg seqnum stk (Suc k) q1
       else if resp ! 2 \<noteq> 0 then Some (- EINVAL, None, q1)
       else Some (0, Some resp, q1)))"

text \<open>
  \<open>poll\<close> is what \<^verbatim>\<open>gmu_poll_timeout\<close> returns; the payload is an optional buffer of dwords with
  its size in bytes (both callers' sizes are multiples of four).
\<close>

definition a6xx_hfi_wait_for_ack :: "int \<Rightarrow> (nat \<Rightarrow> u32 list) \<Rightarrow> u32 \<Rightarrow> u32 list option \<Rightarrow> u32 \<Rightarrow> a6xx_gmu \<Rightarrow>
    (int \<times> u32 list option \<times> a6xx_gmu) option" where
  "a6xx_hfi_wait_for_ack poll stk seqnum payload payload_size gmu =
     (if poll \<noteq> 0 then Some (- ETIMEDOUT, payload, gmu)
      else let gmu1 = gmu\<lparr>gmu_writes := gmu_writes gmu @ [(REG_A6XX_GMU_GMU2HOST_INTR_CLR, 1)]\<rparr> in
       (case ack_loop (legacy gmu1) seqnum stk 0 (queue1 gmu1) of
          None \<Rightarrow> None
        | Some (ret, resp, q) \<Rightarrow>
           (let n = unat (min payload_size 64) div 4;
                payload' = (case (resp, payload) of
                    (Some r, Some p) \<Rightarrow> if payload_size \<noteq> 0 then Some (take n (drop 3 r) @ drop n p) else payload
                  | _ \<Rightarrow> payload)
            in Some (ret, payload', gmu1\<lparr>queue1 := q\<rparr>))))"

type_synonym firmware = "a6xx_gmu \<Rightarrow> int \<times> (nat \<Rightarrow> u32 list) \<times> a6xx_gmu"

definition msg_header :: "u32 \<Rightarrow> u32 \<Rightarrow> u32 \<Rightarrow> u32" where
  "msg_header seqnum dwords i = push_bit 20 seqnum OR push_bit 16 HFI_MSG_CMD OR push_bit 8 dwords OR i"

definition a6xx_hfi_send_msg :: "firmware \<Rightarrow> u32 \<Rightarrow> u32 list \<Rightarrow> u32 list option \<Rightarrow> u32 \<Rightarrow> a6xx_gmu \<Rightarrow>
    (int \<times> u32 list option \<times> a6xx_gmu) option" where
  "a6xx_hfi_send_msg fw i data payload payload_size gmu =
     (let seq = q_seqnum (queue0 gmu) + 1;
          seqnum = c_u32 (c_int seq smod 0xfff);
          gmu1 = gmu\<lparr>queue0 := (queue0 gmu)\<lparr>q_seqnum := seq\<rparr>\<rparr>
      in (case write_command (data[0 := msg_header seqnum (of_nat (length data)) i]) gmu1 of
            None \<Rightarrow> None
          | Some (ret, gmu2) \<Rightarrow>
             (if ret \<noteq> 0 then Some (ret, payload, gmu2)
              else let (poll, stk, gmu3) = fw gmu2
                   in a6xx_hfi_wait_for_ack poll stk seqnum payload payload_size gmu3)))"

section \<open>The messages of the driver\<close>

text \<open>A message struct is the list of its dwords; the first is filled in when it is sent.\<close>

definition send :: "firmware \<Rightarrow> u32 \<Rightarrow> u32 list \<Rightarrow> a6xx_gmu \<Rightarrow> (int \<times> a6xx_gmu) option" where
  "send fw i data gmu = map_option (\<lambda>(ret, p, g). (ret, g)) (a6xx_hfi_send_msg fw i data None 0 gmu)"

definition a6xx_hfi_send_gmu_init :: "firmware \<Rightarrow> u32 \<Rightarrow> a6xx_gmu \<Rightarrow> (int \<times> a6xx_gmu) option" where
  "a6xx_hfi_send_gmu_init fw boot_state gmu =
     send fw HFI_H2F_MSG_INIT [0, 0, ucast (debug_iova gmu), ucast (debug_size gmu), boot_state] gmu"

definition a6xx_hfi_get_fw_version :: "firmware \<Rightarrow> u32 list option \<Rightarrow> a6xx_gmu \<Rightarrow> (int \<times> u32 list option \<times> a6xx_gmu) option" where
  "a6xx_hfi_get_fw_version fw version gmu =
     a6xx_hfi_send_msg fw HFI_H2F_MSG_FW_VERSION [0, push_bit 28 1 OR push_bit 16 1] version 4 gmu"

text \<open>
  The vote arrays of the performance tables, zero after the entries the loop fills; \<open>None\<close> when
  there are more frequencies than the arrays have entries.
\<close>

definition votes :: "nat \<Rightarrow> (u32 \<Rightarrow> u32 \<Rightarrow> u32 list) \<Rightarrow> int \<Rightarrow> u32 list \<Rightarrow> u64 list \<Rightarrow> u32 list option" where
  "votes n entry nr arc freqs =
     (if int (min n (min (length arc) (length freqs))) < nr then None
      else Some (concat (map (\<lambda>k. entry (arc ! k) (ucast (freqs ! k div 1000))) [0..<nat nr])
             @ replicate ((n - nat nr) * length (entry 0 0)) 0))"

definition a6xx_hfi_send_perf_table_v1 :: "firmware \<Rightarrow> a6xx_gmu \<Rightarrow> (int \<times> a6xx_gmu) option" where
  "a6xx_hfi_send_perf_table_v1 fw gmu =
     (case votes 16 (\<lambda>v f. [v, f]) (nr_gpu_freqs gmu) (gx_arc_votes gmu) (gpu_freqs gmu) of
        None \<Rightarrow> None
      | Some gx \<Rightarrow>
         (case votes 4 (\<lambda>v f. [v, f]) (nr_gmu_freqs gmu) (cx_arc_votes gmu) (gmu_freqs gmu) of
            None \<Rightarrow> None
          | Some cx \<Rightarrow> send fw HFI_H2F_MSG_PERF_TABLE
              ([0, c_u32 (nr_gpu_freqs gmu), c_u32 (nr_gmu_freqs gmu)] @ gx @ cx) gmu))"

definition a6xx_hfi_send_perf_table :: "firmware \<Rightarrow> a6xx_gmu \<Rightarrow> (int \<times> a6xx_gmu) option" where
  "a6xx_hfi_send_perf_table fw gmu =
     (case votes 16 (\<lambda>v f. [v, 0xffffffff, f]) (nr_gpu_freqs gmu) (gx_arc_votes gmu) (gpu_freqs gmu) of
        None \<Rightarrow> None
      | Some gx \<Rightarrow>
         (case votes 4 (\<lambda>v f. [v, f]) (nr_gmu_freqs gmu) (cx_arc_votes gmu) (gmu_freqs gmu) of
            None \<Rightarrow> None
          | Some cx \<Rightarrow> send fw HFI_H2F_MSG_PERF_TABLE
              ([0, c_u32 (nr_gpu_freqs gmu), c_u32 (nr_gmu_freqs gmu)] @ gx @ cx) gmu))"

record a6xx_hfi_msg_bw_table =
  bw_header :: u32
  bw_level_num :: u32
  cnoc_cmds_num :: u32
  ddr_cmds_num :: u32
  cnoc_wait_bitmask :: u32
  ddr_wait_bitmask :: u32
  cnoc_cmds_addrs :: "u32 list" \<comment> \<open>6\<close>
  cnoc_cmds_data :: "u32 list list" \<comment> \<open>2 by 6\<close>
  ddr_cmds_addrs :: "u32 list" \<comment> \<open>8\<close>
  ddr_cmds_data :: "u32 list list" \<comment> \<open>16 by 8\<close>

definition bw_zero :: a6xx_hfi_msg_bw_table where
  "bw_zero = \<lparr>bw_header = 0, bw_level_num = 0, cnoc_cmds_num = 0, ddr_cmds_num = 0,
     cnoc_wait_bitmask = 0, ddr_wait_bitmask = 0, cnoc_cmds_addrs = replicate 6 0,
     cnoc_cmds_data = replicate 2 (replicate 6 0), ddr_cmds_addrs = replicate 8 0,
     ddr_cmds_data = replicate 16 (replicate 8 0)\<rparr>"

definition bw_words :: "a6xx_hfi_msg_bw_table \<Rightarrow> u32 list" where
  "bw_words msg = [bw_header msg, bw_level_num msg, cnoc_cmds_num msg, ddr_cmds_num msg,
     cnoc_wait_bitmask msg, ddr_wait_bitmask msg] @ cnoc_cmds_addrs msg @ concat (cnoc_cmds_data msg)
     @ ddr_cmds_addrs msg @ concat (ddr_cmds_data msg)"

text \<open>Assignments to consecutive entries, of an array and of a row.\<close>

fun put :: "nat \<Rightarrow> 'a list \<Rightarrow> 'a list \<Rightarrow> 'a list" where
  "put i [] xs = xs"
| "put i (v # vs) xs = put (Suc i) vs (xs[i := v])"

definition put_row :: "nat \<Rightarrow> 'a list \<Rightarrow> 'a list list \<Rightarrow> 'a list list" where
  "put_row r vs xss = xss[r := put 0 vs (xss ! r)]"

definition a618_build_bw_table :: "a6xx_hfi_msg_bw_table \<Rightarrow> a6xx_hfi_msg_bw_table" where
  "a618_build_bw_table msg = msg\<lparr>
     bw_level_num := 1, ddr_cmds_num := 3, ddr_wait_bitmask := 0x01,
     ddr_cmds_addrs := put 0 [0x50000, 0x5003c, 0x5000c] (ddr_cmds_addrs msg),
     ddr_cmds_data := put_row 0 [0x40000000, 0x40000000, 0x40000000] (ddr_cmds_data msg),
     cnoc_cmds_num := 1, cnoc_wait_bitmask := 0x01,
     cnoc_cmds_addrs := put 0 [0x5007c] (cnoc_cmds_addrs msg),
     cnoc_cmds_data := put_row 1 [0x60000001] (put_row 0 [0x40000000] (cnoc_cmds_data msg))\<rparr>"

definition a640_build_bw_table :: "a6xx_hfi_msg_bw_table \<Rightarrow> a6xx_hfi_msg_bw_table" where
  "a640_build_bw_table msg = msg\<lparr>
     bw_level_num := 1, ddr_cmds_num := 3, ddr_wait_bitmask := 0x01,
     ddr_cmds_addrs := put 0 [0x50000, 0x5003c, 0x5000c] (ddr_cmds_addrs msg),
     ddr_cmds_data := put_row 0 [0x40000000, 0x40000000, 0x40000000] (ddr_cmds_data msg),
     cnoc_cmds_num := 3, cnoc_wait_bitmask := 0x01,
     cnoc_cmds_addrs := put 0 [0x50034, 0x5007c, 0x5004c] (cnoc_cmds_addrs msg),
     cnoc_cmds_data := put_row 1 [0x60000001, 0x20000001, 0x60000001] (put_row 0 [0x40000000, 0x00000000, 0x40000000] (cnoc_cmds_data msg))\<rparr>"

definition a650_build_bw_table :: "a6xx_hfi_msg_bw_table \<Rightarrow> a6xx_hfi_msg_bw_table" where
  "a650_build_bw_table msg = msg\<lparr>
     bw_level_num := 1, ddr_cmds_num := 3, ddr_wait_bitmask := 0x01,
     ddr_cmds_addrs := put 0 [0x50000, 0x50004, 0x5007c] (ddr_cmds_addrs msg),
     ddr_cmds_data := put_row 0 [0x40000000, 0x40000000, 0x40000000] (ddr_cmds_data msg),
     cnoc_cmds_num := 1, cnoc_wait_bitmask := 0x01,
     cnoc_cmds_addrs := put 0 [0x500a4] (cnoc_cmds_addrs msg),
     cnoc_cmds_data := put_row 1 [0x60000001] (put_row 0 [0x40000000] (cnoc_cmds_data msg))\<rparr>"

definition a660_build_bw_table :: "a6xx_hfi_msg_bw_table \<Rightarrow> a6xx_hfi_msg_bw_table" where
  "a660_build_bw_table msg = msg\<lparr>
     bw_level_num := 1, ddr_cmds_num := 3, ddr_wait_bitmask := 0x01,
     ddr_cmds_addrs := put 0 [0x50004, 0x500a0, 0x50000] (ddr_cmds_addrs msg),
     ddr_cmds_data := put_row 0 [0x40000000, 0x40000000, 0x40000000] (ddr_cmds_data msg),
     cnoc_cmds_num := 1, cnoc_wait_bitmask := 0x01,
     cnoc_cmds_addrs := put 0 [0x50070] (cnoc_cmds_addrs msg),
     cnoc_cmds_data := put_row 1 [0x60000001] (put_row 0 [0x40000000] (cnoc_cmds_data msg))\<rparr>"

definition adreno_7c3_build_bw_table :: "a6xx_hfi_msg_bw_table \<Rightarrow> a6xx_hfi_msg_bw_table" where
  "adreno_7c3_build_bw_table msg = msg\<lparr>
     bw_level_num := 1, ddr_cmds_num := 3, ddr_wait_bitmask := 0x07,
     ddr_cmds_addrs := put 0 [0x50004, 0x50000, 0x50088] (ddr_cmds_addrs msg),
     ddr_cmds_data := put_row 0 [0x40000000, 0x40000000, 0x40000000] (ddr_cmds_data msg),
     cnoc_cmds_num := 1, cnoc_wait_bitmask := 0x01,
     cnoc_cmds_addrs := put 0 [0x5006c] (cnoc_cmds_addrs msg),
     cnoc_cmds_data := put_row 1 [0x60000001] (put_row 0 [0x40000000] (cnoc_cmds_data msg))\<rparr>"

definition a6xx_build_bw_table :: "a6xx_hfi_msg_bw_table \<Rightarrow> a6xx_hfi_msg_bw_table" where
  "a6xx_build_bw_table msg = msg\<lparr>
     bw_level_num := 1, ddr_cmds_num := 3, ddr_wait_bitmask := 0x07,
     ddr_cmds_addrs := put 0 [0x50000, 0x5005c, 0x5000c] (ddr_cmds_addrs msg),
     ddr_cmds_data := put_row 0 [0x40000000, 0x40000000, 0x40000000] (ddr_cmds_data msg),
     cnoc_cmds_num := 3, cnoc_wait_bitmask := 0x05,
     cnoc_cmds_addrs := put 0 [0x50034, 0x5007c, 0x5004c] (cnoc_cmds_addrs msg),
     cnoc_cmds_data := put_row 1 [0x60000001, 0x20000001, 0x60000001] (put_row 0 [0x40000000, 0x00000000, 0x40000000] (cnoc_cmds_data msg))\<rparr>"

text \<open>The revision tests of \<^verbatim>\<open>adreno_gpu.h\<close> and \<^verbatim>\<open>adreno_device.c\<close>.\<close>

definition rev_match :: "u8 \<Rightarrow> u8 \<Rightarrow> bool" where
  "rev_match entry i \<longleftrightarrow> entry = 0xff \<or> entry = i"

definition adreno_cmp_rev :: "adreno_rev \<Rightarrow> adreno_rev \<Rightarrow> bool" where
  "adreno_cmp_rev rev1 rev2 \<longleftrightarrow> rev_match (core rev1) (core rev2) \<and> rev_match (major rev1) (major rev2)
     \<and> rev_match (minor rev1) (minor rev2) \<and> rev_match (patchid rev1) (patchid rev2)"

definition adreno_is_a618 :: "a6xx_gmu \<Rightarrow> bool" where
  "adreno_is_a618 gmu \<longleftrightarrow> gpu_revn gmu = 618"

definition adreno_is_a640_family :: "a6xx_gmu \<Rightarrow> bool" where
  "adreno_is_a640_family gmu \<longleftrightarrow> gpu_revn gmu = 640 \<or> gpu_revn gmu = 680"

definition adreno_is_a650 :: "a6xx_gmu \<Rightarrow> bool" where
  "adreno_is_a650 gmu \<longleftrightarrow> gpu_revn gmu = 650"

definition adreno_is_7c3 :: "a6xx_gmu \<Rightarrow> bool" where
  "adreno_is_7c3 gmu \<longleftrightarrow> adreno_cmp_rev \<lparr>core = 6, major = 3, minor = 5, patchid = 0xff\<rparr> (gpu_rev gmu)"

definition adreno_is_a660 :: "a6xx_gmu \<Rightarrow> bool" where
  "adreno_is_a660 gmu \<longleftrightarrow> gpu_revn gmu = 660"

definition bw_table_of :: "a6xx_gmu \<Rightarrow> a6xx_hfi_msg_bw_table" where
  "bw_table_of gmu =
     (if adreno_is_a618 gmu then a618_build_bw_table bw_zero
      else if adreno_is_a640_family gmu then a640_build_bw_table bw_zero
      else if adreno_is_a650 gmu then a650_build_bw_table bw_zero
      else if adreno_is_7c3 gmu then adreno_7c3_build_bw_table bw_zero
      else if adreno_is_a660 gmu then a660_build_bw_table bw_zero
      else a6xx_build_bw_table bw_zero)"

definition a6xx_hfi_send_bw_table :: "firmware \<Rightarrow> a6xx_gmu \<Rightarrow> (int \<times> a6xx_gmu) option" where
  "a6xx_hfi_send_bw_table fw gmu = send fw HFI_H2F_MSG_BW_TABLE (bw_words (bw_table_of gmu)) gmu"

definition a6xx_hfi_send_test :: "firmware \<Rightarrow> a6xx_gmu \<Rightarrow> (int \<times> a6xx_gmu) option" where
  "a6xx_hfi_send_test fw gmu = send fw HFI_H2F_MSG_TEST [0] gmu"

definition a6xx_hfi_send_start :: "firmware \<Rightarrow> a6xx_gmu \<Rightarrow> (int \<times> a6xx_gmu) option" where
  "a6xx_hfi_send_start fw gmu = send fw HFI_H2F_MSG_START [0] gmu"

definition a6xx_hfi_send_core_fw_start :: "firmware \<Rightarrow> a6xx_gmu \<Rightarrow> (int \<times> a6xx_gmu) option" where
  "a6xx_hfi_send_core_fw_start fw gmu = send fw HFI_H2F_MSG_CORE_FW_START [0, 0] gmu"

definition a6xx_hfi_set_freq :: "firmware \<Rightarrow> u32 \<Rightarrow> a6xx_gmu \<Rightarrow> (int \<times> a6xx_gmu) option" where
  "a6xx_hfi_set_freq fw index gmu = send fw HFI_H2F_MSG_GX_BW_PERF_VOTE [0, 1, index, 0] gmu"

definition a6xx_hfi_send_prep_slumber :: "firmware \<Rightarrow> a6xx_gmu \<Rightarrow> (int \<times> a6xx_gmu) option" where
  "a6xx_hfi_send_prep_slumber fw gmu = send fw HFI_H2F_MSG_PREPARE_SLUMBER [0, 0, 0] gmu"

text \<open>The next step of a start sequence runs only after a return value of 0.\<close>

definition and_next :: "(int \<times> a6xx_gmu) option \<Rightarrow> (a6xx_gmu \<Rightarrow> (int \<times> a6xx_gmu) option) \<Rightarrow> (int \<times> a6xx_gmu) option" where
  "and_next r f = (case r of None \<Rightarrow> None | Some (ret, gmu) \<Rightarrow> if ret \<noteq> 0 then Some (ret, gmu) else f gmu)"

definition a6xx_hfi_start_v1 :: "firmware \<Rightarrow> u32 \<Rightarrow> a6xx_gmu \<Rightarrow> (int \<times> a6xx_gmu) option" where
  "a6xx_hfi_start_v1 fw boot_state gmu =
     and_next (a6xx_hfi_send_gmu_init fw boot_state gmu) (\<lambda>gmu.
     and_next (map_option (\<lambda>(ret, p, g). (ret, g)) (a6xx_hfi_get_fw_version fw None gmu)) (\<lambda>gmu.
     and_next (a6xx_hfi_send_perf_table_v1 fw gmu) (\<lambda>gmu.
     and_next (a6xx_hfi_send_bw_table fw gmu) (\<lambda>gmu.
       map_option (\<lambda>(ret, g). (0, g)) (a6xx_hfi_send_test fw gmu)))))"

definition a6xx_hfi_start :: "firmware \<Rightarrow> u32 \<Rightarrow> a6xx_gmu \<Rightarrow> (int \<times> a6xx_gmu) option" where
  "a6xx_hfi_start fw boot_state gmu =
     (if legacy gmu then a6xx_hfi_start_v1 fw boot_state gmu
      else and_next (a6xx_hfi_send_perf_table fw gmu) (\<lambda>gmu.
        and_next (a6xx_hfi_send_bw_table fw gmu) (\<lambda>gmu.
        and_next (a6xx_hfi_send_core_fw_start fw gmu) (\<lambda>gmu.
        and_next (a6xx_hfi_send_start fw gmu) (\<lambda>gmu. Some (0, gmu))))))"

definition stop_queue :: "a6xx_hfi_queue \<Rightarrow> a6xx_hfi_queue" where
  "stop_queue q = (case header q of
     None \<Rightarrow> q
   | Some h \<Rightarrow> q\<lparr>header := Some (h\<lparr>read_index := 0, write_index := 0\<rparr>),
       history := replicate HFI_HISTORY_SZ 0xffffffff, history_idx := 0\<rparr>)"

definition a6xx_hfi_stop :: "a6xx_gmu \<Rightarrow> a6xx_gmu" where
  "a6xx_hfi_stop gmu = gmu\<lparr>queue0 := stop_queue (queue0 gmu), queue1 := stop_queue (queue1 gmu)\<rparr>"

text \<open>The queue owns the 4 KiB of the buffer that start at \<open>offset\<close>.\<close>

definition SZ_4K :: u32 where "SZ_4K = 0x1000"

definition a6xx_hfi_queue_init :: "u32 list \<Rightarrow> u64 \<Rightarrow> u32 \<Rightarrow> a6xx_hfi_queue" where
  "a6xx_hfi_queue_init virt iova i = \<lparr>
     header = Some \<lparr>h_status = 1, h_iova = ucast iova, h_type = push_bit 8 10 OR i, h_size = drop_bit 2 SZ_4K,
       h_msg_size = 0, h_dropped = 0, h_rx_watermark = 1, h_tx_watermark = 1, h_rx_request = 1,
       h_tx_request = 0, read_index = 0, write_index = 0\<rparr>,
     q_data = virt, q_seqnum = 0, history = replicate HFI_HISTORY_SZ 0xffffffff, history_idx = 0\<rparr>"

text \<open>A table header has 6 dwords, a queue header 12.\<close>

definition a6xx_hfi_init :: "a6xx_gmu \<Rightarrow> a6xx_gmu" where
  "a6xx_hfi_init gmu = gmu\<lparr>
     hfi_table := \<lparr>tab_version = 0, tab_size = 6 * 4 + 2 * (12 * 4), qhdr0_offset = drop_bit 2 (6 * 4),
       qhdr_size = drop_bit 2 (12 * 4), num_queues = 2, active_queues = 2\<rparr>,
     queue0 := a6xx_hfi_queue_init (map (hfi_virt gmu) [1024..<2048]) (hfi_iova gmu + ucast SZ_4K) 0,
     queue1 := a6xx_hfi_queue_init (map (hfi_virt gmu) [2048..<3072]) (hfi_iova gmu + 2 * ucast SZ_4K)
       (if legacy gmu then 4 else 1)\<rparr>"

end
