(* ===== verification/HFI_Correct.thy ===== *)
theory HFI_Correct
  imports HFI
begin

text \<open>
  The rings of the host firmware interface implement queues of messages: an abstraction
  relation between a ring and the list of messages it holds, the contract of a queue
  (\<open>bounded_queue\<close>) and its interpretation, the loop that waits for an acknowledgement, and the
  messages of the driver.
\<close>

section \<open>Rings of 1024 dwords\<close>

fun ring_put :: "'a list \<Rightarrow> nat \<Rightarrow> 'a list \<Rightarrow> 'a list" where
  "ring_put d i [] = d"
| "ring_put d i (x # xs) = ring_put (d[i mod 1024 := x]) (Suc i) xs"

lemma length_ring_put [simp]: "length (ring_put d i xs) = length d"
  by (induction d i xs rule: ring_put.induct) auto

lemma ring_put_append: "ring_put d i (xs @ ys) = ring_put (ring_put d i xs) (i + length xs) ys"
  by (induction d i xs rule: ring_put.induct) auto

lemma ring_put_mod: "ring_put d (i mod 1024) xs = ring_put d i xs"
proof (induction xs arbitrary: d i)
  case (Cons x xs)
  have "ring_put d' (Suc (i mod 1024)) xs = ring_put d' (Suc i) xs" for d'
    using Cons.IH [of d' "Suc (i mod 1024)"] Cons.IH [of d' "Suc i"] by (simp add: mod_Suc_eq)
  then show ?case by simp
qed simp

lemma ring_neq:
  fixes i k :: nat
  assumes "0 < k" "k < 1024"
  shows "(i + k) mod 1024 \<noteq> i mod 1024"
proof
  assume "(i + k) mod 1024 = i mod 1024"
  then have "1024 dvd (i + k) - i" by (metis le_add1 mod_eq_dvd_iff_nat)
  then show False using assms by (auto dest: dvd_imp_le)
qed

lemma ring_put_other:
  "length xs \<le> k \<Longrightarrow> k < 1024 \<Longrightarrow> ring_put d i xs ! ((i + k) mod 1024) = d ! ((i + k) mod 1024)"
proof (induction d i xs arbitrary: k rule: ring_put.induct)
  case (2 d i x xs)
  then obtain k' where k: "k = Suc k'" by (cases k) auto
  have "ring_put (d[i mod 1024 := x]) (Suc i) xs ! ((Suc i + k') mod 1024)
      = d[i mod 1024 := x] ! ((Suc i + k') mod 1024)"
    using "2.IH" [of k'] "2.prems" k by simp
  also have "\<dots> = d ! ((i + k) mod 1024)"
    using ring_neq [of k i] "2.prems" k by simp
  finally show ?case by (simp add: k)
qed simp

lemma ring_put_nth:
  "k < length xs \<Longrightarrow> length xs \<le> 1024 \<Longrightarrow> length d = 1024 \<Longrightarrow> ring_put d i xs ! ((i + k) mod 1024) = xs ! k"
proof (induction d i xs arbitrary: k rule: ring_put.induct)
  case (2 d i x xs)
  show ?case
  proof (cases k)
    case 0
    have "ring_put (d[i mod 1024 := x]) (Suc i) xs ! ((Suc i + 1023) mod 1024)
        = d[i mod 1024 := x] ! ((Suc i + 1023) mod 1024)"
      by (rule ring_put_other) (use "2.prems" in auto)
    then show ?thesis using 0 "2.prems" by simp
  next
    case (Suc k')
    then show ?thesis using "2.IH" [of k'] "2.prems" by simp
  qed
qed simp

section \<open>The loops\<close>

lemma ring_inc:
  assumes "unat (i :: u32) < 1024"
  shows "(i + 1) mod 1024 = of_nat ((unat i + 1) mod 1024)" and "unat ((i + 1) mod 1024) = (unat i + 1) mod 1024"
proof -
  show u: "unat ((i + 1) mod 1024) = (unat i + 1) mod 1024"
    using unat_inc_mod_u32 [of i 1024] assms by simp
  have "(i + 1) mod 1024 = of_nat (unat ((i + 1) mod 1024))" by simp
  then show "(i + 1) mod 1024 = of_nat ((unat i + 1) mod 1024)" unfolding u .
qed

lemma copy_out_ring:
  "length d = 1024 \<Longrightarrow> unat i < 1024 \<Longrightarrow>
   copy_out d 1024 n i = Some (map (\<lambda>k. d ! ((unat i + k) mod 1024)) [0..<n], of_nat ((unat i + n) mod 1024))"
proof (induction n arbitrary: i)
  case 0
  then show ?case by simp
next
  case (Suc n)
  have m: "unat ((i + 1) mod 1024) < 1024" using ring_inc(2) [OF Suc.prems(2)] by simp
  have "map (\<lambda>k. d ! ((unat i + k) mod 1024)) [0..<Suc n]
      = d ! unat i # map (\<lambda>k. d ! ((unat ((i + 1) mod 1024) + k) mod 1024)) [0..<n]"
    unfolding ring_inc(2) [OF Suc.prems(2)] using Suc.prems(2)
    by (simp add: upt_conv_Cons map_Suc_upt [symmetric] mod_simps del: upt_Suc)
  moreover have "(unat ((i + 1) mod 1024) + n) mod 1024 = (unat i + Suc n) mod 1024"
    unfolding ring_inc(2) [OF Suc.prems(2)] by (simp add: mod_simps)
  ultimately show ?case
    using Suc.IH [OF Suc.prems(1) m] Suc.prems by (simp add: arr_get_def)
qed

lemma copy_in_ring:
  "length d = 1024 \<Longrightarrow> unat i < 1024 \<Longrightarrow>
   copy_in d 1024 xs i = Some (ring_put d (unat i) xs, of_nat ((unat i + length xs) mod 1024))"
proof (induction xs arbitrary: d i)
  case (Cons x xs)
  note inc = ring_inc(2) [OF Cons.prems(2)]
  have m: "unat ((i + 1) mod 1024) < 1024" using inc by simp
  have "ring_put d' (unat ((i + 1) mod 1024)) xs = ring_put d' (Suc (unat i)) xs" for d'
    unfolding inc using ring_put_mod [of d' "unat i + 1"] by simp
  moreover have "(unat ((i + 1) mod 1024) + length xs) mod 1024 = (unat i + length (x # xs)) mod 1024"
    unfolding inc by (simp add: mod_simps)
  ultimately show ?case
    using Cons.IH [OF _ m] Cons.prems by (simp add: arr_set_def)
qed simp

definition padding :: "nat \<Rightarrow> nat" where
  "padding n = (4 - n mod 4) mod 4"

lemma padding_Suc:
  assumes "n mod 4 \<noteq> 0"
  shows "padding n = Suc (padding (Suc n))"
  by (cases rule: mod4_cases [OF assms]) (simp_all add: padding_def mod_Suc)

lemma padding_mod_1024: "padding (n mod 1024) = padding n"
  by (simp add: padding_def mod_mod_cancel)

lemma cookify_ring:
  "length d = 1024 \<Longrightarrow> unat i < 1024 \<Longrightarrow>
   cookify d 1024 i = Some (ring_put d (unat i) (replicate (padding (unat i)) HFI_COOKIE),
     of_nat ((unat i + padding (unat i)) mod 1024))"
proof (induction "padding (unat i)" arbitrary: d i)
  case 0
  have "unat i mod 4 = 0" using padding_Suc [of "unat i"] 0(1) by linarith
  then have "i mod 4 = 0" by (simp add: mod_4_u32)
  then show ?case using 0 by (simp add: cookify.simps)
next
  case (Suc p)
  have n4: "unat i mod 4 \<noteq> 0"
  proof
    assume "unat i mod 4 = 0"
    then show False using Suc.hyps(2) by (simp add: padding_def)
  qed
  then have i4: "i mod 4 \<noteq> 0" by (simp add: mod_4_u32)
  note inc = ring_inc(2) [OF Suc.prems(2)]
  have m: "unat ((i + 1) mod 1024) < 1024" using inc by simp
  have p: "p = padding (unat ((i + 1) mod 1024))"
    unfolding inc padding_mod_1024 using padding_Suc [OF n4] Suc.hyps(2) by simp
  have "ring_put d' (unat ((i + 1) mod 1024)) xs = ring_put d' (Suc (unat i)) xs" for d' and xs :: "u32 list"
    unfolding inc using ring_put_mod [of d' "unat i + 1"] by simp
  moreover have "(unat ((i + 1) mod 1024) + p) mod 1024 = (unat i + Suc p) mod 1024"
    unfolding inc by (simp add: mod_simps)
  ultimately show ?case
    using Suc.hyps(1) [OF p _ m, of "d[unat i := HFI_COOKIE]"] Suc.prems i4 p Suc.hyps(2) [symmetric]
    by (subst cookify.simps) (simp add: arr_set_def)
qed

section \<open>The messages in a ring\<close>

text \<open>A message takes its length, in groups of four dwords on the newer firmware.\<close>

definition foot :: "bool \<Rightarrow> nat \<Rightarrow> nat" where
  "foot leg n = (if leg then n else n + padding n)"

definition used :: "bool \<Rightarrow> u32 list list \<Rightarrow> nat" where
  "used leg ms = sum_list (map (\<lambda>m. foot leg (length m)) ms)"

definition framed :: "u32 list \<Rightarrow> bool" where
  "framed m \<longleftrightarrow> m \<noteq> [] \<and> unat (HFI_HEADER_SIZE (hd m)) = length m"

fun stored :: "bool \<Rightarrow> u32 list \<Rightarrow> nat \<Rightarrow> u32 list list \<Rightarrow> bool" where
  "stored leg d i [] \<longleftrightarrow> True"
| "stored leg d i (m # ms) \<longleftrightarrow> (\<forall>k<length m. d ! ((i + k) mod 1024) = m ! k) \<and> stored leg d (i + foot leg (length m)) ms"

definition hfi_holds :: "bool \<Rightarrow> u32 \<Rightarrow> a6xx_hfi_queue \<Rightarrow> u32 list list \<Rightarrow> bool" where
  "hfi_holds leg dw q ms \<longleftrightarrow> (case header q of None \<Rightarrow> False | Some h \<Rightarrow>
     h_size h = 1024 \<and> length (q_data q) = 1024 \<and> unat (read_index h) < 1024 \<and>
     (leg \<or> unat (read_index h) mod 4 = 0) \<and> (\<forall>m\<in>set ms. framed m \<and> length m \<le> unat dw) \<and>
     used leg ms < 1024 \<and> unat (write_index h) = (unat (read_index h) + used leg ms) mod 1024 \<and>
     stored leg (q_data q) (unat (read_index h)) ms)"

lemma used_simps [simp]:
  "used leg [] = 0" "used leg (m # ms) = foot leg (length m) + used leg ms"
  "used leg (ms @ ns) = used leg ms + used leg ns"
  by (simp_all add: used_def)

lemma foot_ge: "n \<le> foot leg n"
  by (simp add: foot_def)

lemma foot_le: "foot leg n \<le> n + 3"
proof -
  have "padding n < 4" by (simp add: padding_def)
  then show ?thesis by (simp add: foot_def)
qed

lemma mod4_foot: "foot False n mod 4 = 0"
proof (cases "n mod 4 = 0")
  case False
  then show ?thesis
    by (cases rule: mod4_cases) (simp_all add: foot_def padding_def mod_Suc mod_add_left_eq [of n 4 3, symmetric])
qed (simp add: foot_def padding_def)

lemma mod4_used: "used False ms mod 4 = 0"
  by (induction ms) (simp_all add: mod4_foot mod_add_eq [symmetric])

lemma stored_mod: "stored leg d (i mod 1024) ms = stored leg d i ms"
proof (induction ms arbitrary: i)
  case (Cons m ms)
  have "stored leg d (i mod 1024 + n) ms = stored leg d (i + n) ms" for n
    using Cons.IH [of "i mod 1024 + n"] Cons.IH [of "i + n"] by (simp add: mod_simps)
  then show ?case by (simp add: mod_simps)
qed simp

lemma stored_append: "stored leg d i (ms @ ns) \<longleftrightarrow> stored leg d i ms \<and> stored leg d (i + used leg ms) ns"
  by (induction ms arbitrary: i) (auto simp: add.assoc)

text \<open>Writing beyond the messages stored keeps them.\<close>

lemma stored_ring_put:
  assumes "stored leg d i ms" and "used leg ms + length xs \<le> 1024" and "n \<le> used leg ms" and "j = i + used leg ms"
  shows "stored leg (ring_put d j xs) i ms"
  using assms(1,2,4)
proof (induction ms arbitrary: i)
  case (Cons m ms)
  have "ring_put d j xs ! ((i + k) mod 1024) = m ! k" if k: "k < length m" for k
  proof -
    let ?u = "used leg (m # ms)"
    have ku: "k < ?u" using k foot_ge [of "length m" leg] by simp
    then have e: "(i + k) mod 1024 = (j + (1024 - ?u + k)) mod 1024"
      using Cons.prems(2,3) mod_add_self2 [of "i + k" 1024] by (simp add: algebra_simps)
    show ?thesis
    proof (cases "xs = []")
      case False
      then have "ring_put d j xs ! ((j + (1024 - ?u + k)) mod 1024) = d ! ((j + (1024 - ?u + k)) mod 1024)"
        by (intro ring_put_other) (use Cons.prems(2) ku in auto)
      then show ?thesis unfolding e [symmetric] using Cons.prems(1) k by simp
    qed (use Cons.prems(1) k in simp)
  qed
  moreover have "stored leg (ring_put d j xs) (i + foot leg (length m)) ms"
    using Cons.IH [of "i + foot leg (length m)"] Cons.prems by simp
  ultimately show ?case by simp
qed simp

section \<open>Reading and writing\<close>

lemma unat_of_nat_1024: "unat (of_nat (n mod 1024) :: u32) = n mod 1024"
  by (simp add: unat_of_nat take_bit_eq_mod mod_mod_trivial mod_less_divisor less_trans [of _ 1024])

lemma CIRC_SPACE_1024:
  assumes "unat r < 1024" and "u < 1024" and "unat w = (unat r + u) mod 1024"
  shows "unat (CIRC_SPACE w r 1024) = 1023 - u"
proof -
  have w: "unat w < 1024" using assms(3) by simp
  have "CIRC_SPACE w r 1024 = take_bit 10 (r - (w + 1))"
    by (simp add: CIRC_SPACE_def CIRC_CNT_def take_bit_eq_mask mask_eq_exp_minus_1)
  then have "unat (CIRC_SPACE w r 1024) = unat (r - (w + 1)) mod 1024"
    by (simp add: unsigned_take_bit_eq take_bit_nat_def)
  also have "r - (w + 1) = of_nat (unat r + 4294967296 - Suc (unat w))"
    using w by (simp add: of_nat_diff)
  also have "unat \<dots> mod 1024 = (unat r + 4294967296 - Suc (unat w)) mod 1024"
    by (simp add: unat_of_nat take_bit_eq_mod mod_mod_cancel)
  also have "\<dots> = (unat r + 1023 - unat w) mod 1024"
    using w mod_mult_self2 [of "unat r + 1023 - unat w" 1024 4194303] by (simp add: algebra_simps)
  also have "\<dots> = 1023 - u"
  proof (cases "unat r + u < 1024")
    case True
    then show ?thesis using assms by simp
  next
    case False
    then have "unat w = unat r + u - 1024" using assms by (simp add: le_mod_geq)
    then have "unat r + 1023 - unat w = 1024 + (1023 - u)" using False assms(2) by simp
    then show ?thesis by (simp only: mod_add_self1) simp
  qed
  finally show ?thesis .
qed

lemma padding_aligned: "w mod 4 = 0 \<Longrightarrow> padding (w + n) = padding n"
  by (simp add: padding_def mod_add_left_eq [of w 4 n, symmetric] mod_mod_cancel)

text \<open>A write that passes the check for space puts the message, and fills its last group.\<close>

lemma write_ok:
  assumes "header q = Some h" and "h_size h = 1024" and "length (q_data q) = 1024"
    and "unat (read_index h) < 1024" and "leg \<or> unat (read_index h) mod 4 = 0"
    and "unat (write_index h) = (unat (read_index h) + used leg ms) mod 1024"
    and "used leg ms + length m < 1024"
  shows "a6xx_hfi_queue_write leg q m = Some (0, add_history (write_index h) q\<lparr>
     q_data := ring_put (q_data q) (unat (read_index h) + used leg ms)
       (m @ replicate (foot leg (length m) - length m) HFI_COOKIE),
     header := Some (h\<lparr>write_index := of_nat ((unat (read_index h) + used leg ms + foot leg (length m)) mod 1024)\<rparr>)\<rparr>)"
proof -
  let ?w = "unat (write_index h)" and ?u = "unat (read_index h) + used leg ms"
  have w: "?w < 1024" using assms(6) by simp
  have u: "used leg ms < 1024" using assms(7) by simp
  have "\<not> CIRC_SPACE (write_index h) (read_index h) 1024 < of_nat (length m)"
    using CIRC_SPACE_1024 [OF assms(4) u assms(6)] assms(7)
    by (simp add: word_less_nat_alt unat_of_nat take_bit_nat_eq_self)
  moreover have "copy_in (q_data q) 1024 m (write_index h)
      = Some (ring_put (q_data q) ?u m, of_nat ((?u + length m) mod 1024))"
    using copy_in_ring [OF assms(3) w, of m] ring_put_mod [of "q_data q" ?u m]
    unfolding assms(6) by (simp add: mod_simps)
  moreover have "cookify (ring_put (q_data q) ?u m) 1024 (of_nat ((?u + length m) mod 1024))
      = Some (ring_put (q_data q) ?u (m @ replicate (padding (length m)) HFI_COOKIE),
          of_nat ((?u + foot leg (length m)) mod 1024))" if "\<not> leg"
  proof -
    have "?u mod 4 = 0" using assms(5) that mod4_used [of ms] by (simp add: mod_add_eq [symmetric])
    then have p: "padding ((?u + length m) mod 1024) = padding (length m)"
      by (simp add: padding_mod_1024 padding_aligned)
    show ?thesis
      using cookify_ring [of "ring_put (q_data q) ?u m" "of_nat ((?u + length m) mod 1024)"] assms(3) that
      unfolding unat_of_nat_1024 p ring_put_append
      by (simp add: ring_put_mod foot_def mod_simps add.assoc)
  qed
  ultimately show ?thesis using assms(1-3)
    by (cases leg) (simp_all add: a6xx_hfi_queue_write_def foot_def)
qed

lemma write_full:
  assumes "hfi_holds leg dw q ms" and "1024 \<le> used leg ms + length m" and "length m < 1024"
  shows "\<exists>q'. a6xx_hfi_queue_write leg q m = Some (- ENOSPC, q') \<and> hfi_holds leg dw q' ms"
proof -
  from assms(1) obtain h where h: "header q = Some h" "h_size h = 1024" "unat (read_index h) < 1024"
      "used leg ms < 1024" "unat (write_index h) = (unat (read_index h) + used leg ms) mod 1024"
    by (auto simp: hfi_holds_def split: option.splits)
  have "CIRC_SPACE (write_index h) (read_index h) 1024 < of_nat (length m)"
    using CIRC_SPACE_1024 [OF h(3-5)] assms(2,3) h(4)
    by (simp add: word_less_nat_alt unat_of_nat take_bit_nat_eq_self)
  then show ?thesis using h(1,2) assms(1) by (simp add: a6xx_hfi_queue_write_def hfi_holds_def)
qed

lemma write_room:
  assumes "hfi_holds leg dw q ms" and "framed m" and "length m \<le> unat dw" and "used leg (ms @ [m]) < 1024"
  shows "\<exists>q'. a6xx_hfi_queue_write leg q m = Some (0, q') \<and> hfi_holds leg dw q' (ms @ [m])"
proof -
  from assms(1) obtain h where h: "header q = Some h" "h_size h = 1024" "length (q_data q) = 1024"
      "unat (read_index h) < 1024" "leg \<or> unat (read_index h) mod 4 = 0"
      "unat (write_index h) = (unat (read_index h) + used leg ms) mod 1024"
      "stored leg (q_data q) (unat (read_index h)) ms" "\<forall>m\<in>set ms. framed m \<and> length m \<le> unat dw"
    by (auto simp: hfi_holds_def split: option.splits)
  let ?u = "unat (read_index h) + used leg ms"
  let ?xs = "m @ replicate (foot leg (length m) - length m) HFI_COOKIE"
  have xs: "length ?xs = foot leg (length m)" using foot_ge [of "length m" leg] by simp
  have len: "used leg ms + length m < 1024" using assms(4) foot_ge [of "length m" leg] by simp
  have "stored leg (ring_put (q_data q) ?u ?xs) (unat (read_index h)) ms"
    by (rule stored_ring_put [OF h(7), of _ 0]) (use assms(4) xs in auto)
  moreover have "ring_put (q_data q) ?u ?xs ! ((?u + k) mod 1024) = m ! k" if "k < length m" for k
    using ring_put_nth [of k ?xs "q_data q" ?u] that xs h(3) assms(4) by (simp add: nth_append)
  ultimately have "stored leg (ring_put (q_data q) ?u ?xs) (unat (read_index h)) (ms @ [m])"
    by (simp add: stored_append)
  then show ?thesis using write_ok [OF h(1-6) len] assms(2-4) h
    by (simp add: hfi_holds_def unat_of_nat_1024 add.assoc add_history_def)
qed

lemma ALIGN4_unat:
  assumes "unat x < 1024"
  shows "unat (ALIGN4 x) = unat x + padding (unat x)"
proof -
  have "ALIGN4 x = (x + 3) AND NOT (mask 2)" by (simp add: ALIGN4_def mask_eq_exp_minus_1)
  also have "\<dots> = (x + 3) - take_bit 2 (x + 3)"
    by (subst disjunctive_diff_eq_and_not) (auto intro!: bit_word_eqI simp: bit_simps)
  finally have "unat (ALIGN4 x) = unat (x + 3) - unat (x + 3) mod 4"
    by (simp add: unat_sub_if' word_le_nat_alt unsigned_take_bit_eq take_bit_nat_def)
  moreover have "unat (x + 3) = unat x + 3" using assms by (simp add: unat_word_ariths)
  moreover have "n + 3 - (n + 3) mod 4 = n + padding n" for n :: nat
  proof (cases "n mod 4 = 0")
    case True
    then show ?thesis by (simp add: padding_def mod_add_left_eq [of n 4 3, symmetric])
  next
    case False
    then show ?thesis
      by (cases rule: mod4_cases) (simp_all add: padding_def mod_add_left_eq [of n 4 3, symmetric])
  qed
  ultimately show ?thesis by simp
qed

lemma read_first:
  assumes "hfi_holds leg dw q (m # ms)"
  shows "\<exists>q'. a6xx_hfi_queue_read leg q dw = Some (of_nat (length m), m, q') \<and> hfi_holds leg dw q' ms"
proof -
  from assms obtain h where h: "header q = Some h" "h_size h = 1024" "length (q_data q) = 1024"
      "unat (read_index h) < 1024" "leg \<or> unat (read_index h) mod 4 = 0"
      "unat (write_index h) = (unat (read_index h) + used leg (m # ms)) mod 1024"
      "stored leg (q_data q) (unat (read_index h)) (m # ms)" "framed m" "length m \<le> unat dw" "used leg (m # ms) < 1024"
    by (auto simp: hfi_holds_def split: option.splits)
  let ?r = "unat (read_index h)" and ?f = "foot leg (length m)"
  have m: "m \<noteq> []" "HFI_HEADER_SIZE (hd m) = of_nat (length m)" "unat (HFI_HEADER_SIZE (hd m)) = length m"
    using h(8) by (auto simp: framed_def dest: arg_cong [of _ _ "of_nat :: nat \<Rightarrow> u32"])
  have "0 < used leg (m # ms)" using m(1) foot_ge [of "length m" leg] by (cases m) auto
  then have "write_index h \<noteq> read_index h" using ring_neq [OF _ h(10), of ?r] h(4,6) by auto
  moreover have "q_data q ! ?r = hd m" using h(4,7) m(1) by (auto simp: hd_conv_nth dest: spec [of _ 0])
  moreover have "map (\<lambda>k. q_data q ! ((?r + k) mod 1024)) [0..<length m] = m"
    using h(7) by (auto intro: nth_equalityI)
  then have "copy_out (q_data q) 1024 (length m) (read_index h) = Some (m, of_nat ((?r + length m) mod 1024))"
    using copy_out_ring [OF h(3,4)] by simp
  moreover have "ALIGN4 (of_nat ((?r + length m) mod 1024)) mod 1024 = (of_nat ((?r + ?f) mod 1024) :: u32)" if "\<not> leg"
  proof -
    have "padding ((?r + length m) mod 1024) = padding (length m)"
      using h(5) that by (simp add: padding_mod_1024 padding_aligned)
    then have "unat (ALIGN4 (of_nat ((?r + length m) mod 1024)) mod 1024) = (?r + ?f) mod 1024"
      using that by (simp add: unat_mod_distrib ALIGN4_unat unat_of_nat_1024 foot_def mod_simps add.assoc)
    then show ?thesis by (metis of_nat_unat ucast_id)
  qed
  moreover have "\<not> dw < HFI_HEADER_SIZE (hd m)" using h(9) m(3) by (simp add: word_less_nat_alt)
  ultimately have read: "a6xx_hfi_queue_read leg q dw = Some (of_nat (length m), m,
      add_history (read_index h) q\<lparr>header := Some (h\<lparr>read_index := of_nat ((?r + ?f) mod 1024)\<rparr>)\<rparr>)"
    using h(1-4) m by (cases leg) (simp_all add: a6xx_hfi_queue_read_def arr_get_def foot_def)
  have "(leg \<or> (?r + ?f) mod 1024 mod 4 = 0)"
    using h(5) mod4_foot [of "length m"] mod_add_eq [of ?r 4 ?f] by (cases leg) (simp_all add: mod_mod_cancel)
  then show ?thesis using read assms h
    by (auto simp: hfi_holds_def add_history_def unat_of_nat_1024 stored_mod mod_simps add.assoc)
qed

lemma read_empty:
  assumes "hfi_holds leg dw q []"
  shows "\<exists>q'. a6xx_hfi_queue_read leg q dw' = Some (0, [], q') \<and> hfi_holds leg dw q' []"
proof -
  from assms obtain h where h: "header q = Some h" "unat (write_index h) = unat (read_index h)"
    by (auto simp: hfi_holds_def split: option.splits)
  then have "write_index h = read_index h" by (simp add: word_unat_eq_iff)
  then show ?thesis using h(1) assms by (simp add: a6xx_hfi_queue_read_def hfi_holds_def)
qed

section \<open>The queue contract\<close>

lemma header_bits:
  "HFI_HEADER_ID x = take_bit 8 x" "HFI_HEADER_SIZE x = take_bit 8 (drop_bit 8 x)"
  "HFI_HEADER_SEQNUM x = take_bit 12 (drop_bit 20 x)"
  by (simp_all add: HFI_HEADER_ID_def HFI_HEADER_SIZE_def HFI_HEADER_SEQNUM_def take_bit_eq_mask mask_eq_exp_minus_1)

text \<open>
  Between the two checks: the dwords fit, the cookies behind them do not.  Then the message with its
  cookies fills the ring to its last dword, the indexes meet, and the ring holds nothing.
\<close>

lemma exact_fill:
  assumes "used leg ms + length m < 1024" and "\<not> used leg (ms @ [m]) < 1024"
  shows "\<not> leg" and "used leg (ms @ [m]) = 1024"
proof -
  show l: "\<not> leg" using assms by (auto simp: foot_def)
  have "used leg (ms @ [m]) mod 4 = 0" using l mod4_used [of "ms @ [m]"] by simp
  moreover have "used leg (ms @ [m]) < 1028" using assms(1) foot_le [of leg "length m"] by simp
  ultimately show "used leg (ms @ [m]) = 1024" using assms(2) by presburger
qed

lemma write_exact:
  assumes "hfi_holds leg dw q ms" and "used leg ms + length m < 1024" and "\<not> used leg (ms @ [m]) < 1024"
  shows "\<exists>q'. a6xx_hfi_queue_write leg q m = Some (0, q') \<and> hfi_holds leg dw q' []"
proof -
  from assms(1) obtain h where h: "header q = Some h" "h_size h = 1024" "length (q_data q) = 1024"
      "unat (read_index h) < 1024" "leg \<or> unat (read_index h) mod 4 = 0"
      "unat (write_index h) = (unat (read_index h) + used leg ms) mod 1024"
    by (auto simp: hfi_holds_def split: option.splits)
  have e: "(unat (read_index h) + used leg ms + foot leg (length m)) mod 1024 = unat (read_index h)"
    using exact_fill(2) [OF assms(2,3)] h(4) by (simp add: add.assoc)
  show ?thesis using write_ok [OF h assms(2)] h(1-5)
    by (simp add: hfi_holds_def e)
qed

definition hfi_enq :: "bool \<Rightarrow> u32 list \<Rightarrow> a6xx_hfi_queue \<Rightarrow> (bool \<times> a6xx_hfi_queue) option" where
  "hfi_enq leg m q = map_option (apfst (\<lambda>ret. ret = 0)) (a6xx_hfi_queue_write leg q m)"

definition hfi_deq :: "bool \<Rightarrow> u32 \<Rightarrow> a6xx_hfi_queue \<Rightarrow> (u32 list option \<times> a6xx_hfi_queue) option" where
  "hfi_deq leg dw q = map_option (\<lambda>(ret, m, q'). (if ret = 0 then None else Some m, q')) (a6xx_hfi_queue_read leg q dw)"

definition hfi_room :: "bool \<Rightarrow> u32 list list \<Rightarrow> u32 list \<Rightarrow> bool" where
  "hfi_room leg ms m \<longleftrightarrow> used leg (ms @ [m]) < 1024"

definition hfi_full :: "bool \<Rightarrow> u32 list list \<Rightarrow> u32 list \<Rightarrow> bool" where
  "hfi_full leg ms m \<longleftrightarrow> 1024 \<le> used leg ms + length m"

lemma hfi_cases: "hfi_room leg ms m \<or> hfi_full leg ms m \<or> (\<not> leg \<and> used False (ms @ [m]) = 1024)"
proof (cases "hfi_room leg ms m \<or> hfi_full leg ms m")
  case False
  then have "used leg ms + length m < 1024" "\<not> used leg (ms @ [m]) < 1024"
    by (simp_all add: hfi_room_def hfi_full_def)
  from exact_fill [OF this] show ?thesis by simp
qed blast

lemma framed_length: "framed m \<Longrightarrow> 0 < length m \<and> length m < 256"
proof -
  assume f: "framed m"
  have "unat (HFI_HEADER_SIZE (hd m)) < 256"
    by (simp add: header_bits unsigned_take_bit_eq take_bit_nat_def)
  with f show ?thesis by (simp add: framed_def)
qed

interpretation hfi: bounded_queue "hfi_holds leg dw" "hfi_enq leg" "hfi_deq leg dw"
  "\<lambda>m. framed m \<and> length m \<le> unat dw" "hfi_room leg" "hfi_full leg" for leg dw
proof
  fix q ms m
  assume q: "hfi_holds leg dw q ms" and m: "framed m \<and> length m \<le> unat dw"
  { assume "hfi_room leg ms m"
    with q m write_room show "\<exists>q'. hfi_enq leg m q = Some (True, q') \<and> hfi_holds leg dw q' (ms @ [m])"
      by (fastforce simp: hfi_enq_def hfi_room_def) }
  { assume "\<not> hfi_full leg ms m" "\<not> hfi_room leg ms m"
    with q m write_exact show "\<exists>q'. hfi_enq leg m q = Some (True, q') \<and> hfi_holds leg dw q' []"
      by (fastforce simp: hfi_enq_def hfi_room_def hfi_full_def) }
  { assume "hfi_full leg ms m"
    with q m write_full framed_length show "\<exists>q'. hfi_enq leg m q = Some (False, q') \<and> hfi_holds leg dw q' ms"
      by (fastforce simp: hfi_enq_def hfi_full_def) }
next
  fix q
  assume "hfi_holds leg dw q []"
  with read_empty show "\<exists>q'. hfi_deq leg dw q = Some (None, q') \<and> hfi_holds leg dw q' []"
    by (fastforce simp: hfi_deq_def)
next
  fix q m ms
  assume q: "hfi_holds leg dw q (m # ms)"
  then have "framed m" by (simp add: hfi_holds_def split: option.splits)
  then have "(of_nat (length m) :: u32) \<noteq> 0" using framed_length [of m]
    by (auto simp: word_unat_eq_iff unat_of_nat take_bit_nat_eq_self)
  with read_first [OF q] show "\<exists>q'. hfi_deq leg dw q = Some (Some m, q') \<and> hfi_holds leg dw q' ms"
    by (auto simp: hfi_deq_def)
qed

lemma hfi_init_holds:
  "hfi_holds (legacy gmu) dw (queue0 (a6xx_hfi_init gmu)) []"
  "hfi_holds (legacy gmu) dw (queue1 (a6xx_hfi_init gmu)) []"
  by (simp_all add: hfi_holds_def a6xx_hfi_init_def a6xx_hfi_queue_init_def SZ_4K_def drop_bit_eq_div del: upt_rec_numeral)

section \<open>Waiting for an acknowledgement\<close>

text \<open>What the driver makes of the messages on the response queue, oldest first.\<close>

fun ack_spec :: "u32 \<Rightarrow> (nat \<Rightarrow> u32 list) \<Rightarrow> nat \<Rightarrow> u32 list list \<Rightarrow> int \<times> u32 list option \<times> u32 list list" where
  "ack_spec seqnum stk k [] = (- ENOENT, None, [])"
| "ack_spec seqnum stk k (m # ms) =
     (let resp = read_response m (stk k) in
      if HFI_HEADER_ID (resp ! 0) = HFI_F2H_MSG_ERROR \<or> HFI_HEADER_SEQNUM (resp ! 1) \<noteq> seqnum
      then ack_spec seqnum stk (Suc k) ms
      else if resp ! 2 \<noteq> 0 then (- EINVAL, None, ms) else (0, Some resp, ms))"

lemma ack_loop_spec:
  "hfi_holds leg 19 q ms \<Longrightarrow> ack_spec seqnum stk k ms = (ret, resp, ms') \<Longrightarrow>
   \<exists>q'. ack_loop leg seqnum stk k q = Some (ret, resp, q') \<and> hfi_holds leg 19 q' ms'"
proof (induction ms arbitrary: k q)
  case Nil
  then show ?case using read_empty [OF Nil(1), of 19] by (auto simp: ack_loop.simps [of leg seqnum stk k q])
next
  case (Cons m ms)
  obtain q1 where q1: "a6xx_hfi_queue_read leg q 19 = Some (of_nat (length m), m, q1)" "hfi_holds leg 19 q1 ms"
    using read_first [OF Cons.prems(1)] by blast
  have "framed m" using Cons.prems(1) by (simp add: hfi_holds_def split: option.splits)
  then have nz: "(of_nat (length m) :: u32) \<noteq> 0" using framed_length [of m]
    by (auto simp: word_unat_eq_iff unat_of_nat take_bit_nat_eq_self)
  show ?case
    using Cons.IH [OF q1(2), of "Suc k"] Cons.prems(2) q1 nz
    by (subst ack_loop.simps) (auto simp: Let_def split: if_splits)
qed

text \<open>The first response that answers a request, and what is left after it.\<close>

definition answers :: "u32 \<Rightarrow> u32 list \<Rightarrow> bool" where
  "answers seqnum m \<longleftrightarrow> HFI_HEADER_ID (m ! 0) \<noteq> HFI_F2H_MSG_ERROR \<and> HFI_HEADER_SEQNUM (m ! 1) = seqnum"

definition ack_result :: "u32 \<Rightarrow> u32 list list \<Rightarrow> int" where
  "ack_result seqnum ms = (case find (answers seqnum) ms of
     None \<Rightarrow> - ENOENT | Some m \<Rightarrow> if m ! 2 \<noteq> 0 then - EINVAL else 0)"

definition ack_rest :: "u32 \<Rightarrow> u32 list list \<Rightarrow> u32 list list" where
  "ack_rest seqnum ms = tl (dropWhile (\<lambda>m. \<not> answers seqnum m) ms)"

lemma ack_spec_find:
  "\<forall>m\<in>set ms. 3 \<le> length m \<Longrightarrow>
   \<exists>resp. ack_spec seqnum stk k ms = (ack_result seqnum ms, resp, ack_rest seqnum ms)"
proof (induction ms arbitrary: k)
  case (Cons m ms)
  then show ?case using Cons.IH [of "Suc k"]
    by (auto simp: ack_result_def ack_rest_def answers_def read_response_def Let_def nth_append)
qed (simp add: ack_result_def ack_rest_def)

section \<open>Headers\<close>

lemma header_fields:
  assumes "unat seqnum < 4096" and "unat n < 256" and "unat i < 256"
  shows "HFI_HEADER_ID (msg_header seqnum n i) = i" and "HFI_HEADER_SIZE (msg_header seqnum n i) = n"
    and "HFI_HEADER_SEQNUM (msg_header seqnum n i) = seqnum"
proof -
  have t: "take_bit 12 seqnum = seqnum" "take_bit 8 n = n" "take_bit 8 i = i"
    using assms by (simp_all add: word_unat_eq_iff unsigned_take_bit_eq take_bit_nat_eq_self)
  have b: "bit i k \<Longrightarrow> k < 8" "bit n k \<Longrightarrow> k < 8" "bit seqnum k \<Longrightarrow> k < 12" for k
    using t by (metis bit_take_bit_iff)+
  note bits = header_bits msg_header_def HFI_MSG_CMD_def bit_simps
  show "HFI_HEADER_ID (msg_header seqnum n i) = i"
    by (rule bit_word_eqI) (auto simp: bits dest: b)
  show "HFI_HEADER_SIZE (msg_header seqnum n i) = n"
    by (rule bit_word_eqI) (auto simp: bits dest: b)
  show "HFI_HEADER_SEQNUM (msg_header seqnum n i) = seqnum"
    by (rule bit_word_eqI) (auto simp: bits dest: b)
qed

definition next_seqnum :: "a6xx_gmu \<Rightarrow> u32" where
  "next_seqnum gmu = c_u32 (c_int (q_seqnum (queue0 gmu) + 1) smod 0xfff)"

lemma next_seqnum_less:
  assumes "0 \<le> c_int (q_seqnum (queue0 gmu) + 1)"
  shows "unat (next_seqnum gmu) < 4095"
proof -
  let ?x = "c_int (q_seqnum (queue0 gmu) + 1)"
  have "?x smod 0xfff = ?x mod 0xfff" using assms by (cases "?x = 0") (simp_all add: signed_modulo_int_def signed_divide_int_def sgn_if minus_div_mult_eq_mod)
  moreover have "0 \<le> ?x mod 0xfff" "?x mod 0xfff < 0xfff" by simp_all
  ultimately show ?thesis
    by (simp add: next_seqnum_def c_u32_def unat_eq_nat_uint uint_word_of_int_eq take_bit_int_eq_self)
qed

text \<open>What a send puts on the command queue, and the call that waits for the answer.\<close>

definition msg_of :: "a6xx_gmu \<Rightarrow> u32 \<Rightarrow> u32 list \<Rightarrow> u32 list" where
  "msg_of gmu i data = data[0 := msg_header (next_seqnum gmu) (of_nat (length data)) i]"

lemma msg_of_fields:
  assumes "0 \<le> c_int (q_seqnum (queue0 gmu) + 1)" and "data \<noteq> []" and "length data < 256" and "unat i < 256"
  shows "framed (msg_of gmu i data)" and "HFI_HEADER_ID (hd (msg_of gmu i data)) = i"
    and "HFI_HEADER_SEQNUM (hd (msg_of gmu i data)) = next_seqnum gmu" and "tl (msg_of gmu i data) = tl data"
    and "length (msg_of gmu i data) = length data"
proof -
  have len: "unat (of_nat (length data) :: u32) = length data"
    using assms(3) by (simp add: unat_of_nat take_bit_nat_eq_self)
  have hd: "hd (msg_of gmu i data) = msg_header (next_seqnum gmu) (of_nat (length data)) i"
    using assms(2) by (cases data) (simp_all add: msg_of_def)
  have "unat (next_seqnum gmu) < 4096" using next_seqnum_less [OF assms(1)] by simp
  note hf = header_fields [OF this, of "of_nat (length data)", unfolded len, OF assms(3,4)]
  show "HFI_HEADER_ID (hd (msg_of gmu i data)) = i" and "HFI_HEADER_SEQNUM (hd (msg_of gmu i data)) = next_seqnum gmu"
    using hf hd by simp_all
  show "framed (msg_of gmu i data)"
    using hf(2) hd len assms(2) by (simp add: framed_def) (simp add: msg_of_def)
  show "tl (msg_of gmu i data) = tl data" "length (msg_of gmu i data) = length data"
    by (cases data; simp add: msg_of_def)+
qed

lemma hfi_holds_seqnum [simp]: "hfi_holds leg dw (q\<lparr>q_seqnum := s\<rparr>) ms = hfi_holds leg dw q ms"
  by (simp add: hfi_holds_def split: option.split)

lemma write_seqnum: "a6xx_hfi_queue_write leg q m = Some (ret, q') \<Longrightarrow> q_seqnum q' = q_seqnum q"
  by (auto simp: a6xx_hfi_queue_write_def add_history_def Let_def split: option.splits if_splits)

lemma send_msg_delivers:
  assumes "hfi_holds (legacy gmu) 255 (queue0 gmu) ms" and "0 \<le> c_int (q_seqnum (queue0 gmu) + 1)"
    and "data \<noteq> []" and "length data < 256" and "unat i < 256"
    and "hfi_room (legacy gmu) ms data"
  shows "\<exists>q. hfi_holds (legacy gmu) 255 q (ms @ [msg_of gmu i data]) \<and> q_seqnum q = q_seqnum (queue0 gmu) + 1 \<and>
    a6xx_hfi_send_msg fw i data payload n gmu =
      (case fw (gmu\<lparr>queue0 := q, gmu_writes := gmu_writes gmu @ [(REG_A6XX_GMU_HOST2GMU_INTR_SET, 1)]\<rparr>) of
         (poll, stk, gmu') \<Rightarrow> a6xx_hfi_wait_for_ack poll stk (next_seqnum gmu) payload n gmu')"
proof -
  let ?m = "msg_of gmu i data" and ?q = "(queue0 gmu)\<lparr>q_seqnum := q_seqnum (queue0 gmu) + 1\<rparr>"
  note mf = msg_of_fields [OF assms(2-5)]
  obtain q where q: "a6xx_hfi_queue_write (legacy gmu) ?q ?m = Some (0, q)" "hfi_holds (legacy gmu) 255 q (ms @ [?m])"
    using write_room [of "legacy gmu" 255 ?q ms ?m] assms(1,4,6) mf by (auto simp: hfi_room_def)
  then show ?thesis using write_seqnum [OF q(1)]
    by (intro exI [of _ q]) (simp add: a6xx_hfi_send_msg_def write_command_def next_seqnum_def msg_of_def Let_def)
qed

section \<open>Examples\<close>

definition ex_gmu :: "bool \<Rightarrow> a6xx_gmu" where
  "ex_gmu leg = a6xx_hfi_init \<lparr>legacy = leg, hfi_iova = 0x60000000, hfi_virt = (\<lambda>_. 0),
     hfi_table = \<lparr>tab_version = 0, tab_size = 0, qhdr0_offset = 0, qhdr_size = 0, num_queues = 0, active_queues = 0\<rparr>,
     debug_iova = 0, debug_size = 0, nr_gpu_freqs = 2, gpu_freqs = replicate 16 500000000, gx_arc_votes = replicate 16 7,
     nr_gmu_freqs = 1, gmu_freqs = replicate 4 200000000, cx_arc_votes = replicate 4 5,
     queue0 = a6xx_hfi_queue_init [] 0 0, queue1 = a6xx_hfi_queue_init [] 0 0, gmu_writes = [],
     gpu_revn = 640, gpu_rev = \<lparr>core = 6, major = 4, minor = 0, patchid = 0\<rparr>\<rparr>"

lemma ex_gmu_holds:
  "hfi_holds leg dw (queue0 (ex_gmu leg)) []" "hfi_holds leg dw (queue1 (ex_gmu leg)) []"
  "legacy (ex_gmu leg) = leg" "q_seqnum (queue0 (ex_gmu leg)) = 0"
  using hfi_init_holds by (simp_all add: ex_gmu_def) (simp_all add: hfi_holds_def a6xx_hfi_init_def a6xx_hfi_queue_init_def SZ_4K_def drop_bit_eq_div del: upt_rec_numeral)

definition ex_test :: "u32 list" where
  "ex_test = [0x100]"

lemma framed_ex_test: "framed ex_test" "length ex_test = 1"
  by (simp_all add: framed_def ex_test_def HFI_HEADER_SIZE_def drop_bit_eq_div)

text \<open>The acknowledgement of a test message.\<close>

definition ex_ack :: "u32 \<Rightarrow> u32 list" where
  "ex_ack seqnum = [msg_header 0 3 126, msg_header seqnum 1 5, 0]"

lemma ex_ack:
  "framed (ex_ack n)" "length (ex_ack n) = 3" "HFI_HEADER_ID (ex_ack n ! 0) \<noteq> HFI_F2H_MSG_ERROR"
  "HFI_HEADER_SEQNUM (ex_ack 4 ! 1) = 4" "HFI_HEADER_SEQNUM (ex_ack 5 ! 1) = 5" "ex_ack n ! 2 = 0"
  using header_fields [of 0 3 126] header_fields [of 4 1 5] header_fields [of 5 1 5]
  by (simp_all add: ex_ack_def framed_def HFI_F2H_MSG_ERROR_def)

text \<open>A ring with 255 messages of four dwords.\<close>

definition ex_four :: "u32 list" where
  "ex_four = [0x400, 0, 0, 0]"

definition ex_ring :: a6xx_hfi_queue where
  "ex_ring = (queue0 (ex_gmu False))\<lparr>q_data := map (\<lambda>i. ex_four ! (i mod 4)) [0..<1024],
     header := map_option (\<lambda>h. h\<lparr>write_index := 1020\<rparr>) (header (queue0 (ex_gmu False)))\<rparr>"

lemma stored_fours:
  "i mod 4 = 0 \<Longrightarrow> stored False (map (\<lambda>i. ex_four ! (i mod 4)) [0..<1024]) i (replicate n ex_four)"
proof (induction n arbitrary: i)
  case (Suc n)
  have k: "k = 0 \<or> k = 1 \<or> k = 2 \<or> k = 3" if "k < 4" for k :: nat using that by auto
  have len: "length ex_four = 4" by (simp add: ex_four_def)
  have "(i + k) mod 1024 mod 4 = k" if "k < 4" for k
    using Suc.prems that by (simp add: mod_mod_cancel mod_add_left_eq [of i 4 k, symmetric])
  moreover have "foot False 4 = 4" by (simp add: foot_def padding_def)
  moreover have "(i + 4) mod 4 = 0" using Suc.prems by simp
  ultimately show ?case using Suc.IH [of "i + 4"] len by simp
qed simp

lemma ex_ring_holds: "hfi_holds False 255 ex_ring (replicate 255 ex_four)"
proof -
  have "used False (replicate n ex_four) = 4 * n" for n
    by (induction n) (simp_all add: foot_def padding_def ex_four_def)
  moreover have "framed ex_four" "length ex_four = 4"
    by (simp_all add: framed_def ex_four_def HFI_HEADER_SIZE_def drop_bit_eq_div)
  ultimately show ?thesis using stored_fours [of 0 255] ex_gmu_holds(1) [of False 255]
    by (auto simp: hfi_holds_def ex_ring_def ex_gmu_def a6xx_hfi_init_def a6xx_hfi_queue_init_def
      simp del: upt_rec_numeral)
qed

section \<open>Properties\<close>

text \<open>
  C21: from initialisation on, every sequence of writes and reads of a ring behaves as the
  operations of a bounded queue of messages that loses its content in one case.  An accepted message
  comes out complete and in order, also across the end of the ring; a message for which the ring has
  not enough free dwords is refused with \<^verbatim>\<open>-ENOSPC\<close> and changes nothing; a message whose dwords
  fit but whose cookies do not, which happens on the newer firmware only and then fills the ring
  exactly, is reported as written and leaves the ring empty.  The messages are those the driver
  writes: their header gives their length, and the reader's buffer is long enough for them.
\<close>

theorem hfi_ring_refines_queue:
  assumes "\<forall>m. Put m \<in> set ops \<longrightarrow> framed m \<and> length m \<le> unat dw"
    and "spec_run (hfi_room (legacy gmu)) (hfi_full (legacy gmu)) ops [] = (rs, ms)"
  shows "(\<exists>q. impl_run (hfi_enq (legacy gmu)) (hfi_deq (legacy gmu) dw) ops (queue0 (a6xx_hfi_init gmu)) = Some (rs, q)
      \<and> hfi_holds (legacy gmu) dw q ms)
    \<and> (\<forall>ms m. hfi_room (legacy gmu) ms m \<or> hfi_full (legacy gmu) ms m
        \<or> (\<not> legacy gmu \<and> used False (ms @ [m]) = 1024))"
  using hfi.run_refines [OF hfi_init_holds(1) assms(1), of gmu] hfi_cases [of "legacy gmu"]
  by (simp add: assms(2))

theorem hfi_ring_refines_queue_witness:
  "\<exists>q. impl_run (hfi_enq False) (hfi_deq False 255) [Put ex_test, Get, Get] (queue0 (a6xx_hfi_init (ex_gmu False)))
     = Some ([Accepted, Got (Some ex_test), Got None], q)"
proof -
  have "hfi_room False [] ex_test" by (simp add: hfi_room_def framed_ex_test foot_def padding_def)
  then have "spec_run (hfi_room (legacy (ex_gmu False))) (hfi_full (legacy (ex_gmu False))) [Put ex_test, Get, Get] []
      = ([Accepted, Got (Some ex_test), Got None], [])" by (simp add: ex_gmu_holds)
  from hfi_ring_refines_queue [OF _ this, of 255] show ?thesis
    by (auto simp: ex_gmu_holds framed_ex_test)
qed

text \<open>
  On the newer firmware the check for space counts the dwords of the message but not the
  cookies that fill its last group.  A message that passes the check and fills the ring
  exactly makes it look empty: the write reports success and every message is lost.
\<close>

theorem hfi_exact_fill_loses_messages:
  assumes "hfi_holds False dw q ms" and "framed m"
    and "used False ms + length m < 1024" and "used False (ms @ [m]) = 1024"
  shows "\<exists>q' q''. a6xx_hfi_queue_write False q m = Some (0, q') \<and> a6xx_hfi_queue_read False q' dw' = Some (0, [], q'')"
proof -
  from assms(1) obtain h where h: "header q = Some h" "h_size h = 1024" "length (q_data q) = 1024"
      "unat (read_index h) < 1024" "False \<or> unat (read_index h) mod 4 = 0"
      "unat (write_index h) = (unat (read_index h) + used False ms) mod 1024"
    by (auto simp: hfi_holds_def split: option.splits)
  have "(unat (read_index h) + used False ms + foot False (length m)) mod 1024 = unat (read_index h)"
    using assms(4) h(4) by (simp add: add.assoc)
  then show ?thesis using write_ok [OF h assms(3)] by (simp add: a6xx_hfi_queue_read_def)
qed

theorem hfi_exact_fill_loses_messages_witness:
  "\<exists>q' q''. a6xx_hfi_queue_write False ex_ring ex_test = Some (0, q') \<and> a6xx_hfi_queue_read False q' 255 = Some (0, [], q'')"
proof -
  have "used False (replicate n ex_four) = 4 * n" for n
    by (induction n) (simp_all add: foot_def padding_def ex_four_def)
  then show ?thesis
    using hfi_exact_fill_loses_messages [OF ex_ring_holds framed_ex_test(1)]
    by (simp add: framed_ex_test foot_def padding_def)
qed

text \<open>
  C22: when the response queue holds complete messages, the loop that waits for an
  acknowledgement ends: it skips firmware errors and answers to other requests, returns the
  verdict of the first answer to its own, or \<^verbatim>\<open>-ENOENT\<close> when there is none, and leaves the
  messages behind that answer on the queue.
\<close>

theorem a6xx_hfi_wait_for_ack_returns:
  assumes "hfi_holds (legacy gmu) 19 (queue1 gmu) ms" and "\<forall>m\<in>set ms. 3 \<le> length m"
  shows "\<exists>payload' gmu'. a6xx_hfi_wait_for_ack 0 stk seqnum payload n gmu = Some (ack_result seqnum ms, payload', gmu')
    \<and> hfi_holds (legacy gmu) 19 (queue1 gmu') (ack_rest seqnum ms)"
proof -
  obtain resp where "ack_spec seqnum stk 0 ms = (ack_result seqnum ms, resp, ack_rest seqnum ms)"
    using ack_spec_find [OF assms(2)] by blast
  from ack_loop_spec [OF assms(1) this] show ?thesis
    by (auto simp: a6xx_hfi_wait_for_ack_def Let_def)
qed

theorem a6xx_hfi_wait_for_ack_returns_witness:
  "\<exists>q payload' gmu'. hfi_holds True 19 q [ex_ack 4, ex_ack 5] \<and>
     a6xx_hfi_wait_for_ack 0 (\<lambda>_. []) 5 None 0 ((ex_gmu True)\<lparr>queue1 := q\<rparr>) = Some (0, payload', gmu')"
proof -
  obtain q1 where q1: "hfi_holds True 19 q1 [ex_ack 4]"
    using write_room [OF ex_gmu_holds(2) [of True 19], of "ex_ack 4"] ex_ack by (auto simp: foot_def)
  obtain q where q: "hfi_holds True 19 q [ex_ack 4, ex_ack 5]"
    using write_room [OF q1, of "ex_ack 5"] ex_ack by (auto simp: foot_def)
  have "ack_result 5 [ex_ack 4, ex_ack 5] = 0"
    using ex_ack by (simp add: ack_result_def answers_def)
  then show ?thesis
    using a6xx_hfi_wait_for_ack_returns [of "(ex_gmu True)\<lparr>queue1 := q\<rparr>" "[ex_ack 4, ex_ack 5]" "\<lambda>_. []" 5 None 0]
      q ex_gmu_holds(3) [of True] ex_ack by auto
qed

text \<open>
  Sending a message for which there is room puts exactly its dwords on the command queue,
  under a header from which the receiver decodes the identifier, the length and the sequence
  number, rings the doorbell, and waits for the answer to that sequence number.
\<close>

theorem a6xx_hfi_send_msg_header:
  assumes "hfi_holds (legacy gmu) 255 (queue0 gmu) ms" and "0 \<le> c_int (q_seqnum (queue0 gmu) + 1)"
    and "data \<noteq> []" and "length data < 256" and "unat i < 256" and "hfi_room (legacy gmu) ms data"
  shows "\<exists>q m. hfi_holds (legacy gmu) 255 q (ms @ [m]) \<and> tl m = tl data \<and> HFI_HEADER_ID (hd m) = i \<and>
    unat (HFI_HEADER_SIZE (hd m)) = length data \<and>
    a6xx_hfi_send_msg fw i data payload n gmu =
      (case fw (gmu\<lparr>queue0 := q, gmu_writes := gmu_writes gmu @ [(REG_A6XX_GMU_HOST2GMU_INTR_SET, 1)]\<rparr>) of
         (poll, stk, gmu') \<Rightarrow> a6xx_hfi_wait_for_ack poll stk (HFI_HEADER_SEQNUM (hd m)) payload n gmu')"
  using send_msg_delivers [OF assms] msg_of_fields [OF assms(2-5)] by (metis framed_def)

theorem a6xx_hfi_send_msg_header_witness:
  "\<exists>q m. hfi_holds True 255 q [m] \<and> tl m = [] \<and> HFI_HEADER_ID (hd m) = 5 \<and>
    a6xx_hfi_send_msg (\<lambda>g. (1, \<lambda>_. [], g)) 5 [0] None 0 (ex_gmu True) =
      Some (- ETIMEDOUT, None, (ex_gmu True)\<lparr>queue0 := q, gmu_writes := gmu_writes (ex_gmu True) @ [(REG_A6XX_GMU_HOST2GMU_INTR_SET, 1)]\<rparr>)"
proof -
  have "0 \<le> c_int (0 + 1)" by (simp add: c_int_def)
  then show ?thesis
    using a6xx_hfi_send_msg_header [of "ex_gmu True" "[]" "[0]" 5 "\<lambda>g. (1, \<lambda>_. [], g)" None 0] ex_gmu_holds [of True]
    by (auto simp: hfi_room_def foot_def a6xx_hfi_wait_for_ack_def)
qed

section \<open>The start sequence\<close>

text \<open>
  What the start sequence relies on the firmware for: it takes the one message off the command
  queue and answers it on the response queue, repeating its header, without an error and
  before the poll times out.
\<close>

definition same_config :: "a6xx_gmu \<Rightarrow> a6xx_gmu \<Rightarrow> bool" where
  "same_config g g' \<longleftrightarrow> legacy g' = legacy g \<and> nr_gpu_freqs g' = nr_gpu_freqs g \<and> nr_gmu_freqs g' = nr_gmu_freqs g
     \<and> gpu_freqs g' = gpu_freqs g \<and> gmu_freqs g' = gmu_freqs g \<and> gx_arc_votes g' = gx_arc_votes g
     \<and> cx_arc_votes g' = cx_arc_votes g"

definition idle :: "a6xx_gmu \<Rightarrow> bool" where
  "idle g \<longleftrightarrow> hfi_holds (legacy g) 255 (queue0 g) [] \<and> hfi_holds (legacy g) 19 (queue1 g) []"

definition fw_answers :: "firmware \<Rightarrow> bool" where
  "fw_answers fw \<longleftrightarrow> (\<forall>g m. hfi_holds (legacy g) 255 (queue0 g) [m] \<longrightarrow> hfi_holds (legacy g) 19 (queue1 g) [] \<longrightarrow>
     (\<exists>stk g' ack. fw g = (0, stk, g') \<and> same_config g g' \<and> q_seqnum (queue0 g') = q_seqnum (queue0 g) \<and>
        hfi_holds (legacy g) 255 (queue0 g') [] \<and> hfi_holds (legacy g) 19 (queue1 g') [ack] \<and>
        3 \<le> length ack \<and> HFI_HEADER_ID (ack ! 0) \<noteq> HFI_F2H_MSG_ERROR \<and> ack ! 1 = hd m \<and> ack ! 2 = 0))"

lemma same_config_trans: "same_config g g' \<Longrightarrow> same_config g' g'' \<Longrightarrow> same_config g g''"
  by (simp add: same_config_def)

lemma wait_for_ack_queue0:
  "a6xx_hfi_wait_for_ack poll stk seqnum p n g = Some (ret, p', g') \<Longrightarrow>
   queue0 g' = queue0 g \<and> same_config g g'"
  by (auto simp: a6xx_hfi_wait_for_ack_def same_config_def Let_def split: if_splits option.splits)

lemma send_msg_answered:
  assumes "fw_answers fw" and "idle g" and "0 \<le> c_int (q_seqnum (queue0 g) + 1)"
    and "data \<noteq> []" and "length data < 256" and "unat i < 256"
  shows "\<exists>p' g'. a6xx_hfi_send_msg fw i data p n g = Some (0, p', g') \<and> idle g' \<and> same_config g g' \<and>
    q_seqnum (queue0 g') = q_seqnum (queue0 g) + 1"
proof -
  have "hfi_room (legacy g) [] data" using assms(5) foot_le [of "legacy g" "length data"] by (simp add: hfi_room_def)
  from send_msg_delivers [where fw = fw and payload = p and n = n, OF _ assms(3-6) this] assms(2) obtain q where
    q: "hfi_holds (legacy g) 255 q [msg_of g i data]" "q_seqnum q = q_seqnum (queue0 g) + 1"
    and snd: "a6xx_hfi_send_msg fw i data p n g =
      (case fw (g\<lparr>queue0 := q, gmu_writes := gmu_writes g @ [(REG_A6XX_GMU_HOST2GMU_INTR_SET, 1)]\<rparr>) of
         (poll, stk, gmu') \<Rightarrow> a6xx_hfi_wait_for_ack poll stk (next_seqnum g) p n gmu')"
    by (auto simp: idle_def)
  let ?g = "g\<lparr>queue0 := q, gmu_writes := gmu_writes g @ [(REG_A6XX_GMU_HOST2GMU_INTR_SET, 1)]\<rparr>"
  obtain stk g1 ack where f: "fw ?g = (0, stk, g1)" "same_config ?g g1" "q_seqnum (queue0 g1) = q_seqnum q"
      "hfi_holds (legacy g) 255 (queue0 g1) []" "hfi_holds (legacy g) 19 (queue1 g1) [ack]"
      "3 \<le> length ack" "HFI_HEADER_ID (ack ! 0) \<noteq> HFI_F2H_MSG_ERROR" "ack ! 1 = hd (msg_of g i data)" "ack ! 2 = 0"
    using assms(1) [unfolded fw_answers_def, rule_format, of ?g "msg_of g i data"] q(1) assms(2)
    by (auto simp: idle_def)
  have leg: "legacy g1 = legacy g" using f(2) by (simp add: same_config_def)
  have "answers (next_seqnum g) ack"
    using f(7,8) msg_of_fields(3) [OF assms(3-6)] by (simp add: answers_def)
  then have ack: "ack_result (next_seqnum g) [ack] = 0" "ack_rest (next_seqnum g) [ack] = []"
    using f(9) by (simp_all add: ack_result_def ack_rest_def)
  obtain resp where "ack_spec (next_seqnum g) stk 0 [ack] = (0, resp, [])"
    using ack_spec_find [of "[ack]" "next_seqnum g" stk 0] f(6) ack by auto
  from ack_loop_spec [OF f(5) this] leg obtain p' g' where
    w: "a6xx_hfi_wait_for_ack 0 stk (next_seqnum g) p n g1 = Some (0, p', g')" "hfi_holds (legacy g) 19 (queue1 g') []"
    by (auto simp: a6xx_hfi_wait_for_ack_def Let_def)
  note wq = wait_for_ack_queue0 [OF w(1)]
  have cfg: "same_config g g1" using f(2) by (simp add: same_config_def)
  have "idle g'" using wq w(2) f(4) leg by (simp add: idle_def same_config_def)
  with w(1) snd f(1,3) wq q(2) same_config_trans [OF cfg] show ?thesis by auto
qed

lemma send_answered:
  assumes "fw_answers fw" and "idle g" and "0 \<le> c_int (q_seqnum (queue0 g) + 1)"
    and "data \<noteq> []" and "length data < 256" and "unat i < 256"
  obtains g' where "send fw i data g = Some (0, g')" "idle g'" "same_config g g'" "q_seqnum (queue0 g') = q_seqnum (queue0 g) + 1"
  using send_msg_answered [OF assms, of None 0] by (auto simp: send_def)

text \<open>The messages are never empty and never longer than a header can say.\<close>

lemma length_votes:
  "votes n entry nr arc freqs = Some xs \<Longrightarrow> (\<And>v f. length (entry v f) = l) \<Longrightarrow> length xs = n * l"
proof -
  assume v: "votes n entry nr arc freqs = Some xs" and l: "\<And>v f. length (entry v f) = l"
  then have "nat nr \<le> n" by (auto simp: votes_def split: if_splits)
  then have "nat nr * l + (n - nat nr) * l = n * l" by (simp add: add_mult_distrib [symmetric])
  with v l show ?thesis by (auto simp: votes_def length_concat o_def sum_list_triv split: if_splits)
qed

lemma length_bw_words: "length (bw_words (bw_table_of g)) = 160"
  by (simp add: bw_words_def bw_table_of_def a618_build_bw_table_def a640_build_bw_table_def a650_build_bw_table_def
      a660_build_bw_table_def adreno_7c3_build_bw_table_def a6xx_build_bw_table_def bw_zero_def put_row_def eval_nat_numeral)

lemma seqnum_step:
  assumes "unat (s :: u32) < 2147483647"
  shows "0 \<le> c_int (s + 1)" and "unat (s + 1) = Suc (unat s)"
proof -
  show u: "unat (s + 1) = Suc (unat s)" using assms by (simp add: unat_add_1_u32)
  have "int (unat (s + 1)) < int 2147483648" using u assms by (simp only: of_nat_less_iff)
  then have "uint (s + 1) < 2147483648" by simp
  then have "take_bit 31 (uint (s + 1)) = uint (s + 1)" by (intro take_bit_int_eq_self) simp_all
  then have "\<not> bit (uint (s + 1)) 31" by (metis bit_take_bit_iff less_irrefl)
  then show "0 \<le> c_int (s + 1)"
    by (simp add: c_int_def sint_uint signed_take_bit_eq_if_positive)
qed

definition ready_for :: "nat \<Rightarrow> a6xx_gmu \<Rightarrow> bool" where
  "ready_for k g \<longleftrightarrow> idle g \<and> unat (q_seqnum (queue0 g)) + k \<le> 2147483647 \<and>
     0 \<le> nr_gpu_freqs g \<and> nr_gpu_freqs g \<le> 16 \<and> 0 \<le> nr_gmu_freqs g \<and> nr_gmu_freqs g \<le> 4 \<and>
     length (gpu_freqs g) = 16 \<and> length (gx_arc_votes g) = 16 \<and> length (gmu_freqs g) = 4 \<and> length (cx_arc_votes g) = 4"

lemma ready_step:
  assumes "fw_answers fw" and "ready_for (Suc k) g" and "data \<noteq> []" and "length data < 256" and "unat i < 256"
  shows "\<exists>p' g'. a6xx_hfi_send_msg fw i data p n g = Some (0, p', g') \<and> ready_for k g' \<and> legacy g' = legacy g"
proof -
  have i: "idle g" and s: "unat (q_seqnum (queue0 g)) < 2147483647" using assms(2) by (simp_all add: ready_for_def)
  from send_msg_answered [where p = p and n = n, OF assms(1) i seqnum_step(1) [OF s] assms(3-5)] seqnum_step(2) [OF s] assms(2)
  show ?thesis by (auto simp: ready_for_def same_config_def)
qed

lemma ready_send:
  assumes "fw_answers fw" and "ready_for (Suc k) g" and "data \<noteq> []" and "length data < 256" and "unat i < 256"
  shows "\<exists>g'. send fw i data g = Some (0, g') \<and> ready_for k g' \<and> legacy g' = legacy g"
  using ready_step [OF assms, of None 0] by (auto simp: send_def)

lemma votes_ready:
  assumes "ready_for k g"
  obtains gx cx where "votes 16 entry (nr_gpu_freqs g) (gx_arc_votes g) (gpu_freqs g) = Some gx"
    "votes 4 entry' (nr_gmu_freqs g) (cx_arc_votes g) (gmu_freqs g) = Some cx"
  using assms by (auto simp: votes_def ready_for_def)

lemmas msg_ids = HFI_H2F_MSG_INIT_def HFI_H2F_MSG_FW_VERSION_def HFI_H2F_MSG_PERF_TABLE_def HFI_H2F_MSG_BW_TABLE_def
  HFI_H2F_MSG_TEST_def HFI_H2F_MSG_START_def HFI_H2F_MSG_CORE_FW_START_def

lemma ready_perf_table_v1:
  assumes "fw_answers fw" and "ready_for (Suc k) g"
  shows "\<exists>g'. a6xx_hfi_send_perf_table_v1 fw g = Some (0, g') \<and> ready_for k g' \<and> legacy g' = legacy g"
proof -
  obtain gx cx where v: "votes 16 (\<lambda>v f. [v, f]) (nr_gpu_freqs g) (gx_arc_votes g) (gpu_freqs g) = Some gx"
    "votes 4 (\<lambda>v f. [v, f]) (nr_gmu_freqs g) (cx_arc_votes g) (gmu_freqs g) = Some cx"
    using votes_ready [OF assms(2)] by metis
  have "length gx = 32" "length cx = 8" using length_votes [OF v(1)] length_votes [OF v(2)] by simp_all
  then show ?thesis using v ready_send [OF assms] by (simp add: a6xx_hfi_send_perf_table_v1_def msg_ids)
qed

lemma ready_perf_table:
  assumes "fw_answers fw" and "ready_for (Suc k) g"
  shows "\<exists>g'. a6xx_hfi_send_perf_table fw g = Some (0, g') \<and> ready_for k g' \<and> legacy g' = legacy g"
proof -
  obtain gx cx where v: "votes 16 (\<lambda>v f. [v, 0xffffffff, f]) (nr_gpu_freqs g) (gx_arc_votes g) (gpu_freqs g) = Some gx"
    "votes 4 (\<lambda>v f. [v, f]) (nr_gmu_freqs g) (cx_arc_votes g) (gmu_freqs g) = Some cx"
    using votes_ready [OF assms(2)] by metis
  have "length gx = 48" "length cx = 8" using length_votes [OF v(1)] length_votes [OF v(2)] by simp_all
  then show ?thesis using v ready_send [OF assms] by (simp add: a6xx_hfi_send_perf_table_def msg_ids)
qed

lemma ready_bw_table:
  assumes "fw_answers fw" and "ready_for (Suc k) g"
  shows "\<exists>g'. a6xx_hfi_send_bw_table fw g = Some (0, g') \<and> ready_for k g' \<and> legacy g' = legacy g"
proof -
  have "bw_words (bw_table_of g) \<noteq> []" using length_bw_words [of g] by auto
  then show ?thesis using ready_send [OF assms] by (simp add: a6xx_hfi_send_bw_table_def msg_ids length_bw_words)
qed

lemma ready_small:
  assumes "fw_answers fw" and "ready_for (Suc k) g"
  shows "\<exists>g'. a6xx_hfi_send_gmu_init fw boot_state g = Some (0, g') \<and> ready_for k g'"
    and "\<exists>g'. a6xx_hfi_send_test fw g = Some (0, g') \<and> ready_for k g'"
    and "\<exists>g'. a6xx_hfi_send_start fw g = Some (0, g') \<and> ready_for k g'"
    and "\<exists>g'. a6xx_hfi_send_core_fw_start fw g = Some (0, g') \<and> ready_for k g'"
    and "\<exists>p g'. a6xx_hfi_get_fw_version fw None g = Some (0, p, g') \<and> ready_for k g'"
  using ready_send [OF assms, of "[0, 0, ucast (debug_iova g), ucast (debug_size g), boot_state]" HFI_H2F_MSG_INIT]
    ready_send [OF assms, of "[0]" HFI_H2F_MSG_TEST]
    ready_send [OF assms, of "[0]" HFI_H2F_MSG_START]
    ready_send [OF assms, of "[0, 0]" HFI_H2F_MSG_CORE_FW_START]
    ready_step [OF assms, of "[0, push_bit 28 1 OR push_bit 16 1]" HFI_H2F_MSG_FW_VERSION None 4]
  unfolding a6xx_hfi_send_gmu_init_def a6xx_hfi_send_test_def a6xx_hfi_send_start_def a6xx_hfi_send_core_fw_start_def a6xx_hfi_get_fw_version_def
  by (auto simp: msg_ids)

text \<open>
  C23: with a firmware that answers, the whole start sequence runs to its end and returns 0 on
  both generations: every message fits the queue and its header, every answer is recognised,
  and both queues are empty again.
\<close>

theorem a6xx_hfi_start_succeeds:
  assumes "fw_answers fw" and "ready_for 5 g"
  shows "\<exists>g'. a6xx_hfi_start fw boot_state g = Some (0, g') \<and> idle g'"
proof -
  have final: "ready_for k g' \<Longrightarrow> idle g'" for k g' by (simp add: ready_for_def)
  have r5: "ready_for (Suc (Suc (Suc (Suc (Suc 0))))) g" "ready_for (Suc (Suc (Suc (Suc 0)))) g" using assms(2) by (simp_all add: ready_for_def)
  show ?thesis
  proof (cases "legacy g")
    case True
    from ready_small(1) [OF assms(1) r5(1)] obtain g1 where
      1: "a6xx_hfi_send_gmu_init fw boot_state g = Some (0, g1)" "ready_for (Suc (Suc (Suc (Suc 0)))) g1" by blast
    from ready_small(5) [OF assms(1) 1(2)] obtain p g2 where
      2: "a6xx_hfi_get_fw_version fw None g1 = Some (0, p, g2)" "ready_for (Suc (Suc (Suc 0))) g2" by blast
    from ready_perf_table_v1 [OF assms(1) 2(2)] obtain g3 where
      3: "a6xx_hfi_send_perf_table_v1 fw g2 = Some (0, g3)" "ready_for (Suc (Suc 0)) g3" by blast
    from ready_bw_table [OF assms(1) 3(2)] obtain g4 where
      4: "a6xx_hfi_send_bw_table fw g3 = Some (0, g4)" "ready_for (Suc 0) g4" by blast
    from ready_small(2) [OF assms(1) 4(2)] obtain g5 where
      5: "a6xx_hfi_send_test fw g4 = Some (0, g5)" "ready_for 0 g5" by blast
    show ?thesis using True 1(1) 2(1) 3(1) 4(1) 5(1) final [OF 5(2)]
      by (simp add: a6xx_hfi_start_def a6xx_hfi_start_v1_def and_next_def)
  next
    case False
    from ready_perf_table [OF assms(1) r5(2)] obtain g1 where
      1: "a6xx_hfi_send_perf_table fw g = Some (0, g1)" "ready_for (Suc (Suc (Suc 0))) g1" by blast
    from ready_bw_table [OF assms(1) 1(2)] obtain g2 where
      2: "a6xx_hfi_send_bw_table fw g1 = Some (0, g2)" "ready_for (Suc (Suc 0)) g2" by blast
    from ready_small(4) [OF assms(1) 2(2)] obtain g3 where
      3: "a6xx_hfi_send_core_fw_start fw g2 = Some (0, g3)" "ready_for (Suc 0) g3" by blast
    from ready_small(3) [OF assms(1) 3(2)] obtain g4 where
      4: "a6xx_hfi_send_start fw g3 = Some (0, g4)" "ready_for 0 g4" by blast
    show ?thesis using False 1(1) 2(1) 3(1) 4(1) final [OF 4(2)] by (simp add: a6xx_hfi_start_def and_next_def)
  qed
qed

text \<open>A firmware that answers every message at once.\<close>

definition ex_fw :: firmware where
  "ex_fw g = (case a6xx_hfi_queue_read (legacy g) (queue0 g) 255 of
     None \<Rightarrow> (1, \<lambda>_. [], g)
   | Some (n, m, q0) \<Rightarrow>
      (case a6xx_hfi_queue_write (legacy g) (queue1 g) [msg_header 0 3 126, hd m, 0] of
         None \<Rightarrow> (1, \<lambda>_. [], g)
       | Some (ret, q1) \<Rightarrow> (0, \<lambda>_. [], g\<lparr>queue0 := q0, queue1 := q1\<rparr>)))"

lemma read_seqnum: "a6xx_hfi_queue_read leg q n = Some (r, m, q') \<Longrightarrow> q_seqnum q' = q_seqnum q"
  by (auto simp: a6xx_hfi_queue_read_def add_history_def Let_def split: option.splits if_splits)

lemma ex_fw_answers: "fw_answers ex_fw"
  unfolding fw_answers_def
proof (intro allI impI)
  fix g :: a6xx_gmu and m
  assume g: "hfi_holds (legacy g) 255 (queue0 g) [m]" "hfi_holds (legacy g) 19 (queue1 g) []"
  obtain q0 where q0: "a6xx_hfi_queue_read (legacy g) (queue0 g) 255 = Some (of_nat (length m), m, q0)"
      "hfi_holds (legacy g) 255 q0 []"
    using read_first [OF g(1)] by blast
  let ?ack = "[msg_header 0 3 126, hd m, 0]"
  have hf: "HFI_HEADER_ID (msg_header 0 3 126) = 126" "HFI_HEADER_SIZE (msg_header 0 3 126) = 3"
    by (rule header_fields; simp)+
  have "framed ?ack" by (simp add: framed_def hf)
  moreover have "used (legacy g) [?ack] < 1024" using foot_le [of "legacy g" "Suc (Suc (Suc 0))"] by simp
  ultimately obtain q1 where q1: "a6xx_hfi_queue_write (legacy g) (queue1 g) ?ack = Some (0, q1)" "hfi_holds (legacy g) 19 q1 [?ack]"
    using write_room [OF g(2), of ?ack] by auto
  show "\<exists>stk g' ack. ex_fw g = (0, stk, g') \<and> same_config g g' \<and> q_seqnum (queue0 g') = q_seqnum (queue0 g) \<and>
        hfi_holds (legacy g) 255 (queue0 g') [] \<and> hfi_holds (legacy g) 19 (queue1 g') [ack] \<and>
        3 \<le> length ack \<and> HFI_HEADER_ID (ack ! 0) \<noteq> HFI_F2H_MSG_ERROR \<and> ack ! 1 = hd m \<and> ack ! 2 = 0"
    using q0 q1 read_seqnum [OF q0(1)] hf(1)
    by (intro exI [of _ "\<lambda>_. []"] exI [of _ "g\<lparr>queue0 := q0, queue1 := q1\<rparr>"] exI [of _ ?ack])
      (simp add: ex_fw_def same_config_def HFI_F2H_MSG_ERROR_def)
qed

theorem a6xx_hfi_start_succeeds_witness:
  "\<exists>g'. a6xx_hfi_start ex_fw 0 (ex_gmu False) = Some (0, g') \<and> idle g'"
proof -
  have "idle (ex_gmu False)" using ex_gmu_holds [of False] by (simp add: idle_def)
  then have "ready_for 5 (ex_gmu False)"
    by (simp add: ready_for_def ex_gmu_holds) (simp add: ex_gmu_def a6xx_hfi_init_def del: upt_rec_numeral)
  then show ?thesis by (rule a6xx_hfi_start_succeeds [OF ex_fw_answers])
qed

end
