(* ===== verification/DSC.thy ===== *)
theory DSC
  imports Prelude "HOL-Library.Signed_Division"
begin

text \<open>
  Display stream compression: the DSC helpers (\<^verbatim>\<open>msm/shims/backports/drm_dsc_helper.c\<close>), which
  pack the picture parameter set and compute the rate control parameters, and their user in
  the DSI host (\<^verbatim>\<open>msm/dsi/dsi_host.c\<close>: \<^verbatim>\<open>dsi_populate_dsc_params\<close>, \<^verbatim>\<open>dsi_update_dsc_timing\<close>,
  \<^verbatim>\<open>dsi_timing_setup\<close>).

  C expressions of type \<^verbatim>\<open>int\<close> are HOL integers, those of type \<^verbatim>\<open>unsigned long\<close> 64-bit words;
  storing into a structure member truncates to its width.  \<open>None\<close> is a signed overflow
  or a division by zero.
\<close>

section \<open>Configuration (drm_dsc.h)\<close>

record drm_dsc_rc_range_parameters =
  range_min_qp :: u8
  range_max_qp :: u8
  range_bpg_offset :: u8

record drm_dsc_config =
  line_buf_depth :: u8
  bits_per_component :: u8
  convert_rgb :: bool
  slice_count :: u8
  slice_width :: u16
  slice_height :: u16
  simple_422 :: bool
  pic_width :: u16
  pic_height :: u16
  rc_tgt_offset_high :: u8
  rc_tgt_offset_low :: u8
  bits_per_pixel :: u16
  rc_edge_factor :: u8
  rc_quant_incr_limit1 :: u8
  rc_quant_incr_limit0 :: u8
  initial_xmit_delay :: u16
  initial_dec_delay :: u16
  block_pred_enable :: bool
  first_line_bpg_offset :: u8
  initial_offset :: u16
  rc_buf_thresh :: "u16 list" \<comment> \<open>14\<close>
  rc_range_params :: "drm_dsc_rc_range_parameters list" \<comment> \<open>15\<close>
  rc_model_size :: u16
  flatness_min_qp :: u8
  flatness_max_qp :: u8
  initial_scale_value :: u8
  scale_decrement_interval :: u16
  scale_increment_interval :: u16
  nfl_bpg_offset :: u16
  slice_bpg_offset :: u16
  final_offset :: u16
  vbr_enable :: bool
  mux_word_size :: u8
  slice_chunk_size :: u16
  rc_bits :: u16
  dsc_version_minor :: u8
  dsc_version_major :: u8
  native_422 :: bool
  native_420 :: bool
  second_line_bpg_offset :: u8
  nsl_bpg_offset :: u16
  second_line_offset_adj :: u16

section \<open>The picture parameter set (drm_dsc_helper.c)\<close>

record dp_sdp_header =
  HB0 :: u8
  HB1 :: u8
  HB2 :: u8
  HB3 :: u8

definition drm_dsc_dp_pps_header_init :: dp_sdp_header where
  "drm_dsc_dp_pps_header_init = \<lparr>HB0 = 0, HB1 = 0x10, HB2 = 0x7F, HB3 = 0\<rparr>"

definition drm_dsc_dp_rc_buffer_size :: "u8 \<Rightarrow> u8 \<Rightarrow> int" where
  "drm_dsc_dp_rc_buffer_size rc_buffer_block_size rc_buffer_size =
     (let s = 1024 * (uint rc_buffer_size + 1) in
      if rc_buffer_block_size = 0 then 1 * s
      else if rc_buffer_block_size = 1 then 4 * s
      else if rc_buffer_block_size = 2 then 16 * s
      else if rc_buffer_block_size = 3 then 64 * s
      else 0)"

text \<open>The bytes of \<^verbatim>\<open>cpu_to_be16\<close>, and a flag as an integer.\<close>

definition be16 :: "u16 \<Rightarrow> u8 list" where
  "be16 x = [ucast (drop_bit 8 x), ucast x]"

definition flag :: "bool \<Rightarrow> u32" where
  "flag b = (if b then 1 else 0)"

definition rc_range_word :: "drm_dsc_rc_range_parameters \<Rightarrow> u16" where
  "rc_range_word r = ucast (push_bit 11 (ucast (range_min_qp r) :: u32) OR push_bit 6 (ucast (range_max_qp r))
     OR ucast (range_bpg_offset r))"

text \<open>The 128 bytes of the payload, in the order of the packed structure.\<close>

definition drm_dsc_pps_payload_pack :: "drm_dsc_config \<Rightarrow> u8 list" where
  "drm_dsc_pps_payload_pack cfg =
     [ucast ((ucast (dsc_version_minor cfg) :: u32) OR push_bit 4 (ucast (dsc_version_major cfg))),
      0, 0,
      ucast ((ucast (line_buf_depth cfg) :: u32) OR push_bit 4 (ucast (bits_per_component cfg))),
      ucast (drop_bit 8 ((ucast (bits_per_pixel cfg) :: u32) AND 0x300) OR push_bit 2 (flag (vbr_enable cfg))
        OR push_bit 3 (flag (simple_422 cfg)) OR push_bit 4 (flag (convert_rgb cfg))
        OR push_bit 5 (flag (block_pred_enable cfg))),
      ucast ((ucast (bits_per_pixel cfg) :: u32) AND 0xff)]
     @ be16 (pic_height cfg) @ be16 (pic_width cfg) @ be16 (slice_height cfg) @ be16 (slice_width cfg)
     @ be16 (slice_chunk_size cfg)
     @ [ucast (drop_bit 8 ((ucast (initial_xmit_delay cfg) :: u32) AND 0x300)),
        ucast ((ucast (initial_xmit_delay cfg) :: u32) AND 0xff)]
     @ be16 (initial_dec_delay cfg)
     @ [0, initial_scale_value cfg]
     @ be16 (scale_increment_interval cfg)
     @ [ucast (drop_bit 8 ((ucast (scale_decrement_interval cfg) :: u32) AND 0xf00)),
        ucast ((ucast (scale_decrement_interval cfg) :: u32) AND 0xff),
        0, first_line_bpg_offset cfg]
     @ be16 (nfl_bpg_offset cfg) @ be16 (slice_bpg_offset cfg) @ be16 (initial_offset cfg) @ be16 (final_offset cfg)
     @ [flatness_min_qp cfg, flatness_max_qp cfg]
     @ be16 (rc_model_size cfg)
     @ [6, rc_quant_incr_limit0 cfg, rc_quant_incr_limit1 cfg, 3 OR push_bit 4 3]
     @ map (\<lambda>i. ucast (rc_buf_thresh cfg ! i)) [0..<14]
     @ concat (map (\<lambda>i. be16 (rc_range_word (rc_range_params cfg ! i))) [0..<15])
     @ [ucast (flag (native_422 cfg) OR push_bit 1 (flag (native_420 cfg))), second_line_bpg_offset cfg]
     @ be16 (nsl_bpg_offset cfg) @ be16 (second_line_offset_adj cfg)
     @ replicate 34 0"

section \<open>Rate control parameters (drm_dsc_helper.c)\<close>

definition ul :: "int \<Rightarrow> u64" where
  "ul i = word_of_int i"

definition ok_int :: "int \<Rightarrow> bool" where
  "ok_int i \<longleftrightarrow> - 2147483648 \<le> i \<and> i \<le> 2147483647"

text \<open>The pixels of a line that are coded: half of them in the native modes.\<close>

definition coded_width :: "drm_dsc_config \<Rightarrow> int" where
  "coded_width cfg = (if native_420 cfg \<or> native_422 cfg then uint (slice_width cfg) sdiv 2 else uint (slice_width cfg))"

definition extra_mux_bits :: "drm_dsc_config \<Rightarrow> int" where
  "extra_mux_bits cfg =
     (let mux = uint (mux_word_size cfg); bpc = uint (bits_per_component cfg) in
      if convert_rgb cfg then 3 * (mux + (4 * bpc + 4) - 2)
      else if native_422 cfg then 4 * mux + (4 * bpc + 4) + 3 * (4 * bpc) - 2
      else 3 * mux + (4 * bpc + 4) + 2 * (4 * bpc) - 2)"

lemma dec_u64_less: "(0 :: u64) < n \<Longrightarrow> unat (n - 1) < unat n"
  by (metis less_irrefl measure_unat)

function mux_loop :: "u64 \<Rightarrow> u64 \<Rightarrow> u64 \<Rightarrow> u64" where
  "mux_loop slice_bits mux n =
     (if n > 0 \<and> (slice_bits - n) mod mux \<noteq> 0 then mux_loop slice_bits mux (n - 1) else n)"
  by pat_completeness auto
termination
  by (relation "measure (\<lambda>(s, m, n). unat n)") (auto intro: dec_u64_less)

declare mux_loop.simps [simp del]

text \<open>The part up to the check of the final offset, with the values the rest uses.\<close>

record rc_state =
  rc_cfg :: drm_dsc_config
  groups_per_line :: u64
  num_extra_mux_bits :: u64

definition rc_first :: "drm_dsc_config \<Rightarrow> rc_state option" where
  "rc_first cfg =
     (let w = coded_width cfg; bpp = uint (bits_per_pixel cfg); xmit = uint (initial_xmit_delay cfg);
          mux = ucast (mux_word_size cfg); n0 = ul (extra_mux_bits cfg)
      in if \<not> ok_int (w * bpp + 128) then None
      else let gpl = ul (DIV_ROUND_UP_int w 3);
               cfg1 = cfg\<lparr>slice_chunk_size := word_of_int (DIV_ROUND_UP_int (w * bpp) 128)\<rparr>;
               bits = 8 * uint (slice_chunk_size cfg1) * uint (slice_height cfg1)
      in if \<not> ok_int bits \<or> (n0 > 0 \<and> mux = 0) \<or> \<not> ok_int (xmit * bpp + 16) then None
      else let n = mux_loop (ul bits) mux n0;
               cfg2 = (if gpl < ul (uint (initial_scale_value cfg1) - 8)
                       then cfg1\<lparr>initial_scale_value := ucast (gpl + 8)\<rparr> else cfg1);
               cfg3 = cfg2\<lparr>scale_decrement_interval :=
                        (if initial_scale_value cfg2 > 8
                         then ucast (gpl div ul (uint (initial_scale_value cfg2) - 8)) else 4095)\<rparr>;
               cfg4 = cfg3\<lparr>final_offset :=
                        ucast (ul (uint (rc_model_size cfg3) - (xmit * bpp + 8) sdiv 16) + n)\<rparr>
      in Some \<lparr>rc_cfg = cfg4, groups_per_line = gpl, num_extra_mux_bits = n\<rparr>)"

definition rc_second :: "rc_state \<Rightarrow> drm_dsc_config option" where
  "rc_second r =
     (let cfg = rc_cfg r; gpl = groups_per_line r; n = num_extra_mux_bits r;
          rc = uint (rc_model_size cfg); fo = uint (final_offset cfg); io = uint (initial_offset cfg);
          fl = uint (first_line_bpg_offset cfg); h = uint (slice_height cfg);
          bpp = uint (bits_per_pixel cfg); xmit = uint (initial_xmit_delay cfg);
          final_scale = ul ((rc * 8) sdiv (rc - fo));
          cfg1 = cfg\<lparr>nfl_bpg_offset := (if slice_height cfg > 1
                       then word_of_int (DIV_ROUND_UP_int (fl * 2048) (h - 1)) else 0)\<rparr>;
          groups_total = gpl * ul h
      in if groups_total = 0 then None
      else let cfg2 = cfg1\<lparr>slice_bpg_offset :=
                 ucast ((push_bit 11 (ul (rc - io) + n) + groups_total - 1) div groups_total)\<rparr>;
               den = ul (uint (nfl_bpg_offset cfg2) + uint (slice_bpg_offset cfg2)) * (final_scale - 9)
      in if (final_scale > 9 \<and> den = 0) \<or> bpp = 0 then None
      else let cfg3 = cfg2\<lparr>scale_increment_interval :=
                 (if final_scale > 9 then ucast (ul (fo * 2048) div den) else 0)\<rparr>;
               rbs_min = ul (rc - io + DIV_ROUND_UP_int (xmit * bpp) 16) + gpl * ul fl;
               hrd_delay = (rbs_min * 16 + ul bpp - 1) div ul bpp
      in Some (cfg3\<lparr>rc_bits := ucast ((hrd_delay * ul bpp) div 16),
                    initial_dec_delay := ucast (hrd_delay - ul xmit)\<rparr>))"

definition drm_dsc_compute_rc_parameters :: "drm_dsc_config \<Rightarrow> (int \<times> drm_dsc_config) option" where
  "drm_dsc_compute_rc_parameters cfg = (case rc_first cfg of
     None \<Rightarrow> None
   | Some r \<Rightarrow> if final_offset (rc_cfg r) \<ge> rc_model_size (rc_cfg r) then Some (- ERANGE, rc_cfg r)
       else map_option (\<lambda>c. (0, c)) (rc_second r))"

section \<open>The DSI host (dsi_host.c)\<close>

definition dsi_dsc_rc_buf_thresh :: "u16 list" where
  "dsi_dsc_rc_buf_thresh = [0x0e, 0x1c, 0x2a, 0x38, 0x46, 0x54, 0x62, 0x69, 0x70, 0x77, 0x79, 0x7b, 0x7d, 0x7e]"

definition min_qp :: "u8 list" where
  "min_qp = [0, 0, 1, 1, 3, 3, 3, 3, 3, 3, 5, 5, 5, 7, 13]"

definition max_qp :: "u8 list" where
  "max_qp = [4, 4, 5, 6, 7, 7, 7, 8, 9, 10, 11, 12, 13, 13, 15]"

definition bpg_offset :: "u8 list" where
  "bpg_offset = [2, 0, 0, -2, -4, -6, -8, -8, -8, -10, -10, -12, -12, -12, -12]"

text \<open>The adjustment of the extra mux bits in closed form.\<close>

definition dsi_extra_mux_bits :: "int \<Rightarrow> int \<Rightarrow> int \<Rightarrow> int" where
  "dsi_extra_mux_bits slice_bits mux pre = pre - (mux - ((slice_bits - pre) smod mux))"

definition dsi_dsc_constants :: "drm_dsc_config \<Rightarrow> drm_dsc_config" where
  "dsi_dsc_constants cfg = cfg\<lparr>rc_model_size := 8192, first_line_bpg_offset := 12, rc_edge_factor := 6,
     rc_tgt_offset_high := 3, rc_tgt_offset_low := 3, simple_422 := False, convert_rgb := True, vbr_enable := False,
     rc_buf_thresh := dsi_dsc_rc_buf_thresh,
     rc_range_params := map (\<lambda>i. \<lparr>range_min_qp = min_qp ! i, range_max_qp = max_qp ! i, range_bpg_offset = bpg_offset ! i\<rparr>) [0..<15],
     initial_offset := (if bits_per_pixel cfg \<noteq> 8 then 2048 else 6144),
     initial_xmit_delay := 512, initial_scale_value := 32, line_buf_depth := bits_per_component cfg + 1,
     flatness_min_qp := 3, flatness_max_qp := 12, rc_quant_incr_limit0 := 11, rc_quant_incr_limit1 := 11,
     mux_word_size := 48\<rparr>"

definition dsi_populate_dsc_params :: "drm_dsc_config \<Rightarrow> drm_dsc_config option" where
  "dsi_populate_dsc_params cfg0 =
     (let cfg = dsi_dsc_constants cfg0;
          mux = (if bits_per_component cfg = 12 then 64 else 48);
          bpp = uint (bits_per_pixel cfg); sw = uint (slice_width cfg); h = uint (slice_height cfg);
          rc = uint (rc_model_size cfg); io = uint (initial_offset cfg); xmit = uint (initial_xmit_delay cfg);
          fl = uint (first_line_bpg_offset cfg);
          gpl = DIV_ROUND_UP_int sw 3
      in if \<not> ok_int (sw * bpp) \<or> bpp = 0 then None
      else let chunk0 = word_of_int (sw * bpp sdiv 8);
               cfg1 = cfg\<lparr>slice_chunk_size := (if sw * bpp smod 8 \<noteq> 0 then chunk0 + 1 else chunk0)\<rparr>;
               rbs_min = rc - io + xmit * bpp + gpl * fl;
               hrd_delay = DIV_ROUND_UP_int rbs_min bpp;
               cfg2 = cfg1\<lparr>initial_dec_delay := word_of_int (hrd_delay - xmit),
                           initial_scale_value := word_of_int (8 * rc sdiv (rc - io))\<rparr>;
               slice_bits = 8 * uint (slice_chunk_size cfg2) * h;
               groups_total = gpl * h
      in if \<not> ok_int slice_bits \<or> h - 1 = 0 \<or> groups_total = 0 then None
      else let cfg3 = cfg2\<lparr>nfl_bpg_offset := word_of_int (DIV_ROUND_UP_int (fl * 2048) (h - 1))\<rparr>;
               pre = 3 * (mux + (4 * uint (bits_per_component cfg) + 4) - 2);
               n = dsi_extra_mux_bits slice_bits mux pre;
               cfg4 = cfg3\<lparr>slice_bpg_offset := word_of_int (DIV_ROUND_UP_int (2048 * (rc - io + n)) groups_total)\<rparr>;
               target_bpp_x16 = (bpp * 16 * 2 + 1) sdiv 2;
               final_value = rc - (xmit * target_bpp_x16) sdiv 16 + n;
               cfg5 = cfg4\<lparr>final_offset := word_of_int final_value\<rparr>
      in if rc - final_value = 0 then None
      else let final_scale = 8 * rc sdiv (rc - final_value);
               data = (final_scale - 9) * (uint (nfl_bpg_offset cfg5) + uint (slice_bpg_offset cfg5))
      in if \<not> ok_int data \<or> data = 0 then None
      else Some (cfg5\<lparr>scale_increment_interval := word_of_int (2048 * uint (final_offset cfg5) sdiv data),
             scale_decrement_interval := word_of_int (gpl sdiv (uint (initial_scale_value cfg5) - 8))\<rparr>))"

section \<open>DSI timing (dsi_host.c)\<close>

text \<open>The registers written; \<open>fld m s v\<close> is a field macro of \<^verbatim>\<open>dsi.xml.h\<close> with mask \<open>m\<close> and shift \<open>s\<close>.\<close>

datatype dsi_reg = REG_DSI_ACTIVE_H | REG_DSI_ACTIVE_V | REG_DSI_TOTAL | REG_DSI_ACTIVE_HSYNC
  | REG_DSI_ACTIVE_VSYNC_HPOS | REG_DSI_ACTIVE_VSYNC_VPOS | REG_DSI_CMD_MDP_STREAM0_CTRL
  | REG_DSI_CMD_MDP_STREAM0_TOTAL | REG_DSI_COMMAND_COMPRESSION_MODE_CTRL
  | REG_DSI_COMMAND_COMPRESSION_MODE_CTRL2 | REG_DSI_VIDEO_COMPRESSION_MODE_CTRL

definition fld :: "u32 \<Rightarrow> nat \<Rightarrow> u32 \<Rightarrow> u32" where
  "fld m s v = push_bit s v AND m"

record drm_display_mode =
  m_hdisplay :: u32
  m_hsync_start :: u32
  m_hsync_end :: u32
  m_htotal :: u32
  m_vdisplay :: u32
  m_vsync_start :: u32
  m_vsync_end :: u32
  m_vtotal :: u32

datatype mipi_dsi_pixel_format = MIPI_DSI_FMT_RGB888 | MIPI_DSI_FMT_RGB666 | MIPI_DSI_FMT_RGB666_PACKED | MIPI_DSI_FMT_RGB565

record msm_dsi_host =
  dsi_mode :: drm_display_mode
  dsi_dsc :: "drm_dsc_config option"
  video_mode :: bool \<comment> \<open>\<^verbatim>\<open>mode_flags & MIPI_DSI_MODE_VIDEO\<close>\<close>
  dsi_format :: mipi_dsi_pixel_format
  channel :: u32
  dsi_regs :: "dsi_reg \<Rightarrow> u32"

definition dsi_get_bpp :: "mipi_dsi_pixel_format \<Rightarrow> u32" where
  "dsi_get_bpp fmt = (case fmt of
     MIPI_DSI_FMT_RGB565 \<Rightarrow> 16 | MIPI_DSI_FMT_RGB666_PACKED \<Rightarrow> 18 | _ \<Rightarrow> 24)"

definition dsi_write :: "dsi_reg \<Rightarrow> u32 \<Rightarrow> msm_dsi_host \<Rightarrow> msm_dsi_host" where
  "dsi_write r v host = host\<lparr>dsi_regs := (dsi_regs host)(r := v)\<rparr>"

definition DIV_ROUND_UP_u32 :: "u32 \<Rightarrow> u32 \<Rightarrow> u32" where
  "DIV_ROUND_UP_u32 n d = (n + d - 1) div d"

definition dsi_update_dsc_timing :: "msm_dsi_host \<Rightarrow> drm_dsc_config \<Rightarrow> bool \<Rightarrow> u32 \<Rightarrow> msm_dsi_host option" where
  "dsi_update_dsc_timing host dsc is_cmd_mode hdisplay =
     (if slice_width dsc = 0 then None
      else let slice_per_intf = DIV_ROUND_UP_u32 hdisplay (ucast (slice_width dsc));
               dsc1 = (if slice_per_intf > ucast (slice_count dsc) then dsc\<lparr>slice_count := 1\<rparr> else dsc);
               slice_bits = uint (slice_width dsc1) * uint (bits_per_pixel dsc1)
      in if \<not> ok_int (slice_bits + 8) \<or> slice_count dsc1 = 0 then None
      else let bytes_in_slice = c_u32 (DIV_ROUND_UP_int slice_bits 8);
               dsc2 = dsc1\<lparr>slice_chunk_size := ucast bytes_in_slice\<rparr>;
               total_bytes_per_intf = bytes_in_slice * slice_per_intf;
               eol_byte_num = total_bytes_per_intf mod 3;
               pkt_per_line = slice_per_intf div ucast (slice_count dsc2);
               reg = fld 0x3f00 8 (if is_cmd_mode then 0x39 else 0x0b)
                       OR fld 0xc0 6 (drop_bit 1 pkt_per_line) OR fld 0x30 4 eol_byte_num OR 1;
               host1 = host\<lparr>dsi_dsc := Some dsc2\<rparr>
      in if is_cmd_mode
         then let reg_ctrl = (dsi_regs host REG_DSI_COMMAND_COMPRESSION_MODE_CTRL AND NOT 0xffff) OR reg;
                  reg_ctrl2 = (dsi_regs host REG_DSI_COMMAND_COMPRESSION_MODE_CTRL2 AND NOT 0xffff) OR fld 0xffff 0 bytes_in_slice
              in Some (dsi_write REG_DSI_COMMAND_COMPRESSION_MODE_CTRL2 reg_ctrl2
                   (dsi_write REG_DSI_COMMAND_COMPRESSION_MODE_CTRL reg_ctrl host1))
         else Some (dsi_write REG_DSI_VIDEO_COMPRESSION_MODE_CTRL reg host1))"

text \<open>The local variables of \<^verbatim>\<open>dsi_timing_setup\<close> before the registers are written.\<close>

record dsi_timing =
  t_h_total :: u32
  t_hs_end :: u32
  t_ha_start :: u32
  t_ha_end :: u32
  t_hdisplay :: u32

definition dsi_h_timing :: "drm_display_mode \<Rightarrow> bool \<Rightarrow> bool \<Rightarrow> dsi_timing" where
  "dsi_h_timing mode is_bonded_dsi dsc =
     (let h_total = m_htotal mode;
          hs_end = m_hsync_end mode - m_hsync_start mode;
          ha_start = h_total - m_hsync_start mode;
          ha_end = ha_start + m_hdisplay mode;
          hdisplay = m_hdisplay mode;
          t = (if is_bonded_dsi
               then \<lparr>t_h_total = h_total div 2, t_hs_end = hs_end div 2, t_ha_start = ha_start div 2,
                     t_ha_end = ha_end div 2, t_hdisplay = hdisplay div 2\<rparr>
               else \<lparr>t_h_total = h_total, t_hs_end = hs_end, t_ha_start = ha_start, t_ha_end = ha_end, t_hdisplay = hdisplay\<rparr>)
      in if dsc
         then t\<lparr>t_hdisplay := t_hdisplay t div 3, t_h_total := t_h_total t - t_hdisplay t + t_hdisplay t div 3,
                t_ha_end := t_ha_start t + t_hdisplay t div 3\<rparr>
         else t)"

definition dsi_write_video :: "drm_display_mode \<Rightarrow> dsi_timing \<Rightarrow> msm_dsi_host \<Rightarrow> msm_dsi_host" where
  "dsi_write_video mode t host =
     (let v_total = m_vtotal mode; vs_end = m_vsync_end mode - m_vsync_start mode;
          va_start = v_total - m_vsync_start mode; va_end = va_start + m_vdisplay mode
      in dsi_write REG_DSI_ACTIVE_VSYNC_VPOS (fld 0xfff 0 0 OR fld 0x0fff0000 16 vs_end)
        (dsi_write REG_DSI_ACTIVE_VSYNC_HPOS 0
        (dsi_write REG_DSI_ACTIVE_HSYNC (fld 0xfff 0 0 OR fld 0x0fff0000 16 (t_hs_end t))
        (dsi_write REG_DSI_TOTAL (fld 0xfff 0 (t_h_total t - 1) OR fld 0x0fff0000 16 (v_total - 1))
        (dsi_write REG_DSI_ACTIVE_V (fld 0xfff 0 va_start OR fld 0x0fff0000 16 va_end)
        (dsi_write REG_DSI_ACTIVE_H (fld 0xfff 0 (t_ha_start t) OR fld 0x0fff0000 16 (t_ha_end t)) host))))))"

text \<open>The word count computed for a compressed stream is overwritten in the line after.\<close>

definition dsi_write_cmd :: "drm_display_mode \<Rightarrow> dsi_timing \<Rightarrow> msm_dsi_host \<Rightarrow> msm_dsi_host" where
  "dsi_write_cmd mode t host =
     (let wc0 = (if dsi_dsc host = None then t_hdisplay t * dsi_get_bpp (dsi_format host) div 8 + 1
                 else m_hdisplay mode div 2 + 1);
          wc = t_hdisplay t * dsi_get_bpp (dsi_format host) div 8 + 1
      in dsi_write REG_DSI_CMD_MDP_STREAM0_TOTAL (fld 0xfff 0 (t_hdisplay t) OR fld 0x0fff0000 16 (m_vdisplay mode))
        (dsi_write REG_DSI_CMD_MDP_STREAM0_CTRL
          (fld 0xffff0000 16 wc OR fld 0x300 8 (channel host) OR fld 0x3f 0 0x39) host))"

definition dsi_timing_setup :: "msm_dsi_host \<Rightarrow> bool \<Rightarrow> msm_dsi_host option" where
  "dsi_timing_setup host is_bonded_dsi =
     (let mode = dsi_mode host in
      case dsi_dsc host of
        None \<Rightarrow> let t = dsi_h_timing mode is_bonded_dsi False
                in Some (if video_mode host then dsi_write_video mode t host else dsi_write_cmd mode t host)
      | Some dsc \<Rightarrow>
         (if m_hdisplay mode = 0 \<or> m_vdisplay mode = 0 then Some host
          else let dsc1 = dsc\<lparr>pic_width := ucast (m_hdisplay mode), pic_height := ucast (m_vdisplay mode)\<rparr>
               in (case dsi_populate_dsc_params dsc1 of
                     None \<Rightarrow> None
                   | Some dsc2 \<Rightarrow>
                      (case dsi_update_dsc_timing (host\<lparr>dsi_dsc := Some dsc2\<rparr>) dsc2 (\<not> video_mode host) (m_hdisplay mode) of
                         None \<Rightarrow> None
                       | Some host1 \<Rightarrow>
                          (let t = dsi_h_timing mode is_bonded_dsi True
                           in Some (if video_mode host then dsi_write_video mode t host1 else dsi_write_cmd mode t host1))))))"

end
