(* ===== verification/DSC_Correct.thy ===== *)
theory DSC_Correct
  imports DSC
begin

text \<open>
  Properties of the DSC code: the packed picture parameter set determines the configuration,
  the adjustment of the extra mux bits by a loop and in closed form, the range of the rate
  control parameters, and what a negative bits-per-group offset does to the packed set.
\<close>

section \<open>Reading the picture parameter set\<close>

text \<open>
  The fields at the places \<^verbatim>\<open>drm_dsc.h\<close> documents for them.  Three members of the configuration
  are not transmitted; they are taken from \<open>tmpl\<close>.
\<close>

definition pps_be16 :: "u8 list \<Rightarrow> nat \<Rightarrow> u16" where
  "pps_be16 p i = push_bit 8 (ucast (p ! i)) OR ucast (p ! (i + 1))"

definition pps_range :: "u16 \<Rightarrow> drm_dsc_rc_range_parameters" where
  "pps_range w = \<lparr>range_min_qp = ucast (drop_bit 11 w), range_max_qp = ucast (take_bit 5 (drop_bit 6 w)),
     range_bpg_offset = ucast (take_bit 6 w)\<rparr>"

definition pps_parse :: "drm_dsc_config \<Rightarrow> u8 list \<Rightarrow> drm_dsc_config" where
  "pps_parse tmpl p = \<lparr>
     line_buf_depth = take_bit 4 (p ! 3), bits_per_component = drop_bit 4 (p ! 3),
     convert_rgb = bit (p ! 4) 4, slice_count = slice_count tmpl,
     slice_width = pps_be16 p 12, slice_height = pps_be16 p 10, simple_422 = bit (p ! 4) 3,
     pic_width = pps_be16 p 8, pic_height = pps_be16 p 6,
     rc_tgt_offset_high = drop_bit 4 (p ! 43), rc_tgt_offset_low = take_bit 4 (p ! 43),
     bits_per_pixel = push_bit 8 (ucast (take_bit 2 (p ! 4))) OR ucast (p ! 5),
     rc_edge_factor = p ! 40, rc_quant_incr_limit1 = p ! 42, rc_quant_incr_limit0 = p ! 41,
     initial_xmit_delay = push_bit 8 (ucast (p ! 16)) OR ucast (p ! 17), initial_dec_delay = pps_be16 p 18,
     block_pred_enable = bit (p ! 4) 5, first_line_bpg_offset = p ! 27, initial_offset = pps_be16 p 32,
     rc_buf_thresh = map (\<lambda>i. ucast (p ! (44 + i))) [0..<14],
     rc_range_params = map (\<lambda>i. pps_range (pps_be16 p (58 + 2 * i))) [0..<15],
     rc_model_size = pps_be16 p 38, flatness_min_qp = p ! 36, flatness_max_qp = p ! 37,
     initial_scale_value = p ! 21,
     scale_decrement_interval = push_bit 8 (ucast (p ! 24)) OR ucast (p ! 25),
     scale_increment_interval = pps_be16 p 22, nfl_bpg_offset = pps_be16 p 28, slice_bpg_offset = pps_be16 p 30,
     final_offset = pps_be16 p 34, vbr_enable = bit (p ! 4) 2, mux_word_size = mux_word_size tmpl,
     slice_chunk_size = pps_be16 p 14, rc_bits = rc_bits tmpl,
     dsc_version_minor = take_bit 4 (p ! 0), dsc_version_major = drop_bit 4 (p ! 0),
     native_422 = bit (p ! 88) 0, native_420 = bit (p ! 88) 1, second_line_bpg_offset = p ! 89,
     nsl_bpg_offset = pps_be16 p 90, second_line_offset_adj = pps_be16 p 92\<rparr>"

text \<open>The parts of the packed list.\<close>

lemma length_pairs: "length (concat (map (\<lambda>i. [a i, b i]) [0..<n])) = 2 * n"
  by (induction n) auto

lemma nth_pairs:
  "i < n \<Longrightarrow> concat (map (\<lambda>i. [a i, b i]) [0..<n]) ! (2 * i) = a i"
  "i < n \<Longrightarrow> concat (map (\<lambda>i. [a i, b i]) [0..<n]) ! Suc (2 * i) = b i"
  by (induction n) (auto simp: nth_append length_pairs less_Suc_eq)

lemma length_pack: "length (drm_dsc_pps_payload_pack cfg) = 128"
  by (simp add: drm_dsc_pps_payload_pack_def be16_def length_pairs del: upt_rec_numeral)

lemma pack_be16:
  "pps_be16 (drm_dsc_pps_payload_pack cfg) 6 = pps_be16 (be16 (pic_height cfg)) 0"
  "pps_be16 (drm_dsc_pps_payload_pack cfg) 8 = pps_be16 (be16 (pic_width cfg)) 0"
  "pps_be16 (drm_dsc_pps_payload_pack cfg) 10 = pps_be16 (be16 (slice_height cfg)) 0"
  "pps_be16 (drm_dsc_pps_payload_pack cfg) 12 = pps_be16 (be16 (slice_width cfg)) 0"
  "pps_be16 (drm_dsc_pps_payload_pack cfg) 14 = pps_be16 (be16 (slice_chunk_size cfg)) 0"
  "pps_be16 (drm_dsc_pps_payload_pack cfg) 18 = pps_be16 (be16 (initial_dec_delay cfg)) 0"
  "pps_be16 (drm_dsc_pps_payload_pack cfg) 22 = pps_be16 (be16 (scale_increment_interval cfg)) 0"
  "pps_be16 (drm_dsc_pps_payload_pack cfg) 28 = pps_be16 (be16 (nfl_bpg_offset cfg)) 0"
  "pps_be16 (drm_dsc_pps_payload_pack cfg) 30 = pps_be16 (be16 (slice_bpg_offset cfg)) 0"
  "pps_be16 (drm_dsc_pps_payload_pack cfg) 32 = pps_be16 (be16 (initial_offset cfg)) 0"
  "pps_be16 (drm_dsc_pps_payload_pack cfg) 34 = pps_be16 (be16 (final_offset cfg)) 0"
  "pps_be16 (drm_dsc_pps_payload_pack cfg) 38 = pps_be16 (be16 (rc_model_size cfg)) 0"
  by (simp_all add: drm_dsc_pps_payload_pack_def be16_def pps_be16_def del: upt_rec_numeral upt_Suc)

lemma pack_be16_last:
  "pps_be16 (drm_dsc_pps_payload_pack cfg) 90 = pps_be16 (be16 (nsl_bpg_offset cfg)) 0"
  "pps_be16 (drm_dsc_pps_payload_pack cfg) 92 = pps_be16 (be16 (second_line_offset_adj cfg)) 0"
  "drm_dsc_pps_payload_pack cfg ! 88 = ucast (flag (native_422 cfg) OR push_bit 1 (flag (native_420 cfg)))"
  "drm_dsc_pps_payload_pack cfg ! 89 = second_line_bpg_offset cfg"
  by (simp_all add: drm_dsc_pps_payload_pack_def be16_def pps_be16_def nth_append length_pairs del: upt_rec_numeral)

lemma pack_thresh: "i < 14 \<Longrightarrow> drm_dsc_pps_payload_pack cfg ! (44 + i) = ucast (rc_buf_thresh cfg ! i)"
  by (simp add: drm_dsc_pps_payload_pack_def be16_def nth_append del: upt_rec_numeral)

lemma pack_ranges:
  "i < 15 \<Longrightarrow> pps_be16 (drm_dsc_pps_payload_pack cfg) (58 + 2 * i) = pps_be16 (be16 (rc_range_word (rc_range_params cfg ! i))) 0"
  by (simp add: drm_dsc_pps_payload_pack_def be16_def pps_be16_def nth_append length_pairs nth_pairs del: upt_rec_numeral)

lemma pack_bytes:
  fixes cfg defines "p \<equiv> drm_dsc_pps_payload_pack cfg"
  shows "p ! 0 = ucast ((ucast (dsc_version_minor cfg) :: u32) OR push_bit 4 (ucast (dsc_version_major cfg)))"
    and "p ! 3 = ucast ((ucast (line_buf_depth cfg) :: u32) OR push_bit 4 (ucast (bits_per_component cfg)))"
    and "p ! 4 = ucast (drop_bit 8 ((ucast (bits_per_pixel cfg) :: u32) AND 0x300) OR push_bit 2 (flag (vbr_enable cfg))
        OR push_bit 3 (flag (simple_422 cfg)) OR push_bit 4 (flag (convert_rgb cfg))
        OR push_bit 5 (flag (block_pred_enable cfg)))"
    and "p ! 5 = ucast ((ucast (bits_per_pixel cfg) :: u32) AND 0xff)"
    and "p ! 16 = ucast (drop_bit 8 ((ucast (initial_xmit_delay cfg) :: u32) AND 0x300))"
    and "p ! 17 = ucast ((ucast (initial_xmit_delay cfg) :: u32) AND 0xff)"
    and "p ! 21 = initial_scale_value cfg"
    and "p ! 24 = ucast (drop_bit 8 ((ucast (scale_decrement_interval cfg) :: u32) AND 0xf00))"
    and "p ! 25 = ucast ((ucast (scale_decrement_interval cfg) :: u32) AND 0xff)"
    and "p ! 27 = first_line_bpg_offset cfg"
    and "p ! 36 = flatness_min_qp cfg" and "p ! 37 = flatness_max_qp cfg"
    and "p ! 40 = 6" and "p ! 41 = rc_quant_incr_limit0 cfg" and "p ! 42 = rc_quant_incr_limit1 cfg"
    and "p ! 43 = 3 OR push_bit 4 3"
  unfolding p_def by (simp_all add: drm_dsc_pps_payload_pack_def be16_def del: upt_rec_numeral)

section \<open>Fields\<close>

lemma bit_bound:
  fixes w :: "'a :: len word"
  assumes "unat w < 2 ^ n" and "bit w k"
  shows "k < n"
proof -
  from assms(1) have "take_bit n w = w" by (simp add: word_unat_eq_iff unsigned_take_bit_eq take_bit_nat_eq_self)
  then show ?thesis using assms(2) by (metis bit_take_bit_iff)
qed

lemma be16_roundtrip: "pps_be16 (be16 x) 0 = x"
  by (rule bit_word_eqI) (auto simp: pps_be16_def be16_def bit_simps)

lemma nibbles:
  fixes a b :: u8
  assumes "a < 16" and "b < 16"
  shows "take_bit 4 (ucast ((ucast a :: u32) OR push_bit 4 (ucast b)) :: u8) = a"
    and "drop_bit 4 (ucast ((ucast a :: u32) OR push_bit 4 (ucast b)) :: u8) = b"
proof -
  note bs = bit_bound [of a 4, simplified, OF assms(1) [unfolded word_less_nat_alt, simplified]] bit_bound [of b 4, simplified, OF assms(2) [unfolded word_less_nat_alt, simplified]]
  show "take_bit 4 (ucast ((ucast a :: u32) OR push_bit 4 (ucast b)) :: u8) = a"
    by (rule bit_word_eqI) (auto simp: bit_simps dest: bs)
  show "drop_bit 4 (ucast ((ucast a :: u32) OR push_bit 4 (ucast b)) :: u8) = b"
    by (rule bit_word_eqI) (auto simp: bit_simps dest: bs)
qed

lemma masks: "(0xff :: u32) = mask 8" "(0x300 :: u32) = push_bit 8 (mask 2)" "(0xf00 :: u32) = push_bit 8 (mask 4)"
  by (simp_all add: mask_eq_exp_minus_1)

lemma split_field:
  fixes x :: u16
  shows "x < 1024 \<Longrightarrow> push_bit 8 (ucast (ucast (drop_bit 8 ((ucast x :: u32) AND 0x300)) :: u8))
           OR ucast (ucast ((ucast x :: u32) AND 0xff) :: u8) = x"
    and "x < 4096 \<Longrightarrow> push_bit 8 (ucast (ucast (drop_bit 8 ((ucast x :: u32) AND 0xf00)) :: u8))
           OR ucast (ucast ((ucast x :: u32) AND 0xff) :: u8) = x"
proof -
  assume "x < 1024"
  then have b: "bit x k \<Longrightarrow> k < 10" for k by (rule_tac bit_bound) (simp_all add: word_less_nat_alt)
  show "push_bit 8 (ucast (ucast (drop_bit 8 ((ucast x :: u32) AND 0x300)) :: u8))
           OR ucast (ucast ((ucast x :: u32) AND 0xff) :: u8) = x"
    unfolding masks by (rule bit_word_eqI) (auto simp: bit_simps dest: b)
next
  assume "x < 4096"
  then have b: "bit x k \<Longrightarrow> k < 12" for k by (rule_tac bit_bound) (simp_all add: word_less_nat_alt)
  show "push_bit 8 (ucast (ucast (drop_bit 8 ((ucast x :: u32) AND 0xf00)) :: u8))
           OR ucast (ucast ((ucast x :: u32) AND 0xff) :: u8) = x"
    unfolding masks by (rule bit_word_eqI) (auto simp: bit_simps dest: b)
qed

lemma range_roundtrip:
  assumes "range_min_qp r < 32" and "range_max_qp r < 32" and "range_bpg_offset r < 64"
  shows "pps_range (rc_range_word r) = r"
proof -
  note b = bit_bound [of "range_min_qp r" 5, simplified, OF assms(1) [unfolded word_less_nat_alt, simplified]] bit_bound [of "range_max_qp r" 5, simplified, OF assms(2) [unfolded word_less_nat_alt, simplified]]
    bit_bound [of "range_bpg_offset r" 6, simplified, OF assms(3) [unfolded word_less_nat_alt, simplified]]
  have "ucast (drop_bit 11 (rc_range_word r)) = range_min_qp r"
    by (rule bit_word_eqI) (auto simp: rc_range_word_def bit_simps dest: b)
  moreover have "ucast (take_bit 5 (drop_bit 6 (rc_range_word r))) = range_max_qp r"
    by (rule bit_word_eqI) (auto simp: rc_range_word_def bit_simps dest: b)
  moreover have "ucast (take_bit 6 (rc_range_word r)) = range_bpg_offset r"
    by (rule bit_word_eqI) (auto simp: rc_range_word_def bit_simps dest: b)
  ultimately show ?thesis by (simp add: pps_range_def)
qed

lemma pps4_fields:
  fixes x :: u16 and v s c b
  defines "w \<equiv> ucast (drop_bit 8 ((ucast x :: u32) AND 0x300) OR push_bit 2 (flag v) OR push_bit 3 (flag s)
    OR push_bit 4 (flag c) OR push_bit 5 (flag b)) :: u8"
  shows "bit w 2 = v" "bit w 3 = s" "bit w 4 = c" "bit w 5 = b"
    "take_bit 2 w = ucast (drop_bit 8 ((ucast x :: u32) AND 0x300))"
proof -
  have f: "bit (flag y) k \<longleftrightarrow> y \<and> k = 0" for y k by (simp add: flag_def bit_1_iff)
  show "bit w 2 = v" "bit w 3 = s" "bit w 4 = c" "bit w 5 = b"
    unfolding w_def masks by (auto simp: bit_simps f)
  show "take_bit 2 w = ucast (drop_bit 8 ((ucast x :: u32) AND 0x300))"
    unfolding w_def masks by (rule bit_word_eqI) (auto simp: bit_simps f)
qed

lemma pps88_fields:
  "bit (ucast (flag a OR push_bit 1 (flag b)) :: u8) 0 = a" "bit (ucast (flag a OR push_bit 1 (flag b)) :: u8) 1 = b"
  by (auto simp: bit_simps flag_def)

definition pps_fits :: "drm_dsc_config \<Rightarrow> bool" where
  "pps_fits cfg \<longleftrightarrow> dsc_version_minor cfg < 16 \<and> dsc_version_major cfg < 16 \<and> line_buf_depth cfg < 16 \<and>
     bits_per_component cfg < 16 \<and> bits_per_pixel cfg < 1024 \<and> initial_xmit_delay cfg < 1024 \<and>
     scale_decrement_interval cfg < 4096 \<and>
     length (rc_buf_thresh cfg) = 14 \<and> (\<forall>t\<in>set (rc_buf_thresh cfg). t < 256) \<and>
     length (rc_range_params cfg) = 15 \<and>
     (\<forall>r\<in>set (rc_range_params cfg). range_min_qp r < 32 \<and> range_max_qp r < 32 \<and> range_bpg_offset r < 64)"

lemma parse_thresh:
  assumes "pps_fits cfg"
  shows "map (\<lambda>i. ucast (drm_dsc_pps_payload_pack cfg ! (44 + i))) [0..<14] = rc_buf_thresh cfg"
proof (rule nth_equalityI)
  show "length (map (\<lambda>i. ucast (drm_dsc_pps_payload_pack cfg ! (44 + i)) :: u16) [0..<14]) = length (rc_buf_thresh cfg)"
    using assms by (simp add: pps_fits_def del: upt_rec_numeral)
next
  fix i
  assume "i < length (map (\<lambda>i. ucast (drm_dsc_pps_payload_pack cfg ! (44 + i)) :: u16) [0..<14])"
  then have i: "i < 14" by (simp del: upt_rec_numeral)
  then have "rc_buf_thresh cfg ! i < 256" using assms by (simp add: pps_fits_def)
  then have b: "bit (rc_buf_thresh cfg ! i) k \<Longrightarrow> k < 8" for k
    by (rule_tac bit_bound) (simp_all add: word_less_nat_alt)
  have "ucast (ucast (rc_buf_thresh cfg ! i) :: u8) = rc_buf_thresh cfg ! i"
    by (rule bit_word_eqI) (auto simp: bit_simps dest: b)
  then show "map (\<lambda>i. ucast (drm_dsc_pps_payload_pack cfg ! (44 + i))) [0..<14] ! i = rc_buf_thresh cfg ! i"
    using i by (simp add: pack_thresh del: upt_rec_numeral)
qed

lemma parse_ranges:
  assumes "pps_fits cfg"
  shows "map (\<lambda>i. pps_range (pps_be16 (drm_dsc_pps_payload_pack cfg) (58 + 2 * i))) [0..<15] = rc_range_params cfg"
  by (rule nth_equalityI)
    (use assms in \<open>auto simp: pps_fits_def pack_ranges be16_roundtrip range_roundtrip simp del: upt_rec_numeral\<close>)

section \<open>Extra mux bits\<close>

lemma uint_ul: "0 \<le> i \<Longrightarrow> i < 18446744073709551616 \<Longrightarrow> uint (ul i) = i"
  by (simp add: ul_def uint_word_of_int_eq take_bit_int_eq_self)

lemma mux_loop_words:
  "mux_loop s m n \<le> n \<and> (mux_loop s m n = 0 \<or> (s - mux_loop s m n) mod m = 0) \<and>
   (\<forall>k. mux_loop s m n < k \<longrightarrow> k \<le> n \<longrightarrow> (s - k) mod m \<noteq> 0)"
proof (induction s m n rule: mux_loop.induct)
  case (1 s m n)
  show ?case
  proof (cases "n > 0 \<and> (s - n) mod m \<noteq> 0")
    case True
    note IH = 1 [OF True]
    have eq: "mux_loop s m n = mux_loop s m (n - 1)" using True by (subst mux_loop.simps) simp
    have nz: "0 < unat n" using True by (simp add: word_less_nat_alt)
    then have "unat (n - 1) = unat n - 1" by (simp add: unat_sub_if' Suc_leI)
    then have le: "k \<le> n - 1 \<longleftrightarrow> k < n" for k
      using nz by (simp add: word_le_nat_alt word_less_nat_alt) linarith
    show ?thesis using IH True unfolding eq le by (metis order_le_less order_less_imp_le)
  next
    case False
    then have "mux_loop s m n = n" by (subst mux_loop.simps) auto
    with False show ?thesis by (auto simp: word_gt_0)
  qed
qed

lemma mux_loop_int:
  fixes s m pre :: int
  assumes "0 \<le> pre" "pre \<le> s" "s < 18446744073709551616" "0 < m" "m < 18446744073709551616"
  defines "l \<equiv> uint (mux_loop (ul s) (ul m) (ul pre))"
  shows "0 \<le> l" "l \<le> pre" "l = 0 \<or> (s - l) mod m = 0" "\<And>k. l < k \<Longrightarrow> k \<le> pre \<Longrightarrow> (s - k) mod m \<noteq> 0"
proof -
  let ?r = "mux_loop (ul s) (ul m) (ul pre)"
  have u: "uint (ul s) = s" "uint (ul m) = m" "uint (ul pre) = pre" using assms by (simp_all add: uint_ul)
  have sub: "(ul s - w) mod ul m = 0 \<longleftrightarrow> (s - uint w) mod m = 0" if "uint w \<le> s" for w
  proof -
    have "uint (ul s - w) = s - uint w" using that u(1) by (simp add: uint_sub_if')
    then have "uint ((ul s - w) mod ul m) = (s - uint w) mod m" by (simp add: uint_mod_distrib u(2))
    then show ?thesis by (metis uint_0_eq word_uint_eq_iff)
  qed
  note w = mux_loop_words [of "ul s" "ul m" "ul pre"]
  show "0 \<le> l" by (simp add: l_def)
  show le: "l \<le> pre" using w by (simp add: l_def word_le_def u(3))
  show "l = 0 \<or> (s - l) mod m = 0" using w sub [of ?r] le assms(2) by (auto simp: l_def)
  show "(s - k) mod m \<noteq> 0" if "l < k" "k \<le> pre" for k
  proof -
    have k: "uint (ul k) = k" using that assms(2,3) by (intro uint_ul) (simp_all add: l_def, use uint_ge_0 [of ?r] in linarith)
    then have "?r < ul k" "ul k \<le> ul pre" using that by (simp_all add: word_less_def word_le_def u(3) l_def)
    then show ?thesis using w sub [of "ul k"] k that assms(2) by auto
  qed
qed

section \<open>Rate control parameters\<close>

text \<open>
  Configurations for which every intermediate value fits its type; \<open>groups\<close> is the number of
  groups of a slice.
\<close>

definition groups :: "drm_dsc_config \<Rightarrow> int" where
  "groups cfg = DIV_ROUND_UP_int (coded_width cfg) 3 * uint (slice_height cfg)"

definition rc_ranges :: "drm_dsc_config \<Rightarrow> bool" where
  "rc_ranges cfg \<longleftrightarrow> 1 \<le> coded_width cfg \<and> 1 \<le> slice_height cfg \<and> 1 \<le> bits_per_pixel cfg \<and> bits_per_pixel cfg < 1024 \<and>
     coded_width cfg * uint (bits_per_pixel cfg) \<le> 65535 * 128 \<and>
     8 * DIV_ROUND_UP_int (coded_width cfg * uint (bits_per_pixel cfg)) 128 * uint (slice_height cfg) \<le> 2147483647 \<and>
     0 < mux_word_size cfg \<and> initial_offset cfg < rc_model_size cfg \<and>
     2048 * (uint (rc_model_size cfg) - uint (initial_offset cfg) + extra_mux_bits cfg) \<le> 65535 * groups cfg"

lemma coded_width_bounds: "0 \<le> coded_width cfg" "coded_width cfg \<le> 65535"
proof -
  have "uint (slice_width cfg) \<le> 65535" "0 \<le> uint (slice_width cfg)"
    using uint_lt2p [of "slice_width cfg"] by simp_all
  moreover have "uint (slice_width cfg) sdiv 2 = uint (slice_width cfg) div 2"
    by (simp add: signed_divide_int_def sgn_if)
  ultimately show "0 \<le> coded_width cfg" "coded_width cfg \<le> 65535" 
    by (simp_all add: coded_width_def) linarith
qed

lemma u16_range: "0 \<le> uint (x :: u16)" "uint x \<le> 65535"
  using uint_lt2p [of x] by simp_all

lemma u8_range: "0 \<le> uint (x :: u8)" "uint x \<le> 255"
  using uint_lt2p [of x] by simp_all

lemma uint_ucast_u8: "uint (ucast (w :: u8) :: u64) = uint w"
  using u8_range [of w] by (simp add: unsigned_ucast_eq take_bit_int_eq_self)

lemma uint_push_bit_11:
  assumes "2048 * uint x < 18446744073709551616"
  shows "uint (push_bit 11 (x :: u64)) = 2048 * uint x"
proof -
  have "uint (push_bit 11 x) = take_bit 64 (push_bit 11 (uint x))" by (subst unsigned_push_bit_eq) simp
  also have "\<dots> = take_bit 64 (2048 * uint x)" by (simp add: push_bit_eq_mult mult.commute)
  finally show ?thesis using assms by (simp add: take_bit_int_eq_self)
qed

lemma extra_mux_bits_range: "0 \<le> extra_mux_bits cfg" "extra_mux_bits cfg \<le> 10000"
  using u8_range [of "mux_word_size cfg"] u8_range [of "bits_per_component cfg"]
  by (simp_all add: extra_mux_bits_def Let_def)

lemma rc_first_ok:
  assumes "rc_ranges cfg"
  obtains r where "rc_first cfg = Some r" "uint (groups_per_line r) = DIV_ROUND_UP_int (coded_width cfg) 3"
    "num_extra_mux_bits r \<le> ul (extra_mux_bits cfg)"
    "uint (slice_chunk_size (rc_cfg r)) = DIV_ROUND_UP_int (coded_width cfg * uint (bits_per_pixel cfg)) 128"
    "slice_height (rc_cfg r) = slice_height cfg" "rc_model_size (rc_cfg r) = rc_model_size cfg"
    "initial_offset (rc_cfg r) = initial_offset cfg" "bits_per_pixel (rc_cfg r) = bits_per_pixel cfg"
proof -
  let ?w = "coded_width cfg" and ?bpp = "uint (bits_per_pixel cfg)" and ?x = "uint (initial_xmit_delay cfg)"
  have wb: "0 \<le> ?w * ?bpp" "?w * ?bpp \<le> 8388480"
    using assms coded_width_bounds [of cfg] u16_range [of "bits_per_pixel cfg"] by (simp_all add: rc_ranges_def)
  have bpp: "?bpp \<le> 1023" using assms by (simp add: rc_ranges_def word_less_def)
  have "?x * ?bpp \<le> 65535 * 1023" by (rule mult_mono) (use bpp u16_range [of "initial_xmit_delay cfg"] u16_range [of "bits_per_pixel cfg"] in auto)
  then have xb: "ok_int (?x * ?bpp + 16)"
    using mult_nonneg_nonneg [OF u16_range(1) u16_range(1), of "initial_xmit_delay cfg" "bits_per_pixel cfg"] by (simp add: ok_int_def)
  note d = DIV_ROUND_UP_int [of "?w * ?bpp" 128, OF wb(1)] and g = DIV_ROUND_UP_int [of ?w 3, OF coded_width_bounds(1)]
  have chunk: "uint (word_of_int (DIV_ROUND_UP_int (?w * ?bpp) 128) :: u16) = DIV_ROUND_UP_int (?w * ?bpp) 128"
    using d wb by (simp add: uint_word_of_int_eq take_bit_int_eq_self)
  have gpl: "uint (ul (DIV_ROUND_UP_int ?w 3)) = DIV_ROUND_UP_int ?w 3"
    using g coded_width_bounds [of cfg] by (intro uint_ul) simp_all
  have "0 \<le> DIV_ROUND_UP_int (?w * ?bpp) 128 * uint (slice_height cfg)" using d(4) by simp
  then have bits: "ok_int (8 * DIV_ROUND_UP_int (?w * ?bpp) 128 * uint (slice_height cfg))"
    using assms unfolding rc_ranges_def ok_int_def mult.assoc by linarith
  have mux: "(ucast (mux_word_size cfg) :: u64) \<noteq> 0"
    using assms uint_ucast_u8 [of "mux_word_size cfg"] by (auto simp: rc_ranges_def word_less_def)
  have ok: "ok_int (?w * ?bpp + 128)" using wb by (simp add: ok_int_def)
  have "\<exists>r. rc_first cfg = Some r \<and> groups_per_line r = ul (DIV_ROUND_UP_int ?w 3) \<and>
      (\<exists>b. num_extra_mux_bits r = mux_loop b (ucast (mux_word_size cfg)) (ul (extra_mux_bits cfg))) \<and>
      slice_chunk_size (rc_cfg r) = word_of_int (DIV_ROUND_UP_int (?w * ?bpp) 128) \<and>
      slice_height (rc_cfg r) = slice_height cfg \<and> rc_model_size (rc_cfg r) = rc_model_size cfg \<and>
      initial_offset (rc_cfg r) = initial_offset cfg \<and> bits_per_pixel (rc_cfg r) = bits_per_pixel cfg"
    using ok xb bits mux by (auto simp: rc_first_def Let_def chunk)
  then show ?thesis using that chunk gpl mux_loop_words by metis
qed

lemma final_scale_bounds:
  fixes rc fo :: u16
  assumes "fo < rc"
  shows "uint (ul ((uint rc * 8) sdiv (uint rc - uint fo))) \<le> 524280"
proof -
  have d: "0 < uint rc - uint fo" using assms by (simp add: word_less_def)
  have r: "0 \<le> uint rc * 8" "uint rc * 8 \<le> 524280" using u16_range [of rc] by simp_all
  have e: "(uint rc * 8) sdiv (uint rc - uint fo) = (uint rc * 8) div (uint rc - uint fo)"
    using d by (cases "uint rc = 0") (simp_all add: signed_divide_int_def sgn_if)
  have "(uint rc * 8) div (uint rc - uint fo) \<le> uint rc * 8" using d r(1) zdiv_mono2 [of "uint rc * 8" 1 "uint rc - uint fo"] by simp
  moreover have "0 \<le> (uint rc * 8) div (uint rc - uint fo)" using d r(1) by (simp add: pos_imp_zdiv_nonneg_iff)
  ultimately show ?thesis unfolding e using r(2) by (subst uint_ul) simp_all
qed

lemma rc_second_ok:
  assumes "0 < uint (groups_per_line r)" "uint (groups_per_line r) \<le> 21845" "1 \<le> slice_height (rc_cfg r)"
    and "1 \<le> bits_per_pixel (rc_cfg r)" and "final_offset (rc_cfg r) < rc_model_size (rc_cfg r)"
    and "initial_offset (rc_cfg r) < rc_model_size (rc_cfg r)" and "num_extra_mux_bits r \<le> ul m" "0 \<le> m" "m \<le> 10000"
    and "2048 * (uint (rc_model_size (rc_cfg r)) - uint (initial_offset (rc_cfg r)) + m)
      \<le> 65535 * (uint (groups_per_line r) * uint (slice_height (rc_cfg r)))"
  obtains c where "rc_second r = Some c" "slice_chunk_size c = slice_chunk_size (rc_cfg r)"
    "final_offset c = final_offset (rc_cfg r)" "rc_model_size c = rc_model_size (rc_cfg r)"
    "2048 * (uint (rc_model_size c) - uint (initial_offset (rc_cfg r)) + uint (num_extra_mux_bits r))
       \<le> uint (slice_bpg_offset c) * (uint (groups_per_line r) * uint (slice_height (rc_cfg r)))"
proof -
  let ?cfg = "rc_cfg r"
  let ?rc = "uint (rc_model_size ?cfg)" and ?io = "uint (initial_offset ?cfg)" and ?n = "uint (num_extra_mux_bits r)"
  let ?gt = "groups_per_line r * ul (uint (slice_height ?cfg))"
  let ?GT = "uint (groups_per_line r) * uint (slice_height ?cfg)"
  let ?B = "push_bit 11 (ul (?rc - ?io) + num_extra_mux_bits r)"
  let ?q = "(?B + ?gt - 1) div ?gt"
  have h: "1 \<le> uint (slice_height ?cfg)" "uint (slice_height ?cfg) \<le> 65535"
    using assms(3) u16_range [of "slice_height ?cfg"] by (simp_all add: word_le_def)
  have GT: "1 \<le> ?GT" "?GT \<le> 1431612075"
    using mult_mono [of 1 "uint (groups_per_line r)" 1 "uint (slice_height ?cfg)"]
      mult_mono [of "uint (groups_per_line r)" 21845 "uint (slice_height ?cfg)" 65535] assms(1,2) h by simp_all
  have gt: "uint ?gt = ?GT"
    using GT h by (simp add: uint_word_ariths(3) uint_ul)
  have n: "0 \<le> ?n" "?n \<le> m" using assms(7-9) by (simp_all add: word_le_def uint_ul)
  have ri: "1 \<le> ?rc - ?io" "?rc - ?io \<le> 65535" using assms(6) u16_range [of "rc_model_size ?cfg"] u16_range [of "initial_offset ?cfg"]
    unfolding word_less_def by linarith+
  have x: "uint (ul (?rc - ?io) + num_extra_mux_bits r) = ?rc - ?io + ?n"
    using ri n assms(9) by (subst uint_word_ariths(1)) (simp add: uint_ul)
  have B: "uint ?B = 2048 * (?rc - ?io + ?n)"
    unfolding x [symmetric] by (rule uint_push_bit_11) (use ri n assms(9) x in linarith)
  have sum: "uint (?B + ?gt - 1) = 2048 * (?rc - ?io + ?n) + ?GT - 1"
  proof -
    have "uint (?B + ?gt) = 2048 * (?rc - ?io + ?n) + ?GT"
      using B gt ri n assms(9) GT by (subst uint_word_ariths(1)) simp
    moreover have "0 \<le> 2048 * (?rc - ?io + ?n)" using ri(1) n(1) by simp
    then have "1 \<le> 2048 * (?rc - ?io + ?n) + ?GT" using GT(1) by (rule add_increasing)
    ultimately show ?thesis by (subst uint_sub_if') simp
  qed
  have q: "uint ?q = (2048 * (?rc - ?io + ?n) + ?GT - 1) div ?GT"
    by (simp only: uint_div_distrib sum gt)
  have q': "uint ?q = DIV_ROUND_UP_int (2048 * (?rc - ?io + ?n)) ?GT"
    unfolding q using ri n GT by (subst DIV_ROUND_UP_int(1)) simp_all
  have dr: "2048 * (?rc - ?io + ?n) \<le> ?GT * uint ?q" "?GT * uint ?q < 2048 * (?rc - ?io + ?n) + ?GT"
    unfolding q' using DIV_ROUND_UP_int(2,3) [of "2048 * (?rc - ?io + ?n)" ?GT] ri n GT by simp_all
  have "?GT * uint ?q < ?GT * 65536"
    using dr(2) assms(10) n by (simp add: algebra_simps)
  then have q16: "uint ?q \<le> 65535" using GT by (simp add: mult_less_cancel_left)
  have q1: "1 \<le> uint ?q"
  proof (rule ccontr)
    assume "\<not> 1 \<le> uint ?q"
    then have "uint ?q = 0" using uint_ge_0 [of ?q] by linarith
    then show False using dr(1) ri n by simp
  qed
  have s16: "uint (ucast ?q :: u16) = uint ?q"
    using q16 uint_ge_0 [of ?q] by (simp add: unsigned_ucast_eq take_bit_int_eq_self)
  let ?fs = "ul ((?rc * 8) sdiv (?rc - uint (final_offset ?cfg)))"
  have gt0: "?gt \<noteq> 0" using gt GT(1) by (metis not_one_le_zero uint_0_eq)
  have bpp: "uint (bits_per_pixel ?cfg) \<noteq> 0" using assms(4) by (simp add: word_le_def)
  have den: "ul (uint (y :: u16) + uint (ucast ?q :: u16)) * (?fs - 9) \<noteq> 0" if "?fs > 9" for y
  proof -
    have fs: "uint (?fs - 9) = uint ?fs - 9" "1 \<le> uint ?fs - 9"
      using that by (simp_all add: uint_sub_if' word_less_def)
    have fb: "uint ?fs - 9 \<le> 524280" using final_scale_bounds [OF assms(5)] by linarith
    have y: "1 \<le> uint y + uint ?q" "uint y + uint ?q \<le> 131070" using q1 q16 u16_range [of y] by linarith+
    have "(uint y + uint ?q) * (uint ?fs - 9) \<le> 131070 * 524280"
      by (rule mult_mono) (use y fb fs(2) in auto)
    moreover have p: "1 * 1 \<le> (uint y + uint ?q) * (uint ?fs - 9)"
      by (rule mult_mono) (use y fs(2) in auto)
    ultimately have "uint (ul (uint y + uint ?q) * (?fs - 9)) = (uint y + uint ?q) * (uint ?fs - 9)"
      using y fs by (subst uint_word_ariths(3)) (simp add: uint_ul)
    then show ?thesis unfolding s16 using p by auto
  qed
  have "\<exists>c. rc_second r = Some c \<and> slice_chunk_size c = slice_chunk_size ?cfg \<and> final_offset c = final_offset ?cfg \<and>
      rc_model_size c = rc_model_size ?cfg \<and> slice_bpg_offset c = ucast ?q"
    using gt0 bpp den by (simp add: rc_second_def Let_def)
  then show ?thesis using that dr(1) s16 by (metis mult.commute)
qed

section \<open>An example configuration\<close>

lemma upto15: "[0..<15] = [0, 1, 2, 3, 4, 5, 6, 7, 8, 9, 10, 11, 12, 13, 14]"
  by (simp add: upt_rec)

text \<open>Slices of 540 by 8 pixels; \<open>ex_dsc 8\<close> counts whole bits per pixel as the DSI host does.\<close>

definition ex_dsc :: "u16 \<Rightarrow> drm_dsc_config" where
  "ex_dsc bpp = \<lparr>line_buf_depth = 9, bits_per_component = 8, convert_rgb = True, slice_count = 2, slice_width = 540,
     slice_height = 8, simple_422 = False, pic_width = 1080, pic_height = 2160, rc_tgt_offset_high = 3,
     rc_tgt_offset_low = 3, bits_per_pixel = bpp, rc_edge_factor = 6, rc_quant_incr_limit1 = 11, rc_quant_incr_limit0 = 11,
     initial_xmit_delay = 512, initial_dec_delay = 0, block_pred_enable = True, first_line_bpg_offset = 12,
     initial_offset = 6144, rc_buf_thresh = dsi_dsc_rc_buf_thresh,
     rc_range_params = replicate 15 \<lparr>range_min_qp = 1, range_max_qp = 7, range_bpg_offset = 2\<rparr>, rc_model_size = 8192,
     flatness_min_qp = 3, flatness_max_qp = 12, initial_scale_value = 32, scale_decrement_interval = 7,
     scale_increment_interval = 0, nfl_bpg_offset = 0, slice_bpg_offset = 0, final_offset = 0, vbr_enable = False,
     mux_word_size = 48, slice_chunk_size = 540, rc_bits = 0, dsc_version_minor = 1, dsc_version_major = 1,
     native_422 = False, native_420 = False, second_line_bpg_offset = 0, nsl_bpg_offset = 0, second_line_offset_adj = 0\<rparr>"

lemma ex_dsc_fits: "pps_fits (ex_dsc 128)"
  by (simp add: pps_fits_def ex_dsc_def dsi_dsc_rc_buf_thresh_def)

lemma ex_dsc_ranges: "rc_ranges (ex_dsc 128)"
  by (simp add: rc_ranges_def ex_dsc_def coded_width_def groups_def extra_mux_bits_def DIV_ROUND_UP_int_def signed_divide_int_def)

lemma ex_dsc_populated: "\<exists>cfg'. dsi_populate_dsc_params (ex_dsc 8) = Some cfg'"
  by (simp add: dsi_populate_dsc_params_def dsi_dsc_constants_def ex_dsc_def Let_def DIV_ROUND_UP_int_def signed_divide_int_def
      signed_modulo_int_def dsi_extra_mux_bits_def ok_int_def del: upt_rec_numeral)

section \<open>Properties\<close>

text \<open>
  C24: when the members of a configuration fit the widths of their fields, reading the packed
  picture parameter set at the documented positions gives back every member that the code packs.
  Six members are not among them: the edge factor and the two target offsets are sent as the
  constants 6, 3 and 3 whatever the configuration says, and the slice count, the mux word size and
  the number of rate control bits are not sent (the reader keeps its own).  The set has 128 bytes.
\<close>

theorem drm_dsc_pps_roundtrip:
  assumes "pps_fits cfg"
  shows "pps_parse tmpl (drm_dsc_pps_payload_pack cfg) =
      cfg\<lparr>slice_count := slice_count tmpl, mux_word_size := mux_word_size tmpl, rc_bits := rc_bits tmpl,
        rc_edge_factor := 6, rc_tgt_offset_high := 3, rc_tgt_offset_low := 3\<rparr>
    \<and> length (drm_dsc_pps_payload_pack cfg) = 128"
proof -
  note f = assms [unfolded pps_fits_def]
  let ?p = "drm_dsc_pps_payload_pack cfg"
  have tgt: "drop_bit 4 (?p ! 43) = 3" "take_bit 4 (?p ! 43) = 3" by (simp_all add: pack_bytes)
  have flags: "bit (?p ! 4) 2 = vbr_enable cfg" "bit (?p ! 4) 3 = simple_422 cfg" "bit (?p ! 4) 4 = convert_rgb cfg"
      "bit (?p ! 4) 5 = block_pred_enable cfg" "bit (?p ! 88) 0 = native_422 cfg" "bit (?p ! 88) 1 = native_420 cfg"
    unfolding pack_bytes pack_be16_last by (rule pps4_fields pps88_fields)+
  have nib: "take_bit 4 (?p ! 0) = dsc_version_minor cfg" "drop_bit 4 (?p ! 0) = dsc_version_major cfg"
      "take_bit 4 (?p ! 3) = line_buf_depth cfg" "drop_bit 4 (?p ! 3) = bits_per_component cfg"
    unfolding pack_bytes using f by (simp_all only: nibbles)
  have wide: "push_bit 8 (ucast (take_bit 2 (?p ! 4))) OR ucast (?p ! 5) = bits_per_pixel cfg"
      "push_bit 8 (ucast (?p ! 16)) OR ucast (?p ! 17) = initial_xmit_delay cfg"
      "push_bit 8 (ucast (?p ! 24)) OR ucast (?p ! 25) = scale_decrement_interval cfg"
    unfolding pack_bytes pps4_fields(5) using f by (simp_all only: split_field)
  show ?thesis
    using f by (simp add: pps_parse_def pack_be16 pack_be16_last(1,2,4) pack_bytes(7,10-15) be16_roundtrip
        parse_thresh [OF assms] parse_ranges [OF assms] tgt flags [unfolded One_nat_def] nib wide length_pack del: upt_rec_numeral)
qed

theorem drm_dsc_pps_roundtrip_witness:
  "bits_per_pixel (pps_parse (ex_dsc 0) (drm_dsc_pps_payload_pack (ex_dsc 128))) = 128 \<and>
   rc_range_params (pps_parse (ex_dsc 0) (drm_dsc_pps_payload_pack (ex_dsc 128))) = rc_range_params (ex_dsc 128)"
  using drm_dsc_pps_roundtrip [OF ex_dsc_fits, of "ex_dsc 0"] by (simp add: ex_dsc_def)

text \<open>
  The DSI host computes the number of extra mux bits in closed form where the DSC helper
  searches for it with a loop.  The two agree unless the slice is already a multiple of the
  mux word; then the loop keeps the number and the closed form takes off a whole word.
\<close>

theorem dsi_extra_mux_bits_equiv:
  assumes "0 \<le> pre" "pre \<le> slice_bits" "slice_bits < 2147483648" "0 < mux" "mux \<le> 255"
  shows "uint (mux_loop (ul slice_bits) (ul mux) (ul pre)) =
    (if (slice_bits - pre) mod mux = 0 then dsi_extra_mux_bits slice_bits mux pre + mux
     else max 0 (dsi_extra_mux_bits slice_bits mux pre))"
proof -
  let ?l = "uint (mux_loop (ul slice_bits) (ul mux) (ul pre))"
  let ?r = "(slice_bits - pre) mod mux"
  have big: "slice_bits < 18446744073709551616" "mux < 18446744073709551616" using assms(3,5) by linarith+
  note l = mux_loop_int [OF assms(1,2) big(1) assms(4) big(2)]
  have r: "0 \<le> ?r" "?r < mux" using assms(4) by simp_all
  have sm: "(slice_bits - pre) smod mux = ?r"
    using assms(2,4) by (cases "slice_bits = pre") (simp_all add: signed_modulo_int_def signed_divide_int_def sgn_if minus_div_mult_eq_mod)
  let ?c = "pre - (mux - ?r)"
  have c: "(slice_bits - ?c) mod mux = 0"
  proof -
    have "slice_bits - ?c = mux * ((slice_bits - pre) div mux) + mux"
      using minus_mod_eq_mult_div [of "slice_bits - pre" mux] by linarith
    then show ?thesis by (simp only: mod_add_self2 mod_mult_self1_is_0)
  qed
  have above: "(slice_bits - k) mod mux \<noteq> 0" if "?c < k" "k \<le> pre" "?r \<noteq> 0" for k
  proof -
    have "(slice_bits - k) mod mux = (?r + (pre - k)) mod mux"
      using mod_add_left_eq [of "slice_bits - pre" mux "pre - k"] by simp
    also have "\<dots> = ?r + (pre - k)" using that r by (intro mod_pos_pos_trivial) linarith+
    finally show ?thesis using that r by linarith
  qed
  show ?thesis
  proof (cases "?r = 0")
    case True
    then have "?l = pre" using l(2) l(4) [of pre] by fastforce
    then show ?thesis using True sm by (simp add: dsi_extra_mux_bits_def)
  next
    case False
    have "\<not> ?l < ?c" using l(4) [of ?c] c r by auto
    moreover have "?l = 0 \<or> \<not> ?c < ?l" using above [of ?l] l(2,3) False by blast
    ultimately have "?l = max 0 ?c" using l(1) by linarith
    then show ?thesis using False sm by (simp add: dsi_extra_mux_bits_def)
  qed
qed

theorem dsi_extra_mux_bits_equiv_witness:
  "uint (mux_loop (ul 34560) (ul 48) (ul 246)) = dsi_extra_mux_bits 34560 48 246 \<and> dsi_extra_mux_bits 34560 48 246 = 240"
  using dsi_extra_mux_bits_equiv [of 246 34560 48]
  by (simp add: dsi_extra_mux_bits_def signed_modulo_int_def signed_divide_int_def)

text \<open>
  C25: for configurations whose values fit the types used, the computation of the rate control
  parameters is defined (no signed overflow, no division by zero), returns 0 or
  \<^verbatim>\<open>-ERANGE\<close>, the latter exactly when the final offset is not below the model size; the chunk
  size is the least number of bytes that holds a line of a slice, and the slice offset is
  enough for the whole slice.
\<close>

theorem drm_dsc_compute_rc_parameters_bounds:
  assumes "rc_ranges cfg"
  shows "\<exists>ret cfg'. drm_dsc_compute_rc_parameters cfg = Some (ret, cfg') \<and>
    ret = (if final_offset cfg' < rc_model_size cfg then 0 else - ERANGE) \<and>
    coded_width cfg * uint (bits_per_pixel cfg) \<le> 8 * 16 * uint (slice_chunk_size cfg') \<and>
    8 * 16 * uint (slice_chunk_size cfg') < coded_width cfg * uint (bits_per_pixel cfg) + 8 * 16 \<and>
    (ret = 0 \<longrightarrow> 2048 * (uint (rc_model_size cfg) - uint (initial_offset cfg)) \<le> uint (slice_bpg_offset cfg') * groups cfg)"
proof -
  obtain r where r: "rc_first cfg = Some r" "uint (groups_per_line r) = DIV_ROUND_UP_int (coded_width cfg) 3"
    "num_extra_mux_bits r \<le> ul (extra_mux_bits cfg)"
    "uint (slice_chunk_size (rc_cfg r)) = DIV_ROUND_UP_int (coded_width cfg * uint (bits_per_pixel cfg)) 128"
    "slice_height (rc_cfg r) = slice_height cfg" "rc_model_size (rc_cfg r) = rc_model_size cfg"
    "initial_offset (rc_cfg r) = initial_offset cfg" "bits_per_pixel (rc_cfg r) = bits_per_pixel cfg"
    using rc_first_ok [OF assms] by metis
  note rr = assms [unfolded rc_ranges_def]
  have wb: "0 \<le> coded_width cfg * uint (bits_per_pixel cfg)" using coded_width_bounds(1) by simp
  note chunk = DIV_ROUND_UP_int(2,3) [OF wb, of 128, folded r(4)]
  note g = DIV_ROUND_UP_int(2,3) [OF coded_width_bounds(1), of 3 cfg]
  show ?thesis
  proof (cases "final_offset (rc_cfg r) < rc_model_size cfg")
    case False
    then show ?thesis using r(1,6) chunk by (simp add: drm_dsc_compute_rc_parameters_def not_less)
  next
    case True
    have gpl: "0 < uint (groups_per_line r)" "uint (groups_per_line r) \<le> 21845"
      using g coded_width_bounds(2) [of cfg] rr r(2) by linarith+
    have room: "2048 * (uint (rc_model_size cfg) - uint (initial_offset cfg) + extra_mux_bits cfg)
        \<le> 65535 * (uint (groups_per_line r) * uint (slice_height cfg))"
      using rr r(2) by (simp add: groups_def)
    obtain c where c: "rc_second r = Some c" "slice_chunk_size c = slice_chunk_size (rc_cfg r)"
      "final_offset c = final_offset (rc_cfg r)" "rc_model_size c = rc_model_size (rc_cfg r)"
      "2048 * (uint (rc_model_size c) - uint (initial_offset (rc_cfg r)) + uint (num_extra_mux_bits r))
         \<le> uint (slice_bpg_offset c) * (uint (groups_per_line r) * uint (slice_height (rc_cfg r)))"
      using rc_second_ok [of r "extra_mux_bits cfg"] gpl rr True r extra_mux_bits_range [of cfg] room by metis
    have "2048 * (uint (rc_model_size cfg) - uint (initial_offset cfg)) \<le> uint (slice_bpg_offset c) * groups cfg"
      using order_trans [OF _ c(5), of "2048 * (uint (rc_model_size cfg) - uint (initial_offset cfg))"] c(4) r(2,5-7)
      by (simp add: groups_def)
    then show ?thesis using r(1,6) c chunk True
      by (intro exI [of _ 0] exI [of _ c]) (simp add: drm_dsc_compute_rc_parameters_def leD)
  qed
qed

theorem drm_dsc_compute_rc_parameters_bounds_witness:
  "\<exists>ret cfg'. drm_dsc_compute_rc_parameters (ex_dsc 128) = Some (ret, cfg') \<and>
     540 * 128 \<le> 8 * 16 * uint (slice_chunk_size cfg') \<and> 8 * 16 * uint (slice_chunk_size cfg') < 540 * 128 + 8 * 16"
  using drm_dsc_compute_rc_parameters_bounds [OF ex_dsc_ranges]
  by (simp add: ex_dsc_def coded_width_def) blast

text \<open>
  The DSI host stores negative offsets per group in eight bits, and packing them into the
  low six bits of a range word sets the two lowest bits of the maximum quantisation
  parameter next to them: from the fourth range on the sink reads other values than
  the configuration has.
\<close>

theorem dsi_pps_max_qp_corrupted:
  assumes "dsi_populate_dsc_params cfg = Some cfg'"
  shows "map range_max_qp (rc_range_params (pps_parse tmpl (drm_dsc_pps_payload_pack cfg')))
      = [4, 4, 5, 7, 7, 7, 7, 11, 11, 11, 11, 15, 15, 15, 15] \<and>
    map range_max_qp (rc_range_params cfg') = [4, 4, 5, 6, 7, 7, 7, 8, 9, 10, 11, 12, 13, 13, 15]"
proof -
  have p: "rc_range_params cfg' = rc_range_params (dsi_dsc_constants cfg)"
    using assms by (auto simp: dsi_populate_dsc_params_def Let_def split: if_splits)
  have "rc_range_params (pps_parse tmpl (drm_dsc_pps_payload_pack cfg')) =
      map (\<lambda>i. pps_range (rc_range_word (rc_range_params cfg' ! i))) [0..<15]"
    unfolding pps_parse_def by (auto simp: pack_ranges be16_roundtrip simp del: upt_rec_numeral)
  then have "map range_max_qp (rc_range_params (pps_parse tmpl (drm_dsc_pps_payload_pack cfg'))) =
      map (\<lambda>i. range_max_qp (pps_range (rc_range_word (rc_range_params (dsi_dsc_constants cfg) ! i)))) [0..<15]"
    unfolding p by simp
  also have "\<dots> = [4, 4, 5, 7, 7, 7, 7, 11, 11, 11, 11, 15, 15, 15, 15]"
    by (simp add: upto15 dsi_dsc_constants_def min_qp_def max_qp_def bpg_offset_def pps_range_def rc_range_word_def)
  finally show ?thesis unfolding p by (simp add: upto15 dsi_dsc_constants_def max_qp_def)
qed

theorem dsi_pps_max_qp_corrupted_witness:
  "\<exists>cfg'. dsi_populate_dsc_params (ex_dsc 8) = Some cfg' \<and>
     map range_max_qp (rc_range_params (pps_parse (ex_dsc 0) (drm_dsc_pps_payload_pack cfg')))
       \<noteq> map range_max_qp (rc_range_params cfg')"
proof -
  obtain cfg' where "dsi_populate_dsc_params (ex_dsc 8) = Some cfg'" using ex_dsc_populated by blast
  with dsi_pps_max_qp_corrupted [OF this, of "ex_dsc 0"] show ?thesis by (intro exI [of _ cfg']) simp
qed

end
