(* ===== verification/Preempt.thy ===== *)
theory Preempt
  imports Prelude
begin

text \<open>
  Preemption between the ring buffers of an A5xx GPU (\<^verbatim>\<open>msm/adreno/a5xx_preempt.c\<close>, with
  \<^verbatim>\<open>a5xx_flush\<close> and the preemption parts of \<^verbatim>\<open>a5xx_gpu.c\<close>).

  The operations are given twice: as functions on the state of the GPU, one per function of the
  source, and as the atomic actions of a thread (\<open>exec\<close>), so that a submission, the interrupt
  handlers and the watchdog timer can be interleaved.  An action is what the source does in one
  atomic operation, under one lock, or in one access to a shared variable or register.

  Rings are identified by their position in \<^verbatim>\<open>gpu->rb\<close>; \<open>None\<close> is a null or wild pointer that
  is followed.  What the command processor writes to shared memory and to its registers is
  an action of the environment.
\<close>

section \<open>Data (a5xx_gpu.h, msm_ringbuffer.h)\<close>

datatype preempt_state =
  PREEMPT_NONE | PREEMPT_START | PREEMPT_ABORT | PREEMPT_TRIGGERED | PREEMPT_FAULTED | PREEMPT_PENDING

record a5xx_preempt_record =
  pr_magic :: u32
  pr_info :: u32
  pr_data :: u32
  pr_cntl :: u32
  pr_rptr :: u32
  pr_wptr :: u32
  pr_rptr_addr :: u64
  pr_rbase :: u64
  pr_counter :: u64

text \<open>
  A ring of \<open>RING_DWORDS\<close> dwords: \<open>rg_start\<close> is its memory, \<open>rg_cur\<close> and \<open>rg_next\<close> are the pointers
  \<^verbatim>\<open>cur\<close> and \<^verbatim>\<open>next\<close> relative to \<^verbatim>\<open>start\<close>, \<open>rg_rptr\<close> is \<^verbatim>\<open>memptrs->rptr\<close>.
\<close>

record msm_ringbuffer =
  rg_start :: "nat \<Rightarrow> u32"
  rg_cur :: nat
  rg_next :: nat
  rg_rptr :: u32
  rg_iova :: u64

definition RING_DWORDS :: nat where
  "RING_DWORDS = 8192"

text \<open>
  The state of the GPU: the members of \<^verbatim>\<open>struct a5xx_gpu\<close> and \<^verbatim>\<open>struct msm_gpu\<close> that take part,
  the registers of the command processor, whether the watchdog is armed, how often the recovery
  work was queued, and the buffer objects released so far, oldest first.
\<close>

record a5xx_gpu =
  nr_rings :: nat
  rb :: "msm_ringbuffer list"
  cur_ring :: "nat option"
  next_ring :: "nat option"
  preempt_bo :: "nat option list"
  preempt_counters_bo :: "nat option list"
  preempt :: "a5xx_preempt_record option list"
  preempt_iova :: "u64 list"
  preempt_st :: preempt_state
  preempt_timer :: bool
  shadow_iova :: u64
  shadow :: "u32 list"
  has_whereami :: bool
  cp_rb_wptr :: u32
  cp_context_switch_cntl :: u32
  cp_context_switch_restore_addr :: u64
  cp_context_switch_smmu_info :: u64
  recover_work :: nat
  gem_puts :: "nat list"

definition MSM_GPU_MAX_RINGS :: nat where
  "MSM_GPU_MAX_RINGS = 4"

section \<open>Ring buffers (msm_ringbuffer.h, adreno_gpu.h, adreno_gpu.c)\<close>

definition OUT_RING :: "msm_ringbuffer \<Rightarrow> u32 \<Rightarrow> msm_ringbuffer" where
  "OUT_RING ring d =
     (let n = (if rg_next ring = RING_DWORDS then 0 else rg_next ring)
      in ring\<lparr>rg_start := (rg_start ring)(n := d), rg_next := Suc n\<rparr>)"

definition get_wptr :: "msm_ringbuffer \<Rightarrow> u32" where
  "get_wptr ring = word_of_nat (rg_cur ring mod RING_DWORDS)"

text \<open>The reset of the rings in \<^verbatim>\<open>adreno_hw_init\<close> (firmware and the fence are not part of it).\<close>

definition adreno_hw_init_ring :: "msm_ringbuffer \<Rightarrow> msm_ringbuffer" where
  "adreno_hw_init_ring ring = ring\<lparr>rg_cur := 0, rg_next := 0, rg_rptr := 0\<rparr>"

text \<open>How far the command processor has read a ring, when the microcode has \<^verbatim>\<open>WHERE_AM_I\<close>.\<close>

definition a5xx_get_rptr :: "a5xx_gpu \<Rightarrow> nat \<Rightarrow> u32 option" where
  "a5xx_get_rptr g r = arr_get (shadow g) r"

section \<open>Preemption (a5xx_preempt.c)\<close>

definition try_preempt_state :: "a5xx_gpu \<Rightarrow> preempt_state \<Rightarrow> preempt_state \<Rightarrow> bool \<times> a5xx_gpu" where
  "try_preempt_state g old new =
     (if preempt_st g = old then (True, g\<lparr>preempt_st := new\<rparr>) else (False, g))"

definition set_preempt_state :: "a5xx_gpu \<Rightarrow> preempt_state \<Rightarrow> a5xx_gpu" where
  "set_preempt_state g new = g\<lparr>preempt_st := new\<rparr>"

definition a5xx_in_preempt :: "a5xx_gpu \<Rightarrow> bool" where
  "a5xx_in_preempt g = (\<not> (preempt_st g = PREEMPT_NONE \<or> preempt_st g = PREEMPT_ABORT))"

fun update_wptr :: "a5xx_gpu \<Rightarrow> nat option \<Rightarrow> a5xx_gpu option" where
  "update_wptr g None = Some g"
| "update_wptr g (Some r) =
     map_option (\<lambda>ring. g\<lparr>cp_rb_wptr := get_wptr ring\<rparr>) (arr_get (rb g) r)"

text \<open>The loop of \<^verbatim>\<open>get_next_ring\<close> from ring \<open>i\<close> on.\<close>

function next_ring_from :: "a5xx_gpu \<Rightarrow> nat \<Rightarrow> nat option option" where
  "next_ring_from g i =
     (if i < nr_rings g then
        (case arr_get (rb g) i of
           None \<Rightarrow> None
         | Some ring \<Rightarrow>
             if get_wptr ring \<noteq> rg_rptr ring then Some (Some i) else next_ring_from g (Suc i))
      else Some None)"
  by pat_completeness auto
termination
  by (relation "measure (\<lambda>(g, i). nr_rings g - i)") auto

declare next_ring_from.simps [simp del]

definition get_next_ring :: "a5xx_gpu \<Rightarrow> nat option option" where
  "get_next_ring g = next_ring_from g 0"

definition a5xx_preempt_timer :: "a5xx_gpu \<Rightarrow> a5xx_gpu" where
  "a5xx_preempt_timer g =
     (case try_preempt_state g PREEMPT_TRIGGERED PREEMPT_FAULTED of
        (False, g) \<Rightarrow> g
      | (True, g) \<Rightarrow> g\<lparr>recover_work := Suc (recover_work g)\<rparr>)"

text \<open>The record of the incoming ring gets its write pointer.\<close>

definition preempt_save :: "a5xx_gpu \<Rightarrow> nat \<Rightarrow> a5xx_gpu option" where
  "preempt_save g r =
     (case (arr_get (rb g) r, arr_get (preempt g) r) of
        (Some ring, Some (Some rec)) \<Rightarrow>
          Some (g\<lparr>preempt := (preempt g)[r := Some (rec\<lparr>pr_wptr := get_wptr ring\<rparr>)]\<rparr>)
      | _ \<Rightarrow> None)"

definition a5xx_preempt_trigger :: "a5xx_gpu \<Rightarrow> a5xx_gpu option" where
  "a5xx_preempt_trigger g =
     (if nr_rings g = 1 then Some g
      else case try_preempt_state g PREEMPT_NONE PREEMPT_START of
        (False, g) \<Rightarrow> Some g
      | (True, g) \<Rightarrow>
          (case get_next_ring g of
             None \<Rightarrow> None
           | Some ring \<Rightarrow>
               if ring = None \<or> cur_ring g = ring
               then map_option (\<lambda>g. set_preempt_state g PREEMPT_NONE)
                      (update_wptr (set_preempt_state g PREEMPT_ABORT) (cur_ring g))
               else case (preempt_save g (the ring), arr_get (preempt_iova g) (the ring)) of
                 (Some g, Some iova) \<Rightarrow>
                   (let g = g\<lparr>cp_context_switch_restore_addr := iova\<rparr>;
                        g = g\<lparr>next_ring := ring\<rparr>;
                        g = g\<lparr>preempt_timer := True\<rparr>;
                        g = set_preempt_state g PREEMPT_TRIGGERED
                    in Some (g\<lparr>cp_context_switch_cntl := 1\<rparr>))
               | _ \<Rightarrow> None))"

definition a5xx_preempt_irq :: "a5xx_gpu \<Rightarrow> a5xx_gpu option" where
  "a5xx_preempt_irq g =
     (case try_preempt_state g PREEMPT_TRIGGERED PREEMPT_PENDING of
        (False, g) \<Rightarrow> Some g
      | (True, g) \<Rightarrow>
          (let g = g\<lparr>preempt_timer := False\<rparr>
           in if cp_context_switch_cntl g \<noteq> 0
              then let g = set_preempt_state g PREEMPT_FAULTED
                   in Some (g\<lparr>recover_work := Suc (recover_work g)\<rparr>)
              else let g = g\<lparr>cur_ring := next_ring g\<rparr>; g = g\<lparr>next_ring := None\<rparr>
                   in map_option (\<lambda>g. set_preempt_state g PREEMPT_NONE) (update_wptr g (cur_ring g))))"

text \<open>The loop of \<^verbatim>\<open>a5xx_preempt_hw_init\<close> over the records of the first \<open>n\<close> rings.\<close>

fun reset_records :: "a5xx_gpu \<Rightarrow> nat \<Rightarrow> a5xx_gpu option" where
  "reset_records g 0 = Some g"
| "reset_records g (Suc n) =
     (case reset_records g n of
        None \<Rightarrow> None
      | Some g \<Rightarrow>
          (case (arr_get (preempt g) n, arr_get (rb g) n) of
             (Some (Some rec), Some ring) \<Rightarrow>
               Some (g\<lparr>preempt := (preempt g)[n := Some (rec\<lparr>pr_wptr := 0, pr_rptr := 0, pr_rbase := rg_iova ring\<rparr>)]\<rparr>)
           | _ \<Rightarrow> None))"

definition a5xx_preempt_hw_init :: "a5xx_gpu \<Rightarrow> a5xx_gpu option" where
  "a5xx_preempt_hw_init g =
     (let g = g\<lparr>cur_ring := Some 0\<rparr>
      in if nr_rings g = 1 then Some g
         else map_option
           (\<lambda>g. set_preempt_state (g\<lparr>cp_context_switch_smmu_info := 0\<rparr>) PREEMPT_NONE)
           (reset_records g (nr_rings g)))"

definition A5XX_PREEMPT_RECORD_MAGIC :: u32 where
  "A5XX_PREEMPT_RECORD_MAGIC = 0x27C4BAFC"

text \<open>\<^verbatim>\<open>MSM_GPU_RB_CNTL_DEFAULT | AXXX_CP_RB_CNTL_NO_UPDATE\<close>: logarithms of 4096 and 4.\<close>

definition RB_CNTL :: u32 where
  "RB_CNTL = 12 OR push_bit 8 2 OR 0x08000000"

definition shadowptr :: "a5xx_gpu \<Rightarrow> nat \<Rightarrow> u64" where
  "shadowptr g r = shadow_iova g + word_of_nat r * 4"

text \<open>
  \<open>kernel_new i\<close> is the outcome of the \<open>i\<close>-th \<^verbatim>\<open>msm_gem_kernel_new\<close>: an error, or a buffer object with
  its address.  The memory of a new object is a record with arbitrary contents \<open>raw\<close>.
\<close>

type_synonym kernel_new = "nat \<Rightarrow> int + (nat \<times> u64)"

definition msm_gem_kernel_put :: "nat option \<Rightarrow> a5xx_gpu \<Rightarrow> a5xx_gpu" where
  "msm_gem_kernel_put bo g = (case bo of None \<Rightarrow> g | Some b \<Rightarrow> g\<lparr>gem_puts := gem_puts g @ [b]\<rparr>)"

definition preempt_init_ring ::
  "kernel_new \<Rightarrow> a5xx_preempt_record \<Rightarrow> nat \<Rightarrow> a5xx_gpu \<Rightarrow> int \<times> a5xx_gpu" where
  "preempt_init_ring kernel_new raw r g =
     (case kernel_new (2 * r) of
        Inl e \<Rightarrow> (e, g)
      | Inr (bo, iova) \<Rightarrow>
          (case kernel_new (2 * r + 1) of
             Inl e \<Rightarrow> (e, msm_gem_kernel_put (Some bo) g)
           | Inr (counters_bo, counters_iova) \<Rightarrow>
               (0, g\<lparr>preempt_bo := (preempt_bo g)[r := Some bo],
                     preempt_counters_bo := (preempt_counters_bo g)[r := Some counters_bo],
                     preempt_iova := (preempt_iova g)[r := iova],
                     preempt := (preempt g)[r := Some (raw\<lparr>pr_magic := A5XX_PREEMPT_RECORD_MAGIC,
                       pr_info := 0, pr_data := 0, pr_cntl := RB_CNTL,
                       pr_rptr_addr := shadowptr g r, pr_counter := counters_iova\<rparr>)]\<rparr>)))"

text \<open>
  \<^verbatim>\<open>a5xx_preempt_fini\<close> releases the objects of the first \<open>n = nr_rings\<close> rings; slots without an
  object are null and skipped by \<^verbatim>\<open>msm_gem_kernel_put\<close>.
\<close>

fun preempt_puts :: "nat \<Rightarrow> a5xx_gpu \<Rightarrow> a5xx_gpu" where
  "preempt_puts 0 g = g"
| "preempt_puts (Suc n) g =
     (let g = preempt_puts n g
      in msm_gem_kernel_put (preempt_counters_bo g ! n) (msm_gem_kernel_put (preempt_bo g ! n) g))"

definition a5xx_preempt_fini :: "a5xx_gpu \<Rightarrow> a5xx_gpu" where
  "a5xx_preempt_fini g = preempt_puts (nr_rings g) g"

text \<open>The loop of \<^verbatim>\<open>a5xx_preempt_init\<close> over the \<open>n\<close> rings from \<open>i\<close> on.\<close>

fun preempt_init_loop ::
  "kernel_new \<Rightarrow> a5xx_preempt_record \<Rightarrow> nat \<Rightarrow> nat \<Rightarrow> a5xx_gpu \<Rightarrow> a5xx_gpu" where
  "preempt_init_loop kernel_new raw i 0 g = g"
| "preempt_init_loop kernel_new raw i (Suc n) g =
     (case preempt_init_ring kernel_new raw i g of (ret, g) \<Rightarrow>
        if ret \<noteq> 0 then (a5xx_preempt_fini g)\<lparr>nr_rings := 1\<rparr>
        else preempt_init_loop kernel_new raw (Suc i) n g)"

definition a5xx_preempt_init :: "kernel_new \<Rightarrow> a5xx_preempt_record \<Rightarrow> a5xx_gpu \<Rightarrow> a5xx_gpu" where
  "a5xx_preempt_init kernel_new raw g =
     (if nr_rings g \<le> 1 then g else preempt_init_loop kernel_new raw 0 (nr_rings g) g)"

section \<open>Flushing a ring (a5xx_gpu.c)\<close>

text \<open>\<^verbatim>\<open>a5xx_flush\<close> without the \<^verbatim>\<open>WHERE_AM_I\<close> packet, as the submission calls it.\<close>

definition a5xx_flush :: "a5xx_gpu \<Rightarrow> nat \<Rightarrow> a5xx_gpu option" where
  "a5xx_flush g r =
     (case arr_get (rb g) r of
        None \<Rightarrow> None
      | Some ring \<Rightarrow>
          (let ring = ring\<lparr>rg_cur := rg_next ring\<rparr>; wptr = get_wptr ring;
               g = g\<lparr>rb := (rb g)[r := ring]\<rparr>
           in if cur_ring g = Some r \<and> \<not> a5xx_in_preempt g
              then Some (g\<lparr>cp_rb_wptr := wptr\<rparr>) else Some g))"

section \<open>Threads and their atomic actions\<close>

text \<open>
  The program counter of a thread with its local variables.  \<open>S\<close> and \<open>F\<close> belong to
  \<^verbatim>\<open>a5xx_submit\<close> (the dwords still to be written to the ring, then the flush), \<open>T\<close> to
  \<^verbatim>\<open>a5xx_preempt_trigger\<close>, \<open>I\<close> to \<^verbatim>\<open>a5xx_preempt_irq\<close> and \<open>W\<close> to \<^verbatim>\<open>a5xx_preempt_timer\<close>.
\<close>

datatype pc =
    Done
  | S_Out nat "u32 list"
  | F_Commit nat | F_Check nat u32 | F_State u32 | F_Write u32
  | T_Cas | T_Scan nat | T_Select "nat option" | T_Abort | T_Wptr | T_Write u32 | T_None
  | T_Save nat | T_Addr nat | T_Next nat | T_Timer | T_Triggered | T_Cntl
  | I_Cas | I_Timer | I_Status | I_Fault | I_Recover | I_Cur | I_Null | I_Wptr | I_Write u32 | I_None
  | W_Cas | W_Recover

text \<open>The first half of \<^verbatim>\<open>update_wptr\<close>: read the write pointer of the current ring.\<close>

definition read_cur_wptr :: "a5xx_gpu \<Rightarrow> (u32 \<Rightarrow> pc) \<Rightarrow> pc \<Rightarrow> pc option" where
  "read_cur_wptr g found null =
     (case cur_ring g of
        None \<Rightarrow> Some null
      | Some r \<Rightarrow> map_option (\<lambda>ring. found (get_wptr ring)) (arr_get (rb g) r))"

fun exec :: "pc \<Rightarrow> a5xx_gpu \<Rightarrow> (pc \<times> a5xx_gpu) option" where
  "exec Done g = Some (Done, g)"
| "exec (S_Out r []) g = Some (F_Commit r, g)"
| "exec (S_Out r (d # ds)) g =
     map_option (\<lambda>ring. (S_Out r ds, g\<lparr>rb := (rb g)[r := OUT_RING ring d]\<rparr>)) (arr_get (rb g) r)"
| "exec (F_Commit r) g =
     map_option (\<lambda>ring. let ring = ring\<lparr>rg_cur := rg_next ring\<rparr>
                        in (F_Check r (get_wptr ring), g\<lparr>rb := (rb g)[r := ring]\<rparr>)) (arr_get (rb g) r)"
| "exec (F_Check r w) g = Some (if cur_ring g = Some r then F_State w else T_Cas, g)"
| "exec (F_State w) g = Some (if a5xx_in_preempt g then T_Cas else F_Write w, g)"
| "exec (F_Write w) g = Some (T_Cas, g\<lparr>cp_rb_wptr := w\<rparr>)"
| "exec T_Cas g =
     (if nr_rings g = 1 then Some (Done, g)
      else case try_preempt_state g PREEMPT_NONE PREEMPT_START of
        (ok, g) \<Rightarrow> Some (if ok then T_Scan 0 else Done, g))"
| "exec (T_Scan i) g =
     (if i < nr_rings g
      then map_option (\<lambda>ring. (if get_wptr ring \<noteq> rg_rptr ring then T_Select (Some i) else T_Scan (Suc i), g))
             (arr_get (rb g) i)
      else Some (T_Select None, g))"
| "exec (T_Select None) g = Some (T_Abort, g)"
| "exec (T_Select (Some r)) g = Some (if cur_ring g = Some r then T_Abort else T_Save r, g)"
| "exec T_Abort g = Some (T_Wptr, set_preempt_state g PREEMPT_ABORT)"
| "exec T_Wptr g = map_option (\<lambda>p. (p, g)) (read_cur_wptr g T_Write T_None)"
| "exec (T_Write w) g = Some (T_None, g\<lparr>cp_rb_wptr := w\<rparr>)"
| "exec T_None g = Some (Done, set_preempt_state g PREEMPT_NONE)"
| "exec (T_Save r) g = map_option (\<lambda>g. (T_Addr r, g)) (preempt_save g r)"
| "exec (T_Addr r) g =
     map_option (\<lambda>iova. (T_Next r, g\<lparr>cp_context_switch_restore_addr := iova\<rparr>)) (arr_get (preempt_iova g) r)"
| "exec (T_Next r) g = Some (T_Timer, g\<lparr>next_ring := Some r\<rparr>)"
| "exec T_Timer g = Some (T_Triggered, g\<lparr>preempt_timer := True\<rparr>)"
| "exec T_Triggered g = Some (T_Cntl, set_preempt_state g PREEMPT_TRIGGERED)"
| "exec T_Cntl g = Some (Done, g\<lparr>cp_context_switch_cntl := 1\<rparr>)"
| "exec I_Cas g =
     (case try_preempt_state g PREEMPT_TRIGGERED PREEMPT_PENDING of
        (ok, g) \<Rightarrow> Some (if ok then I_Timer else Done, g))"
| "exec I_Timer g = Some (I_Status, g\<lparr>preempt_timer := False\<rparr>)"
| "exec I_Status g = Some (if cp_context_switch_cntl g \<noteq> 0 then I_Fault else I_Cur, g)"
| "exec I_Fault g = Some (I_Recover, set_preempt_state g PREEMPT_FAULTED)"
| "exec I_Recover g = Some (Done, g\<lparr>recover_work := Suc (recover_work g)\<rparr>)"
| "exec I_Cur g = Some (I_Null, g\<lparr>cur_ring := next_ring g\<rparr>)"
| "exec I_Null g = Some (I_Wptr, g\<lparr>next_ring := None\<rparr>)"
| "exec I_Wptr g = map_option (\<lambda>p. (p, g)) (read_cur_wptr g I_Write I_None)"
| "exec (I_Write w) g = Some (I_None, g\<lparr>cp_rb_wptr := w\<rparr>)"
| "exec I_None g = Some (Done, set_preempt_state g PREEMPT_NONE)"
| "exec W_Cas g =
     (case try_preempt_state g PREEMPT_TRIGGERED PREEMPT_FAULTED of
        (ok, g) \<Rightarrow> Some (if ok then W_Recover else Done, g))"
| "exec W_Recover g = Some (Done, g\<lparr>recover_work := Suc (recover_work g)\<rparr>)"

text \<open>
  Events: a thread performs its next action; a submission to a ring starts (one at a time, they
  hold \<^verbatim>\<open>gpu->lock\<close>); the interrupt of a finished submission starts \<^verbatim>\<open>a5xx_preempt_trigger\<close>; the
  interrupt of the command processor starts \<^verbatim>\<open>a5xx_preempt_irq\<close>; the armed watchdog fires; the
  command processor reports its read pointer, writes its control register or saves a record.
\<close>

datatype event =
    Act nat
  | Submit nat "u32 list"
  | Retire_Irq
  | Cp_Irq
  | Watchdog
  | Cp_Shadow nat u32
  | Cp_Cntl u32
  | Cp_Record nat a5xx_preempt_record

fun submitting :: "pc \<Rightarrow> bool" where
  "submitting (S_Out _ _) = True"
| "submitting (F_Commit _) = True"
| "submitting (F_Check _ _) = True"
| "submitting (F_State _) = True"
| "submitting (F_Write _) = True"
| "submitting _ = False"

type_synonym system = "pc list \<times> a5xx_gpu"

fun event_step :: "event \<Rightarrow> system \<Rightarrow> system option" where
  "event_step (Act i) (ts, g) =
     (if i < length ts then map_option (\<lambda>(p, g). (ts[i := p], g)) (exec (ts ! i) g) else None)"
| "event_step (Submit r ds) (ts, g) =
     (if r < nr_rings g \<and> \<not> list_ex submitting ts then Some (ts @ [S_Out r ds], g) else None)"
| "event_step Retire_Irq (ts, g) = Some (ts @ [T_Cas], g)"
| "event_step Cp_Irq (ts, g) = Some (ts @ [I_Cas], g)"
| "event_step Watchdog (ts, g) =
     (if preempt_timer g then Some (ts @ [W_Cas], g\<lparr>preempt_timer := False\<rparr>) else None)"
| "event_step (Cp_Shadow r v) (ts, g) = Some (ts, g\<lparr>shadow := (shadow g)[r := v]\<rparr>)"
| "event_step (Cp_Cntl v) (ts, g) = Some (ts, g\<lparr>cp_context_switch_cntl := v\<rparr>)"
| "event_step (Cp_Record r rec) (ts, g) =
     (if r < length (preempt g) \<and> preempt g ! r \<noteq> None
      then Some (ts, g\<lparr>preempt := (preempt g)[r := Some rec]\<rparr>) else None)"

fun run_events :: "event list \<Rightarrow> system \<Rightarrow> system option" where
  "run_events [] s = Some s"
| "run_events (e # es) s = Option.bind (event_step e s) (run_events es)"

text \<open>The states a run can reach from the state \<^verbatim>\<open>a5xx_preempt_hw_init\<close> leaves.\<close>

inductive reachable :: "a5xx_gpu \<Rightarrow> system \<Rightarrow> bool" for g0 where
  start: "a5xx_preempt_hw_init (g0\<lparr>rb := map adreno_hw_init_ring (rb g0)\<rparr>) = Some g \<Longrightarrow> reachable g0 ([], g)"
| step: "reachable g0 s \<Longrightarrow> event_step e s = Some s' \<Longrightarrow> reachable g0 s'"

inductive_cases reachable_cases: "reachable g0 s"

end
