(* ===== verification/Preempt_Correct.thy ===== *)
theory Preempt_Correct
  imports Preempt "HOL-Library.Code_Target_Nat"
begin

text \<open>
  Correctness of the A5xx preemption: the state machine is a lock that at most one thread holds
  under every interleaving, no thread follows a null pointer, the actions of a thread that is not
  disturbed compose to the functions of the source, and three ways in which the code does
  not do what it means to.
\<close>

section \<open>A protocol whose state names its holder\<close>

text \<open>
  A shared state in which some values are \<open>busy\<close>: then exactly one thread is inside a section, and
  it is the section that the value names.
\<close>

locale token_protocol =
  fixes phase :: "'p \<Rightarrow> 's option" and busy :: "'s \<Rightarrow> bool"
  assumes phase_busy: "phase p = Some s \<Longrightarrow> busy s"
begin

definition held :: "'p list \<Rightarrow> 's \<Rightarrow> bool" where
  "held ts s \<longleftrightarrow> List.map_filter phase ts = (if busy s then [s] else [])"

lemma held_append: "held ts s \<Longrightarrow> phase p = None \<Longrightarrow> held (ts @ [p]) s"
  by (simp add: held_def List.map_filter_def)

lemma held_phase:
  assumes "held ts s" "i < length ts" "phase (ts ! i) = Some x"
  shows "x = s"
proof -
  have "x \<in> set (List.map_filter phase ts)"
    using assms(2,3) nth_mem [of i ts] by (force simp: List.map_filter_def image_iff)
  with assms(1) show ?thesis by (auto simp: held_def split: if_splits)
qed

lemma held_unique:
  assumes "held ts s" "i < length ts" "j < length ts" "i \<noteq> j"
  shows "phase (ts ! i) = None \<or> phase (ts ! j) = None"
proof (rule ccontr)
  assume "\<not> ?thesis"
  then have "{i, j} \<subseteq> {k. k < length ts \<and> phase (ts ! k) \<noteq> None}" using assms(2,3) by auto
  then have "card {i, j} \<le> length (filter (\<lambda>p. phase p \<noteq> None) ts)"
    unfolding length_filter_conv_card by (intro card_mono) auto
  also have "\<dots> = length (List.map_filter phase ts)" by (simp add: List.map_filter_def comp_def)
  also have "\<dots> \<le> 1" using assms(1) by (simp add: held_def)
  finally show False using assms(4) by simp
qed

lemma held_update:
  assumes "held ts s" "i < length ts"
    and inside: "phase (ts ! i) \<noteq> None \<Longrightarrow> phase p = Some s' \<or> phase p = None \<and> \<not> busy s'"
    and outside: "phase (ts ! i) = None \<Longrightarrow>
      phase p = None \<and> s' = s \<or> \<not> busy s \<and> (phase p = Some s' \<or> phase p = None \<and> \<not> busy s')"
  shows "held (ts[i := p]) s'"
proof -
  obtain xs ys where ts: "ts = xs @ ts ! i # ys" and len: "length xs = i"
    using id_take_nth_drop [OF assms(2)] assms(2) by (metis length_take min.absorb4)
  have upd: "ts[i := p] = xs @ p # ys"
    by (subst ts) (simp add: len [symmetric] list_update_append)
  have mf: "List.map_filter phase (xs @ q # ys) =
      List.map_filter phase xs @ (case phase q of None \<Rightarrow> [] | Some x \<Rightarrow> [x]) @ List.map_filter phase ys" for q
    by (simp add: List.map_filter_def split: option.split)
  have all: "List.map_filter phase xs @ (case phase (ts ! i) of None \<Rightarrow> [] | Some x \<Rightarrow> [x]) @ List.map_filter phase ys
      = (if busy s then [s] else [])"
    using assms(1) mf [of "ts ! i"] ts unfolding held_def by metis
  show ?thesis
  proof (cases "phase (ts ! i)")
    case None
    with all outside phase_busy show ?thesis
      unfolding held_def upd mf by (auto split: if_splits)
  next
    case (Some x)
    with all have "List.map_filter phase xs = []" "List.map_filter phase ys = []"
      by (auto split: if_splits simp: append_eq_Cons_conv Cons_eq_append_conv)
    with Some inside phase_busy show ?thesis
      unfolding held_def upd mf by auto
  qed
qed

end

text \<open>The section of \<^verbatim>\<open>a5xx_preempt_trigger\<close> or \<^verbatim>\<open>a5xx_preempt_irq\<close> a thread is in.\<close>

fun phase :: "pc \<Rightarrow> preempt_state option" where
  "phase (T_Scan _) = Some PREEMPT_START"
| "phase (T_Select _) = Some PREEMPT_START"
| "phase T_Abort = Some PREEMPT_START"
| "phase T_Wptr = Some PREEMPT_ABORT"
| "phase (T_Write _) = Some PREEMPT_ABORT"
| "phase T_None = Some PREEMPT_ABORT"
| "phase (T_Save _) = Some PREEMPT_START"
| "phase (T_Addr _) = Some PREEMPT_START"
| "phase (T_Next _) = Some PREEMPT_START"
| "phase T_Timer = Some PREEMPT_START"
| "phase T_Triggered = Some PREEMPT_START"
| "phase I_Timer = Some PREEMPT_PENDING"
| "phase I_Status = Some PREEMPT_PENDING"
| "phase I_Fault = Some PREEMPT_PENDING"
| "phase I_Cur = Some PREEMPT_PENDING"
| "phase I_Null = Some PREEMPT_PENDING"
| "phase I_Wptr = Some PREEMPT_PENDING"
| "phase (I_Write _) = Some PREEMPT_PENDING"
| "phase I_None = Some PREEMPT_PENDING"
| "phase _ = None"

definition busy :: "preempt_state \<Rightarrow> bool" where
  "busy s = (s \<in> {PREEMPT_START, PREEMPT_ABORT, PREEMPT_PENDING})"

interpretation pre: token_protocol phase busy
proof
  fix p s
  assume "phase p = Some s"
  then show "busy s" by (cases p) (auto simp: busy_def)
qed

section \<open>The invariant\<close>

text \<open>The shape of the state once the records of all rings exist.\<close>

definition shape :: "a5xx_gpu \<Rightarrow> bool" where
  "shape g = (1 < nr_rings g \<and> nr_rings g \<le> MSM_GPU_MAX_RINGS \<and> length (rb g) = nr_rings g \<and>
     length (preempt g) = MSM_GPU_MAX_RINGS \<and> length (preempt_iova g) = MSM_GPU_MAX_RINGS \<and>
     (\<forall>i < nr_rings g. preempt g ! i \<noteq> None))"

text \<open>The current ring is a ring; the next ring is another one.\<close>

definition current_ok :: "a5xx_gpu \<Rightarrow> bool" where
  "current_ok g = (cur_ring g \<noteq> None \<and> the (cur_ring g) < nr_rings g)"

definition target_ok :: "a5xx_gpu \<Rightarrow> bool" where
  "target_ok g = (next_ring g \<noteq> None \<and> the (next_ring g) < nr_rings g \<and> cur_ring g \<noteq> next_ring g)"

text \<open>What holds at a program counter.\<close>

fun pc_ok :: "a5xx_gpu \<Rightarrow> pc \<Rightarrow> bool" where
  "pc_ok g (S_Out r _) = (r < nr_rings g)"
| "pc_ok g (F_Commit r) = (r < nr_rings g)"
| "pc_ok g (T_Select (Some r)) = (r < nr_rings g)"
| "pc_ok g (T_Save r) = (r < nr_rings g \<and> cur_ring g \<noteq> Some r)"
| "pc_ok g (T_Addr r) = (r < nr_rings g \<and> cur_ring g \<noteq> Some r)"
| "pc_ok g (T_Next r) = (r < nr_rings g \<and> cur_ring g \<noteq> Some r)"
| "pc_ok g T_Timer = target_ok g"
| "pc_ok g T_Triggered = target_ok g"
| "pc_ok g I_Timer = target_ok g"
| "pc_ok g I_Status = target_ok g"
| "pc_ok g I_Fault = target_ok g"
| "pc_ok g I_Cur = target_ok g"
| "pc_ok g _ = True"

definition rings_ok :: "a5xx_gpu \<Rightarrow> bool" where
  "rings_ok g = (\<forall>ring \<in> set (rb g). rg_rptr ring = 0 \<and> rg_next ring \<le> RING_DWORDS \<and> rg_cur ring \<le> RING_DWORDS)"

definition preempt_inv :: "system \<Rightarrow> bool" where
  "preempt_inv s = (case s of (ts, g) \<Rightarrow>
     shape g \<and> current_ok g \<and> rings_ok g \<and> (\<forall>i < length ts. pc_ok g (ts ! i)) \<and>
     pre.held ts (preempt_st g) \<and> (preempt_st g = PREEMPT_TRIGGERED \<longrightarrow> target_ok g))"

text \<open>The updates the predicates do not depend on.\<close>

lemma shape_frame [simp]:
  "shape (g\<lparr>preempt_st := xpreemptst\<rparr>) = shape g"
  "shape (g\<lparr>preempt_timer := xpreempttimer\<rparr>) = shape g"
  "shape (g\<lparr>cp_rb_wptr := xcprbwptr\<rparr>) = shape g"
  "shape (g\<lparr>cp_context_switch_cntl := xcpcontextswitchcntl\<rparr>) = shape g"
  "shape (g\<lparr>cp_context_switch_restore_addr := xcpcontextswitchrestoreaddr\<rparr>) = shape g"
  "shape (g\<lparr>recover_work := xrecoverwork\<rparr>) = shape g"
  "shape (g\<lparr>shadow := xshadow\<rparr>) = shape g"
  "shape (g\<lparr>cur_ring := xcurring\<rparr>) = shape g"
  "shape (g\<lparr>next_ring := xnextring\<rparr>) = shape g"
  by (simp_all add: shape_def)

lemma current_ok_frame [simp]:
  "current_ok (g\<lparr>rb := xrb\<rparr>) = current_ok g"
  "current_ok (g\<lparr>preempt_st := xpreemptst\<rparr>) = current_ok g"
  "current_ok (g\<lparr>preempt_timer := xpreempttimer\<rparr>) = current_ok g"
  "current_ok (g\<lparr>cp_rb_wptr := xcprbwptr\<rparr>) = current_ok g"
  "current_ok (g\<lparr>cp_context_switch_cntl := xcpcontextswitchcntl\<rparr>) = current_ok g"
  "current_ok (g\<lparr>cp_context_switch_restore_addr := xcpcontextswitchrestoreaddr\<rparr>) = current_ok g"
  "current_ok (g\<lparr>recover_work := xrecoverwork\<rparr>) = current_ok g"
  "current_ok (g\<lparr>shadow := xshadow\<rparr>) = current_ok g"
  "current_ok (g\<lparr>next_ring := xnextring\<rparr>) = current_ok g"
  "current_ok (g\<lparr>preempt := xpreempt\<rparr>) = current_ok g"
  by (simp_all add: current_ok_def)

lemma target_ok_frame [simp]:
  "target_ok (g\<lparr>rb := xrb\<rparr>) = target_ok g"
  "target_ok (g\<lparr>preempt_st := xpreemptst\<rparr>) = target_ok g"
  "target_ok (g\<lparr>preempt_timer := xpreempttimer\<rparr>) = target_ok g"
  "target_ok (g\<lparr>cp_rb_wptr := xcprbwptr\<rparr>) = target_ok g"
  "target_ok (g\<lparr>cp_context_switch_cntl := xcpcontextswitchcntl\<rparr>) = target_ok g"
  "target_ok (g\<lparr>cp_context_switch_restore_addr := xcpcontextswitchrestoreaddr\<rparr>) = target_ok g"
  "target_ok (g\<lparr>recover_work := xrecoverwork\<rparr>) = target_ok g"
  "target_ok (g\<lparr>shadow := xshadow\<rparr>) = target_ok g"
  "target_ok (g\<lparr>preempt := xpreempt\<rparr>) = target_ok g"
  by (simp_all add: target_ok_def)

lemma rings_ok_frame [simp]:
  "rings_ok (g\<lparr>preempt_st := xpreemptst\<rparr>) = rings_ok g"
  "rings_ok (g\<lparr>preempt_timer := xpreempttimer\<rparr>) = rings_ok g"
  "rings_ok (g\<lparr>cp_rb_wptr := xcprbwptr\<rparr>) = rings_ok g"
  "rings_ok (g\<lparr>cp_context_switch_cntl := xcpcontextswitchcntl\<rparr>) = rings_ok g"
  "rings_ok (g\<lparr>cp_context_switch_restore_addr := xcpcontextswitchrestoreaddr\<rparr>) = rings_ok g"
  "rings_ok (g\<lparr>recover_work := xrecoverwork\<rparr>) = rings_ok g"
  "rings_ok (g\<lparr>shadow := xshadow\<rparr>) = rings_ok g"
  "rings_ok (g\<lparr>cur_ring := xcurring\<rparr>) = rings_ok g"
  "rings_ok (g\<lparr>next_ring := xnextring\<rparr>) = rings_ok g"
  "rings_ok (g\<lparr>preempt := xpreempt\<rparr>) = rings_ok g"
  by (simp_all add: rings_ok_def)

lemma shape_length:
  "shape g \<Longrightarrow> length (rb g) = nr_rings g"
  "shape g \<Longrightarrow> length (preempt g) = MSM_GPU_MAX_RINGS"
  "shape g \<Longrightarrow> length (preempt_iova g) = MSM_GPU_MAX_RINGS"
  by (simp_all add: shape_def)

lemma shape_rb: "shape g \<Longrightarrow> length rs = nr_rings g \<Longrightarrow> shape (g\<lparr>rb := rs\<rparr>)"
  by (simp add: shape_def)

lemma shape_max: "shape g \<Longrightarrow> r < nr_rings g \<Longrightarrow> r < MSM_GPU_MAX_RINGS"
  by (simp add: shape_def)

text \<open>No action fails in a state that satisfies the invariant.\<close>

lemma exec_total:
  assumes "shape g" "current_ok g" "pc_ok g p"
  shows "exec p g \<noteq> None"
proof -
  have cur: "read_cur_wptr g f n \<noteq> None" for f n
    using assms(1,2) by (auto simp: read_cur_wptr_def current_ok_def arr_get_def shape_length split: option.splits)
  have save: "r < nr_rings g \<Longrightarrow> preempt_save g r \<noteq> None" for r
    using assms(1) by (auto simp: preempt_save_def shape_def arr_get_def split: option.splits)
  show ?thesis
    using assms cur save by (cases "(p, g)" rule: exec.cases) (auto simp: Let_def arr_get_def shape_length shape_max split: prod.splits)
qed

text \<open>An action outside a section leaves the rings alone that preemption moves between.\<close>

lemma exec_outside:
  assumes "exec p g = Some (p', g')" "phase p = None"
  shows "cur_ring g' = cur_ring g \<and> next_ring g' = next_ring g"
  using assms by (cases "(p, g)" rule: exec.cases)
    (auto simp: try_preempt_state_def Let_def set_preempt_state_def split: if_splits option.splits)

lemma preempt_save_frame:
  assumes "preempt_save g r = Some g'"
  shows "nr_rings g' = nr_rings g" "rb g' = rb g" "cur_ring g' = cur_ring g" "next_ring g' = next_ring g"
    "preempt_st g' = preempt_st g" "preempt_iova g' = preempt_iova g" "shape g \<Longrightarrow> shape g'"
    "target_ok g' = target_ok g" "current_ok g' = current_ok g" "rings_ok g' = rings_ok g"
  using assms by (auto simp: preempt_save_def shape_def nth_list_update split: option.splits)

lemma exec_frame:
  assumes "exec p g = Some (p', g')"
  shows "nr_rings g' = nr_rings g" "shape g \<Longrightarrow> shape g'"
proof -
  show nr: "nr_rings g' = nr_rings g"
    using assms by (cases "(p, g)" rule: exec.cases)
      (auto simp: try_preempt_state_def Let_def set_preempt_state_def preempt_save_frame
        split: if_splits option.splits)
  show "shape g'" if "shape g"
    using assms that preempt_save_frame(7) by (cases "(p, g)" rule: exec.cases)
      (auto simp: try_preempt_state_def Let_def set_preempt_state_def shape_rb shape_length
        split: if_splits option.splits)
qed

text \<open>The steps of the state machine, seen from the thread that acts.\<close>

lemma exec_phase:
  assumes "exec p g = Some (p', g')" "phase p = Some (preempt_st g)"
  shows "phase p' = Some (preempt_st g') \<or> phase p' = None \<and> \<not> busy (preempt_st g')"
  using assms by (cases "(p, g)" rule: exec.cases)
    (auto simp: read_cur_wptr_def set_preempt_state_def busy_def preempt_save_frame
      split: if_splits option.splits)

lemma exec_enter:
  assumes "exec p g = Some (p', g')" "phase p = None"
  shows "phase p' = None \<and> preempt_st g' = preempt_st g \<or>
    \<not> busy (preempt_st g) \<and> (phase p' = Some (preempt_st g') \<or> phase p' = None \<and> \<not> busy (preempt_st g'))"
  using assms by (cases "(p, g)" rule: exec.cases)
    (auto simp: try_preempt_state_def set_preempt_state_def busy_def Let_def split: if_splits option.splits)

lemma exec_pc_ok:
  assumes "exec p g = Some (p', g')" "pc_ok g p"
    and "preempt_st g = PREEMPT_TRIGGERED \<longrightarrow> target_ok g"
  shows "pc_ok g' p'"
  using assms by (cases "(p, g)" rule: exec.cases)
    (auto simp: read_cur_wptr_def try_preempt_state_def set_preempt_state_def Let_def
      preempt_save_frame target_ok_def [of "g\<lparr>next_ring := y\<rparr>" for y] split: if_splits option.splits)

lemma current_ok_target: "target_ok g \<Longrightarrow> current_ok (g\<lparr>cur_ring := next_ring g\<rparr>)"
  by (auto simp: target_ok_def current_ok_def split: option.splits)

lemma exec_current_ok:
  assumes "exec p g = Some (p', g')" "pc_ok g p" "current_ok g"
  shows "current_ok g'"
  using assms by (cases "(p, g)" rule: exec.cases)
    (auto simp: try_preempt_state_def set_preempt_state_def Let_def current_ok_target
      preempt_save_frame split: if_splits)

lemma exec_target_ok:
  assumes "exec p g = Some (p', g')" "pc_ok g p" "preempt_st g' = PREEMPT_TRIGGERED"
    and "preempt_st g = PREEMPT_TRIGGERED \<longrightarrow> target_ok g"
    and "phase p \<noteq> None \<longrightarrow> phase p = Some (preempt_st g)"
  shows "target_ok g'"
  using assms by (cases "(p, g)" rule: exec.cases)
    (auto simp: try_preempt_state_def set_preempt_state_def Let_def
      preempt_save_frame split: if_splits)

lemma OUT_RING_ok:
  "rg_rptr (OUT_RING ring d) = rg_rptr ring" "rg_cur (OUT_RING ring d) = rg_cur ring"
  "rg_next ring \<le> RING_DWORDS \<Longrightarrow> rg_next (OUT_RING ring d) \<le> RING_DWORDS"
  by (auto simp: OUT_RING_def Let_def RING_DWORDS_def)

lemma rings_ok_update:
  "rings_ok g \<Longrightarrow> rg_rptr ring = 0 \<Longrightarrow> rg_next ring \<le> RING_DWORDS \<Longrightarrow> rg_cur ring \<le> RING_DWORDS \<Longrightarrow>
   rings_ok (g\<lparr>rb := (rb g)[r := ring]\<rparr>)"
  by (auto simp: rings_ok_def dest!: subsetD [OF set_update_subset_insert])

lemma rings_okD:
  "rings_ok g \<Longrightarrow> r < length (rb g) \<Longrightarrow>
   rg_rptr (rb g ! r) = 0 \<and> rg_next (rb g ! r) \<le> RING_DWORDS \<and> rg_cur (rb g ! r) \<le> RING_DWORDS"
  by (simp add: rings_ok_def)

lemma exec_rings_ok:
  assumes "exec p g = Some (p', g')" "rings_ok g"
  shows "rings_ok g'"
  using assms by (cases "(p, g)" rule: exec.cases)
    (auto simp: try_preempt_state_def set_preempt_state_def Let_def OUT_RING_ok rings_okD
      preempt_save_frame split: if_splits intro!: rings_ok_update)

text \<open>The assertion at the program counter of a thread outside the sections is stable.\<close>

lemma pc_ok_stable:
  assumes "pc_ok g p" "nr_rings g' = nr_rings g"
    and "phase p = None \<or> cur_ring g' = cur_ring g \<and> next_ring g' = next_ring g"
  shows "pc_ok g' p"
  using assms by (cases "(g, p)" rule: pc_ok.cases) (auto simp: target_ok_def split: option.splits)

lemma exec_inv:
  assumes "preempt_inv (ts, g)" "i < length ts" "exec (ts ! i) g = Some (p', g')"
  shows "preempt_inv (ts[i := p'], g')"
proof -
  let ?p = "ts ! i"
  from assms(1) have inv: "shape g" "current_ok g" "rings_ok g" "pre.held ts (preempt_st g)"
      "preempt_st g = PREEMPT_TRIGGERED \<longrightarrow> target_ok g"
    and ok: "\<And>j. j < length ts \<Longrightarrow> pc_ok g (ts ! j)"
    by (auto simp: preempt_inv_def)
  have own: "phase ?p = None \<or> phase ?p = Some (preempt_st g)"
    using pre.held_phase [OF inv(4) assms(2)] by (cases "phase ?p") auto
  have held: "pre.held (ts[i := p']) (preempt_st g')"
    by (rule pre.held_update [OF inv(4) assms(2)])
      (use own exec_phase [OF assms(3)] exec_enter [OF assms(3)] in auto)
  have other: "pc_ok g' (ts ! j)" if j: "j < length ts" "j \<noteq> i" for j
  proof (rule pc_ok_stable [OF ok [OF j(1)] exec_frame(1) [OF assms(3)]])
    show "phase (ts ! j) = None \<or> cur_ring g' = cur_ring g \<and> next_ring g' = next_ring g"
      using pre.held_unique [OF inv(4) j(1) assms(2) j(2)] exec_outside [OF assms(3)] by auto
  qed
  have "pc_ok g' p'"
    by (rule exec_pc_ok [OF assms(3) ok [OF assms(2)] inv(5)])
  then have "pc_ok g' (ts[i := p'] ! j)" if "j < length (ts[i := p'])" for j
    using other that by (cases "j = i") auto
  moreover have "preempt_st g' = PREEMPT_TRIGGERED \<longrightarrow> target_ok g'"
    using exec_target_ok [OF assms(3) ok [OF assms(2)] _ inv(5)] own by auto
  ultimately show ?thesis
    using held exec_frame(2) [OF assms(3)] exec_current_ok [OF assms(3) ok [OF assms(2)]]
      exec_rings_ok [OF assms(3)] inv by (simp add: preempt_inv_def)
qed

lemma inv_append:
  "preempt_inv (ts, g) \<Longrightarrow> phase p = None \<Longrightarrow> pc_ok g p \<Longrightarrow> preempt_inv (ts @ [p], g)"
  by (auto simp: preempt_inv_def pre.held_append nth_append less_Suc_eq)

text \<open>A change of the state that concerns neither the rings nor the state machine.\<close>

lemma inv_environment:
  assumes "preempt_inv (ts, g)" "shape g'" "rings_ok g'" "nr_rings g' = nr_rings g"
    "cur_ring g' = cur_ring g" "next_ring g' = next_ring g" "preempt_st g' = preempt_st g"
  shows "preempt_inv (ts, g')"
  using assms pc_ok_stable [of g _ g'] by (auto simp: preempt_inv_def current_ok_def target_ok_def)

lemma event_inv:
  assumes "preempt_inv s" "event_step e s = Some s'"
  shows "preempt_inv s'"
proof (cases s)
  case (Pair ts g)
  note inv = assms(1) [unfolded Pair] and step = assms(2) [unfolded Pair]
  from inv have sh: "shape g" "rings_ok g" by (auto simp: preempt_inv_def)
  show ?thesis
  proof (cases e)
    case (Act i)
    with step inv show ?thesis by (auto split: if_splits intro: exec_inv)
  next
    case (Cp_Record r rec)
    with step inv sh show ?thesis
      by (auto split: if_splits intro!: inv_environment [OF inv] simp: shape_def nth_list_update)
  qed (use step inv sh in \<open>auto split: if_splits intro!: inv_append inv_environment [OF inv]\<close>)
qed

lemma reset_records_frame:
  assumes "reset_records g n = Some g'"
  shows "nr_rings g' = nr_rings g \<and> rb g' = rb g \<and> cur_ring g' = cur_ring g \<and> (shape g \<longrightarrow> shape g')"
  using assms by (induction n arbitrary: g')
    (auto split: option.splits simp: shape_def nth_list_update)

lemma hw_init_succeeds:
  assumes "shape g"
  shows "a5xx_preempt_hw_init g \<noteq> None"
proof -
  let ?g = "g\<lparr>cur_ring := Some 0\<rparr>"
  have "n \<le> nr_rings ?g \<Longrightarrow> reset_records ?g n \<noteq> None" for n
  proof (induction n)
    case (Suc n)
    then obtain g' where g': "reset_records ?g n = Some g'" by auto
    with assms reset_records_frame [OF g'] have "shape g'" "nr_rings g' = nr_rings g" by auto
    moreover then obtain rec where "preempt g' ! n = Some rec"
      using Suc.prems by (auto simp: shape_def Suc_le_eq)
    ultimately show ?case using g' Suc.prems by (simp add: arr_get_def shape_length shape_max)
  qed simp
  from this [of "nr_rings ?g"] show ?thesis by (auto simp: a5xx_preempt_hw_init_def Let_def)
qed

lemma preempt_reachable_inv:
  assumes "reachable g0 s" "shape g0"
  shows "preempt_inv s"
  using assms
proof (induction rule: reachable.induct)
  case (start g)
  let ?g = "g0\<lparr>rb := map adreno_hw_init_ring (rb g0), cur_ring := Some 0\<rparr>"
  from start(2) have "shape ?g" by (simp add: shape_rb shape_length)
  moreover from start(2) have "nr_rings ?g \<noteq> 1" by (simp add: shape_def)
  ultimately obtain g' where "reset_records ?g (nr_rings ?g) = Some g'"
      and g: "g = set_preempt_state (g'\<lparr>cp_context_switch_smmu_info := 0\<rparr>) PREEMPT_NONE" and "shape g'"
    using start(1) reset_records_frame by (auto simp: a5xx_preempt_hw_init_def Let_def)
  with reset_records_frame [of ?g "nr_rings ?g" g'] show ?case
    using start(2)
    by (auto simp: preempt_inv_def set_preempt_state_def shape_def current_ok_def rings_ok_def
        adreno_hw_init_ring_def pre.held_def busy_def List.map_filter_def)
next
  case (step s e s')
  then show ?case by (blast intro: event_inv)
qed

section \<open>A thread that is not disturbed\<close>

fun exec_n :: "nat \<Rightarrow> pc \<Rightarrow> a5xx_gpu \<Rightarrow> (pc \<times> a5xx_gpu) option" where
  "exec_n 0 p g = Some (p, g)"
| "exec_n (Suc n) p g = (case exec p g of None \<Rightarrow> None | Some (p', g') \<Rightarrow> exec_n n p' g')"

lemma exec_n_Done [simp]: "exec_n n Done g = Some (Done, g)"
  by (induction n) auto

lemma exec_n_numeral:
  "exec_n (numeral k) p g = (case exec p g of None \<Rightarrow> None | Some (p', g') \<Rightarrow> exec_n (pred_numeral k) p' g')"
  by (simp add: numeral_eq_Suc)

lemma exec_n_add_numeral:
  "exec_n (numeral k + n) p g = (case exec p g of None \<Rightarrow> None | Some (p', g') \<Rightarrow> exec_n (pred_numeral k + n) p' g')"
  by (simp add: numeral_eq_Suc)

lemmas exec_n_simps = exec_n_numeral exec_n_add_numeral

text \<open>The scan of the rings ends in the choice of \<open>next_ring_from\<close>.\<close>

lemma exec_n_scan:
  assumes "\<And>k sel. K \<le> k \<Longrightarrow> exec_n k (T_Select sel) g = R sel" "nr_rings g - i + 1 + K \<le> n"
  shows "exec_n n (T_Scan i) g = (case next_ring_from g i of None \<Rightarrow> None | Some sel \<Rightarrow> R sel)"
  using assms
proof (induction g i arbitrary: n rule: next_ring_from.induct)
  case (1 g i)
  obtain m where n: "n = Suc m" and m: "nr_rings g - i + K \<le> m"
    using 1(3) by (cases n) auto
  have sel: "exec_n m (T_Select sel) g = R sel" for sel
    by (rule 1(2)) (use m in simp)
  show ?case
  proof (cases "i < nr_rings g")
    case True
    then have m': "nr_rings g - Suc i + 1 + K \<le> m" using m by simp
    show ?thesis
    proof (cases "arr_get (rb g) i")
      case None
      with True show ?thesis by (simp add: n next_ring_from.simps [of g i])
    next
      case (Some ring)
      show ?thesis
      proof (cases "get_wptr ring = rg_rptr ring")
        case True': True
        have "exec_n m (T_Scan (Suc i)) g = (case next_ring_from g (Suc i) of None \<Rightarrow> None | Some sel \<Rightarrow> R sel)"
          using 1(1) [OF True Some _ 1(2) m'] True' by simp
        with True True' Some show ?thesis by (simp add: n next_ring_from.simps [of g i] del: arr_get_Some)
      next
        case False
        with True Some sel show ?thesis by (simp add: n next_ring_from.simps [of g i] del: arr_get_Some)
      qed
    qed
  next
    case False
    with sel show ?thesis by (simp add: n next_ring_from.simps [of g i])
  qed
qed

text \<open>What follows the choice, in one piece.\<close>

definition after_select :: "a5xx_gpu \<Rightarrow> nat option \<Rightarrow> a5xx_gpu option" where
  "after_select g ring =
     (if ring = None \<or> cur_ring g = ring
      then map_option (\<lambda>g. set_preempt_state g PREEMPT_NONE)
             (update_wptr (set_preempt_state g PREEMPT_ABORT) (cur_ring g))
      else case (preempt_save g (the ring), arr_get (preempt_iova g) (the ring)) of
        (Some g, Some iova) \<Rightarrow>
          Some (set_preempt_state (g\<lparr>cp_context_switch_restore_addr := iova, next_ring := ring,
            preempt_timer := True\<rparr>) PREEMPT_TRIGGERED \<lparr>cp_context_switch_cntl := 1\<rparr>)
      | _ \<Rightarrow> None)"

lemma exec_n_select:
  assumes "7 \<le> k"
  shows "exec_n k (T_Select ring) g = map_option (Pair Done) (after_select g ring)"
proof -
  from assms obtain n where k: "k = 7 + n" using le_iff_add by blast
  show ?thesis
    unfolding k
    by (cases ring; cases "cur_ring g")
      (auto simp: exec_n_simps after_select_def read_cur_wptr_def set_preempt_state_def preempt_save_frame
        arr_get_def split: option.splits)
qed

lemma a5xx_preempt_trigger_alt:
  "a5xx_preempt_trigger g =
     (if nr_rings g = 1 \<or> preempt_st g \<noteq> PREEMPT_NONE then Some g
      else let g = g\<lparr>preempt_st := PREEMPT_START\<rparr>
           in Option.bind (get_next_ring g) (after_select g))"
  by (auto simp: a5xx_preempt_trigger_def try_preempt_state_def after_select_def set_preempt_state_def Let_def
      arr_get_def split: option.splits)

lemma exec_n_trigger:
  "nr_rings g + 9 \<le> n \<Longrightarrow> exec_n n T_Cas g = map_option (Pair Done) (a5xx_preempt_trigger g)"
  apply (cases n)
   apply simp
  apply (simp add: a5xx_preempt_trigger_alt try_preempt_state_def Let_def get_next_ring_def)
  apply (intro impI)
  apply (subst exec_n_scan [where K = 7, OF exec_n_select])
    apply (auto split: option.split)
  done

lemma exec_n_irq:
  "exec_n (8 + k) I_Cas g = map_option (Pair Done) (a5xx_preempt_irq g)"
  by (cases "next_ring g")
    (auto simp: exec_n_simps a5xx_preempt_irq_def try_preempt_state_def set_preempt_state_def Let_def
      read_cur_wptr_def arr_get_def split: option.splits)

lemma exec_n_timer: "exec_n (2 + k) W_Cas g = Some (Done, a5xx_preempt_timer g)"
  by (auto simp: exec_n_simps a5xx_preempt_timer_def try_preempt_state_def)

lemma exec_n_flush:
  assumes "nr_rings g + 13 \<le> n"
  shows "exec_n n (F_Commit r) g =
    map_option (Pair Done) (Option.bind (a5xx_flush g r) a5xx_preempt_trigger)"
proof -
  define k where "k = n - 4"
  then have n: "n = Suc (Suc (Suc (Suc k)))" and k: "nr_rings g + 9 \<le> k"
    using assms by auto
  note step = exec_n.simps(2) [of _ "F_Commit r"] exec_n.simps(2) [of _ "F_Check r w" for w]
    exec_n.simps(2) [of _ "F_State w" for w] exec_n.simps(2) [of _ "F_Write w" for w]
  show ?thesis
    using k unfolding n a5xx_flush_def
    by (auto simp: step Let_def a5xx_in_preempt_def arr_get_def exec_n_trigger simp del: exec_n.simps)
qed

text \<open>The choice of the next ring when the read pointers in memory are 0.\<close>

lemma get_next_ring_rptr0:
  assumes "shape g" "rings_ok g"
  shows "get_next_ring g = Some (find (\<lambda>i. get_wptr (rb g ! i) \<noteq> 0) [0..<nr_rings g])"
proof -
  have "next_ring_from g i = Some (find (\<lambda>i. get_wptr (rb g ! i) \<noteq> 0) [i..<nr_rings g])" for i
    using assms
  proof (induction g i rule: next_ring_from.induct)
    case (1 g i)
    show ?case
    proof (cases "i < nr_rings g")
      case True
      with 1(2,3) have "arr_get (rb g) i = Some (rb g ! i)" "rg_rptr (rb g ! i) = 0"
        by (simp_all add: shape_length rings_okD)
      with 1 True show ?thesis by (simp add: next_ring_from.simps [of g i] upt_conv_Cons del: arr_get_Some)
    next
      case False
      then show ?thesis by (simp add: next_ring_from.simps [of g i])
    qed
  qed
  then show ?thesis by (simp add: get_next_ring_def)
qed

section \<open>Properties\<close>

text \<open>A GPU with two rings before its first initialisation.\<close>

definition two_ring_gpu :: a5xx_gpu where
  "two_ring_gpu =
     (let ring = \<lparr>rg_start = \<lambda>_. 0, rg_cur = 0, rg_next = 0, rg_rptr = 0, rg_iova = 0x1000\<rparr>;
          rec = \<lparr>pr_magic = A5XX_PREEMPT_RECORD_MAGIC, pr_info = 0, pr_data = 0, pr_cntl = RB_CNTL, pr_rptr = 0,
                 pr_wptr = 0, pr_rptr_addr = 0, pr_rbase = 0, pr_counter = 0\<rparr>
      in \<lparr>nr_rings = 2, rb = [ring, ring], cur_ring = None, next_ring = None,
          preempt_bo = [Some 1, Some 3, None, None], preempt_counters_bo = [Some 2, Some 4, None, None],
          preempt = [Some rec, Some rec, None, None], preempt_iova = [0x2000, 0x3000, 0, 0],
          preempt_st = PREEMPT_NONE, preempt_timer = False, shadow_iova = 0x4000, shadow = [0, 0],
          has_whereami = True, cp_rb_wptr = 0, cp_context_switch_cntl = 0, cp_context_switch_restore_addr = 0,
          cp_context_switch_smmu_info = 0, recover_work = 0, gem_puts = []\<rparr>)"

definition two_ring_start :: system where
  "two_ring_start = ([], the (a5xx_preempt_hw_init
     (two_ring_gpu\<lparr>rb := map adreno_hw_init_ring (rb two_ring_gpu)\<rparr>)))"

lemma two_ring_shape: "shape two_ring_gpu"
  by (simp add: shape_def two_ring_gpu_def Let_def MSM_GPU_MAX_RINGS_def less_Suc_eq numeral_2_eq_2)

lemma two_ring_start_reachable: "reachable two_ring_gpu two_ring_start"
  unfolding two_ring_start_def
  by (rule reachable.start)
    (use hw_init_succeeds [of "two_ring_gpu\<lparr>rb := map adreno_hw_init_ring (rb two_ring_gpu)\<rparr>"] two_ring_shape
      in \<open>auto simp: shape_rb shape_length\<close>)

lemma run_events_reachable:
  "reachable g0 s \<Longrightarrow> run_events es s = Some s' \<Longrightarrow> reachable g0 s'"
  by (induction es arbitrary: s) (auto split: bind_splits intro: reachable.step)

lemma case_run:
  "(case r of None \<Rightarrow> False | Some (ts, g) \<Rightarrow> P ts g) \<Longrightarrow> \<exists>ts g. r = Some (ts, g) \<and> P ts g"
  by (auto split: option.splits)

text \<open>A thread performs \<open>n\<close> actions in a row.\<close>

abbreviation (input) acts :: "nat \<Rightarrow> nat \<Rightarrow> event list" where
  "acts n i \<equiv> replicate n (Act i)"

text \<open>
  C26: Under every interleaving of submissions, interrupts, the watchdog and the command
  processor, the value of \<^verbatim>\<open>preempt_state\<close> says who is inside the preemption code: nobody
  when it is \<^verbatim>\<open>NONE\<close>, \<^verbatim>\<open>TRIGGERED\<close> or \<^verbatim>\<open>FAULTED\<close>, and exactly one thread, in the section the value
  names, otherwise.  The current ring always exists, a triggered preemption always has another
  existing ring as its target, and no thread follows a null pointer.
\<close>

theorem a5xx_preempt_exclusive:
  assumes "reachable g0 (ts, g)" "shape g0"
  shows "List.map_filter phase ts =
      (if preempt_st g \<in> {PREEMPT_START, PREEMPT_ABORT, PREEMPT_PENDING} then [preempt_st g] else []) \<and>
    (\<exists>c. cur_ring g = Some c \<and> c < nr_rings g) \<and>
    (preempt_st g = PREEMPT_TRIGGERED \<longrightarrow> (\<exists>r. next_ring g = Some r \<and> r < nr_rings g \<and> cur_ring g \<noteq> Some r)) \<and>
    list_all (\<lambda>p. exec p g \<noteq> None) ts"
proof (intro conjI)
  note inv = preempt_reachable_inv [OF assms]
  from inv have sh: "shape g" "current_ok g" by (auto simp: preempt_inv_def)
  show "List.map_filter phase ts =
      (if preempt_st g \<in> {PREEMPT_START, PREEMPT_ABORT, PREEMPT_PENDING} then [preempt_st g] else [])"
    using inv by (simp add: preempt_inv_def pre.held_def busy_def)
  show "\<exists>c. cur_ring g = Some c \<and> c < nr_rings g"
    using sh by (auto simp: current_ok_def)
  show "preempt_st g = PREEMPT_TRIGGERED \<longrightarrow> (\<exists>r. next_ring g = Some r \<and> r < nr_rings g \<and> cur_ring g \<noteq> Some r)"
    using inv by (auto simp: preempt_inv_def target_ok_def)
  show "list_all (\<lambda>p. exec p g \<noteq> None) ts"
    using inv exec_total [OF sh] by (auto simp: preempt_inv_def list_all_length)
qed

text \<open>The witness: in the middle of the first preemption of the example.\<close>

definition mid_preemption :: system where
  "mid_preemption = the (run_events ([Submit 1 [7]] @ acts 13 0 @ [Cp_Irq]) two_ring_start)"

lemma mid_preemption_reachable: "reachable two_ring_gpu mid_preemption"
proof (rule run_events_reachable [OF two_ring_start_reachable])
  have "\<not> Option.is_none (run_events ([Submit 1 [7]] @ acts 13 0 @ [Cp_Irq]) two_ring_start)"
    by code_simp
  then show "run_events ([Submit 1 [7]] @ acts 13 0 @ [Cp_Irq]) two_ring_start = Some mid_preemption"
    unfolding mid_preemption_def by (metis Option.is_none_def option.collapse)
qed

theorem a5xx_preempt_exclusive_witness:
  "preempt_st (snd mid_preemption) = PREEMPT_TRIGGERED \<and> List.map_filter phase (fst mid_preemption) = [] \<and>
   (\<exists>r. next_ring (snd mid_preemption) = Some r \<and> cur_ring (snd mid_preemption) \<noteq> Some r) \<and>
   list_all (\<lambda>p. exec p (snd mid_preemption) \<noteq> None) (fst mid_preemption)"
proof -
  have st: "preempt_st (snd mid_preemption) = PREEMPT_TRIGGERED" by code_simp
  have reach: "reachable two_ring_gpu (fst mid_preemption, snd mid_preemption)"
    using mid_preemption_reachable by simp
  from st a5xx_preempt_exclusive [OF reach two_ring_shape] show ?thesis by auto
qed

text \<open>
  The two readings of the code agree: a thread that is not disturbed does what the functions of the source do when they are read
  sequentially, also when it fails: its actions from the entry of
  \<^verbatim>\<open>a5xx_preempt_trigger\<close>, \<^verbatim>\<open>a5xx_preempt_irq\<close>, \<^verbatim>\<open>a5xx_preempt_timer\<close>, and of the flush and trigger at the
  end of a submission, end after a bounded number of steps in the state the function returns.
\<close>

theorem a5xx_preempt_actions_refine:
  "exec_n (nr_rings g + 9 + k) T_Cas g = map_option (Pair Done) (a5xx_preempt_trigger g) \<and>
   exec_n (8 + k) I_Cas g = map_option (Pair Done) (a5xx_preempt_irq g) \<and>
   exec_n (2 + k) W_Cas g = Some (Done, a5xx_preempt_timer g) \<and>
   exec_n (nr_rings g + 13 + k) (F_Commit r) g =
     map_option (Pair Done) (Option.bind (a5xx_flush g r) a5xx_preempt_trigger)"
proof (intro conjI)
  show "exec_n (nr_rings g + 9 + k) T_Cas g = map_option (Pair Done) (a5xx_preempt_trigger g)"
    by (rule exec_n_trigger) simp
  show "exec_n (nr_rings g + 13 + k) (F_Commit r) g =
     map_option (Pair Done) (Option.bind (a5xx_flush g r) a5xx_preempt_trigger)"
    by (rule exec_n_flush) simp
qed (rule exec_n_irq exec_n_timer)+

section \<open>What the code does not do\<close>

text \<open>
  A submission to the ring of the highest priority can be lost.  The interrupt of a finished
  submission on ring 1 starts \<^verbatim>\<open>a5xx_preempt_trigger\<close> and finds ring 0 empty; then a submission to
  ring 0 is flushed and gives up on preemption because the state is \<^verbatim>\<open>PREEMPT_START\<close>; then the
  interrupt goes on with its outdated view and returns to \<^verbatim>\<open>PREEMPT_NONE\<close>.  In the end no thread is
  active, ring 1 is current and drained, ring 0 is not, and nothing will switch to it, although
  another look at the rings would.
\<close>

theorem a5xx_preempt_loses_submission:
  "\<exists>ts g. run_events ([Submit 1 [7]] @ acts 20 0 @ [Cp_Cntl 0, Cp_Irq] @ acts 8 1 @
       [Cp_Shadow 1 1, Retire_Irq] @ acts 2 2 @ [Submit 0 [9]] @ acts 5 3 @ acts 8 2) two_ring_start = Some (ts, g) \<and>
     list_all (\<lambda>p. p = Done) ts \<and> preempt_st g = PREEMPT_NONE \<and> cur_ring g = Some 1 \<and>
     a5xx_get_rptr g 1 = Some (get_wptr (rb g ! 1)) \<and> a5xx_get_rptr g 0 \<noteq> Some (get_wptr (rb g ! 0)) \<and>
     map_option next_ring (a5xx_preempt_trigger g) = Some (Some 0)"
proof -
  have "case run_events ([Submit 1 [7]] @ acts 20 0 @ [Cp_Cntl 0, Cp_Irq] @ acts 8 1 @
       [Cp_Shadow 1 1, Retire_Irq] @ acts 2 2 @ [Submit 0 [9]] @ acts 5 3 @ acts 8 2) two_ring_start
    of None \<Rightarrow> False | Some (ts, g) \<Rightarrow>
     list_all (\<lambda>p. p = Done) ts \<and> preempt_st g = PREEMPT_NONE \<and> cur_ring g = Some 1 \<and>
     a5xx_get_rptr g 1 = Some (get_wptr (rb g ! 1)) \<and> a5xx_get_rptr g 0 \<noteq> Some (get_wptr (rb g ! 0)) \<and>
     map_option next_ring (a5xx_preempt_trigger g) = Some (Some 0)"
    by code_simp
  then show ?thesis by (rule case_run)
qed

text \<open>
  Whether a ring is empty is decided from \<^verbatim>\<open>memptrs->rptr\<close>, which with preemption nobody updates
  after the initialisation: the command processor reports its position in the shadow that
  \<^verbatim>\<open>a5xx_get_rptr\<close> reads.  So in every reachable state a ring counts as empty exactly when its
  write pointer is 0, and as long as ring 0 is current and its write pointer is not 0 the trigger
  stays with ring 0, whatever has been consumed there and whatever waits on the other rings.
\<close>

theorem a5xx_preempt_starves_rings:
  assumes "reachable g0 (ts, g)" "shape g0"
  shows "get_next_ring g = Some (find (\<lambda>i. get_wptr (rb g ! i) \<noteq> 0) [0..<nr_rings g]) \<and>
    (preempt_st g = PREEMPT_NONE \<and> cur_ring g = Some 0 \<and> get_wptr (rb g ! 0) \<noteq> 0 \<longrightarrow>
      a5xx_preempt_trigger g = Some (g\<lparr>cp_rb_wptr := get_wptr (rb g ! 0)\<rparr>))"
proof (intro conjI impI)
  note inv = preempt_reachable_inv [OF assms]
  from inv have sh: "shape g" "rings_ok g" by (auto simp: preempt_inv_def)
  note next0 = get_next_ring_rptr0 [OF sh]
  show "get_next_ring g = Some (find (\<lambda>i. get_wptr (rb g ! i) \<noteq> 0) [0..<nr_rings g])"
    by (rule next0)
  assume "preempt_st g = PREEMPT_NONE \<and> cur_ring g = Some 0 \<and> get_wptr (rb g ! 0) \<noteq> 0"
  then have g: "preempt_st g = PREEMPT_NONE" "cur_ring g = Some 0" "get_wptr (rb g ! 0) \<noteq> 0" by blast+
  let ?g = "g\<lparr>preempt_st := PREEMPT_START\<rparr>"
  have "get_next_ring ?g = Some (Some 0)"
    using get_next_ring_rptr0 [of ?g] sh g(3) by (simp add: shape_def upt_conv_Cons)
  with g sh(1) show "a5xx_preempt_trigger g = Some (g\<lparr>cp_rb_wptr := get_wptr (rb g ! 0)\<rparr>)"
    by (auto simp: a5xx_preempt_trigger_alt Let_def after_select_def set_preempt_state_def arr_get_def
        shape_def)
qed

definition drained_ring0 :: system where
  "drained_ring0 = the (run_events ([Submit 0 [7]] @ acts 20 0 @ [Cp_Shadow 0 1, Submit 1 [9]] @ acts 20 1) two_ring_start)"

lemma drained_ring0_reachable: "reachable two_ring_gpu drained_ring0"
proof (rule run_events_reachable [OF two_ring_start_reachable])
  have "\<not> Option.is_none
      (run_events ([Submit 0 [7]] @ acts 20 0 @ [Cp_Shadow 0 1, Submit 1 [9]] @ acts 20 1) two_ring_start)"
    by code_simp
  then show "run_events ([Submit 0 [7]] @ acts 20 0 @ [Cp_Shadow 0 1, Submit 1 [9]] @ acts 20 1) two_ring_start =
      Some drained_ring0"
    unfolding drained_ring0_def by (metis Option.is_none_def option.collapse)
qed

text \<open>Ring 0 is drained, ring 1 has work, all threads are done, and another trigger keeps ring 0.\<close>

theorem a5xx_preempt_starves_rings_witness:
  "case drained_ring0 of (ts, g) \<Rightarrow>
     list_all (\<lambda>p. p = Done) ts \<and> a5xx_get_rptr g 0 = Some (get_wptr (rb g ! 0)) \<and>
     a5xx_get_rptr g 1 \<noteq> Some (get_wptr (rb g ! 1)) \<and> get_next_ring g = Some (Some 0) \<and>
     a5xx_preempt_trigger g = Some (g\<lparr>cp_rb_wptr := get_wptr (rb g ! 0)\<rparr>)"
proof -
  obtain ts g where tg: "drained_ring0 = (ts, g)" by (cases drained_ring0)
  have "case drained_ring0 of (ts, g) \<Rightarrow>
     list_all (\<lambda>p. p = Done) ts \<and> a5xx_get_rptr g 0 = Some (get_wptr (rb g ! 0)) \<and>
     a5xx_get_rptr g 1 \<noteq> Some (get_wptr (rb g ! 1)) \<and> preempt_st g = PREEMPT_NONE \<and> cur_ring g = Some 0 \<and>
     get_wptr (rb g ! 0) \<noteq> 0 \<and> nr_rings g = 2"
    by code_simp
  moreover note a5xx_preempt_starves_rings [OF drained_ring0_reachable [unfolded tg] two_ring_shape]
  ultimately show ?thesis unfolding tg by (simp add: upt_rec)
qed

text \<open>
  A failure while the records are set up releases the objects of the rings done so far and turns
  preemption off, but keeps the pointers, so that \<^verbatim>\<open>a5xx_preempt_fini\<close> of \<^verbatim>\<open>a5xx_destroy\<close> releases
  those of ring 0 a second time.
\<close>

theorem a5xx_preempt_fini_releases_twice:
  assumes "nr_rings g = 2" "preempt_bo g = replicate 4 None" "preempt_counters_bo g = replicate 4 None"
    and "kernel_new 0 = Inr (b, a)" "kernel_new 1 = Inr (c, d)" "kernel_new 2 = Inl e" "e \<noteq> 0"
  shows "gem_puts (a5xx_preempt_fini (a5xx_preempt_init kernel_new raw g)) = gem_puts g @ [b, c, b, c]"
  using assms
  by (simp add: a5xx_preempt_init_def a5xx_preempt_fini_def preempt_init_ring_def msm_gem_kernel_put_def
      numeral_2_eq_2 numeral_eq_Suc)

end
