(* ===== verification/VMA.thy ===== *)
theory VMA
  imports Prelude
begin

text \<open>
  Fences of a ring (\<^verbatim>\<open>msm/msm_fence.c\<close>, \<^verbatim>\<open>msm_fence.h\<close>) and the mappings of buffer objects into GPU
  address spaces that the fences keep alive (\<^verbatim>\<open>msm/msm_gem_vma.c\<close>).

  A fence context is found by its \<^verbatim>\<open>index\<close>; \<open>ctxs\<close> is the memory they are in.  The page tables of the
  IOMMU and the range allocator \<^verbatim>\<open>drm_mm\<close> are not part of the repository: their outcomes are
  arguments, and the state keeps the ranges that are mapped and allocated.  \<open>None\<close> is an access outside
  one of the arrays of a mapping, or through a null pointer.
\<close>

section \<open>Fences (msm_fence.c, msm_fence.h)\<close>

record msm_fence_context =
  fc_name :: string
  fc_context :: u32
  fc_index :: nat
  last_fence :: u32
  completed_fence :: u32
  fenceptr :: u32
  next_deadline :: int
  next_deadline_fence :: u32
  deadline_timer :: "int option"
  deadline_queued :: bool

definition fence_before :: "u32 \<Rightarrow> u32 \<Rightarrow> bool" where
  "fence_before a b = (c_int (a - b) < 0)"

definition fence_after :: "u32 \<Rightarrow> u32 \<Rightarrow> bool" where
  "fence_after a b = (c_int (a - b) > 0)"

definition msm_fence_completed :: "msm_fence_context \<Rightarrow> u32 \<Rightarrow> bool" where
  "msm_fence_completed fctx fence =
     (c_int (completed_fence fctx - fence) \<ge> 0 \<or> c_int (fenceptr fctx - fence) \<ge> 0)"

definition msm_update_fence :: "msm_fence_context \<Rightarrow> u32 \<Rightarrow> msm_fence_context" where
  "msm_update_fence fctx fence =
     (let fctx = (if fence_after fence (completed_fence fctx) then fctx\<lparr>completed_fence := fence\<rparr> else fctx)
      in if msm_fence_completed fctx (next_deadline_fence fctx) then fctx\<lparr>deadline_timer := None\<rparr> else fctx)"

text \<open>The fence itself is identified by its sequence number; \<open>mem\<close> tells whether memory was available.\<close>

definition msm_fence_alloc :: "bool \<Rightarrow> msm_fence_context \<Rightarrow> (int + u32) \<times> msm_fence_context" where
  "msm_fence_alloc mem fctx =
     (if \<not> mem then (Inl (- ENOMEM), fctx)
      else let fctx = fctx\<lparr>last_fence := last_fence fctx + 1\<rparr> in (Inr (last_fence fctx), fctx))"

text \<open>
  \<^verbatim>\<open>index\<close> is a static variable that only grows.  \<open>context\<close> is the number from
  \<^verbatim>\<open>dma_fence_context_alloc\<close>, \<open>now\<close> the time, \<open>ptr\<close> what the memory at \<^verbatim>\<open>fenceptr\<close> holds.
\<close>

definition msm_fence_context_alloc ::
  "bool \<Rightarrow> string \<Rightarrow> u32 \<Rightarrow> int \<Rightarrow> u32 \<Rightarrow> nat \<Rightarrow> (int + msm_fence_context) \<times> nat" where
  "msm_fence_context_alloc mem name context now ptr index =
     (if \<not> mem then (Inl (- ENOMEM), index)
      else (Inr \<lparr>fc_name = take 32 name, fc_context = context, fc_index = index, last_fence = 0,
              completed_fence = 0, fenceptr = ptr, next_deadline = now, next_deadline_fence = 0,
              deadline_timer = None, deadline_queued = False\<rparr>, index + 1))"

text \<open>\<open>worker\<close>: the GPU exists and has its worker thread.\<close>

definition deadline_timer_fn :: "bool \<Rightarrow> msm_fence_context \<Rightarrow> msm_fence_context" where
  "deadline_timer_fn worker fctx =
     (let fctx = fctx\<lparr>deadline_timer := None\<rparr>
      in if worker then fctx\<lparr>deadline_queued := True\<rparr> else fctx)"

text \<open>Whether the work boosts the GPU, and the context after it.\<close>

definition deadline_work :: "bool \<Rightarrow> msm_fence_context \<Rightarrow> bool \<times> msm_fence_context" where
  "deadline_work gpu fctx =
     (let fctx = fctx\<lparr>deadline_queued := False\<rparr>
      in if \<not> gpu then (False, fctx)
         else (\<not> msm_fence_completed fctx (next_deadline_fence fctx), fctx))"

definition msm_fence_set_deadline_cb ::
  "bool \<Rightarrow> int \<Rightarrow> u32 \<Rightarrow> int \<Rightarrow> msm_fence_context \<Rightarrow> msm_fence_context" where
  "msm_fence_set_deadline_cb worker now seqno deadline fctx =
     (if now > next_deadline fctx \<or> deadline < next_deadline fctx
      then let fctx = fctx\<lparr>next_deadline := deadline\<rparr>;
               fctx = (if fence_after seqno (next_deadline_fence fctx)
                       then fctx\<lparr>next_deadline_fence := seqno\<rparr> else fctx);
               deadline = deadline - 3000000
           in if now > deadline then (if worker then fctx\<lparr>deadline_queued := True\<rparr> else fctx)
              else fctx\<lparr>deadline_timer := Some deadline\<rparr>
      else fctx)"

section \<open>Address spaces (msm_gem.h, msm_gem_vma.c)\<close>

text \<open>
  \<open>as_nodes\<close> are the ranges \<^verbatim>\<open>drm_mm\<close> has given out, \<open>as_mmu\<close> the ranges mapped in the IOMMU when the
  address space has one; \<open>as_freed\<close> is set when the last reference is dropped.
\<close>

record msm_gem_address_space =
  as_nodes :: "(u64 \<times> u64) list"
  as_mmu :: "(u64 \<times> u64) list option"
  as_kref :: nat
  as_freed :: bool
  va_start :: u64
  va_size :: u64

definition msm_gem_address_space_create ::
  "(int + (u64 \<times> u64) list option) \<Rightarrow> bool \<Rightarrow> u64 \<Rightarrow> u64 \<Rightarrow> int + msm_gem_address_space" where
  "msm_gem_address_space_create mmu mem start sz =
     (case mmu of
        Inl e \<Rightarrow> Inl e
      | Inr m \<Rightarrow>
          if \<not> mem then Inl (- ENOMEM)
          else Inr \<lparr>as_nodes = [], as_mmu = m, as_kref = 1, as_freed = False, va_start = start, va_size = sz\<rparr>)"

definition msm_gem_address_space_get :: "msm_gem_address_space \<Rightarrow> msm_gem_address_space" where
  "msm_gem_address_space_get as = as\<lparr>as_kref := as_kref as + 1\<rparr>"

definition msm_gem_address_space_destroy :: "msm_gem_address_space \<Rightarrow> msm_gem_address_space" where
  "msm_gem_address_space_destroy as = as\<lparr>as_mmu := map_option (\<lambda>_. []) (as_mmu as), as_freed := True\<rparr>"

definition msm_gem_address_space_put :: "msm_gem_address_space \<Rightarrow> msm_gem_address_space" where
  "msm_gem_address_space_put as =
     (let as = as\<lparr>as_kref := as_kref as - 1\<rparr>
      in if as_kref as = 0 then msm_gem_address_space_destroy as else as)"

section \<open>Mappings (msm_gem_vma.c)\<close>

definition MAX_RINGS :: nat where
  "MAX_RINGS = 4"

record msm_gem_vma =
  node_start :: u64
  node_size :: u64
  iova :: u64
  mapped :: bool
  inuse :: int
  fence_mask :: u32
  fence :: "u32 list"
  fctx :: "nat option list"

text \<open>A new mapping, zeroed by \<^verbatim>\<open>kzalloc\<close>.\<close>

definition zero_vma :: msm_gem_vma where
  "zero_vma = \<lparr>node_start = 0, node_size = 0, iova = 0, mapped = False, inuse = 0, fence_mask = 0,
     fence = replicate MAX_RINGS 0, fctx = replicate MAX_RINGS None\<rparr>"

text \<open>\<^verbatim>\<open>ffs\<close>: one plus the position of the lowest set bit, 0 without one.\<close>

definition ffs :: "u32 \<Rightarrow> nat" where
  "ffs w = (case find (bit w) [0..<32] of None \<Rightarrow> 0 | Some i \<Rightarrow> Suc i)"

lemma ffs_lowest:
  assumes "w \<noteq> 0"
  shows "0 < ffs w" "bit w (ffs w - 1)" "ffs w - 1 < 32"
proof -
  from assms obtain i where i: "bit w i" by (auto simp: bit_eq_iff)
  then have "i < 32" using bit_imp_le_length [of w i] by simp
  with i have "find (bit w) [0..<32] \<noteq> None" by (auto simp: find_None_iff)
  then obtain j where "find (bit w) [0..<32] = Some j" by auto
  then show "0 < ffs w" "bit w (ffs w - 1)" "ffs w - 1 < 32"
    using find_SomeD [of "bit w" "[0..<32]" j] by (auto simp: ffs_def)
qed

lemma unat_clear_bit:
  assumes "bit (w :: u32) i"
  shows "unat (w AND NOT (BIT32 i)) < unat w"
proof -
  have "w AND NOT (BIT32 i) = w - BIT32 i"
    using assms by (intro disjunctive_diff_eq_and_not [symmetric] bit_word_eqI)
      (auto simp: BIT32_def bit_simps)
  moreover have "i < 32" using bit_imp_le_length [OF assms] by simp
  then have "BIT32 i \<noteq> 0" by (auto simp: BIT32_def bit_eq_iff bit_simps)
  moreover have "BIT32 i \<le> w"
  proof -
    have "w AND BIT32 i = BIT32 i" using assms by (intro bit_word_eqI) (auto simp: BIT32_def bit_simps)
    then show ?thesis by (metis and.commute word_and_le1)
  qed
  ultimately show ?thesis
    by (metis diff_less unat_gt_0 unat_sub word_gt_0 word_le_nat_alt order_less_le_trans)
qed

text \<open>The loop of \<^verbatim>\<open>msm_gem_vma_inuse\<close>: its result and the remaining mask.\<close>

function inuse_loop ::
  "(nat \<Rightarrow> msm_fence_context) \<Rightarrow> u32 list \<Rightarrow> nat option list \<Rightarrow> u32 \<Rightarrow> (bool \<times> u32) option" where
  "inuse_loop ctxs fences fctxs msk =
     (if msk = 0 then Some (False, 0)
      else let idx = ffs msk - 1
           in case (arr_get fctxs idx, arr_get fences idx) of
                (Some (Some c), Some f) \<Rightarrow>
                  if \<not> msm_fence_completed (ctxs c) f then Some (True, msk)
                  else inuse_loop ctxs fences fctxs (msk AND NOT (BIT32 idx))
              | _ \<Rightarrow> None)"
  by pat_completeness auto
termination
  by (relation "measure (\<lambda>(_, _, _, msk). unat msk)") (use ffs_lowest(2) in \<open>auto simp: unat_clear_bit\<close>)

declare inuse_loop.simps [simp del]

definition msm_gem_vma_inuse ::
  "(nat \<Rightarrow> msm_fence_context) \<Rightarrow> msm_gem_vma \<Rightarrow> (bool \<times> msm_gem_vma) option" where
  "msm_gem_vma_inuse ctxs vma =
     (if inuse vma > 0 then Some (True, vma)
      else map_option (\<lambda>(b, msk). (b, vma\<lparr>fence_mask := msk\<rparr>))
             (inuse_loop ctxs (fence vma) (fctx vma) (fence_mask vma)))"

text \<open>
  Unmapping: \<^verbatim>\<open>GEM_WARN_ON(msm_gem_vma_inuse(vma))\<close> has the side effect of the loop on the mask.
  The size is read into an \<^verbatim>\<open>unsigned\<close>.
\<close>

definition msm_gem_purge_vma ::
  "(nat \<Rightarrow> msm_fence_context) \<Rightarrow> msm_gem_address_space \<Rightarrow> msm_gem_vma \<Rightarrow>
   (msm_gem_address_space \<times> msm_gem_vma) option" where
  "msm_gem_purge_vma ctxs as vma =
     (let sz = ucast (ucast (node_size vma) :: u32) :: u64
      in map_option
        (\<lambda>(_, vma).
           if \<not> mapped vma then (as, vma)
           else (as\<lparr>as_mmu := map_option (remove1 (iova vma, sz)) (as_mmu as)\<rparr>, vma\<lparr>mapped := False\<rparr>))
        (msm_gem_vma_inuse ctxs vma))"

definition msm_gem_unpin_vma :: "msm_gem_vma \<Rightarrow> msm_gem_vma" where
  "msm_gem_unpin_vma vma =
     (if inuse vma = 0 then vma
      else if iova vma = 0 then vma
      else vma\<lparr>inuse := inuse vma - 1\<rparr>)"

definition msm_gem_unpin_vma_fenced :: "msm_gem_vma \<Rightarrow> msm_fence_context \<Rightarrow> msm_gem_vma option" where
  "msm_gem_unpin_vma_fenced vma ctx =
     (let i = fc_index ctx
      in case (arr_set (fctx vma) i (Some i), arr_set (fence vma) i (last_fence ctx)) of
           (Some fctxs, Some fences) \<Rightarrow>
             Some (msm_gem_unpin_vma
               (vma\<lparr>fctx := fctxs, fence := fences, fence_mask := fence_mask vma OR BIT32 i\<rparr>))
         | _ \<Rightarrow> None)"

text \<open>
  The parameter \<^verbatim>\<open>int size\<close>: what the callers pass, a \<^verbatim>\<open>size_t\<close>, is cut to 32 bits, and what the
  functions pass on as a 64-bit size is extended with its sign.
\<close>

definition int_size :: "u64 \<Rightarrow> u64" where
  "int_size sz = scast (ucast sz :: u32)"

text \<open>\<open>map_ret\<close> is what the IOMMU returns; a null address space has no IOMMU.\<close>

definition msm_gem_map_vma ::
  "int \<Rightarrow> msm_gem_address_space option \<Rightarrow> msm_gem_vma \<Rightarrow> u64 \<Rightarrow>
   int \<times> msm_gem_address_space option \<times> msm_gem_vma" where
  "msm_gem_map_vma map_ret as vma sz =
     (if iova vma = 0 then (- EINVAL, as, vma)
      else let vma = vma\<lparr>inuse := inuse vma + 1\<rparr>
           in if mapped vma then (0, as, vma)
              else let vma = vma\<lparr>mapped := True\<rparr>;
                       mmu = Option.bind as as_mmu;
                       ret = (case mmu of None \<Rightarrow> 0 | Some _ \<Rightarrow> map_ret);
                       as = (if ret \<noteq> 0 then as
                             else map_option (\<lambda>a. a\<lparr>as_mmu := map_option (\<lambda>m. (iova vma, int_size sz) # m) (as_mmu a)\<rparr>) as)
                   in if ret \<noteq> 0 then (ret, as, vma\<lparr>mapped := False, inuse := inuse vma - 1\<rparr>)
                      else (ret, as, vma))"

definition msm_gem_close_vma ::
  "(nat \<Rightarrow> msm_fence_context) \<Rightarrow> msm_gem_address_space \<Rightarrow> msm_gem_vma \<Rightarrow>
   (msm_gem_address_space \<times> msm_gem_vma) option" where
  "msm_gem_close_vma ctxs as vma =
     map_option
       (\<lambda>(_, vma).
          let as = (if iova vma \<noteq> 0 then as\<lparr>as_nodes := remove1 (node_start vma, node_size vma) (as_nodes as)\<rparr> else as)
          in (msm_gem_address_space_put as, vma\<lparr>iova := 0\<rparr>))
       (msm_gem_vma_inuse ctxs vma)"

text \<open>\<open>node\<close> is the outcome of \<^verbatim>\<open>drm_mm_insert_node_in_range\<close>: an error or the start of the range.\<close>

definition msm_gem_init_vma ::
  "(int + u64) \<Rightarrow> msm_gem_address_space \<Rightarrow> msm_gem_vma \<Rightarrow> u64 \<Rightarrow>
   int \<times> msm_gem_address_space \<times> msm_gem_vma" where
  "msm_gem_init_vma node as vma sz =
     (if iova vma \<noteq> 0 then (- EBUSY, as, vma)
      else case node of
        Inl e \<Rightarrow> (e, as, vma)
      | Inr start \<Rightarrow>
          (0, msm_gem_address_space_get (as\<lparr>as_nodes := (start, int_size sz) # as_nodes as\<rparr>),
           vma\<lparr>node_start := start, node_size := int_size sz, iova := start, mapped := False\<rparr>))"

section \<open>Clearing a mapping (msm_gem.c)\<close>

text \<open>
  \<^verbatim>\<open>clear_iova\<close> on a mapping that exists: the result, the address space and the mapping, which the
  caller then removes from the object.
\<close>

definition clear_iova ::
  "(nat \<Rightarrow> msm_fence_context) \<Rightarrow> msm_gem_address_space \<Rightarrow> msm_gem_vma \<Rightarrow>
   (int \<times> msm_gem_address_space \<times> msm_gem_vma) option" where
  "clear_iova ctxs as vma =
     (case msm_gem_vma_inuse ctxs vma of
        None \<Rightarrow> None
      | Some (True, vma) \<Rightarrow> Some (- EBUSY, as, vma)
      | Some (False, vma) \<Rightarrow>
          (case msm_gem_purge_vma ctxs as vma of
             None \<Rightarrow> None
           | Some (as, vma) \<Rightarrow> map_option (Pair 0) (msm_gem_close_vma ctxs as vma)))"

end
