(* ===== verification/VMA_Correct.thy ===== *)
theory VMA_Correct
  imports VMA
begin

text \<open>
  Correctness of fences and mappings: sequence numbers of 32 bits order like unbounded ones as
  long as fewer than \<open>2 ^ 31\<close> submissions are outstanding, the loop over the fences of a
  mapping finds whether one is pending, and a mapping that the GPU may still use stays mapped.
\<close>

section \<open>Sequence numbers that wrap\<close>

text \<open>The difference of two wrapped numbers is their difference inside the window.\<close>

lemma c_int_diff:
  assumes "a < b + 2 ^ 31" "b \<le> a + 2 ^ 31"
  shows "c_int (word_of_nat a - word_of_nat b) = int a - int b"
proof -
  have "word_of_nat a - word_of_nat b = (word_of_int (int a - int b) :: u32)" by simp
  then have "c_int (word_of_nat a - word_of_nat b) = signed_take_bit 31 (int a - int b)"
    by (simp add: c_int_def signed_of_int del: of_int_diff)
  also have "\<dots> = int a - int b" using assms by (intro signed_take_bit_int_eq_self) auto
  finally show ?thesis .
qed

text \<open>
  The timeline of a ring with unbounded numbers: what the CPU knows to be completed, what the GPU
  has written, and what has been allocated.
\<close>

type_synonym timeline = "nat \<times> nat \<times> nat"

datatype fence_op = Alloc | Gpu_Write nat | Update nat

fun timeline_op :: "fence_op \<Rightarrow> timeline \<Rightarrow> timeline option" where
  "timeline_op Alloc (c, g, l) = (if l + 1 < min c g + 2 ^ 31 then Some (c, g, l + 1) else None)"
| "timeline_op (Gpu_Write n) (c, g, l) = (if g \<le> n \<and> n \<le> l then Some (c, n, l) else None)"
| "timeline_op (Update n) (c, g, l) = (if n \<le> l \<and> l < n + 2 ^ 31 then Some (max c n, g, l) else None)"

fun fence_ctx_op :: "fence_op \<Rightarrow> msm_fence_context \<Rightarrow> msm_fence_context" where
  "fence_ctx_op Alloc ctx = snd (msm_fence_alloc True ctx)"
| "fence_ctx_op (Gpu_Write n) ctx = ctx\<lparr>fenceptr := word_of_nat n\<rparr>"
| "fence_ctx_op (Update n) ctx = msm_update_fence ctx (word_of_nat n)"

fun on_timeline :: "timeline \<Rightarrow> msm_fence_context \<Rightarrow> bool" where
  "on_timeline (c, g, l) ctx =
     (c \<le> l \<and> g \<le> l \<and> l < min c g + 2 ^ 31 \<and> completed_fence ctx = word_of_nat c \<and>
      fenceptr ctx = word_of_nat g \<and> last_fence ctx = word_of_nat l)"

lemma update_fence_fields:
  "fenceptr (msm_update_fence ctx f) = fenceptr ctx" "last_fence (msm_update_fence ctx f) = last_fence ctx"
  "completed_fence (msm_update_fence ctx f) = (if fence_after f (completed_fence ctx) then f else completed_fence ctx)"
  "fc_index (msm_update_fence ctx f) = fc_index ctx"
  by (simp_all add: msm_update_fence_def Let_def)

lemma fence_after_window:
  "a < b + 2 ^ 31 \<Longrightarrow> b \<le> a + 2 ^ 31 \<Longrightarrow> fence_after (word_of_nat a) (word_of_nat b) = (b < a)"
  by (simp add: fence_after_def c_int_diff)

interpretation fence: op_simulation timeline_op fence_ctx_op on_timeline
proof
  fix a ctx x a'
  assume R: "on_timeline a ctx" and step: "timeline_op x a = Some a'"
  obtain c g l where a: "a = (c, g, l)" by (cases a)
  show "on_timeline a' (fence_ctx_op x ctx)"
  proof (cases x)
    case Alloc
    with R step a show ?thesis by (auto simp: msm_fence_alloc_def Let_def split: if_splits)
  next
    case (Gpu_Write n)
    with R step a show ?thesis by (auto split: if_splits)
  next
    case (Update n)
    with R step a have "fence_after (word_of_nat n) (word_of_nat c) = (c < n)"
      by (intro fence_after_window) (auto split: if_splits)
    with Update R step a show ?thesis by (auto simp: update_fence_fields max_def split: if_splits)
  qed
qed

lemma msm_fence_completed_window:
  assumes "on_timeline (c, g, l) ctx" "f \<le> l" "l < f + 2 ^ 31"
  shows "msm_fence_completed ctx (word_of_nat f) = (f \<le> max c g)"
  using assms by (auto simp: msm_fence_completed_def c_int_diff)

text \<open>
  C27: Completion of fences does not suffer from the wrap-around of the 32-bit sequence
  numbers.  From any starting number, after any sequence of allocations, writes of the GPU and
  updates of the CPU with fewer than \<open>2 ^ 31\<close> fences outstanding, an allocated fence of the last
  \<open>2 ^ 31\<close> is reported as completed exactly when the GPU has written, or the CPU was told, its
  number or a later one.
\<close>

theorem msm_fence_completed_timeline:
  assumes "completed_fence ctx = word_of_nat n" "fenceptr ctx = word_of_nat n" "last_fence ctx = word_of_nat n"
    and "opt_run timeline_op ops (n, n, n) = Some (c, g, l)" "f \<le> l" "l < f + 2 ^ 31"
  shows "msm_fence_completed (fold fence_ctx_op ops ctx) (word_of_nat f) = (f \<le> max c g)"
  using assms by (intro msm_fence_completed_window [OF fence.run_sim [of "(n, n, n)"]]) auto

text \<open>The witness crosses the wrap: the numbers go from \<open>2 ^ 32 - 1\<close> to 2.\<close>

theorem msm_fence_completed_timeline_witness:
  "\<exists>ctx. completed_fence ctx = - 1 \<and>
     msm_fence_completed (fold fence_ctx_op [Alloc, Alloc, Gpu_Write 4294967296, Update 4294967296, Alloc] ctx) 0 \<and>
     \<not> msm_fence_completed (fold fence_ctx_op [Alloc, Alloc, Gpu_Write 4294967296, Update 4294967296, Alloc] ctx) 1"
proof -
  define ctx where "ctx = \<lparr>fc_name = [], fc_context = 0, fc_index = 0, last_fence = - 1, completed_fence = - 1,
    fenceptr = - 1, next_deadline = 0, next_deadline_fence = 0, deadline_timer = None, deadline_queued = False\<rparr>"
  let ?ops = "[Alloc, Alloc, Gpu_Write 4294967296, Update 4294967296, Alloc]"
  have minus1: "(- 1 :: u32) = word_of_nat 4294967295" by simp
  have run: "opt_run timeline_op ?ops (4294967295, 4294967295, 4294967295) =
      Some (4294967296, 4294967296, 4294967298)" by simp
  note fin = msm_fence_completed_timeline [of ctx 4294967295 ?ops 4294967296 4294967296 4294967298]
  have yes: "msm_fence_completed (fold fence_ctx_op ?ops ctx) (word_of_nat 4294967296)"
    using fin [of 4294967296] run by (simp add: ctx_def minus1)
  have no: "\<not> msm_fence_completed (fold fence_ctx_op ?ops ctx) (word_of_nat 4294967297)"
    using fin [of 4294967297] run by (simp add: ctx_def minus1)
  have wrap: "word_of_nat 4294967296 = (0 :: u32)" "word_of_nat 4294967297 = (1 :: u32)" by simp_all
  have "completed_fence ctx = - 1" by (simp add: ctx_def)
  then show ?thesis using yes [unfolded wrap] no [unfolded wrap] by blast
qed

section \<open>Is a mapping in use?\<close>

text \<open>The pointers behind the bits of the mask are there.\<close>

definition mask_ok :: "u32 list \<Rightarrow> nat option list \<Rightarrow> u32 \<Rightarrow> bool" where
  "mask_ok fences fctxs m = (\<forall>i. bit m i \<longrightarrow> i < length fences \<and> i < length fctxs \<and> fctxs ! i \<noteq> None)"

text \<open>The fence of ring \<open>i\<close> is in the mask and has not completed.\<close>

definition pending_at :: "(nat \<Rightarrow> msm_fence_context) \<Rightarrow> u32 list \<Rightarrow> nat option list \<Rightarrow> u32 \<Rightarrow> nat \<Rightarrow> bool" where
  "pending_at ctxs fences fctxs m i = (bit m i \<and> \<not> msm_fence_completed (ctxs (the (fctxs ! i))) (fences ! i))"

lemma bit_clear: "bit (m AND NOT (BIT32 k)) i \<longleftrightarrow> bit m i \<and> i \<noteq> k"
  using bit_imp_le_length [of m i] by (auto simp: BIT32_def bit_simps)

lemma bit_set: "k < 32 \<Longrightarrow> bit (m OR BIT32 k) i \<longleftrightarrow> bit m i \<or> i = k"
  by (auto simp: BIT32_def bit_simps)

lemma inuse_loop_equiv:
  assumes "mask_ok fences fctxs m"
  shows "\<exists>m'. inuse_loop ctxs fences fctxs m = Some (\<exists>i. pending_at ctxs fences fctxs m i, m') \<and>
    (\<forall>i. bit m' i \<longrightarrow> bit m i) \<and> (\<forall>i. pending_at ctxs fences fctxs m i \<longrightarrow> bit m' i)"
  using assms
proof (induction ctxs fences fctxs m rule: inuse_loop.induct)
  case (1 ctxs fences fctxs m)
  show ?case
  proof (cases "m = 0")
    case True
    then show ?thesis by (simp add: inuse_loop.simps pending_at_def)
  next
    case False
    let ?k = "ffs m - 1"
    have k: "bit m ?k" by (rule ffs_lowest(2) [OF False])
    with 1(2) obtain c where c: "arr_get fctxs ?k = Some (Some c)" "arr_get fences ?k = Some (fences ! ?k)"
      by (auto simp: mask_ok_def)
    then have ck: "the (fctxs ! ?k) = c" by auto
    show ?thesis
    proof (cases "msm_fence_completed (ctxs c) (fences ! ?k)")
      case True
      let ?m = "m AND NOT (BIT32 ?k)"
      have p: "pending_at ctxs fences fctxs ?m i = pending_at ctxs fences fctxs m i" for i
        using True ck by (auto simp: pending_at_def bit_clear)
      have "mask_ok fences fctxs ?m" using 1(2) by (auto simp: mask_ok_def bit_clear)
      from 1(1) [OF False refl refl c(1) refl c(2) _ this] True obtain m' where
        "inuse_loop ctxs fences fctxs ?m = Some (\<exists>i. pending_at ctxs fences fctxs m i, m')"
        "\<forall>i. bit m' i \<longrightarrow> bit ?m i" "\<forall>i. pending_at ctxs fences fctxs m i \<longrightarrow> bit m' i"
        unfolding p by auto
      moreover have "inuse_loop ctxs fences fctxs m = inuse_loop ctxs fences fctxs ?m"
        using False True c by (subst inuse_loop.simps) (simp add: Let_def del: arr_get_Some)
      ultimately show ?thesis by (auto simp: bit_clear)
    next
      case not: False
      then have "pending_at ctxs fences fctxs m ?k" using k ck by (simp add: pending_at_def)
      moreover have "inuse_loop ctxs fences fctxs m = Some (True, m)"
        using False not c by (subst inuse_loop.simps) (simp add: Let_def del: arr_get_Some)
      ultimately show ?thesis by (auto simp: pending_at_def)
    qed
  qed
qed

text \<open>The same for a whole mapping.\<close>

definition pending :: "(nat \<Rightarrow> msm_fence_context) \<Rightarrow> msm_gem_vma \<Rightarrow> bool" where
  "pending ctxs vma =
     list_ex (\<lambda>i. bit (fence_mask vma) i \<and>
       \<not> msm_fence_completed (ctxs (the (fctx vma ! i))) (fence vma ! i)) [0..<MAX_RINGS]"

definition vma_shape :: "msm_gem_vma \<Rightarrow> bool" where
  "vma_shape vma = (length (fence vma) = MAX_RINGS \<and> length (fctx vma) = MAX_RINGS \<and>
     mask_ok (fence vma) (fctx vma) (fence_mask vma))"

lemma pending_iff:
  assumes "vma_shape vma"
  shows "pending ctxs vma = (\<exists>i. pending_at ctxs (fence vma) (fctx vma) (fence_mask vma) i)"
  using assms by (auto simp: pending_def pending_at_def vma_shape_def mask_ok_def list_ex_iff)

lemma vma_inuse_equiv:
  assumes "vma_shape vma"
  obtains m where "msm_gem_vma_inuse ctxs vma = Some (inuse vma > 0 \<or> pending ctxs vma, vma\<lparr>fence_mask := m\<rparr>)"
    "\<forall>i. bit m i \<longrightarrow> bit (fence_mask vma) i" "pending ctxs (vma\<lparr>fence_mask := m\<rparr>) = pending ctxs vma"
proof (cases "inuse vma > 0")
  case True
  then show ?thesis by (intro that [of "fence_mask vma"]) (auto simp: msm_gem_vma_inuse_def)
next
  case False
  let ?p = "pending_at ctxs (fence vma) (fctx vma)"
  from inuse_loop_equiv [of "fence vma" "fctx vma" "fence_mask vma" ctxs] assms obtain m where
    m: "inuse_loop ctxs (fence vma) (fctx vma) (fence_mask vma) = Some (\<exists>i. ?p (fence_mask vma) i, m)"
      "\<forall>i. bit m i \<longrightarrow> bit (fence_mask vma) i" "\<forall>i. ?p (fence_mask vma) i \<longrightarrow> bit m i"
    by (auto simp: vma_shape_def)
  have sh: "vma_shape (vma\<lparr>fence_mask := m\<rparr>)" using assms m(2) by (auto simp: vma_shape_def mask_ok_def)
  show ?thesis
  proof (rule that [of m])
    show "msm_gem_vma_inuse ctxs vma = Some (inuse vma > 0 \<or> pending ctxs vma, vma\<lparr>fence_mask := m\<rparr>)"
      using False m(1) by (simp add: msm_gem_vma_inuse_def pending_iff [OF assms])
    show "\<forall>i. bit m i \<longrightarrow> bit (fence_mask vma) i" by (rule m(2))
    show "pending ctxs (vma\<lparr>fence_mask := m\<rparr>) = pending ctxs vma"
      unfolding pending_iff [OF assms] pending_iff [OF sh] using m(2,3) by (fastforce simp: pending_at_def)
  qed
qed

text \<open>
  C28: The loop of \<^verbatim>\<open>msm_gem_vma_inuse\<close>, which takes the fences off the mask from the lowest ring on
  until one has not completed, ends on every mask, and its answer is that of the specification: the
  mapping is pinned, or one of its fences is pending.  What it removes from the mask is
  not pending, so that asking again gives the same answer.
\<close>

theorem msm_gem_vma_inuse_spec:
  assumes "vma_shape vma"
  shows "\<exists>vma'. msm_gem_vma_inuse ctxs vma = Some (inuse vma > 0 \<or> pending ctxs vma, vma') \<and>
    pending ctxs vma' = pending ctxs vma \<and> vma' = vma\<lparr>fence_mask := fence_mask vma'\<rparr> \<and>
    (\<forall>i. bit (fence_mask vma') i \<longrightarrow> bit (fence_mask vma) i)"
proof -
  obtain m where m: "msm_gem_vma_inuse ctxs vma = Some (inuse vma > 0 \<or> pending ctxs vma, vma\<lparr>fence_mask := m\<rparr>)"
    "\<forall>i. bit m i \<longrightarrow> bit (fence_mask vma) i" "pending ctxs (vma\<lparr>fence_mask := m\<rparr>) = pending ctxs vma"
    by (rule vma_inuse_equiv [OF assms, of ctxs])
  then show ?thesis by (intro exI [of _ "vma\<lparr>fence_mask := m\<rparr>"]) auto
qed

section \<open>The life of a mapping\<close>

text \<open>
  A mapping of a buffer object of \<open>sz\<close> bytes, its address space and the fence contexts of the rings,
  under the operations of the driver and of the GPU:
  the range allocator answers, the buffer is pinned (the IOMMU answers), a pin is dropped, the job of
  ring \<open>i\<close> that holds a pin starts (\<^verbatim>\<open>msm_job_run\<close>: it allocates its fence and turns the pin
  into the fence), the mapping of an idle buffer is evicted, the mapping is
  cleared, the GPU reports progress on a ring, the CPU retires it.
\<close>

record vma_sys =
  vs_ctx :: "nat \<Rightarrow> msm_fence_context"
  vs_as :: msm_gem_address_space
  vs_vma :: msm_gem_vma

datatype vma_op =
  V_Init "int + u64" | V_Map int | V_Unpin | V_Run nat | V_Evict | V_Clear | V_Gpu nat u32 | V_Retire nat

definition busy_vma :: "vma_sys \<Rightarrow> bool" where
  "busy_vma s = (inuse (vs_vma s) > 0 \<or> pending (vs_ctx s) (vs_vma s))"

text \<open>
  When an operation can happen: the allocator never gives out address 0 (address spaces do not
  start there), a job starts with a pin, a ring has fewer than \<open>2 ^ 31\<close> fences in the run, only idle
  buffers are evicted, the GPU only advances, up to the last fence.  The index of the ring is not
  bounded.
\<close>

fun vma_allowed :: "vma_op \<Rightarrow> vma_sys \<Rightarrow> bool" where
  "vma_allowed (V_Init node) s = (node \<noteq> Inr 0)"
| "vma_allowed (V_Run i) s = (inuse (vs_vma s) > 0 \<and> unat (last_fence (vs_ctx s i)) + 1 < 2 ^ 31)"
| "vma_allowed V_Evict s = (\<not> busy_vma s)"
| "vma_allowed (V_Gpu i v) s = (fenceptr (vs_ctx s i) \<le> v \<and> v \<le> last_fence (vs_ctx s i))"
| "vma_allowed _ s = True"

fun vma_perform :: "u64 \<Rightarrow> vma_op \<Rightarrow> vma_sys \<Rightarrow> vma_sys option" where
  "vma_perform sz (V_Init node) s =
     (case msm_gem_init_vma node (vs_as s) (vs_vma s) sz of (_, as, vma) \<Rightarrow> Some (s\<lparr>vs_as := as, vs_vma := vma\<rparr>))"
| "vma_perform sz (V_Map ret) s =
     (case msm_gem_map_vma ret (Some (vs_as s)) (vs_vma s) sz of
        (_, as, vma) \<Rightarrow> map_option (\<lambda>as. s\<lparr>vs_as := as, vs_vma := vma\<rparr>) as)"
| "vma_perform sz V_Unpin s = Some (s\<lparr>vs_vma := msm_gem_unpin_vma (vs_vma s)\<rparr>)"
| "vma_perform sz (V_Run i) s =
     (let ctx = snd (msm_fence_alloc True (vs_ctx s i))
      in map_option (\<lambda>vma. s\<lparr>vs_ctx := (vs_ctx s)(i := ctx), vs_vma := vma\<rparr>)
           (msm_gem_unpin_vma_fenced (vs_vma s) ctx))"
| "vma_perform sz V_Evict s =
     map_option (\<lambda>(as, vma). s\<lparr>vs_as := as, vs_vma := vma\<rparr>) (msm_gem_purge_vma (vs_ctx s) (vs_as s) (vs_vma s))"
| "vma_perform sz V_Clear s =
     (if iova (vs_vma s) = 0 then Some s
      else map_option (\<lambda>(ret, as, vma). s\<lparr>vs_as := as, vs_vma := if ret = 0 then zero_vma else vma\<rparr>)
             (clear_iova (vs_ctx s) (vs_as s) (vs_vma s)))"
| "vma_perform sz (V_Gpu i v) s = Some (s\<lparr>vs_ctx := (vs_ctx s)(i := (vs_ctx s i)\<lparr>fenceptr := v\<rparr>)\<rparr>)"
| "vma_perform sz (V_Retire i) s =
     Some (s\<lparr>vs_ctx := (vs_ctx s)(i := msm_update_fence (vs_ctx s i) (fenceptr (vs_ctx s i)))\<rparr>)"

text \<open>A new mapping in an address space of its own, with fresh fence contexts.\<close>

definition vma_start :: "vma_sys \<Rightarrow> bool" where
  "vma_start s = (vs_vma s = zero_vma \<and> as_nodes (vs_as s) = [] \<and> as_kref (vs_as s) = 1 \<and> \<not> as_freed (vs_as s) \<and>
     (as_mmu (vs_as s) = None \<or> as_mmu (vs_as s) = Some []) \<and>
     (\<forall>i. fc_index (vs_ctx s i) = i \<and> last_fence (vs_ctx s i) = 0 \<and>
        completed_fence (vs_ctx s i) = 0 \<and> fenceptr (vs_ctx s i) = 0))"

inductive vma_reachable :: "u64 \<Rightarrow> vma_sys \<Rightarrow> bool" for sz where
  vma_start: "vma_start s \<Longrightarrow> vma_reachable sz s"
| vma_step: "vma_reachable sz s \<Longrightarrow> vma_allowed x s \<Longrightarrow> vma_perform sz x s = Some s' \<Longrightarrow> vma_reachable sz s'"

subsection \<open>The invariant\<close>

definition ctx_ok :: "nat \<Rightarrow> msm_fence_context \<Rightarrow> bool" where
  "ctx_ok i ctx = (fc_index ctx = i \<and> completed_fence ctx \<le> last_fence ctx \<and>
     fenceptr ctx \<le> last_fence ctx \<and> unat (last_fence ctx) < 2 ^ 31)"

definition fences_ok :: "(nat \<Rightarrow> msm_fence_context) \<Rightarrow> msm_gem_vma \<Rightarrow> bool" where
  "fences_ok ctxs vma =
     (length (fence vma) = MAX_RINGS \<and> length (fctx vma) = MAX_RINGS \<and>
      (\<forall>i. bit (fence_mask vma) i \<longrightarrow>
         i < MAX_RINGS \<and> fctx vma ! i = Some i \<and> fence vma ! i \<le> last_fence (ctxs i)))"

text \<open>The address space holds the range of the mapping, in the IOMMU when it is mapped.\<close>

definition space_ok :: "u64 \<Rightarrow> msm_gem_address_space \<Rightarrow> msm_gem_vma \<Rightarrow> bool" where
  "space_ok sz as vma =
     (\<not> as_freed as \<and> as_kref as = (if iova vma = 0 then 1 else 2) \<and>
      as_nodes as = (if iova vma = 0 then [] else [(iova vma, sz)]) \<and>
      (iova vma \<noteq> 0 \<longrightarrow> node_start vma = iova vma \<and> node_size vma = sz) \<and>
      (mapped vma \<longrightarrow> iova vma \<noteq> 0) \<and> 0 \<le> inuse vma \<and>
      (as_mmu as = None \<or> as_mmu as = Some (if mapped vma then [(iova vma, sz)] else [])))"

definition vma_inv :: "u64 \<Rightarrow> vma_sys \<Rightarrow> bool" where
  "vma_inv sz s = ((\<forall>i. ctx_ok i (vs_ctx s i)) \<and> fences_ok (vs_ctx s) (vs_vma s) \<and>
     space_ok sz (vs_as s) (vs_vma s) \<and> (busy_vma s \<longrightarrow> mapped (vs_vma s)))"

lemma fences_ok_shape: "fences_ok ctxs vma \<Longrightarrow> vma_shape vma"
  by (auto simp: fences_ok_def vma_shape_def mask_ok_def)

lemma completed_unat:
  assumes "ctx_ok i ctx" "f \<le> last_fence ctx"
  shows "msm_fence_completed ctx f = (f \<le> completed_fence ctx \<or> f \<le> fenceptr ctx)"
proof -
  have l: "unat f < 2 ^ 31" "unat (completed_fence ctx) < 2 ^ 31" "unat (fenceptr ctx) < 2 ^ 31"
    using assms by (auto simp: ctx_ok_def word_le_nat_alt)
  have "c_int (a - f) = int (unat a) - int (unat f)" if "unat a < 2 ^ 31" for a
    using c_int_diff [of "unat a" "unat f"] that l(1) by simp
  with l(2,3) show ?thesis by (auto simp: msm_fence_completed_def word_le_def)
qed

lemma pending_fences:
  assumes "\<forall>i. ctx_ok i (ctxs i)" "fences_ok ctxs vma"
  shows "pending ctxs vma = (\<exists>i. bit (fence_mask vma) i \<and>
    fence vma ! i > completed_fence (ctxs i) \<and> fence vma ! i > fenceptr (ctxs i))"
proof -
  have "msm_fence_completed (ctxs (the (fctx vma ! i))) (fence vma ! i) =
      (fence vma ! i \<le> completed_fence (ctxs i) \<or> fence vma ! i \<le> fenceptr (ctxs i))"
    if "bit (fence_mask vma) i" for i
    using assms that completed_unat [of i "ctxs i" "fence vma ! i"] by (auto simp: fences_ok_def)
  then show ?thesis
    unfolding pending_iff [OF fences_ok_shape [OF assms(2)]] pending_at_def by (simp add: not_le cong: conj_cong)
qed

subsection \<open>Every operation keeps the invariant\<close>

text \<open>What the operations need from the fences: asking whether a mapping is in use only thins out the mask.\<close>

lemma fences_ok_mask:
  "fences_ok ctxs vma \<Longrightarrow> \<forall>i. bit m i \<longrightarrow> bit (fence_mask vma) i \<Longrightarrow> fences_ok ctxs (vma\<lparr>fence_mask := m\<rparr>)"
  by (auto simp: fences_ok_def)

lemma fences_ok_fields:
  "fences_ok ctxs (vma\<lparr>inuse := n\<rparr>) = fences_ok ctxs vma" "fences_ok ctxs (vma\<lparr>mapped := b\<rparr>) = fences_ok ctxs vma"
  "fences_ok ctxs (vma\<lparr>iova := a\<rparr>) = fences_ok ctxs vma" "fences_ok ctxs (vma\<lparr>node_start := a\<rparr>) = fences_ok ctxs vma"
  "fences_ok ctxs (vma\<lparr>node_size := a\<rparr>) = fences_ok ctxs vma"
  by (simp_all add: fences_ok_def)

lemma pending_fields:
  "pending ctxs (vma\<lparr>inuse := n\<rparr>) = pending ctxs vma" "pending ctxs (vma\<lparr>mapped := b\<rparr>) = pending ctxs vma"
  "pending ctxs (vma\<lparr>iova := a\<rparr>) = pending ctxs vma" "pending ctxs (vma\<lparr>node_start := a\<rparr>) = pending ctxs vma"
  "pending ctxs (vma\<lparr>node_size := a\<rparr>) = pending ctxs vma"
  by (simp_all add: pending_def)

lemmas vma_fields = fences_ok_fields pending_fields

lemma zero_vma_ok: "fences_ok ctxs zero_vma" "\<not> pending ctxs zero_vma"
  by (auto simp: fences_ok_def pending_def zero_vma_def list_ex_iff)

text \<open>Below 2 GiB the conversion of the size to \<^verbatim>\<open>int\<close> and back is no change.\<close>

lemma int_size_small:
  assumes "unat sz < 2 ^ 31"
  shows "int_size sz = sz"
proof -
  have b: "\<not> bit sz n" if "31 \<le> n" for n
  proof -
    have "take_bit 31 (unat sz) = unat sz" using assms by (simp add: take_bit_nat_eq_self)
    then have "bit (unat sz) n = (n < 31 \<and> bit (unat sz) n)" by (metis bit_take_bit_iff)
    then show ?thesis using that by (simp add: bit_unsigned_iff)
  qed
  show ?thesis
    by (rule bit_word_eqI) (use b in \<open>auto simp: int_size_def bit_simps min_def not_le\<close>)
qed
lemma inv_init:
  "vma_inv sz s \<Longrightarrow> unat sz < 2 ^ 31 \<Longrightarrow> node \<noteq> Inr 0 \<Longrightarrow> vma_perform sz (V_Init node) s = Some s' \<Longrightarrow> vma_inv sz s'"
  by (cases node)
    (auto simp: vma_inv_def busy_vma_def space_ok_def msm_gem_init_vma_def int_size_small msm_gem_address_space_get_def vma_fields
      split: if_splits)

lemma inv_map: "vma_inv sz s \<Longrightarrow> unat sz < 2 ^ 31 \<Longrightarrow> vma_perform sz (V_Map ret) s = Some s' \<Longrightarrow> vma_inv sz s'"
  by (auto simp: vma_inv_def busy_vma_def space_ok_def msm_gem_map_vma_def int_size_small vma_fields Let_def split: if_splits)

lemma inv_unpin: "vma_inv sz s \<Longrightarrow> vma_perform sz V_Unpin s = Some s' \<Longrightarrow> vma_inv sz s'"
  by (auto simp: vma_inv_def busy_vma_def space_ok_def msm_gem_unpin_vma_def vma_fields split: if_splits)

text \<open>Progress on a ring only completes fences.\<close>

lemma inv_progress:
  assumes "vma_inv sz s" "ctx_ok i ctx" "last_fence (vs_ctx s i) \<le> last_fence ctx"
    and "completed_fence (vs_ctx s i) \<le> completed_fence ctx" "fenceptr (vs_ctx s i) \<le> fenceptr ctx"
  shows "vma_inv sz (s\<lparr>vs_ctx := (vs_ctx s)(i := ctx)\<rparr>)"
proof -
  let ?ctxs = "(vs_ctx s)(i := ctx)"
  from assms(1) have inv: "\<forall>i. ctx_ok i (vs_ctx s i)" "fences_ok (vs_ctx s) (vs_vma s)"
    by (auto simp: vma_inv_def)
  have c: "\<forall>j. ctx_ok j (?ctxs j)" using inv(1) assms(2) by simp
  have f: "fences_ok ?ctxs (vs_vma s)" using inv(2) assms(3) by (auto simp: fences_ok_def)
  have "pending ?ctxs (vs_vma s) \<Longrightarrow> pending (vs_ctx s) (vs_vma s)"
    unfolding pending_fences [OF c f] pending_fences [OF inv] using assms(4,5)
    by (metis fun_upd_apply order_le_less_trans)
  with assms(1) c f show ?thesis by (auto simp: vma_inv_def busy_vma_def)
qed

lemma inv_gpu:
  assumes "vma_inv sz s" "vma_allowed (V_Gpu i v) s" "vma_perform sz (V_Gpu i v) s = Some s'"
  shows "vma_inv sz s'"
  using assms inv_progress [of sz s i "(vs_ctx s i)\<lparr>fenceptr := v\<rparr>"]
  by (auto simp: vma_inv_def ctx_ok_def)

lemma inv_retire:
  assumes "vma_inv sz s" "vma_allowed (V_Retire i) s" "vma_perform sz (V_Retire i) s = Some s'"
  shows "vma_inv sz s'"
proof -
  let ?ctx = "vs_ctx s i"
  from assms(1,2) have ok: "ctx_ok i ?ctx" by (simp add: vma_inv_def)
  then have l: "unat (completed_fence ?ctx) < 2 ^ 31" "unat (fenceptr ?ctx) < 2 ^ 31"
    by (auto simp: ctx_ok_def word_le_nat_alt)
  have "fence_after (fenceptr ?ctx) (completed_fence ?ctx) = (completed_fence ?ctx < fenceptr ?ctx)"
    using fence_after_window [of "unat (fenceptr ?ctx)" "unat (completed_fence ?ctx)"] l
    by (simp add: word_less_nat_alt)
  with assms ok show ?thesis
    using inv_progress [OF assms(1), of i "msm_update_fence ?ctx (fenceptr ?ctx)"]
    by (auto simp: ctx_ok_def update_fence_fields)
qed

lemma inv_run:
  assumes "vma_inv sz s" "vma_allowed (V_Run i) s" "i < MAX_RINGS"
  shows "\<exists>s'. vma_perform sz (V_Run i) s = Some s' \<and> vma_inv sz s'"
proof -
  let ?ctx = "(vs_ctx s i)\<lparr>last_fence := last_fence (vs_ctx s i) + 1\<rparr>"
  let ?s = "s\<lparr>vs_ctx := (vs_ctx s)(i := ?ctx)\<rparr>"
  let ?vma = "(vs_vma s)\<lparr>fctx := (fctx (vs_vma s))[i := Some i], fence := (fence (vs_vma s))[i := last_fence ?ctx],
      fence_mask := fence_mask (vs_vma s) OR BIT32 i, inuse := inuse (vs_vma s) - 1\<rparr>"
  from assms have i: "i < MAX_RINGS" "inuse (vs_vma s) > 0" "unat (last_fence (vs_ctx s i)) + 1 < 2 ^ 31" by auto
  then have i32: "i < 32" by (simp add: MAX_RINGS_def)
  from assms(1) i have ok: "ctx_ok i (vs_ctx s i)" and m: "mapped (vs_vma s)" "iova (vs_vma s) \<noteq> 0"
    by (auto simp: vma_inv_def busy_vma_def space_ok_def)
  have l: "unat (last_fence (vs_ctx s i) + 1) = Suc (unat (last_fence (vs_ctx s i)))"
    using i(3) by (simp add: unat_add_1_u32)
  then have le: "last_fence (vs_ctx s i) \<le> last_fence (vs_ctx s i) + 1" by (simp add: word_le_nat_alt)
  have "vma_inv sz ?s"
    by (rule inv_progress [OF assms(1)]) (use ok le l i(3) in \<open>auto simp: ctx_ok_def intro: order_trans\<close>)
  then have inv: "vma_inv sz (?s\<lparr>vs_vma := ?vma\<rparr>)"
    using i m i32 by (auto simp: vma_inv_def busy_vma_def space_ok_def fences_ok_def bit_set nth_list_update)
  have "fc_index ?ctx = i" using ok by (simp add: ctx_ok_def)
  moreover have "length (fctx (vs_vma s)) = MAX_RINGS" "length (fence (vs_vma s)) = MAX_RINGS"
    using assms(1) by (auto simp: vma_inv_def fences_ok_def)
  ultimately have "vma_perform sz (V_Run i) s = Some (?s\<lparr>vs_vma := ?vma\<rparr>)"
    using i m by (simp add: msm_fence_alloc_def Let_def msm_gem_unpin_vma_fenced_def arr_set_def msm_gem_unpin_vma_def)
  with inv show ?thesis by blast
qed

text \<open>Unmapping an idle mapping, and giving its range back.\<close>

lemma purge_idle:
  assumes "fences_ok ctxs vma" "space_ok sz as vma" "inuse vma = 0" "\<not> pending ctxs vma" "unat sz < 2 ^ 31"
  shows "\<exists>as' vma'. msm_gem_purge_vma ctxs as vma = Some (as', vma') \<and> fences_ok ctxs vma' \<and> space_ok sz as' vma' \<and>
    inuse vma' = 0 \<and> \<not> pending ctxs vma' \<and> \<not> mapped vma' \<and> iova vma' = iova vma"
proof -
  obtain m where m: "msm_gem_vma_inuse ctxs vma = Some (inuse vma > 0 \<or> pending ctxs vma, vma\<lparr>fence_mask := m\<rparr>)"
    "\<forall>i. bit m i \<longrightarrow> bit (fence_mask vma) i" "pending ctxs (vma\<lparr>fence_mask := m\<rparr>) = pending ctxs vma"
    by (rule vma_inuse_equiv [OF fences_ok_shape [OF assms(1)], of ctxs])
  have sz: "(ucast (ucast sz :: u32) :: u64) = sz"
  proof -
    have "unat (take_bit 32 sz) = unat sz"
      using assms(5) by (simp add: unsigned_take_bit_eq take_bit_nat_eq_self)
    then have "take_bit 32 sz = sz" by (simp add: word_eq_iff_unsigned [where ?'a = nat])
    then show ?thesis by (simp add: unsigned_ucast_eq)
  qed
  show ?thesis
    using m assms sz fences_ok_mask [OF assms(1) m(2)]
    by (auto simp: msm_gem_purge_vma_def space_ok_def vma_fields Let_def)
qed

lemma close_idle:
  assumes "fences_ok ctxs vma" "space_ok sz as vma" "inuse vma = 0" "\<not> mapped vma" "iova vma \<noteq> 0"
  shows "\<exists>as' vma'. msm_gem_close_vma ctxs as vma = Some (as', vma') \<and> space_ok sz as' zero_vma"
proof -
  obtain m where "msm_gem_vma_inuse ctxs vma = Some (inuse vma > 0 \<or> pending ctxs vma, vma\<lparr>fence_mask := m\<rparr>)"
    by (rule vma_inuse_equiv [OF fences_ok_shape [OF assms(1)], of ctxs])
  with assms show ?thesis
    by (auto simp: msm_gem_close_vma_def space_ok_def msm_gem_address_space_put_def Let_def zero_vma_def)
qed

lemma inv_evict:
  assumes "vma_inv sz s" "vma_allowed V_Evict s" "unat sz < 2 ^ 31"
  shows "\<exists>s'. vma_perform sz V_Evict s = Some s' \<and> vma_inv sz s'"
proof -
  from assms have "fences_ok (vs_ctx s) (vs_vma s)" "space_ok sz (vs_as s) (vs_vma s)"
      "inuse (vs_vma s) = 0" "\<not> pending (vs_ctx s) (vs_vma s)"
    by (auto simp: vma_inv_def busy_vma_def space_ok_def)
  from purge_idle [OF this assms(3)] assms(1) show ?thesis by (auto simp: vma_inv_def busy_vma_def)
qed

lemma clear_idle:
  assumes "fences_ok ctxs vma" "space_ok sz as vma" "iova vma \<noteq> 0" "unat sz < 2 ^ 31"
  shows "\<exists>ret as' vma'. clear_iova ctxs as vma = Some (ret, as', vma') \<and>
    (if inuse vma > 0 \<or> pending ctxs vma
     then ret = - EBUSY \<and> as' = as \<and> fences_ok ctxs vma' \<and> pending ctxs vma' = pending ctxs vma \<and>
       vma' = vma\<lparr>fence_mask := fence_mask vma'\<rparr>
     else ret = 0 \<and> space_ok sz as' zero_vma)"
proof -
  obtain m where m: "msm_gem_vma_inuse ctxs vma = Some (inuse vma > 0 \<or> pending ctxs vma, vma\<lparr>fence_mask := m\<rparr>)"
    "\<forall>i. bit m i \<longrightarrow> bit (fence_mask vma) i" "pending ctxs (vma\<lparr>fence_mask := m\<rparr>) = pending ctxs vma"
    by (rule vma_inuse_equiv [OF fences_ok_shape [OF assms(1)], of ctxs])
  let ?vma = "vma\<lparr>fence_mask := m\<rparr>"
  note f = fences_ok_mask [OF assms(1) m(2)]
  show ?thesis
  proof (cases "inuse vma > 0 \<or> pending ctxs vma")
    case True
    with m f show ?thesis by (auto simp: clear_iova_def)
  next
    case False
    then have "space_ok sz as ?vma" "inuse ?vma = 0" "\<not> pending ctxs ?vma"
      using assms(2) m(3) by (auto simp: space_ok_def)
    from purge_idle [OF f this assms(4)] obtain as1 vma1 where
      p: "msm_gem_purge_vma ctxs as ?vma = Some (as1, vma1)" "fences_ok ctxs vma1" "space_ok sz as1 vma1"
        "inuse vma1 = 0" "\<not> mapped vma1" "iova vma1 = iova ?vma" by auto
    from close_idle [OF p(2-5)] p(6) assms(3) obtain as2 vma2 where
      "msm_gem_close_vma ctxs as1 vma1 = Some (as2, vma2)" "space_ok sz as2 zero_vma" by auto
    with False m(1) p(1) show ?thesis by (auto simp: clear_iova_def)
  qed
qed

lemma inv_clear:
  assumes "vma_inv sz s" "unat sz < 2 ^ 31"
  shows "\<exists>s'. vma_perform sz V_Clear s = Some s' \<and> vma_inv sz s'"
proof (cases "iova (vs_vma s) = 0")
  case True
  with assms(1) show ?thesis by simp
next
  case False
  from assms(1) have "fences_ok (vs_ctx s) (vs_vma s)" "space_ok sz (vs_as s) (vs_vma s)"
    by (auto simp: vma_inv_def)
  from clear_idle [OF this False assms(2)] obtain ret as' vma' where
    c: "clear_iova (vs_ctx s) (vs_as s) (vs_vma s) = Some (ret, as', vma')"
    and r: "if busy_vma s then ret = - EBUSY \<and> as' = vs_as s \<and> fences_ok (vs_ctx s) vma' \<and>
         pending (vs_ctx s) vma' = pending (vs_ctx s) (vs_vma s) \<and> vma' = (vs_vma s)\<lparr>fence_mask := fence_mask vma'\<rparr>
       else ret = 0 \<and> space_ok sz as' zero_vma"
    by (auto simp: busy_vma_def)
  show ?thesis
  proof (cases "busy_vma s")
    case True
    from r True obtain m where "vma' = (vs_vma s)\<lparr>fence_mask := m\<rparr>" by metis
    with True r c assms(1) False show ?thesis
      by (auto simp: vma_inv_def busy_vma_def space_ok_def)
  next
    case False': False
    with r c assms(1) False show ?thesis
      by (auto simp: vma_inv_def busy_vma_def zero_vma_ok) (auto simp: zero_vma_def)
  qed
qed

lemma run_out_of_range:
  assumes "vma_inv sz s" "MAX_RINGS \<le> i"
  shows "vma_perform sz (V_Run i) s = None"
proof -
  have "length (fctx (vs_vma s)) = MAX_RINGS" "fc_index (vs_ctx s i) = i"
    using assms(1) by (auto simp: vma_inv_def fences_ok_def ctx_ok_def)
  with assms(2) show ?thesis
    by (simp add: msm_fence_alloc_def Let_def msm_gem_unpin_vma_fenced_def arr_set_def)
qed

lemma vma_step_inv:
  assumes "vma_inv sz s" "vma_allowed x s" "unat sz < 2 ^ 31" "\<And>i. x = V_Run i \<Longrightarrow> i < MAX_RINGS"
  shows "\<exists>s'. vma_perform sz x s = Some s' \<and> vma_inv sz s'"
proof (cases x)
  case (V_Init node)
  obtain s' where "vma_perform sz (V_Init node) s = Some s'"
    by (cases "msm_gem_init_vma node (vs_as s) (vs_vma s) sz") auto
  with V_Init assms inv_init [of sz s node s'] show ?thesis by auto
next
  case (V_Map ret)
  obtain r as vma where "msm_gem_map_vma ret (Some (vs_as s)) (vs_vma s) sz = (r, Some as, vma)"
    by (cases "iova (vs_vma s) = 0"; cases "mapped (vs_vma s)"; cases "as_mmu (vs_as s)"; cases "ret = 0")
      (auto simp: msm_gem_map_vma_def Let_def)
  then obtain s' where "vma_perform sz (V_Map ret) s = Some s'" by simp
  with V_Map assms inv_map show ?thesis by blast
next
  case V_Unpin
  then show ?thesis using assms inv_unpin by (metis vma_perform.simps(3))
next
  case (V_Run i)
  then show ?thesis using assms inv_run by blast
next
  case V_Evict
  then show ?thesis using assms inv_evict by blast
next
  case V_Clear
  then show ?thesis using assms inv_clear by blast
next
  case (V_Gpu i v)
  then show ?thesis using assms inv_gpu by (metis vma_perform.simps(7))
next
  case (V_Retire i)
  then show ?thesis using assms inv_retire by (metis vma_perform.simps(8))
qed

lemma vma_start_inv: "vma_start s \<Longrightarrow> vma_inv sz s"
  by (auto simp: vma_start_def vma_inv_def busy_vma_def zero_vma_ok ctx_ok_def)
    (auto simp: space_ok_def zero_vma_def)

lemma vma_reachable_inv:
  assumes "vma_reachable sz s" "unat sz < 2 ^ 31"
  shows "vma_inv sz s"
  using assms
proof (induction rule: vma_reachable.induct)
  case (vma_step s x s')
  then have inv: "vma_inv sz s" by simp
  have "i < MAX_RINGS" if "x = V_Run i" for i
    using run_out_of_range [OF inv, of i] vma_step.hyps(3) that by (cases "i < MAX_RINGS") auto
  then show ?case using vma_step_inv [OF inv vma_step.hyps(2) vma_step.prems] vma_step.hyps(3) by auto
qed (rule vma_start_inv)

text \<open>
  C29: A mapping that is pinned, or whose fence the GPU has not passed, is mapped: in every
  reachable state it has an address, its range is in the page tables, allocated and owned by an
  address space that is alive.  An address space holds exactly one reference per mapping with an
  address, and the range of an unmapped buffer is never left in the page tables.  Buffers are smaller
  than 2 GiB, and the states are those of runs in which a ring gets fewer than \<open>2 ^ 31\<close> jobs, the
  GPU passes only fences it was given and only idle mappings are evicted.  The one operation that
  accesses memory outside its arrays is the start of a job on a ring whose fence context has an index
  above 3, which the code does not exclude.
\<close>

theorem msm_gem_vma_busy_mapped:
  assumes "vma_reachable sz s" "unat sz < 2 ^ 31"
  shows "(busy_vma s \<longrightarrow> mapped (vs_vma s) \<and> iova (vs_vma s) \<noteq> 0) \<and>
    (as_mmu (vs_as s) = Some m \<longrightarrow> m = (if mapped (vs_vma s) then [(iova (vs_vma s), sz)] else [])) \<and>
    as_nodes (vs_as s) = (if iova (vs_vma s) = 0 then [] else [(iova (vs_vma s), sz)]) \<and>
    \<not> as_freed (vs_as s) \<and> as_kref (vs_as s) = 1 + length (as_nodes (vs_as s)) \<and>
    (vma_allowed x s \<longrightarrow> vma_perform sz x s = None \<longleftrightarrow> (\<exists>i \<ge> MAX_RINGS. x = V_Run i))"
proof (intro conjI impI)
  note inv = vma_reachable_inv [OF assms]
  from inv have sp: "space_ok sz (vs_as s) (vs_vma s)" by (simp add: vma_inv_def)
  show "mapped (vs_vma s)" "iova (vs_vma s) \<noteq> 0" if "busy_vma s"
    using inv sp that by (auto simp: vma_inv_def space_ok_def)
  show "m = (if mapped (vs_vma s) then [(iova (vs_vma s), sz)] else [])" if "as_mmu (vs_as s) = Some m"
    using sp that by (auto simp: space_ok_def)
  show "as_nodes (vs_as s) = (if iova (vs_vma s) = 0 then [] else [(iova (vs_vma s), sz)])"
    using sp by (simp add: space_ok_def)
  show "\<not> as_freed (vs_as s)" "as_kref (vs_as s) = 1 + length (as_nodes (vs_as s))"
    using sp by (simp_all add: space_ok_def)
  show "vma_perform sz x s = None \<longleftrightarrow> (\<exists>i \<ge> MAX_RINGS. x = V_Run i)" if allowed: "vma_allowed x s"
  proof (cases "\<exists>i \<ge> MAX_RINGS. x = V_Run i")
    case True
    then obtain i where "MAX_RINGS \<le> i" "x = V_Run i" by blast
    with run_out_of_range [OF inv, of i] True show ?thesis by simp
  next
    case False
    then have "i < MAX_RINGS" if "x = V_Run i" for i using that by (cases "i < MAX_RINGS") (auto simp: not_less)
    then obtain s' where "vma_perform sz x s = Some s'" using vma_step_inv [OF inv allowed assms(2)] by metis
    with False show ?thesis by simp
  qed
qed

subsection \<open>Witnesses\<close>

definition example_sys :: vma_sys where
  "example_sys = \<lparr>vs_ctx = (\<lambda>i. \<lparr>fc_name = [], fc_context = 0, fc_index = i, last_fence = 0, completed_fence = 0,
       fenceptr = 0, next_deadline = 0, next_deadline_fence = 0, deadline_timer = None, deadline_queued = False\<rparr>),
     vs_as = \<lparr>as_nodes = [], as_mmu = Some [], as_kref = 1, as_freed = False, va_start = 0x1000, va_size = 0x100000\<rparr>,
     vs_vma = zero_vma\<rparr>"

text \<open>The buffer is mapped and its job runs on ring 1; its fence is pending.\<close>

definition running_sys :: vma_sys where
  "running_sys =
     (let s1 = the (vma_perform 0x2000 (V_Init (Inr 0x1000)) example_sys);
          s2 = the (vma_perform 0x2000 (V_Map 0) s1)
      in the (vma_perform 0x2000 (V_Run 1) s2))"

lemma running_sys_reachable: "vma_reachable 0x2000 running_sys"
proof -
  let ?s1 = "the (vma_perform 0x2000 (V_Init (Inr 0x1000)) example_sys)"
  let ?s2 = "the (vma_perform 0x2000 (V_Map 0) ?s1)"
  have s0: "vma_reachable 0x2000 example_sys"
    by (rule vma_start) (auto simp: vma_start_def example_sys_def)
  have e1: "vma_perform 0x2000 (V_Init (Inr 0x1000)) example_sys = Some ?s1"
    by (simp add: msm_gem_init_vma_def example_sys_def zero_vma_def)
  have s1: "vma_reachable 0x2000 ?s1" by (rule vma_step [OF s0 _ e1]) simp
  have e2: "vma_perform 0x2000 (V_Map 0) ?s1 = Some ?s2"
    by (simp add: msm_gem_map_vma_def msm_gem_init_vma_def example_sys_def zero_vma_def Let_def
      msm_gem_address_space_get_def)
  have s2: "vma_reachable 0x2000 ?s2" by (rule vma_step [OF s1 _ e2]) simp
  have run: "vma_allowed (V_Run 1) ?s2"
    by (simp add: msm_gem_map_vma_def msm_gem_init_vma_def example_sys_def zero_vma_def MAX_RINGS_def Let_def
      msm_gem_address_space_get_def)
  have "vma_inv 0x2000 ?s2" by (rule vma_reachable_inv [OF s2]) simp
  have "1 < MAX_RINGS" by (simp add: MAX_RINGS_def)
  from inv_run [OF \<open>vma_inv 0x2000 ?s2\<close> run this] have e3: "vma_perform 0x2000 (V_Run 1) ?s2 \<noteq> None" by blast
  have "running_sys = the (vma_perform 0x2000 (V_Run 1) ?s2)" by (simp only: running_sys_def Let_def)
  with e3 have "vma_perform 0x2000 (V_Run 1) ?s2 = Some running_sys" by (metis option.collapse)
  then show ?thesis by (rule vma_step [OF s2 run])
qed

theorem msm_gem_vma_busy_mapped_witness:
  "inuse (vs_vma running_sys) = 0 \<and> pending (vs_ctx running_sys) (vs_vma running_sys) \<and>
   mapped (vs_vma running_sys) \<and> as_mmu (vs_as running_sys) = Some [(0x1000, 0x2000)] \<and>
   vma_perform 0x2000 V_Clear running_sys \<noteq> None"
proof -
  have v: "inuse (vs_vma running_sys) = 0" "pending (vs_ctx running_sys) (vs_vma running_sys)"
      "iova (vs_vma running_sys) = 0x1000" "as_mmu (vs_as running_sys) \<noteq> None"
    by code_simp+
  then have busy: "busy_vma running_sys" by (simp add: busy_vma_def)
  from v(4) obtain m where m: "as_mmu (vs_as running_sys) = Some m" by auto
  from msm_gem_vma_busy_mapped [OF running_sys_reachable, of m V_Clear] busy v m show ?thesis by auto
qed

theorem msm_gem_vma_inuse_spec_witness:
  "\<exists>vma'. msm_gem_vma_inuse (vs_ctx running_sys) (vs_vma running_sys) = Some (True, vma')"
proof -
  have "vma_shape (vs_vma running_sys)"
    using vma_reachable_inv [OF running_sys_reachable] by (auto simp: vma_inv_def intro: fences_ok_shape)
  moreover have "pending (vs_ctx running_sys) (vs_vma running_sys)" by code_simp
  ultimately show ?thesis using msm_gem_vma_inuse_spec [of "vs_vma running_sys" "vs_ctx running_sys"] by auto
qed

section \<open>More contexts than rings\<close>

text \<open>
  The index of a fence context comes from a static counter that is never wound back.  When
  contexts have been created more than four times, as after the GPU was unbound and bound again,
  replacing a pin by a fence writes outside the arrays of the mapping.
\<close>

theorem msm_gem_unpin_vma_fenced_out_of_range:
  assumes "msm_fence_context_alloc True name context now ptr n = (Inr ctx, n')" "MAX_RINGS \<le> n" "vma_shape vma"
  shows "msm_gem_unpin_vma_fenced vma ctx = None"
  using assms by (auto simp: msm_fence_context_alloc_def msm_gem_unpin_vma_fenced_def vma_shape_def Let_def
      arr_set_def split: option.splits)

end
