(* ===== verification/Submitqueue.thy ===== *)
theory Submitqueue
  imports Sched
begin

text \<open>
  Submit queues of a DRM file (\<^verbatim>\<open>msm/msm_submitqueue.c\<close>, the parts of \<^verbatim>\<open>msm_gpu.h\<close> it uses, and opening
  and closing of a file in \<^verbatim>\<open>msm_drv.c\<close>): the mapping of the priorities of userspace to rings and
  scheduler priorities, the list of queues with their reference counts, the scheduler entities they
  share, and the system profiling mode.

  A queue is identified by its address; the addresses that allocations return are
  arguments, \<open>None\<close> when there is no memory.  Scheduler entities live in the \<open>world\<close> of the
  scheduler.  \<^verbatim>\<open>idr\<close>, locks and the copies to userspace are not modelled.
\<close>

section \<open>Data (msm_gpu.h)\<close>

definition NR_SCHED_PRIORITIES :: nat where
  "NR_SCHED_PRIORITIES = 1 + 2 - 0"

definition MSM_GPU_MAX_RINGS :: nat where
  "MSM_GPU_MAX_RINGS = 4"

text \<open>The GPU: the number of rings and, per ring, its scheduler.\<close>

record msm_gpu =
  nr_rings :: nat
  rb_sched :: "nat \<Rightarrow> nat"
  sysprof_active :: nat
  pm_runtime :: nat

record msm_gpu_submitqueue =
  sq_id :: u32
  sq_flags :: u32
  sq_ring_nr :: nat
  sq_faults :: u32
  sq_entity :: nat
  sq_ref :: nat

text \<open>
  \<open>submitqueues\<close> is the list of the queues' addresses; \<open>sq_mem\<close> the memory of the queues that
  have not been freed.
\<close>

record msm_file_private =
  submitqueues :: "nat list"
  sq_mem :: "nat \<Rightarrow> msm_gpu_submitqueue option"
  queueid :: u32
  fp_ref :: nat
  fp_freed :: bool
  sysprof :: int
  entities :: "nat option list"

section \<open>Priorities (msm_gpu.h)\<close>

text \<open>
  \<^verbatim>\<open>prio\<close> is an \<^verbatim>\<open>int\<close> that \<^verbatim>\<open>div_u64_rem\<close> takes as an unsigned 64-bit number; the quotient is stored
  into an \<^verbatim>\<open>unsigned\<close>.
\<close>

definition msm_gpu_convert_priority :: "msm_gpu \<Rightarrow> u32 \<Rightarrow> int + (nat \<times> nat)" where
  "msm_gpu_convert_priority gpu prio =
     (let p = (word_of_int (c_int prio) :: u64);
          n = of_nat NR_SCHED_PRIORITIES :: u64;
          rn = (ucast (p div n) :: u32);
          sp = (ucast (p mod n) :: u32);
          sp = of_nat NR_SCHED_PRIORITIES - sp - 1
      in if unat rn \<ge> nr_rings gpu then Inl (- EINVAL) else Inr (unat rn, unat sp))"

section \<open>References (msm_gpu.h, msm_submitqueue.c)\<close>

text \<open>
  The last reference to the file destroys its entities; the address space, whose reference is
  dropped as well, belongs to the model of the mappings.  \<open>destroy e\<close> is
  \<^verbatim>\<open>drm_sched_entity_destroy\<close> on entity \<open>e\<close>, given with the arguments of the scheduler model.
\<close>

definition msm_file_private_destroy ::
  "(nat \<Rightarrow> 'f world \<Rightarrow> 'f world) \<Rightarrow> msm_file_private \<Rightarrow> 'f world \<Rightarrow> msm_file_private \<times> 'f world" where
  "msm_file_private_destroy destroy ctx w =
     (ctx\<lparr>fp_freed := True\<rparr>,
      fold (\<lambda>e w. case e of None \<Rightarrow> w | Some x \<Rightarrow> destroy x w) (entities ctx) w)"

definition msm_file_private_put ::
  "(nat \<Rightarrow> 'f world \<Rightarrow> 'f world) \<Rightarrow> msm_file_private \<Rightarrow> 'f world \<Rightarrow> msm_file_private \<times> 'f world" where
  "msm_file_private_put destroy ctx w =
     (let ctx = ctx\<lparr>fp_ref := fp_ref ctx - 1\<rparr>
      in if fp_ref ctx = 0 then msm_file_private_destroy destroy ctx w else (ctx, w))"

definition msm_submitqueue_destroy ::
  "(nat \<Rightarrow> 'f world \<Rightarrow> 'f world) \<Rightarrow> nat \<Rightarrow> msm_file_private \<Rightarrow> 'f world \<Rightarrow> msm_file_private \<times> 'f world" where
  "msm_submitqueue_destroy destroy q ctx w =
     msm_file_private_put destroy (ctx\<lparr>sq_mem := (sq_mem ctx)(q := None)\<rparr>) w"

text \<open>\<open>None\<close>: the queue or its file has been freed.\<close>

definition msm_submitqueue_put ::
  "(nat \<Rightarrow> 'f world \<Rightarrow> 'f world) \<Rightarrow> nat \<Rightarrow> msm_file_private \<Rightarrow> 'f world \<Rightarrow> (msm_file_private \<times> 'f world) option" where
  "msm_submitqueue_put destroy q ctx w =
     (case sq_mem ctx q of
        None \<Rightarrow> None
      | Some x \<Rightarrow>
          if fp_freed ctx then None
          else let x = x\<lparr>sq_ref := sq_ref x - 1\<rparr>; ctx = ctx\<lparr>sq_mem := (sq_mem ctx)(q \<mapsto> x)\<rparr>
               in Some (if sq_ref x = 0 then msm_submitqueue_destroy destroy q ctx w else (ctx, w)))"

text \<open>The walk over the list: the first queue with the identifier.\<close>

definition sq_find :: "msm_file_private \<Rightarrow> u32 \<Rightarrow> nat option" where
  "sq_find ctx i = find (\<lambda>q. case sq_mem ctx q of None \<Rightarrow> False | Some x \<Rightarrow> sq_id x = i) (submitqueues ctx)"

definition msm_submitqueue_get :: "msm_file_private option \<Rightarrow> u32 \<Rightarrow> nat option \<times> msm_file_private option" where
  "msm_submitqueue_get ctx i =
     (case ctx of
        None \<Rightarrow> (None, None)
      | Some ctx \<Rightarrow>
          (case sq_find ctx i of
             None \<Rightarrow> (None, Some ctx)
           | Some q \<Rightarrow>
               (Some q, Some (ctx\<lparr>sq_mem := (sq_mem ctx)(q := map_option (\<lambda>x. x\<lparr>sq_ref := sq_ref x + 1\<rparr>) (sq_mem ctx q))\<rparr>))))"

section \<open>Creation, removal and closing (msm_submitqueue.c)\<close>

text \<open>\<open>ea\<close> is the address of a new entity, \<open>fc\<close> its fence context.\<close>

definition get_sched_entity ::
  "nat option \<Rightarrow> u64 \<Rightarrow> msm_gpu \<Rightarrow> nat \<Rightarrow> nat \<Rightarrow> msm_file_private \<Rightarrow> 'f world \<Rightarrow>
   (int + nat) \<times> msm_file_private \<times> 'f world" where
  "get_sched_entity ea fc gpu ring_nr sched_prio ctx w =
     (let idx = ring_nr * NR_SCHED_PRIORITIES + sched_prio
      in if idx \<ge> length (entities ctx) then (Inl (- EINVAL), ctx, w)
         else case entities ctx ! idx of
           Some e \<Rightarrow> (Inr e, ctx, w)
         | None \<Rightarrow>
             (case drm_sched_entity_init fc ea sched_prio (Some [Some (rb_sched gpu ring_nr)]) 1 None w of
                (ret, w) \<Rightarrow>
                  if ret \<noteq> 0 then (Inl ret, ctx, w)
                  else (Inr (the ea), ctx\<lparr>entities := (entities ctx)[idx := ea]\<rparr>, w)))"

text \<open>The result code and, on success, the new identifier.\<close>

definition msm_submitqueue_create ::
  "nat option \<Rightarrow> nat option \<Rightarrow> u64 \<Rightarrow> msm_gpu option \<Rightarrow> u32 \<Rightarrow> u32 \<Rightarrow> msm_file_private option \<Rightarrow> 'f world \<Rightarrow>
   int \<times> u32 option \<times> msm_file_private option \<times> 'f world" where
  "msm_submitqueue_create qa ea fc gpu prio flags ctx w =
     (case (ctx, gpu) of
        (Some c, Some g) \<Rightarrow>
          (case msm_gpu_convert_priority g prio of
             Inl e \<Rightarrow> (e, None, ctx, w)
           | Inr (ring_nr, sched_prio) \<Rightarrow>
               (case qa of
                  None \<Rightarrow> (- ENOMEM, None, ctx, w)
                | Some q \<Rightarrow>
                    (case get_sched_entity ea fc g ring_nr sched_prio c w of
                       (Inl e, c, w) \<Rightarrow> (e, None, Some c, w)
                     | (Inr ent, c, w) \<Rightarrow>
                         (let c = c\<lparr>fp_ref := fp_ref c + 1\<rparr>;
                              x = \<lparr>sq_id = queueid c, sq_flags = flags, sq_ring_nr = ring_nr, sq_faults = 0,
                                   sq_entity = ent, sq_ref = 1\<rparr>;
                              c = c\<lparr>queueid := queueid c + 1, sq_mem := (sq_mem c)(q \<mapsto> x),
                                    submitqueues := submitqueues c @ [q]\<rparr>
                          in (0, Some (sq_id x), Some c, w)))))
      | _ \<Rightarrow> (- ENODEV, None, ctx, w))"

definition msm_submitqueue_init ::
  "nat option \<Rightarrow> nat option \<Rightarrow> u64 \<Rightarrow> msm_gpu option \<Rightarrow> msm_file_private option \<Rightarrow> 'f world \<Rightarrow>
   int \<times> msm_file_private option \<times> 'f world" where
  "msm_submitqueue_init qa ea fc gpu ctx w =
     (case gpu of
        None \<Rightarrow> (- ENODEV, ctx, w)
      | Some g \<Rightarrow>
          (let max_priority = int (nr_rings g * NR_SCHED_PRIORITIES) - 1;
               default_prio = DIV_ROUND_UP (nat max_priority) 2
           in case msm_submitqueue_create qa ea fc gpu (of_nat default_prio) 0 ctx w of
                (ret, _, ctx, w) \<Rightarrow> (ret, ctx, w)))"

text \<open>\<open>None\<close>: a freed queue is touched.\<close>

definition msm_submitqueue_remove ::
  "(nat \<Rightarrow> 'f world \<Rightarrow> 'f world) \<Rightarrow> msm_file_private option \<Rightarrow> u32 \<Rightarrow> 'f world \<Rightarrow>
   (int \<times> msm_file_private option \<times> 'f world) option" where
  "msm_submitqueue_remove destroy ctx i w =
     (case ctx of
        None \<Rightarrow> Some (0, None, w)
      | Some c \<Rightarrow>
          if i = 0 then Some (- ENOENT, ctx, w)
          else case sq_find c i of
            None \<Rightarrow> Some (- ENOENT, ctx, w)
          | Some q \<Rightarrow>
              map_option (\<lambda>(c, w). (0, Some c, w))
                (msm_submitqueue_put destroy q (c\<lparr>submitqueues := remove1 q (submitqueues c)\<rparr>) w))"

fun close_queues ::
  "(nat \<Rightarrow> 'f world \<Rightarrow> 'f world) \<Rightarrow> nat list \<Rightarrow> msm_file_private \<Rightarrow> 'f world \<Rightarrow> (msm_file_private \<times> 'f world) option" where
  "close_queues destroy [] c w = Some (c, w)"
| "close_queues destroy (q # qs) c w =
     (case msm_submitqueue_put destroy q (c\<lparr>submitqueues := qs\<rparr>) w of
        None \<Rightarrow> None
      | Some (c, w) \<Rightarrow> close_queues destroy qs c w)"

definition msm_submitqueue_close ::
  "(nat \<Rightarrow> 'f world \<Rightarrow> 'f world) \<Rightarrow> msm_file_private option \<Rightarrow> 'f world \<Rightarrow> (msm_file_private option \<times> 'f world) option" where
  "msm_submitqueue_close destroy ctx w =
     (case ctx of
        None \<Rightarrow> Some (None, w)
      | Some c \<Rightarrow> map_option (\<lambda>(c, w). (Some c, w)) (close_queues destroy (submitqueues c) c w))"

text \<open>
  The query of the number of faults: \<open>len\<close>, \<open>pad\<close> and \<open>param\<close> are the members of the argument, \<open>copied\<close> tells
  whether the copy to userspace worked.  The result is the code and the new length.
\<close>

definition msm_submitqueue_query_faults :: "bool \<Rightarrow> u32 \<Rightarrow> int \<times> u32" where
  "msm_submitqueue_query_faults copied len =
     (let sz = min len 4
      in if len = 0 then (0, 4) else (if copied then 0 else - EFAULT, sz))"

definition msm_submitqueue_query ::
  "(nat \<Rightarrow> 'f world \<Rightarrow> 'f world) \<Rightarrow> bool \<Rightarrow> msm_file_private option \<Rightarrow> u32 \<Rightarrow> u32 \<Rightarrow> u32 \<Rightarrow> u32 \<Rightarrow> 'f world \<Rightarrow>
   (int \<times> u32 \<times> msm_file_private option \<times> 'f world) option" where
  "msm_submitqueue_query destroy copied ctx i param len pad w =
     (if pad \<noteq> 0 then Some (- EINVAL, len, ctx, w)
      else case msm_submitqueue_get ctx i of
        (None, ctx) \<Rightarrow> Some (- ENOENT, len, ctx, w)
      | (Some q, ctx) \<Rightarrow>
          (let (ret, len) = (if param = 0 then msm_submitqueue_query_faults copied len else (- EINVAL, len))
           in map_option (\<lambda>(c, w). (ret, len, Some c, w)) (msm_submitqueue_put destroy q (the ctx) w)))"

section \<open>Opening and closing a file (msm_drv.c)\<close>

definition context_init ::
  "bool \<Rightarrow> nat option \<Rightarrow> nat option \<Rightarrow> u64 \<Rightarrow> msm_gpu option \<Rightarrow> 'f world \<Rightarrow> int \<times> msm_file_private option \<times> 'f world" where
  "context_init mem qa ea fc gpu w =
     (if \<not> mem then (- ENOMEM, None, w)
      else let ctx = \<lparr>submitqueues = [], sq_mem = (\<lambda>_. None), queueid = 0, fp_ref = 1, fp_freed = False, sysprof = 0,
                      entities = replicate (NR_SCHED_PRIORITIES * MSM_GPU_MAX_RINGS) None\<rparr>
           in case msm_submitqueue_init qa ea fc gpu (Some ctx) w of (_, ctx, w) \<Rightarrow> (0, ctx, w))"

definition context_close ::
  "(nat \<Rightarrow> 'f world \<Rightarrow> 'f world) \<Rightarrow> msm_file_private \<Rightarrow> 'f world \<Rightarrow> (msm_file_private \<times> 'f world) option" where
  "context_close destroy ctx w =
     (case msm_submitqueue_close destroy (Some ctx) w of
        Some (Some ctx, w) \<Rightarrow> Some (msm_file_private_put destroy ctx w)
      | _ \<Rightarrow> None)"

section \<open>System profiling (msm_submitqueue.c)\<close>

definition msm_file_private_set_sysprof ::
  "msm_file_private \<Rightarrow> msm_gpu \<Rightarrow> int \<Rightarrow> int \<times> msm_file_private \<times> msm_gpu" where
  "msm_file_private_set_sysprof ctx gpu new =
     (if new \<notin> {0, 1, 2} then (- EINVAL, ctx, gpu)
      else let gpu = (if new = 2 then gpu\<lparr>pm_runtime := pm_runtime gpu + 1\<rparr> else gpu);
               gpu = (if new = 2 \<or> new = 1 then gpu\<lparr>sysprof_active := sysprof_active gpu + 1\<rparr> else gpu);
               gpu = (if sysprof ctx = 2 then gpu\<lparr>pm_runtime := pm_runtime gpu - 1\<rparr> else gpu);
               gpu = (if sysprof ctx = 2 \<or> sysprof ctx = 1 then gpu\<lparr>sysprof_active := sysprof_active gpu - 1\<rparr> else gpu)
           in (0, ctx\<lparr>sysprof := new\<rparr>, gpu))"

end
