(* ===== verification/Submitqueue_Correct.thy ===== *)
theory Submitqueue_Correct
  imports Submitqueue
begin

text \<open>
  Correctness of the submit queues: the priorities of userspace correspond one to one to pairs of a
  ring and a scheduler priority; queues and files are freed exactly when their last reference
  goes, identifiers are unique, and queues of the same priority share their entity.
\<close>

section \<open>Priorities\<close>

text \<open>The sign extension of the priority does not change its quotient and remainder by 3.\<close>

lemma signed_prio:
  fixes prio :: u32
  defines "p \<equiv> (word_of_int (c_int prio) :: u64)"
  shows "unat (ucast (p div 3) :: u32) = unat prio div 3" "unat (ucast (p mod 3) :: u32) = unat prio mod 3"
proof -
  have u: "unat prio < 4294967296" by (rule unat_u32_less)
  have p: "unat p = unat prio \<or> unat p = unat prio + 18446744069414584320"
  proof (cases "unat prio < 2147483648")
    case True
    then have "uint prio < 2147483648" by (simp only: uint_nat of_nat_less_numeral_iff)
    moreover have "- (2 ^ 31) \<le> uint prio" by (rule order_trans [OF _ uint_ge_0]) simp
    ultimately have "signed_take_bit 31 (uint prio) = uint prio" by (intro signed_take_bit_int_eq_self) auto
    then have "c_int prio = int (unat prio)" by (simp add: c_int_def sint_uint)
    then have "p = word_of_nat (unat prio)" by (simp add: p_def)
    then show ?thesis using u by (simp add: unsigned_ucast_eq take_bit_nat_eq_self)
  next
    case False
    have "\<not> uint prio < 2147483648" "uint prio < 4294967296"
      using False u by (simp_all only: uint_nat of_nat_less_numeral_iff simp_thms)
    then have ui: "2147483648 \<le> uint prio" "uint prio < 4294967296" by simp_all
    have "signed_take_bit 31 (uint prio) = (uint prio + 2147483648) mod 4294967296 - 2147483648"
      by (simp add: signed_take_bit_eq_take_bit_shift take_bit_eq_mod)
    also have "(uint prio + 2147483648) mod 4294967296 = uint prio - 2147483648"
      using ui by (simp add: mod_pos_geq)
    finally have "c_int prio = int (unat prio) - 4294967296" by (simp add: c_int_def sint_uint)
    then have "p = word_of_int (int (unat prio) - 4294967296)" by (simp add: p_def)
    then have "uint p = (int (unat prio) - 4294967296) mod 2 ^ LENGTH(64)"
      by (simp only: uint_word_of_int)
    also have "\<dots> = (uint prio - 4294967296 + 18446744073709551616) mod 18446744073709551616"
      by (subst mod_add_self2) simp
    also have "\<dots> = uint prio + 18446744069414584320"
      using ui by (subst mod_pos_pos_trivial) auto
    finally have "int (unat p) = int (unat prio + 18446744069414584320)" by simp
    then show ?thesis by (intro disjI2) (simp only: of_nat_eq_iff)
  qed
  have d: "unat (ucast (p div 3) :: u32) = unat p div 3 mod 4294967296"
    by (simp add: unsigned_ucast_eq unsigned_take_bit_eq unat_div_distrib take_bit_eq_mod)
  have m: "unat (ucast (p mod 3) :: u32) = unat p mod 3 mod 4294967296"
    by (simp add: unsigned_ucast_eq unsigned_take_bit_eq unat_mod_distrib take_bit_eq_mod)
  have "(unat prio + 18446744069414584320) div 3 = unat prio div 3 + 4294967296 * 1431655765"
    using div_mult_self1 [of 3 "unat prio" 6148914689804861440] by simp
  then have big: "(unat prio + 18446744069414584320) div 3 mod 4294967296 = unat prio div 3 mod 4294967296"
    by (simp only: mod_mult_self2)
  show "unat (ucast (p div 3) :: u32) = unat prio div 3"
    unfolding d using p big u by auto
  show "unat (ucast (p mod 3) :: u32) = unat prio mod 3"
  proof -
    have "(unat prio + 18446744069414584320) mod 3 = unat prio mod 3"
      using mod_mult_self1 [of "unat prio" 6148914689804861440 3] by simp
    then show ?thesis unfolding m using p by auto
  qed
qed

lemma div_mod_3:
  fixes n :: nat
  obtains q m where "n = 3 * q + m" "m < 3" "n div 3 = q" "n mod 3 = m"
  using that [of "n div 3" "n mod 3"] by simp

lemma div_mod_3_unique:
  fixes q m r k :: nat
  assumes "3 * q + m = 3 * r + k" "m < 3" "k < 3"
  shows "q = r \<and> m = k"
  using assms by presburger

lemma msm_gpu_convert:
  assumes "nr_rings gpu \<le> MSM_GPU_MAX_RINGS"
  shows "msm_gpu_convert_priority gpu prio = Inr (r, sp) \<longleftrightarrow>
      r < nr_rings gpu \<and> sp < 3 \<and> unat prio = 3 * r + (2 - sp)"
    and "msm_gpu_convert_priority gpu prio = Inl e \<longleftrightarrow> e = - EINVAL \<and> 3 * nr_rings gpu \<le> unat prio"
proof -
  let ?n = "unat prio"
  have sp: "unat (2 - (ucast ((word_of_int (c_int prio) :: u64) mod 3) :: u32)) = 2 - ?n mod 3"
  proof -
    let ?m = "ucast ((word_of_int (c_int prio) :: u64) mod 3) :: u32"
    have m: "unat ?m = ?n mod 3" by (rule signed_prio(2))
    then have "?m = word_of_nat (?n mod 3)" by (simp only: m [symmetric]) simp
    moreover have "?n mod 3 = 0 \<or> ?n mod 3 = 1 \<or> ?n mod 3 = 2" by presburger
    ultimately show ?thesis by auto
  qed
  have conv: "msm_gpu_convert_priority gpu prio =
      (if ?n div 3 \<ge> nr_rings gpu then Inl (- EINVAL) else Inr (?n div 3, 2 - ?n mod 3))"
    by (simp add: msm_gpu_convert_priority_def Let_def NR_SCHED_PRIORITIES_def signed_prio(1) sp del: c_int_def)
  obtain q m where n: "?n = 3 * q + m" "m < 3" "?n div 3 = q" "?n mod 3 = m" by (rule div_mod_3)
  have eq: "q < nr_rings gpu \<and> q = r \<and> 2 - m = sp \<longleftrightarrow> r < nr_rings gpu \<and> sp < 3 \<and> 3 * q + m = 3 * r + (2 - sp)"
    using n(2) div_mod_3_unique [of q m r "2 - sp"] by auto
  have "msm_gpu_convert_priority gpu prio = Inr (r, sp) \<longleftrightarrow> q < nr_rings gpu \<and> q = r \<and> 2 - m = sp"
    unfolding conv n(3,4) by auto
  then show "msm_gpu_convert_priority gpu prio = Inr (r, sp) \<longleftrightarrow>
      r < nr_rings gpu \<and> sp < 3 \<and> unat prio = 3 * r + (2 - sp)"
    unfolding eq n(1) .
  have "nr_rings gpu \<le> q \<longleftrightarrow> 3 * nr_rings gpu \<le> 3 * q + m" using n(2) by arith
  then   show "msm_gpu_convert_priority gpu prio = Inl e \<longleftrightarrow> e = - EINVAL \<and> 3 * nr_rings gpu \<le> unat prio"
    unfolding conv n(3,4) unfolding n(1) by auto
qed

text \<open>
  The function \<^verbatim>\<open>msm_gpu_convert_priority\<close> maps the priorities of userspace one to one to the pairs of a ring and
  a scheduler priority: whatever 32-bit value userspace passes, also one that is negative as an
  \<^verbatim>\<open>int\<close> and is extended to 64 bits and cut again, it is accepted exactly when it is below three
  times the number of rings, and then the ring is the quotient and the scheduler priority the reversed
  remainder, so that lower numbers mean rings and entities of higher priority.
\<close>

theorem msm_gpu_convert_priority_bijective:
  assumes "nr_rings gpu \<le> MSM_GPU_MAX_RINGS"
  shows "(msm_gpu_convert_priority gpu prio = Inr (r, sp)) =
      (r < nr_rings gpu \<and> sp < 3 \<and> unat prio = 3 * r + (2 - sp)) \<and>
    (msm_gpu_convert_priority gpu prio = Inl e) = (e = - EINVAL \<and> 3 * nr_rings gpu \<le> unat prio)"
  using msm_gpu_convert [OF assms] by simp

text \<open>The witness: four rings, the highest accepted priority and the first one beyond.\<close>

theorem msm_gpu_convert_priority_bijective_witness:
  "\<exists>gpu. nr_rings gpu = 4 \<and> msm_gpu_convert_priority gpu 11 = Inr (3, 0) \<and>
     msm_gpu_convert_priority gpu 12 = Inl (- EINVAL) \<and> msm_gpu_convert_priority gpu 0xFFFFFFFF = Inl (- EINVAL)"
proof -
  let ?gpu = "\<lparr>nr_rings = 4, rb_sched = id, sysprof_active = 1, pm_runtime = 0\<rparr>"
  have "nr_rings ?gpu \<le> MSM_GPU_MAX_RINGS" by (simp add: MSM_GPU_MAX_RINGS_def)
  note conv = msm_gpu_convert_priority_bijective [OF this]
  show ?thesis using conv [of 11 3 0 0] conv [of 12 0 0 "- EINVAL"] conv [of "0xFFFFFFFF" 0 0 "- EINVAL"]
    by (intro exI [of _ ?gpu]) simp
qed

section \<open>References\<close>

text \<open>
  The references to a queue: from the list, and \<open>held q\<close> from submissions and running ioctls.
  \<open>refs_ok refs n c\<close>: every queue in memory has as many references as \<open>refs\<close> says and at least one, and the
  file has one per queue and \<open>n\<close> more; it is freed when there are none.
\<close>

definition refs_ok :: "(nat \<Rightarrow> nat) \<Rightarrow> nat \<Rightarrow> msm_file_private \<Rightarrow> bool" where
  "refs_ok refs n c =
     (finite (dom (sq_mem c)) \<and>
      (\<forall>q. sq_mem c q = None \<longleftrightarrow> refs q = 0) \<and> (\<forall>q x. sq_mem c q = Some x \<longrightarrow> sq_ref x = refs q) \<and>
      fp_ref c = n + card (dom (sq_mem c)) \<and> fp_freed c = (fp_ref c = 0))"

lemma refs_okD:
  assumes "refs_ok refs n c"
  shows "finite (dom (sq_mem c))" "sq_mem c q = Some x \<Longrightarrow> sq_ref x = refs q"
    "sq_mem c q = None \<longleftrightarrow> refs q = 0" "fp_ref c = n + card (dom (sq_mem c))" "fp_freed c \<longleftrightarrow> fp_ref c = 0"
  using assms by (auto simp: refs_ok_def)

text \<open>The members that do not change when references are taken and dropped.\<close>

definition same_queues :: "msm_file_private \<Rightarrow> msm_file_private \<Rightarrow> bool" where
  "same_queues c c' =
     (queueid c' = queueid c \<and> entities c' = entities c \<and> sysprof c' = sysprof c \<and>
      (\<forall>q x'. sq_mem c' q = Some x' \<longrightarrow> (\<exists>x. sq_mem c q = Some x \<and> x' = x\<lparr>sq_ref := sq_ref x'\<rparr>)))"

lemma same_queues_refl: "same_queues c c"
  by (simp add: same_queues_def)

lemma same_queues_list [simp]:
  "same_queues (c\<lparr>submitqueues := l\<rparr>) c' = same_queues c c'" "same_queues c (c'\<lparr>submitqueues := l\<rparr>) = same_queues c c'"
  by (simp_all add: same_queues_def)

lemma same_queues_trans:
  assumes "same_queues a b" "same_queues b c"
  shows "same_queues a c"
proof -
  have "\<exists>x. sq_mem a q = Some x \<and> z = x\<lparr>sq_ref := sq_ref z\<rparr>" if z: "sq_mem c q = Some z" for q z
  proof -
    from assms(2) z obtain y where y: "sq_mem b q = Some y" "z = y\<lparr>sq_ref := sq_ref z\<rparr>"
      unfolding same_queues_def by blast
    from assms(1) y(1) obtain x where "sq_mem a q = Some x" "y = x\<lparr>sq_ref := sq_ref y\<rparr>"
      unfolding same_queues_def by blast
    with y(2) show ?thesis by (metis msm_gpu_submitqueue.update_convs(6) msm_gpu_submitqueue.surjective)
  qed
  with assms show ?thesis by (simp add: same_queues_def)
qed

lemma put_refs:
  assumes "refs_ok refs n c" "0 < refs q"
  shows "\<exists>c' w'. msm_submitqueue_put destroy q c w = Some (c', w') \<and> refs_ok (refs(q := refs q - 1)) n c' \<and>
    submitqueues c' = submitqueues c \<and> same_queues c c'"
proof -
  note ok = refs_okD [OF assms(1)]
  from ok(3) [of q] assms(2) obtain x where x: "sq_mem c q = Some x" by auto
  with ok(2) have r: "sq_ref x = refs q" by simp
  have pos: "0 < card (dom (sq_mem c))" using ok(1) x by (auto simp: card_gt_0_iff)
  with ok(4,5) have live: "\<not> fp_freed c" by auto
  let ?x = "x\<lparr>sq_ref := sq_ref x - 1\<rparr>"
  show ?thesis
  proof (cases "refs q = 1")
    case True
    let ?c = "c\<lparr>sq_mem := (sq_mem c)(q := None), fp_ref := fp_ref c - 1\<rparr>"
    have dom: "card (dom (sq_mem ?c)) = card (dom (sq_mem c)) - 1"
      using x by (simp add: domI)
    have put: "msm_submitqueue_put destroy q c w =
        Some (if fp_ref c - 1 = 0 then msm_file_private_destroy destroy ?c w else (?c, w))"
      using x live r True
      by (simp add: msm_submitqueue_put_def msm_submitqueue_destroy_def msm_file_private_put_def Let_def)
    have "refs_ok (refs(q := refs q - 1)) n (?c\<lparr>fp_freed := (fp_ref c - 1 = 0)\<rparr>)"
      using assms(1) True dom pos by (auto simp: refs_ok_def)
    moreover have "?c\<lparr>fp_freed := False\<rparr> = ?c" using live by simp
    ultimately show ?thesis
      using put by (auto simp: msm_file_private_destroy_def same_queues_def split: if_splits)
  next
    case False
    let ?c = "c\<lparr>sq_mem := (sq_mem c)(q \<mapsto> ?x)\<rparr>"
    have "msm_submitqueue_put destroy q c w = Some (?c, w)"
      using x live r False assms(2) by (simp add: msm_submitqueue_put_def Let_def)
    moreover have "dom (sq_mem ?c) = dom (sq_mem c)" using x by auto
    then have "refs_ok (refs(q := refs q - 1)) n ?c"
      using assms False r x by (auto simp: refs_ok_def)
    ultimately show ?thesis using x by (auto simp: same_queues_def)
  qed
qed

text \<open>The references from the list and from elsewhere.\<close>

definition list_refs :: "nat list \<Rightarrow> (nat \<Rightarrow> nat) \<Rightarrow> nat \<Rightarrow> nat" where
  "list_refs qs held q = of_bool (q \<in> set qs) + held q"

lemma list_refs_remove:
  "distinct qs \<Longrightarrow> q \<in> set qs \<Longrightarrow> (list_refs qs held)(q := list_refs qs held q - 1) = list_refs (remove1 q qs) held"
  by (auto simp: list_refs_def fun_eq_iff)

lemma list_refs_hold: "0 < held q \<Longrightarrow>
    (list_refs qs held)(q := list_refs qs held q - 1) = list_refs qs (held(q := held q - 1))"
  by (auto simp: list_refs_def fun_eq_iff)

text \<open>The queues themselves: identifiers are unique, rings exist, entities are those of the table.\<close>

definition queues_ok :: "msm_gpu \<Rightarrow> msm_file_private \<Rightarrow> bool" where
  "queues_ok gpu c =
     (distinct (submitqueues c) \<and> length (entities c) = NR_SCHED_PRIORITIES * MSM_GPU_MAX_RINGS \<and>
      (\<forall>q x. sq_mem c q = Some x \<longrightarrow> sq_id x < queueid c \<and> sq_ring_nr x < nr_rings gpu \<and>
         (\<exists>p < 3. entities c ! (3 * sq_ring_nr x + p) = Some (sq_entity x))) \<and>
      (\<forall>q x q' x'. sq_mem c q = Some x \<longrightarrow> sq_mem c q' = Some x' \<longrightarrow> sq_id x = sq_id x' \<longrightarrow> q = q'))"

lemma queues_ok_same:
  assumes "queues_ok gpu c" "same_queues c c'" "distinct (submitqueues c')"
  shows "queues_ok gpu c'"
proof -
  have old: "\<exists>x. sq_mem c q = Some x \<and> sq_id x = sq_id x' \<and> sq_ring_nr x = sq_ring_nr x' \<and> sq_entity x = sq_entity x'"
    if x': "sq_mem c' q = Some x'" for q x'
  proof -
    from assms(2) x' obtain x where "sq_mem c q = Some x" "x' = x\<lparr>sq_ref := sq_ref x'\<rparr>"
      unfolding same_queues_def by blast
    then show ?thesis by (metis msm_gpu_submitqueue.select_convs(1,3,5) msm_gpu_submitqueue.surjective
      msm_gpu_submitqueue.update_convs(6))
  qed
  have same: "queueid c' = queueid c" "entities c' = entities c" using assms(2) by (auto simp: same_queues_def)
  show ?thesis
    unfolding queues_ok_def same
  proof (intro conjI allI impI)
    fix q x assume "sq_mem c' q = Some x"
    from old [OF this] assms(1) show "sq_id x < queueid c" "sq_ring_nr x < nr_rings gpu"
      "\<exists>p < 3. entities c ! (3 * sq_ring_nr x + p) = Some (sq_entity x)"
      unfolding queues_ok_def by metis+
  next
    fix q x q' x'
    assume "sq_mem c' q = Some x" "sq_mem c' q' = Some x'" "sq_id x = sq_id x'"
    with old [of q x] old [of q' x'] assms(1) show "q = q'" unfolding queues_ok_def by metis
  qed (use assms in \<open>auto simp: queues_ok_def\<close>)
qed

lemma sq_find_SomeD: "sq_find c i = Some q \<Longrightarrow> q \<in> set (submitqueues c) \<and> (\<exists>x. sq_mem c q = Some x \<and> sq_id x = i)"
  by (auto simp: sq_find_def dest!: find_SomeD split: option.splits)

text \<open>Dropping the reference of the list to one queue, and to all.\<close>

lemma put_listed:
  assumes "refs_ok (list_refs (submitqueues c) held) n c" "queues_ok gpu c" "q \<in> set (submitqueues c)"
  shows "\<exists>c' w'. msm_submitqueue_put destroy q (c\<lparr>submitqueues := remove1 q (submitqueues c)\<rparr>) w = Some (c', w') \<and>
    refs_ok (list_refs (submitqueues c') held) n c' \<and> queues_ok gpu c' \<and>
    submitqueues c' = remove1 q (submitqueues c)"
proof -
  let ?c = "c\<lparr>submitqueues := remove1 q (submitqueues c)\<rparr>"
  have d: "distinct (submitqueues c)" using assms(2) by (simp add: queues_ok_def)
  have "refs_ok (list_refs (submitqueues c) held) n ?c" using assms(1) by (simp add: refs_ok_def)
  moreover have "0 < list_refs (submitqueues c) held q" using assms(3) by (simp add: list_refs_def)
  ultimately obtain c' w' where p: "msm_submitqueue_put destroy q ?c w = Some (c', w')"
    "refs_ok ((list_refs (submitqueues c) held)(q := list_refs (submitqueues c) held q - 1)) n c'"
    "submitqueues c' = submitqueues ?c" "same_queues ?c c'" using put_refs by blast
  have "queues_ok gpu c'" by (rule queues_ok_same [OF assms(2)]) (use p(3,4) d in auto)
  with p show ?thesis unfolding list_refs_remove [OF d assms(3)] by auto
qed

lemma close_queues_refs:
  assumes "refs_ok (list_refs (submitqueues c) held) n c" "queues_ok gpu c" "submitqueues c = qs"
  shows "\<exists>c' w'. close_queues destroy qs c w = Some (c', w') \<and> refs_ok (list_refs [] held) n c' \<and>
    queues_ok gpu c' \<and> submitqueues c' = []"
  using assms
proof (induction qs arbitrary: c w)
  case Nil
  then show ?case by auto
next
  case (Cons q qs)
  from put_listed [OF Cons.prems(1,2), of q destroy w] Cons.prems(3) obtain c' w' where
    p: "msm_submitqueue_put destroy q (c\<lparr>submitqueues := qs\<rparr>) w = Some (c', w')"
      "refs_ok (list_refs (submitqueues c') held) n c'" "queues_ok gpu c'" "submitqueues c' = qs" by auto
  from Cons.IH [OF p(2-4), of w'] p(1) show ?case by simp
qed

lemma file_put_refs:
  assumes "refs_ok refs (Suc n) c"
  shows "\<exists>c' w'. msm_file_private_put destroy c w = (c', w') \<and> refs_ok refs n c' \<and> submitqueues c' = submitqueues c \<and>
    same_queues c c'"
proof -
  have live: "\<not> fp_freed c" "fp_ref c = Suc n + card (dom (sq_mem c))" using assms by (auto simp: refs_ok_def)
  then have "c\<lparr>fp_ref := fp_ref c - 1, fp_freed := False\<rparr> = c\<lparr>fp_ref := fp_ref c - 1\<rparr>" by simp
  with assms live show ?thesis
    by (cases "n + card (dom (sq_mem c)) = 0")
      (auto simp: msm_file_private_put_def msm_file_private_destroy_def refs_ok_def same_queues_def Let_def)
qed

text \<open>Taking a reference.\<close>

lemma refs_ok_get:
  assumes "refs_ok refs n c" "sq_mem c q = Some x"
  shows "refs_ok (refs(q := refs q + 1)) n (c\<lparr>sq_mem := (sq_mem c)(q \<mapsto> x\<lparr>sq_ref := sq_ref x + 1\<rparr>)\<rparr>)"
proof -
  note ok = refs_okD [OF assms(1)]
  have d: "insert q (dom (sq_mem c)) = dom (sq_mem c)" using assms(2) by auto
  have r: "sq_ref x = refs q" by (rule ok(2) [OF assms(2)])
  show ?thesis
    unfolding refs_ok_def
  proof (intro conjI allI impI)
    fix q' y
    let ?c = "c\<lparr>sq_mem := (sq_mem c)(q \<mapsto> x\<lparr>sq_ref := sq_ref x + 1\<rparr>)\<rparr>"
    assume "sq_mem ?c q' = Some y"
    then show "sq_ref y = (refs(q := refs q + 1)) q'" using r ok(2) by (auto split: if_splits)
  next
    fix q'
    show "(sq_mem (c\<lparr>sq_mem := (sq_mem c)(q \<mapsto> x\<lparr>sq_ref := sq_ref x + 1\<rparr>)\<rparr>) q' = None) =
        ((refs(q := refs q + 1)) q' = 0)"
      using ok(3) [of q'] by (cases "q' = q") simp_all
  next
    show "fp_ref (c\<lparr>sq_mem := (sq_mem c)(q \<mapsto> x\<lparr>sq_ref := sq_ref x + 1\<rparr>)\<rparr>) =
        n + card (dom (sq_mem (c\<lparr>sq_mem := (sq_mem c)(q \<mapsto> x\<lparr>sq_ref := sq_ref x + 1\<rparr>)\<rparr>)))"
      using ok(4) by (simp add: d)
  qed (use ok(1,5) in simp_all)
qed

lemma get_refs:
  assumes "refs_ok (list_refs (submitqueues c) held) n c" "queues_ok gpu c"
    and "msm_submitqueue_get (Some c) i = (Some q, Some c')"
  shows "refs_ok (list_refs (submitqueues c') (held(q := held q + 1))) n c'" "queues_ok gpu c'"
    "submitqueues c' = submitqueues c" "q \<in> set (submitqueues c)"
proof -
  from assms(3) have f: "sq_find c i = Some q"
    and c': "c' = c\<lparr>sq_mem := (sq_mem c)(q := map_option (\<lambda>x. x\<lparr>sq_ref := sq_ref x + 1\<rparr>) (sq_mem c q))\<rparr>"
    by (auto simp: msm_submitqueue_get_def split: option.splits)
  from sq_find_SomeD [OF f] obtain x where x: "sq_mem c q = Some x" and q: "q \<in> set (submitqueues c)" by blast
  have c'': "c' = c\<lparr>sq_mem := (sq_mem c)(q \<mapsto> x\<lparr>sq_ref := sq_ref x + 1\<rparr>)\<rparr>" using c' x by simp
  have "list_refs (submitqueues c) (held(q := held q + 1)) =
      (list_refs (submitqueues c) held)(q := list_refs (submitqueues c) held q + 1)"
    by (auto simp: list_refs_def)
  with refs_ok_get [OF assms(1) x] show "refs_ok (list_refs (submitqueues c') (held(q := held q + 1))) n c'"
    by (simp add: c'')
  have "same_queues c c'" using x unfolding c'' by (auto simp: same_queues_def)
  moreover have "distinct (submitqueues c)" using assms(2) unfolding queues_ok_def by blast
  ultimately show "queues_ok gpu c'" by (intro queues_ok_same [OF assms(2)]) (simp_all add: c'')
  show "submitqueues c' = submitqueues c" "q \<in> set (submitqueues c)" using q by (simp_all add: c'')
qed

text \<open>Creating a queue: the entity of its ring and priority is in the table, old or new.\<close>

lemma get_sched_entity_table:
  assumes "get_sched_entity ea fc gpu r p c w = (res, c', w')" "length (entities c) = NR_SCHED_PRIORITIES * MSM_GPU_MAX_RINGS"
    and "r < MSM_GPU_MAX_RINGS" "p < 3"
  shows "\<exists>es. c' = c\<lparr>entities := es\<rparr> \<and> length es = length (entities c) \<and>
    (\<forall>i e. i < length es \<longrightarrow> entities c ! i = Some e \<longrightarrow> es ! i = Some e) \<and>
    (\<forall>e. res = Inr e \<longrightarrow> es ! (3 * r + p) = Some e)"
proof -
  have idx: "r * NR_SCHED_PRIORITIES + p < length (entities c)" "r * NR_SCHED_PRIORITIES + p = 3 * r + p"
    using assms(2-4) by (auto simp: NR_SCHED_PRIORITIES_def MSM_GPU_MAX_RINGS_def)
  show ?thesis
  proof (cases "entities c ! (3 * r + p)")
    case (Some e)
    with assms(1) idx show ?thesis by (intro exI [of _ "entities c"]) (auto simp: get_sched_entity_def Let_def)
  next
    case None
    obtain ret w1 where i: "drm_sched_entity_init fc ea p (Some [Some (rb_sched gpu r)]) 1 None w = (ret, w1)"
      by fastforce
    show ?thesis
    proof (cases "ret = 0")
      case True
      with i obtain e where "ea = Some e" by (auto simp: drm_sched_entity_init_def split: option.splits)
      with None True assms(1) idx i show ?thesis
        by (intro exI [of _ "(entities c)[3 * r + p := Some e]"])
          (auto simp: get_sched_entity_def Let_def nth_list_update)
    next
      case False
      with None assms(1) idx i show ?thesis by (intro exI [of _ "entities c"]) (auto simp: get_sched_entity_def Let_def)
    qed
  qed
qed

lemma create_refs:
  assumes "refs_ok (list_refs (submitqueues c) held) n c" "queues_ok gpu c" "nr_rings gpu \<le> MSM_GPU_MAX_RINGS"
    and "\<forall>q. qa = Some q \<longrightarrow> sq_mem c q = None" "unat (queueid c) + 1 < 2 ^ 32" "0 < n"
    and "msm_submitqueue_create qa ea fc (Some gpu) prio flags (Some c) w = (ret, i, c', w')"
  shows "\<exists>c1. c' = Some c1 \<and> refs_ok (list_refs (submitqueues c1) held) n c1 \<and> queues_ok gpu c1"
proof (cases "msm_gpu_convert_priority gpu prio")
  case (Inl e)
  with assms show ?thesis by (auto simp: msm_submitqueue_create_def)
next
  case (Inr rp)
  obtain r p where rp: "rp = (r, p)" by fastforce
  from msm_gpu_convert [OF assms(3)] Inr rp have r: "r < nr_rings gpu" "p < 3" by auto
  show ?thesis
  proof (cases qa)
    case None
    with Inr rp assms show ?thesis by (auto simp: msm_submitqueue_create_def)
  next
    case (Some q)
    obtain res c1 w1 where g: "get_sched_entity ea fc gpu r p c w = (res, c1, w1)" by (metis prod_cases3)
    have "length (entities c) = NR_SCHED_PRIORITIES * MSM_GPU_MAX_RINGS" using assms(2) by (simp add: queues_ok_def)
    from get_sched_entity_table [OF g this _ r(2)] r(1) assms(3) obtain es where
      es: "c1 = c\<lparr>entities := es\<rparr>" "length es = length (entities c)"
        "\<forall>i e. i < length es \<longrightarrow> entities c ! i = Some e \<longrightarrow> es ! i = Some e"
        "\<forall>e. res = Inr e \<longrightarrow> es ! (3 * r + p) = Some e" by auto
    have slot: "3 * r' + p' < length es" if "r' < nr_rings gpu" "p' < 3" for r' p'
      using that assms(2,3) es(2) by (simp add: queues_ok_def NR_SCHED_PRIORITIES_def MSM_GPU_MAX_RINGS_def)
    have ok1: "refs_ok (list_refs (submitqueues c1) held) n c1" using assms(1) by (simp add: es(1) refs_ok_def)
    have ok2: "queues_ok gpu c1"
      using assms(2) es(2,3) slot unfolding queues_ok_def es(1) by simp metis
    show ?thesis
    proof (cases res)
      case (Inl e)
      with Some g \<open>msm_gpu_convert_priority gpu prio = Inr rp\<close> rp assms(7) ok1 ok2 show ?thesis
        by (auto simp: msm_submitqueue_create_def)
    next
      case (Inr ent)
      let ?x = "\<lparr>sq_id = queueid c1, sq_flags = flags, sq_ring_nr = r, sq_faults = 0, sq_entity = ent, sq_ref = 1\<rparr>"
      let ?c = "c1\<lparr>fp_ref := fp_ref c1 + 1, queueid := queueid c1 + 1, sq_mem := (sq_mem c1)(q \<mapsto> ?x),
          submitqueues := submitqueues c1 @ [q]\<rparr>"
      have c': "c' = Some ?c"
        using Some g Inr \<open>msm_gpu_convert_priority gpu prio = Inr rp\<close> rp assms(7)
        by (simp add: msm_submitqueue_create_def Let_def)
      have fresh: "sq_mem c1 q = None" using assms(4) Some es(1) by simp
      then have none: "list_refs (submitqueues c1) held q = 0" using ok1 by (simp add: refs_ok_def)
      have "q \<notin> dom (sq_mem c1)" using fresh by auto
      then have "refs_ok (list_refs (submitqueues ?c) held) n ?c"
        using ok1 fresh none assms(6) by (auto simp: refs_ok_def list_refs_def split: if_splits)
      moreover have "queues_ok gpu ?c"
        unfolding queues_ok_def
      proof (intro conjI allI impI)
        have id: "queueid c1 < queueid c1 + 1"
          using assms(5) by (simp add: es(1) word_less_nat_alt unat_add_1_u32)
        have q: "q \<notin> set (submitqueues c1)" using none by (simp add: list_refs_def)
        then show "distinct (submitqueues ?c)" using ok2 by (simp add: queues_ok_def)
        show "length (entities ?c) = NR_SCHED_PRIORITIES * MSM_GPU_MAX_RINGS" using ok2 by (simp add: queues_ok_def)
        fix q' x' assume m: "sq_mem ?c q' = Some x'"
        show "sq_id x' < queueid ?c" "sq_ring_nr x' < nr_rings gpu"
          "\<exists>p < 3. entities ?c ! (3 * sq_ring_nr x' + p) = Some (sq_entity x')"
          using m ok2 id r es(1,4) Inr by (auto simp: queues_ok_def split: if_splits intro: order.strict_trans)
        fix q'' x'' assume m': "sq_mem ?c q'' = Some x''" "sq_id x' = sq_id x''"
        have ne: "sq_mem c1 a = Some y \<Longrightarrow> sq_id y \<noteq> queueid c1" for a y
          using ok2 unfolding queues_ok_def by (metis order.irrefl)
        have inj: "sq_mem c1 a = Some y \<Longrightarrow> sq_mem c1 b = Some z \<Longrightarrow> sq_id y = sq_id z \<Longrightarrow> a = b" for a b y z
          using ok2 unfolding queues_ok_def by blast
        show "q' = q''"
          using m m' ne [of q' x'] ne [of q'' x''] inj [of q' x' q'' x''] by (auto split: if_splits)
      qed
      ultimately show ?thesis using c' by blast
    qed
  qed
qed

section \<open>A file from opening to the last reference\<close>

text \<open>
  The system: a file, the scheduler world, the references that submissions and running ioctls hold,
  and whether the file is open.  The ioctls that need an open file create, remove, look up and query
  queues; a reference can be dropped, and the file closed, at any time.  Allocations return unused
  memory, or fail; a new identifier does not exceed 32 bits.
\<close>

record 'f q_sys =
  qs_ctx :: msm_file_private
  qs_world :: "'f world"
  qs_held :: "nat \<Rightarrow> nat"
  qs_open :: bool

datatype q_op =
    Q_Create "nat option" "nat option" u64 u32 u32
  | Q_Get u32
  | Q_Put nat
  | Q_Query bool u32 u32 u32 u32
  | Q_Remove u32
  | Q_Close

fun q_allowed :: "q_op \<Rightarrow> 'f q_sys \<Rightarrow> bool" where
  "q_allowed (Q_Create qa ea fc prio flags) s =
     (qs_open s \<and> (\<forall>q. qa = Some q \<longrightarrow> sq_mem (qs_ctx s) q = None) \<and> unat (queueid (qs_ctx s)) + 1 < 2 ^ 32)"
| "q_allowed (Q_Put q) s = (0 < qs_held s q)"
| "q_allowed _ s = qs_open s"

fun q_perform ::
  "(nat \<Rightarrow> 'f world \<Rightarrow> 'f world) \<Rightarrow> msm_gpu \<Rightarrow> q_op \<Rightarrow> 'f q_sys \<Rightarrow> 'f q_sys option" where
  "q_perform destroy gpu (Q_Create qa ea fc prio flags) s =
     (case msm_submitqueue_create qa ea fc (Some gpu) prio flags (Some (qs_ctx s)) (qs_world s) of
        (_, _, ctx, w) \<Rightarrow> map_option (\<lambda>c. s\<lparr>qs_ctx := c, qs_world := w\<rparr>) ctx)"
| "q_perform destroy gpu (Q_Get i) s =
     (case msm_submitqueue_get (Some (qs_ctx s)) i of
        (None, _) \<Rightarrow> Some s
      | (Some q, ctx) \<Rightarrow>
          map_option (\<lambda>c. s\<lparr>qs_ctx := c, qs_held := (qs_held s)(q := qs_held s q + 1)\<rparr>) ctx)"
| "q_perform destroy gpu (Q_Put q) s =
     map_option (\<lambda>(c, w). s\<lparr>qs_ctx := c, qs_world := w, qs_held := (qs_held s)(q := qs_held s q - 1)\<rparr>)
       (msm_submitqueue_put destroy q (qs_ctx s) (qs_world s))"
| "q_perform destroy gpu (Q_Query copied i param len pad) s =
     Option.bind (msm_submitqueue_query destroy copied (Some (qs_ctx s)) i param len pad (qs_world s))
       (\<lambda>(_, _, ctx, w). map_option (\<lambda>c. s\<lparr>qs_ctx := c, qs_world := w\<rparr>) ctx)"
| "q_perform destroy gpu (Q_Remove i) s =
     Option.bind (msm_submitqueue_remove destroy (Some (qs_ctx s)) i (qs_world s))
       (\<lambda>(_, ctx, w). map_option (\<lambda>c. s\<lparr>qs_ctx := c, qs_world := w\<rparr>) ctx)"
| "q_perform destroy gpu Q_Close s =
     map_option (\<lambda>(c, w). s\<lparr>qs_ctx := c, qs_world := w, qs_open := False\<rparr>)
       (context_close destroy (qs_ctx s) (qs_world s))"

inductive q_reachable :: "(nat \<Rightarrow> 'f world \<Rightarrow> 'f world) \<Rightarrow> msm_gpu \<Rightarrow> 'f q_sys \<Rightarrow> bool"
  for destroy :: "nat \<Rightarrow> 'f world \<Rightarrow> 'f world" and gpu :: msm_gpu where
  q_open: "context_init True qa ea fc (Some gpu) w = (0, Some c, w') \<Longrightarrow>
    q_reachable destroy gpu \<lparr>qs_ctx = c, qs_world = w', qs_held = (\<lambda>_. 0), qs_open = True\<rparr>"
| q_step: "q_reachable destroy gpu s \<Longrightarrow> q_allowed x s \<Longrightarrow> q_perform destroy gpu x s = Some s' \<Longrightarrow>
    q_reachable destroy gpu s'"

definition q_inv :: "msm_gpu \<Rightarrow> 'f q_sys \<Rightarrow> bool" where
  "q_inv gpu s =
     (refs_ok (list_refs (submitqueues (qs_ctx s)) (qs_held s)) (of_bool (qs_open s)) (qs_ctx s) \<and>
      queues_ok gpu (qs_ctx s) \<and> (\<not> qs_open s \<longrightarrow> submitqueues (qs_ctx s) = []))"

lemma q_inv_init:
  assumes "context_init True qa ea fc (Some gpu) w = (0, Some c, w')" "nr_rings gpu \<le> MSM_GPU_MAX_RINGS"
  shows "q_inv gpu \<lparr>qs_ctx = c, qs_world = w', qs_held = (\<lambda>_. 0), qs_open = True\<rparr>"
proof -
  define c0 where "c0 = \<lparr>submitqueues = [], sq_mem = (\<lambda>_. None), queueid = 0, fp_ref = 1, fp_freed = False, sysprof = 0,
      entities = replicate (NR_SCHED_PRIORITIES * MSM_GPU_MAX_RINGS) None\<rparr>"
  have ok: "refs_ok (list_refs (submitqueues c0) (\<lambda>_. 0)) 1 c0" "queues_ok gpu c0"
    by (simp_all add: c0_def refs_ok_def queues_ok_def list_refs_def)
  obtain prio ret i c' w1 where cr: "msm_submitqueue_create qa ea fc (Some gpu) prio 0 (Some c0) w = (ret, i, c', w1)"
      and c: "c' = Some c"
    using assms(1) by (auto simp: context_init_def msm_submitqueue_init_def c0_def Let_def split: prod.splits)
  from create_refs [OF ok assms(2) _ _ _ cr] c show ?thesis by (auto simp: c0_def q_inv_def)
qed

text \<open>Every operation that can happen succeeds and keeps the invariant.\<close>

lemma put_held:
  assumes "refs_ok (list_refs (submitqueues c) held) n c" "queues_ok gpu c" "0 < held q"
  shows "\<exists>c' w'. msm_submitqueue_put destroy q c w = Some (c', w') \<and>
    refs_ok (list_refs (submitqueues c') (held(q := held q - 1))) n c' \<and> queues_ok gpu c' \<and>
    submitqueues c' = submitqueues c"
proof -
  have "0 < list_refs (submitqueues c) held q" using assms(3) by (simp add: list_refs_def)
  from put_refs [OF assms(1) this] obtain c' w' where p: "msm_submitqueue_put destroy q c w = Some (c', w')"
    "refs_ok (list_refs (submitqueues c) (held(q := held q - 1))) n c'" "submitqueues c' = submitqueues c"
    "same_queues c c'" unfolding list_refs_hold [of held q "submitqueues c", OF assms(3)] by blast
  have "queues_ok gpu c'"
    by (rule queues_ok_same [OF assms(2) p(4)]) (use p(3) assms(2) in \<open>simp add: queues_ok_def\<close>)
  with p show ?thesis by auto
qed

lemma query_refs:
  assumes "refs_ok (list_refs (submitqueues c) held) n c" "queues_ok gpu c"
  shows "\<exists>ret len' c' w'. msm_submitqueue_query destroy copied (Some c) i param len pad w = Some (ret, len', Some c', w') \<and>
    refs_ok (list_refs (submitqueues c') held) n c' \<and> queues_ok gpu c' \<and> submitqueues c' = submitqueues c"
proof (cases "pad \<noteq> 0 \<or> sq_find c i = None")
  case True
  with assms show ?thesis by (auto simp: msm_submitqueue_query_def msm_submitqueue_get_def)
next
  case False
  then obtain q c1 where g: "msm_submitqueue_get (Some c) i = (Some q, Some c1)"
    by (auto simp: msm_submitqueue_get_def)
  note g1 = get_refs [OF assms g]
  obtain c' w' where p: "msm_submitqueue_put destroy q c1 w = Some (c', w')"
    "refs_ok (list_refs (submitqueues c') ((held(q := held q + 1))(q := (held(q := held q + 1)) q - 1))) n c'"
    "queues_ok gpu c'" "submitqueues c' = submitqueues c1"
    using put_held [OF g1(1,2), of q destroy w] by auto
  moreover have "(held(q := held q + 1))(q := (held(q := held q + 1)) q - 1) = held" by (simp add: fun_eq_iff)
  ultimately show ?thesis
    using False g g1(3) by (auto simp: msm_submitqueue_query_def split: prod.splits if_splits)
qed

lemma remove_refs:
  assumes "refs_ok (list_refs (submitqueues c) held) n c" "queues_ok gpu c"
  shows "\<exists>ret c' w'. msm_submitqueue_remove destroy (Some c) i w = Some (ret, Some c', w') \<and>
    refs_ok (list_refs (submitqueues c') held) n c' \<and> queues_ok gpu c'"
proof (cases "i = 0 \<or> sq_find c i = None")
  case True
  with assms show ?thesis by (auto simp: msm_submitqueue_remove_def)
next
  case False
  then obtain q where q: "sq_find c i = Some q" by auto
  with sq_find_SomeD have "q \<in> set (submitqueues c)" by blast
  from put_listed [OF assms this, of destroy w] q False show ?thesis
    by (auto simp: msm_submitqueue_remove_def)
qed

lemma close_refs:
  assumes "refs_ok (list_refs (submitqueues c) held) (Suc n) c" "queues_ok gpu c"
  shows "\<exists>c' w'. context_close destroy c w = Some (c', w') \<and> refs_ok (list_refs [] held) n c' \<and>
    queues_ok gpu c' \<and> submitqueues c' = []"
proof -
  from close_queues_refs [OF assms refl, of destroy w] obtain c1 w1 where
    c1: "close_queues destroy (submitqueues c) c w = Some (c1, w1)" "refs_ok (list_refs [] held) (Suc n) c1"
      "queues_ok gpu c1" "submitqueues c1 = []" by blast
  from file_put_refs [OF c1(2), of destroy w1] obtain c' w' where
    c': "msm_file_private_put destroy c1 w1 = (c', w')" "refs_ok (list_refs [] held) n c'"
      "submitqueues c' = []" "same_queues c1 c'" using c1(4) by auto
  moreover have "queues_ok gpu c'" by (rule queues_ok_same [OF c1(3) c'(4)]) (simp add: c'(3))
  ultimately show ?thesis using c1(1) by (simp add: context_close_def msm_submitqueue_close_def)
qed

lemma q_step_inv:
  assumes "q_inv gpu s" "q_allowed x s" "nr_rings gpu \<le> MSM_GPU_MAX_RINGS"
  shows "\<exists>s'. q_perform destroy gpu x s = Some s' \<and> q_inv gpu s'"
proof -
  from assms(1) have ok: "refs_ok (list_refs (submitqueues (qs_ctx s)) (qs_held s)) (of_bool (qs_open s)) (qs_ctx s)"
      "queues_ok gpu (qs_ctx s)" and closed: "\<not> qs_open s \<Longrightarrow> submitqueues (qs_ctx s) = []"
    by (auto simp: q_inv_def)
  show ?thesis
  proof (cases x)
    case (Q_Create qa ea fc prio flags)
    obtain ret i c' w' where cr: "msm_submitqueue_create qa ea fc (Some gpu) prio flags (Some (qs_ctx s)) (qs_world s) =
        (ret, i, c', w')" by (metis prod_cases4)
    from create_refs [OF ok assms(3) _ _ _ cr] assms(2) Q_Create cr show ?thesis by (auto simp: q_inv_def)
  next
    case (Q_Get i)
    show ?thesis
    proof (cases "sq_find (qs_ctx s) i")
      case None
      with Q_Get assms(1) show ?thesis by (simp add: msm_submitqueue_get_def)
    next
      case (Some q)
      then obtain c' where g: "msm_submitqueue_get (Some (qs_ctx s)) i = (Some q, Some c')"
        by (auto simp: msm_submitqueue_get_def)
      from get_refs [OF ok g] Q_Get g assms(2) show ?thesis by (simp add: q_inv_def)
    qed
  next
    case (Q_Put q)
    with assms(2) have "0 < qs_held s q" by simp
    from put_held [OF ok this, of destroy "qs_world s"] Q_Put closed show ?thesis by (auto simp: q_inv_def)
  next
    case (Q_Query copied i param len pad)
    from query_refs [OF ok, of destroy copied i param len pad "qs_world s"] Q_Query closed show ?thesis
      by (auto simp: q_inv_def)
  next
    case (Q_Remove i)
    from remove_refs [OF ok, of destroy i "qs_world s"] Q_Remove assms(2) show ?thesis by (auto simp: q_inv_def)
  next
    case Q_Close
    with assms(2) have o1: "qs_open s" by simp
    then have "refs_ok (list_refs (submitqueues (qs_ctx s)) (qs_held s)) (Suc 0) (qs_ctx s)" using ok(1) by simp
    from close_refs [OF this ok(2), of destroy "qs_world s"] Q_Close show ?thesis by (auto simp: q_inv_def)
  qed
qed

lemma q_reachable_inv:
  assumes "q_reachable destroy gpu s" "nr_rings gpu \<le> MSM_GPU_MAX_RINGS"
  shows "q_inv gpu s"
  using assms
proof (induction rule: q_reachable.induct)
  case (q_open qa ea fc w c w')
  then show ?case by (intro q_inv_init)
next
  case (q_step s x s')
  then show ?case using q_step_inv [of gpu s x destroy] by auto
qed

text \<open>
  C30: The life of the submit queues of a file, under any sequence of creations, removals,
  lookups, queries, drops of references and the closing of the file.  A queue's memory is there
  exactly as long as it is listed or somebody holds a reference, and its counter is
  the number of those; the file is freed exactly when it is closed and its last queue is gone; no two
  queues have the same identifier; the entity of a queue is the one in the table at its ring and
  one of the three priorities; and every operation that can happen succeeds, that is, touches
  no freed queue or file.
\<close>

theorem msm_submitqueue_lifetime:
  assumes "q_reachable destroy gpu s" "nr_rings gpu \<le> MSM_GPU_MAX_RINGS"
  shows "(sq_mem (qs_ctx s) q \<noteq> None) = (q \<in> set (submitqueues (qs_ctx s)) \<or> 0 < qs_held s q) \<and>
    fp_freed (qs_ctx s) = (\<not> qs_open s \<and> (\<forall>q. sq_mem (qs_ctx s) q = None)) \<and>
    (sq_mem (qs_ctx s) q = Some x \<longrightarrow>
       sq_ref x = of_bool (q \<in> set (submitqueues (qs_ctx s))) + qs_held s q \<and>
       (\<exists>p < 3. entities (qs_ctx s) ! (3 * sq_ring_nr x + p) = Some (sq_entity x)) \<and>
       (\<forall>q' x'. sq_mem (qs_ctx s) q' = Some x' \<longrightarrow> sq_id x = sq_id x' \<longrightarrow> q = q')) \<and>
    (q_allowed op s \<longrightarrow> q_perform destroy gpu op s \<noteq> None)"
proof -
  let ?c = "qs_ctx s"
  have inv: "q_inv gpu s" by (rule q_reachable_inv [OF assms])
  then have ok: "refs_ok (list_refs (submitqueues ?c) (qs_held s)) (of_bool (qs_open s)) ?c" "queues_ok gpu ?c"
    by (simp_all add: q_inv_def)
  note refs = refs_okD [OF ok(1)]
  have "(sq_mem ?c q \<noteq> None) = (q \<in> set (submitqueues ?c) \<or> 0 < qs_held s q)"
    using refs(3) [of q] by (auto simp: list_refs_def)
  moreover have "fp_freed ?c = (\<not> qs_open s \<and> (\<forall>q. sq_mem ?c q = None))"
    using refs(1) unfolding refs(5) refs(4) by (auto simp: card_eq_0_iff dom_def)
  moreover have "sq_ref x = of_bool (q \<in> set (submitqueues ?c)) + qs_held s q" if "sq_mem ?c q = Some x"
    using refs(2) [OF that] by (simp add: list_refs_def)
  moreover have "\<exists>p < 3. entities ?c ! (3 * sq_ring_nr x + p) = Some (sq_entity x)"
      "\<forall>q' x'. sq_mem ?c q' = Some x' \<longrightarrow> sq_id x = sq_id x' \<longrightarrow> q = q'" if "sq_mem ?c q = Some x"
    using ok(2) that unfolding queues_ok_def by blast+
  moreover have "q_perform destroy gpu op s \<noteq> None" if "q_allowed op s"
    using q_step_inv [OF inv that assms(2)] by blast
  ultimately show ?thesis by blast
qed

text \<open>
  The witness, from any world and with any destructor: a file on a GPU with one ring is opened, a
  submission takes its default queue, and the file is closed.  The file lives on; dropping
  the submission's reference succeeds.
\<close>

theorem msm_submitqueue_lifetime_witness:
  "\<forall>(destroy :: nat \<Rightarrow> unit world \<Rightarrow> unit world) (w :: unit world). \<exists>gpu s. q_reachable destroy gpu s \<and> scheds (qs_world s) = scheds w \<and>
     \<not> qs_open s \<and> submitqueues (qs_ctx s) = [] \<and>
     sq_mem (qs_ctx s) 100 \<noteq> None \<and> \<not> fp_freed (qs_ctx s) \<and> q_perform destroy gpu (Q_Put 100) s \<noteq> None"
proof (intro allI)
  fix destroy :: "nat \<Rightarrow> unit world \<Rightarrow> unit world" and w :: "unit world"
  define gpu where "gpu = \<lparr>nr_rings = 1, rb_sched = id, sysprof_active = 1, pm_runtime = 0\<rparr>"
  have gpu: "nr_rings gpu \<le> MSM_GPU_MAX_RINGS" by (simp add: gpu_def MSM_GPU_MAX_RINGS_def)
  have prio: "msm_gpu_convert_priority gpu 1 = Inr (0, 1)" using msm_gpu_convert(1) [OF gpu] by (simp add: gpu_def)
  have "\<exists>c w'. context_init True (Some 100) (Some 200) 5 (Some gpu) w = (0, Some c, w') \<and>
      scheds w' = scheds w \<and> submitqueues c = [100] \<and> fp_ref c = 2 \<and> \<not> fp_freed c \<and>
      (\<exists>x. sq_mem c 100 = Some x \<and> sq_id x = 0 \<and> sq_ref x = 1)"
    using prio
    by (simp add: context_init_def msm_submitqueue_init_def msm_submitqueue_create_def get_sched_entity_def
        drm_sched_entity_init_def NR_SCHED_PRIORITIES_def MSM_GPU_MAX_RINGS_def gpu_def DIV_ROUND_UP_def upd_ent_def Let_def)
  then obtain c w1 x where c: "context_init True (Some 100) (Some 200) 5 (Some gpu) w = (0, Some c, w1)"
    "scheds w1 = scheds w" "submitqueues c = [100]" "fp_ref c = 2" "\<not> fp_freed c" "sq_mem c 100 = Some x" "sq_id x = 0" "sq_ref x = 1"
    by blast
  let ?s0 = "\<lparr>qs_ctx = c, qs_world = w1, qs_held = (\<lambda>_. 0), qs_open = True\<rparr>"
  have r0: "q_reachable destroy gpu ?s0" by (rule q_open [OF c(1)])
  let ?c1 = "c\<lparr>sq_mem := (sq_mem c)(100 \<mapsto> x\<lparr>sq_ref := 2\<rparr>)\<rparr>"
  have r1: "q_reachable destroy gpu \<lparr>qs_ctx = ?c1, qs_world = w1, qs_held = (\<lambda>_. 0)(100 := 1), qs_open = True\<rparr>"
    by (rule q_step [OF r0, of "Q_Get 0"]) (use c in \<open>simp_all add: msm_submitqueue_get_def sq_find_def numeral_2_eq_2\<close>)
  let ?c2 = "c\<lparr>submitqueues := [], sq_mem := (sq_mem c)(100 \<mapsto> x\<lparr>sq_ref := 1\<rparr>), fp_ref := 1\<rparr>"
  let ?s = "\<lparr>qs_ctx = ?c2, qs_world = w1, qs_held = (\<lambda>_. 0)(100 := 1), qs_open = False\<rparr>"
  have r2: "q_reachable destroy gpu ?s"
    by (rule q_step [OF r1, of Q_Close])
      (use c in \<open>simp_all add: context_close_def msm_submitqueue_close_def msm_submitqueue_put_def
        msm_file_private_put_def Let_def\<close>)
  have "sq_mem (qs_ctx ?s) 100 \<noteq> None \<and> \<not> fp_freed (qs_ctx ?s) \<and> q_perform destroy gpu (Q_Put 100) ?s \<noteq> None"
    using msm_submitqueue_lifetime [OF r2 gpu, of 100 x "Q_Put 100"] by simp blast
  with r2 c(2) show "\<exists>gpu s. q_reachable destroy gpu s \<and> scheds (qs_world s) = scheds w \<and>
     \<not> qs_open s \<and> submitqueues (qs_ctx s) = [] \<and>
     sq_mem (qs_ctx s) 100 \<noteq> None \<and> \<not> fp_freed (qs_ctx s) \<and> q_perform destroy gpu (Q_Put 100) s \<noteq> None"
    by (intro exI [of _ gpu] exI [of _ ?s] conjI) (simp_all del: q_perform.simps)
qed

end
