(* ===== verification/GEM.thy ===== *)
theory GEM
  imports VMA
begin

text \<open>
  Buffer objects (\<^verbatim>\<open>msm/msm_gem.c\<close>, the inline functions of \<^verbatim>\<open>msm_gem.h\<close>, pinning in
  \<^verbatim>\<open>msm_gem_prime.c\<close>, the shrinker \<^verbatim>\<open>msm_gem_shrinker.c\<close>) and how a submission holds them
  (\<^verbatim>\<open>msm_gem_submit.c\<close>, \<^verbatim>\<open>msm_job_run\<close>).

  Objects and address spaces are identified by their addresses.  The pages themselves, the
  carve-out allocator, \<^verbatim>\<open>vmap\<close> and the IOMMU are not part of the repository: their outcomes are
  arguments, and the state keeps whether an object has pages, a scatter table and a kernel mapping.
  \<open>None\<close> is a null or wild pointer that is followed, an access outside an array, or the
  insertion of a list node that is already in a list.  The locks of objects are not part of
  the state: every function runs while its object is locked.
\<close>

section \<open>Data (msm_gem.h, msm_drv.h)\<close>

text \<open>
  The lists an object can be in: the lists of the device and of the GPU, and the temporary list of
  the \<open>n\<close>-th run of the shrinker over one of them.  \<open>mm_node\<close> is the state of the member
  \<^verbatim>\<open>mm_list\<close>: zeroed, pointing to itself, or in a list.
\<close>

datatype lru = Willneed | Dontneed | Unpinned | Active

datatype mm_list = Main lru | Still lru nat

datatype mm_node = Null | Self | On mm_list

text \<open>
  An object of \<open>obj_size\<close> bytes.  \<open>vmas\<close> is the list of its mappings with their address spaces, null for the
  mapping of an object in the carve-out.
\<close>

record msm_gem_object =
  obj_size :: nat
  import_attach :: bool
  go_flags :: u32
  madv :: u8
  dontneed :: bool
  evictable :: bool
  vmap_count :: u8
  mm_node :: mm_node
  pages :: bool
  sgt :: bool
  vaddr :: bool
  vmas :: "(nat option \<times> msm_gem_vma) list"
  vram_node :: bool
  active_count :: int
  pin_count :: int

definition npages :: "msm_gem_object \<Rightarrow> nat" where
  "npages x = obj_size x div 4096"

text \<open>
  The device: the memory of objects, of which those in \<open>objects\<close> exist, the lists, the counters, address
  spaces and fence contexts, the objects with a range in the carve-out, and the configuration.
\<close>

record msm_drm_private =
  gem_objs :: "nat \<Rightarrow> msm_gem_object"
  objects :: "nat list"
  mm :: "mm_list \<Rightarrow> nat list"
  shrinkable_count :: int
  evictable_count :: int
  spaces :: "nat \<Rightarrow> msm_gem_address_space"
  fence_ctxs :: "nat \<Rightarrow> msm_fence_context"
  vram_mm :: "nat list"
  vram_size :: nat
  use_mmu :: bool
  has_cached_coherent :: bool

definition MSM_MADV_WILLNEED :: u8 where "MSM_MADV_WILLNEED = 0"
definition MSM_MADV_DONTNEED :: u8 where "MSM_MADV_DONTNEED = 1"
definition MSM_MADV_PURGED :: u8 where "MSM_MADV_PURGED = 2"

lemmas madv_defs = MSM_MADV_WILLNEED_def MSM_MADV_DONTNEED_def MSM_MADV_PURGED_def

definition upd_obj :: "nat \<Rightarrow> (msm_gem_object \<Rightarrow> msm_gem_object) \<Rightarrow> msm_drm_private \<Rightarrow> msm_drm_private" where
  "upd_obj b f g = g\<lparr>gem_objs := (gem_objs g)(b := f (gem_objs g b))\<rparr>"

text \<open>\<^verbatim>\<open>list_del\<close> and \<^verbatim>\<open>list_add_tail\<close> on the member \<^verbatim>\<open>mm_list\<close>.\<close>

definition mm_del :: "nat \<Rightarrow> msm_drm_private \<Rightarrow> msm_drm_private option" where
  "mm_del b g =
     (case mm_node (gem_objs g b) of
        Null \<Rightarrow> None
      | Self \<Rightarrow> Some g
      | On l \<Rightarrow> Some (upd_obj b (\<lambda>x. x\<lparr>mm_node := Self\<rparr>) (g\<lparr>mm := (mm g)(l := remove1 b (mm g l))\<rparr>)))"

definition mm_add :: "nat \<Rightarrow> mm_list \<Rightarrow> msm_drm_private \<Rightarrow> msm_drm_private option" where
  "mm_add b l g =
     (case mm_node (gem_objs g b) of
        On _ \<Rightarrow> None
      | _ \<Rightarrow> Some (upd_obj b (\<lambda>x. x\<lparr>mm_node := On l\<rparr>) (g\<lparr>mm := (mm g)(l := mm g l @ [b])\<rparr>)))"

section \<open>Purgeable and evictable objects (msm_gem.h)\<close>

definition is_active :: "msm_gem_object \<Rightarrow> bool" where
  "is_active x = (active_count x \<noteq> 0)"

definition is_unpurgeable :: "msm_gem_object \<Rightarrow> bool" where
  "is_unpurgeable x = (import_attach x \<or> pin_count x \<noteq> 0)"

definition is_purgeable :: "msm_gem_object \<Rightarrow> bool" where
  "is_purgeable x = (madv x = MSM_MADV_DONTNEED \<and> sgt x \<and> \<not> is_unpurgeable x)"

definition is_vunmapable :: "msm_gem_object \<Rightarrow> bool" where
  "is_vunmapable x = (vmap_count x = 0 \<and> vaddr x)"

definition is_unevictable :: "msm_gem_object \<Rightarrow> bool" where
  "is_unevictable x = (is_unpurgeable x \<or> vaddr x)"

definition mark_purgeable :: "nat \<Rightarrow> msm_drm_private \<Rightarrow> msm_drm_private" where
  "mark_purgeable b g =
     (let x = gem_objs g b
      in if is_unpurgeable x then g
         else if dontneed x then g
         else upd_obj b (\<lambda>x. x\<lparr>dontneed := True\<rparr>) (g\<lparr>shrinkable_count := shrinkable_count g + int (npages x)\<rparr>))"

definition mark_unpurgeable :: "nat \<Rightarrow> msm_drm_private \<Rightarrow> msm_drm_private" where
  "mark_unpurgeable b g =
     (let x = gem_objs g b
      in if is_unpurgeable x then g
         else if \<not> dontneed x then g
         else upd_obj b (\<lambda>x. x\<lparr>dontneed := False\<rparr>) (g\<lparr>shrinkable_count := shrinkable_count g - int (npages x)\<rparr>))"

definition mark_evictable :: "nat \<Rightarrow> msm_drm_private \<Rightarrow> msm_drm_private" where
  "mark_evictable b g =
     (let x = gem_objs g b
      in if is_unevictable x then g
         else if evictable x then g
         else upd_obj b (\<lambda>x. x\<lparr>evictable := True\<rparr>) (g\<lparr>evictable_count := evictable_count g + int (npages x)\<rparr>))"

definition mark_unevictable :: "nat \<Rightarrow> msm_drm_private \<Rightarrow> msm_drm_private" where
  "mark_unevictable b g =
     (let x = gem_objs g b
      in if is_unevictable x then g
         else if \<not> evictable x then g
         else upd_obj b (\<lambda>x. x\<lparr>evictable := False\<rparr>) (g\<lparr>evictable_count := evictable_count g - int (npages x)\<rparr>))"

section \<open>Lists (msm_gem.c)\<close>

definition update_inactive :: "nat \<Rightarrow> msm_drm_private \<Rightarrow> msm_drm_private option" where
  "update_inactive b g =
     (if active_count (gem_objs g b) \<noteq> 0 then Some g
      else let g = (if dontneed (gem_objs g b) then mark_unpurgeable b g else g);
               g = (if evictable (gem_objs g b) then mark_unevictable b g else g)
           in Option.bind (mm_del b g) (\<lambda>g.
                let x = gem_objs g b
                in if madv x = MSM_MADV_WILLNEED \<and> sgt x
                   then map_option (mark_evictable b) (mm_add b (Main Willneed) g)
                   else if madv x = MSM_MADV_DONTNEED
                   then map_option (mark_purgeable b) (mm_add b (Main Dontneed) g)
                   else mm_add b (Main Unpinned) g))"

definition msm_gem_active_get :: "nat \<Rightarrow> msm_drm_private \<Rightarrow> msm_drm_private option" where
  "msm_gem_active_get b g =
     (let n = active_count (gem_objs g b);
          g = upd_obj b (\<lambda>x. x\<lparr>active_count := n + 1\<rparr>) g
      in if n = 0
         then let g = (if evictable (gem_objs g b) then mark_unevictable b g else g)
              in Option.bind (mm_del b g) (mm_add b (Main Active))
         else Some g)"

definition msm_gem_active_put :: "nat \<Rightarrow> msm_drm_private \<Rightarrow> msm_drm_private option" where
  "msm_gem_active_put b g =
     (let n = active_count (gem_objs g b) - 1;
          g = upd_obj b (\<lambda>x. x\<lparr>active_count := n\<rparr>) g
      in if n = 0 then update_inactive b g else Some g)"

section \<open>Pages (msm_gem.c, msm_gem_prime.c)\<close>

text \<open>
  The outcomes of the allocators: memory for the array of pages, \<^verbatim>\<open>drm_mm_insert_node\<close> in the carve-out,
  \<^verbatim>\<open>drm_gem_get_pages\<close> and \<^verbatim>\<open>drm_prime_pages_to_sg\<close>.
\<close>

record page_env =
  pe_mem :: bool
  pe_vram :: int
  pe_shmem :: int
  pe_sg :: int

definition get_pages_vram :: "page_env \<Rightarrow> nat \<Rightarrow> msm_drm_private \<Rightarrow> int \<times> msm_drm_private" where
  "get_pages_vram pe b g =
     (if \<not> pe_mem pe then (- ENOMEM, g)
      else if pe_vram pe \<noteq> 0 then (pe_vram pe, g)
      else (0, g\<lparr>vram_mm := b # vram_mm g\<rparr>))"

definition get_pages :: "page_env \<Rightarrow> nat \<Rightarrow> msm_drm_private \<Rightarrow> (int \<times> msm_drm_private) option" where
  "get_pages pe b g =
     (if pages (gem_objs g b) then Some (0, g)
      else case (if vram_node (gem_objs g b) then get_pages_vram pe b g else (pe_shmem pe, g)) of (ret, g) \<Rightarrow>
        if ret \<noteq> 0 then Some (ret, g)
        else let g = upd_obj b (\<lambda>x. x\<lparr>pages := True\<rparr>) g
             in if pe_sg pe \<noteq> 0 then Some (pe_sg pe, upd_obj b (\<lambda>x. x\<lparr>sgt := False\<rparr>) g)
                else map_option (Pair 0) (update_inactive b (upd_obj b (\<lambda>x. x\<lparr>sgt := True\<rparr>) g)))"

definition put_pages_vram :: "nat \<Rightarrow> msm_drm_private \<Rightarrow> msm_drm_private" where
  "put_pages_vram b g = g\<lparr>vram_mm := remove1 b (vram_mm g)\<rparr>"

definition put_pages :: "nat \<Rightarrow> msm_drm_private \<Rightarrow> msm_drm_private" where
  "put_pages b g =
     (if pages (gem_objs g b)
      then let g = (if sgt (gem_objs g b) then upd_obj b (\<lambda>x. x\<lparr>sgt := False\<rparr>) g else g);
               g = (if vram_node (gem_objs g b) then put_pages_vram b g else g)
           in upd_obj b (\<lambda>x. x\<lparr>pages := False\<rparr>) g
      else g)"

definition msm_gem_get_pages :: "page_env \<Rightarrow> nat \<Rightarrow> msm_drm_private \<Rightarrow> (int \<times> msm_drm_private) option" where
  "msm_gem_get_pages pe b g =
     (if madv (gem_objs g b) \<noteq> MSM_MADV_WILLNEED then Some (- EBUSY, g)
      else Option.bind (get_pages pe b g) (\<lambda>(ret, g).
        if ret \<noteq> 0 then Some (ret, g)
        else map_option (Pair 0) (update_inactive b (upd_obj b (\<lambda>x. x\<lparr>pin_count := pin_count x + 1\<rparr>) g))))"

definition msm_gem_put_pages :: "nat \<Rightarrow> msm_drm_private \<Rightarrow> msm_drm_private option" where
  "msm_gem_put_pages b g = update_inactive b (upd_obj b (\<lambda>x. x\<lparr>pin_count := pin_count x - 1\<rparr>) g)"

definition msm_gem_prime_pin :: "page_env \<Rightarrow> nat \<Rightarrow> msm_drm_private \<Rightarrow> (int \<times> msm_drm_private) option" where
  "msm_gem_prime_pin pe b g =
     (if import_attach (gem_objs g b) then Some (0, g)
      else map_option (\<lambda>(_, g). (0, g)) (msm_gem_get_pages pe b g))"

definition msm_gem_prime_unpin :: "nat \<Rightarrow> msm_drm_private \<Rightarrow> msm_drm_private option" where
  "msm_gem_prime_unpin b g = (if import_attach (gem_objs g b) then Some g else msm_gem_put_pages b g)"

text \<open>
  A page fault at \<open>pgoff\<close>: \<open>err\<close> is the result of taking the lock; the outcome of \<^verbatim>\<open>vmf_insert_mixed\<close> is left
  to the kernel.
\<close>

datatype vm_fault = VM_FAULT_NOPAGE | VM_FAULT_SIGBUS | Vmf_error int | Vmf_insert nat

definition msm_gem_fault ::
  "int \<Rightarrow> page_env \<Rightarrow> nat \<Rightarrow> nat \<Rightarrow> msm_drm_private \<Rightarrow> (vm_fault \<times> msm_drm_private) option" where
  "msm_gem_fault err pe pgoff b g =
     (if err \<noteq> 0 then Some (VM_FAULT_NOPAGE, g)
      else if madv (gem_objs g b) \<noteq> MSM_MADV_WILLNEED then Some (VM_FAULT_SIGBUS, g)
      else Option.bind (get_pages pe b g) (\<lambda>(ret, g).
        if ret \<noteq> 0 then Some (Vmf_error ret, g)
        else if pgoff < npages (gem_objs g b) then Some (Vmf_insert pgoff, g) else None))"

section \<open>Mappings of an object (msm_gem.c)\<close>

text \<open>The first mapping for an address space: read, replaced, removed.\<close>

definition lookup_vma :: "msm_gem_object \<Rightarrow> nat option \<Rightarrow> msm_gem_vma option" where
  "lookup_vma x a = map_of (vmas x) a"

fun set_vma :: "nat option \<Rightarrow> msm_gem_vma \<Rightarrow> (nat option \<times> msm_gem_vma) list \<Rightarrow> (nat option \<times> msm_gem_vma) list" where
  "set_vma a v [] = []"
| "set_vma a v ((b, u) # xs) = (if b = a then (b, v) # xs else (b, u) # set_vma a v xs)"

fun del_vma :: "nat option \<Rightarrow> (nat option \<times> msm_gem_vma) list \<Rightarrow> (nat option \<times> msm_gem_vma) list" where
  "del_vma a [] = []"
| "del_vma a ((b, u) # xs) = (if b = a then xs else (b, u) # del_vma a xs)"

definition upd_vmas ::
  "nat \<Rightarrow> ((nat option \<times> msm_gem_vma) list \<Rightarrow> (nat option \<times> msm_gem_vma) list) \<Rightarrow> msm_drm_private \<Rightarrow> msm_drm_private" where
  "upd_vmas b f g = upd_obj b (\<lambda>x. x\<lparr>vmas := f (vmas x)\<rparr>) g"

definition add_vma :: "bool \<Rightarrow> nat option \<Rightarrow> nat \<Rightarrow> msm_drm_private \<Rightarrow> int \<times> msm_drm_private" where
  "add_vma mem a b g =
     (if \<not> mem then (- ENOMEM, g) else (0, upd_vmas b (\<lambda>xs. xs @ [(a, zero_vma)]) g))"

text \<open>The walk of \<^verbatim>\<open>put_iova_spaces\<close> over the mappings.\<close>

fun put_spaces ::
  "bool \<Rightarrow> (nat \<Rightarrow> msm_fence_context) \<Rightarrow> (nat option \<times> msm_gem_vma) list \<Rightarrow> (nat \<Rightarrow> msm_gem_address_space) \<Rightarrow>
   ((nat \<Rightarrow> msm_gem_address_space) \<times> (nat option \<times> msm_gem_vma) list) option" where
  "put_spaces cl ctxs [] sp = Some (sp, [])"
| "put_spaces cl ctxs ((None, v) # xs) sp = map_option (\<lambda>(sp, ys). (sp, (None, v) # ys)) (put_spaces cl ctxs xs sp)"
| "put_spaces cl ctxs ((Some a, v) # xs) sp =
     Option.bind (msm_gem_purge_vma ctxs (sp a) v) (\<lambda>(as, v).
       Option.bind (if cl then msm_gem_close_vma ctxs as v else Some (as, v)) (\<lambda>(as, v).
         map_option (\<lambda>(sp, ys). (sp, (Some a, v) # ys)) (put_spaces cl ctxs xs (sp(a := as)))))"

definition put_iova_spaces :: "bool \<Rightarrow> nat \<Rightarrow> msm_drm_private \<Rightarrow> msm_drm_private option" where
  "put_iova_spaces cl b g =
     map_option (\<lambda>(sp, ys). upd_vmas b (\<lambda>_. ys) (g\<lparr>spaces := sp\<rparr>))
       (put_spaces cl (fence_ctxs g) (vmas (gem_objs g b)) (spaces g))"

definition put_iova_vmas :: "nat \<Rightarrow> msm_drm_private \<Rightarrow> msm_drm_private" where
  "put_iova_vmas b g = upd_vmas b (\<lambda>_. []) g"

text \<open>
  The mapping for \<open>a\<close>, created when there is none: \<open>mem\<close> and \<open>node\<close> are the outcomes of the allocations.  The
  result 0 means that it is there.
\<close>

definition get_vma_locked ::
  "bool \<Rightarrow> (int + u64) \<Rightarrow> nat option \<Rightarrow> nat \<Rightarrow> msm_drm_private \<Rightarrow> (int \<times> msm_drm_private) option" where
  "get_vma_locked mem node a b g =
     (case lookup_vma (gem_objs g b) a of
        Some _ \<Rightarrow> Some (0, g)
      | None \<Rightarrow>
          (case add_vma mem a b g of (ret, g) \<Rightarrow>
             if ret \<noteq> 0 then Some (ret, g)
             else case a of
               None \<Rightarrow> None
             | Some s \<Rightarrow>
                 (case msm_gem_init_vma node (spaces g s) zero_vma (word_of_nat (obj_size (gem_objs g b))) of (ret, as, v) \<Rightarrow>
                    if ret \<noteq> 0 then Some (ret, upd_vmas b (del_vma a) g)
                    else Some (0, upd_vmas b (set_vma a v) (g\<lparr>spaces := (spaces g)(s := as)\<rparr>)))))"

text \<open>
  \<open>map_ret\<close> is what the IOMMU returns; mapping without a scatter table follows a null pointer.
\<close>

definition msm_gem_pin_vma_locked ::
  "page_env \<Rightarrow> int \<Rightarrow> nat option \<Rightarrow> nat \<Rightarrow> msm_drm_private \<Rightarrow> (int \<times> msm_drm_private) option" where
  "msm_gem_pin_vma_locked pe map_ret a b g =
     (if madv (gem_objs g b) \<noteq> MSM_MADV_WILLNEED then Some (- EBUSY, g)
      else Option.bind (get_pages pe b g) (\<lambda>(ret, g).
        if ret \<noteq> 0 then Some (ret, g)
        else case lookup_vma (gem_objs g b) a of
          None \<Rightarrow> None
        | Some v \<Rightarrow>
            if iova v \<noteq> 0 \<and> \<not> mapped v \<and> Option.bind (map_option (spaces g) a) as_mmu \<noteq> None \<and> \<not> sgt (gem_objs g b)
            then None
            else (case msm_gem_map_vma map_ret (map_option (spaces g) a) v (word_of_nat (obj_size (gem_objs g b))) of
              (ret, as, v) \<Rightarrow>
                let g = upd_vmas b (set_vma a v) g;
                    g = (case a of None \<Rightarrow> g | Some s \<Rightarrow> g\<lparr>spaces := (spaces g)(s := the as)\<rparr>)
                in Some (ret, if ret = 0 then upd_obj b (\<lambda>x. x\<lparr>pin_count := pin_count x + 1\<rparr>) g else g))))"

definition msm_gem_unpin_locked :: "nat \<Rightarrow> msm_drm_private \<Rightarrow> msm_drm_private option" where
  "msm_gem_unpin_locked b g = update_inactive b (upd_obj b (\<lambda>x. x\<lparr>pin_count := pin_count x - 1\<rparr>) g)"

definition get_and_pin_iova_range_locked ::
  "bool \<Rightarrow> (int + u64) \<Rightarrow> page_env \<Rightarrow> int \<Rightarrow> nat option \<Rightarrow> nat \<Rightarrow> msm_drm_private \<Rightarrow>
   (int \<times> u64 option \<times> msm_drm_private) option" where
  "get_and_pin_iova_range_locked mem node pe map_ret a b g =
     Option.bind (get_vma_locked mem node a b g) (\<lambda>(ret, g).
       if ret \<noteq> 0 then Some (ret, None, g)
       else map_option
         (\<lambda>(ret, g). (ret, if ret = 0 then map_option iova (lookup_vma (gem_objs g b) a) else None, g))
         (msm_gem_pin_vma_locked pe map_ret a b g))"

definition msm_gem_get_iova ::
  "bool \<Rightarrow> (int + u64) \<Rightarrow> nat option \<Rightarrow> nat \<Rightarrow> msm_drm_private \<Rightarrow> (int \<times> u64 option \<times> msm_drm_private) option" where
  "msm_gem_get_iova mem node a b g =
     map_option (\<lambda>(ret, g). (ret, if ret = 0 then map_option iova (lookup_vma (gem_objs g b) a) else None, g))
       (get_vma_locked mem node a b g)"

definition clear_iova_locked :: "nat option \<Rightarrow> nat \<Rightarrow> msm_drm_private \<Rightarrow> (int \<times> msm_drm_private) option" where
  "clear_iova_locked a b g =
     (case lookup_vma (gem_objs g b) a of
        None \<Rightarrow> Some (0, g)
      | Some v \<Rightarrow>
          (case a of
             None \<Rightarrow> None
           | Some s \<Rightarrow>
               (case clear_iova (fence_ctxs g) (spaces g s) v of
                  None \<Rightarrow> None
                | Some (ret, as, v) \<Rightarrow>
                    Some (ret, upd_vmas b (if ret = 0 then del_vma a else set_vma a v)
                      (g\<lparr>spaces := (spaces g)(s := as)\<rparr>)))))"

definition msm_gem_set_iova ::
  "bool \<Rightarrow> (int + u64) \<Rightarrow> nat option \<Rightarrow> u64 \<Rightarrow> nat \<Rightarrow> msm_drm_private \<Rightarrow> (int \<times> msm_drm_private) option" where
  "msm_gem_set_iova mem node a v b g =
     (if v = 0 then clear_iova_locked a b g
      else Option.bind (get_vma_locked mem node a b g) (\<lambda>(ret, g).
        if ret \<noteq> 0 then Some (ret, g)
        else if map_option iova (lookup_vma (gem_objs g b) a) \<noteq> Some v
        then map_option (\<lambda>(_, g). (- EBUSY, g)) (clear_iova_locked a b g)
        else Some (0, g)))"

definition msm_gem_unpin_iova :: "nat option \<Rightarrow> nat \<Rightarrow> msm_drm_private \<Rightarrow> msm_drm_private option" where
  "msm_gem_unpin_iova a b g =
     (case lookup_vma (gem_objs g b) a of
        None \<Rightarrow> Some g
      | Some v \<Rightarrow> msm_gem_unpin_locked b (upd_vmas b (set_vma a (msm_gem_unpin_vma v)) g))"

section \<open>Kernel mappings, advice, purging and eviction (msm_gem.c)\<close>

text \<open>\<open>vmap\<close> tells whether \<^verbatim>\<open>vmap\<close> returned a mapping.\<close>

definition get_vaddr :: "page_env \<Rightarrow> bool \<Rightarrow> u32 \<Rightarrow> nat \<Rightarrow> msm_drm_private \<Rightarrow> (int \<times> msm_drm_private) option" where
  "get_vaddr pe vmap m b g =
     (if import_attach (gem_objs g b) then Some (- ENODEV, g)
      else if unat (madv (gem_objs g b)) > unat m then Some (- EBUSY, g)
      else let g = upd_obj b (\<lambda>x. x\<lparr>vmap_count := vmap_count x + 1\<rparr>) g;
               fail = upd_obj b (\<lambda>x. x\<lparr>vmap_count := vmap_count x - 1\<rparr>)
           in if vaddr (gem_objs g b) then Some (0, g)
              else Option.bind (get_pages pe b g) (\<lambda>(ret, g).
                if ret \<noteq> 0 then Some (ret, fail g)
                else if \<not> vmap then Some (- ENOMEM, fail g)
                else map_option (Pair 0) (update_inactive b (upd_obj b (\<lambda>x. x\<lparr>vaddr := True\<rparr>) g))))"

definition msm_gem_get_vaddr :: "page_env \<Rightarrow> bool \<Rightarrow> nat \<Rightarrow> msm_drm_private \<Rightarrow> (int \<times> msm_drm_private) option" where
  "msm_gem_get_vaddr pe vmap b g = get_vaddr pe vmap 0 b g"

definition msm_gem_get_vaddr_active :: "page_env \<Rightarrow> bool \<Rightarrow> nat \<Rightarrow> msm_drm_private \<Rightarrow> (int \<times> msm_drm_private) option" where
  "msm_gem_get_vaddr_active pe vmap b g = get_vaddr pe vmap 2 b g"

definition msm_gem_put_vaddr :: "nat \<Rightarrow> msm_drm_private \<Rightarrow> msm_drm_private" where
  "msm_gem_put_vaddr b g = upd_obj b (\<lambda>x. x\<lparr>vmap_count := vmap_count x - 1\<rparr>) g"

definition msm_gem_madvise :: "u32 \<Rightarrow> nat \<Rightarrow> msm_drm_private \<Rightarrow> (bool \<times> msm_drm_private) option" where
  "msm_gem_madvise m b g =
     (let g = (if madv (gem_objs g b) \<noteq> MSM_MADV_PURGED then upd_obj b (\<lambda>x. x\<lparr>madv := ucast m\<rparr>) g else g);
          m = madv (gem_objs g b)
      in map_option (Pair (m \<noteq> MSM_MADV_PURGED))
           (if active_count (gem_objs g b) = 0 then update_inactive b g else Some g))"

definition msm_gem_vunmap :: "nat \<Rightarrow> msm_drm_private \<Rightarrow> msm_drm_private" where
  "msm_gem_vunmap b g =
     (if \<not> vaddr (gem_objs g b) \<or> \<not> is_vunmapable (gem_objs g b) then g
      else upd_obj b (\<lambda>x. x\<lparr>vaddr := False\<rparr>) g)"

definition msm_gem_purge :: "nat \<Rightarrow> msm_drm_private \<Rightarrow> msm_drm_private option" where
  "msm_gem_purge b g =
     Option.bind (put_iova_spaces True b g) (\<lambda>g.
       let g = msm_gem_vunmap b g;
           g = put_pages b g;
           g = put_iova_vmas b g;
           g = upd_obj b (\<lambda>x. x\<lparr>madv := MSM_MADV_PURGED\<rparr>) g
       in update_inactive b g)"

definition msm_gem_evict :: "nat \<Rightarrow> msm_drm_private \<Rightarrow> msm_drm_private option" where
  "msm_gem_evict b g =
     Option.bind (put_iova_spaces False b g) (\<lambda>g. update_inactive b (put_pages b g))"

section \<open>Creating and freeing objects (msm_gem.c)\<close>

definition msm_gem_free_object :: "nat \<Rightarrow> msm_drm_private \<Rightarrow> msm_drm_private option" where
  "msm_gem_free_object b g =
     (let g = g\<lparr>objects := remove1 b (objects g)\<rparr>;
          g = (if dontneed (gem_objs g b) then mark_unpurgeable b g else g)
      in Option.bind (mm_del b g) (\<lambda>g.
           Option.bind (put_iova_spaces True b g) (\<lambda>g.
             if import_attach (gem_objs g b)
             then Some (put_iova_vmas b (upd_obj b (\<lambda>x. x\<lparr>pages := False, sgt := False\<rparr>) g))
             else Some (put_iova_vmas b (put_pages b (msm_gem_vunmap b g))))))"

definition MSM_BO_CACHE_MASK :: u32 where "MSM_BO_CACHE_MASK = 0x000f0000"
definition MSM_BO_SCANOUT :: u32 where "MSM_BO_SCANOUT = 0x00000001"
definition MSM_BO_STOLEN :: u32 where "MSM_BO_STOLEN = 0x10000000"

text \<open>\<^verbatim>\<open>msm_gem_new_impl\<close>: the result, and a zeroed object at \<open>b\<close> on success.\<close>

definition msm_gem_new_impl :: "bool \<Rightarrow> u32 \<Rightarrow> nat \<Rightarrow> msm_drm_private \<Rightarrow> int \<times> msm_drm_private" where
  "msm_gem_new_impl mem flags b g =
     (let cache = flags AND MSM_BO_CACHE_MASK
      in if cache \<notin> {0x00040000, 0x00010000, 0x00020000} \<and> \<not> (cache = 0x00080000 \<and> has_cached_coherent g)
         then (- EINVAL, g)
         else if \<not> mem then (- ENOMEM, g)
         else (0, g\<lparr>gem_objs := (gem_objs g)(b :=
           \<lparr>obj_size = 0, import_attach = False, go_flags = flags, madv = MSM_MADV_WILLNEED, dontneed = False,
            evictable = False, vmap_count = 0, mm_node = Null, pages = False, sgt = False, vaddr = False, vmas = [],
            vram_node = False, active_count = 0, pin_count = 0\<rparr>)\<rparr>))"

definition PAGE_ALIGN :: "u32 \<Rightarrow> u32" where
  "PAGE_ALIGN s = (s + 0xFFF) AND NOT 0xFFF"

text \<open>
  The end of the creation of an object: it joins the lists.  A failure drops the only reference.
\<close>

definition gem_publish :: "nat \<Rightarrow> msm_drm_private \<Rightarrow> msm_drm_private option" where
  "gem_publish b g =
     map_option (\<lambda>g. g\<lparr>objects := objects g @ [b]\<rparr>) (mm_add b (Main Unpinned) g)"

definition gem_fail :: "int \<Rightarrow> nat \<Rightarrow> msm_drm_private \<Rightarrow> (int \<times> msm_drm_private) option" where
  "gem_fail ret b g = map_option (Pair ret) (msm_gem_free_object b g)"

text \<open>
  \<open>init\<close> is the result of \<^verbatim>\<open>drm_gem_object_init\<close>, \<open>vma_mem\<close> and \<open>phys\<close> belong to the mapping of an object in the
  carve-out: whether there is memory for it, and the physical address.
\<close>

definition msm_gem_new ::
  "bool \<Rightarrow> int \<Rightarrow> bool \<Rightarrow> page_env \<Rightarrow> u64 \<Rightarrow> u32 \<Rightarrow> u32 \<Rightarrow> nat \<Rightarrow> msm_drm_private \<Rightarrow> (int \<times> msm_drm_private) option" where
  "msm_gem_new mem init vma_mem pe phys sz flags b g =
     (let sz = PAGE_ALIGN sz;
          use_vram = (if \<not> use_mmu g then True
                      else flags AND (MSM_BO_STOLEN OR MSM_BO_SCANOUT) \<noteq> 0 \<and> vram_size g \<noteq> 0)
      in if use_vram \<and> vram_size g = 0 then Some (- EINVAL, g)
         else if sz = 0 then Some (- EINVAL, g)
         else case msm_gem_new_impl mem flags b g of (ret, g) \<Rightarrow>
           if ret \<noteq> 0 then Some (ret, g)
           else let g = upd_obj b (\<lambda>x. x\<lparr>obj_size := unat sz\<rparr>) g
                in if use_vram
                   then (case add_vma vma_mem None b g of (ret, g) \<Rightarrow>
                     if ret \<noteq> 0 then gem_fail ret b g
                     else let g = upd_obj b (\<lambda>x. x\<lparr>vram_node := True, mm_node := Self\<rparr>) g
                          in Option.bind (get_pages pe b g) (\<lambda>(ret, g).
                            if ret \<noteq> 0 then gem_fail ret b g
                            else map_option (Pair 0)
                              (gem_publish b (upd_vmas b (set_vma None (zero_vma\<lparr>iova := phys\<rparr>)) g))))
                   else if init \<noteq> 0 then gem_fail init b g
                   else map_option (Pair 0) (gem_publish b g))"

text \<open>
  \<open>mem2\<close>: memory for the array of pages, \<open>sg\<close>: the result of filling it from the scatter table; the size of
  the \<^verbatim>\<open>dma_buf\<close> is cut to 32 bits.
\<close>

definition msm_gem_import ::
  "bool \<Rightarrow> bool \<Rightarrow> int \<Rightarrow> u64 \<Rightarrow> nat \<Rightarrow> msm_drm_private \<Rightarrow> (int \<times> msm_drm_private) option" where
  "msm_gem_import mem mem2 sg bytes b g =
     (if \<not> use_mmu g then Some (- EINVAL, g)
      else let sz = (ucast ((bytes + 0xFFF) AND NOT 0xFFF) :: u32)
           in case msm_gem_new_impl mem 0x00020000 b g of (ret, g) \<Rightarrow>
             if ret \<noteq> 0 then Some (ret, g)
             else let g = upd_obj b (\<lambda>x. x\<lparr>obj_size := unat sz, sgt := True\<rparr>) g
                  in if \<not> mem2 then gem_fail (- ENOMEM) b g
                     else let g = upd_obj b (\<lambda>x. x\<lparr>pages := True\<rparr>) g
                          in if sg \<noteq> 0 then gem_fail sg b g
                             else map_option (Pair 0) (gem_publish b g))"

text \<open>
  A kernel buffer: created, pinned in \<open>a\<close> (\<open>want\<close>: the caller asks for its address) and mapped.
\<close>

definition msm_gem_kernel_new ::
  "bool \<Rightarrow> int \<Rightarrow> bool \<Rightarrow> page_env \<Rightarrow> u64 \<Rightarrow> bool \<Rightarrow> (int + u64) \<Rightarrow> int \<Rightarrow> bool \<Rightarrow> u32 \<Rightarrow> u32 \<Rightarrow> bool \<Rightarrow> nat option \<Rightarrow> nat \<Rightarrow>
   msm_drm_private \<Rightarrow> (int \<times> msm_drm_private) option" where
  "msm_gem_kernel_new mem init vma_mem pe phys mem3 node map_ret vmap sz flags want a b g =
     Option.bind (msm_gem_new mem init vma_mem pe phys sz flags b g) (\<lambda>(ret, g).
       if ret \<noteq> 0 then Some (ret, g)
       else Option.bind (if want then get_and_pin_iova_range_locked mem3 node pe map_ret a b g else Some (0, None, g))
         (\<lambda>(ret, _, g).
           if ret \<noteq> 0 then gem_fail ret b g
           else Option.bind (msm_gem_get_vaddr pe vmap b g) (\<lambda>(ret, g).
             if ret \<noteq> 0 then Option.bind (msm_gem_unpin_iova a b g) (gem_fail ret b)
             else Some (0, g))))"

text \<open>\<open>final\<close>: the reference that is dropped is the last one.\<close>

definition msm_gem_kernel_put :: "bool \<Rightarrow> nat option \<Rightarrow> nat option \<Rightarrow> msm_drm_private \<Rightarrow> msm_drm_private option" where
  "msm_gem_kernel_put final a bo g =
     (case bo of
        None \<Rightarrow> Some g
      | Some b \<Rightarrow>
          Option.bind (msm_gem_unpin_iova a b (msm_gem_put_vaddr b g))
            (\<lambda>g. if final then msm_gem_free_object b g else Some g))"

text \<open>Waiting for the fences of an object: \<open>remain\<close> is the timeout, \<open>waited\<close> what the wait returned.\<close>

definition msm_gem_cpu_prep :: "int \<Rightarrow> int \<Rightarrow> int" where
  "msm_gem_cpu_prep remain waited =
     (if waited = 0 then (if remain = 0 then - EBUSY else - ETIMEDOUT)
      else if waited < 0 then waited else 0)"

section \<open>Submissions (msm_gem_submit.c, msm_ringbuffer.c)\<close>

text \<open>What a submission holds of a buffer object, as the flags of its entry.\<close>

definition submit_cleanup_bo ::
  "bool \<Rightarrow> bool \<Rightarrow> bool \<Rightarrow> nat option \<Rightarrow> nat \<Rightarrow> msm_drm_private \<Rightarrow> msm_drm_private option" where
  "submit_cleanup_bo vma_pinned obj_pinned active a b g =
     Option.bind
       (if vma_pinned
        then map_option (\<lambda>v. upd_vmas b (set_vma a (msm_gem_unpin_vma v)) g) (lookup_vma (gem_objs g b) a)
        else Some g)
       (\<lambda>g. Option.bind (if obj_pinned then msm_gem_unpin_locked b g else Some g)
         (\<lambda>g. if active then msm_gem_active_put b g else Some g))"

text \<open>The body of the second loop of \<^verbatim>\<open>submit_pin_objects\<close>; the first one is \<^verbatim>\<open>msm_gem_active_get\<close>.\<close>

definition submit_pin_object ::
  "bool \<Rightarrow> (int + u64) \<Rightarrow> page_env \<Rightarrow> int \<Rightarrow> nat option \<Rightarrow> nat \<Rightarrow> msm_drm_private \<Rightarrow> (int \<times> msm_drm_private) option" where
  "submit_pin_object mem node pe map_ret a b g =
     Option.bind (get_vma_locked mem node a b g) (\<lambda>(ret, g).
       if ret \<noteq> 0 then Some (ret, g) else msm_gem_pin_vma_locked pe map_ret a b g)"

text \<open>The body of the loop of \<^verbatim>\<open>msm_job_run\<close> on the ring with fence context \<open>i\<close>.\<close>

definition job_run_object :: "nat \<Rightarrow> nat option \<Rightarrow> nat \<Rightarrow> msm_drm_private \<Rightarrow> msm_drm_private option" where
  "job_run_object i a b g =
     Option.bind (lookup_vma (gem_objs g b) a) (\<lambda>v.
       map_option (\<lambda>v. upd_vmas b (set_vma a v) g) (msm_gem_unpin_vma_fenced v (fence_ctxs g i)))"

section \<open>The shrinker (msm_gem_shrinker.c)\<close>

text \<open>\<open>swap\<close>: eviction is enabled and there is swap space.\<close>

definition msm_gem_shrinker_count :: "bool \<Rightarrow> msm_drm_private \<Rightarrow> u32" where
  "msm_gem_shrinker_count swap g =
     word_of_int (shrinkable_count g) + (if swap then word_of_int (evictable_count g) else 0)"

datatype shrink = Purge | Evict | Vmap_shrink

fun shrink_object :: "shrink \<Rightarrow> nat \<Rightarrow> msm_drm_private \<Rightarrow> (bool \<times> msm_drm_private) option" where
  "shrink_object Purge b g =
     (if \<not> is_purgeable (gem_objs g b) then Some (False, g) else map_option (Pair True) (msm_gem_purge b g))"
| "shrink_object Evict b g =
     (if is_unevictable (gem_objs g b) then Some (False, g) else map_option (Pair True) (msm_gem_evict b g))"
| "shrink_object Vmap_shrink b g =
     (if \<not> is_vunmapable (gem_objs g b) then Some (False, g) else Some (True, msm_gem_vunmap b g))"

text \<open>
  The parts of \<^verbatim>\<open>scan\<close> that hold \<^verbatim>\<open>mm_lock\<close>: the first object of the list moves to the temporary list, and
  in the end the objects left there return to the tail of the list.
\<close>

definition scan_take :: "lru \<Rightarrow> nat \<Rightarrow> msm_drm_private \<Rightarrow> nat option \<times> msm_drm_private" where
  "scan_take l n g =
     (case mm g (Main l) of
        [] \<Rightarrow> (None, g)
      | b # bs \<Rightarrow>
          (Some b, upd_obj b (\<lambda>x. x\<lparr>mm_node := On (Still l n)\<rparr>)
            (g\<lparr>mm := (mm g)(Main l := bs, Still l n := mm g (Still l n) @ [b])\<rparr>)))"

definition scan_splice :: "lru \<Rightarrow> nat \<Rightarrow> msm_drm_private \<Rightarrow> msm_drm_private" where
  "scan_splice l n g =
     fold (\<lambda>b. upd_obj b (\<lambda>x. x\<lparr>mm_node := On (Main l)\<rparr>)) (mm g (Still l n))
       (g\<lparr>mm := (mm g)(Main l := mm g (Main l) @ mm g (Still l n), Still l n := [])\<rparr>)"

text \<open>
  The loop, when nothing interferes: \<open>ref\<close> and \<open>lock\<close> tell which objects can be referenced and locked.  Every
  round takes an object off the list, so that its length is enough for \<open>k\<close>.
\<close>

fun scan_loop ::
  "shrink \<Rightarrow> lru \<Rightarrow> nat \<Rightarrow> (nat \<Rightarrow> bool) \<Rightarrow> (nat \<Rightarrow> bool) \<Rightarrow> nat \<Rightarrow> nat \<Rightarrow> nat \<Rightarrow> msm_drm_private \<Rightarrow>
   (nat \<times> msm_drm_private) option" where
  "scan_loop f l n ref lock nr 0 freed g = Some (freed, g)"
| "scan_loop f l n ref lock nr (Suc k) freed g =
     (if freed \<ge> nr then Some (freed, g)
      else case scan_take l n g of
        (None, g) \<Rightarrow> Some (freed, g)
      | (Some b, g) \<Rightarrow>
          if \<not> ref b \<or> \<not> lock b then scan_loop f l n ref lock nr k freed g
          else Option.bind (shrink_object f b g) (\<lambda>(ok, g).
            scan_loop f l n ref lock nr k (if ok then freed + npages (gem_objs g b) else freed) g))"

definition scan ::
  "shrink \<Rightarrow> lru \<Rightarrow> nat \<Rightarrow> (nat \<Rightarrow> bool) \<Rightarrow> (nat \<Rightarrow> bool) \<Rightarrow> nat \<Rightarrow> msm_drm_private \<Rightarrow> (nat \<times> msm_drm_private) option" where
  "scan f l n ref lock nr g =
     map_option (\<lambda>(freed, g). (freed, scan_splice l n g))
       (scan_loop f l n ref lock nr (length (mm g (Main l))) 0 g)"

text \<open>\<^verbatim>\<open>SHRINK_STOP\<close> is the answer \<open>None\<close> inside.\<close>

definition msm_gem_shrinker_scan ::
  "bool \<Rightarrow> nat \<Rightarrow> (nat \<Rightarrow> bool) \<Rightarrow> (nat \<Rightarrow> bool) \<Rightarrow> nat \<Rightarrow> msm_drm_private \<Rightarrow> (nat option \<times> msm_drm_private) option" where
  "msm_gem_shrinker_scan swap n ref lock nr g =
     Option.bind (scan Purge Dontneed n ref lock nr g) (\<lambda>(freed, g).
       map_option (\<lambda>(evicted, g). (if freed + evicted > 0 then Some (freed + evicted) else None, g))
         (if swap \<and> freed < nr then scan Evict Willneed n ref lock (nr - freed) g else Some (0, g)))"

text \<open>
  The notifier for exhausted \<^verbatim>\<open>vmap\<close> space: it visits the lists in turn until it has unmapped 15 pages.
\<close>

fun shrink_vmaps ::
  "lru list \<Rightarrow> nat \<Rightarrow> (nat \<Rightarrow> bool) \<Rightarrow> (nat \<Rightarrow> bool) \<Rightarrow> nat \<Rightarrow> msm_drm_private \<Rightarrow> (nat \<times> msm_drm_private) option" where
  "shrink_vmaps [] n ref lock unmapped g = Some (unmapped, g)"
| "shrink_vmaps (l # ls) n ref lock unmapped g =
     (if unmapped \<ge> 15 then Some (unmapped, g)
      else Option.bind (scan Vmap_shrink l n ref lock (15 - unmapped) g) (\<lambda>(k, g).
        shrink_vmaps ls n ref lock (unmapped + k) g))"

definition msm_gem_shrinker_vmap ::
  "bool \<Rightarrow> nat \<Rightarrow> (nat \<Rightarrow> bool) \<Rightarrow> (nat \<Rightarrow> bool) \<Rightarrow> msm_drm_private \<Rightarrow> (nat \<times> msm_drm_private) option" where
  "msm_gem_shrinker_vmap gpu n ref lock g =
     shrink_vmaps ([Dontneed, Willneed] @ (if gpu then [Active] else [])) n ref lock 0 g"

end
