(* ===== verification/GEM_Correct.thy ===== *)
theory GEM_Correct
  imports GEM VMA_Correct "HOL-Library.Multiset"
begin

text \<open>
  Correctness of the buffer objects: the lists and counters of the shrinker agree with the objects in every
  reachable state, and an object that the display, a submission or the GPU uses keeps its pages and
  mappings whatever the shrinker does.
\<close>

section \<open>The lists and counters\<close>

text \<open>
  The lists contain exactly the objects whose node says so, and the counters are the sums over the
  flagged objects; \<open>k\<close> is what objects that were freed as evictable left in the counter.
\<close>

definition weight :: "bool \<Rightarrow> msm_gem_object \<Rightarrow> int" where
  "weight c x = (if c then int (npages x) else 0)"

definition mm_struct :: "msm_drm_private \<Rightarrow> int \<Rightarrow> bool" where
  "mm_struct g k =
     (distinct (objects g) \<and>
      (\<forall>l. distinct (mm g l) \<and> set (mm g l) = {b \<in> set (objects g). mm_node (gem_objs g b) = On l}) \<and>
      shrinkable_count g = (\<Sum>b\<in>set (objects g). weight (dontneed (gem_objs g b)) (gem_objs g b)) \<and>
      evictable_count g = k + (\<Sum>b\<in>set (objects g). weight (evictable (gem_objs g b)) (gem_objs g b)))"

text \<open>Another object and the rest of the state do not change.\<close>

definition same_else :: "nat \<Rightarrow> msm_drm_private \<Rightarrow> msm_drm_private \<Rightarrow> bool" where
  "same_else b g g' =
     (objects g' = objects g \<and> fence_ctxs g' = fence_ctxs g \<and> vram_size g' = vram_size g \<and>
      use_mmu g' = use_mmu g \<and> (\<forall>c. c \<noteq> b \<longrightarrow> gem_objs g' c = gem_objs g c))"

lemma same_else_refl [simp]: "same_else b g g"
  by (simp add: same_else_def)

lemma same_else_trans: "same_else b g g' \<Longrightarrow> same_else b g' g'' \<Longrightarrow> same_else b g g''"
  by (simp add: same_else_def)

lemma same_else_upd [simp]:
  "same_else b g (upd_obj b f g') = same_else b g g'" "same_else b (upd_obj b f g) g' = same_else b g g'"
  "same_else b g (upd_vmas b h g') = same_else b g g'"
  "same_else b g (g'\<lparr>mm := m\<rparr>) = same_else b g g'" "same_else b (g\<lparr>mm := m\<rparr>) g' = same_else b g g'"
  "same_else b g (g'\<lparr>shrinkable_count := c\<rparr>) = same_else b g g'"
  "same_else b g (g'\<lparr>evictable_count := c\<rparr>) = same_else b g g'"
  "same_else b g (g'\<lparr>spaces := sp\<rparr>) = same_else b g g'"
  "same_else b g (g'\<lparr>vram_mm := vm\<rparr>) = same_else b g g'"
  by (auto simp: same_else_def upd_obj_def upd_vmas_def)

lemma upd_obj_simps [simp]:
  "gem_objs (upd_obj b f g) b = f (gem_objs g b)" "c \<noteq> b \<Longrightarrow> gem_objs (upd_obj b f g) c = gem_objs g c"
  "objects (upd_obj b f g) = objects g" "mm (upd_obj b f g) = mm g" "spaces (upd_obj b f g) = spaces g"
  "fence_ctxs (upd_obj b f g) = fence_ctxs g" "shrinkable_count (upd_obj b f g) = shrinkable_count g"
  "evictable_count (upd_obj b f g) = evictable_count g" "vram_mm (upd_obj b f g) = vram_mm g"
  "vram_size (upd_obj b f g) = vram_size g" "use_mmu (upd_obj b f g) = use_mmu g"
  by (simp_all add: upd_obj_def)

lemma upd_vmas_simps [simp]:
  "gem_objs (upd_vmas b f g) b = (gem_objs g b)\<lparr>vmas := f (vmas (gem_objs g b))\<rparr>"
  "objects (upd_vmas b f g) = objects g" "spaces (upd_vmas b f g) = spaces g"
  "fence_ctxs (upd_vmas b f g) = fence_ctxs g"
  by (simp_all add: upd_vmas_def)

text \<open>Changes that do not concern the lists.\<close>

definition mm_view :: "msm_gem_object \<Rightarrow> mm_node \<times> bool \<times> bool \<times> nat" where
  "mm_view x = (mm_node x, dontneed x, evictable x, obj_size x)"

lemma mm_struct_cong:
  assumes "mm_struct g k" "objects g' = objects g" "mm g' = mm g" "shrinkable_count g' = shrinkable_count g"
    and "evictable_count g' = evictable_count g"
    and "\<And>c. c \<in> set (objects g) \<Longrightarrow> mm_view (gem_objs g' c) = mm_view (gem_objs g c)"
  shows "mm_struct g' k"
proof -
  have f: "mm_node (gem_objs g' c) = mm_node (gem_objs g c)" "dontneed (gem_objs g' c) = dontneed (gem_objs g c)"
      "evictable (gem_objs g' c) = evictable (gem_objs g c)" "npages (gem_objs g' c) = npages (gem_objs g c)"
    if "c \<in> set (objects g)" for c
    using assms(6) [OF that] by (simp_all add: mm_view_def npages_def)
  have "(\<Sum>c\<in>set (objects g). weight (dontneed (gem_objs g' c)) (gem_objs g' c)) =
      (\<Sum>c\<in>set (objects g). weight (dontneed (gem_objs g c)) (gem_objs g c))"
    "(\<Sum>c\<in>set (objects g). weight (evictable (gem_objs g' c)) (gem_objs g' c)) =
      (\<Sum>c\<in>set (objects g). weight (evictable (gem_objs g c)) (gem_objs g c))"
    by (rule sum.cong [OF refl], simp add: f weight_def)+
  with assms(1) show ?thesis unfolding mm_struct_def assms(2-5) by (auto simp: f)
qed

lemma mm_struct_upd:
  assumes "mm_struct g k" "mm_view (f (gem_objs g b)) = mm_view (gem_objs g b)"
  shows "mm_struct (upd_obj b f g) k"
proof (rule mm_struct_cong [OF assms(1)])
  fix c
  show "mm_view (gem_objs (upd_obj b f g) c) = mm_view (gem_objs g c)"
    using assms(2) by (cases "c = b") simp_all
qed simp_all

lemma mm_struct_spaces [simp]: "mm_struct (g\<lparr>spaces := sp\<rparr>) k = mm_struct g k"
  "mm_struct (g\<lparr>vram_mm := vm\<rparr>) k = mm_struct g k" "mm_struct (g\<lparr>fence_ctxs := cs\<rparr>) k = mm_struct g k"
  by (simp_all add: mm_struct_def)

lemma mm_struct_vmas: "mm_struct g k \<Longrightarrow> mm_struct (upd_vmas b f g) k"
  unfolding upd_vmas_def by (rule mm_struct_upd) (simp_all add: mm_view_def)

lemma sum_change:
  fixes f f' :: "nat \<Rightarrow> int"
  assumes "finite S" "b \<in> S" "\<And>c. c \<in> S \<Longrightarrow> c \<noteq> b \<Longrightarrow> f' c = f c"
  shows "sum f' S = sum f S - f b + f' b"
proof -
  have "sum f' (S - {b}) = sum f (S - {b})" by (rule sum.cong) (auto simp: assms(3))
  with assms(1,2) show ?thesis by (simp add: sum.remove)
qed

lemma mm_struct_change:
  assumes "mm_struct g k" "b \<in> set (objects g)"
    and "mm_node (f (gem_objs g b)) = mm_node (gem_objs g b)" "obj_size (f (gem_objs g b)) = obj_size (gem_objs g b)"
    and "sc = shrinkable_count g - weight (dontneed (gem_objs g b)) (gem_objs g b) +
      weight (dontneed (f (gem_objs g b))) (gem_objs g b)"
    and "ec = evictable_count g - weight (evictable (gem_objs g b)) (gem_objs g b) +
      weight (evictable (f (gem_objs g b))) (gem_objs g b)"
  shows "mm_struct (upd_obj b f (g\<lparr>shrinkable_count := sc, evictable_count := ec\<rparr>)) k"
proof -
  define g' where "g' = upd_obj b f (g\<lparr>shrinkable_count := sc, evictable_count := ec\<rparr>)"
  have same: "gem_objs g' c = (if c = b then f (gem_objs g b) else gem_objs g c)" for c by (simp add: g'_def upd_obj_def)
  have sz: "weight d (f (gem_objs g b)) = weight d (gem_objs g b)" for d using assms(4) by (simp add: weight_def npages_def)
  note sum = sum_change [OF finite_set assms(2)]
  have sd: "(\<Sum>c\<in>set (objects g). weight (dontneed (gem_objs g' c)) (gem_objs g' c)) =
      (\<Sum>c\<in>set (objects g). weight (dontneed (gem_objs g c)) (gem_objs g c)) -
      weight (dontneed (gem_objs g b)) (gem_objs g b) + weight (dontneed (f (gem_objs g b))) (gem_objs g b)"
    by (subst sum [of "\<lambda>c. weight (dontneed (gem_objs g' c)) (gem_objs g' c)"
        "\<lambda>c. weight (dontneed (gem_objs g c)) (gem_objs g c)"]) (simp_all add: same sz)
  have se: "(\<Sum>c\<in>set (objects g). weight (evictable (gem_objs g' c)) (gem_objs g' c)) =
      (\<Sum>c\<in>set (objects g). weight (evictable (gem_objs g c)) (gem_objs g c)) -
      weight (evictable (gem_objs g b)) (gem_objs g b) + weight (evictable (f (gem_objs g b))) (gem_objs g b)"
    by (subst sum [of "\<lambda>c. weight (evictable (gem_objs g' c)) (gem_objs g' c)"
        "\<lambda>c. weight (evictable (gem_objs g c)) (gem_objs g c)"]) (simp_all add: same sz)
  have fields: "objects g' = objects g" "mm g' = mm g" "shrinkable_count g' = sc" "evictable_count g' = ec"
    by (simp_all add: g'_def upd_obj_def)
  have "mm_node (gem_objs g' c) = mm_node (gem_objs g c)" for c using assms(3) by (simp add: same)
  then have "mm_struct g' k"
    using assms(1,5,6) unfolding mm_struct_def fields sd se by auto
  then show ?thesis by (simp add: g'_def)
qed

text \<open>Marking an object keeps the sums right, whether it does something or not.\<close>

lemma mark_struct:
  assumes "mm_struct g k" "b \<in> set (objects g)"
  shows "mm_struct (mark_purgeable b g) k" "mm_struct (mark_unpurgeable b g) k"
    "mm_struct (mark_evictable b g) k" "mm_struct (mark_unevictable b g) k"
proof -
  let ?x = "gem_objs g b"
  note change = mm_struct_change [OF assms]
  have "mm_struct (upd_obj b (\<lambda>x. x\<lparr>dontneed := True\<rparr>) (g\<lparr>shrinkable_count := shrinkable_count g + int (npages ?x)\<rparr>)) k"
    if "\<not> dontneed ?x"
    using change [of "\<lambda>x. x\<lparr>dontneed := True\<rparr>" "shrinkable_count g + int (npages ?x)" "evictable_count g"] that
    by (simp add: weight_def)
  with assms(1) show "mm_struct (mark_purgeable b g) k" by (simp add: mark_purgeable_def Let_def)
  have "mm_struct (upd_obj b (\<lambda>x. x\<lparr>dontneed := False\<rparr>) (g\<lparr>shrinkable_count := shrinkable_count g - int (npages ?x)\<rparr>)) k"
    if "dontneed ?x"
    using change [of "\<lambda>x. x\<lparr>dontneed := False\<rparr>" "shrinkable_count g - int (npages ?x)" "evictable_count g"] that
    by (simp add: weight_def)
  with assms(1) show "mm_struct (mark_unpurgeable b g) k" by (simp add: mark_unpurgeable_def Let_def)
  have "mm_struct (upd_obj b (\<lambda>x. x\<lparr>evictable := True\<rparr>) (g\<lparr>evictable_count := evictable_count g + int (npages ?x)\<rparr>)) k"
    if "\<not> evictable ?x"
    using change [of "\<lambda>x. x\<lparr>evictable := True\<rparr>" "shrinkable_count g" "evictable_count g + int (npages ?x)"] that
    by (simp add: weight_def)
  with assms(1) show "mm_struct (mark_evictable b g) k" by (simp add: mark_evictable_def Let_def)
  have "mm_struct (upd_obj b (\<lambda>x. x\<lparr>evictable := False\<rparr>) (g\<lparr>evictable_count := evictable_count g - int (npages ?x)\<rparr>)) k"
    if "evictable ?x"
    using change [of "\<lambda>x. x\<lparr>evictable := False\<rparr>" "shrinkable_count g" "evictable_count g - int (npages ?x)"] that
    by (simp add: weight_def)
  with assms(1) show "mm_struct (mark_unevictable b g) k" by (simp add: mark_unevictable_def Let_def)
qed

lemma mark_same [simp]:
  "same_else b g (mark_purgeable b g') = same_else b g g'" "same_else b g (mark_unpurgeable b g') = same_else b g g'"
  "same_else b g (mark_evictable b g') = same_else b g g'" "same_else b g (mark_unevictable b g') = same_else b g g'"
  by (auto simp: mark_purgeable_def mark_unpurgeable_def mark_evictable_def mark_unevictable_def Let_def)

lemma mark_objects [simp]:
  "objects (mark_purgeable b g) = objects g" "objects (mark_unpurgeable b g) = objects g"
  "objects (mark_evictable b g) = objects g" "objects (mark_unevictable b g) = objects g"
  by (auto simp: mark_purgeable_def mark_unpurgeable_def mark_evictable_def mark_unevictable_def Let_def)

lemma mark_obj [simp]:
  "gem_objs (mark_purgeable b g) b = (gem_objs g b)\<lparr>dontneed := dontneed (gem_objs g b) \<or> \<not> is_unpurgeable (gem_objs g b)\<rparr>"
  "gem_objs (mark_unpurgeable b g) b = (gem_objs g b)\<lparr>dontneed := dontneed (gem_objs g b) \<and> is_unpurgeable (gem_objs g b)\<rparr>"
  "gem_objs (mark_evictable b g) b = (gem_objs g b)\<lparr>evictable := evictable (gem_objs g b) \<or> \<not> is_unevictable (gem_objs g b)\<rparr>"
  "gem_objs (mark_unevictable b g) b = (gem_objs g b)\<lparr>evictable := evictable (gem_objs g b) \<and> is_unevictable (gem_objs g b)\<rparr>"
  by (auto simp: mark_purgeable_def mark_unpurgeable_def mark_evictable_def mark_unevictable_def Let_def)

lemma mm_del_struct:
  assumes "mm_struct g k" "b \<in> set (objects g)" "mm_node (gem_objs g b) = On l"
  shows "\<exists>g'. mm_del b g = Some g' \<and> mm_struct g' k \<and> same_else b g g' \<and>
    gem_objs g' b = (gem_objs g b)\<lparr>mm_node := Self\<rparr>"
proof -
  let ?g = "upd_obj b (\<lambda>x. x\<lparr>mm_node := Self\<rparr>) (g\<lparr>mm := (mm g)(l := remove1 b (mm g l))\<rparr>)"
  have same: "gem_objs ?g c = (if c = b then (gem_objs g b)\<lparr>mm_node := Self\<rparr> else gem_objs g c)" for c
    by (simp add: upd_obj_def)
  have w: "weight (dontneed (gem_objs ?g c)) (gem_objs ?g c) = weight (dontneed (gem_objs g c)) (gem_objs g c)"
      "weight (evictable (gem_objs ?g c)) (gem_objs ?g c) = weight (evictable (gem_objs g c)) (gem_objs g c)" for c
    by (auto simp: same weight_def npages_def)
  have "mm_struct ?g k" using assms unfolding mm_struct_def w by (auto simp: same)
  then show ?thesis using assms(3) by (auto simp: mm_del_def)
qed

lemma mm_add_struct:
  assumes "mm_struct g k" "b \<in> set (objects g)" "\<And>l. mm_node (gem_objs g b) \<noteq> On l"
  shows "\<exists>g'. mm_add b l g = Some g' \<and> mm_struct g' k \<and> same_else b g g' \<and>
    gem_objs g' b = (gem_objs g b)\<lparr>mm_node := On l\<rparr>"
proof -
  let ?g = "upd_obj b (\<lambda>x. x\<lparr>mm_node := On l\<rparr>) (g\<lparr>mm := (mm g)(l := mm g l @ [b])\<rparr>)"
  have same: "gem_objs ?g c = (if c = b then (gem_objs g b)\<lparr>mm_node := On l\<rparr> else gem_objs g c)" for c
    by (simp add: upd_obj_def)
  have w: "weight (dontneed (gem_objs ?g c)) (gem_objs ?g c) = weight (dontneed (gem_objs g c)) (gem_objs g c)"
      "weight (evictable (gem_objs ?g c)) (gem_objs ?g c) = weight (evictable (gem_objs g c)) (gem_objs g c)" for c
    by (auto simp: same weight_def npages_def)
  have "mm_struct ?g k" using assms unfolding mm_struct_def w by (auto simp: same)
  moreover have "mm_add b l g = Some ?g" using assms(3) by (auto simp: mm_add_def split: mm_node.splits)
  ultimately show ?thesis by auto
qed

section \<open>What holds an object\<close>

text \<open>
  The holders of an object: a pin of its pages, a pin of its address in a space, and what a submission has
  of it: only the active count while it locks its objects, also the pins of the object and of the
  mapping until it runs, and then the fence that replaced the pin of the mapping.
\<close>

datatype hold = H_Pages | H_Iova nat | H_Active | H_Sub nat | H_Run nat nat u32

fun pin_hold :: "hold \<Rightarrow> bool" where
  "pin_hold H_Active = False"
| "pin_hold _ = True"

fun gpu_hold :: "hold \<Rightarrow> bool" where
  "gpu_hold H_Pages = False"
| "gpu_hold (H_Iova _) = False"
| "gpu_hold _ = True"

definition vma_hold :: "nat \<Rightarrow> hold \<Rightarrow> bool" where
  "vma_hold a h = (h = H_Iova a \<or> h = H_Sub a)"

lemma vma_hold_simps [simp]:
  "vma_hold a (H_Iova b) = (a = b)" "vma_hold a (H_Sub b) = (a = b)" "\<not> vma_hold a H_Pages"
  "\<not> vma_hold a H_Active" "\<not> vma_hold a (H_Run b i s)"
  by (auto simp: vma_hold_def)

lemma vma_hold_pin: "vma_hold a h \<Longrightarrow> pin_hold h"
  by (auto simp: vma_hold_def)

definition nh :: "(hold \<Rightarrow> bool) \<Rightarrow> hold multiset \<Rightarrow> int" where
  "nh P H = int (size (filter_mset P H))"

lemma nh_simps [simp]:
  "nh P {#} = 0" "nh P (add_mset h H) = nh P H + of_bool (P h)" "0 \<le> nh P H"
  by (simp_all add: nh_def)

lemma nh_diff: "h \<in># H \<Longrightarrow> nh P (H - {#h#}) = nh P H - of_bool (P h)"
  using nh_simps(2) [of P h "H - {#h#}"] by simp

lemma nh_pos: "0 < nh P H \<longleftrightarrow> (\<exists>h \<in># H. P h)"
  by (induction H) (auto simp: add_nonneg_pos)

lemma nh_zero: "nh P H = 0 \<longleftrightarrow> (\<forall>h \<in># H. \<not> P h)"
  using nh_pos [of P H] nh_simps(3) [of P H] by (auto simp: order_less_le)

text \<open>
  A mapping is pinned as often as holders say; it maps pages the object has; when it is pinned or one of
  its fences is pending it is mapped, and a pending fence belongs to a submission that runs.
\<close>

definition vma_ok :: "(nat \<Rightarrow> msm_fence_context) \<Rightarrow> hold multiset \<Rightarrow> bool \<Rightarrow> nat \<Rightarrow> msm_gem_vma \<Rightarrow> bool" where
  "vma_ok ctxs H pg a v =
     (vma_shape v \<and> inuse v = nh (vma_hold a) H \<and> (mapped v \<longrightarrow> pg) \<and>
      (0 < inuse v \<or> pending ctxs v \<longrightarrow> mapped v \<and> iova v \<noteq> 0) \<and>
      (\<forall>i. pending_at ctxs (fence v) (fctx v) (fence_mask v) i \<longrightarrow> H_Run a (the (fctx v ! i)) (fence v ! i) \<in># H))"

definition obj_ok :: "(nat \<Rightarrow> msm_fence_context) \<Rightarrow> hold multiset \<Rightarrow> msm_gem_object \<Rightarrow> bool" where
  "obj_ok ctxs H x =
     (pin_count x = nh pin_hold H \<and> active_count x = nh gpu_hold H \<and> distinct (map fst (vmas x)) \<and>
      (\<forall>p \<in> set (vmas x). \<exists>a. fst p = Some a \<and> vma_ok ctxs H (pages x) a (snd p)) \<and>
      (\<forall>h \<in># H. \<forall>a. vma_hold a h \<longrightarrow> Some a \<in> fst ` set (vmas x)) \<and>
      (sgt x \<longrightarrow> pages x) \<and> (0 < pin_count x \<longrightarrow> pages x) \<and> madv x \<in> {0, 1, 2} \<and>
      (madv x = 2 \<longrightarrow> \<not> pages x) \<and> (import_attach x \<longrightarrow> pages x) \<and> \<not> vram_node x)"

fun lru_of :: "mm_list \<Rightarrow> lru" where
  "lru_of (Main l) = l"
| "lru_of (Still l _) = l"

text \<open>The list an object is in, or comes from when the shrinker has it, fits its state.\<close>

definition class_ok :: "msm_gem_object \<Rightarrow> bool" where
  "class_ok x =
     ((\<exists>l. mm_node x = On l \<and> (active_count x \<noteq> 0) = (lru_of l = Active) \<and>
        (lru_of l = Willneed \<longrightarrow> madv x = 0 \<and> sgt x) \<and> (lru_of l = Dontneed \<longrightarrow> madv x = 1) \<and>
        (lru_of l = Unpinned \<longrightarrow> madv x = 2 \<or> madv x = 0 \<and> (\<not> sgt x \<or> import_attach x))) \<and>
      (dontneed x \<longrightarrow> madv x = 1 \<and> \<not> is_unpurgeable x) \<and>
      (active_count x = 0 \<and> madv x = 1 \<and> \<not> is_unpurgeable x \<longrightarrow> dontneed x))"

definition good :: "nat \<Rightarrow> int \<Rightarrow> hold multiset \<Rightarrow> msm_drm_private \<Rightarrow> bool" where
  "good b k H g =
     (b \<in> set (objects g) \<and> mm_struct g k \<and> class_ok (gem_objs g b) \<and> obj_ok (fence_ctxs g) H (gem_objs g b))"

text \<open>Objects that differ only in their flags and their list.\<close>

definition mm_same :: "msm_gem_object \<Rightarrow> msm_gem_object \<Rightarrow> bool" where
  "mm_same x x' = (x' = x\<lparr>dontneed := dontneed x', evictable := evictable x', mm_node := mm_node x'\<rparr>)"

lemma mm_same_refl [simp]: "mm_same x x"
  by (simp add: mm_same_def)

lemma mm_sameD:
  assumes "mm_same x x'"
  shows "obj_size x' = obj_size x" "import_attach x' = import_attach x" "madv x' = madv x"
    "vmap_count x' = vmap_count x" "pages x' = pages x" "sgt x' = sgt x" "vaddr x' = vaddr x" "vmas x' = vmas x"
    "vram_node x' = vram_node x" "active_count x' = active_count x" "pin_count x' = pin_count x"
proof -
  from assms have e: "x' = x\<lparr>dontneed := dontneed x', evictable := evictable x', mm_node := mm_node x'\<rparr>"
    by (simp only: mm_same_def)
  show "obj_size x' = obj_size x" "import_attach x' = import_attach x" "madv x' = madv x"
    "vmap_count x' = vmap_count x" "pages x' = pages x" "sgt x' = sgt x" "vaddr x' = vaddr x" "vmas x' = vmas x"
    "vram_node x' = vram_node x" "active_count x' = active_count x" "pin_count x' = pin_count x"
    by (subst e, simp)+
qed

lemma mm_same_obj_ok: "mm_same x x' \<Longrightarrow> obj_ok ctxs H x' = obj_ok ctxs H x"
  by (simp add: obj_ok_def mm_sameD)

text \<open>
  Moving an inactive object to the list it belongs to; before, its list and flags may be out of
  date, but not the flag of a purgeable object that got pinned.
\<close>

lemma update_inactive_idle:
  assumes "mm_struct g k" "b \<in> set (objects g)" "mm_node (gem_objs g b) = On l" "active_count (gem_objs g b) = 0"
    and "madv (gem_objs g b) \<in> {0, 1, 2}" "dontneed (gem_objs g b) \<longrightarrow> \<not> is_unpurgeable (gem_objs g b)"
  shows "\<exists>g'. update_inactive b g = Some g' \<and> mm_struct g' k \<and> same_else b g g' \<and>
    mm_same (gem_objs g b) (gem_objs g' b) \<and> class_ok (gem_objs g' b)"
proof -
  let ?g1 = "if dontneed (gem_objs g b) then mark_unpurgeable b g else g"
  let ?g2 = "if evictable (gem_objs ?g1 b) then mark_unevictable b ?g1 else ?g1"
  define x where "x = gem_objs g b"
  have s1: "mm_struct ?g1 k" using mark_struct(2) [OF assms(1,2)] assms(1) by simp
  have o1: "objects ?g1 = objects g" by simp
  have x1: "gem_objs ?g1 b = x\<lparr>dontneed := False\<rparr>" using assms(6) by (simp add: x_def)
  have s2: "mm_struct ?g2 k" using mark_struct(4) [OF s1] s1 o1 assms(2) by simp
  have "x\<lparr>dontneed := False\<rparr> = x\<lparr>dontneed := False, evictable := evictable x\<rparr>" by simp
  then have "\<exists>e. x\<lparr>dontneed := False\<rparr> = x\<lparr>dontneed := False, evictable := e\<rparr>" by blast
  then have "\<exists>e. gem_objs ?g2 b = x\<lparr>dontneed := False, evictable := e\<rparr>"
    by (cases "evictable (gem_objs ?g1 b)") (auto simp: x1 simp del: mark_obj(2))
  then obtain e where x2: "gem_objs ?g2 b = x\<lparr>dontneed := False, evictable := e\<rparr>" by blast
  have o2: "objects ?g2 = objects g" "same_else b g ?g2" by simp_all
  from mm_del_struct [OF s2, of b l] assms(2,3) x2 o2 obtain g3 where
    g3: "mm_del b ?g2 = Some g3" "mm_struct g3 k" "same_else b ?g2 g3" "gem_objs g3 b = x\<lparr>dontneed := False, evictable := e, mm_node := Self\<rparr>"
    by (auto simp: x_def)
  have o3: "same_else b g g3" using o2(2) g3(3) by (rule same_else_trans)
  then have b3: "b \<in> set (objects g3)" using assms(2) by (simp add: same_else_def)
  note add = mm_add_struct [OF g3(2) b3]
  have upd: "update_inactive b g = (let x = gem_objs g3 b
      in if madv x = MSM_MADV_WILLNEED \<and> sgt x then map_option (mark_evictable b) (mm_add b (Main Willneed) g3)
         else if madv x = MSM_MADV_DONTNEED then map_option (mark_purgeable b) (mm_add b (Main Dontneed) g3)
         else mm_add b (Main Unpinned) g3)"
    using assms(4) g3(1) by (simp add: update_inactive_def Let_def)
  have act: "active_count x = 0" "madv x \<in> {0, 1, 2}" using assms(4,5) by (simp_all add: x_def)
  consider (w) "madv x = 0" "sgt x" | (d) "madv x = 1" | (u) "madv x = 2 \<or> madv x = 0 \<and> \<not> sgt x"
    using act(2) by auto
  then show ?thesis
  proof cases
    case w
    from add [of "Main Willneed"] g3(4) obtain g4 where g4: "mm_add b (Main Willneed) g3 = Some g4" "mm_struct g4 k"
      "same_else b g3 g4" "gem_objs g4 b = x\<lparr>dontneed := False, evictable := e, mm_node := On (Main Willneed)\<rparr>" by auto
    have "b \<in> set (objects g4)" using b3 g4(3) by (simp add: same_else_def)
    from mark_struct(3) [OF g4(2) this] w act g4 g3(4) upd o3 show ?thesis
      by (auto simp: madv_defs mm_same_def class_ok_def x_def [symmetric] intro: same_else_trans)
  next
    case d
    from add [of "Main Dontneed"] g3(4) obtain g4 where g4: "mm_add b (Main Dontneed) g3 = Some g4" "mm_struct g4 k"
      "same_else b g3 g4" "gem_objs g4 b = x\<lparr>dontneed := False, evictable := e, mm_node := On (Main Dontneed)\<rparr>" by auto
    have "b \<in> set (objects g4)" using b3 g4(3) by (simp add: same_else_def)
    from mark_struct(1) [OF g4(2) this] d act g4 g3(4) upd o3 show ?thesis
      by (auto simp: madv_defs mm_same_def class_ok_def is_unpurgeable_def x_def [symmetric] intro: same_else_trans)
  next
    case u
    from add [of "Main Unpinned"] g3(4) obtain g4 where g4: "mm_add b (Main Unpinned) g3 = Some g4" "mm_struct g4 k"
      "same_else b g3 g4" "gem_objs g4 b = x\<lparr>dontneed := False, evictable := e, mm_node := On (Main Unpinned)\<rparr>" by auto
    from u act g4 g3(4) upd o3 show ?thesis
      by (auto simp: madv_defs mm_same_def class_ok_def x_def [symmetric] intro: same_else_trans)
  qed
qed

lemma update_inactive_good:
  assumes "mm_struct g k" "b \<in> set (objects g)" "mm_node (gem_objs g b) = On l" "obj_ok (fence_ctxs g) H (gem_objs g b)"
    and "dontneed (gem_objs g b) \<longrightarrow> \<not> is_unpurgeable (gem_objs g b)"
    and "active_count (gem_objs g b) \<noteq> 0 \<longrightarrow> class_ok (gem_objs g b)"
  shows "\<exists>g'. update_inactive b g = Some g' \<and> good b k H g' \<and> same_else b g g' \<and> mm_same (gem_objs g b) (gem_objs g' b)"
proof (cases "active_count (gem_objs g b) = 0")
  case True
  have "madv (gem_objs g b) \<in> {0, 1, 2}" using assms(4) by (simp add: obj_ok_def)
  from update_inactive_idle [OF assms(1-3) True this assms(5)] obtain g' where
    g': "update_inactive b g = Some g'" "mm_struct g' k" "same_else b g g'"
      "mm_same (gem_objs g b) (gem_objs g' b)" "class_ok (gem_objs g' b)" by blast
  moreover have "good b k H g'"
    using g' assms(2,4) by (auto simp: good_def mm_same_obj_ok same_else_def)
  ultimately show ?thesis by blast
next
  case False
  with assms show ?thesis by (simp add: update_inactive_def good_def)
qed

section \<open>Operations on a mapping\<close>

lemma vma_okD:
  assumes "vma_ok ctxs H pg a v"
  shows "vma_shape v" "inuse v = nh (vma_hold a) H" "mapped v \<Longrightarrow> pg" "0 < inuse v \<Longrightarrow> mapped v"
    "0 < inuse v \<Longrightarrow> iova v \<noteq> 0" "pending ctxs v \<Longrightarrow> mapped v" "pending ctxs v \<Longrightarrow> iova v \<noteq> 0"
    "pending_at ctxs (fence v) (fctx v) (fence_mask v) i \<Longrightarrow> H_Run a (the (fctx v ! i)) (fence v ! i) \<in># H"
  using assms by (auto simp: vma_ok_def)

lemma vma_ok_pinned:
  assumes "vma_ok ctxs H pg a v" "h \<in># H" "vma_hold a h"
  shows "0 < inuse v" "mapped v" "iova v \<noteq> 0" "pg"
proof -
  have "0 < nh (vma_hold a) H" using assms(2,3) by (auto simp: nh_pos)
  then show "0 < inuse v" using vma_okD(2) [OF assms(1)] by simp
  then show "mapped v" "iova v \<noteq> 0" by (rule vma_okD(4,5) [OF assms(1)])+
  then show "pg" using vma_okD(3) [OF assms(1)] by blast
qed

text \<open>Other holders do not matter to a mapping.\<close>

lemma vma_ok_holds:
  assumes "vma_ok ctxs H pg a v" "nh (vma_hold a) H' = nh (vma_hold a) H"
    and "\<And>i s. H_Run a i s \<in># H \<Longrightarrow> \<not> msm_fence_completed (ctxs i) s \<Longrightarrow> H_Run a i s \<in># H'"
  shows "vma_ok ctxs H' pg a v"
  using assms by (auto simp: vma_ok_def pending_at_def)

lemma vma_ok_pages: "vma_ok ctxs H pg a v \<Longrightarrow> (pg \<Longrightarrow> pg') \<Longrightarrow> vma_ok ctxs H pg' a v"
  by (auto simp: vma_ok_def)

text \<open>Asking whether a mapping is in use thins out its mask.\<close>

lemma vma_ok_inuse:
  assumes "vma_ok ctxs H pg a v"
  obtains m where "msm_gem_vma_inuse ctxs v = Some (0 < inuse v \<or> pending ctxs v, v\<lparr>fence_mask := m\<rparr>)"
    "vma_ok ctxs H pg a (v\<lparr>fence_mask := m\<rparr>)" "pending ctxs (v\<lparr>fence_mask := m\<rparr>) = pending ctxs v"
proof -
  have sh: "vma_shape v" using assms by (simp add: vma_ok_def)
  obtain m where m: "msm_gem_vma_inuse ctxs v = Some (inuse v > 0 \<or> pending ctxs v, v\<lparr>fence_mask := m\<rparr>)"
    "\<forall>i. bit m i \<longrightarrow> bit (fence_mask v) i" "pending ctxs (v\<lparr>fence_mask := m\<rparr>) = pending ctxs v"
    by (rule vma_inuse_equiv [OF sh])
  then have "vma_ok ctxs H pg a (v\<lparr>fence_mask := m\<rparr>)"
    using assms by (auto simp: vma_ok_def vma_shape_def mask_ok_def pending_at_def)
  with m that show ?thesis by blast
qed

text \<open>Without pins and running submissions a mapping is idle.\<close>

lemma vma_ok_idle:
  assumes "vma_ok ctxs H pg a v" "\<forall>h \<in># H. \<not> pin_hold h"
  shows "inuse v = 0" "\<not> pending ctxs v"
proof -
  have "nh (vma_hold a) H = 0" using assms(2) vma_hold_pin by (auto simp: nh_zero)
  with assms(1) show "inuse v = 0" by (simp add: vma_ok_def)
  have "vma_shape v" using assms(1) by (simp add: vma_ok_def)
  moreover have "\<not> pending_at ctxs (fence v) (fctx v) (fence_mask v) i" for i
    using assms(2) vma_okD(8) [OF assms(1), of i] by (metis pin_hold.simps)
  ultimately show "\<not> pending ctxs v" by (simp add: pending_iff)
qed

lemma vma_ok_zero: "nh (vma_hold a) H = 0 \<Longrightarrow>
    vma_ok ctxs H pg a (zero_vma\<lparr>node_start := s, node_size := n, iova := o', mapped := False\<rparr>)"
  by (auto simp: vma_ok_def vma_shape_def mask_ok_def zero_vma_def pending_def list_ex_iff pending_at_def)

lemma vma_ok_map:
  assumes "vma_ok ctxs H True a v" "vma_hold a h" "msm_gem_map_vma ret as v sz = (r, as', v')"
  shows "vma_ok ctxs (if r = 0 then add_mset h H else H) True a v'" "as' = None \<longleftrightarrow> as = None"
proof -
  have p: "pending ctxs (v\<lparr>inuse := n, mapped := m\<rparr>) = pending ctxs v" "pending ctxs (v\<lparr>inuse := n\<rparr>) = pending ctxs v"
      "pending ctxs (v\<lparr>mapped := m, inuse := n\<rparr>) = pending ctxs v" for n m
    by (simp_all add: pending_def)
  show "vma_ok ctxs (if r = 0 then add_mset h H else H) True a v'" "as' = None \<longleftrightarrow> as = None"
    using assms
    by (auto simp: msm_gem_map_vma_def vma_ok_def vma_shape_def Let_def p
        split: if_splits option.splits)
qed

lemma vma_ok_unpin:
  assumes "vma_ok ctxs H pg a v" "h \<in># H" "vma_hold a h"
  shows "vma_ok ctxs (H - {#h#}) pg a (msm_gem_unpin_vma v)"
proof -
  note pos = vma_ok_pinned [OF assms]
  then have u: "msm_gem_unpin_vma v = v\<lparr>inuse := inuse v - 1\<rparr>" by (simp add: msm_gem_unpin_vma_def)
  have p: "pending ctxs (v\<lparr>inuse := n\<rparr>) = pending ctxs v" for n by (simp add: pending_def)
  have run: "H_Run a i s \<in># H - {#h#}" if "H_Run a i s \<in># H" for i s
    using that assms(3) by (auto simp: in_diff_count vma_hold_def)
  show ?thesis
    using assms(1,3) pos run unfolding u by (auto simp: vma_ok_def vma_shape_def nh_diff [OF assms(2)] p)
qed

text \<open>The pin of a submission becomes its fence.\<close>

lemma vma_ok_unpin_fenced:
  assumes "vma_ok ctxs H pg a v" "H_Sub a \<in># H" "i < MAX_RINGS" "fc_index (ctxs i) = i"
  shows "\<exists>v'. msm_gem_unpin_vma_fenced v (ctxs i) = Some v' \<and>
    vma_ok ctxs (add_mset (H_Run a i (last_fence (ctxs i))) (H - {#H_Sub a#})) pg a v'"
proof -
  let ?f = "last_fence (ctxs i)"
  let ?v = "v\<lparr>fctx := (fctx v)[i := Some i], fence := (fence v)[i := ?f], fence_mask := fence_mask v OR BIT32 i,
    inuse := inuse v - 1\<rparr>"
  have h: "vma_hold a (H_Sub a)" by simp
  note pos = vma_ok_pinned(1) [OF assms(1,2) h] and m = vma_ok_pinned(2-4) [OF assms(1,2) h]
  have len: "length (fctx v) = MAX_RINGS" "length (fence v) = MAX_RINGS" using assms(1)
    by (auto simp: vma_ok_def vma_shape_def)
  have i32: "i < 32" using assms(3) by (simp add: MAX_RINGS_def)
  have v': "msm_gem_unpin_vma_fenced v (ctxs i) = Some ?v"
    using assms(3,4) len pos m(2)
    by (simp add: msm_gem_unpin_vma_fenced_def Let_def arr_set_def msm_gem_unpin_vma_def)
  have run: "H_Run a j s \<in># H - {#H_Sub a#}" if "H_Run a j s \<in># H" for j s
    using that by (auto simp: in_diff_count)
  have bits: "bit (fence_mask v OR BIT32 i) j \<longleftrightarrow> bit (fence_mask v) j \<or> j = i" for j by (rule bit_set [OF i32])
  have sh: "vma_shape ?v" using assms(1,3) len by (auto simp: vma_ok_def vma_shape_def mask_ok_def bits nth_list_update)
  have at: "pending_at ctxs (fence ?v) (fctx ?v) (fence_mask ?v) j \<Longrightarrow>
      j = i \<or> pending_at ctxs (fence v) (fctx v) (fence_mask v) j" for j
    using assms(3) len by (auto simp: pending_at_def bits nth_list_update)
  have "H_Run a (the (fctx ?v ! j)) (fence ?v ! j) \<in># add_mset (H_Run a i ?f) (H - {#H_Sub a#})"
    if "pending_at ctxs (fence ?v) (fctx ?v) (fence_mask ?v) j" for j
  proof (cases "j = i")
    case True
    then show ?thesis using assms(3) len by simp
  next
    case False
    then have "pending_at ctxs (fence v) (fctx v) (fence_mask v) j" using at [OF that] by blast
    then have "H_Run a (the (fctx v ! j)) (fence v ! j) \<in># H" using assms(1) by (simp add: vma_ok_def)
    with run False show ?thesis by simp
  qed
  then have "vma_ok ctxs (add_mset (H_Run a i ?f) (H - {#H_Sub a#})) pg a ?v"
    using assms(1) sh m unfolding vma_ok_def by (simp add: nh_diff [OF assms(2)])
  with v' show ?thesis by blast
qed

text \<open>Unmapping and closing an idle mapping.\<close>

lemma vma_ok_purge:
  assumes "vma_ok ctxs H pg a v" "inuse v = 0" "\<not> pending ctxs v"
  shows "\<exists>as' v'. msm_gem_purge_vma ctxs as v = Some (as', v') \<and> vma_ok ctxs H pg' a v' \<and> inuse v' = 0 \<and>
    \<not> pending ctxs v' \<and> \<not> mapped v'"
proof -
  obtain m where m: "msm_gem_vma_inuse ctxs v = Some (0 < inuse v \<or> pending ctxs v, v\<lparr>fence_mask := m\<rparr>)"
    "vma_ok ctxs H pg a (v\<lparr>fence_mask := m\<rparr>)" "pending ctxs (v\<lparr>fence_mask := m\<rparr>) = pending ctxs v"
    by (rule vma_ok_inuse [OF assms(1)])
  define u where "u = v\<lparr>fence_mask := m\<rparr>"
  have u: "vma_ok ctxs H pg a u" "inuse u = 0" "\<not> pending ctxs u" using m assms by (simp_all add: u_def)
  have p: "\<exists>as'. msm_gem_purge_vma ctxs as v = Some (as', if mapped u then u\<lparr>mapped := False\<rparr> else u)"
    using m(1) by (simp add: msm_gem_purge_vma_def Let_def u_def [symmetric])
  have "vma_ok ctxs H pg' a (u\<lparr>mapped := False\<rparr>)" "\<not> pending ctxs (u\<lparr>mapped := False\<rparr>)"
    using u by (auto simp: vma_ok_def vma_shape_def pending_fields)
  moreover have "vma_ok ctxs H pg' a u" if "\<not> mapped u" using u that by (auto simp: vma_ok_def)
  ultimately show ?thesis using p u by auto
qed

lemma vma_ok_close:
  assumes "vma_ok ctxs H pg a v" "inuse v = 0" "\<not> pending ctxs v" "\<not> mapped v"
  shows "\<exists>as' v'. msm_gem_close_vma ctxs as v = Some (as', v') \<and> vma_ok ctxs H pg a v' \<and> \<not> mapped v'"
proof -
  obtain m where m: "msm_gem_vma_inuse ctxs v = Some (0 < inuse v \<or> pending ctxs v, v\<lparr>fence_mask := m\<rparr>)"
    "vma_ok ctxs H pg a (v\<lparr>fence_mask := m\<rparr>)" "pending ctxs (v\<lparr>fence_mask := m\<rparr>) = pending ctxs v"
    by (rule vma_ok_inuse [OF assms(1)])
  define u where "u = v\<lparr>fence_mask := m\<rparr>"
  have "vma_ok ctxs H pg a u" "inuse u = 0" "\<not> pending ctxs u" "\<not> mapped u" using m assms by (simp_all add: u_def)
  then have "vma_ok ctxs H pg a (u\<lparr>iova := 0\<rparr>)" by (auto simp: vma_ok_def vma_shape_def pending_fields)
  with m(1) \<open>\<not> mapped u\<close> show ?thesis by (simp add: msm_gem_close_vma_def Let_def u_def)
qed

lemma vma_ok_clear:
  assumes "vma_ok ctxs H pg a v"
  shows "\<exists>ret as' v'. clear_iova ctxs as v = Some (ret, as', v') \<and>
    (ret = 0 \<longrightarrow> nh (vma_hold a) H = 0) \<and> (ret \<noteq> 0 \<longrightarrow> ret = - EBUSY \<and> vma_ok ctxs H pg a v')"
proof -
  obtain m where m: "msm_gem_vma_inuse ctxs v = Some (0 < inuse v \<or> pending ctxs v, v\<lparr>fence_mask := m\<rparr>)"
    "vma_ok ctxs H pg a (v\<lparr>fence_mask := m\<rparr>)" "pending ctxs (v\<lparr>fence_mask := m\<rparr>) = pending ctxs v"
    by (rule vma_ok_inuse [OF assms])
  show ?thesis
  proof (cases "0 < inuse v \<or> pending ctxs v")
    case True
    with m show ?thesis by (simp add: clear_iova_def)
  next
    case False
    have n: "nh (vma_hold a) H = 0" "inuse v = 0"
      using assms False nh_simps(3) [of "vma_hold a" H] by (auto simp: vma_ok_def)
    then have "inuse (v\<lparr>fence_mask := m\<rparr>) = 0" by simp
    from vma_ok_purge [OF m(2) this, of as pg] m(3) False obtain as1 v1 where
      p: "msm_gem_purge_vma ctxs as (v\<lparr>fence_mask := m\<rparr>) = Some (as1, v1)" "vma_ok ctxs H pg a v1" "inuse v1 = 0"
        "\<not> pending ctxs v1" "\<not> mapped v1" by auto
    from vma_ok_close [OF p(2-5), of as1] obtain as2 v2 where "msm_gem_close_vma ctxs as1 v1 = Some (as2, v2)" by blast
    with False m(1) p(1) n(1) show ?thesis by (simp add: clear_iova_def)
  qed
qed

section \<open>The mappings of an object\<close>

lemma vma_split:
  assumes "map_of xs a = Some v"
  obtains ys zs where "xs = ys @ (a, v) # zs" "a \<notin> fst ` set ys" "set_vma a v' xs = ys @ (a, v') # zs"
    "del_vma a xs = ys @ zs"
  using assms
proof (induction xs arbitrary: thesis)
  case Nil
  then show ?case by simp
next
  case (Cons p xs)
  obtain c u where p: "p = (c, u)" by fastforce
  show ?case
  proof (cases "c = a")
    case True
    with Cons.prems p show ?thesis by (intro Cons.prems(1) [of "[]" xs]) auto
  next
    case False
    with Cons.prems(2) p have "map_of xs a = Some v" by simp
    then obtain ys zs where "xs = ys @ (a, v) # zs" "a \<notin> fst ` set ys" "set_vma a v' xs = ys @ (a, v') # zs"
      "del_vma a xs = ys @ zs" using Cons.IH by blast
    with False p show ?thesis by (intro Cons.prems(1) [of "p # ys" zs]) auto
  qed
qed

lemma set_vma_props:
  assumes "map_of xs a = Some v" "distinct (map fst xs)"
  shows "map fst (set_vma a v' xs) = map fst xs"
    "p \<in> set (set_vma a v' xs) \<longleftrightarrow> p = (a, v') \<or> p \<in> set xs \<and> fst p \<noteq> a" "map_of (set_vma a v' xs) a = Some v'"
    "distinct (map fst (del_vma a xs))" "p \<in> set (del_vma a xs) \<longleftrightarrow> p \<in> set xs \<and> fst p \<noteq> a"
proof -
  obtain ys zs where s: "xs = ys @ (a, v) # zs" "a \<notin> fst ` set ys" "set_vma a v' xs = ys @ (a, v') # zs"
    "del_vma a xs = ys @ zs" by (rule vma_split [OF assms(1)])
  have z: "a \<notin> fst ` set zs" using assms(2) s(1) by auto
  show "map fst (set_vma a v' xs) = map fst xs" "distinct (map fst (del_vma a xs))"
    using assms(2) s by auto
  show "p \<in> set (set_vma a v' xs) \<longleftrightarrow> p = (a, v') \<or> p \<in> set xs \<and> fst p \<noteq> a"
    "p \<in> set (del_vma a xs) \<longleftrightarrow> p \<in> set xs \<and> fst p \<noteq> a"
    using s z by (auto simp: rev_image_eqI)
  show "map_of (set_vma a v' xs) a = Some v'" using s(2,3) by (simp add: map_add_def map_of_eq_None_iff [symmetric])
qed

lemma obj_okD:
  assumes "obj_ok ctxs H x"
  shows "pin_count x = nh pin_hold H" "active_count x = nh gpu_hold H" "distinct (map fst (vmas x))"
    "p \<in> set (vmas x) \<Longrightarrow> \<exists>a. fst p = Some a \<and> vma_ok ctxs H (pages x) a (snd p)"
    "(Some a, v) \<in> set (vmas x) \<Longrightarrow> vma_ok ctxs H (pages x) a v"
    "lookup_vma x (Some a) = Some v \<Longrightarrow> vma_ok ctxs H (pages x) a v"
    "h \<in># H \<Longrightarrow> vma_hold a h \<Longrightarrow> Some a \<in> fst ` set (vmas x)"
    "sgt x \<Longrightarrow> pages x" "0 < pin_count x \<Longrightarrow> pages x" "madv x \<in> {0, 1, 2}" "madv x = 2 \<Longrightarrow> \<not> pages x"
    "import_attach x \<Longrightarrow> pages x" "\<not> vram_node x"
  using assms by (auto simp: obj_ok_def lookup_vma_def dest: map_of_SomeD)

lemma obj_ok_lookup:
  assumes "obj_ok ctxs H x" "h \<in># H" "vma_hold a h"
  obtains v where "lookup_vma x (Some a) = Some v" "vma_ok ctxs H (pages x) a v"
proof -
  have "map_of (vmas x) (Some a) \<noteq> None" using obj_okD(7) [OF assms] by (simp add: map_of_eq_None_iff)
  then obtain v where "lookup_vma x (Some a) = Some v" by (auto simp: lookup_vma_def)
  with that obj_okD(6) [OF assms(1) this] show ?thesis by blast
qed

lemma hold_exists: "nh P H' = nh P H \<Longrightarrow> h \<in># H' \<Longrightarrow> P h \<Longrightarrow> \<exists>h' \<in># H. P h'"
  by (metis nh_pos)

text \<open>Objects that agree on what the invariant looks at, under holders that matter to no mapping.\<close>

definition obj_view :: "msm_gem_object \<Rightarrow> _" where
  "obj_view x = (pages x, sgt x, madv x, import_attach x, vram_node x)"

lemma obj_ok_holds:
  assumes "obj_ok ctxs H x" "obj_view y = obj_view x" "vmas y = vmas x"
    and "pin_count y = nh pin_hold H'" "active_count y = nh gpu_hold H'"
    and "\<And>a. nh (vma_hold a) H' = nh (vma_hold a) H"
    and "\<And>a i s. H_Run a i s \<in># H \<Longrightarrow> \<not> msm_fence_completed (ctxs i) s \<Longrightarrow> H_Run a i s \<in># H'"
    and "0 < pin_count y \<Longrightarrow> pages x"
  shows "obj_ok ctxs H' y"
proof -
  have "\<exists>a. fst p = Some a \<and> vma_ok ctxs H' (pages x) a (snd p)" if "p \<in> set (vmas x)" for p
    using obj_okD(4) [OF assms(1) that] assms(6,7) vma_ok_holds by blast
  moreover have "Some a \<in> fst ` set (vmas x)" if "h \<in># H'" "vma_hold a h" for h a
    using hold_exists [OF assms(6) that] obj_okD(7) [OF assms(1)] by blast
  ultimately show ?thesis
    using assms(2-5,8) obj_okD(3,8,10-13) [OF assms(1)] unfolding obj_ok_def by (simp add: obj_view_def)
qed

text \<open>The same when one mapping changes.\<close>

lemma obj_ok_vma:
  assumes "obj_ok ctxs H x" "obj_view y = obj_view x" "vmas y = set_vma (Some a) v' (vmas x)"
    and "lookup_vma x (Some a) = Some v" "vma_ok ctxs H' (pages x) a v'"
    and "pin_count y = nh pin_hold H'" "active_count y = nh gpu_hold H'"
    and "\<And>c. c \<noteq> a \<Longrightarrow> nh (vma_hold c) H' = nh (vma_hold c) H"
    and "\<And>c i s. c \<noteq> a \<Longrightarrow> H_Run c i s \<in># H \<Longrightarrow> H_Run c i s \<in># H'"
    and "0 < pin_count y \<Longrightarrow> pages x"
  shows "obj_ok ctxs H' y"
proof -
  have m: "map_of (vmas x) (Some a) = Some v" using assms(4) by (simp add: lookup_vma_def)
  note set = set_vma_props [OF m obj_okD(3) [OF assms(1)]]
  have "\<exists>c. fst p = Some c \<and> vma_ok ctxs H' (pages x) c (snd p)" if p: "p \<in> set (set_vma (Some a) v' (vmas x))" for p
  proof (cases "p = (Some a, v')")
    case True
    with assms(5) show ?thesis by simp
  next
    case False
    with p have "p \<in> set (vmas x)" "fst p \<noteq> Some a" by (simp_all add: set(2))
    with obj_okD(4) [OF assms(1)] obtain c where "fst p = Some c" "c \<noteq> a" "vma_ok ctxs H (pages x) c (snd p)" by fastforce
    then show ?thesis using vma_ok_holds [of ctxs H "pages x" c "snd p" H'] assms(8,9) by blast
  qed
  moreover have "Some c \<in> fst ` set (set_vma (Some a) v' (vmas x))" if h: "h \<in># H'" "vma_hold c h" for h c
  proof -
    have "fst ` set (set_vma (Some a) v' (vmas x)) = fst ` set (vmas x)"
      by (metis set(1) list.set_map)
    moreover have "Some a \<in> fst ` set (vmas x)" using m by (force dest: map_of_SomeD)
    moreover have "Some c \<in> fst ` set (vmas x)" if "c \<noteq> a"
      using hold_exists [OF assms(8) [OF that] h] obj_okD(7) [OF assms(1)] by blast
    ultimately show ?thesis by metis
  qed
  moreover have "distinct (map fst (set_vma (Some a) v' (vmas x)))" using obj_okD(3) [OF assms(1)] by (simp add: set(1))
  ultimately show ?thesis
    using assms(2,3,6,7,10) obj_okD(8,10-13) [OF assms(1)] unfolding obj_ok_def by (simp add: obj_view_def)
qed

section \<open>Changing a good object\<close>

lemma good_spaces [simp]: "good b k H (g\<lparr>spaces := sp\<rparr>) = good b k H g"
  by (simp add: good_def)

lemma upd_obj_upd_obj [simp]: "upd_obj b f (upd_obj b h g) = upd_obj b (\<lambda>x. f (h x)) g"
  by (simp add: upd_obj_def)

lemma goodD:
  assumes "good b k H g"
  shows "b \<in> set (objects g)" "mm_struct g k" "class_ok (gem_objs g b)" "obj_ok (fence_ctxs g) H (gem_objs g b)"
  using assms by (auto simp: good_def)

lemma class_ok_cong:
  assumes "mm_node y = mm_node x" "active_count y = active_count x" "madv y = madv x" "sgt y = sgt x"
    and "import_attach y = import_attach x" "pin_count y = pin_count x" "dontneed y = dontneed x"
  shows "class_ok y = class_ok x"
  unfolding class_ok_def is_unpurgeable_def assms ..

lemma class_okD:
  assumes "class_ok x"
  obtains l where "mm_node x = On l" "(active_count x \<noteq> 0) = (lru_of l = Active)"
    "lru_of l = Willneed \<longrightarrow> madv x = 0 \<and> sgt x" "lru_of l = Dontneed \<longrightarrow> madv x = 1"
    "lru_of l = Unpinned \<longrightarrow> madv x = 2 \<or> madv x = 0 \<and> (\<not> sgt x \<or> import_attach x)"
    "dontneed x \<longrightarrow> madv x = 1 \<and> \<not> is_unpurgeable x"
  using assms unfolding class_ok_def by metis

lemma class_ok_dontneed: "class_ok x \<Longrightarrow> dontneed x \<Longrightarrow> madv x = 1 \<and> \<not> import_attach x \<and> pin_count x = 0"
  by (auto simp: class_ok_def is_unpurgeable_def)

text \<open>The class of an active object does not depend on its advice and pages.\<close>

lemma class_ok_active:
  assumes "class_ok x" "active_count x \<noteq> 0" "active_count y \<noteq> 0" "mm_node y = mm_node x" "\<not> dontneed y"
  shows "class_ok y"
  using assms by (auto simp: class_ok_def)

lemma good_upd:
  assumes "good b k H g" "mm_view (f (gem_objs g b)) = mm_view (gem_objs g b)" "class_ok (f (gem_objs g b))"
    and "obj_ok (fence_ctxs g) H' (f (gem_objs g b))"
  shows "good b k H' (upd_obj b f g)" "same_else b g (upd_obj b f g)"
  using assms mm_struct_upd [of g k f b] by (auto simp: good_def)

lemma good_update:
  assumes "good b k H g" "mm_view (f (gem_objs g b)) = mm_view (gem_objs g b)"
    and "obj_ok (fence_ctxs g) H' (f (gem_objs g b))" "dontneed (gem_objs g b) \<Longrightarrow> \<not> is_unpurgeable (f (gem_objs g b))"
    and "active_count (f (gem_objs g b)) \<noteq> 0 \<Longrightarrow> class_ok (f (gem_objs g b))"
  shows "\<exists>g'. update_inactive b (upd_obj b f g) = Some g' \<and> good b k H' g' \<and> same_else b g g' \<and>
    mm_same (f (gem_objs g b)) (gem_objs g' b)"
proof -
  let ?g = "upd_obj b f g"
  obtain l where "mm_node (gem_objs g b) = On l" using class_okD [OF goodD(3) [OF assms(1)]] .
  with assms(2) have l: "mm_node (gem_objs ?g b) = On l" by (simp add: mm_view_def)
  have s: "mm_struct ?g k" using goodD(2) [OF assms(1)] assms(2) by (rule mm_struct_upd)
  have b: "b \<in> set (objects ?g)" using goodD(1) [OF assms(1)] by simp
  have d: "dontneed (gem_objs ?g b) \<longrightarrow> \<not> is_unpurgeable (gem_objs ?g b)"
    using assms(2,4) by (simp add: mm_view_def)
  have o: "obj_ok (fence_ctxs ?g) H' (gem_objs ?g b)" using assms(3) by simp
  from update_inactive_good [OF s b l o d] assms(5) show ?thesis by auto
qed

section \<open>Pages\<close>

text \<open>
  When the scatter table cannot be built the object keeps its pages without a table, and the next
  attempt finds the pages and succeeds.
\<close>

lemma get_pages_good:
  assumes "good b k H g" "madv (gem_objs g b) = 0 \<or> pages (gem_objs g b)"
  obtains ret g' where "get_pages pe b g = Some (ret, g')" "good b k H g'" "same_else b g g'"
    "mm_same ((gem_objs g b)\<lparr>pages := pages (gem_objs g' b), sgt := sgt (gem_objs g' b)\<rparr>) (gem_objs g' b)"
    "ret = 0 \<longrightarrow> pages (gem_objs g' b) \<and> (sgt (gem_objs g' b) \<or> pages (gem_objs g b) \<and> \<not> sgt (gem_objs g b))"
proof -
  define x where "x = gem_objs g b"
  note ok = obj_okD [OF goodD(4) [OF assms(1)], folded x_def]
  have here: "x\<lparr>pages := pages x\<rparr> = x" by simp
  consider (there) "pages x" | (fail) "\<not> pages x" "pe_shmem pe \<noteq> 0" | (new) "\<not> pages x" "pe_shmem pe = 0" by blast
  then show thesis
  proof cases
    case there
    with here have e: "x\<lparr>pages := True\<rparr> = x" by simp
    have "mm_same (x\<lparr>pages := True\<rparr>) x" unfolding e by simp
    with there show thesis using assms(1)
      by (intro that [of 0 g]) (auto simp: get_pages_def x_def)
  next
    case fail
    with here have e: "x\<lparr>pages := False\<rparr> = x" by simp
    have "mm_same (x\<lparr>pages := False\<rparr>) x" unfolding e by simp
    with fail show thesis using assms(1) ok(13)
      by (intro that [of "pe_shmem pe" g]) (auto simp: get_pages_def x_def [symmetric])
  next
    case new
    let ?f = "\<lambda>q x. x\<lparr>pages := True, sgt := q\<rparr>"
    have m: "madv x = 0" using assms(2) new(1) by (simp add: x_def)
    have p0: "\<forall>h \<in># H. \<not> pin_hold h" using ok(1,9) new(1) nh_pos [of pin_hold H] by auto
    have view: "mm_view (?f q (gem_objs g b)) = mm_view (gem_objs g b)" for q by (simp add: mm_view_def)
    have d: "\<not> dontneed x" using class_ok_dontneed [OF goodD(3) [OF assms(1)], folded x_def] m by auto
    have "\<exists>a. fst p = Some a \<and> vma_ok (fence_ctxs g) H True a (snd p)" if "p \<in> set (vmas x)" for p
      using ok(4) [OF that] vma_ok_pages by blast
    then have o: "obj_ok (fence_ctxs g) H (?f q x)" for q
      using goodD(4) [OF assms(1)] m unfolding x_def [symmetric] by (simp add: obj_ok_def)
    have c: "class_ok (?f q x)" if "active_count (?f q x) \<noteq> 0" for q
      by (rule class_ok_active [OF goodD(3) [OF assms(1)], folded x_def]) (use that d in auto)
    show thesis
    proof (cases "pe_sg pe = 0")
      case True
      obtain g' where g': "update_inactive b (upd_obj b (?f True) g) = Some g'" "good b k H g'" "same_else b g g'"
        "mm_same (?f True x) (gem_objs g' b)"
        using good_update [OF assms(1), of "?f True" H] view o d c unfolding x_def [symmetric] by blast
      have "get_pages pe b g = Some (0, g')"
        using new ok(13) g'(1) True by (simp add: get_pages_def x_def [symmetric])
      moreover have "pages (gem_objs g' b)" "sgt (gem_objs g' b)" using mm_sameD(5,6) [OF g'(4)] by simp_all
      ultimately show thesis using g' by (intro that [of 0 g']) (auto simp: x_def [symmetric])
    next
      case False
      have s: "\<not> sgt x" using ok(8) new(1) by blast
      let ?g = "upd_obj b (?f False) g"
      have "class_ok (?f False x) = class_ok x" by (rule class_ok_cong) (simp_all add: s)
      then have c: "class_ok (?f False x)" using goodD(3) [OF assms(1)] by (simp add: x_def)
      have "get_pages pe b g = Some (pe_sg pe, ?g)"
        using new ok(13) False by (simp add: get_pages_def x_def [symmetric])
      then show thesis
        using False good_upd [OF assms(1), of "?f False" H] view o c unfolding x_def [symmetric]
        by (intro that [of "pe_sg pe" ?g]) (simp_all add: x_def)
    qed
  qed
qed

text \<open>Two states of an object that differ in what the lists and the pages say.\<close>

lemma pages_sameD:
  assumes "mm_same (x\<lparr>pages := q, sgt := q'\<rparr>) y"
  shows "vmas y = vmas x" "pin_count y = pin_count x" "active_count y = active_count x" "madv y = madv x"
    "import_attach y = import_attach x" "vmap_count y = vmap_count x" "vaddr y = vaddr x" "obj_size y = obj_size x"
  using mm_sameD [OF assms] by simp_all

lemma lookup_cong: "vmas y = vmas x \<Longrightarrow> lookup_vma y = lookup_vma x"
  by (simp add: lookup_vma_def fun_eq_iff)

lemma msm_gem_get_pages_good:
  assumes "good b k H g"
  shows "\<exists>ret g'. msm_gem_get_pages pe b g = Some (ret, g') \<and> same_else b g g' \<and>
    good b k (if ret = 0 then add_mset H_Pages H else H) g'"
proof (cases "madv (gem_objs g b) = 0")
  case False
  with assms show ?thesis by (simp add: msm_gem_get_pages_def madv_defs)
next
  case True
  then have "madv (gem_objs g b) = 0 \<or> pages (gem_objs g b)" by simp
  from get_pages_good [OF assms this, of pe] obtain ret g1 where
    g1: "get_pages pe b g = Some (ret, g1)" "good b k H g1" "same_else b g g1"
      "mm_same ((gem_objs g b)\<lparr>pages := pages (gem_objs g1 b), sgt := sgt (gem_objs g1 b)\<rparr>) (gem_objs g1 b)"
      "ret = 0 \<longrightarrow> pages (gem_objs g1 b)" by blast
  show ?thesis
  proof (cases "ret = 0")
    case False
    with g1 True show ?thesis by (simp add: msm_gem_get_pages_def madv_defs)
  next
    case ret: True
    define x where "x = gem_objs g1 b"
    let ?f = "\<lambda>x. x\<lparr>pin_count := pin_count x + 1\<rparr>"
    have m: "madv x = 0" using pages_sameD(4) [OF g1(4)] True by (simp add: x_def)
    have d: "\<not> dontneed x" using class_ok_dontneed [OF goodD(3) [OF g1(2)], folded x_def] m by auto
    note ok = obj_okD [OF goodD(4) [OF g1(2)], folded x_def]
    have o: "obj_ok (fence_ctxs g1) (add_mset H_Pages H) (?f x)"
      by (rule obj_ok_holds [OF goodD(4) [OF g1(2)], folded x_def])
        (use ok(1,2) g1(5) ret in \<open>auto simp: obj_view_def x_def\<close>)
    have c: "class_ok (?f x)" if "active_count (?f x) \<noteq> 0"
      by (rule class_ok_active [OF goodD(3) [OF g1(2)], folded x_def]) (use that d in auto)
    have view: "mm_view (?f (gem_objs g1 b)) = mm_view (gem_objs g1 b)" by (simp add: mm_view_def)
    obtain g' where "update_inactive b (upd_obj b ?f g1) = Some g'" "good b k (add_mset H_Pages H) g'" "same_else b g1 g'"
      using good_update [OF g1(2), of ?f "add_mset H_Pages H"] view o d c unfolding x_def [symmetric] by blast
    with g1(1,3) True ret show ?thesis
      by (auto simp: msm_gem_get_pages_def madv_defs intro: same_else_trans)
  qed
qed

text \<open>Dropping a pin, when the holders of the mappings stay.\<close>

lemma unpin_good:
  assumes "good b k H g" "nh pin_hold H' = nh pin_hold H - 1" "nh gpu_hold H' = nh gpu_hold H"
    and "\<And>a. nh (vma_hold a) H' = nh (vma_hold a) H"
    and "\<And>a i s. H_Run a i s \<in># H \<Longrightarrow> \<not> msm_fence_completed (fence_ctxs g i) s \<Longrightarrow> H_Run a i s \<in># H'"
    and "0 < nh pin_hold H"
  shows "\<exists>g'. update_inactive b (upd_obj b (\<lambda>x. x\<lparr>pin_count := pin_count x - 1\<rparr>) g) = Some g' \<and> good b k H' g' \<and>
    same_else b g g' \<and> vmas (gem_objs g' b) = vmas (gem_objs g b)"
proof -
  define x where "x = gem_objs g b"
  let ?f = "\<lambda>x. x\<lparr>pin_count := pin_count x - 1\<rparr>"
  note ok = obj_okD [OF goodD(4) [OF assms(1)], folded x_def]
  have d: "\<not> dontneed x" using class_ok_dontneed [OF goodD(3) [OF assms(1)], folded x_def] ok(1) assms(6) by auto
  have o: "obj_ok (fence_ctxs g) H' (?f x)"
    by (rule obj_ok_holds [OF goodD(4) [OF assms(1)], folded x_def])
      (use ok(1,2,9) assms(2-6) in \<open>auto simp: obj_view_def\<close>)
  have c: "class_ok (?f x)" if "active_count (?f x) \<noteq> 0"
    by (rule class_ok_active [OF goodD(3) [OF assms(1)], folded x_def]) (use that d in auto)
  have view: "mm_view (?f (gem_objs g b)) = mm_view (gem_objs g b)" by (simp add: mm_view_def)
  obtain g' where "update_inactive b (upd_obj b ?f g) = Some g'" "good b k H' g'" "same_else b g g'"
    "mm_same (?f x) (gem_objs g' b)"
    using good_update [OF assms(1), of ?f H'] view o d c unfolding x_def [symmetric] by blast
  then show ?thesis using mm_sameD(8) by (fastforce simp: x_def)
qed

lemma msm_gem_put_pages_good:
  assumes "good b k H g" "H_Pages \<in># H"
  shows "\<exists>g'. msm_gem_put_pages b g = Some g' \<and> same_else b g g' \<and> good b k (H - {#H_Pages#}) g'"
proof -
  have "H_Run a i s \<in># H - {#H_Pages#}" if "H_Run a i s \<in># H" for a i s using that by (auto simp: in_diff_count)
  moreover have "0 < nh pin_hold H" using assms(2) by (auto simp: nh_pos intro: bexI [of _ H_Pages])
  ultimately show ?thesis
    using unpin_good [OF assms(1), of "H - {#H_Pages#}"] assms(2) by (auto simp: msm_gem_put_pages_def nh_diff)
qed

lemma msm_gem_fault_good:
  assumes "good b k H g" "pgoff < npages (gem_objs g b)"
  shows "\<exists>ret g'. msm_gem_fault err pe pgoff b g = Some (ret, g') \<and> same_else b g g' \<and> good b k H g'"
proof (cases "err \<noteq> 0 \<or> madv (gem_objs g b) \<noteq> 0")
  case True
  with assms(1) show ?thesis by (auto simp: msm_gem_fault_def madv_defs)
next
  case False
  then have "madv (gem_objs g b) = 0 \<or> pages (gem_objs g b)" by simp
  from get_pages_good [OF assms(1) this, of pe] obtain ret g1 where
    g1: "get_pages pe b g = Some (ret, g1)" "good b k H g1" "same_else b g g1"
      "mm_same ((gem_objs g b)\<lparr>pages := pages (gem_objs g1 b), sgt := sgt (gem_objs g1 b)\<rparr>) (gem_objs g1 b)" by blast
  then show ?thesis using False assms(2) pages_sameD(8) [OF g1(4)]
    by (simp add: msm_gem_fault_def madv_defs npages_def)
qed

section \<open>Addresses\<close>

lemma upd_obj_spaces [simp]: "(upd_obj b f g)\<lparr>spaces := sp\<rparr> = upd_obj b f (g\<lparr>spaces := sp\<rparr>)"
  by (simp add: upd_obj_def)

lemma vma_list_end:
  assumes "a \<notin> fst ` set xs"
  shows "del_vma a (xs @ [(a, u)]) = xs" "set_vma a v (xs @ [(a, u)]) = xs @ [(a, v)]"
  using assms by (induction xs) auto

lemma lookup_None: "lookup_vma x a = None \<longleftrightarrow> a \<notin> fst ` set (vmas x)"
  by (simp add: lookup_vma_def map_of_eq_None_iff)

text \<open>Changing only the mappings of an object.\<close>

lemma good_vmas:
  assumes "good b k H g" "obj_ok (fence_ctxs g) H' ((gem_objs g b)\<lparr>vmas := f (vmas (gem_objs g b))\<rparr>)"
  shows "good b k H' (upd_vmas b f g)"
proof -
  have "class_ok ((gem_objs g b)\<lparr>vmas := f (vmas (gem_objs g b))\<rparr>) = class_ok (gem_objs g b)"
    by (rule class_ok_cong) simp_all
  with goodD(3) [OF assms(1)] have "class_ok ((gem_objs g b)\<lparr>vmas := f (vmas (gem_objs g b))\<rparr>)" by simp
  then show ?thesis
    using good_upd(1) [OF assms(1), of "\<lambda>x. x\<lparr>vmas := f (vmas x)\<rparr>" H'] assms(2) by (simp add: mm_view_def upd_vmas_def)
qed

text \<open>Objects whose pages have a scatter table.\<close>

definition backed :: "msm_gem_object \<Rightarrow> bool" where
  "backed x = (pages x \<longrightarrow> sgt x)"

lemma backed_vmas [simp]: "backed (x\<lparr>vmas := xs\<rparr>) = backed x"
  by (simp add: backed_def)

lemma get_vma_good:
  assumes "good b k H g"
  shows "\<exists>ret g'. get_vma_locked mem node (Some a) b g = Some (ret, g') \<and> same_else b g g' \<and> good b k H g' \<and>
    (ret = 0 \<longrightarrow> lookup_vma (gem_objs g' b) (Some a) \<noteq> None) \<and> backed (gem_objs g' b) = backed (gem_objs g b)"
proof (cases "lookup_vma (gem_objs g b) (Some a)")
  case (Some v)
  with assms show ?thesis by (simp add: get_vma_locked_def)
next
  case None
  define x where "x = gem_objs g b"
  let ?xs = "vmas x"
  have a: "Some a \<notin> fst ` set ?xs" using None by (simp add: lookup_None x_def)
  note ok = goodD(4) [OF assms, folded x_def]
  have h0: "nh (vma_hold a) H = 0" using obj_okD(7) [OF ok] a by (auto simp: nh_zero)
  obtain ret as v where i: "msm_gem_init_vma node (spaces g a) zero_vma (word_of_nat (obj_size x)) = (ret, as, v)"
    by (metis prod_cases3)
  have v: "\<exists>s n o'. v = zero_vma\<lparr>node_start := s, node_size := n, iova := o', mapped := False\<rparr>"
    using i by (auto simp: msm_gem_init_vma_def zero_vma_def split: sum.splits)
  show ?thesis
  proof (cases "mem")
    case False
    with None assms show ?thesis by (simp add: get_vma_locked_def add_vma_def)
  next
    case mem: True
    show ?thesis
    proof (cases "ret = 0")
      case True
      let ?g = "upd_vmas b (\<lambda>xs. set_vma (Some a) v (xs @ [(Some a, zero_vma)])) (g\<lparr>spaces := (spaces g)(a := as)\<rparr>)"
      have e: "get_vma_locked mem node (Some a) b g = Some (0, ?g)"
        using None mem i True
        by (simp add: get_vma_locked_def add_vma_def x_def [symmetric] upd_vmas_def)
      have "vma_ok (fence_ctxs g) H (pages x) a v" using v vma_ok_zero [OF h0] by blast
      then have "obj_ok (fence_ctxs g) H (x\<lparr>vmas := ?xs @ [(Some a, v)]\<rparr>)"
        using ok a by (auto simp: obj_ok_def)
      then have "good b k H ?g"
        using assms vma_list_end(2) [OF a] by (intro good_vmas) (simp_all add: x_def)
      moreover have "lookup_vma (gem_objs ?g b) (Some a) \<noteq> None"
        using vma_list_end(2) [OF a] by (simp add: lookup_None x_def)
      ultimately show ?thesis using e by simp
    next
      case False
      let ?g = "upd_vmas b (\<lambda>xs. del_vma (Some a) (xs @ [(Some a, zero_vma)])) g"
      have e: "get_vma_locked mem node (Some a) b g = Some (ret, ?g)"
        using None mem i False
        by (simp add: get_vma_locked_def add_vma_def x_def [symmetric] upd_vmas_def)
      have "x\<lparr>vmas := ?xs\<rparr> = x" by simp
      then have "good b k H ?g"
        using assms vma_list_end(1) [OF a] ok by (intro good_vmas) (simp_all add: x_def)
      with e False show ?thesis by simp
    qed
  qed
qed

text \<open>
  Pinning a mapping for a holder \<open>h\<close>, who may give up another hold for it.  It fails to return only for
  an object that has pages without a scatter table.
\<close>

lemma pin_vma_good:
  assumes "good b k H g" "lookup_vma (gem_objs g b) (Some a) \<noteq> None"
    and "nh pin_hold H' = nh pin_hold H + 1" "nh gpu_hold H' = nh gpu_hold H"
    and "\<And>c. nh (vma_hold c) H' = nh (vma_hold c) H + of_bool (c = a)"
    and "\<And>c i s. H_Run c i s \<in># H \<Longrightarrow> H_Run c i s \<in># H'"
  shows "case msm_gem_pin_vma_locked pe map_ret (Some a) b g of
      None \<Rightarrow> \<not> backed (gem_objs g b)
    | Some (ret, g') \<Rightarrow> same_else b g g' \<and> good b k (if ret = 0 then H' else H) g'"
proof (cases "madv (gem_objs g b) = 0")
  case False
  with assms(1) show ?thesis by (simp add: msm_gem_pin_vma_locked_def madv_defs)
next
  case True
  then have "madv (gem_objs g b) = 0 \<or> pages (gem_objs g b)" by simp
  from get_pages_good [OF assms(1) this, of pe] obtain ret g1 where
    g1: "get_pages pe b g = Some (ret, g1)" "good b k H g1" "same_else b g g1"
      "mm_same ((gem_objs g b)\<lparr>pages := pages (gem_objs g1 b), sgt := sgt (gem_objs g1 b)\<rparr>) (gem_objs g1 b)"
      "ret = 0 \<longrightarrow> pages (gem_objs g1 b) \<and> (sgt (gem_objs g1 b) \<or> \<not> backed (gem_objs g b))"
    unfolding backed_def by metis
  show ?thesis
  proof (cases "ret = 0")
    case False
    with g1 True show ?thesis by (simp add: msm_gem_pin_vma_locked_def madv_defs)
  next
    case ret: True
    define x where "x = gem_objs g1 b"
    note same = pages_sameD [OF g1(4), folded x_def]
    note okx = goodD(4) [OF g1(2), folded x_def] and cx = goodD(3) [OF g1(2), folded x_def]
    have pg: "pages x" using g1(5) ret by (simp add: x_def)
    from assms(2) same(1) obtain v where v: "lookup_vma x (Some a) = Some v" by (auto simp: lookup_vma_def)
    have okv: "vma_ok (fence_ctxs g1) H True a v" using obj_okD(6) [OF okx v] pg by simp
    obtain r as v' where m: "msm_gem_map_vma map_ret (Some (spaces g1 a)) v (word_of_nat (obj_size x)) = (r, as, v')"
      by (metis prod_cases3)
    from vma_ok_map [OF okv _ m, of "H_Iova a"] have
      okv': "vma_ok (fence_ctxs g1) (if r = 0 then add_mset (H_Iova a) H else H) True a v'" by simp
    let ?g = "g1\<lparr>spaces := (spaces g1)(a := the as)\<rparr>"
    let ?null = "iova v \<noteq> 0 \<and> \<not> mapped v \<and> as_mmu (spaces g1 a) \<noteq> None \<and> \<not> sgt x"
    have null: "?thesis" if ?null
      using that g1(1,5) True ret v
      by (simp add: msm_gem_pin_vma_locked_def madv_defs x_def [symmetric])
    have e: "msm_gem_pin_vma_locked pe map_ret (Some a) b g =
        Some (r, if r = 0 then upd_obj b (\<lambda>x. x\<lparr>vmas := set_vma (Some a) v' (vmas x), pin_count := pin_count x + 1\<rparr>) ?g
          else upd_vmas b (set_vma (Some a) v') ?g)" if "\<not> ?null"
      using True g1(1) ret that v m
      by (simp add: msm_gem_pin_vma_locked_def madv_defs x_def [symmetric] upd_vmas_def)
    have g: "good b k H ?g" "same_else b g ?g" using g1(2,3) by simp_all
    show ?thesis
    proof (cases "r = 0")
      case r: True
      let ?f = "\<lambda>x. x\<lparr>vmas := set_vma (Some a) v' (vmas x), pin_count := pin_count x + 1\<rparr>"
      have okv2: "vma_ok (fence_ctxs g1) H' (pages x) a v'"
        using okv' r pg by (auto intro!: vma_ok_holds [of _ "add_mset (H_Iova a) H"] simp: assms(5,6))
      have o: "obj_ok (fence_ctxs g1) H' (?f x)"
        by (rule obj_ok_vma [OF okx _ _ v okv2])
          (use obj_okD(1,2) [OF okx] pg assms(3-6) in \<open>auto simp: obj_view_def\<close>)
      have d: "\<not> dontneed x" using class_ok_dontneed [OF cx] same(4) True by auto
      have "class_ok (?f x)" using cx d same(4) True by (simp add: class_ok_def is_unpurgeable_def)
      then have "good b k H' (upd_obj b ?f ?g)" "same_else b ?g (upd_obj b ?f ?g)"
        using good_upd [OF g(1), of ?f H'] o by (simp_all add: mm_view_def x_def)
      with e null r g(2) show ?thesis by (cases ?null) simp_all
    next
      case False
      have okv2: "vma_ok (fence_ctxs g1) H (pages x) a v'" using okv' False pg by simp
      have "obj_ok (fence_ctxs g1) H (x\<lparr>vmas := set_vma (Some a) v' (vmas x)\<rparr>)"
        by (rule obj_ok_vma [OF okx _ _ v okv2])
          (use obj_okD(1,2,9) [OF okx] in \<open>auto simp: obj_view_def\<close>)
      then have "good b k H (upd_vmas b (set_vma (Some a) v') ?g)"
        using g(1) by (intro good_vmas) (simp_all add: x_def)
      with e null False g(2) show ?thesis by (cases ?null) simp_all
    qed
  qed
qed

lemma add_holds:
  "nh pin_hold (add_mset (H_Iova a) H) = nh pin_hold H + 1" "nh gpu_hold (add_mset (H_Iova a) H) = nh gpu_hold H"
  "nh (vma_hold c) (add_mset (H_Iova a) H) = nh (vma_hold c) H + of_bool (c = a)"
  by simp_all

lemma get_and_pin_good:
  assumes "good b k H g"
  shows "case get_and_pin_iova_range_locked mem node pe map_ret (Some a) b g of
      None \<Rightarrow> \<not> backed (gem_objs g b)
    | Some (ret, v, g') \<Rightarrow> same_else b g g' \<and> good b k (if ret = 0 then add_mset (H_Iova a) H else H) g'"
proof -
  from get_vma_good [OF assms, of mem node a] obtain ret g1 where
    g1: "get_vma_locked mem node (Some a) b g = Some (ret, g1)" "same_else b g g1" "good b k H g1"
      "ret = 0 \<longrightarrow> lookup_vma (gem_objs g1 b) (Some a) \<noteq> None" "backed (gem_objs g1 b) = backed (gem_objs g b)" by blast
  show ?thesis
  proof (cases "ret = 0")
    case False
    with g1 show ?thesis by (simp add: get_and_pin_iova_range_locked_def)
  next
    case True
    then have "lookup_vma (gem_objs g1 b) (Some a) \<noteq> None" using g1(4) by simp
    from pin_vma_good [OF g1(3) this add_holds, of pe map_ret] g1(1,2,5) True show ?thesis
      by (auto simp: get_and_pin_iova_range_locked_def intro: same_else_trans split: option.splits)
  qed
qed

lemma msm_gem_get_iova_good:
  assumes "good b k H g"
  shows "\<exists>ret v g'. msm_gem_get_iova mem node (Some a) b g = Some (ret, v, g') \<and> same_else b g g' \<and> good b k H g'"
  using get_vma_good [OF assms, of mem node a] by (auto simp: msm_gem_get_iova_def)

lemma clear_iova_good:
  assumes "good b k H g"
  shows "\<exists>ret g'. clear_iova_locked (Some a) b g = Some (ret, g') \<and> same_else b g g' \<and> good b k H g'"
proof (cases "lookup_vma (gem_objs g b) (Some a)")
  case None
  with assms show ?thesis by (simp add: clear_iova_locked_def)
next
  case (Some v)
  define x where "x = gem_objs g b"
  note ok = goodD(4) [OF assms, folded x_def] and v = Some [folded x_def]
  from vma_ok_clear [OF obj_okD(6) [OF ok v], of "spaces g a"] obtain ret as v' where
    c: "clear_iova (fence_ctxs g) (spaces g a) v = Some (ret, as, v')" "ret = 0 \<longrightarrow> nh (vma_hold a) H = 0"
      "ret \<noteq> 0 \<longrightarrow> vma_ok (fence_ctxs g) H (pages x) a v'" by blast
  let ?f = "if ret = 0 then del_vma (Some a) else set_vma (Some a) v'"
  have m: "map_of (vmas x) (Some a) = Some v" using v by (simp add: lookup_vma_def)
  note props = set_vma_props [OF m obj_okD(3) [OF ok]]
  have "obj_ok (fence_ctxs g) H (x\<lparr>vmas := ?f (vmas x)\<rparr>)"
  proof (cases "ret = 0")
    case True
    have "Some c \<in> fst ` set (del_vma (Some a) (vmas x))" if h: "h \<in># H" "vma_hold c h" for h c
    proof -
      have "c \<noteq> a" using h c(2) True by (auto simp: nh_zero)
      moreover obtain p where "p \<in> set (vmas x)" "Some c = fst p" using obj_okD(7) [OF ok h] by blast
      ultimately have "p \<in> set (del_vma (Some a) (vmas x))" by (simp add: props(5)) (metis option.inject)
      with \<open>Some c = fst p\<close> show ?thesis by simp
    qed
    moreover have "\<exists>c. fst p = Some c \<and> vma_ok (fence_ctxs g) H (pages x) c (snd p)"
      if "p \<in> set (del_vma (Some a) (vmas x))" for p
      using that by (intro obj_okD(4) [OF ok]) (simp add: props(5))
    ultimately show ?thesis using True ok props(4) unfolding obj_ok_def by (elim conjE) simp
  next
    case False
    then have okv: "vma_ok (fence_ctxs g) H (pages x) a v'" using c(3) by simp
    have "obj_ok (fence_ctxs g) H (x\<lparr>vmas := set_vma (Some a) v' (vmas x)\<rparr>)"
      by (rule obj_ok_vma [OF ok _ _ v okv]) (use obj_okD(1,2,9) [OF ok] in \<open>auto simp: obj_view_def\<close>)
    with False show ?thesis by simp
  qed
  then have "good b k H (upd_vmas b ?f (g\<lparr>spaces := (spaces g)(a := as)\<rparr>))"
    using assms by (intro good_vmas) (simp_all add: x_def)
  with v c(1) show ?thesis by (simp add: clear_iova_locked_def x_def)
qed

lemma msm_gem_set_iova_good:
  assumes "good b k H g"
  shows "\<exists>ret g'. msm_gem_set_iova mem node (Some a) v b g = Some (ret, g') \<and> same_else b g g' \<and> good b k H g'"
proof (cases "v = 0")
  case True
  with clear_iova_good [OF assms] show ?thesis by (simp add: msm_gem_set_iova_def)
next
  case False
  from get_vma_good [OF assms, of mem node a] obtain ret g1 where
    g1: "get_vma_locked mem node (Some a) b g = Some (ret, g1)" "same_else b g g1" "good b k H g1" by blast
  from clear_iova_good [OF g1(3), of a] obtain r g2 where
    "clear_iova_locked (Some a) b g1 = Some (r, g2)" "same_else b g1 g2" "good b k H g2" by blast
  with False g1 show ?thesis by (auto simp: msm_gem_set_iova_def intro: same_else_trans)
qed

text \<open>
  Unpinning the mapping of a holder \<open>h\<close> and then the object; \<open>H'\<close> is what remains, \<open>H1\<close> the
  holders in between.
\<close>

lemma unpin_vma_good:
  assumes "good b k H g" "h \<in># H" "vma_hold a h"
    and "nh pin_hold H' = nh pin_hold H - 1" "nh gpu_hold H' = nh gpu_hold H"
    and "\<And>c. nh (vma_hold c) H' = nh (vma_hold c) (H - {#h#})"
    and "\<And>c i s. H_Run c i s \<in># H \<Longrightarrow> H_Run c i s \<in># H'"
  shows "\<exists>v g'. lookup_vma (gem_objs g b) (Some a) = Some v \<and>
    msm_gem_unpin_locked b (upd_vmas b (set_vma (Some a) (msm_gem_unpin_vma v)) g) = Some g' \<and> same_else b g g' \<and>
    good b k H' g'"
proof -
  define x where "x = gem_objs g b"
  note okx = goodD(4) [OF assms(1), folded x_def] and cx = goodD(3) [OF assms(1), folded x_def]
  from obj_ok_lookup [OF okx assms(2,3)] obtain v where v: "lookup_vma x (Some a) = Some v"
    "vma_ok (fence_ctxs g) H (pages x) a v" by blast
  let ?v = "msm_gem_unpin_vma v"
  let ?f = "\<lambda>x. x\<lparr>vmas := set_vma (Some a) ?v (vmas x), pin_count := pin_count x - 1\<rparr>"
  have pos: "0 < nh pin_hold H" using assms(2) vma_hold_pin [OF assms(3)] by (auto simp: nh_pos)
  have "vma_ok (fence_ctxs g) (H - {#h#}) (pages x) a ?v" by (rule vma_ok_unpin [OF v(2) assms(2,3)])
  then have okv: "vma_ok (fence_ctxs g) H' (pages x) a ?v"
    by (rule vma_ok_holds) (use assms(6,7) in \<open>auto dest: in_diffD\<close>)
  have o: "obj_ok (fence_ctxs g) H' (?f x)"
    by (rule obj_ok_vma [OF okx _ _ v(1) okv])
      (use obj_okD(1,2,9) [OF okx] assms(2-7) in \<open>auto simp: obj_view_def nh_diff vma_hold_def\<close>)
  have d: "\<not> dontneed x" using class_ok_dontneed [OF cx] obj_okD(1) [OF okx] pos by auto
  have c: "class_ok (?f x)" if "active_count (?f x) \<noteq> 0"
    by (rule class_ok_active [OF cx]) (use that d in auto)
  have view: "mm_view (?f (gem_objs g b)) = mm_view (gem_objs g b)" by (simp add: mm_view_def)
  obtain g' where "update_inactive b (upd_obj b ?f g) = Some g'" "good b k H' g'" "same_else b g g'"
    using good_update [OF assms(1), of ?f H'] view o d c unfolding x_def [symmetric] by blast
  with v(1) show ?thesis by (auto simp: msm_gem_unpin_locked_def upd_vmas_def x_def)
qed

lemma msm_gem_unpin_iova_good:
  assumes "good b k H g" "H_Iova a \<in># H"
  shows "\<exists>g'. msm_gem_unpin_iova (Some a) b g = Some g' \<and> same_else b g g' \<and> good b k (H - {#H_Iova a#}) g'"
proof -
  have "H_Run c i s \<in># H - {#H_Iova a#}" if "H_Run c i s \<in># H" for c i s
    using that by (auto simp: in_diff_count)
  then obtain v g' where "lookup_vma (gem_objs g b) (Some a) = Some v"
    "msm_gem_unpin_locked b (upd_vmas b (set_vma (Some a) (msm_gem_unpin_vma v)) g) = Some g'" "same_else b g g'"
    "good b k (H - {#H_Iova a#}) g'"
    using unpin_vma_good [OF assms(1,2), of a "H - {#H_Iova a#}"] assms(2) by (auto simp: nh_diff)
  then show ?thesis by (auto simp: msm_gem_unpin_iova_def)
qed

section \<open>Kernel mappings and advice\<close>

text \<open>Members nobody else looks at.\<close>

lemma obj_ok_cong:
  assumes "obj_view y = obj_view x" "vmas y = vmas x" "pin_count y = pin_count x" "active_count y = active_count x"
  shows "obj_ok ctxs H y = obj_ok ctxs H x"
  using assms by (simp add: obj_ok_def obj_view_def)

lemma good_neutral:
  assumes "good b k H g" "mm_view (f (gem_objs g b)) = mm_view (gem_objs g b)"
    and "obj_view (f (gem_objs g b)) = obj_view (gem_objs g b)" "vmas (f (gem_objs g b)) = vmas (gem_objs g b)"
    and "pin_count (f (gem_objs g b)) = pin_count (gem_objs g b)"
    and "active_count (f (gem_objs g b)) = active_count (gem_objs g b)"
  shows "good b k H (upd_obj b f g)"
proof -
  have "class_ok (f (gem_objs g b)) = class_ok (gem_objs g b)"
    using assms(2-6) by (intro class_ok_cong) (auto simp: mm_view_def obj_view_def)
  moreover have "obj_ok (fence_ctxs g) H (f (gem_objs g b)) = obj_ok (fence_ctxs g) H (gem_objs g b)"
    by (rule obj_ok_cong [OF assms(3-6)])
  ultimately show ?thesis
    using good_upd(1) [OF assms(1), of f H] assms(2) goodD(3,4) [OF assms(1)] by simp
qed

lemma get_vaddr_good:
  assumes "good b k H g" "m = 0 \<or> pages (gem_objs g b)"
  shows "\<exists>ret g'. get_vaddr pe vmap m b g = Some (ret, g') \<and> same_else b g g' \<and> good b k H g'"
proof (cases "import_attach (gem_objs g b) \<or> unat (madv (gem_objs g b)) > unat m")
  case True
  with assms(1) show ?thesis by (auto simp: get_vaddr_def)
next
  case False
  let ?g = "upd_obj b (\<lambda>x. x\<lparr>vmap_count := vmap_count x + 1\<rparr>) g"
  let ?fail = "upd_obj b (\<lambda>x. x\<lparr>vmap_count := vmap_count x - 1\<rparr>)"
  have g: "good b k H ?g" by (rule good_neutral [OF assms(1)]) (simp_all add: mm_view_def obj_view_def)
  have fail: "good b k H (?fail g1)" if "good b k H g1" for g1
    by (rule good_neutral [OF that]) (simp_all add: mm_view_def obj_view_def)
  have m: "madv (gem_objs ?g b) = 0 \<or> pages (gem_objs ?g b)"
    using assms(2) False by (auto simp: unat_eq_0)
  show ?thesis
  proof (cases "vaddr (gem_objs g b)")
    case True
    with False g show ?thesis by (auto simp: get_vaddr_def Let_def)
  next
    case no: False
    from get_pages_good [OF g m, of pe] obtain ret g1 where
      g1: "get_pages pe b ?g = Some (ret, g1)" "good b k H g1" "same_else b ?g g1"
        "mm_same ((gem_objs ?g b)\<lparr>pages := pages (gem_objs g1 b), sgt := sgt (gem_objs g1 b)\<rparr>) (gem_objs g1 b)" by blast
    let ?f = "\<lambda>x. x\<lparr>vaddr := True\<rparr>"
    define x where "x = gem_objs g1 b"
    note cx = goodD(3) [OF g1(2), folded x_def]
    have "obj_ok (fence_ctxs g1) H (?f x) = obj_ok (fence_ctxs g1) H x" by (rule obj_ok_cong) (simp_all add: obj_view_def)
    with goodD(4) [OF g1(2)] have o: "obj_ok (fence_ctxs g1) H (?f x)" by (simp add: x_def)
    have c: "class_ok (?f x)" using cx class_ok_cong [of "?f x" x] by simp
    have d: "\<not> is_unpurgeable (?f x)" if "dontneed x"
      using class_ok_dontneed [OF cx that] by (simp add: is_unpurgeable_def)
    have view: "mm_view (?f (gem_objs g1 b)) = mm_view (gem_objs g1 b)" by (simp add: mm_view_def)
    obtain g2 where "update_inactive b (upd_obj b ?f g1) = Some g2" "good b k H g2" "same_else b g1 g2"
      using good_update [OF g1(2), of ?f H] view o d c unfolding x_def [symmetric] by blast
    with no False g1(1,3) fail [OF g1(2)] show ?thesis
      by (auto simp: get_vaddr_def Let_def intro: same_else_trans)
  qed
qed

lemma msm_gem_put_vaddr_good: "good b k H g \<Longrightarrow> good b k H (msm_gem_put_vaddr b g)"
  unfolding msm_gem_put_vaddr_def by (rule good_neutral) (simp_all add: mm_view_def obj_view_def)

lemma msm_gem_vunmap_good: "good b k H g \<Longrightarrow> good b k H (msm_gem_vunmap b g)"
  unfolding msm_gem_vunmap_def using good_neutral [of b k H g "\<lambda>x. x\<lparr>vaddr := False\<rparr>"]
  by (auto simp: mm_view_def obj_view_def)

text \<open>Advice: nobody is in the middle of a submission.\<close>

lemma active_pinned:
  assumes "obj_ok ctxs H x" "H_Active \<notin># H" "active_count x \<noteq> 0"
  shows "0 < pin_count x"
proof -
  have "0 < nh gpu_hold H" using obj_okD(2) [OF assms(1)] assms(3) nh_simps(3) [of gpu_hold H] by (auto simp: order_less_le)
  then obtain h where "h \<in># H" "gpu_hold h" by (auto simp: nh_pos)
  with assms(2) have "h \<in># H" "pin_hold h" by (cases h; auto)+
  then have "0 < nh pin_hold H" unfolding nh_pos by blast
  then show ?thesis using obj_okD(1) [OF assms(1)] by simp
qed

lemma msm_gem_madvise_good:
  assumes "good b k H g" "H_Active \<notin># H" "m = 0 \<or> m = 1"
  shows "\<exists>ret g'. msm_gem_madvise m b g = Some (ret, g') \<and> same_else b g g' \<and> good b k H g'"
proof -
  define x where "x = gem_objs g b"
  note okx = goodD(4) [OF assms(1), folded x_def] and cx = goodD(3) [OF assms(1), folded x_def]
  let ?f = "\<lambda>x. if madv x \<noteq> 2 then x\<lparr>madv := ucast m\<rparr> else x"
  have m: "ucast m = (0 :: u8) \<or> ucast m = (1 :: u8)" using assms(3) by auto
  have o: "obj_ok (fence_ctxs g) H (?f x)" using okx m by (auto simp: obj_ok_def)
  have view: "mm_view (?f (gem_objs g b)) = mm_view (gem_objs g b)" by (simp add: mm_view_def)
  have d: "\<not> is_unpurgeable (?f x)" if "dontneed x"
    using class_ok_dontneed [OF cx that] by (auto simp: is_unpurgeable_def)
  have c: "class_ok (?f x)" if "active_count x \<noteq> 0"
  proof (rule class_ok_active [OF cx that])
    have "\<not> dontneed x" using active_pinned [OF okx assms(2) that] class_ok_dontneed [OF cx] by auto
    then show "\<not> dontneed (?f x)" by simp
  qed (use that in auto)
  have upd: "(if madv (gem_objs g b) \<noteq> MSM_MADV_PURGED then upd_obj b (\<lambda>x. x\<lparr>madv := ucast m\<rparr>) g else g) = upd_obj b ?f g"
    by (simp add: upd_obj_def madv_defs)
  obtain g' where g': "update_inactive b (upd_obj b ?f g) = Some g'" "good b k H g'" "same_else b g g'"
    using good_update [OF assms(1), of ?f H] view o d c unfolding x_def [symmetric] by fastforce
  have "good b k H (upd_obj b ?f g)" if "active_count x \<noteq> 0"
    using good_upd(1) [OF assms(1), of ?f H] view o c [OF that] unfolding x_def [symmetric] by blast
  with g' show ?thesis
    unfolding msm_gem_madvise_def Let_def upd by (auto simp: x_def)
qed

section \<open>Purging and eviction\<close>

text \<open>The walk over the mappings of an object that nobody pins.\<close>

lemma put_spaces_idle:
  assumes "\<And>p. p \<in> set xs \<Longrightarrow> \<exists>a. fst p = Some a \<and> vma_ok ctxs H pg a (snd p)" "\<forall>h \<in># H. \<not> pin_hold h"
  shows "\<exists>sp' ys. put_spaces cl ctxs xs sp = Some (sp', ys) \<and> map fst ys = map fst xs \<and>
    (\<forall>p \<in> set ys. \<exists>a. fst p = Some a \<and> vma_ok ctxs H pg' a (snd p) \<and> \<not> mapped (snd p))"
  using assms(1)
proof (induction xs arbitrary: sp)
  case Nil
  then show ?case by simp
next
  case (Cons p xs)
  from Cons.prems [of p] obtain a v where p: "p = (Some a, v)" "vma_ok ctxs H pg a v" by (cases p) auto
  note idle = vma_ok_idle [OF p(2) assms(2)]
  from vma_ok_purge [OF p(2) idle, of "sp a" pg'] obtain as1 v1 where
    v1: "msm_gem_purge_vma ctxs (sp a) v = Some (as1, v1)" "vma_ok ctxs H pg' a v1" "inuse v1 = 0"
      "\<not> pending ctxs v1" "\<not> mapped v1" by blast
  from vma_ok_close [OF v1(2-5), of as1] obtain as2 v2 where
    v2: "msm_gem_close_vma ctxs as1 v1 = Some (as2, v2)" "vma_ok ctxs H pg' a v2" "\<not> mapped v2" by blast
  define as3 v3 where "as3 = (if cl then as2 else as1)" and "v3 = (if cl then v2 else v1)"
  have v3: "(if cl then msm_gem_close_vma ctxs as1 v1 else Some (as1, v1)) = Some (as3, v3)" "vma_ok ctxs H pg' a v3"
      "\<not> mapped v3"
    using v1 v2 by (simp_all add: as3_def v3_def)
  have "\<And>q. q \<in> set xs \<Longrightarrow> \<exists>a. fst q = Some a \<and> vma_ok ctxs H pg a (snd q)"
    using Cons.prems by (meson list.set_intros(2))
  from Cons.IH [OF this, of "sp(a := as3)"] obtain sp' ys where
    "put_spaces cl ctxs xs (sp(a := as3)) = Some (sp', ys)" "map fst ys = map fst xs"
      "\<forall>p \<in> set ys. \<exists>a. fst p = Some a \<and> vma_ok ctxs H pg' a (snd p) \<and> \<not> mapped (snd p)" by blast
  with p(1) v1(1) v3 show ?case by auto
qed

lemma no_pins:
  assumes "obj_ok ctxs H x" "pin_count x = 0"
  shows "\<forall>h \<in># H. \<not> pin_hold h"
  using obj_okD(1) [OF assms(1)] assms(2) nh_zero [of pin_hold H] by simp

text \<open>An unpinned object without mappings, or with idle ones, does not need its pages.\<close>

lemma obj_ok_unbacked:
  assumes "obj_ok ctxs H x" "pin_count x = 0" "\<not> import_attach x"
    and "map fst ys = map fst (vmas x)" "\<forall>p \<in> set ys. \<exists>a. fst p = Some a \<and> vma_ok ctxs H False a (snd p)"
    and "vmas y = ys \<or> vmas y = []" "\<not> pages y" "\<not> sgt y" "madv y \<in> {0, 1, 2}" "pin_count y = pin_count x"
    and "active_count y = active_count x" "import_attach y = import_attach x" "vram_node y = vram_node x"
  shows "obj_ok ctxs H y"
proof -
  have "distinct (map fst ys)" using obj_okD(3) [OF assms(1)] assms(4) by simp
  moreover have "\<not> vma_hold a h" if "h \<in># H" for a h
    using no_pins [OF assms(1,2)] that vma_hold_pin by blast
  ultimately show ?thesis
    using obj_okD(1,2,13) [OF assms(1)] assms(2-13) unfolding obj_ok_def by auto
qed

lemma put_iova_spaces_good:
  assumes ok: "obj_ok (fence_ctxs g) H (gem_objs g b)" and "pin_count (gem_objs g b) = 0"
  obtains ys sp where "put_iova_spaces cl b g = Some (upd_obj b (\<lambda>x. x\<lparr>vmas := ys\<rparr>) (g\<lparr>spaces := sp\<rparr>))"
    "map fst ys = map fst (vmas (gem_objs g b))"
    "\<forall>p \<in> set ys. \<exists>a. fst p = Some a \<and> vma_ok (fence_ctxs g) H False a (snd p)"
proof -
  from put_spaces_idle [of "vmas (gem_objs g b)" "fence_ctxs g" H "pages (gem_objs g b)" cl "spaces g" False]
    obj_okD(4) [OF ok] no_pins [OF ok assms(2)] obtain sp ys where
    "put_spaces cl (fence_ctxs g) (vmas (gem_objs g b)) (spaces g) = Some (sp, ys)"
    "map fst ys = map fst (vmas (gem_objs g b))"
    "\<forall>p \<in> set ys. \<exists>a. fst p = Some a \<and> vma_ok (fence_ctxs g) H False a (snd p)" by blast
  then show thesis by (intro that [of ys sp]) (simp_all add: put_iova_spaces_def upd_vmas_def)
qed

text \<open>\<^verbatim>\<open>put_pages\<close> and \<^verbatim>\<open>msm_gem_vunmap\<close> as changes of the object alone.\<close>

lemma put_pages_obj:
  assumes "\<not> vram_node (gem_objs g b)" "sgt (gem_objs g b) \<longrightarrow> pages (gem_objs g b)"
  shows "put_pages b g = upd_obj b (\<lambda>x. x\<lparr>pages := False, sgt := False\<rparr>) g"
proof -
  have "(gem_objs g b)\<lparr>pages := False, sgt := False\<rparr> = (if pages (gem_objs g b) then
      (if sgt (gem_objs g b) then (gem_objs g b)\<lparr>sgt := False\<rparr> else gem_objs g b)\<lparr>pages := False\<rparr> else gem_objs g b)"
    using assms(2) by simp
  then show ?thesis using assms(1) by (simp add: put_pages_def upd_obj_def Let_def)
qed

definition vunmap_obj :: "msm_gem_object \<Rightarrow> msm_gem_object" where
  "vunmap_obj x = (if is_vunmapable x then x\<lparr>vaddr := False\<rparr> else x)"

lemma msm_gem_vunmap_obj: "msm_gem_vunmap b g = upd_obj b vunmap_obj g"
  by (auto simp: msm_gem_vunmap_def vunmap_obj_def is_vunmapable_def upd_obj_def)

lemma vunmap_obj_simps [simp]:
  "obj_size (vunmap_obj x) = obj_size x" "import_attach (vunmap_obj x) = import_attach x" "madv (vunmap_obj x) = madv x"
  "dontneed (vunmap_obj x) = dontneed x" "evictable (vunmap_obj x) = evictable x" "mm_node (vunmap_obj x) = mm_node x"
  "pages (vunmap_obj x) = pages x" "sgt (vunmap_obj x) = sgt x" "vmas (vunmap_obj x) = vmas x"
  "vram_node (vunmap_obj x) = vram_node x" "active_count (vunmap_obj x) = active_count x"
  "pin_count (vunmap_obj x) = pin_count x"
  by (simp_all add: vunmap_obj_def)

lemma inactive_unpinned:
  assumes "obj_ok ctxs H x" "H_Active \<notin># H" "pin_count x = 0"
  shows "active_count x = 0"
  using active_pinned [OF assms(1,2)] assms(3) by auto

lemma msm_gem_purge_good:
  assumes "good b k H g" "H_Active \<notin># H" "is_purgeable (gem_objs g b)"
  shows "\<exists>g'. msm_gem_purge b g = Some g' \<and> same_else b g g' \<and> good b k H g'"
proof -
  define x where "x = gem_objs g b"
  note okx = goodD(4) [OF assms(1), folded x_def]
  have x: "pin_count x = 0" "\<not> import_attach x" using assms(3) by (auto simp: is_purgeable_def is_unpurgeable_def x_def)
  have act: "active_count x = 0" by (rule inactive_unpinned [OF okx assms(2) x(1)])
  from put_iova_spaces_good [OF goodD(4) [OF assms(1)], folded x_def, OF x(1), of True] obtain ys sp where
    s: "put_iova_spaces True b g = Some (upd_obj b (\<lambda>x. x\<lparr>vmas := ys\<rparr>) (g\<lparr>spaces := sp\<rparr>))"
      "map fst ys = map fst (vmas x)" "\<forall>p \<in> set ys. \<exists>a. fst p = Some a \<and> vma_ok (fence_ctxs g) H False a (snd p)" .
  let ?f = "\<lambda>x. (vunmap_obj (x\<lparr>vmas := ys\<rparr>))\<lparr>pages := False, sgt := False, vmas := [], madv := 2\<rparr>"
  let ?g = "g\<lparr>spaces := sp\<rparr>"
  have p: "msm_gem_purge b g = update_inactive b (upd_obj b ?f ?g)"
  proof -
    have "put_pages b (upd_obj b (\<lambda>x. vunmap_obj (x\<lparr>vmas := ys\<rparr>)) ?g) =
        upd_obj b (\<lambda>x. x\<lparr>pages := False, sgt := False\<rparr>) (upd_obj b (\<lambda>x. vunmap_obj (x\<lparr>vmas := ys\<rparr>)) ?g)"
      by (rule put_pages_obj) (use obj_okD(8,13) [OF okx] in \<open>simp_all add: x_def\<close>)
    then show ?thesis
      using s(1) by (simp add: msm_gem_purge_def Let_def msm_gem_vunmap_obj put_iova_vmas_def upd_vmas_def madv_defs)
  qed
  have g: "good b k H ?g" using assms(1) by simp
  have o: "obj_ok (fence_ctxs ?g) H (?f (gem_objs ?g b))"
    by (rule obj_ok_unbacked [of _ _ x ys]) (use okx x s(2,3) in \<open>simp_all add: x_def\<close>)
  obtain g' where "update_inactive b (upd_obj b ?f ?g) = Some g'" "good b k H g'" "same_else b ?g g'"
    using good_update [OF g, of ?f H] o x act by (auto simp: mm_view_def is_unpurgeable_def x_def)
  then show ?thesis using p by (auto simp: same_else_def)
qed

lemma msm_gem_evict_good:
  assumes "good b k H g" "H_Active \<notin># H" "\<not> is_unevictable (gem_objs g b)"
  shows "\<exists>g'. msm_gem_evict b g = Some g' \<and> same_else b g g' \<and> good b k H g'"
proof -
  define x where "x = gem_objs g b"
  note okx = goodD(4) [OF assms(1), folded x_def]
  have x: "pin_count x = 0" "\<not> import_attach x" using assms(3) by (auto simp: is_unevictable_def is_unpurgeable_def x_def)
  have act: "active_count x = 0" by (rule inactive_unpinned [OF okx assms(2) x(1)])
  from put_iova_spaces_good [OF goodD(4) [OF assms(1)], folded x_def, OF x(1), of False] obtain ys sp where
    s: "put_iova_spaces False b g = Some (upd_obj b (\<lambda>x. x\<lparr>vmas := ys\<rparr>) (g\<lparr>spaces := sp\<rparr>))"
      "map fst ys = map fst (vmas x)" "\<forall>p \<in> set ys. \<exists>a. fst p = Some a \<and> vma_ok (fence_ctxs g) H False a (snd p)" .
  let ?f = "\<lambda>x. x\<lparr>vmas := ys, pages := False, sgt := False\<rparr>"
  let ?g = "g\<lparr>spaces := sp\<rparr>"
  have p: "msm_gem_evict b g = update_inactive b (upd_obj b ?f ?g)"
  proof -
    have "put_pages b (upd_obj b (\<lambda>x. x\<lparr>vmas := ys\<rparr>) ?g) =
        upd_obj b (\<lambda>x. x\<lparr>pages := False, sgt := False\<rparr>) (upd_obj b (\<lambda>x. x\<lparr>vmas := ys\<rparr>) ?g)"
      by (rule put_pages_obj) (use obj_okD(8,13) [OF okx] in \<open>simp_all add: x_def\<close>)
    then show ?thesis using s(1) by (simp add: msm_gem_evict_def)
  qed
  have g: "good b k H ?g" using assms(1) by simp
  have o: "obj_ok (fence_ctxs ?g) H (?f (gem_objs ?g b))"
    by (rule obj_ok_unbacked [of _ _ x ys]) (use okx x s(2,3) obj_okD(10) [OF okx] in \<open>simp_all add: x_def\<close>)
  obtain g' where "update_inactive b (upd_obj b ?f ?g) = Some g'" "good b k H g'" "same_else b ?g g'"
    using good_update [OF g, of ?f H] o x act by (auto simp: mm_view_def is_unpurgeable_def x_def)
  then show ?thesis using p by (auto simp: same_else_def)
qed

lemma shrink_object_good:
  assumes "good b k H g" "H_Active \<notin># H"
  shows "\<exists>ok g'. shrink_object f b g = Some (ok, g') \<and> same_else b g g' \<and> good b k H g'"
proof (cases f)
  case Purge
  with assms msm_gem_purge_good [OF assms] show ?thesis by auto
next
  case Evict
  with assms msm_gem_evict_good [OF assms] show ?thesis by auto
next
  case Vmap_shrink
  with assms(1) msm_gem_vunmap_good [OF assms(1)] show ?thesis by (auto simp: msm_gem_vunmap_obj)
qed

end
