(* ===== verification/GEM_Reach.thy ===== *)
theory GEM_Reach
  imports GEM_Correct
begin

text \<open>
  The buffer objects as a system: every operation of the driver, the submissions, the shrinker and the
  GPU on the objects of a device, the states they reach, and what holds in all of them.
\<close>

section \<open>Submissions\<close>

lemma class_ok_count:
  assumes "class_ok x" "active_count x \<noteq> 0" "active_count y \<noteq> 0" "mm_node y = mm_node x" "madv y = madv x"
    and "import_attach y = import_attach x" "pin_count y = pin_count x" "dontneed y = dontneed x"
  shows "class_ok y"
  using assms(1-3) unfolding class_ok_def is_unpurgeable_def assms(4-8) by auto

lemma H_Active_simps [simp]:
  "nh pin_hold (add_mset H_Active H) = nh pin_hold H" "nh gpu_hold (add_mset H_Active H) = nh gpu_hold H + 1"
  "nh (vma_hold a) (add_mset H_Active H) = nh (vma_hold a) H"
  by simp_all

lemma msm_gem_active_get_good:
  assumes "good b k H g"
  shows "\<exists>g'. msm_gem_active_get b g = Some g' \<and> same_else b g g' \<and> good b k (add_mset H_Active H) g'"
proof -
  define x where "x = gem_objs g b"
  let ?f = "\<lambda>x. x\<lparr>active_count := active_count x + 1\<rparr>"
  let ?H = "add_mset H_Active H"
  note okx = goodD(4) [OF assms, folded x_def] and cx = goodD(3) [OF assms, folded x_def]
  have view: "mm_view (?f (gem_objs g b)) = mm_view (gem_objs g b)" by (simp add: mm_view_def)
  have n: "0 \<le> active_count x" using obj_okD(2) [OF okx] by simp
  have o: "obj_ok (fence_ctxs g) ?H (?f x)"
    by (rule obj_ok_holds [OF okx]) (use obj_okD(1,2,9) [OF okx] in \<open>auto simp: obj_view_def\<close>)
  have u: "upd_obj b (\<lambda>x. x\<lparr>active_count := active_count (gem_objs g b) + 1\<rparr>) g = upd_obj b ?f g"
    by (simp add: upd_obj_def)
  show ?thesis
  proof (cases "active_count x = 0")
    case False
    have "class_ok (?f x)" by (rule class_ok_count [OF cx False]) (use n in auto)
    with good_upd [OF assms, of ?f ?H] view o False show ?thesis
      unfolding msm_gem_active_get_def Let_def u x_def by simp
  next
    case True
    let ?g1 = "upd_obj b ?f g"
    let ?g2 = "if evictable (gem_objs ?g1 b) then mark_unevictable b ?g1 else ?g1"
    have b: "b \<in> set (objects g)" "mm_struct g k" using assms by (simp_all add: good_def)
    have s1: "mm_struct ?g1 k" using mm_struct_upd [of g k ?f b] b(2) view by simp
    have s2: "mm_struct ?g2 k" using mark_struct(4) [OF s1] s1 b(1) by simp
    have x2: "gem_objs ?g2 b = (?f x)\<lparr>evictable := evictable x \<and> is_unevictable x\<rparr>" "same_else b g ?g2" "objects ?g2 = objects g"
      by (simp_all add: x_def is_unevictable_def is_unpurgeable_def)
    obtain l where l: "mm_node x = On l" using class_okD [OF cx] .
    from mm_del_struct [OF s2, of b l] b(1) l x2 obtain g3 where g3: "mm_del b ?g2 = Some g3" "mm_struct g3 k"
      "same_else b ?g2 g3" "gem_objs g3 b = (?f x)\<lparr>evictable := evictable x \<and> is_unevictable x, mm_node := Self\<rparr>" by auto
    have b3: "b \<in> set (objects g3)" using b(1) x2(3) g3(3) by (simp add: same_else_def)
    from mm_add_struct [OF g3(2) b3, of "Main Active"] g3(4) obtain g4 where g4: "mm_add b (Main Active) g3 = Some g4"
      "mm_struct g4 k" "same_else b g3 g4"
      "gem_objs g4 b = (?f x)\<lparr>evictable := evictable x \<and> is_unevictable x, mm_node := On (Main Active)\<rparr>" by auto
    have "same_else b g g4" using x2(2) g3(3) g4(3) by (blast intro: same_else_trans)
    moreover have "class_ok (gem_objs g4 b)"
      using class_ok_dontneed [OF cx] True by (auto simp: class_ok_def g4(4) is_unpurgeable_def)
    moreover have "obj_ok (fence_ctxs g4) ?H (gem_objs g4 b)"
      using o \<open>same_else b g g4\<close> obj_ok_cong [of "gem_objs g4 b" "?f x" "fence_ctxs g" ?H]
      by (simp add: g4(4) obj_view_def same_else_def)
    moreover have "msm_gem_active_get b g = Some g4"
      using True g3(1) g4(1) unfolding msm_gem_active_get_def Let_def u x_def by simp
    ultimately show ?thesis using b(1) g4(2) by (auto simp: good_def same_else_def)
  qed
qed

lemma msm_gem_active_put_update:
  "msm_gem_active_put b g = update_inactive b (upd_obj b (\<lambda>x. x\<lparr>active_count := active_count x - 1\<rparr>) g)"
  by (simp add: msm_gem_active_put_def Let_def upd_obj_def update_inactive_def)

lemma msm_gem_active_put_good:
  assumes "good b k (add_mset H_Active H) g"
  shows "\<exists>g'. msm_gem_active_put b g = Some g' \<and> same_else b g g' \<and> good b k H g'"
proof -
  define x where "x = gem_objs g b"
  let ?f = "\<lambda>x. x\<lparr>active_count := active_count x - 1\<rparr>"
  note okx = goodD(4) [OF assms, folded x_def] and cx = goodD(3) [OF assms, folded x_def]
  have view: "mm_view (?f (gem_objs g b)) = mm_view (gem_objs g b)" by (simp add: mm_view_def)
  have o: "obj_ok (fence_ctxs g) H (?f x)"
    by (rule obj_ok_holds [OF okx]) (use obj_okD(1,2,9) [OF okx] in \<open>auto simp: obj_view_def\<close>)
  have act: "active_count x \<noteq> 0" using obj_okD(2) [OF okx] nh_simps(3) [of gpu_hold H] by (smt (verit) H_Active_simps(2))
  have d: "\<not> is_unpurgeable (?f x)" if "dontneed x"
    using class_ok_dontneed [OF cx that] by (simp add: is_unpurgeable_def)
  have c: "class_ok (?f x)" if "active_count (?f x) \<noteq> 0"
    by (rule class_ok_count [OF cx act that]) simp_all
  obtain g' where "update_inactive b (upd_obj b ?f g) = Some g'" "good b k H g'" "same_else b g g'"
    using good_update [OF assms, of ?f H] view o d c unfolding x_def [symmetric] by blast
  then show ?thesis by (simp add: msm_gem_active_put_update)
qed

lemma run_stays:
  assumes "H_Run c i s \<in># H" "h \<noteq> H_Run c i s"
  shows "H_Run c i s \<in># H - {#h#}"
  using assms by (auto simp: in_diff_count)

lemma submit_pin_object_good:
  assumes "good b k H g" "H_Active \<in># H"
  shows "case submit_pin_object mem node pe map_ret (Some a) b g of
      None \<Rightarrow> \<not> backed (gem_objs g b)
    | Some (ret, g') \<Rightarrow> same_else b g g' \<and> good b k (if ret = 0 then add_mset (H_Sub a) (H - {#H_Active#}) else H) g'"
proof -
  from get_vma_good [OF assms(1), of mem node a] obtain ret g1 where
    g1: "get_vma_locked mem node (Some a) b g = Some (ret, g1)" "same_else b g g1" "good b k H g1"
      "ret = 0 \<longrightarrow> lookup_vma (gem_objs g1 b) (Some a) \<noteq> None" "backed (gem_objs g1 b) = backed (gem_objs g b)" by blast
  show ?thesis
  proof (cases "ret = 0")
    case False
    with g1 show ?thesis by (simp add: submit_pin_object_def)
  next
    case True
    let ?H = "add_mset (H_Sub a) (H - {#H_Active#})"
    have h: "nh pin_hold ?H = nh pin_hold H + 1" "nh gpu_hold ?H = nh gpu_hold H"
      "nh (vma_hold c) ?H = nh (vma_hold c) H + of_bool (c = a)" for c
      using assms(2) by (simp_all add: nh_diff)
    have run: "H_Run c i s \<in># ?H" if "H_Run c i s \<in># H" for c i s
      using run_stays [OF that, of H_Active] by simp
    have "lookup_vma (gem_objs g1 b) (Some a) \<noteq> None" using g1(4) True by simp
    from pin_vma_good [OF g1(3) this h run, of pe map_ret] g1(1,2,5) True show ?thesis
      by (auto simp: submit_pin_object_def intro: same_else_trans split: option.splits)
  qed
qed

text \<open>Undoing what a submission did to an object, before and after it was pinned.\<close>

lemma submit_undo_good:
  assumes "good b k H g" "H_Sub a \<in># H"
  shows "\<exists>g'. submit_cleanup_bo True True True (Some a) b g = Some g' \<and> same_else b g g' \<and> good b k (H - {#H_Sub a#}) g'"
proof -
  let ?H = "add_mset H_Active (H - {#H_Sub a#})"
  have "nh pin_hold ?H = nh pin_hold H - 1" "nh gpu_hold ?H = nh gpu_hold H"
      "nh (vma_hold c) ?H = nh (vma_hold c) (H - {#H_Sub a#})" for c
    using assms(2) by (simp_all add: nh_diff)
  moreover have "H_Run c i s \<in># ?H" if "H_Run c i s \<in># H" for c i s
    using run_stays [OF that, of "H_Sub a"] by simp
  ultimately obtain v g1 where g1: "lookup_vma (gem_objs g b) (Some a) = Some v"
    "msm_gem_unpin_locked b (upd_vmas b (set_vma (Some a) (msm_gem_unpin_vma v)) g) = Some g1" "same_else b g g1"
    "good b k ?H g1"
    using unpin_vma_good [OF assms, of a ?H] by auto
  from msm_gem_active_put_good [OF g1(4)] g1(1-3) show ?thesis
    by (auto simp: submit_cleanup_bo_def intro: same_else_trans)
qed

lemma submit_unlock_good:
  assumes "good b k H g" "H_Active \<in># H"
  shows "\<exists>g'. submit_cleanup_bo False False True a b g = Some g' \<and> same_else b g g' \<and> good b k (H - {#H_Active#}) g'"
  using msm_gem_active_put_good [of b k "H - {#H_Active#}" g] assms by (simp add: submit_cleanup_bo_def)

text \<open>A submission starts to run, and is retired when its fence has passed.\<close>

lemma job_run_object_good:
  assumes "good b k H g" "H_Sub a \<in># H" "i < MAX_RINGS" "fc_index (fence_ctxs g i) = i"
  shows "\<exists>g'. job_run_object i (Some a) b g = Some g' \<and> same_else b g g' \<and>
    good b k (add_mset (H_Run a i (last_fence (fence_ctxs g i))) (H - {#H_Sub a#})) g'"
proof -
  define x where "x = gem_objs g b"
  let ?H = "add_mset (H_Run a i (last_fence (fence_ctxs g i))) (H - {#H_Sub a#})"
  note okx = goodD(4) [OF assms(1), folded x_def] and cx = goodD(3) [OF assms(1), folded x_def]
  from obj_ok_lookup [OF okx assms(2)] obtain v where v: "lookup_vma x (Some a) = Some v"
    "vma_ok (fence_ctxs g) H (pages x) a v" by auto
  from vma_ok_unpin_fenced [OF v(2) assms(2-4)] obtain v' where
    v': "msm_gem_unpin_vma_fenced v (fence_ctxs g i) = Some v'" "vma_ok (fence_ctxs g) ?H (pages x) a v'" by blast
  let ?f = "\<lambda>x. x\<lparr>vmas := set_vma (Some a) v' (vmas x)\<rparr>"
  have o: "obj_ok (fence_ctxs g) ?H (?f x)"
    by (rule obj_ok_vma [OF okx _ _ v(1) v'(2)])
      (use obj_okD(1,2,9) [OF okx] assms(2) run_stays [of _ _ _ H "H_Sub a"] in \<open>auto simp: obj_view_def nh_diff\<close>)
  have c: "class_ok (?f x)" using cx class_ok_cong [of "?f x" x] by simp
  have "good b k ?H (upd_vmas b (set_vma (Some a) v') g)" "same_else b g (upd_vmas b (set_vma (Some a) v') g)"
    using good_upd [OF assms(1), of ?f ?H] o c unfolding upd_vmas_def x_def by (simp_all add: mm_view_def)
  with v(1) v'(1) show ?thesis by (simp add: job_run_object_def x_def)
qed

lemma submit_retire_good:
  assumes "good b k H g" "H_Run a i s \<in># H" "msm_fence_completed (fence_ctxs g i) s"
  shows "\<exists>g'. submit_cleanup_bo False True True (Some a) b g = Some g' \<and> same_else b g g' \<and>
    good b k (H - {#H_Run a i s#}) g'"
proof -
  let ?H = "add_mset H_Active (H - {#H_Run a i s#})"
  have h: "nh pin_hold ?H = nh pin_hold H - 1" "nh gpu_hold ?H = nh gpu_hold H"
      "nh (vma_hold c) ?H = nh (vma_hold c) H" for c
    using assms(2) by (simp_all add: nh_diff)
  have r: "H_Run c j t \<in># ?H" if "H_Run c j t \<in># H" "\<not> msm_fence_completed (fence_ctxs g j) t" for c j t
    using run_stays [OF that(1), of "H_Run a i s"] that(2) assms(3) by auto
  have "0 < nh pin_hold H" using assms(2) by (auto simp: nh_pos intro: bexI [of _ "H_Run a i s"])
  with unpin_good [OF assms(1), of ?H] h r obtain g1 where g1: "msm_gem_unpin_locked b g = Some g1" "good b k ?H g1"
    "same_else b g g1" by (auto simp: msm_gem_unpin_locked_def)
  from msm_gem_active_put_good [OF g1(2)] g1(1,3) show ?thesis
    by (auto simp: submit_cleanup_bo_def intro: same_else_trans)
qed

section \<open>All objects of a device\<close>

text \<open>\<open>hs\<close> are the holders of the objects.\<close>

definition gem_ok :: "msm_drm_private \<Rightarrow> (nat \<Rightarrow> hold multiset) \<Rightarrow> int \<Rightarrow> bool" where
  "gem_ok g hs k =
     (mm_struct g k \<and> (\<forall>i. fc_index (fence_ctxs g i) = i) \<and>
      (\<forall>b \<in> set (objects g). class_ok (gem_objs g b) \<and> obj_ok (fence_ctxs g) (hs b) (gem_objs g b)))"

lemma gem_ok_good: "gem_ok g hs k \<Longrightarrow> b \<in> set (objects g) \<Longrightarrow> good b k (hs b) g"
  by (simp add: gem_ok_def good_def)

lemma gem_ok_object:
  assumes "gem_ok g hs k" "same_else b g g'" "good b k H g'"
  shows "gem_ok g' (hs(b := H)) k"
  using assms by (auto simp: gem_ok_def good_def same_else_def)

lemma gem_ok_same:
  assumes "gem_ok g hs k" "same_else b g g'" "good b k (hs b) g'"
  shows "gem_ok g' hs k"
  using gem_ok_object [OF assms] by simp

text \<open>An object that is not among the objects of the device may be changed, and join them.\<close>

lemma mm_struct_other:
  assumes "mm_struct g k" "b \<notin> set (objects g)"
  shows "mm_struct (upd_obj b f g) k"
  by (rule mm_struct_cong [OF assms(1)]) (use assms(2) in \<open>auto simp: upd_obj_def\<close>)

lemma gem_ok_other:
  assumes "gem_ok g hs k" "b \<notin> set (objects g)"
  shows "gem_ok (upd_obj b f g) (hs(b := H)) k"
  using assms mm_struct_other [of g k b f] by (auto simp: gem_ok_def upd_obj_def)

lemma gem_ok_new:
  assumes "gem_ok g hs k" "b \<notin> set (objects g)"
    and "mm_node (gem_objs g b) = Null" "\<not> dontneed (gem_objs g b)" "\<not> evictable (gem_objs g b)"
    and "\<And>y. y = f ((gem_objs g b)\<lparr>mm_node := On (Main Unpinned)\<rparr>) \<Longrightarrow>
      class_ok y \<and> obj_ok (fence_ctxs g) {#} y \<and> mm_view y = mm_view ((gem_objs g b)\<lparr>mm_node := On (Main Unpinned)\<rparr>)"
  shows "\<exists>g'. gem_publish b g = Some g' \<and> gem_ok (upd_obj b f g') (hs(b := {#})) k"
proof -
  let ?g1 = "upd_obj b (\<lambda>x. x\<lparr>mm_node := On (Main Unpinned)\<rparr>) (g\<lparr>mm := (mm g)(Main Unpinned := mm g (Main Unpinned) @ [b])\<rparr>)"
  let ?g' = "?g1\<lparr>objects := objects g @ [b]\<rparr>"
  have e: "gem_publish b g = Some ?g'" using assms(3) by (simp add: gem_publish_def mm_add_def)
  have same: "gem_objs (upd_obj b f ?g') c = (if c = b then f ((gem_objs g b)\<lparr>mm_node := On (Main Unpinned)\<rparr>) else gem_objs g c)" for c
    by (simp add: upd_obj_def)
  define y where "y = f ((gem_objs g b)\<lparr>mm_node := On (Main Unpinned)\<rparr>)"
  have y: "class_ok y" "obj_ok (fence_ctxs g) {#} y" "mm_node y = On (Main Unpinned)" "\<not> dontneed y" "\<not> evictable y"
    using assms(4-6) by (auto simp: y_def mm_view_def)
  have sums: "(\<Sum>c\<in>set (objects g @ [b]). weight (P (gem_objs (upd_obj b f ?g') c)) (gem_objs (upd_obj b f ?g') c)) =
      (\<Sum>c\<in>set (objects g). weight (P (gem_objs g c)) (gem_objs g c))" if "\<not> P y" for P
  proof -
    have "(\<Sum>c\<in>set (objects g). weight (P (gem_objs (upd_obj b f ?g') c)) (gem_objs (upd_obj b f ?g') c)) =
        (\<Sum>c\<in>set (objects g). weight (P (gem_objs g c)) (gem_objs g c))"
      by (rule sum.cong) (use assms(2) in \<open>auto simp: same\<close>)
    moreover have "weight (P (gem_objs (upd_obj b f ?g') b)) (gem_objs (upd_obj b f ?g') b) = 0"
      using that by (simp add: same y_def [symmetric] weight_def)
    ultimately show ?thesis using assms(2) by simp
  qed
  have fields: "objects (upd_obj b f ?g') = objects g @ [b]" "shrinkable_count (upd_obj b f ?g') = shrinkable_count g"
      "evictable_count (upd_obj b f ?g') = evictable_count g" "fence_ctxs (upd_obj b f ?g') = fence_ctxs g"
      "mm (upd_obj b f ?g') = (mm g)(Main Unpinned := mm g (Main Unpinned) @ [b])"
    by (simp_all add: upd_obj_def)
  have m: "mm_struct g k" using assms(1) by (simp add: gem_ok_def)
  have node: "mm_node (gem_objs (upd_obj b f ?g') c) = (if c = b then On (Main Unpinned) else mm_node (gem_objs g c))" for c
    using y(3) by (simp add: same y_def)
  have "b \<notin> set (mm g l)" for l using m assms(2) by (auto simp: mm_struct_def)
  then have "mm_struct (upd_obj b f ?g') k"
    using m assms(2) unfolding mm_struct_def fields sums [of dontneed, OF y(4)] sums [of evictable, OF y(5)]
    by (auto simp: node)
  then have "gem_ok (upd_obj b f ?g') (hs(b := {#})) k"
    using assms(1,2) y(1,2) unfolding gem_ok_def fields by (auto simp: same y_def)
  with e show ?thesis by blast
qed

lemma fresh_obj_ok: "obj_ok ctxs {#} x \<longleftrightarrow>
    pin_count x = 0 \<and> active_count x = 0 \<and> distinct (map fst (vmas x)) \<and>
    (\<forall>p \<in> set (vmas x). \<exists>a. fst p = Some a \<and> vma_ok ctxs {#} (pages x) a (snd p)) \<and>
    (sgt x \<longrightarrow> pages x) \<and> madv x \<in> {0, 1, 2} \<and> (madv x = 2 \<longrightarrow> \<not> pages x) \<and> (import_attach x \<longrightarrow> pages x) \<and> \<not> vram_node x"
  by (auto simp: obj_ok_def)

text \<open>Objects that do not go to the carve-out; the allocation of the backing file does not fail.\<close>

lemma upd_obj_id: "upd_obj b (\<lambda>x. x) g = g"
  by (simp add: upd_obj_def)

lemma msm_gem_new_ok:
  assumes "gem_ok g hs k" "b \<notin> set (objects g)" "use_mmu g"
    and "flags AND (MSM_BO_STOLEN OR MSM_BO_SCANOUT) = 0 \<or> vram_size g = 0"
  shows "\<exists>ret g'. msm_gem_new mem 0 vma_mem pe phys sz flags b g = Some (ret, g') \<and> gem_ok g' (hs(b := {#})) k \<and>
    (ret \<noteq> 0 \<longrightarrow> g' = g)"
proof (cases "PAGE_ALIGN sz = 0 \<or> fst (msm_gem_new_impl mem flags b g) \<noteq> 0")
  case True
  have "gem_ok (upd_obj b (\<lambda>x. x) g) (hs(b := {#})) k" by (rule gem_ok_other [OF assms(1,2)])
  then have "gem_ok g (hs(b := {#})) k" by (simp add: upd_obj_id)
  moreover have "\<exists>ret. ret \<noteq> 0 \<and> msm_gem_new mem 0 vma_mem pe phys sz flags b g = Some (ret, g)"
    using True assms(3,4) by (auto simp: msm_gem_new_def msm_gem_new_impl_def Let_def split: if_splits)
  ultimately show ?thesis by blast
next
  case False
  define x where "x = \<lparr>obj_size = unat (PAGE_ALIGN sz), import_attach = False, go_flags = flags, madv = MSM_MADV_WILLNEED,
    dontneed = False, evictable = False, vmap_count = 0, mm_node = Null, pages = False, sgt = False, vaddr = False, vmas = [],
    vram_node = False, active_count = 0, pin_count = 0\<rparr>"
  let ?g = "upd_obj b (\<lambda>_. x) g"
  have e: "msm_gem_new mem 0 vma_mem pe phys sz flags b g = map_option (Pair 0) (gem_publish b ?g)"
    using False assms(3,4)
    by (auto simp: msm_gem_new_def msm_gem_new_impl_def Let_def upd_obj_def x_def split: if_splits)
  have g: "gem_ok ?g (hs(b := {#})) k" by (rule gem_ok_other [OF assms(1,2)])
  have "\<exists>g'. gem_publish b ?g = Some g' \<and> gem_ok (upd_obj b (\<lambda>x. x) g') ((hs(b := {#}))(b := {#})) k"
    by (rule gem_ok_new [OF g]) (use assms(2) in \<open>simp_all add: x_def fresh_obj_ok class_ok_def is_unpurgeable_def madv_defs\<close>)
  with e show ?thesis by (auto simp: upd_obj_id)
qed

text \<open>An imported object, when the driver has it attached.\<close>

lemma msm_gem_import_ok:
  assumes "gem_ok g hs k" "b \<notin> set (objects g)"
  shows "\<exists>ret g'. msm_gem_import mem True 0 bytes b g = Some (ret, g') \<and> (ret \<noteq> 0 \<longrightarrow> g' = g) \<and>
    gem_ok (if ret = 0 then upd_obj b (\<lambda>x. x\<lparr>import_attach := True\<rparr>) g' else g') (hs(b := {#})) k"
proof (cases "use_mmu g \<and> mem")
  case False
  have "gem_ok (upd_obj b (\<lambda>x. x) g) (hs(b := {#})) k" by (rule gem_ok_other [OF assms])
  then have "gem_ok g (hs(b := {#})) k" by (simp add: upd_obj_id)
  moreover have "\<exists>ret. ret \<noteq> 0 \<and> msm_gem_import mem True 0 bytes b g = Some (ret, g)"
    using False by (auto simp: msm_gem_import_def msm_gem_new_impl_def Let_def MSM_BO_CACHE_MASK_def)
  ultimately show ?thesis by auto
next
  case True
  define x where "x = \<lparr>obj_size = unat (ucast ((bytes + 0xFFF) AND NOT 0xFFF) :: u32), import_attach = False,
    go_flags = 0x00020000, madv = MSM_MADV_WILLNEED,
    dontneed = False, evictable = False, vmap_count = 0, mm_node = Null, pages = True, sgt = True, vaddr = False, vmas = [],
    vram_node = False, active_count = 0, pin_count = 0\<rparr>"
  let ?g = "upd_obj b (\<lambda>_. x) g"
  have e: "msm_gem_import mem True 0 bytes b g = map_option (Pair 0) (gem_publish b ?g)"
    using True by (simp add: msm_gem_import_def msm_gem_new_impl_def Let_def upd_obj_def x_def MSM_BO_CACHE_MASK_def)
  have g: "gem_ok ?g (hs(b := {#})) k" by (rule gem_ok_other [OF assms])
  have "\<exists>g'. gem_publish b ?g = Some g' \<and>
      gem_ok (upd_obj b (\<lambda>x. x\<lparr>import_attach := True\<rparr>) g') ((hs(b := {#}))(b := {#})) k"
    by (rule gem_ok_new [OF g])
      (use assms(2) in \<open>simp_all add: x_def fresh_obj_ok class_ok_def is_unpurgeable_def madv_defs mm_view_def\<close>)
  with e show ?thesis by auto
qed

text \<open>Freeing an object that nobody holds.\<close>

lemma mm_struct_remove:
  assumes "mm_struct g k" "b \<in> set (objects g)" "\<And>l. mm_node (gem_objs g b) \<noteq> On l" "\<not> dontneed (gem_objs g b)"
  shows "mm_struct (g\<lparr>objects := remove1 b (objects g)\<rparr>) (k + weight (evictable (gem_objs g b)) (gem_objs g b))"
proof -
  have d: "distinct (objects g)" using assms(1) by (simp add: mm_struct_def)
  have set: "set (remove1 b (objects g)) = set (objects g) - {b}" by (rule set_remove1_eq [OF d])
  have sum: "sum f (set (objects g)) = f b + sum f (set (objects g) - {b})" for f :: "nat \<Rightarrow> int"
    by (rule sum.remove) (use assms(2) in simp_all)
  show ?thesis
    using assms(1,3,4) unfolding mm_struct_def by (auto simp: set sum weight_def)
qed

lemma weight_flags [simp]: "weight c (x\<lparr>dontneed := d, mm_node := n\<rparr>) = weight c x"
  by (simp add: weight_def npages_def)

lemma objects_comm:
  "mark_unpurgeable b (g\<lparr>objects := os\<rparr>) = (mark_unpurgeable b g)\<lparr>objects := os\<rparr>"
  "mm_del b (g\<lparr>objects := os\<rparr>) = map_option (\<lambda>g. g\<lparr>objects := os\<rparr>) (mm_del b g)"
  by (auto simp: mark_unpurgeable_def mm_del_def upd_obj_def Let_def split: mm_node.splits)

lemma msm_gem_free_object_ok:
  assumes "gem_ok g hs k" "b \<in> set (objects g)" "hs b = {#}"
  shows "\<exists>g'. msm_gem_free_object b g = Some g' \<and>
    gem_ok g' hs (k + weight (evictable (gem_objs g b)) (gem_objs g b)) \<and> objects g' = remove1 b (objects g)"
proof -
  define x where "x = gem_objs g b"
  let ?os = "remove1 b (objects g)" and ?k = "k + weight (evictable x) x"
  note good = gem_ok_good [OF assms(1,2)]
  note okx = goodD(4) [OF good, folded x_def] and cx = goodD(3) [OF good, folded x_def]
  let ?g1 = "if dontneed x then mark_unpurgeable b g else g"
  have g1: "mm_struct ?g1 k" "b \<in> set (objects ?g1)" "same_else b g ?g1" "objects ?g1 = objects g"
    using mark_struct(2) [OF goodD(2,1) [OF good]] goodD(1,2) [OF good] by simp_all
  have x1: "gem_objs ?g1 b = x\<lparr>dontneed := False\<rparr>"
    using class_ok_dontneed [OF cx] by (auto simp: x_def is_unpurgeable_def)
  obtain l where "mm_node x = On l" using class_okD [OF cx] .
  with mm_del_struct [OF g1(1,2), of l] x1 obtain g2 where g2: "mm_del b ?g1 = Some g2" "mm_struct g2 k"
    "same_else b ?g1 g2" "gem_objs g2 b = x\<lparr>dontneed := False, mm_node := Self\<rparr>" by auto
  let ?g3 = "g2\<lparr>objects := ?os\<rparr>"
  have o2: "objects g2 = objects g" "fence_ctxs g2 = fence_ctxs g" using g1(3) g2(3) g1(4) by (auto simp: same_else_def)
  have s3: "mm_struct ?g3 ?k"
    using mm_struct_remove [OF g2(2), of b] assms(2) o2(1) by (simp add: g2(4))
  have b: "b \<notin> set ?os" using goodD(2) [OF good] by (simp add: mm_struct_def)
  have e: "mm_del b ((if dontneed (gem_objs (g\<lparr>objects := ?os\<rparr>) b) then mark_unpurgeable b (g\<lparr>objects := ?os\<rparr>)
      else g\<lparr>objects := ?os\<rparr>)) = Some ?g3"
    using g2(1) by (auto simp: objects_comm x_def [symmetric])
  have ok3: "obj_ok (fence_ctxs ?g3) (hs b) (gem_objs ?g3 b)" and pin3: "pin_count (gem_objs ?g3 b) = 0"
    using okx obj_ok_cong [of "gem_objs ?g3 b" x "fence_ctxs g" "hs b"] obj_okD(1) [OF okx] assms(3)
    by (simp_all add: g2(4) obj_view_def o2)
  from put_iova_spaces_good [OF ok3 pin3, of True] obtain ys sp where
    p: "put_iova_spaces True b ?g3 = Some (upd_obj b (\<lambda>x. x\<lparr>vmas := ys\<rparr>) (?g3\<lparr>spaces := sp\<rparr>))" by blast
  let ?g4 = "upd_obj b (\<lambda>x. x\<lparr>vmas := ys\<rparr>) (?g3\<lparr>spaces := sp\<rparr>)"
  have x4: "\<not> vram_node (gem_objs ?g4 b)" "sgt (gem_objs ?g4 b) \<longrightarrow> pages (gem_objs ?g4 b)"
    using obj_okD(8,13) [OF okx] by (simp_all add: g2(4))
  have "\<exists>f. msm_gem_free_object b g = Some (upd_obj b f (?g3\<lparr>spaces := sp\<rparr>))"
  proof (cases "import_attach x")
    case True
    with e p show ?thesis by (auto simp: msm_gem_free_object_def Let_def g2(4) put_iova_vmas_def upd_vmas_def)
  next
    case False
    have "put_pages b (upd_obj b vunmap_obj ?g4) = upd_obj b (\<lambda>x. x\<lparr>pages := False, sgt := False\<rparr>) (upd_obj b vunmap_obj ?g4)"
      by (rule put_pages_obj) (use x4 in simp_all)
    with e p False show ?thesis
      by (auto simp: msm_gem_free_object_def Let_def g2(4) put_iova_vmas_def upd_vmas_def msm_gem_vunmap_obj)
  qed
  then obtain f where f: "msm_gem_free_object b g = Some (upd_obj b f (?g3\<lparr>spaces := sp\<rparr>))" by blast
  let ?g5 = "upd_obj b f (?g3\<lparr>spaces := sp\<rparr>)"
  have m: "mm_struct ?g5 ?k" by (rule mm_struct_other) (use s3 b in simp_all)
  have same: "gem_objs g2 c = gem_objs g c" if "c \<noteq> b" for c using g1(3) g2(3) that by (simp add: same_else_def)
  have fields: "objects ?g5 = ?os" "fence_ctxs ?g5 = fence_ctxs g" by (simp_all add: o2)
  have "class_ok (gem_objs ?g5 c) \<and> obj_ok (fence_ctxs g) (hs c) (gem_objs ?g5 c)" if "c \<in> set ?os" for c
  proof -
    have "c \<noteq> b" "c \<in> set (objects g)" using that b notin_set_remove1 by metis+
    moreover from this have "gem_objs ?g5 c = gem_objs g c" using same by simp
    ultimately show ?thesis using gem_ok_good [OF assms(1), of c] by (simp only: good_def)
  qed
  with assms(1) m have "gem_ok ?g5 hs ?k" unfolding gem_ok_def fields by blast
  with f show ?thesis by (simp add: x_def)
qed

section \<open>The shrinker\<close>

lemma class_ok_on:
  assumes "mm_node y = On l"
  shows "class_ok y \<longleftrightarrow> (active_count y \<noteq> 0 \<longleftrightarrow> lru_of l = Active) \<and>
    (lru_of l = Willneed \<longrightarrow> madv y = 0 \<and> sgt y) \<and> (lru_of l = Dontneed \<longrightarrow> madv y = 1) \<and>
    (lru_of l = Unpinned \<longrightarrow> madv y = 2 \<or> madv y = 0 \<and> (\<not> sgt y \<or> import_attach y)) \<and>
    (dontneed y \<longrightarrow> madv y = 1 \<and> \<not> is_unpurgeable y) \<and>
    (active_count y = 0 \<and> madv y = 1 \<and> \<not> is_unpurgeable y \<longrightarrow> dontneed y)"
  by (simp add: class_ok_def assms)

lemma class_ok_list:
  assumes "class_ok x" "mm_node x = On m" "lru_of m' = lru_of m"
  shows "class_ok (x\<lparr>mm_node := On m'\<rparr>)"
proof -
  have n: "mm_node (x\<lparr>mm_node := On m'\<rparr>) = On m'" by simp
  have u: "is_unpurgeable (x\<lparr>mm_node := On m'\<rparr>) = is_unpurgeable x" by (simp add: is_unpurgeable_def)
  have f: "active_count (x\<lparr>mm_node := On m'\<rparr>) = active_count x" "madv (x\<lparr>mm_node := On m'\<rparr>) = madv x"
    "sgt (x\<lparr>mm_node := On m'\<rparr>) = sgt x" "import_attach (x\<lparr>mm_node := On m'\<rparr>) = import_attach x"
    "dontneed (x\<lparr>mm_node := On m'\<rparr>) = dontneed x" by simp_all
  show ?thesis
    using assms(1) unfolding class_ok_on [OF assms(2)] class_ok_on [OF n] u f assms(3) .
qed

lemma obj_ok_node [simp]: "obj_ok ctxs H (x\<lparr>mm_node := n\<rparr>) = obj_ok ctxs H x"
  by (rule obj_ok_cong) (simp_all add: obj_view_def)

text \<open>Nodes move between lists of the same kind.\<close>

lemma gem_ok_lists:
  assumes "gem_ok g hs k" "objects g' = objects g" "fence_ctxs g' = fence_ctxs g"
    and "shrinkable_count g' = shrinkable_count g" "evictable_count g' = evictable_count g"
    and "\<And>l. distinct (mm g' l) \<and> set (mm g' l) = {b \<in> set (objects g). mm_node (gem_objs g' b) = On l}"
    and "\<And>b. b \<in> set (objects g) \<Longrightarrow> gem_objs g' b = gem_objs g b \<or>
      (\<exists>m m'. mm_node (gem_objs g b) = On m \<and> lru_of m' = lru_of m \<and> gem_objs g' b = (gem_objs g b)\<lparr>mm_node := On m'\<rparr>)"
  shows "gem_ok g' hs k"
proof -
  have w: "weight (dontneed (gem_objs g' b)) (gem_objs g' b) = weight (dontneed (gem_objs g b)) (gem_objs g b)"
      "weight (evictable (gem_objs g' b)) (gem_objs g' b) = weight (evictable (gem_objs g b)) (gem_objs g b)"
    if "b \<in> set (objects g)" for b
    using assms(7) [OF that] by (auto simp: weight_def npages_def)
  have sums: "(\<Sum>b\<in>set (objects g). weight (dontneed (gem_objs g' b)) (gem_objs g' b)) =
      (\<Sum>b\<in>set (objects g). weight (dontneed (gem_objs g b)) (gem_objs g b))"
    "(\<Sum>b\<in>set (objects g). weight (evictable (gem_objs g' b)) (gem_objs g' b)) =
      (\<Sum>b\<in>set (objects g). weight (evictable (gem_objs g b)) (gem_objs g b))"
    by (rule sum.cong [OF refl], simp add: w)+
  have "class_ok (gem_objs g' b) \<and> obj_ok (fence_ctxs g) (hs b) (gem_objs g' b)" if "b \<in> set (objects g)" for b
    using assms(7) [OF that] gem_ok_good [OF assms(1) that] class_ok_list by (auto simp: good_def)
  with assms(1-6) show ?thesis unfolding gem_ok_def mm_struct_def assms(2-5) sums by auto
qed

lemma scan_take_ok:
  assumes "gem_ok g hs k" "scan_take l n g = (r, g')"
  shows "gem_ok g' hs k \<and> objects g' = objects g \<and> (\<forall>b. r = Some b \<longrightarrow> b \<in> set (objects g))"
proof (cases "mm g (Main l)")
  case Nil
  with assms show ?thesis by (simp add: scan_take_def)
next
  case (Cons b bs)
  have m: "mm_struct g k" using assms(1) by (simp add: gem_ok_def)
  then have s: "distinct (mm g m)" "set (mm g m) = {b \<in> set (objects g). mm_node (gem_objs g b) = On m}" for m
    by (simp_all add: mm_struct_def)
  have b: "b \<in> set (objects g)" "mm_node (gem_objs g b) = On (Main l)" using s(2) [of "Main l"] Cons by auto
  have e: "r = Some b" "g' = upd_obj b (\<lambda>x. x\<lparr>mm_node := On (Still l n)\<rparr>)
      (g\<lparr>mm := (mm g)(Main l := bs, Still l n := mm g (Still l n) @ [b])\<rparr>)"
    using assms(2) Cons by (simp_all add: scan_take_def)
  have node: "gem_objs g' c = (if c = b then (gem_objs g b)\<lparr>mm_node := On (Still l n)\<rparr> else gem_objs g c)" for c
    by (simp add: e(2) upd_obj_def)
  have mm: "mm g' = (mm g)(Main l := bs, Still l n := mm g (Still l n) @ [b])" by (simp add: e(2))
  have lists: "distinct (mm g' m) \<and> set (mm g' m) = {c \<in> set (objects g). mm_node (gem_objs g' c) = On m}" for m
  proof -
    consider "m = Main l" | "m = Still l n" | "m \<noteq> Main l" "m \<noteq> Still l n" by blast
    then show ?thesis
    proof cases
      case 1
      then show ?thesis using s [of m] Cons by (auto simp: mm node)
    next
      case 2
      then show ?thesis using s [of m] b by (auto simp: mm node)
    next
      case 3
      then show ?thesis using s [of m] b by (auto simp: mm node)
    qed
  qed
  have "gem_ok g' hs k"
  proof (rule gem_ok_lists [OF assms(1) _ _ _ _ lists])
    fix c
    show "gem_objs g' c = gem_objs g c \<or> (\<exists>m m'. mm_node (gem_objs g c) = On m \<and> lru_of m' = lru_of m \<and>
        gem_objs g' c = (gem_objs g c)\<lparr>mm_node := On m'\<rparr>)"
    proof (cases "c = b")
      case True
      have "lru_of (Still l n) = lru_of (Main l)" by simp
      with True b(2) node show ?thesis by metis
    qed (simp add: node)
  qed (simp_all add: e(2))
  with b(1) e show ?thesis by simp
qed

lemma fold_nodes:
  "gem_objs (fold (\<lambda>b. upd_obj b (\<lambda>x. x\<lparr>mm_node := n\<rparr>)) bs g) c =
     (if c \<in> set bs then (gem_objs g c)\<lparr>mm_node := n\<rparr> else gem_objs g c)"
  "objects (fold (\<lambda>b. upd_obj b (\<lambda>x. x\<lparr>mm_node := n\<rparr>)) bs g) = objects g"
  "mm (fold (\<lambda>b. upd_obj b (\<lambda>x. x\<lparr>mm_node := n\<rparr>)) bs g) = mm g"
  "fence_ctxs (fold (\<lambda>b. upd_obj b (\<lambda>x. x\<lparr>mm_node := n\<rparr>)) bs g) = fence_ctxs g"
  "shrinkable_count (fold (\<lambda>b. upd_obj b (\<lambda>x. x\<lparr>mm_node := n\<rparr>)) bs g) = shrinkable_count g"
  "evictable_count (fold (\<lambda>b. upd_obj b (\<lambda>x. x\<lparr>mm_node := n\<rparr>)) bs g) = evictable_count g"
  by (induction bs arbitrary: g) (auto simp: upd_obj_def)

lemma scan_splice_ok:
  assumes "gem_ok g hs k"
  shows "gem_ok (scan_splice l n g) hs k \<and> objects (scan_splice l n g) = objects g"
proof -
  let ?g' = "scan_splice l n g" and ?bs = "mm g (Still l n)"
  have "mm_struct g k" using assms by (simp add: gem_ok_def)
  then have s: "distinct (mm g m)" "set (mm g m) = {b \<in> set (objects g). mm_node (gem_objs g b) = On m}" for m
    by (simp_all add: mm_struct_def)
  have node: "gem_objs ?g' c = (if c \<in> set ?bs then (gem_objs g c)\<lparr>mm_node := On (Main l)\<rparr> else gem_objs g c)" for c
    by (simp add: scan_splice_def fold_nodes)
  have mm: "mm ?g' = (mm g)(Main l := mm g (Main l) @ ?bs, Still l n := [])"
    by (simp add: scan_splice_def fold_nodes)
  have lists: "distinct (mm ?g' m) \<and> set (mm ?g' m) = {c \<in> set (objects g). mm_node (gem_objs ?g' c) = On m}" for m
    unfolding mm using s [of m] s [of "Still l n"] s [of "Main l"] by (auto simp: node)
  have move: "gem_objs ?g' c = gem_objs g c \<or> (\<exists>m m'. mm_node (gem_objs g c) = On m \<and> lru_of m' = lru_of m \<and>
      gem_objs ?g' c = (gem_objs g c)\<lparr>mm_node := On m'\<rparr>)" for c
  proof (cases "c \<in> set ?bs")
    case True
    then have "mm_node (gem_objs g c) = On (Still l n) \<and> lru_of (Main l) = lru_of (Still l n) \<and>
        gem_objs ?g' c = (gem_objs g c)\<lparr>mm_node := On (Main l)\<rparr>" using s(2) by (simp add: node)
    then show ?thesis by blast
  qed (simp add: node)
  have "gem_ok ?g' hs k"
    by (rule gem_ok_lists [OF assms _ _ _ _ lists move]) (simp_all add: scan_splice_def fold_nodes)
  then show ?thesis by (simp add: scan_splice_def fold_nodes)
qed

lemma shrink_object_ok:
  assumes "gem_ok g hs k" "b \<in> set (objects g)" "H_Active \<notin># hs b"
  obtains ok g' where "shrink_object f b g = Some (ok, g')" "gem_ok g' hs k" "objects g' = objects g"
proof -
  from shrink_object_good [OF gem_ok_good [OF assms(1,2)] assms(3), of f] obtain ok g' where
    "shrink_object f b g = Some (ok, g')" "same_else b g g'" "good b k (hs b) g'" by blast
  with that gem_ok_same [OF assms(1)] show thesis by (auto simp: same_else_def)
qed

text \<open>The shrinker run on its own, on the objects it can lock.\<close>

lemma scan_loop_ok:
  assumes "gem_ok g hs k" "\<forall>b \<in> set (objects g). lock b \<longrightarrow> H_Active \<notin># hs b"
  shows "\<exists>freed' g'. scan_loop f l n ref lock nr i freed g = Some (freed', g') \<and> gem_ok g' hs k \<and> objects g' = objects g"
  using assms
proof (induction i arbitrary: freed g)
  case 0
  then show ?case by simp
next
  case (Suc i)
  obtain r g1 where t: "scan_take l n g = (r, g1)" by fastforce
  note ok1 = scan_take_ok [OF Suc.prems(1) t]
  note IH = Suc.IH [of g1] Suc.prems(2)
  show ?case
  proof (cases "freed \<ge> nr \<or> r = None")
    case True
    with t ok1 Suc.prems(1) show ?thesis by auto
  next
    case False
    then obtain b where r: "r = Some b" "b \<in> set (objects g)" using ok1 by auto
    show ?thesis
    proof (cases "ref b \<and> lock b")
      case True
      from ok1 r have "gem_ok g1 hs k" "b \<in> set (objects g1)" by simp_all
      from shrink_object_ok [OF this, of f] True r Suc.prems(2) obtain ok g2 where
        "shrink_object f b g1 = Some (ok, g2)" "gem_ok g2 hs k" "objects g2 = objects g" using ok1 by metis
      with False True r t Suc.IH [of g2] Suc.prems(2) show ?thesis by auto
    next
      case no: False
      with False r t ok1 Suc.IH [of g1 freed] Suc.prems(2) show ?thesis by auto
    qed
  qed
qed

lemma scan_ok:
  assumes "gem_ok g hs k" "\<forall>b \<in> set (objects g). lock b \<longrightarrow> H_Active \<notin># hs b"
  obtains freed g' where "scan f l n ref lock nr g = Some (freed, g')" "gem_ok g' hs k" "objects g' = objects g"
proof -
  from scan_loop_ok [OF assms, of f l n ref nr "length (mm g (Main l))" 0] obtain freed g' where
    "scan_loop f l n ref lock nr (length (mm g (Main l))) 0 g = Some (freed, g')" "gem_ok g' hs k" "objects g' = objects g"
    by blast
  with that [of freed "scan_splice l n g'"] scan_splice_ok [of g' hs k l n] show thesis by (simp add: scan_def)
qed

lemma msm_gem_shrinker_scan_ok:
  assumes "gem_ok g hs k" "\<forall>b \<in> set (objects g). lock b \<longrightarrow> H_Active \<notin># hs b"
  shows "\<exists>ret g'. msm_gem_shrinker_scan swap n ref lock nr g = Some (ret, g') \<and> gem_ok g' hs k"
proof -
  obtain freed g1 where g1: "scan Purge Dontneed n ref lock nr g = Some (freed, g1)" "gem_ok g1 hs k" "objects g1 = objects g"
    by (rule scan_ok [OF assms])
  have "\<forall>b \<in> set (objects g1). lock b \<longrightarrow> H_Active \<notin># hs b" using assms(2) g1(3) by simp
  from scan_ok [OF g1(2) this] obtain ev g2 where
    "scan Evict Willneed n ref lock (nr - freed) g1 = Some (ev, g2)" "gem_ok g2 hs k" by blast
  with g1 show ?thesis by (simp add: msm_gem_shrinker_scan_def)
qed

lemma shrink_vmaps_ok:
  assumes "gem_ok g hs k" "\<forall>b \<in> set (objects g). lock b \<longrightarrow> H_Active \<notin># hs b"
  shows "\<exists>u g'. shrink_vmaps ls n ref lock unmapped g = Some (u, g') \<and> gem_ok g' hs k"
  using assms
proof (induction ls arbitrary: unmapped g)
  case (Cons l ls)
  from scan_ok [OF Cons.prems] obtain i g1 where
    "scan Vmap_shrink l n ref lock (15 - unmapped) g = Some (i, g1)" "gem_ok g1 hs k" "objects g1 = objects g" by blast
  with Cons show ?case by simp
qed simp

lemma msm_gem_shrinker_vmap_ok:
  assumes "gem_ok g hs k" "\<forall>b \<in> set (objects g). lock b \<longrightarrow> H_Active \<notin># hs b"
  shows "\<exists>u g'. msm_gem_shrinker_vmap gpu n ref lock g = Some (u, g') \<and> gem_ok g' hs k"
  unfolding msm_gem_shrinker_vmap_def by (rule shrink_vmaps_ok [OF assms])

section \<open>Fences\<close>

text \<open>
  Fences are allocated and complete; a fence that a mapping waits for and that was complete stays so, which is
  the case while the ring is less than \<open>2\<^sup>3\<^sup>1\<close> submissions ahead.
\<close>

definition fences_keep :: "(nat \<Rightarrow> msm_fence_context) \<Rightarrow> msm_drm_private \<Rightarrow> bool" where
  "fences_keep ctxs g =
     list_all (\<lambda>b. list_all (\<lambda>(_, v). list_all (\<lambda>i.
         pending_at ctxs (fence v) (fctx v) (fence_mask v) i \<longrightarrow>
         pending_at (fence_ctxs g) (fence v) (fctx v) (fence_mask v) i) [0..<32])
       (vmas (gem_objs g b))) (objects g)"

lemma fences_keepD:
  assumes "fences_keep ctxs g" "b \<in> set (objects g)" "p \<in> set (vmas (gem_objs g b))"
    and "pending_at ctxs (fence (snd p)) (fctx (snd p)) (fence_mask (snd p)) i"
  shows "pending_at (fence_ctxs g) (fence (snd p)) (fctx (snd p)) (fence_mask (snd p)) i"
proof -
  have "i < 32" using assms(4) bit_imp_le_length [of "fence_mask (snd p)" i] by (auto simp: pending_at_def)
  with assms show ?thesis by (fastforce simp: fences_keep_def list_all_iff split_beta)
qed

lemma obj_ok_fences:
  assumes "obj_ok ctxs H x"
    and "\<And>p i. p \<in> set (vmas x) \<Longrightarrow> pending_at ctxs' (fence (snd p)) (fctx (snd p)) (fence_mask (snd p)) i \<Longrightarrow>
      pending_at ctxs (fence (snd p)) (fctx (snd p)) (fence_mask (snd p)) i"
  shows "obj_ok ctxs' H x"
proof -
  have "vma_ok ctxs' H (pages x) a (snd p)" if "p \<in> set (vmas x)" "vma_ok ctxs H (pages x) a (snd p)" for p a
  proof -
    have sh: "vma_shape (snd p)" using that(2) by (simp add: vma_ok_def)
    have "pending ctxs' (snd p) \<Longrightarrow> pending ctxs (snd p)"
      using assms(2) [OF that(1)] unfolding pending_iff [OF sh] by blast
    with that(2) assms(2) [OF that(1)] show ?thesis unfolding vma_ok_def by blast
  qed
  with assms(1) show ?thesis unfolding obj_ok_def by blast
qed

lemma gem_ok_fences:
  assumes "gem_ok g hs k" "fences_keep ctxs g" "\<And>i. fc_index (ctxs i) = i"
  shows "gem_ok (g\<lparr>fence_ctxs := ctxs\<rparr>) hs k"
  unfolding gem_ok_def
proof (intro conjI ballI allI)
  show "mm_struct (g\<lparr>fence_ctxs := ctxs\<rparr>) k" using assms(1) by (simp add: gem_ok_def)
next
  fix i show "fc_index (fence_ctxs (g\<lparr>fence_ctxs := ctxs\<rparr>) i) = i" by (simp add: assms(3))
next
  fix b assume "b \<in> set (objects (g\<lparr>fence_ctxs := ctxs\<rparr>))"
  then have b: "b \<in> set (objects g)" by simp
  note good = gem_ok_good [OF assms(1) b]
  show "class_ok (gem_objs (g\<lparr>fence_ctxs := ctxs\<rparr>) b)" using goodD(3) [OF good] by simp
  have "obj_ok ctxs (hs b) (gem_objs g b)"
    by (rule obj_ok_fences [OF goodD(4) [OF good]]) (rule fences_keepD [OF assms(2) b])
  then show "obj_ok (fence_ctxs (g\<lparr>fence_ctxs := ctxs\<rparr>)) (hs b) (gem_objs (g\<lparr>fence_ctxs := ctxs\<rparr>) b)" by simp
qed

lemma fence_alloc_keeps:
  "fences_keep ((fence_ctxs g)(i := snd (msm_fence_alloc mem (fence_ctxs g i)))) g"
  by (simp add: fences_keep_def list_all_iff split_beta pending_at_def msm_fence_alloc_def Let_def msm_fence_completed_def)

section \<open>The system\<close>

text \<open>
  A device with the holders of its objects and what was freed as evictable.  The operations: those of the driver
  (with the outcomes of allocators, mappings and locks), a submission that locks and pins an object, is undone, runs and
  is retired, the shrinker, and the progress of fences.
\<close>

record gem_sys =
  dev :: msm_drm_private
  holds :: "nat \<Rightarrow> hold multiset"
  leak :: int

datatype gem_op =
    G_new bool bool page_env u64 u32 u32 nat | G_import bool u64 nat | G_free nat
  | G_get_pages page_env nat | G_put_pages nat | G_fault int page_env nat nat
  | G_get_iova bool "int + u64" nat nat | G_set_iova bool "int + u64" nat u64 nat
  | G_pin_iova bool "int + u64" page_env int nat nat | G_unpin_iova nat nat
  | G_get_vaddr page_env bool nat | G_get_vaddr_active page_env bool nat | G_put_vaddr nat | G_madvise u32 nat
  | G_submit_lock nat | G_submit_pin bool "int + u64" page_env int nat nat | G_submit_undo "nat option" nat
  | G_job_run nat nat nat | G_retire nat nat u32 nat
  | G_scan_take lru nat | G_shrink shrink nat | G_scan_splice lru nat
  | G_shrinker_scan bool nat "nat list" "nat list" nat | G_shrinker_vmap bool nat "nat list" "nat list"
  | G_fence_alloc bool nat | G_fence_done nat u32 | G_update_fence nat u32

definition gem_put :: "gem_sys \<Rightarrow> nat \<Rightarrow> hold multiset \<Rightarrow> msm_drm_private \<Rightarrow> gem_sys" where
  "gem_put s b H g = s\<lparr>dev := g, holds := (holds s)(b := H)\<rparr>"

definition set_ctx :: "nat \<Rightarrow> msm_fence_context \<Rightarrow> msm_drm_private \<Rightarrow> msm_drm_private" where
  "set_ctx i c g = g\<lparr>fence_ctxs := (fence_ctxs g)(i := c)\<rparr>"

fun gem_exec :: "gem_op \<Rightarrow> gem_sys \<Rightarrow> gem_sys option" where
  "gem_exec (G_new mem vm pe phys sz flags b) s =
     map_option (\<lambda>(r, g). gem_put s b {#} g) (msm_gem_new mem 0 vm pe phys sz flags b (dev s))"
| "gem_exec (G_import mem bytes b) s =
     map_option (\<lambda>(r, g). gem_put s b {#} (if r = 0 then upd_obj b (\<lambda>x. x\<lparr>import_attach := True\<rparr>) g else g))
       (msm_gem_import mem True 0 bytes b (dev s))"
| "gem_exec (G_free b) s =
     map_option (\<lambda>g. s\<lparr>dev := g, leak := leak s + weight (evictable (gem_objs (dev s) b)) (gem_objs (dev s) b)\<rparr>)
       (msm_gem_free_object b (dev s))"
| "gem_exec (G_get_pages pe b) s =
     map_option (\<lambda>(r, g). gem_put s b (if r = 0 then add_mset H_Pages (holds s b) else holds s b) g)
       (msm_gem_get_pages pe b (dev s))"
| "gem_exec (G_put_pages b) s = map_option (gem_put s b (holds s b - {#H_Pages#})) (msm_gem_put_pages b (dev s))"
| "gem_exec (G_fault err pe pgoff b) s = map_option (\<lambda>(r, g). s\<lparr>dev := g\<rparr>) (msm_gem_fault err pe pgoff b (dev s))"
| "gem_exec (G_get_iova mem node a b) s =
     map_option (\<lambda>(r, v, g). s\<lparr>dev := g\<rparr>) (msm_gem_get_iova mem node (Some a) b (dev s))"
| "gem_exec (G_set_iova mem node a v b) s =
     map_option (\<lambda>(r, g). s\<lparr>dev := g\<rparr>) (msm_gem_set_iova mem node (Some a) v b (dev s))"
| "gem_exec (G_pin_iova mem node pe ret a b) s =
     map_option (\<lambda>(r, v, g). gem_put s b (if r = 0 then add_mset (H_Iova a) (holds s b) else holds s b) g)
       (get_and_pin_iova_range_locked mem node pe ret (Some a) b (dev s))"
| "gem_exec (G_unpin_iova a b) s =
     map_option (gem_put s b (holds s b - {#H_Iova a#})) (msm_gem_unpin_iova (Some a) b (dev s))"
| "gem_exec (G_get_vaddr pe vmap b) s = map_option (\<lambda>(r, g). s\<lparr>dev := g\<rparr>) (msm_gem_get_vaddr pe vmap b (dev s))"
| "gem_exec (G_get_vaddr_active pe vmap b) s =
     map_option (\<lambda>(r, g). s\<lparr>dev := g\<rparr>) (msm_gem_get_vaddr_active pe vmap b (dev s))"
| "gem_exec (G_put_vaddr b) s = Some (s\<lparr>dev := msm_gem_put_vaddr b (dev s)\<rparr>)"
| "gem_exec (G_madvise m b) s = map_option (\<lambda>(r, g). s\<lparr>dev := g\<rparr>) (msm_gem_madvise m b (dev s))"
| "gem_exec (G_submit_lock b) s =
     map_option (gem_put s b (add_mset H_Active (holds s b))) (msm_gem_active_get b (dev s))"
| "gem_exec (G_submit_pin mem node pe ret a b) s =
     map_option (\<lambda>(r, g). gem_put s b (if r = 0 then add_mset (H_Sub a) (holds s b - {#H_Active#}) else holds s b) g)
       (submit_pin_object mem node pe ret (Some a) b (dev s))"
| "gem_exec (G_submit_undo None b) s =
     map_option (gem_put s b (holds s b - {#H_Active#})) (submit_cleanup_bo False False True None b (dev s))"
| "gem_exec (G_submit_undo (Some a) b) s =
     map_option (gem_put s b (holds s b - {#H_Sub a#})) (submit_cleanup_bo True True True (Some a) b (dev s))"
| "gem_exec (G_job_run i a b) s =
     map_option (gem_put s b (add_mset (H_Run a i (last_fence (fence_ctxs (dev s) i))) (holds s b - {#H_Sub a#})))
       (job_run_object i (Some a) b (dev s))"
| "gem_exec (G_retire a i f b) s =
     map_option (gem_put s b (holds s b - {#H_Run a i f#})) (submit_cleanup_bo False True True (Some a) b (dev s))"
| "gem_exec (G_scan_take l n) s = Some (s\<lparr>dev := snd (scan_take l n (dev s))\<rparr>)"
| "gem_exec (G_shrink f b) s = map_option (\<lambda>(r, g). s\<lparr>dev := g\<rparr>) (shrink_object f b (dev s))"
| "gem_exec (G_scan_splice l n) s = Some (s\<lparr>dev := scan_splice l n (dev s)\<rparr>)"
| "gem_exec (G_shrinker_scan swap n ref lock nr) s =
     map_option (\<lambda>(r, g). s\<lparr>dev := g\<rparr>)
       (msm_gem_shrinker_scan swap n (\<lambda>b. b \<in> set ref) (\<lambda>b. b \<in> set lock) nr (dev s))"
| "gem_exec (G_shrinker_vmap gpu n ref lock) s =
     map_option (\<lambda>(r, g). s\<lparr>dev := g\<rparr>)
       (msm_gem_shrinker_vmap gpu n (\<lambda>b. b \<in> set ref) (\<lambda>b. b \<in> set lock) (dev s))"
| "gem_exec (G_fence_alloc mem i) s =
     Some (s\<lparr>dev := set_ctx i (snd (msm_fence_alloc mem (fence_ctxs (dev s) i))) (dev s)\<rparr>)"
| "gem_exec (G_fence_done i f) s = Some (s\<lparr>dev := set_ctx i ((fence_ctxs (dev s) i)\<lparr>fenceptr := f\<rparr>) (dev s)\<rparr>)"
| "gem_exec (G_update_fence i f) s = Some (s\<lparr>dev := set_ctx i (msm_update_fence (fence_ctxs (dev s) i) f) (dev s)\<rparr>)"

text \<open>
  What the callers and the locks guarantee: an operation that takes the lock of an object does not run while a
  submission has it locked; what is released was taken; a submission is retired when its fence has passed.
\<close>

definition unlocked :: "nat \<Rightarrow> gem_sys \<Rightarrow> bool" where
  "unlocked b s = (b \<in> set (objects (dev s)) \<and> H_Active \<notin># holds s b)"

definition lockable :: "nat list \<Rightarrow> gem_sys \<Rightarrow> bool" where
  "lockable bs s = list_all (\<lambda>b. b \<in> set bs \<longrightarrow> H_Active \<notin># holds s b) (objects (dev s))"

fun gem_allowed :: "gem_op \<Rightarrow> gem_sys \<Rightarrow> bool" where
  "gem_allowed (G_new mem vm pe phys sz flags b) s =
     (b \<notin> set (objects (dev s)) \<and> use_mmu (dev s) \<and>
      (flags AND (MSM_BO_STOLEN OR MSM_BO_SCANOUT) = 0 \<or> vram_size (dev s) = 0))"
| "gem_allowed (G_import mem bytes b) s = (b \<notin> set (objects (dev s)))"
| "gem_allowed (G_free b) s = (b \<in> set (objects (dev s)) \<and> holds s b = {#})"
| "gem_allowed (G_get_pages pe b) s = unlocked b s"
| "gem_allowed (G_put_pages b) s = (unlocked b s \<and> H_Pages \<in># holds s b)"
| "gem_allowed (G_fault err pe pgoff b) s = (unlocked b s \<and> pgoff < npages (gem_objs (dev s) b))"
| "gem_allowed (G_get_iova mem node a b) s = unlocked b s"
| "gem_allowed (G_set_iova mem node a v b) s = unlocked b s"
| "gem_allowed (G_pin_iova mem node pe ret a b) s = unlocked b s"
| "gem_allowed (G_unpin_iova a b) s = (unlocked b s \<and> H_Iova a \<in># holds s b)"
| "gem_allowed (G_get_vaddr pe vmap b) s = unlocked b s"
| "gem_allowed (G_get_vaddr_active pe vmap b) s =
     (unlocked b s \<and> 0 < active_count (gem_objs (dev s) b))"
| "gem_allowed (G_put_vaddr b) s = unlocked b s"
| "gem_allowed (G_madvise m b) s = (unlocked b s \<and> (m = 0 \<or> m = 1))"
| "gem_allowed (G_submit_lock b) s = unlocked b s"
| "gem_allowed (G_submit_pin mem node pe ret a b) s =
     (b \<in> set (objects (dev s)) \<and> H_Active \<in># holds s b)"
| "gem_allowed (G_submit_undo None b) s = (b \<in> set (objects (dev s)) \<and> H_Active \<in># holds s b)"
| "gem_allowed (G_submit_undo (Some a) b) s = (unlocked b s \<and> H_Sub a \<in># holds s b)"
| "gem_allowed (G_job_run i a b) s = (unlocked b s \<and> H_Sub a \<in># holds s b \<and> i < MAX_RINGS)"
| "gem_allowed (G_retire a i f b) s =
     (unlocked b s \<and> H_Run a i f \<in># holds s b \<and> msm_fence_completed (fence_ctxs (dev s) i) f)"
| "gem_allowed (G_scan_take l n) s = True"
| "gem_allowed (G_shrink f b) s = unlocked b s"
| "gem_allowed (G_scan_splice l n) s = True"
| "gem_allowed (G_shrinker_scan swap n ref lock nr) s = lockable lock s"
| "gem_allowed (G_shrinker_vmap gpu n ref lock) s = lockable lock s"
| "gem_allowed (G_fence_alloc mem i) s = True"
| "gem_allowed (G_fence_done i f) s =
     fences_keep ((fence_ctxs (dev s))(i := (fence_ctxs (dev s) i)\<lparr>fenceptr := f\<rparr>)) (dev s)"
| "gem_allowed (G_update_fence i f) s =
     fences_keep ((fence_ctxs (dev s))(i := msm_update_fence (fence_ctxs (dev s) i) f)) (dev s)"

definition gem_init :: "gem_sys \<Rightarrow> bool" where
  "gem_init s =
     (objects (dev s) = [] \<and> (\<forall>l. mm (dev s) l = []) \<and> shrinkable_count (dev s) = 0 \<and> evictable_count (dev s) = 0 \<and>
      (\<forall>i. fc_index (fence_ctxs (dev s) i) = i) \<and> leak s = 0)"

inductive gem_reachable :: "gem_sys \<Rightarrow> bool" where
  init: "gem_init s \<Longrightarrow> gem_reachable s"
| step: "gem_reachable s \<Longrightarrow> gem_allowed op s \<Longrightarrow> gem_exec op s = Some s' \<Longrightarrow> gem_reachable s'"

section \<open>The invariant\<close>

definition gem_inv :: "gem_sys \<Rightarrow> bool" where
  "gem_inv s = gem_ok (dev s) (holds s) (leak s)"

lemma gem_inv_put:
  assumes "gem_inv s" "same_else b (dev s) g" "good b (leak s) H g"
  shows "gem_inv (gem_put s b H g)"
  using gem_ok_object [OF _ assms(2,3), of "holds s"] assms(1) by (simp add: gem_inv_def gem_put_def)

lemma gem_inv_dev: "gem_ok g (holds s) (leak s) \<Longrightarrow> gem_inv (s\<lparr>dev := g\<rparr>)"
  by (simp add: gem_inv_def)

lemma gem_inv_same:
  assumes "gem_inv s" "same_else b (dev s) g" "good b (leak s) (holds s b) g"
  shows "gem_inv (s\<lparr>dev := g\<rparr>)"
  using gem_ok_same [of "dev s" "holds s" "leak s" b g] assms by (simp add: gem_inv_def)

lemma gem_inv_good: "gem_inv s \<Longrightarrow> b \<in> set (objects (dev s)) \<Longrightarrow> good b (leak s) (holds s b) (dev s)"
  by (simp add: gem_inv_def gem_ok_good)

lemma unlockedD:
  assumes "gem_inv s" "unlocked b s"
  shows "good b (leak s) (holds s b) (dev s)" "H_Active \<notin># holds s b"
  using assms gem_inv_good by (auto simp: unlocked_def)

lemma gem_inv_ctx:
  assumes "gem_inv s" "fences_keep ((fence_ctxs (dev s))(i := c)) (dev s)" "fc_index c = i"
  shows "gem_inv (s\<lparr>dev := set_ctx i c (dev s)\<rparr>)"
proof -
  have "gem_ok (dev s) (holds s) (leak s)" using assms(1) by (simp add: gem_inv_def)
  from gem_ok_fences [OF this assms(2)] this assms(3) show ?thesis
    by (intro gem_inv_dev) (simp add: set_ctx_def gem_ok_def)
qed

text \<open>Operations that change who holds an object, and those that do not.\<close>

lemma step_put:
  assumes "gem_inv s" "\<exists>(r :: int) g. x = Some (r, g) \<and> same_else b (dev s) g \<and> good b (leak s) (if r = 0 then H else H') g"
  shows "\<exists>s'. map_option (\<lambda>(r, g). gem_put s b (if r = 0 then H else H') g) x = Some s' \<and> gem_inv s'"
proof -
  obtain r g where r: "x = Some (r, g)" "same_else b (dev s) g" "good b (leak s) (if r = 0 then H else H') g"
    using assms(2) by blast
  from gem_inv_put [OF assms(1) r(2,3)] r(1) show ?thesis by (cases "r = 0") simp_all
qed

lemma step_put1:
  assumes "gem_inv s" "\<exists>g. x = Some g \<and> same_else b (dev s) g \<and> good b (leak s) H g"
  shows "\<exists>s'. map_option (gem_put s b H) x = Some s' \<and> gem_inv s'"
  using assms gem_inv_put by auto

lemma step_same:
  assumes "gem_inv s" "\<exists>r g. x = Some (r, g) \<and> same_else b (dev s) g \<and> good b (leak s) (holds s b) g"
  shows "\<exists>s'. map_option (\<lambda>(r, g). s\<lparr>dev := g\<rparr>) x = Some s' \<and> gem_inv s'"
  using assms gem_inv_same by auto

lemma step_ok:
  assumes "\<exists>r g. x = Some (r, g) \<and> gem_ok g (holds s) (leak s)"
  shows "\<exists>s'. map_option (\<lambda>(r, g). s\<lparr>dev := g\<rparr>) x = Some s' \<and> gem_inv s'"
  using assms gem_inv_dev by auto

lemma lockableD:
  "lockable bs s \<Longrightarrow> \<forall>b \<in> set (objects (dev s)). b \<in> set bs \<longrightarrow> H_Active \<notin># holds s b"
  by (auto simp: lockable_def list_all_iff)

lemma fence_index [simp]:
  "fc_index (snd (msm_fence_alloc mem c)) = fc_index c" "fc_index (msm_update_fence c f) = fc_index c"
  by (auto simp: msm_fence_alloc_def msm_update_fence_def Let_def)

text \<open>The operations that pin an object follow a null pointer when it has pages without a scatter table.\<close>

fun gem_pins :: "gem_op \<Rightarrow> nat option" where
  "gem_pins (G_pin_iova mem node pe ret a b) = Some b"
| "gem_pins (G_submit_pin mem node pe ret a b) = Some b"
| "gem_pins _ = None"

lemma gem_step_pin:
  assumes inv: "gem_inv s" and "gem_allowed op s" "gem_pins op = Some b"
  shows "case gem_exec op s of None \<Rightarrow> \<not> backed (gem_objs (dev s) b) | Some s' \<Rightarrow> gem_inv s'"
proof -
  note good = gem_inv_good [OF inv] and un = unlockedD(1) [OF inv]
  note put = gem_inv_put [OF inv]
  show ?thesis
  proof (cases op)
    case (G_pin_iova mem node pe ret a c)
    with assms(3) have c: "c = b" by simp
    with assms(2) G_pin_iova have "unlocked b s" by simp
    from get_and_pin_good [OF un [OF this], where mem = mem and node = node and pe = pe and map_ret = ret and a = a] put show ?thesis
      by (auto simp: G_pin_iova c split: option.splits)
  next
    case (G_submit_pin mem node pe ret a c)
    with assms(3) have c: "c = b" by simp
    with assms(2) G_submit_pin have "b \<in> set (objects (dev s))" "H_Active \<in># holds s b" by simp_all
    from submit_pin_object_good [OF good [OF this(1)] this(2), where mem = mem and node = node and pe = pe and map_ret = ret and a = a] put show ?thesis
      by (auto simp: G_submit_pin c split: option.splits)
  qed (use assms(3) in simp_all)
qed

lemma gem_step:
  assumes inv: "gem_inv s" and "gem_allowed op s" and nopin: "gem_pins op = None"
  shows "\<exists>s'. gem_exec op s = Some s' \<and> gem_inv s'"
proof -
  have ok: "gem_ok (dev s) (holds s) (leak s)" and ix: "fc_index (fence_ctxs (dev s) i) = i" for i
    using inv by (simp_all add: gem_inv_def gem_ok_def)
  note good = gem_inv_good [OF inv] and un = unlockedD(1) [OF inv] and free = unlockedD(2) [OF inv]
  show ?thesis
  proof (cases op)
    case (G_new mem vm pe phys sz flags b)
    with assms(2) msm_gem_new_ok [OF ok, of b flags mem vm pe phys sz] show ?thesis
      by (auto simp: gem_put_def gem_inv_def)
  next
    case (G_import mem bytes b)
    with assms(2) have "b \<notin> set (objects (dev s))" by simp
    from msm_gem_import_ok [OF ok this, of mem bytes] obtain r g where
      r: "msm_gem_import mem True 0 bytes b (dev s) = Some (r, g)"
        "gem_ok (if r = 0 then upd_obj b (\<lambda>x. x\<lparr>import_attach := True\<rparr>) g else g) ((holds s)(b := {#})) (leak s)" by blast
    with G_import show ?thesis by (cases "r = 0") (simp_all add: gem_put_def gem_inv_def)
  next
    case (G_free b)
    with assms(2) msm_gem_free_object_ok [OF ok, of b] show ?thesis by (auto simp: gem_inv_def)
  next
    case (G_get_pages pe b)
    with assms(2) show ?thesis
      using step_put [OF inv msm_gem_get_pages_good [OF un, where pe = pe]] by simp
  next
    case (G_put_pages b)
    with assms(2) show ?thesis using step_put1 [OF inv msm_gem_put_pages_good [OF un]] by simp
  next
    case (G_fault err pe pgoff b)
    with assms(2) show ?thesis
      using step_same [OF inv msm_gem_fault_good [OF un, where pe = pe and pgoff = pgoff]] by simp
  next
    case (G_get_iova mem node a b)
    with assms(2) msm_gem_get_iova_good [OF un, of b mem node a] gem_inv_same [OF inv] show ?thesis by fastforce
  next
    case (G_set_iova mem node a v b)
    with assms(2) show ?thesis using step_same [OF inv msm_gem_set_iova_good [OF un]] by simp
  next
    case (G_pin_iova mem node pe ret a b)
    with nopin show ?thesis by simp
  next
    case (G_unpin_iova a b)
    with assms(2) show ?thesis using step_put1 [OF inv msm_gem_unpin_iova_good [OF un]] by simp
  next
    case (G_get_vaddr pe vmap b)
    with assms(2) show ?thesis
      using step_same [OF inv get_vaddr_good [OF un, where pe = pe and m = 0]] by (simp add: msm_gem_get_vaddr_def)
  next
    case (G_get_vaddr_active pe vmap b)
    with assms(2) have b: "unlocked b s" "0 < active_count (gem_objs (dev s) b)" by simp_all
    note o = goodD(4) [OF un [OF b(1)]]
    have "pages (gem_objs (dev s) b)" using active_pinned [OF o free [OF b(1)]] b(2) obj_okD(9) [OF o] by simp
    with G_get_vaddr_active show ?thesis
      using step_same [OF inv get_vaddr_good [OF un [OF b(1)], of 2 pe vmap]] by (simp add: msm_gem_get_vaddr_active_def)
  next
    case (G_put_vaddr b)
    with assms(2) have b: "unlocked b s" by simp
    have "same_else b (dev s) (msm_gem_put_vaddr b (dev s))" by (simp add: msm_gem_put_vaddr_def)
    from gem_inv_same [OF inv this msm_gem_put_vaddr_good [OF un [OF b]]] G_put_vaddr show ?thesis by simp
  next
    case (G_madvise m b)
    with assms(2) show ?thesis using step_same [OF inv msm_gem_madvise_good [OF un free]] by simp
  next
    case (G_submit_lock b)
    with assms(2) show ?thesis using step_put1 [OF inv msm_gem_active_get_good [OF un]] by simp
  next
    case (G_submit_pin mem node pe ret a b)
    with nopin show ?thesis by simp
  next
    case (G_submit_undo a' b)
    with assms(2) show ?thesis
      using step_put1 [OF inv submit_unlock_good [OF good]] step_put1 [OF inv submit_undo_good [OF un]]
      by (cases a') simp_all
  next
    case (G_job_run i a b)
    with assms(2) show ?thesis using step_put1 [OF inv job_run_object_good [OF un _ _ ix]] by simp
  next
    case (G_retire a i f b)
    with assms(2) show ?thesis using step_put1 [OF inv submit_retire_good [OF un]] by simp
  next
    case (G_scan_take l n)
    with scan_take_ok [OF ok, of l n] gem_inv_dev show ?thesis by (metis gem_exec.simps(21) snd_conv surj_pair)
  next
    case (G_shrink f b)
    with assms(2) show ?thesis using step_same [OF inv shrink_object_good [OF un free]] by simp
  next
    case (G_scan_splice l n)
    with scan_splice_ok [OF ok, of l n] gem_inv_dev show ?thesis by simp
  next
    case (G_shrinker_scan swap n ref lock nr)
    with assms(2) show ?thesis
      using step_ok [OF msm_gem_shrinker_scan_ok [OF ok]] lockableD by simp
  next
    case (G_shrinker_vmap gpu n ref lock)
    with assms(2) show ?thesis
      using step_ok [OF msm_gem_shrinker_vmap_ok [OF ok]] lockableD by simp
  next
    case (G_fence_alloc mem i)
    with gem_inv_ctx [OF inv fence_alloc_keeps [of "dev s" i mem]] ix show ?thesis by simp
  next
    case (G_fence_done i f)
    with assms(2) gem_inv_ctx [OF inv, of i] ix show ?thesis by simp
  next
    case (G_update_fence i f)
    with assms(2) gem_inv_ctx [OF inv, of i] ix show ?thesis by simp
  qed
qed

lemma gem_step_inv:
  assumes "gem_inv s" "gem_allowed op s" "gem_exec op s = Some s'"
  shows "gem_inv s'"
proof (cases "gem_pins op")
  case None
  with gem_step [OF assms(1,2)] assms(3) show ?thesis by auto
next
  case (Some b)
  with gem_step_pin [OF assms(1,2) Some] assms(3) show ?thesis by simp
qed

lemma gem_init_inv: "gem_init s \<Longrightarrow> gem_inv s"
  by (simp add: gem_init_def gem_inv_def gem_ok_def mm_struct_def)

lemma gem_reachable_inv: "gem_reachable s \<Longrightarrow> gem_inv s"
proof (induction rule: gem_reachable.induct)
  case (init s)
  then show ?case by (rule gem_init_inv)
next
  case (step s op s')
  then show ?case using gem_step_inv [of s op s'] by auto
qed

end
