(* ===== verification/GEM_Kept.thy ===== *)
theory GEM_Kept
  imports GEM_Reach
begin

text \<open>
  What an operation does to the mappings of the objects: whoever holds an address of a buffer relies on
  its mapping staying where it is.  Most operations leave the lists of mappings alone, some add or
  change one entry and keep its address, and those that remove mappings leave busy ones.
\<close>

section \<open>Operations that leave the mappings alone\<close>

definition same_vmas :: "msm_drm_private \<Rightarrow> msm_drm_private \<Rightarrow> bool" where
  "same_vmas g g' = (objects g' = objects g \<and> (\<forall>c. vmas (gem_objs g' c) = vmas (gem_objs g c)))"

lemma same_vmas_refl [simp]: "same_vmas g g"
  by (simp add: same_vmas_def)

lemma same_vmas_trans: "same_vmas g g' \<Longrightarrow> same_vmas g' g'' \<Longrightarrow> same_vmas g g''"
  by (simp add: same_vmas_def)

lemma same_vmas_upd: "(\<And>x. vmas (f x) = vmas x) \<Longrightarrow> same_vmas g (upd_obj b f g)"
  by (simp add: same_vmas_def upd_obj_def)

lemma mark_vmas [simp]:
  "vmas (gem_objs (mark_purgeable b g) c) = vmas (gem_objs g c)" "vmas (gem_objs (mark_unpurgeable b g) c) = vmas (gem_objs g c)"
  "vmas (gem_objs (mark_evictable b g) c) = vmas (gem_objs g c)" "vmas (gem_objs (mark_unevictable b g) c) = vmas (gem_objs g c)"
  "objects (mark_purgeable b g) = objects g" "objects (mark_unpurgeable b g) = objects g"
  "objects (mark_evictable b g) = objects g" "objects (mark_unevictable b g) = objects g"
  by (simp_all add: mark_purgeable_def mark_unpurgeable_def mark_evictable_def mark_unevictable_def upd_obj_def Let_def)

lemma mm_vmas:
  "mm_del b g = Some g' \<Longrightarrow> objects g' = objects g \<and> (\<forall>c. vmas (gem_objs g' c) = vmas (gem_objs g c))"
  "mm_add b l g = Some g' \<Longrightarrow> objects g' = objects g \<and> (\<forall>c. vmas (gem_objs g' c) = vmas (gem_objs g c))"
  by (auto simp: mm_del_def mm_add_def upd_obj_def split: mm_node.splits)

lemma update_inactive_same: "update_inactive b g = Some g' \<Longrightarrow> same_vmas g g'"
  unfolding same_vmas_def
  by (auto simp: update_inactive_def Let_def split: if_splits bind_splits dest!: mm_vmas)

lemma update_obj_same:
  "update_inactive b (upd_obj b f g) = Some g' \<Longrightarrow> (\<And>x. vmas (f x) = vmas x) \<Longrightarrow> same_vmas g g'"
  using same_vmas_trans [OF same_vmas_upd update_inactive_same] by blast

lemma active_get_same: "msm_gem_active_get b g = Some g' \<Longrightarrow> same_vmas g g'"
  unfolding same_vmas_def
  by (auto simp: msm_gem_active_get_def upd_obj_def Let_def split: if_splits bind_splits dest!: mm_vmas)

lemma active_put_same: "msm_gem_active_put b g = Some g' \<Longrightarrow> same_vmas g g'"
  by (simp add: msm_gem_active_put_update) (erule update_obj_same, simp)

lemma get_pages_same: "get_pages pe b g = Some (ret, g') \<Longrightarrow> same_vmas g g'"
  using update_inactive_same [unfolded same_vmas_def]
  by (auto simp: get_pages_def get_pages_vram_def same_vmas_def upd_obj_def Let_def split: if_splits)

lemma unpin_locked_same: "msm_gem_unpin_locked b g = Some g' \<Longrightarrow> same_vmas g g'"
  by (simp add: msm_gem_unpin_locked_def) (erule update_obj_same, simp)

lemma put_pages_same: "msm_gem_put_pages b g = Some g' \<Longrightarrow> same_vmas g g'"
  by (simp add: msm_gem_put_pages_def) (erule update_obj_same, simp)

lemma pin_same: "update_inactive b (upd_obj b (\<lambda>x. x\<lparr>pin_count := n x\<rparr>) g) = Some g' \<Longrightarrow> same_vmas g g'"
  by (erule update_obj_same) simp

lemma msm_gem_get_pages_same: "msm_gem_get_pages pe b g = Some (ret, g') \<Longrightarrow> same_vmas g g'"
  by (auto simp: msm_gem_get_pages_def same_vmas_def split: if_splits bind_splits
    dest!: get_pages_same [unfolded same_vmas_def] pin_same [unfolded same_vmas_def])

lemma fault_same: "msm_gem_fault err pe pgoff b g = Some (ret, g') \<Longrightarrow> same_vmas g g'"
  by (auto simp: msm_gem_fault_def same_vmas_def split: if_splits bind_splits
    dest!: get_pages_same [unfolded same_vmas_def])

lemma get_vaddr_same:
  assumes "get_vaddr pe vmap m b g = Some (ret, g')"
  shows "same_vmas g g'"
proof -
  let ?g = "upd_obj b (\<lambda>x. x\<lparr>vmap_count := vmap_count x + 1\<rparr>) g"
  let ?fail = "upd_obj b (\<lambda>x. x\<lparr>vmap_count := vmap_count x - 1\<rparr>)"
  have u: "same_vmas g ?g" by (rule same_vmas_upd) simp
  have f: "same_vmas g' (?fail g')" for g' by (rule same_vmas_upd) simp
  consider "g' = g" | "g' = ?g" | r g1 where "get_pages pe b ?g = Some (r, g1)" "g' = ?fail g1"
    | r g1 where "get_pages pe b ?g = Some (r, g1)" "update_inactive b (upd_obj b (\<lambda>x. x\<lparr>vaddr := True\<rparr>) g1) = Some g'"
    using assms by (auto simp: get_vaddr_def Let_def split: if_splits bind_splits)
  then show ?thesis
  proof cases
    case (3 r g1)
    then show ?thesis using same_vmas_trans [OF u same_vmas_trans [OF get_pages_same f]] by blast
  next
    case (4 r g1)
    have "same_vmas g1 g'" by (rule update_obj_same [OF 4(2)]) simp
    with same_vmas_trans [OF u get_pages_same [OF 4(1)]] show ?thesis by (rule same_vmas_trans)
  qed (use u in simp_all)
qed

lemma madvise_same: "msm_gem_madvise m b g = Some (ret, g') \<Longrightarrow> same_vmas g g'"
  using update_inactive_same [unfolded same_vmas_def]
  by (fastforce simp: msm_gem_madvise_def same_vmas_def upd_obj_def Let_def split: if_splits)

lemma scan_same: "same_vmas g (snd (scan_take l n g))" "same_vmas g (scan_splice l n g)"
  by (auto simp: scan_take_def scan_splice_def same_vmas_def fold_nodes upd_obj_def split: list.splits)

lemma vunmap_same: "same_vmas g (msm_gem_vunmap b g)"
  by (auto simp: msm_gem_vunmap_def intro!: same_vmas_upd)

section \<open>Operations that keep every mapping\<close>

text \<open>Every mapping is still there, for the same address space and at the same address.\<close>

definition carry :: "(nat option \<times> msm_gem_vma) list \<Rightarrow> (nat option \<times> msm_gem_vma) list \<Rightarrow> bool" where
  "carry xs ys = (\<forall>p \<in> set xs. \<exists>v. (fst p, v) \<in> set ys \<and> iova v = iova (snd p))"

definition carried :: "msm_drm_private \<Rightarrow> msm_drm_private \<Rightarrow> bool" where
  "carried g g' = (objects g' = objects g \<and> (\<forall>c. carry (vmas (gem_objs g c)) (vmas (gem_objs g' c))))"

lemma carry_refl [simp]: "carry xs xs"
  by (auto simp: carry_def)

lemma carry_trans: "carry xs ys \<Longrightarrow> carry ys zs \<Longrightarrow> carry xs zs"
  by (fastforce simp: carry_def)

lemma carry_subset: "set xs \<subseteq> set ys \<Longrightarrow> carry xs ys"
  unfolding carry_def by (metis prod.collapse subsetD)

lemma carry_set_vma: "map_of xs a = Some v \<Longrightarrow> iova v' = iova v \<Longrightarrow> carry xs (set_vma a v' xs)"
  by (induction xs) (fastforce simp: carry_def split: if_splits)+

lemma carried_trans: "carried g g' \<Longrightarrow> carried g' g'' \<Longrightarrow> carried g g''"
  unfolding carried_def by (metis carry_trans)

lemma same_carried: "same_vmas g g' \<Longrightarrow> carried g g'"
  by (simp add: same_vmas_def carried_def)

lemma carried_set_vma:
  assumes "lookup_vma (gem_objs g b) a = Some v" "iova v' = iova v"
  shows "carried g (upd_vmas b (set_vma a v') g)"
  using carry_set_vma assms by (auto simp: carried_def upd_vmas_def upd_obj_def lookup_vma_def)

lemma carried_spaces [simp]: "carried g (g'\<lparr>spaces := sp\<rparr>) = carried g g'"
  by (simp add: carried_def)

lemma get_vma_subset:
  assumes "get_vma_locked mem node (Some a) b g = Some (ret, g')"
  shows "set (vmas (gem_objs g c)) \<subseteq> set (vmas (gem_objs g' c))"
proof (cases "lookup_vma (gem_objs g b) (Some a)")
  case (Some v)
  with assms show ?thesis by (simp add: get_vma_locked_def)
next
  case None
  then have "Some a \<notin> fst ` set (vmas (gem_objs g b))" by (simp add: lookup_None)
  note ends = vma_list_end [OF this]
  from None assms show ?thesis
    by (cases "c = b") (auto simp: get_vma_locked_def add_vma_def upd_vmas_def upd_obj_def ends split: if_splits prod.splits)
qed

lemma get_vma_carried:
  assumes "get_vma_locked mem node (Some a) b g = Some (ret, g')"
  shows "carried g g'"
proof -
  have "objects g' = objects g"
    using assms by (auto simp: get_vma_locked_def add_vma_def upd_vmas_def upd_obj_def split: option.splits if_splits prod.splits)
  with carry_subset [OF get_vma_subset [OF assms]] show ?thesis by (simp add: carried_def)
qed

lemma map_vma_iova: "msm_gem_map_vma ret as v sz = (r, as', v') \<Longrightarrow> iova v' = iova v"
  by (auto simp: msm_gem_map_vma_def Let_def split: if_splits)

lemma pin_vma_carried:
  assumes "msm_gem_pin_vma_locked pe map_ret (Some a) b g = Some (ret, g')"
  shows "carried g g'"
proof -
  consider "g' = g" | r g1 where "get_pages pe b g = Some (r, g1)" "g' = g1"
    | g1 v r as v' where "get_pages pe b g = Some (0, g1)" "lookup_vma (gem_objs g1 b) (Some a) = Some v"
      "msm_gem_map_vma map_ret (Some (spaces g1 a)) v (word_of_nat (obj_size (gem_objs g1 b))) = (r, as, v')"
      "same_vmas (upd_vmas b (set_vma (Some a) v') g1) g'"
    using assms
    by (auto simp: msm_gem_pin_vma_locked_def same_vmas_def upd_obj_def Let_def split: if_splits bind_splits option.splits prod.splits)
  then show ?thesis
  proof cases
    case (3 g1 v r as v')
    from carried_set_vma [OF 3(2) map_vma_iova [OF 3(3)]] same_carried [OF 3(4)] same_carried [OF get_pages_same [OF 3(1)]]
    show ?thesis by (blast intro: carried_trans)
  qed (use get_pages_same same_carried in \<open>auto simp: same_vmas_def\<close>)
qed

lemma unpin_vma_iova: "iova (msm_gem_unpin_vma v) = iova v"
  by (simp add: msm_gem_unpin_vma_def)

lemma unpin_fenced_iova: "msm_gem_unpin_vma_fenced v ctx = Some v' \<Longrightarrow> iova v' = iova v"
  by (auto simp: msm_gem_unpin_vma_fenced_def unpin_vma_iova Let_def split: option.splits)

lemma get_and_pin_carried:
  "get_and_pin_iova_range_locked mem node pe map_ret (Some a) b g = Some (ret, v, g') \<Longrightarrow> carried g g'"
  by (auto simp: get_and_pin_iova_range_locked_def split: if_splits bind_splits
    dest!: get_vma_carried pin_vma_carried intro: carried_trans)

lemma get_iova_carried: "msm_gem_get_iova mem node (Some a) b g = Some (ret, v, g') \<Longrightarrow> carried g g'"
  by (auto simp: msm_gem_get_iova_def dest!: get_vma_carried)

lemma carried_unpin:
  "lookup_vma (gem_objs g b) a = Some v \<Longrightarrow> carried g (upd_vmas b (set_vma a (msm_gem_unpin_vma v)) g)"
  by (erule carried_set_vma) (rule unpin_vma_iova)

lemma unpin_iova_carried:
  assumes "msm_gem_unpin_iova (Some a) b g = Some g'"
  shows "carried g g'"
proof (cases "lookup_vma (gem_objs g b) (Some a)")
  case None
  with assms show ?thesis by (simp add: msm_gem_unpin_iova_def same_carried)
next
  case (Some v)
  with assms have "msm_gem_unpin_locked b (upd_vmas b (set_vma (Some a) (msm_gem_unpin_vma v)) g) = Some g'"
    by (simp add: msm_gem_unpin_iova_def)
  from carried_trans [OF carried_unpin [OF Some] same_carried [OF unpin_locked_same [OF this]]] show ?thesis .
qed

lemma submit_pin_carried: "submit_pin_object mem node pe map_ret (Some a) b g = Some (ret, g') \<Longrightarrow> carried g g'"
  by (auto simp: submit_pin_object_def split: if_splits bind_splits
    dest!: get_vma_carried pin_vma_carried intro: carried_trans)

lemma cleanup_carried:
  assumes "submit_cleanup_bo vp op ac a b g = Some g'"
  shows "carried g g'"
proof -
  from assms obtain g1 g2 where
    g1: "(if vp then map_option (\<lambda>v. upd_vmas b (set_vma a (msm_gem_unpin_vma v)) g) (lookup_vma (gem_objs g b) a)
      else Some g) = Some g1"
    and g2: "(if op then msm_gem_unpin_locked b g1 else Some g1) = Some g2"
    and g3: "(if ac then msm_gem_active_put b g2 else Some g2) = Some g'"
    by (auto simp: submit_cleanup_bo_def bind_eq_Some_conv)
  have "carried g g1" using g1 carried_unpin by (auto simp: same_carried split: if_splits)
  moreover have "carried g1 g2" using g2 by (auto simp: same_carried unpin_locked_same split: if_splits)
  moreover have "carried g2 g'" using g3 by (auto simp: same_carried active_put_same split: if_splits)
  ultimately show ?thesis by (blast intro: carried_trans)
qed

lemma job_run_carried: "job_run_object i a b g = Some g' \<Longrightarrow> carried g g'"
  by (auto simp: job_run_object_def split: bind_splits intro: carried_set_vma unpin_fenced_iova)

section \<open>Operations that remove mappings\<close>

definition vma_busy :: "(nat \<Rightarrow> msm_fence_context) \<Rightarrow> msm_gem_vma \<Rightarrow> bool" where
  "vma_busy ctxs v = (0 < inuse v \<or> pending ctxs v)"

text \<open>An object with a busy mapping stays, and so does the mapping, at its address.\<close>

definition kept :: "msm_drm_private \<Rightarrow> msm_drm_private \<Rightarrow> bool" where
  "kept g g' = (\<forall>b \<in> set (objects g). \<forall>p \<in> set (vmas (gem_objs g b)). vma_busy (fence_ctxs g) (snd p) \<longrightarrow>
     b \<in> set (objects g') \<and> (\<exists>v. (fst p, v) \<in> set (vmas (gem_objs g' b)) \<and> iova v = iova (snd p)))"

lemma carried_kept: "carried g g' \<Longrightarrow> kept g g'"
  by (simp add: carried_def carry_def kept_def)

lemma same_kept: "same_vmas g g' \<Longrightarrow> kept g g'"
  by (intro carried_kept same_carried)

lemma clear_kept:
  assumes "good b k H g" "clear_iova_locked (Some a) b g = Some (ret, g')"
  shows "kept g g'" "objects g' = objects g"
proof -
  define x where "x = gem_objs g b"
  note ok = goodD(4) [OF assms(1), folded x_def]
  have "objects g' = objects g \<and> kept g g'"
  proof (cases "lookup_vma x (Some a)")
    case None
    with assms(2) show ?thesis by (simp add: clear_iova_locked_def x_def carried_kept same_carried)
  next
    case (Some v)
    from vma_ok_inuse [OF obj_okD(6) [OF ok Some]] obtain m where
      m: "msm_gem_vma_inuse (fence_ctxs g) v = Some (vma_busy (fence_ctxs g) v, v\<lparr>fence_mask := m\<rparr>)"
      unfolding vma_busy_def by blast
    from Some assms(2) obtain as v' where c: "clear_iova (fence_ctxs g) (spaces g a) v = Some (ret, as, v')"
      and g': "g' = upd_vmas b (if ret = 0 then del_vma (Some a) else set_vma (Some a) v') (g\<lparr>spaces := (spaces g)(a := as)\<rparr>)"
      by (auto simp: clear_iova_locked_def x_def [symmetric] split: option.splits prod.splits)
    have o: "objects g' = objects g" by (simp add: g' upd_vmas_def upd_obj_def)
    have ys: "vmas (gem_objs g' b) = (if ret = 0 then del_vma (Some a) (vmas x) else set_vma (Some a) v' (vmas x))"
      "\<And>c. c \<noteq> b \<Longrightarrow> vmas (gem_objs g' c) = vmas (gem_objs g c)"
      by (simp_all add: g' upd_vmas_def upd_obj_def x_def)
    have mo: "map_of (vmas x) (Some a) = Some v" using Some by (simp add: lookup_vma_def)
    note props = set_vma_props [OF mo obj_okD(3) [OF ok]]
    have there: "\<exists>u. (fst p, u) \<in> set (vmas (gem_objs g' b)) \<and> iova u = iova (snd p)"
      if p: "p \<in> set (vmas x)" "vma_busy (fence_ctxs g) (snd p)" for p
    proof (cases "fst p = Some a")
      case True
      then have "snd p = v" using p(1) mo obj_okD(3) [OF ok] by (metis map_of_is_SomeI option.inject prod.collapse)
      with p(2) m c have "ret = - EBUSY" "v' = v\<lparr>fence_mask := m\<rparr>" by (simp_all add: clear_iova_def)
      then have "(Some a, v') \<in> set (vmas (gem_objs g' b))" "iova v' = iova v"
        using ys(1) props(2) by simp_all
      with True \<open>snd p = v\<close> show ?thesis by auto
    next
      case False
      then have "p \<in> set (vmas (gem_objs g' b))" using p(1) ys(1) props(2,5) by simp
      then show ?thesis by (metis prod.collapse)
    qed
    have "\<exists>u. (fst p, u) \<in> set (vmas (gem_objs g' c)) \<and> iova u = iova (snd p)"
      if "p \<in> set (vmas (gem_objs g c))" "vma_busy (fence_ctxs g) (snd p)" for c p
      using there [of p] ys(2) [of c] that by (cases "c = b") (auto simp: x_def, metis prod.collapse)
    with o show ?thesis by (simp add: kept_def)
  qed
  then show "kept g g'" "objects g' = objects g" by simp_all
qed

lemma set_iova_kept:
  assumes "good b k H g" "msm_gem_set_iova mem node (Some a) v b g = Some (ret, g')"
  shows "kept g g'"
proof (cases "v = 0")
  case True
  with clear_kept [OF assms(1)] assms(2) show ?thesis by (simp add: msm_gem_set_iova_def)
next
  case False
  from get_vma_good [OF assms(1), of mem node a] obtain r g1 where
    g1: "get_vma_locked mem node (Some a) b g = Some (r, g1)" "same_else b g g1" "good b k H g1" by blast
  with False assms(2) consider "g' = g1" | r2 where "clear_iova_locked (Some a) b g1 = Some (r2, g')"
    by (auto simp: msm_gem_set_iova_def split: if_splits)
  then show ?thesis
  proof cases
    case 1
    with get_vma_carried [OF g1(1)] show ?thesis by (simp add: carried_kept)
  next
    case (2 r2)
    have f: "fence_ctxs g1 = fence_ctxs g" "objects g1 = objects g" using g1(2) by (simp_all add: same_else_def)
    from clear_kept [OF g1(3) 2] get_vma_subset [OF g1(1)] show ?thesis
      unfolding kept_def f by (meson subsetD)
  qed
qed

text \<open>Creating, importing and freeing an object does nothing to the others.\<close>

lemma kept_others:
  assumes "\<And>c. c \<noteq> b \<Longrightarrow> vmas (gem_objs g' c) = vmas (gem_objs g c)" "set (objects g) - {b} \<subseteq> set (objects g')"
    and "b \<in> set (objects g) \<Longrightarrow> \<forall>p \<in> set (vmas (gem_objs g b)). \<not> vma_busy (fence_ctxs g) (snd p)"
  shows "kept g g'"
  unfolding kept_def
proof (intro ballI impI)
  fix c p assume c: "c \<in> set (objects g)" "p \<in> set (vmas (gem_objs g c))" "vma_busy (fence_ctxs g) (snd p)"
  then have "c \<noteq> b" using assms(3) by blast
  with c(1) assms(1,2) have "c \<in> set (objects g')" "vmas (gem_objs g' c) = vmas (gem_objs g c)" by auto
  with c(2) show "c \<in> set (objects g') \<and> (\<exists>v. (fst p, v) \<in> set (vmas (gem_objs g' c)) \<and> iova v = iova (snd p))"
    by (metis prod.collapse)
qed

lemma new_kept:
  assumes "msm_gem_new mem 0 vm pe phys sz flags b g = Some (ret, g')" "b \<notin> set (objects g)" "use_mmu g"
    and "flags AND (MSM_BO_STOLEN OR MSM_BO_SCANOUT) = 0 \<or> vram_size g = 0"
  shows "kept g (upd_obj b f g')"
proof (rule kept_others)
  show "vmas (gem_objs (upd_obj b f g') c) = vmas (gem_objs g c)" if "c \<noteq> b" for c
    using assms that
    by (auto simp: msm_gem_new_def msm_gem_new_impl_def gem_publish_def mm_add_def upd_obj_def Let_def split: if_splits)
  show "set (objects g) - {b} \<subseteq> set (objects (upd_obj b f g'))"
    using assms
    by (auto simp: msm_gem_new_def msm_gem_new_impl_def gem_publish_def mm_add_def upd_obj_def Let_def split: if_splits)
qed (use assms(2) in simp)

lemma import_kept:
  assumes "msm_gem_import mem True 0 bytes b g = Some (ret, g')" "b \<notin> set (objects g)"
  shows "kept g (upd_obj b f g')"
proof (rule kept_others)
  show "vmas (gem_objs (upd_obj b f g') c) = vmas (gem_objs g c)" if "c \<noteq> b" for c
    using assms that
    by (auto simp: msm_gem_import_def msm_gem_new_impl_def gem_publish_def mm_add_def upd_obj_def Let_def split: if_splits)
  show "set (objects g) - {b} \<subseteq> set (objects (upd_obj b f g'))"
    using assms
    by (auto simp: msm_gem_import_def msm_gem_new_impl_def gem_publish_def mm_add_def upd_obj_def Let_def split: if_splits)
qed (use assms(2) in simp)

text \<open>Mappings of an object that nobody pins are idle.\<close>

lemma unpinned_idle:
  assumes "good b k H g" "\<forall>h \<in># H. \<not> pin_hold h" "p \<in> set (vmas (gem_objs g b))"
  shows "\<not> vma_busy (fence_ctxs g) (snd p)"
proof -
  obtain a where "vma_ok (fence_ctxs g) H (pages (gem_objs g b)) a (snd p)"
    using obj_okD(4) [OF goodD(4) [OF assms(1)] assms(3)] by blast
  from vma_ok_idle [OF this assms(2)] show ?thesis by (simp add: vma_busy_def)
qed

lemma obj_frames:
  "c \<noteq> b \<Longrightarrow> gem_objs (put_pages b g) c = gem_objs g c" "objects (put_pages b g) = objects g"
  "c \<noteq> b \<Longrightarrow> gem_objs (msm_gem_vunmap b g) c = gem_objs g c" "objects (msm_gem_vunmap b g) = objects g"
  "c \<noteq> b \<Longrightarrow> gem_objs (upd_obj b f g) c = gem_objs g c" "objects (upd_obj b f g) = objects g"
  by (simp_all add: put_pages_def put_pages_vram_def msm_gem_vunmap_def upd_obj_def Let_def)

lemma put_spaces_frame:
  assumes "put_iova_spaces cl b g = Some g'"
  shows "c \<noteq> b \<Longrightarrow> gem_objs g' c = gem_objs g c" "objects g' = objects g"
  using assms by (auto simp: put_iova_spaces_def upd_vmas_def upd_obj_def)

lemma free_kept:
  assumes "good b k {#} g" "msm_gem_free_object b g = Some g'"
  shows "kept g g'"
proof (rule kept_others)
  let ?g = "g\<lparr>objects := remove1 b (objects g)\<rparr>"
  let ?g1 = "if dontneed (gem_objs ?g b) then mark_unpurgeable b ?g else ?g"
  from assms(2) obtain g2 g3 where g: "mm_del b ?g1 = Some g2" "put_iova_spaces True b g2 = Some g3"
    "\<And>c. c \<noteq> b \<Longrightarrow> gem_objs g' c = gem_objs g3 c" "objects g' = objects g3"
    by (auto simp: msm_gem_free_object_def Let_def put_iova_vmas_def upd_vmas_def obj_frames
      split: bind_splits if_splits)
  have o: "objects g' = remove1 b (objects g)"
    using mm_vmas(1) [OF g(1)] put_spaces_frame(2) [OF g(2)] g(4) by simp
  have d: "distinct (objects g)" using goodD(2) [OF assms(1)] by (simp add: mm_struct_def)
  show "vmas (gem_objs g' c) = vmas (gem_objs g c)" if "c \<noteq> b" for c
    using that mm_vmas(1) [OF g(1)] put_spaces_frame(1) [OF g(2) that] g(3) [OF that] by simp
  show "set (objects g) - {b} \<subseteq> set (objects g')" by (simp add: o set_remove1_eq [OF d])
  show "\<forall>p \<in> set (vmas (gem_objs g b)). \<not> vma_busy (fence_ctxs g) (snd p)"
    using unpinned_idle [OF assms(1)] by simp
qed

section \<open>The shrinker\<close>

text \<open>Objects with a busy mapping keep all of them.\<close>

definition spares :: "msm_drm_private \<Rightarrow> msm_drm_private \<Rightarrow> bool" where
  "spares g g' = (fence_ctxs g' = fence_ctxs g \<and> objects g' = objects g \<and> (\<forall>c \<in> set (objects g).
     vmas (gem_objs g' c) = vmas (gem_objs g c) \<or> (\<forall>p \<in> set (vmas (gem_objs g c)). \<not> vma_busy (fence_ctxs g) (snd p))))"

lemma spares_refl: "spares g g"
  by (simp add: spares_def)

lemma spares_trans: "spares g g' \<Longrightarrow> spares g' g'' \<Longrightarrow> spares g g''"
  unfolding spares_def by metis

lemma spares_kept: "spares g g' \<Longrightarrow> kept g g'"
  unfolding spares_def kept_def by (metis prod.collapse)

lemma scan_frames: "fence_ctxs (snd (scan_take l n g)) = fence_ctxs g" "fence_ctxs (scan_splice l n g) = fence_ctxs g"
  by (simp_all add: scan_take_def scan_splice_def fold_nodes upd_obj_def split: list.splits)

lemma scan_spares: "spares g (snd (scan_take l n g))" "spares g (scan_splice l n g)"
  using scan_same [of g l n] scan_frames [of l n g] by (simp_all add: spares_def same_vmas_def)

lemma shrink_object_spares:
  assumes "good b k H g" "H_Active \<notin># H" "shrink_object f b g = Some (ok, g')"
  shows "spares g g'"
proof -
  from shrink_object_good [OF assms(1,2), of f] assms(3) have same: "same_else b g g'" by auto
  have idle: "\<forall>p \<in> set (vmas (gem_objs g b)). \<not> vma_busy (fence_ctxs g) (snd p)" if "pin_count (gem_objs g b) = 0"
    using unpinned_idle [OF assms(1) no_pins [OF goodD(4) [OF assms(1)] that]] by blast
  have "vmas (gem_objs g' b) = vmas (gem_objs g b) \<or> pin_count (gem_objs g b) = 0"
    using assms(3) vunmap_same [of g b]
    by (cases f) (auto simp: is_purgeable_def is_unevictable_def is_unpurgeable_def same_vmas_def split: if_splits)
  with same idle show ?thesis unfolding spares_def same_else_def by metis
qed

lemma scan_loop_spares:
  assumes "gem_ok g hs k" "\<forall>b \<in> set (objects g). lock b \<longrightarrow> H_Active \<notin># hs b"
    and "scan_loop f l n ref lock nr i freed g = Some (freed', g')"
  shows "spares g g'"
  using assms
proof (induction i arbitrary: freed g)
  case 0
  then show ?case by (simp add: spares_refl)
next
  case (Suc i)
  obtain r g1 where t: "scan_take l n g = (r, g1)" by fastforce
  note ok1 = scan_take_ok [OF Suc.prems(1) t]
  have s1: "spares g g1" using scan_spares(1) [of g l n] t by simp
  show ?case
  proof (cases "freed \<ge> nr \<or> r = None")
    case True
    with t s1 Suc.prems(3) spares_refl show ?thesis by (auto split: if_splits)
  next
    case False
    then obtain b where r: "r = Some b" "b \<in> set (objects g1)" using ok1 by auto
    show ?thesis
    proof (cases "ref b \<and> lock b")
      case True
      have act: "H_Active \<notin># hs b" using True r(2) ok1 Suc.prems(2) by simp
      have ok: "gem_ok g1 hs k" using ok1 by simp
      obtain d g2 where g2: "shrink_object f b g1 = Some (d, g2)" "gem_ok g2 hs k" "objects g2 = objects g1"
        by (rule shrink_object_ok [OF ok r(2) act])
      have s2: "spares g1 g2" by (rule shrink_object_spares [OF gem_ok_good [OF ok r(2)] act g2(1)])
      have "scan_loop f l n ref lock nr i (if d then freed + npages (gem_objs g2 b) else freed) g2 = Some (freed', g')"
        using Suc.prems(3) False True r(1) t g2(1) by (simp split: if_splits)
      with Suc.IH [OF g2(2)] Suc.prems(2) ok1 g2(3) have "spares g2 g'" by simp
      with s1 s2 show ?thesis by (blast intro: spares_trans)
    next
      case no: False
      then have "scan_loop f l n ref lock nr i freed g1 = Some (freed', g')"
        using Suc.prems(3) False r(1) t by (simp split: if_splits)
      with Suc.IH [of g1] Suc.prems(2) ok1 have "spares g1 g'" by simp
      with s1 show ?thesis by (rule spares_trans)
    qed
  qed
qed

lemma scan_all_spares:
  assumes "gem_ok g hs k" "\<forall>b \<in> set (objects g). lock b \<longrightarrow> H_Active \<notin># hs b"
    and "scan f l n ref lock nr g = Some (freed, g')"
  shows "spares g g'"
proof -
  from assms(3) obtain g1 where g1: "scan_loop f l n ref lock nr (length (mm g (Main l))) 0 g = Some (freed, g1)"
    "g' = scan_splice l n g1" by (auto simp: scan_def)
  from spares_trans [OF scan_loop_spares [OF assms(1,2) g1(1)] scan_spares(2)] show ?thesis by (simp add: g1(2))
qed

lemma scan_again:
  assumes "gem_ok g hs k" "\<forall>b \<in> set (objects g). lock b \<longrightarrow> H_Active \<notin># hs b"
    and "scan f l n ref lock nr g = Some (freed, g')"
  shows "gem_ok g' hs k" "\<forall>b \<in> set (objects g'). lock b \<longrightarrow> H_Active \<notin># hs b"
  using scan_ok [OF assms(1,2), of f l n ref nr] assms(2,3) by (metis option.inject prod.inject)+

lemma shrinker_scan_spares:
  assumes "gem_ok g hs k" "\<forall>b \<in> set (objects g). lock b \<longrightarrow> H_Active \<notin># hs b"
    and "msm_gem_shrinker_scan swap n ref lock nr g = Some (ret, g')"
  shows "spares g g'"
proof -
  from assms(3) obtain freed g1 where g1: "scan Purge Dontneed n ref lock nr g = Some (freed, g1)"
    "g' = g1 \<or> (\<exists>ev m. scan Evict Willneed n ref lock m g1 = Some (ev, g'))"
    by (fastforce simp: msm_gem_shrinker_scan_def split: bind_splits if_splits)
  note again = scan_again [OF assms(1,2) g1(1)]
  from g1(2) scan_all_spares [OF again] spares_refl have "spares g1 g'" by blast
  with scan_all_spares [OF assms(1,2) g1(1)] show ?thesis by (rule spares_trans)
qed

lemma shrink_vmaps_spares:
  assumes "gem_ok g hs k" "\<forall>b \<in> set (objects g). lock b \<longrightarrow> H_Active \<notin># hs b"
    and "shrink_vmaps ls n ref lock unmapped g = Some (u, g')"
  shows "spares g g'"
  using assms
proof (induction ls arbitrary: unmapped g)
  case Nil
  then show ?case by (simp add: spares_refl)
next
  case (Cons l ls)
  show ?case
  proof (cases "unmapped \<ge> 15")
    case True
    with Cons.prems(3) show ?thesis by (simp add: spares_refl)
  next
    case False
    with Cons.prems(3) obtain i g1 where g1: "scan Vmap_shrink l n ref lock (15 - unmapped) g = Some (i, g1)"
      "shrink_vmaps ls n ref lock (unmapped + i) g1 = Some (u, g')" by (auto split: bind_splits)
    from spares_trans [OF scan_all_spares [OF Cons.prems(1,2) g1(1)]
        Cons.IH [OF scan_again [OF Cons.prems(1,2) g1(1)] g1(2)]] show ?thesis .
  qed
qed

section \<open>Steps\<close>

lemma dev_put [simp]: "dev (gem_put s b H g) = g"
  by (simp add: gem_put_def)

text \<open>
  No operation of the system frees an object with a busy mapping, removes such a mapping or moves it
  to another address.
\<close>

lemma gem_step_kept:
  assumes inv: "gem_inv s" and "gem_allowed op s" "gem_exec op s = Some s'"
  shows "kept (dev s) (dev s')"
proof -
  have ok: "gem_ok (dev s) (holds s) (leak s)" using inv by (simp add: gem_inv_def)
  note good = gem_inv_good [OF inv] and un = unlockedD(1) [OF inv] and free = unlockedD(2) [OF inv]
  show ?thesis
  proof (cases op)
    case (G_new mem vm pe phys sz flags b)
    with assms(2,3) new_kept [of mem vm pe phys sz flags b "dev s" _ _ "\<lambda>x. x"] show ?thesis
      by (auto simp: upd_obj_id)
  next
    case (G_import mem bytes b)
    with assms(2,3) import_kept [of mem bytes b "dev s" _ _ "\<lambda>x. x"]
      import_kept [of mem bytes b "dev s" _ _ "\<lambda>x. x\<lparr>import_attach := True\<rparr>"] show ?thesis
      by (auto simp: upd_obj_id)
  next
    case (G_free b)
    with assms(2) have "good b (leak s) {#} (dev s)" using good [of b] by simp
    from free_kept [OF this] G_free assms(3) show ?thesis by auto
  next
    case (G_get_pages pe b)
    with assms(3) show ?thesis by (auto dest!: msm_gem_get_pages_same same_kept)
  next
    case (G_put_pages b)
    with assms(3) show ?thesis by (auto dest!: put_pages_same same_kept)
  next
    case (G_fault err pe pgoff b)
    with assms(3) show ?thesis by (auto dest!: fault_same same_kept)
  next
    case (G_get_iova mem node a b)
    with assms(3) show ?thesis by (auto dest!: get_iova_carried carried_kept)
  next
    case (G_set_iova mem node a v b)
    with assms(2) have "unlocked b s" by simp
    from set_iova_kept [OF un [OF this]] G_set_iova assms(3) show ?thesis by auto
  next
    case (G_pin_iova mem node pe ret a b)
    with assms(3) show ?thesis by (auto dest!: get_and_pin_carried carried_kept)
  next
    case (G_unpin_iova a b)
    with assms(3) show ?thesis by (auto dest!: unpin_iova_carried carried_kept)
  next
    case (G_get_vaddr pe vmap b)
    with assms(3) show ?thesis by (auto simp: msm_gem_get_vaddr_def dest!: get_vaddr_same same_kept)
  next
    case (G_get_vaddr_active pe vmap b)
    with assms(3) show ?thesis by (auto simp: msm_gem_get_vaddr_active_def dest!: get_vaddr_same same_kept)
  next
    case (G_put_vaddr b)
    have "same_vmas (dev s) (msm_gem_put_vaddr b (dev s))" unfolding msm_gem_put_vaddr_def by (rule same_vmas_upd) simp
    with G_put_vaddr assms(3) show ?thesis by (auto simp: same_kept)
  next
    case (G_madvise m b)
    with assms(3) show ?thesis by (auto dest!: madvise_same same_kept)
  next
    case (G_submit_lock b)
    with assms(3) show ?thesis by (auto dest!: active_get_same same_kept)
  next
    case (G_submit_pin mem node pe ret a b)
    with assms(3) show ?thesis by (auto dest!: submit_pin_carried carried_kept)
  next
    case (G_submit_undo a' b)
    with assms(3) show ?thesis by (cases a') (auto dest!: cleanup_carried carried_kept)
  next
    case (G_job_run i a b)
    with assms(3) show ?thesis by (auto dest!: job_run_carried carried_kept)
  next
    case (G_retire a i f b)
    with assms(3) show ?thesis by (auto dest!: cleanup_carried carried_kept)
  next
    case (G_scan_take l n)
    with assms(3) show ?thesis using scan_spares(1) [of "dev s" l n] by (auto simp: spares_kept)
  next
    case (G_shrink f b)
    with assms(2) have u: "unlocked b s" by simp
    from shrink_object_spares [OF un [OF u] free [OF u]] G_shrink assms(3) show ?thesis by (auto intro: spares_kept)
  next
    case (G_scan_splice l n)
    with assms(3) show ?thesis using scan_spares(2) [of "dev s" l n] by (auto simp: spares_kept)
  next
    case (G_shrinker_scan swap n ref lock nr)
    with assms(2) have "lockable lock s" by simp
    from shrinker_scan_spares [OF ok lockableD [OF this]] G_shrinker_scan assms(3) show ?thesis
      by (auto intro: spares_kept)
  next
    case (G_shrinker_vmap gpu n ref lock)
    with assms(2) have "lockable lock s" by simp
    note spared = shrink_vmaps_spares [OF ok lockableD [OF this]]
    from G_shrinker_vmap assms(3) obtain u g' where
      "msm_gem_shrinker_vmap gpu n (\<lambda>b. b \<in> set ref) (\<lambda>b. b \<in> set lock) (dev s) = Some (u, g')" "dev s' = g'" by auto
    with spared show ?thesis unfolding msm_gem_shrinker_vmap_def by (blast intro: spares_kept)
  next
    case (G_fence_alloc mem i)
    with assms(3) show ?thesis by (auto simp: set_ctx_def kept_def)
  next
    case (G_fence_done i f)
    with assms(3) show ?thesis by (auto simp: set_ctx_def kept_def)
  next
    case (G_update_fence i f)
    with assms(3) show ?thesis by (auto simp: set_ctx_def kept_def)
  qed
qed

end
