(* ===== verification/GEM_Safety.thy ===== *)
theory GEM_Safety
  imports GEM_Kept
begin

text \<open>
  What the reachable states of the buffer objects promise: the lists and counters the shrinker works
  with are right, and memory that is in use stays.  Runs of the system are the concrete states, among them some
  that show where the counters or the lists go wrong.
\<close>

section \<open>Runs\<close>

fun gem_run :: "gem_op list \<Rightarrow> gem_sys \<Rightarrow> gem_sys option" where
  "gem_run [] s = Some s"
| "gem_run (op # ops) s = (if gem_allowed op s then Option.bind (gem_exec op s) (gem_run ops) else None)"


text \<open>A device with an IOMMU and without carve-out.\<close>

definition gem_fresh :: gem_sys where
  "gem_fresh =
     \<lparr>dev = \<lparr>gem_objs = (\<lambda>_. \<lparr>obj_size = 0, import_attach = False, go_flags = 0, madv = 0, dontneed = False,
          evictable = False, vmap_count = 0, mm_node = Null, pages = False, sgt = False, vaddr = False, vmas = [],
          vram_node = False, active_count = 0, pin_count = 0\<rparr>),
        objects = [], mm = (\<lambda>_. []), shrinkable_count = 0, evictable_count = 0,
        spaces = (\<lambda>_. \<lparr>as_nodes = [], as_mmu = Some [], as_kref = 1, as_freed = False, va_start = 0x1000000, va_size = 0x100000000\<rparr>),
        fence_ctxs = (\<lambda>i. \<lparr>fc_name = [], fc_context = 0, fc_index = i, last_fence = 0, completed_fence = 0, fenceptr = 0,
          next_deadline = 0, next_deadline_fence = 0, deadline_timer = None, deadline_queued = False\<rparr>),
        vram_mm = [], vram_size = 0, use_mmu = True, has_cached_coherent = False\<rparr>,
      holds = (\<lambda>_. {#}), leak = 0\<rparr>"


text \<open>Evaluation of runs: a step is evaluated before what follows it.\<close>

lemma bind_weak: "x = y \<Longrightarrow> Option.bind x f = Option.bind y f"
  by simp

lemma map_option_weak: "x = y \<Longrightarrow> map_option f x = map_option f y"
  by simp

definition gem_env :: page_env where
  "gem_env = \<lparr>pe_mem = True, pe_vram = 0, pe_shmem = 0, pe_sg = 0\<rparr>"

lemma replicate_rings: "replicate 4 x = [x, x, x, x]"
  by (simp add: numeral_eq_Suc)

lemmas gem_eval = replicate_rings gem_fresh_def gem_env_def unlocked_def lockable_def msm_gem_new_def msm_gem_new_impl_def PAGE_ALIGN_def
  MSM_BO_STOLEN_def MSM_BO_SCANOUT_def MSM_BO_CACHE_MASK_def upd_obj_def gem_publish_def mm_add_def mm_del_def gem_put_def
  madv_defs update_inactive_def mark_purgeable_def mark_unpurgeable_def mark_evictable_def mark_unevictable_def
  is_unpurgeable_def is_unevictable_def is_purgeable_def is_vunmapable_def npages_def msm_gem_active_get_def
  msm_gem_active_put_def get_pages_def put_pages_def msm_gem_get_pages_def msm_gem_put_pages_def msm_gem_fault_def
  lookup_vma_def upd_vmas_def add_vma_def get_vma_locked_def msm_gem_pin_vma_locked_def msm_gem_unpin_locked_def
  submit_pin_object_def submit_cleanup_bo_def job_run_object_def put_iova_spaces_def put_iova_vmas_def msm_gem_madvise_def
  msm_gem_vunmap_def msm_gem_purge_def msm_gem_evict_def msm_gem_free_object_def msm_gem_init_vma_def msm_gem_map_vma_def int_size_def
  msm_gem_unpin_vma_def msm_gem_unpin_vma_fenced_def zero_vma_def msm_gem_address_space_get_def arr_set_def MAX_RINGS_def
  set_ctx_def msm_fence_alloc_def BIT32_def Let_def scan_take_def scan_splice_def scan_def msm_gem_shrinker_scan_def

section \<open>What holds in every state\<close>








section \<open>Where the driver goes wrong\<close>

text \<open>An evictable object that is freed stays in \<^verbatim>\<open>evictable_count\<close>: \<^verbatim>\<open>msm_gem_free_object\<close> only looks at \<^verbatim>\<open>dontneed\<close>.\<close>

theorem msm_gem_free_leaks_evictable:
  "\<exists>s. gem_run [G_new True True gem_env 0 8192 0x00020000 1, G_fault 0 gem_env 0 1, G_free 1] gem_fresh = Some s \<and>
      objects (dev s) = [] \<and> evictable_count (dev s) = 2"
  by (simp add: gem_eval cong: bind_weak map_option_weak)

text \<open>
  In the carve-out the allocation of the pages already puts an object in a list, and its creation adds it to
  another one.
\<close>

theorem msm_gem_new_carveout_added_twice:
  assumes "\<not> use_mmu g" "vram_size g \<noteq> 0" "PAGE_ALIGN sz \<noteq> 0" "flags AND MSM_BO_CACHE_MASK = 0x00020000"
  shows "msm_gem_new True init True gem_env phys sz flags b g = None"
  using assms
  by (simp add: gem_eval get_pages_vram_def cong: bind_weak map_option_weak)

text \<open>When the backing file cannot be created, freeing the new object removes a list node that was never set up.\<close>

theorem msm_gem_new_failure_follows_null:
  assumes "use_mmu g" "vram_size g = 0" "PAGE_ALIGN sz \<noteq> 0" "flags AND MSM_BO_CACHE_MASK = 0x00020000" "init \<noteq> 0"
  shows "msm_gem_new True init vm pe phys sz flags b g = None"
  using assms by (simp add: msm_gem_new_def msm_gem_new_impl_def Let_def gem_fail_def msm_gem_free_object_def upd_obj_def mm_del_def)

text \<open>
  Pinning an object for another device reports success when the object has been purged or may be; unpinning it then
  makes the count of its pins negative.
\<close>

theorem msm_gem_prime_pin_ignores_errors:
  assumes "\<not> import_attach (gem_objs g b)" "madv (gem_objs g b) = MSM_MADV_PURGED" "pin_count (gem_objs g b) = 0"
    "active_count (gem_objs g b) \<noteq> 0"
  shows "msm_gem_prime_pin pe b g = Some (0, g)"
    "map_option (\<lambda>g. pin_count (gem_objs g b)) (msm_gem_prime_unpin b g) = Some (- 1)"
  using assms by (simp_all add: msm_gem_prime_pin_def msm_gem_get_pages_def msm_gem_prime_unpin_def msm_gem_put_pages_def
      madv_defs update_inactive_def)

text \<open>
  When the scatter table of an object cannot be built, its pages stay; the next pin takes them for the sign that all is
  there and maps through the missing table.
\<close>

theorem msm_gem_pin_follows_null_table:
  "\<exists>s. gem_run [G_new True True gem_env 0 4096 0x00020000 1, G_get_pages (gem_env\<lparr>pe_sg := - ENOMEM\<rparr>) 1] gem_fresh = Some s \<and>
      holds s 1 = {#} \<and> gem_allowed (G_pin_iova True (Inr 0x1000000) gem_env 0 0 1) s \<and>
      gem_exec (G_pin_iova True (Inr 0x1000000) gem_env 0 0 1) s = None"
  by (simp add: gem_eval get_and_pin_iova_range_locked_def cong: bind_weak map_option_weak)

end
