(* ===== verification/Spec2Isabelle.thy ===== *)
theory Spec2Isabelle
  imports DPU_RM Sched_Recovery MDP5_Correct MDP5_CTL_Correct IOMMU_Correct DSI_PHY_Correct DPU_CTL_Correct HFI_Correct DSC_Correct Preempt_Correct VMA_Correct Submitqueue_Correct GEM_Safety
begin

text \<open>
  A verification library for the kernel driver of Qualcomm display and GPU hardware in this
  repository: \<^verbatim>\<open>src/msm\<close> (the DRM driver with the display engines DPU, MDP5 and MDP4, the DSI, HDMI and
  DisplayPort interfaces, and the Adreno GPUs) and \<^verbatim>\<open>src/scheduler\<close> (the GPU scheduler of Linux 5.19,
  brought back to older kernels).

  \<^bold>\<open>The program.\<close>  User space opens the device, creates buffer objects (\<^verbatim>\<open>msm_gem.c\<close>) and submit
  queues (\<^verbatim>\<open>msm_submitqueue.c\<close>), and submits command streams (\<^verbatim>\<open>msm_gem_submit.c\<close>).  A submission locks and
  pins its objects, becomes a job of the scheduler entity of its queue, and runs when its dependencies
  have been signalled (\<^verbatim>\<open>sched_main.c\<close>, \<^verbatim>\<open>sched_entity.c\<close>): \<^verbatim>\<open>msm_job_run\<close> replaces the pins of the
  mappings by the fence of the ring (\<^verbatim>\<open>msm_fence.c\<close>, \<^verbatim>\<open>msm_gem_vma.c\<close>) and writes the commands to a ring of the GPU.
  On A5xx several rings share the command processor by preemption (\<^verbatim>\<open>a5xx_preempt.c\<close>); on A6xx the driver
  talks to the power firmware through two message rings (\<^verbatim>\<open>a6xx_hfi.c\<close>).  The shrinker
  (\<^verbatim>\<open>msm_gem_shrinker.c\<close>) takes back the pages of objects nobody uses; the page tables of the GPU are kept by
  \<^verbatim>\<open>msm_iommu.c\<close>.  The display side assigns hardware
  blocks to encoders (\<^verbatim>\<open>dpu_rm.c\<close>), and pipes, mixers and buffer memory to planes (\<^verbatim>\<open>mdp5_pipe.c\<close>, \<^verbatim>\<open>mdp5_mixer.c\<close>,
  \<^verbatim>\<open>mdp5_smp.c\<close>), says through control paths what is blended where and flushes registers (\<^verbatim>\<open>mdp5_ctl.c\<close>,
  \<^verbatim>\<open>dpu_hw_ctl.c\<close>), and computes the parameters of compressed streams (\<^verbatim>\<open>drm_dsc_helper.c\<close>, \<^verbatim>\<open>dsi_host.c\<close>) and the
  timings of the serial link to the panel (\<^verbatim>\<open>dsi_phy.c\<close>).

  \<^bold>\<open>The theories.\<close>  A component has a theory with its data and operations, named as in the code, and one or more
  theories with its properties.

  \<^item> \<^verbatim>\<open>Prelude\<close>: the C integer types as words, error numbers, helpers of the kernel headers, arrays with checked
    access, lemmas on lists of owners and on words, and the shared interfaces as locales: \<open>owner_table\<close> and
    \<open>owner_reservation\<close> (tables of owners that are reserved and released), \<open>bounded_queue\<close> (a queue of messages with
    limited space) and \<open>op_simulation\<close> (a run of operations that follows an abstract one).
  \<^item> \<^verbatim>\<open>DPU_RM\<close>: \<^verbatim>\<open>dpu_rm.c\<close> and the constructors in \<^verbatim>\<open>dpu_hw_*.c\<close> it calls.  The four tables of the reservation
    interpret \<open>owner_reservation\<close>: a reservation never touches what another encoder holds, it is granted exactly when
    there are enough paired mixers, and a release afterwards leaves what a release without it leaves - except for the DSPPs.
  \<^item> \<^verbatim>\<open>Sched\<close>, \<^verbatim>\<open>Sched_Correct\<close>, \<^verbatim>\<open>Sched_Reach\<close>, \<^verbatim>\<open>Sched_Recovery\<close>: the GPU scheduler.  The world has the schedulers with
    their run queues, the entities, the jobs with their fences, and the state of the external fences as a parameter.
    Selection within a run queue is fair while nobody joins or leaves it, priorities are strict, dependencies are respected; over all interleavings
    of submissions, scheduler threads, completions and callbacks a job is in one place, run queues hold the linked
    entities, and the counter of jobs on the hardware is right; stopping, restarting and the timeout.
  \<^item> \<^verbatim>\<open>MDP5\<close>, \<^verbatim>\<open>MDP5_Correct\<close>: the shared memory pool keeps blocks with one owner, grants what is asked for up to the first
    client that needs nothing (the loop does not get past it), gives it back, and programs the owner fields; pipes are chosen from the free ones with the fewest unneeded capabilities.
  \<^item> \<^verbatim>\<open>MDP5_CTL\<close>, \<^verbatim>\<open>MDP5_CTL_Correct\<close>: the control paths of MDP5.  The layer registers decode to the stages that were asked
    for, flush masks are neither lost nor invented, two paired paths flush as at a meeting point, and the pool of paths
    stays well formed.
  \<^item> \<^verbatim>\<open>DPU_CTL\<close>, \<^verbatim>\<open>DPU_CTL_Correct\<close>: the control path of DPU.  The four words of a mixer decode to the stages (with the
    one combination where they do not as a theorem of its own), a flush reaches every block that was asked for, a reset
    undoes a configuration, and the polling for the end of a reset returns.
  \<^item> \<^verbatim>\<open>IOMMU\<close>, \<^verbatim>\<open>IOMMU_Correct\<close>: mapping a scatter list is all or nothing, unmapping restores the translations, both return
    on whole pages, and the first page table register is enabled while there is a page table.
  \<^item> \<^verbatim>\<open>DSI_PHY\<close>, \<^verbatim>\<open>DSI_PHY_Correct\<close>: the timings of the five PHY versions as rational arithmetic over integers, and the
    limits of the D-PHY specification that those of the third and fourth version meet.
  \<^item> \<^verbatim>\<open>HFI\<close>, \<^verbatim>\<open>HFI_Correct\<close>: the message rings refine queues that, on the newer firmware, lose their content when a
    message with its padding fills them exactly (an interpretation of \<open>bounded_queue\<close>); waiting for an
    acknowledgement ends; headers decode to what was sent; the start sequence succeeds with a firmware that answers.
  \<^item> \<^verbatim>\<open>DSC\<close>, \<^verbatim>\<open>DSC_Correct\<close>: the picture parameter set determines the members of the configuration that are packed, bounds of the rate control, and
    the closed form the DSI host uses for the extra mux bits.
  \<^item> \<^verbatim>\<open>Preempt\<close>, \<^verbatim>\<open>Preempt_Correct\<close>: the threads of the A5xx preemption as sequences of atomic actions; the state
    word is a lock (locale \<open>token_protocol\<close>) that one thread holds under every interleaving.
  \<^item> \<^verbatim>\<open>VMA\<close>, \<^verbatim>\<open>VMA_Correct\<close>: fences with wrapping sequence numbers follow an unbounded timeline (an interpretation of
    \<open>op_simulation\<close>), and mappings in use stay mapped.
  \<^item> \<^verbatim>\<open>Submitqueue\<close>, \<^verbatim>\<open>Submitqueue_Correct\<close>: queues and files are freed exactly with their last reference.
  \<^item> \<^verbatim>\<open>GEM\<close>, \<^verbatim>\<open>GEM_Correct\<close>, \<^verbatim>\<open>GEM_Reach\<close>, \<^verbatim>\<open>GEM_Kept\<close>, \<^verbatim>\<open>GEM_Safety\<close>: buffer objects over the mappings of \<^verbatim>\<open>VMA\<close>.  The
    invariant counts the holders of every object (pins, addresses, submissions before, during and after they run) as a
    multiset; \<^verbatim>\<open>GEM_Correct\<close> shows it for each operation on one object, \<^verbatim>\<open>GEM_Reach\<close> for the whole device with
    creation, freeing, the shrinker and the progress of fences, \<^verbatim>\<open>GEM_Kept\<close> that no operation removes or moves a
    mapping in use, and \<^verbatim>\<open>GEM_Safety\<close> draws the consequences.

  \<^bold>\<open>Conventions.\<close>  C integers that may wrap are words, counters that the code itself bounds are numbers.
  A null or wild pointer that is followed, an access outside an array or a corrupted list is \<open>None\<close>; errors of the driver
  are negative numbers as in the code, or the left side of a sum.  Locks are not part of the states: an operation runs while
  it holds its locks, and interleavings are the orders of these sections (finer where the code drops its lock, as in the
  shrinker, or uses none, as in the preemption).

  \<^bold>\<open>Termination.\<close>  Loops over lists and arrays are structural.  \<open>pop_deps\<close> and \<open>kill_deps\<close> end because the dependencies
  left become fewer, \<open>cookify\<close> and \<open>next_ring_from\<close> because the index approaches the end, \<open>inuse_loop\<close> because the mask loses a bit
  in every round, \<open>mux_loop\<close> because the number of bits falls.  \<open>ack_loop\<close> reads what the firmware has written and may
  not end; it is partial, and \<open>a6xx_hfi_wait_for_ack_returns\<close> shows that it ends on complete messages.  \<open>scan_loop\<close> has as fuel the
  length of the list, which falls by one in every round.  \<open>unmap_pages\<close>, \<open>map_pages\<close> and \<open>poll_reset\<close> are partial: the first two
  return exactly on whole pages, the last when the clock advances.  The runs of a preemption thread get one step for each
  ring and a constant number for the rest.

  \<^bold>\<open>Parameters.\<close>  What is not in the repository is an argument: the operations of \<^verbatim>\<open>dma_fence\<close> (a record of functions, with
  their documented behaviour as hypotheses), the callbacks \<^verbatim>\<open>run_job\<close> and \<^verbatim>\<open>free_job\<close>, outcomes of allocators, of
  \<^verbatim>\<open>drm_mm\<close>, of \<^verbatim>\<open>vmap\<close> and of page allocation, the operations of \<^verbatim>\<open>io-pgtable\<close> (with the laws \<open>pgtbl_laws\<close>), the
  answers of the SMMU driver, the firmware of the GMU, the command processor, what a register reads while the hardware
  resets, and the format tables of DRM.

  \<^bold>\<open>Bounds.\<close>  Fences: a fence is compared correctly while fewer than \<open>2\<^sup>3\<^sup>1\<close> submissions of its ring are outstanding.
  Mappings (\<open>vma_allowed\<close>): an address space does not give out address 0, a job starts with a pin, a ring gets fewer than \<open>2\<^sup>3\<^sup>1\<close>
  jobs, only idle mappings are evicted, the GPU passes only fences it was given, and buffers are smaller than 2 GiB, because their
  size passes through an \<^verbatim>\<open>int\<close> (\<open>int_size\<close>); the index of a fence context is not bounded, and the job of a context with an index
  above 3 is the one access outside an array.  Buffer objects (\<open>gem_allowed\<close>): callers hold the locks they need and release only
  what they took, user space advises one of the two values the ioctl lets through, faults are inside the object, a job is retired when its
  fence has passed, mappings wait only for fences that stay complete; the system has no carve-out memory, and the backing file of
  an object can be created and the array of pages of an import be allocated and filled.  Every failure of the allocators of pages and of the scatter
  table is covered; a pin after the latter follows a null pointer, which ends the run.  What happens outside these conditions
  is in theorems of its own (\<open>msm_gem_pin_follows_null_table\<close>, \<open>msm_gem_new_failure_follows_null\<close>,
  \<open>msm_gem_new_carveout_added_twice\<close>, \<open>msm_gem_prime_pin_ignores_errors\<close>, \<open>msm_gem_unpin_vma_fenced_out_of_range\<close>).
  Page tables: lists of fewer than \<open>2\<^sup>5\<^sup>2\<close> pages.  PHY timings: bit rates from 140.352 MHz to 9 GHz; below, the unsigned
  fields wrap, and \<open>hs_rqst\<close> does so below about 160 MHz already.

  \<^bold>\<open>Not modelled.\<close>  Register programming (most of the code of the GPU generations, of the display blocks, of HDMI, DSI and
  DisplayPort): what it means depends on hardware that is not described in the sources.  The generated register headers.  The
  callbacks of the DRM atomic framework (CRTCs, planes, encoders), whose state belongs to helpers outside the repository.
  The ioctl parsing of submissions, hang checking and recovery of the GPU core, debugfs and tracing.  The lock-free
  walk over chains of fences in the backported \<^verbatim>\<open>dma-fence-chain.c\<close>.

  \<^bold>\<open>Left.\<close>  Code with logic of its own that a further theory could hold: retirement and the performance counters of
  \<^verbatim>\<open>msm_gpu.c\<close>, the operating points in \<^verbatim>\<open>src/msm/shims/backports\<close>, and the chains of fences.
\<close>

end
